(* ===== verification/JsBase.thy ===== *)
theory JsBase
  imports Main "HOL-Library.AList" "HOL-Library.Sublist"
begin

text \<open>
  Prelude of the development: the pieces of the JavaScript standard library the runtime uses, as
  executable HOL functions, and the facts about them that the component theories share.

  \<^item> A \<open>Map\<close> keeps its insertion order, so it is an association list: \<open>map_of\<close> is
    \<open>get\<close>, \<open>AList.update\<close> is \<open>set\<close> (an existing key keeps its place, a new one goes to the end)
    and \<open>AList.delete\<close> is \<open>delete\<close>.
  \<^item> A \<open>Set\<close> is a list without repetitions in insertion order.
  \<^item> Strings are lists of characters; only ASCII letters change under \<open>toLowerCase\<close>.
  \<^item> Template literals print integers in decimal: \<open>nat_str\<close>, \<open>int_str\<close>.
\<close>

named_theorems js_simps \<open>rewrite rules for the JavaScript library model\<close>

type_synonym ('k, 'v) jsmap = "('k \<times> 'v) list"

abbreviation js_get :: "('k, 'v) jsmap \<Rightarrow> 'k \<Rightarrow> 'v option" where
  "js_get m k \<equiv> map_of m k"

abbreviation js_set :: "('k, 'v) jsmap \<Rightarrow> 'k \<Rightarrow> 'v \<Rightarrow> ('k, 'v) jsmap" where
  "js_set m k v \<equiv> AList.update k v m"

abbreviation js_delete :: "('k, 'v) jsmap \<Rightarrow> 'k \<Rightarrow> ('k, 'v) jsmap" where
  "js_delete m k \<equiv> AList.delete k m"

definition js_has :: "('k, 'v) jsmap \<Rightarrow> 'k \<Rightarrow> bool" where
  "js_has m k = (js_get m k \<noteq> None)"

definition js_keys :: "('k, 'v) jsmap \<Rightarrow> 'k list" where
  "js_keys m = map fst m"

definition set_add :: "'a list \<Rightarrow> 'a \<Rightarrow> 'a list" where
  "set_add xs x = (if x \<in> set xs then xs else xs @ [x])"

definition set_remove :: "'a list \<Rightarrow> 'a \<Rightarrow> 'a list" where
  "set_remove xs x = filter (\<lambda>y. y \<noteq> x) xs"

lemma js_get_set [simp, js_simps]: "js_get (js_set m k v) k' = (if k' = k then Some v else js_get m k')"
  by (simp add: AList.update_conv')

lemma js_get_delete [simp, js_simps]: "js_get (js_delete m k) k' = (if k' = k then None else js_get m k')"
  by (simp add: AList.delete_conv')

lemma js_has_set [simp, js_simps]: "js_has (js_set m k v) k' = (k' = k \<or> js_has m k')"
  by (auto simp: js_has_def)

lemma js_has_delete [simp, js_simps]: "js_has (js_delete m k) k' = (k' \<noteq> k \<and> js_has m k')"
  by (auto simp: js_has_def)

lemma js_has_iff: "js_has m k \<longleftrightarrow> k \<in> set (js_keys m)"
  by (simp add: js_has_def js_keys_def map_of_eq_None_iff)

lemma distinct_keys_set [intro, js_simps]: "distinct (map fst m) \<Longrightarrow> distinct (map fst (js_set m k v))"
  by (rule AList.distinct_update)

lemma distinct_keys_delete [intro, js_simps]: "distinct (map fst m) \<Longrightarrow> distinct (map fst (js_delete m k))"
  by (rule AList.distinct_delete)

lemma set_set_add [simp, js_simps]: "set (set_add xs x) = insert x (set xs)"
  by (auto simp: set_add_def)

lemma distinct_set_add [intro]: "distinct xs \<Longrightarrow> distinct (set_add xs x)"
  by (auto simp: set_add_def)

lemma set_set_remove [simp, js_simps]: "set (set_remove xs x) = set xs - {x}"
  by (auto simp: set_remove_def)

lemma distinct_set_remove [intro]: "distinct xs \<Longrightarrow> distinct (set_remove xs x)"
  by (simp add: set_remove_def)

lemma set_fold_set_add [simp, js_simps]: "set (foldl set_add xs ys) = set xs \<union> set ys"
  by (induction ys arbitrary: xs) auto

lemma distinct_fold_set_add [intro]: "distinct xs \<Longrightarrow> distinct (foldl set_add xs ys)"
  by (induction ys arbitrary: xs) (auto simp: distinct_set_add)


section \<open>Strings\<close>

definition lower_char :: "char \<Rightarrow> char" where
  "lower_char c =
     (let n = of_char c :: nat in if 65 \<le> n \<and> n \<le> 90 then char_of (n + 32) else c)"

definition lower :: "string \<Rightarrow> string" where
  "lower s = map lower_char s"

fun starts_with :: "string \<Rightarrow> string \<Rightarrow> bool" where
  "starts_with [] s = True"
| "starts_with (p # ps) [] = False"
| "starts_with (p # ps) (c # s) = (p = c \<and> starts_with ps s)"

fun contains :: "string \<Rightarrow> string \<Rightarrow> bool" where
  "contains p [] = (p = [])"
| "contains p (c # s) = (starts_with p (c # s) \<or> contains p s)"

definition contains_any :: "string list \<Rightarrow> string \<Rightarrow> bool" where
  "contains_any ps s = list_ex (\<lambda>p. contains p s) ps"

fun index_of :: "string \<Rightarrow> string \<Rightarrow> nat option" where
  "index_of p [] = (if p = [] then Some 0 else None)"
| "index_of p (c # s) =
     (if starts_with p (c # s) then Some 0 else map_option Suc (index_of p s))"

definition is_space :: "char \<Rightarrow> bool" where
  "is_space c = (c \<in> {CHR '' '', CHR 0x09, CHR 0x0A, CHR 0x0B, CHR 0x0C, CHR 0x0D, CHR 0xA0})"

definition trim :: "string \<Rightarrow> string" where
  "trim s = rev (dropWhile is_space (rev (dropWhile is_space s)))"

definition digit_char :: "nat \<Rightarrow> char" where
  "digit_char d = char_of (48 + d)"

fun nat_str :: "nat \<Rightarrow> string" where
  "nat_str n = (if n < 10 then [digit_char n] else nat_str (n div 10) @ [digit_char (n mod 10)])"

declare nat_str.simps [simp del]

definition int_str :: "int \<Rightarrow> string" where
  "int_str i = (if i < 0 then CHR ''-'' # nat_str (nat (- i)) else nat_str (nat i))"

lemma starts_with_iff: "starts_with p s \<longleftrightarrow> prefix p s"
  by (induction p s rule: starts_with.induct) auto

lemma starts_with_append [simp]: "starts_with p (p @ s)"
  by (simp add: starts_with_iff)

lemma contains_iff: "contains p s \<longleftrightarrow> sublist p s"
  by (induction s) (auto simp: starts_with_iff sublist_Cons_right)

lemma index_of_contains: "index_of p s \<noteq> None \<longleftrightarrow> contains p s"
  by (induction s) auto

lemma index_of_Some: "index_of p s = Some i \<Longrightarrow> i \<le> length s \<and> starts_with p (drop i s)"
  by (induction s arbitrary: i) (auto split: if_splits)

lemma length_lower [simp]: "length (lower s) = length s"
  by (simp add: lower_def)

lemma digit_char_inj: "d < 10 \<Longrightarrow> e < 10 \<Longrightarrow> digit_char d = digit_char e \<Longrightarrow> d = e"
proof -
  assume a: "d < 10" "e < 10" "digit_char d = digit_char e"
  then have "(of_char (char_of (48 + d)) :: nat) = of_char (char_of (48 + e))"
    by (simp add: digit_char_def)
  with a(1,2) show "d = e" by simp
qed

lemma nat_str_nonempty [simp]: "nat_str n \<noteq> []"
  by (subst nat_str.simps) simp

lemma nat_str_nonempty_sym [simp]: "[] \<noteq> nat_str n"
  by (metis nat_str_nonempty)

lemma nat_str_digits: "c \<in> set (nat_str n) \<Longrightarrow> \<exists>d < 10. c = digit_char d"
proof (induction n rule: nat_str.induct)
  case (1 n)
  show ?case
  proof (cases "n < 10")
    case True
    with "1.prems" show ?thesis by (subst (asm) nat_str.simps) auto
  next
    case False
    with "1.prems" have "c \<in> set (nat_str (n div 10)) \<or> c = digit_char (n mod 10)"
      by (subst (asm) nat_str.simps) auto
    with "1.IH" [OF False] show ?thesis by (auto intro: exI [of _ "n mod 10"])
  qed
qed

lemma nat_str_inj: "nat_str m = nat_str n \<Longrightarrow> m = n"
proof (induction m arbitrary: n rule: nat_str.induct)
  case (1 m)
  have m: "nat_str m = (if m < 10 then [digit_char m] else nat_str (m div 10) @ [digit_char (m mod 10)])"
    by (rule nat_str.simps)
  have n: "nat_str n = (if n < 10 then [digit_char n] else nat_str (n div 10) @ [digit_char (n mod 10)])"
    by (rule nat_str.simps)
  show ?case
  proof (cases "m < 10"; cases "n < 10")
    assume "m < 10" "n < 10"
    with "1.prems" m n show ?thesis by (auto dest: digit_char_inj)
  next
    assume "m < 10" "\<not> n < 10"
    with "1.prems" m n show ?thesis by simp
  next
    assume "\<not> m < 10" "n < 10"
    with "1.prems" m n show ?thesis by simp
  next
    assume g: "\<not> m < 10" "\<not> n < 10"
    with "1.prems" m n have "nat_str (m div 10) = nat_str (n div 10)"
      and "digit_char (m mod 10) = digit_char (n mod 10)" by simp_all
    then have "m div 10 = n div 10" and "m mod 10 = n mod 10"
      using "1.IH" [OF g(1)] by (auto dest: digit_char_inj [rotated 2])
    then show ?thesis by (metis div_mult_mod_eq)
  qed
qed

lemma nat_str_no_char:
  "(of_char c :: nat) < 48 \<or> 57 < (of_char c :: nat) \<Longrightarrow> c \<notin> set (nat_str n)"
  by (auto dest!: nat_str_digits simp: digit_char_def)

end
