(* ===== verification/Dedup.thy ===== *)
theory Dedup
  imports JsBase
begin

text \<open>
  The bounded set of recently seen ids of \<open>runtime/deduplicator.ts\<close>. The class keeps a \<open>Set\<close> and an
  insertion ordered array of the same ids; \<open>isDuplicate\<close> is the only operation that adds, and it
  evicts the oldest id when the capacity is reached. The well-formedness invariant says that the two
  fields agree, that no id is recorded twice and that the capacity is never exceeded (for a capacity
  of at least one; with capacity zero the class evicts nothing and then records one id more).

  The locale \<open>recent_ids\<close> states what the delivery coordinator relies on; it is interpreted on this
  model below.
\<close>

section \<open>The model\<close>

record dedup =
  seen :: "string list"
  order :: "string list"
  capacity :: nat

definition new_dedup :: "nat \<Rightarrow> dedup" where
  "new_dedup cap = \<lparr>seen = [], order = [], capacity = cap\<rparr>"

definition evict_oldest :: "dedup \<Rightarrow> dedup" where
  "evict_oldest d =
     (if length (order d) \<ge> capacity d then
        (case order d of
           [] \<Rightarrow> d
         | evicted # rest \<Rightarrow> d\<lparr>order := rest, seen := set_remove (seen d) evicted\<rparr>)
      else d)"

definition isDuplicate :: "dedup \<Rightarrow> string \<Rightarrow> bool \<times> dedup" where
  "isDuplicate d i =
     (if i \<in> set (seen d) then (True, d)
      else let d' = evict_oldest d
           in (False, d'\<lparr>seen := set_add (seen d') i, order := order d' @ [i]\<rparr>))"

definition dedup_has :: "dedup \<Rightarrow> string \<Rightarrow> bool" where
  "dedup_has d i = (i \<in> set (seen d))"

fun drop_prefixed :: "string \<Rightarrow> string list \<Rightarrow> string list \<Rightarrow> string list \<times> string list" where
  "drop_prefixed p [] sn = (sn, [])"
| "drop_prefixed p (i # ids) sn =
     (if starts_with p i then drop_prefixed p ids (set_remove sn i)
      else (case drop_prefixed p ids sn of (sn', kept) \<Rightarrow> (sn', i # kept)))"

definition dropByPrefix :: "dedup \<Rightarrow> string \<Rightarrow> dedup" where
  "dropByPrefix d p =
     (if order d = [] then d
      else (case drop_prefixed p (order d) (seen d) of
              (sn, kept) \<Rightarrow> d\<lparr>seen := sn, order := kept\<rparr>))"

definition dedup_drop :: "dedup \<Rightarrow> string \<Rightarrow> dedup" where
  "dedup_drop d i =
     (if i \<in> set (seen d)
      then d\<lparr>seen := set_remove (seen d) i, order := remove1 i (order d)\<rparr>
      else d)"

definition dedup_size :: "dedup \<Rightarrow> nat" where
  "dedup_size d = length (seen d)"


section \<open>Well-formedness\<close>

definition dedup_wf :: "dedup \<Rightarrow> bool" where
  "dedup_wf d \<longleftrightarrow>
     set (seen d) = set (order d) \<and> distinct (seen d) \<and> distinct (order d) \<and>
     length (order d) \<le> capacity d \<and> 0 < capacity d"

lemma dedup_wf_new [intro]: "0 < cap \<Longrightarrow> dedup_wf (new_dedup cap)"
  by (simp add: dedup_wf_def new_dedup_def)

lemma evict_oldest_order:
  "order (evict_oldest d) = (if length (order d) \<ge> capacity d then tl (order d) else order d)"
  by (simp add: evict_oldest_def split: list.split)

lemma evict_oldest_capacity [simp]: "capacity (evict_oldest d) = capacity d"
  by (simp add: evict_oldest_def split: list.split)

lemma evict_oldest_wf:
  "dedup_wf d \<Longrightarrow> dedup_wf (evict_oldest d) \<and> length (order (evict_oldest d)) < capacity d"
  by (cases "order d") (auto simp: dedup_wf_def evict_oldest_def)

lemma evict_oldest_seen: "set (seen (evict_oldest d)) \<subseteq> set (seen d)"
  by (auto simp: evict_oldest_def split: list.split)

lemma isDuplicate_wf: "dedup_wf d \<Longrightarrow> dedup_wf (snd (isDuplicate d i))"
  using evict_oldest_wf [of d] evict_oldest_seen [of d]
  by (auto simp: isDuplicate_def Let_def dedup_wf_def intro: distinct_set_add)

lemma dedup_drop_wf: "dedup_wf d \<Longrightarrow> dedup_wf (dedup_drop d i)"
  by (auto simp: dedup_drop_def dedup_wf_def length_remove1)

lemma set_foldl_remove [simp]: "set (foldl set_remove sn xs) = set sn - set xs"
  by (induction xs arbitrary: sn) auto

lemma distinct_foldl_remove: "distinct sn \<Longrightarrow> distinct (foldl set_remove sn xs)"
  by (induction xs arbitrary: sn) (auto simp: distinct_set_remove)

lemma drop_prefixed_eq:
  "drop_prefixed p ids sn =
     (foldl set_remove sn (filter (starts_with p) ids), filter (\<lambda>i. \<not> starts_with p i) ids)"
  by (induction ids arbitrary: sn) simp_all

lemma dropByPrefix_order: "order (dropByPrefix d p) = filter (\<lambda>i. \<not> starts_with p i) (order d)"
  by (simp add: dropByPrefix_def drop_prefixed_eq)

lemma dropByPrefix_wf:
  assumes "dedup_wf d"
  shows "dedup_wf (dropByPrefix d p)"
proof -
  have "length (filter (\<lambda>i. \<not> starts_with p i) (order d)) \<le> capacity d"
    using assms by (auto simp: dedup_wf_def intro: order_trans [OF length_filter_le])
  with assms show ?thesis
    by (auto simp: dropByPrefix_def dedup_wf_def drop_prefixed_eq distinct_foldl_remove)
qed


section \<open>The interface the delivery coordinator uses\<close>

locale recent_ids =
  fixes has :: "'s \<Rightarrow> 'i \<Rightarrow> bool"
    and record_id :: "'s \<Rightarrow> 'i \<Rightarrow> bool \<times> 's"
    and forget :: "'s \<Rightarrow> 'i \<Rightarrow> 's"
    and wf :: "'s \<Rightarrow> bool"
  assumes record_answer: "fst (record_id s i) = has s i"
    and record_dup: "has s i \<Longrightarrow> snd (record_id s i) = s"
    and record_has: "wf s \<Longrightarrow> has (snd (record_id s i)) i"
    and record_wf: "wf s \<Longrightarrow> wf (snd (record_id s i))"
    and forget_has: "wf s \<Longrightarrow> has (forget s i) j \<longleftrightarrow> has s j \<and> j \<noteq> i"
    and forget_wf: "wf s \<Longrightarrow> wf (forget s i)"
begin

lemma record_twice: "wf s \<Longrightarrow> fst (record_id (snd (record_id s i)) i)"
  by (simp add: record_answer record_has)

lemma record_after_forget: "wf s \<Longrightarrow> \<not> fst (record_id (forget s i) i)"
  by (simp add: record_answer forget_has)

fun record_all :: "'s \<Rightarrow> 'i list \<Rightarrow> 's" where
  "record_all s [] = s"
| "record_all s (i # ids) = record_all (snd (record_id s i)) ids"

lemma record_all_wf: "wf s \<Longrightarrow> wf (record_all s ids)"
  by (induction ids arbitrary: s) (auto intro: record_wf)

end

text \<open>A bounded set forgets its oldest id only when it is full.\<close>

locale bounded_recent_ids = recent_ids has record_id forget wf
  for has :: "'s \<Rightarrow> 'i \<Rightarrow> bool" and record_id and forget and wf +
  fixes window :: "'s \<Rightarrow> 'i list"
    and bound :: "'s \<Rightarrow> nat"
  assumes has_window: "wf s \<Longrightarrow> has s i \<longleftrightarrow> i \<in> set (window s)"
    and window_record: "wf s \<Longrightarrow> \<not> has s i \<Longrightarrow>
          window (snd (record_id s i)) =
            (if length (window s) \<ge> bound s then tl (window s) else window s) @ [i]"
    and bound_record: "bound (snd (record_id s i)) = bound s"
begin

lemma still_in_window:
  assumes "wf s" and "window s = xs @ i # ys" and "length ys + length js < bound s"
  shows "has (record_all s js) i"
  using assms
proof (induction js arbitrary: s xs ys)
  case Nil
  then show ?case by (simp add: has_window)
next
  case (Cons j js)
  let ?s = "snd (record_id s j)"
  have wf: "wf ?s" by (rule record_wf) (rule Cons.prems)
  show ?case
  proof (cases "has s j")
    case True
    with Cons show ?thesis by (simp add: record_dup)
  next
    case False
    obtain xs' where win: "window ?s = xs' @ i # (ys @ [j])"
    proof (cases "length (window s) \<ge> bound s")
      case full: True
      with Cons.prems have "xs \<noteq> []" by (cases xs) auto
      with False full Cons.prems(1,2) have "window ?s = tl xs @ i # (ys @ [j])"
        by (simp add: window_record)
      then show ?thesis by (rule that)
    next
      case notfull: False
      with False Cons.prems(1,2) have "window ?s = xs @ i # (ys @ [j])"
        by (simp add: window_record)
      then show ?thesis by (rule that)
    qed
    have "has (record_all ?s js) i"
      by (rule Cons.IH [OF wf win]) (use Cons.prems(3) in \<open>simp add: bound_record\<close>)
    then show ?thesis by simp
  qed
qed

lemma remembered:
  assumes "wf s" and "length js < bound s" and "\<not> has s i"
  shows "has (record_all (snd (record_id s i)) js) i"
proof (rule still_in_window [where xs = "if length (window s) \<ge> bound s then tl (window s) else window s"
      and ys = "[]"])
  show "wf (snd (record_id s i))" by (rule record_wf) (rule assms)
qed (use assms in \<open>simp_all add: window_record bound_record\<close>)

end

lemma isDuplicate_answer: "fst (isDuplicate d i) = dedup_has d i"
  by (simp add: isDuplicate_def dedup_has_def Let_def)

lemma dedup_has_order: "dedup_wf d \<Longrightarrow> dedup_has d i \<longleftrightarrow> i \<in> set (order d)"
  by (simp add: dedup_has_def dedup_wf_def)

interpretation dd: bounded_recent_ids dedup_has isDuplicate dedup_drop dedup_wf order capacity
proof unfold_locales
  fix d :: dedup and i j
  show "fst (isDuplicate d i) = dedup_has d i" by (rule isDuplicate_answer)
  show "dedup_has d i \<Longrightarrow> snd (isDuplicate d i) = d" by (simp add: isDuplicate_def dedup_has_def)
  show "dedup_wf d \<Longrightarrow> dedup_has (snd (isDuplicate d i)) i"
    by (simp add: isDuplicate_def dedup_has_def Let_def)
  show "dedup_wf d \<Longrightarrow> dedup_wf (snd (isDuplicate d i))" by (rule isDuplicate_wf)
  show "dedup_wf d \<Longrightarrow> dedup_has (dedup_drop d i) j \<longleftrightarrow> dedup_has d j \<and> j \<noteq> i"
    by (auto simp: dedup_has_def dedup_drop_def)
  show "dedup_wf d \<Longrightarrow> dedup_wf (dedup_drop d i)" by (rule dedup_drop_wf)
  show "dedup_wf d \<Longrightarrow> dedup_has d i \<longleftrightarrow> i \<in> set (order d)" by (rule dedup_has_order)
  show "dedup_wf d \<Longrightarrow> \<not> dedup_has d i \<Longrightarrow> order (snd (isDuplicate d i)) =
      (if length (order d) \<ge> capacity d then tl (order d) else order d) @ [i]"
    by (simp add: isDuplicate_def dedup_has_def Let_def evict_oldest_order)
  show "capacity (snd (isDuplicate d i)) = capacity d"
    by (simp add: isDuplicate_def Let_def)
qed

text \<open>Recording a list of ids, one call after the other.\<close>

fun isDuplicate_all :: "dedup \<Rightarrow> string list \<Rightarrow> dedup" where
  "isDuplicate_all d [] = d"
| "isDuplicate_all d (i # ids) = isDuplicate_all (snd (isDuplicate d i)) ids"

lemma isDuplicate_all_eq: "isDuplicate_all d ids = dd.record_all d ids"
  by (induction ids arbitrary: d) auto

end
