(* ===== verification/RuntimeTypes.thy ===== *)
theory RuntimeTypes
  imports JsBase
begin

text \<open>
  The data that the components of the agent runtime exchange, as in
  \<open>packages/shared/src/schemas/provider-retry.ts\<close>, \<open>runtime-provider.ts\<close> and
  \<open>packages/client/src/runtime/handler.ts\<close>. Optional fields are \<open>option\<close> values, string enums are
  datatypes, times are integers (milliseconds since the epoch).
\<close>

section \<open>Providers and provider failures\<close>

datatype runtime_provider =
    Amp | DeepseekHarness | ClaudeCode | ClaudeCodeTui | Codex | Cursor | Grok | Antigravity
  | KimiCode | Opencode | Pi

fun provider_id :: "runtime_provider \<Rightarrow> string" where
  "provider_id Amp = ''amp''"
| "provider_id DeepseekHarness = ''deepseek-harness''"
| "provider_id ClaudeCode = ''claude-code''"
| "provider_id ClaudeCodeTui = ''claude-code-tui''"
| "provider_id Codex = ''codex''"
| "provider_id Cursor = ''cursor''"
| "provider_id Grok = ''grok''"
| "provider_id Antigravity = ''antigravity''"
| "provider_id KimiCode = ''kimi-code''"
| "provider_id Opencode = ''opencode''"
| "provider_id Pi = ''pi''"

datatype retry_scope = SessionStart | SessionResume | ProviderTurn

datatype failure_category =
    RuntimeTransport | TransientTransport | ProviderCapacity | Credential | Capability
  | Configuration | DeterministicInput | UnknownCategory

datatype replay_safety =
    PreProvider | PreVisible | ProviderEntered | UserVisible | UnsafeReplay | UnknownSafety

datatype retry_event_name =
    RetryScheduled | RetryStarted | RetrySucceeded | RetryExhausted | FailureTerminal

datatype retry_mode = Foreground | Background

datatype severity = SevInfo | SevWarning | SevError

record retry_payload =
  rp_event :: retry_event_name
  rp_provider :: runtime_provider
  rp_scope :: retry_scope
  rp_category :: failure_category
  rp_reasonCode :: string
  rp_attempt :: "int option"
  rp_maxAttempts :: "int option"
  rp_retryMode :: "retry_mode option"
  rp_delayMs :: "int option"
  rp_nextRetryAt :: "int option"
  rp_replaySafety :: "replay_safety option"
  rp_userSeverity :: severity
  rp_messagePreview :: "string option"

text \<open>The checks of the schema that the types above do not already make.\<close>

definition providerRetryEventPayloadSchema :: "retry_payload \<Rightarrow> bool" where
  "providerRetryEventPayloadSchema p \<longleftrightarrow>
     rp_reasonCode p \<noteq> [] \<and>
     (case rp_attempt p of None \<Rightarrow> True | Some n \<Rightarrow> 0 < n) \<and>
     (case rp_maxAttempts p of None \<Rightarrow> True | Some n \<Rightarrow> 0 < n) \<and>
     (case rp_delayMs p of None \<Rightarrow> True | Some d \<Rightarrow> 0 \<le> d) \<and>
     (case rp_messagePreview p of None \<Rightarrow> True | Some t \<Rightarrow> length t \<le> 800)"


section \<open>Messages and turns\<close>

text \<open>Only the fields of a session message that the modelled components read.\<close>

record session_message =
  m_inboxEntryId :: "int option"
  m_id :: string
  m_chatId :: string
  m_senderId :: string

datatype turn_status = StatusSuccess | StatusError

datatype turn_error_kind = KindDeterministic | KindTransient | KindUnknown

record turn_outcome =
  o_status :: turn_status
  o_terminal :: bool
  o_errorKind :: "turn_error_kind option"

datatype rejection_evidence = ChatMessage string | ServerTerminalRecord string

datatype completion_disposition = Settled | Retry

record provider_continuation =
  pc_provider :: runtime_provider
  pc_sessionId :: string
  pc_messageId :: string

text \<open>A continuation is handed to a replacement route only for the exact message, session and provider.\<close>

definition continuationResumeOptions ::
  "provider_continuation option \<Rightarrow> session_message option \<Rightarrow> string \<Rightarrow> runtime_provider \<Rightarrow>
   provider_continuation option" where
  "continuationResumeOptions continuation message sessionId provider =
     (case (continuation, message) of
        (Some c, Some m) \<Rightarrow>
          if pc_provider c \<noteq> provider \<or> pc_sessionId c \<noteq> sessionId \<or> pc_messageId c \<noteq> m_id m
          then None else Some c
      | _ \<Rightarrow> None)"

lemma continuationResumeOptions_Some:
  "continuationResumeOptions c m sid p = Some k \<longleftrightarrow>
     c = Some k \<and> pc_provider k = p \<and> pc_sessionId k = sid \<and>
     (\<exists>msg. m = Some msg \<and> pc_messageId k = m_id msg)"
  by (auto simp: continuationResumeOptions_def split: option.splits if_splits)


section \<open>Session and runtime states\<close>

text \<open>
  \<open>SessionState\<close> of the chat session protocol and \<open>RuntimeState\<close> of the presence protocol
  (\<open>packages/shared/src/schemas\<close>).
\<close>

datatype session_state = SActive | SSuspended | SEvicted | SErrored

datatype runtime_state = RIdle | RWorking | RBlocked | RError

end
