(* ===== verification/InboxDelivery.thy ===== *)
theory InboxDelivery
  imports Dedup RuntimeTypes
begin

text \<open>
  The model of \<open>runtime/inbox-delivery-coordinator.ts\<close>, the owner of every inbox delivery of an agent
  between its arrival and its confirmed acknowledgement.

  The class is asynchronous. The model splits every operation at its \<open>await\<close>s: the synchronous
  part is a state transformer, and what waits is explicit in the state.
  \<^item> \<open>ackThrough\<close> chains its work on a per-chat promise queue. The queue is the list \<open>ld_acks\<close> of jobs
    that have not finished; a job carries the continuation of the operation that queued it, and
    \<open>ld_head\<close> says how far the first job is: not started, waiting for the server, or waiting for a
    recovery it requested.
  \<^item> A chat in \<open>co_recovering\<close> has a \<open>recoverChat\<close> call in flight.
  \<^item> \<open>co_notices\<close> are the \<open>postRuntimeFailureNotice\<close> calls in flight.
  \<^item> \<open>co_bindLoops\<close> are the running \<open>reconcileAckSettlementAfterBind\<close> loops.
  Which pending call settles next, and how, is an event of the environment, so a run over a list of
  events covers every interleaving the event loop can produce. Tracked deliveries are JavaScript
  objects that a continuation can hold after they left the ledger; \<open>tr_oid\<close> is their identity.

  Log lines are not modelled. The calls the coordinator makes, and what its operations answer, are
  recorded in \<open>co_outs\<close>, oldest first. Callbacks into the host are taken to only record: the model
  does not cover a host that calls back into the coordinator from inside \<open>onWorkChanged\<close>.
\<close>

section \<open>State\<close>

datatype phase = PhOpen | PhOwned | PhTerminal

datatype debt = DebtNone | DebtRequired | DebtRunning

record terminal_outcome =
  to_status :: turn_status
  to_errorKind :: "turn_error_kind option"
  to_handledAt :: int
  to_evidence :: "rejection_evidence option"

record ack_attempt =
  aa_through :: int
  aa_reason :: string
  aa_startedAt :: int

record tracked =
  tr_oid :: nat
  tr_entryId :: int
  tr_messageId :: string
  tr_dedupKey :: string
  tr_phase :: phase
  tr_startedAt :: "int option"
  tr_noticeRequired :: bool
  tr_noticePayload :: "retry_payload option"
  tr_noticeInFlight :: bool
  tr_outcome :: "terminal_outcome option"
  tr_ack :: "ack_attempt option"
  tr_withheld :: bool

text \<open>What the operation that queued an acknowledgement does when the acknowledgement returns.\<close>

datatype ack_cont =
    KFinishTurn int
  | KTerminalRejected
  | KRedelivery
  | KSuspend
  | KOperatorSuspend
  | KTerminate bool
  | KNotice nat

record ack_job =
  jb_through :: int
  jb_reason :: string
  jb_requireTerminal :: bool
  jb_recoverOnFail :: bool
  jb_cont :: ack_cont

datatype ack_head = HeadIdle | HeadSending | HeadAwaitRecovery

record ledger =
  ld_entries :: "tracked list"
  ld_debt :: debt
  ld_activationReady :: bool
  ld_windowOpen :: bool
  ld_needsReconcile :: bool
  ld_admission :: nat
  ld_acks :: "ack_job list"
  ld_head :: ack_head

record work =
  wk_chatId :: string
  wk_entryId :: int
  wk_messageId :: string

datatype out =
    WorkChanged string
  | AckSent string int
  | RecoverSent string
  | NoticePosted string retry_payload
  | Committed string "string list"
  | Deliver work
  | DuplicateInFlight string int
  | Recovering string int
  | TurnResult string "int option" completion_disposition

text \<open>A bind loop waits for the recovery of one chat, then goes on with the rest.\<close>

type_synonym bind_loop = "string option \<times> string list"

record coord =
  co_hasRecover :: bool
  co_hasNotice :: bool
  co_dedup :: dedup
  co_settled :: dedup
  co_fenceSettled :: "(string, string list) jsmap"
  co_ledgers :: "(string, ledger) jsmap"
  co_recovering :: "string list"
  co_notices :: "(string \<times> nat \<times> int) list"
  co_bindLoops :: "bind_loop list"
  co_nextOid :: nat
  co_outs :: "out list"

definition new_ledger :: ledger where
  "new_ledger = \<lparr>ld_entries = [], ld_debt = DebtNone, ld_activationReady = False,
     ld_windowOpen = False, ld_needsReconcile = False, ld_admission = 0, ld_acks = [],
     ld_head = HeadIdle\<rparr>"

definition new_coord :: "bool \<Rightarrow> bool \<Rightarrow> coord" where
  "new_coord hasRecover hasNotice = \<lparr>co_hasRecover = hasRecover, co_hasNotice = hasNotice,
     co_dedup = new_dedup 1000, co_settled = new_dedup 1000, co_fenceSettled = [], co_ledgers = [],
     co_recovering = [], co_notices = [], co_bindLoops = [], co_nextOid = 0, co_outs = []\<rparr>"


section \<open>Ledger access\<close>

definition emit :: "out \<Rightarrow> coord \<Rightarrow> coord" where
  "emit x c = c\<lparr>co_outs := co_outs c @ [x]\<rparr>"

text \<open>\<open>this.ledgers.get(chatId)\<close>, the mutation of the ledger found, and \<open>this.ledger(chatId)\<close>.\<close>

definition ledger_at :: "coord \<Rightarrow> string \<Rightarrow> ledger option" where
  "ledger_at c chat = js_get (co_ledgers c) chat"

definition upd :: "string \<Rightarrow> (ledger \<Rightarrow> ledger) \<Rightarrow> coord \<Rightarrow> coord" where
  "upd chat f c =
     (case ledger_at c chat of
        None \<Rightarrow> c
      | Some l \<Rightarrow> c\<lparr>co_ledgers := js_set (co_ledgers c) chat (f l)\<rparr>)"

definition ensure :: "string \<Rightarrow> coord \<Rightarrow> coord" where
  "ensure chat c =
     (case ledger_at c chat of
        None \<Rightarrow> c\<lparr>co_ledgers := js_set (co_ledgers c) chat new_ledger\<rparr>
      | Some l \<Rightarrow> c)"

definition the_ledger :: "coord \<Rightarrow> string \<Rightarrow> ledger" where
  "the_ledger c chat = (case ledger_at c chat of None \<Rightarrow> new_ledger | Some l \<Rightarrow> l)"

definition entries_of :: "coord \<Rightarrow> string \<Rightarrow> tracked list" where
  "entries_of c chat = ld_entries (the_ledger c chat)"

definition upd_entries :: "string \<Rightarrow> (tracked list \<Rightarrow> tracked list) \<Rightarrow> coord \<Rightarrow> coord" where
  "upd_entries chat f = upd chat (\<lambda>l. l\<lparr>ld_entries := f (ld_entries l)\<rparr>)"

definition quiescent :: "ledger \<Rightarrow> bool" where
  "quiescent l \<longleftrightarrow>
     ld_entries l = [] \<and> ld_debt l = DebtNone \<and> ld_admission l = 0 \<and> ld_acks l = []"

definition cleanupLedger :: "string \<Rightarrow> coord \<Rightarrow> coord" where
  "cleanupLedger chat c =
     (case ledger_at c chat of
        None \<Rightarrow> c
      | Some l \<Rightarrow>
          (let l' = (if ld_windowOpen l \<and> quiescent l then l\<lparr>ld_windowOpen := False\<rparr> else l)
           in if quiescent l' \<and> \<not> ld_activationReady l' \<and> \<not> ld_windowOpen l' \<and> \<not> ld_needsReconcile l'
              then c\<lparr>co_ledgers := js_delete (co_ledgers c) chat\<rparr>
              else c\<lparr>co_ledgers := js_set (co_ledgers c) chat l'\<rparr>))"

definition dedupKey :: "string \<Rightarrow> string \<Rightarrow> string" where
  "dedupKey chat messageId = chat @ '':'' @ messageId"

definition settledKey :: "string \<Rightarrow> int \<Rightarrow> string \<Rightarrow> string" where
  "settledKey chat entryId messageId = chat @ '':'' @ int_str entryId @ '':'' @ messageId"

definition findEntry :: "coord \<Rightarrow> string \<Rightarrow> int \<Rightarrow> tracked option" where
  "findEntry c chat entryId = find (\<lambda>t. tr_entryId t = entryId) (entries_of c chat)"

definition messageEntryIds :: "string \<Rightarrow> session_message list \<Rightarrow> int list" where
  "messageEntryIds chat msgs =
     List.map_filter (\<lambda>m. if m_chatId m = chat then m_inboxEntryId m else None) msgs"

definition lastMessageEntryId :: "string \<Rightarrow> session_message list \<Rightarrow> int option" where
  "lastMessageEntryId chat msgs =
     (let ids = messageEntryIds chat msgs in if ids = [] then None else Some (last ids))"


section \<open>Recovery\<close>

text \<open>The answer of \<open>recoverChat\<close>: only \<open>{ unackedOutstanding: 0 }\<close> proves the chat settled.\<close>

definition recoverProvedChatSettled :: "int option \<Rightarrow> bool" where
  "recoverProvedChatSettled unackedOutstanding = (unackedOutstanding = Some 0)"

definition requestRecovery :: "string \<Rightarrow> coord \<Rightarrow> coord" where
  "requestRecovery chat c =
     (if chat \<in> set (co_recovering c) then c
      else let c = ensure chat c in
        if \<not> co_hasRecover c
        then emit (WorkChanged chat) (upd chat (\<lambda>l. l\<lparr>ld_debt := DebtRequired\<rparr>) c)
        else let c = emit (RecoverSent chat)
                       (emit (WorkChanged chat) (upd chat (\<lambda>l. l\<lparr>ld_debt := DebtRunning\<rparr>) c))
             in c\<lparr>co_recovering := set_add (co_recovering c) chat\<rparr>)"

definition markRecoveryDebt :: "string \<Rightarrow> bool \<Rightarrow> coord \<Rightarrow> coord" where
  "markRecoveryDebt chat requestNow c =
     (let c = ensure chat c;
          l = the_ledger c chat;
          retire = (ld_windowOpen l \<or> ld_activationReady l);
          c = (if ld_debt l \<noteq> DebtRequired
               then emit (WorkChanged chat) (upd chat (\<lambda>l. l\<lparr>ld_debt := DebtRequired\<rparr>) c) else c);
          c = (if retire
               then emit (WorkChanged chat)
                      (upd chat (\<lambda>l. l\<lparr>ld_windowOpen := False, ld_activationReady := False\<rparr>) c) else c)
      in if \<not> requestNow then c else requestRecovery chat c)"

definition kept_by_recovery :: "tracked \<Rightarrow> bool" where
  "kept_by_recovery t \<longleftrightarrow> tr_phase t = PhTerminal \<or> tr_noticeRequired t"

definition clearEntriesForRecoverySuccess :: "string \<Rightarrow> coord \<Rightarrow> coord" where
  "clearEntriesForRecoverySuccess chat c =
     (let c = ensure chat c;
          dropped = filter (\<lambda>t. \<not> kept_by_recovery t) (entries_of c chat)
      in upd_entries chat (filter kept_by_recovery)
           (c\<lparr>co_dedup := foldl dedup_drop (co_dedup c) (map tr_dedupKey dropped)\<rparr>))"

definition markFenceSettled :: "string \<Rightarrow> string list \<Rightarrow> coord \<Rightarrow> coord" where
  "markFenceSettled chat ids c =
     c\<lparr>co_fenceSettled := js_set (co_fenceSettled c) chat
         (foldl set_add (case js_get (co_fenceSettled c) chat of None \<Rightarrow> [] | Some ms \<Rightarrow> ms) ids)\<rparr>"

definition fenceSettled :: "coord \<Rightarrow> string \<Rightarrow> string \<Rightarrow> bool" where
  "fenceSettled c chat messageId =
     (case js_get (co_fenceSettled c) chat of None \<Rightarrow> False | Some ms \<Rightarrow> messageId \<in> set ms)"

text \<open>Committed deliveries leave the dedup window and enter the window of settled ones.\<close>

definition record_committed :: "string \<Rightarrow> tracked list \<Rightarrow> coord \<Rightarrow> coord" where
  "record_committed chat ts c =
     c\<lparr>co_dedup := foldl dedup_drop (co_dedup c) (map tr_dedupKey ts),
       co_settled := foldl (\<lambda>d k. snd (isDuplicate d k)) (co_settled c)
         (map (\<lambda>t. settledKey chat (tr_entryId t) (tr_messageId t)) ts)\<rparr>"

definition commitRemainingEntriesFromServerProof :: "string \<Rightarrow> coord \<Rightarrow> coord" where
  "commitRemainingEntriesFromServerProof chat c =
     (let committed = entries_of c chat;
          c = upd chat (\<lambda>l. l\<lparr>ld_entries := [], ld_needsReconcile := False\<rparr>) c
      in if committed = [] then cleanupLedger chat c
         else let c = markFenceSettled chat (map tr_messageId committed) c;
                  c = record_committed chat committed c;
                  c = emit (Committed chat (map tr_messageId committed)) c
              in emit (WorkChanged chat) (cleanupLedger chat c))"

definition recover_ok :: "string \<Rightarrow> int option \<Rightarrow> coord \<Rightarrow> coord" where
  "recover_ok chat unackedOutstanding c =
     (if chat \<notin> set (co_recovering c) then c
      else
        let c = upd chat (\<lambda>l. l\<lparr>ld_needsReconcile := False\<rparr>) (ensure chat c);
            c = (if recoverProvedChatSettled unackedOutstanding
                 then cleanupLedger chat
                        (upd chat (\<lambda>l. l\<lparr>ld_debt := DebtNone, ld_activationReady := False,
                                          ld_windowOpen := False\<rparr>)
                          (commitRemainingEntriesFromServerProof chat c))
                 else upd chat (\<lambda>l. l\<lparr>ld_debt := DebtNone, ld_activationReady := True,
                                       ld_windowOpen := False\<rparr>)
                        (clearEntriesForRecoverySuccess chat c))
        in emit (WorkChanged chat) (c\<lparr>co_recovering := set_remove (co_recovering c) chat\<rparr>))"

definition recover_fail :: "string \<Rightarrow> coord \<Rightarrow> coord" where
  "recover_fail chat c =
     (if chat \<notin> set (co_recovering c) then c
      else let c = upd chat (\<lambda>l. l\<lparr>ld_debt := DebtRequired\<rparr>) (ensure chat c)
           in emit (WorkChanged chat) (c\<lparr>co_recovering := set_remove (co_recovering c) chat\<rparr>))"

definition shouldRecoverBeforeDispatch :: "coord \<Rightarrow> string \<Rightarrow> bool \<Rightarrow> bool \<Rightarrow> bool" where
  "shouldRecoverBeforeDispatch c chat hasHealthyLiveHandler hasLocalRecoveryRisk =
     (let l = the_ledger c chat in
      if ld_activationReady l then False
      else if ld_debt l = DebtRequired \<or> ld_debt l = DebtRunning then True
      else co_hasRecover c \<and> hasLocalRecoveryRisk \<and> \<not> hasHealthyLiveHandler)"

definition hasUnsettledWork :: "coord \<Rightarrow> string \<Rightarrow> bool" where
  "hasUnsettledWork c chat =
     (case ledger_at c chat of
        None \<Rightarrow> False
      | Some l \<Rightarrow> ld_entries l \<noteq> [] \<or> ld_debt l \<noteq> DebtNone \<or> ld_admission l \<noteq> 0 \<or> ld_needsReconcile l)"

definition takeRecoveryActivationReady :: "string \<Rightarrow> coord \<Rightarrow> bool \<times> coord" where
  "takeRecoveryActivationReady chat c =
     (case ledger_at c chat of
        None \<Rightarrow> (False, c)
      | Some l \<Rightarrow>
          if ld_activationReady l
          then (True, upd chat (\<lambda>l. l\<lparr>ld_activationReady := False, ld_windowOpen := True\<rparr>) c)
          else (ld_windowOpen l \<and> hasUnsettledWork c chat, c))"

definition completeBindRecovery :: "string \<Rightarrow> coord \<Rightarrow> coord" where
  "completeBindRecovery chat c =
     (case ledger_at c chat of
        None \<Rightarrow> c
      | Some l \<Rightarrow>
          emit (WorkChanged chat)
            (upd chat (\<lambda>l. l\<lparr>ld_debt := DebtNone, ld_activationReady := True, ld_windowOpen := False\<rparr>)
              (clearEntriesForRecoverySuccess chat c)))"

text \<open>After a bind, the chats whose acknowledgement confirmation was lost are recovered one by one.\<close>

definition bind_start :: "coord \<Rightarrow> coord" where
  "bind_start c =
     c\<lparr>co_bindLoops := co_bindLoops c @
         [(None, map fst (filter (\<lambda>(chat, l). ld_needsReconcile l) (co_ledgers c)))]\<rparr>"

definition bind_step :: "nat \<Rightarrow> coord \<Rightarrow> coord" where
  "bind_step i c =
     (if i \<ge> length (co_bindLoops c) then c
      else case co_bindLoops c ! i of
        (waiting, rest) \<Rightarrow>
          (if (case waiting of None \<Rightarrow> False | Some w \<Rightarrow> w \<in> set (co_recovering c)) then c
           else case rest of
             [] \<Rightarrow> c\<lparr>co_bindLoops := take i (co_bindLoops c) @ drop (Suc i) (co_bindLoops c)\<rparr>
           | chat # rest' \<Rightarrow>
               (if chat \<in> set (co_recovering c) then c
                else if ld_needsReconcile (the_ledger c chat)
                then (requestRecovery chat c)\<lparr>co_bindLoops := (co_bindLoops c)[i := (Some chat, rest')]\<rparr>
                else c\<lparr>co_bindLoops := (co_bindLoops c)[i := (None, rest')]\<rparr>)))"


section \<open>Acknowledgement\<close>

definition set_entry :: "nat \<Rightarrow> (tracked \<Rightarrow> tracked) \<Rightarrow> tracked list \<Rightarrow> tracked list" where
  "set_entry oid f ts = map (\<lambda>t. if tr_oid t = oid then f t else t) ts"

definition run_cont :: "string \<Rightarrow> ack_cont \<Rightarrow> bool \<Rightarrow> coord \<Rightarrow> coord" where
  "run_cont chat k ok c =
     (case k of
        KFinishTurn through \<Rightarrow> emit (TurnResult chat (Some through) (if ok then Settled else Retry)) c
      | KTerminalRejected \<Rightarrow> c
      | KRedelivery \<Rightarrow> c
      | KSuspend \<Rightarrow> if entries_of c chat \<noteq> [] then markRecoveryDebt chat True c else c
      | KOperatorSuspend \<Rightarrow> if entries_of c chat \<noteq> [] then markRecoveryDebt chat False c else c
      | KTerminate requestNow \<Rightarrow>
          if entries_of c chat \<noteq> [] then markRecoveryDebt chat requestNow c else c
      | KNotice oid \<Rightarrow> upd_entries chat (set_entry oid (\<lambda>t. t\<lparr>tr_noticeInFlight := False\<rparr>)) c)"

definition ackThrough :: "string \<Rightarrow> int \<Rightarrow> string \<Rightarrow> bool \<Rightarrow> ack_cont \<Rightarrow> coord \<Rightarrow> coord" where
  "ackThrough chat through reason recoverOnFail k c =
     (case ledger_at c chat of
        None \<Rightarrow> run_cont chat k False c
      | Some l \<Rightarrow>
          emit (WorkChanged chat)
            (upd chat (\<lambda>l. l\<lparr>ld_acks := ld_acks l @
                [\<lparr>jb_through = through, jb_reason = reason, jb_requireTerminal = True,
                  jb_recoverOnFail = recoverOnFail, jb_cont = k\<rparr>]\<rparr>) c))"

text \<open>The first job returned: it leaves the queue, an empty queue is cleaned up, the caller goes on.\<close>

definition finish_job :: "string \<Rightarrow> bool \<Rightarrow> coord \<Rightarrow> coord" where
  "finish_job chat ok c =
     (case ld_acks (the_ledger c chat) of
        [] \<Rightarrow> c
      | job # rest \<Rightarrow>
          (let c = upd chat (\<lambda>l. l\<lparr>ld_acks := rest, ld_head := HeadIdle\<rparr>) c;
               c = (if rest = [] then emit (WorkChanged chat) (cleanupLedger chat c) else c)
           in run_cont chat (jb_cont job) ok c))"

text \<open>The prefix up to the entry acknowledged, \<open>None\<close> when the entry is not tracked.\<close>

fun ack_prefix :: "int \<Rightarrow> tracked list \<Rightarrow> tracked list option" where
  "ack_prefix through [] = None"
| "ack_prefix through (t # ts) =
     (if tr_entryId t = through then Some [t] else map_option (Cons t) (ack_prefix through ts))"

definition mark_attempt :: "int \<Rightarrow> string \<Rightarrow> int \<Rightarrow> tracked \<Rightarrow> tracked" where
  "mark_attempt through reason now t =
     (if (case tr_ack t of None \<Rightarrow> True | Some a \<Rightarrow> aa_through a \<noteq> through)
      then t\<lparr>tr_ack := Some \<lparr>aa_through = through, aa_reason = reason, aa_startedAt = now\<rparr>\<rparr> else t)"

text \<open>\<open>ackThroughNow\<close> up to its call of \<open>ackEntry\<close>.\<close>

definition ack_start :: "string \<Rightarrow> int \<Rightarrow> coord \<Rightarrow> coord" where
  "ack_start chat now c =
     (let l = the_ledger c chat in
      case ld_acks l of
        [] \<Rightarrow> c
      | job # rest \<Rightarrow>
          if ld_head l \<noteq> HeadIdle then c
          else if ld_entries l = [] then finish_job chat False c
          else if ld_debt l \<noteq> DebtNone then finish_job chat False c
          else case ack_prefix (jb_through job) (ld_entries l) of
            None \<Rightarrow> finish_job chat False c
          | Some pre \<Rightarrow>
              if jb_requireTerminal job \<and> list_ex (\<lambda>t. tr_phase t \<noteq> PhTerminal) pre
              then let c' = markRecoveryDebt chat True c
                   in if chat \<in> set (co_recovering c')
                      then upd chat (\<lambda>l. l\<lparr>ld_head := HeadAwaitRecovery\<rparr>) c'
                      else finish_job chat False c'
              else
                let pre' = map (mark_attempt (jb_through job) (jb_reason job) now) pre;
                    c' = upd_entries chat (\<lambda>ts. pre' @ drop (length pre) ts) c;
                    c' = (if pre' \<noteq> pre then emit (WorkChanged chat) c' else c')
                in upd chat (\<lambda>l. l\<lparr>ld_head := HeadSending\<rparr>) (emit (AckSent chat (jb_through job)) c'))"

definition ack_ok :: "string \<Rightarrow> coord \<Rightarrow> coord" where
  "ack_ok chat c =
     (let l = the_ledger c chat in
      case ld_acks l of
        [] \<Rightarrow> c
      | job # rest \<Rightarrow>
          if ld_head l \<noteq> HeadSending then c
          else
            let committed = filter (\<lambda>t. tr_entryId t \<le> jb_through job) (ld_entries l);
                c = upd_entries chat (filter (\<lambda>t. tr_entryId t > jb_through job)) c;
                c = record_committed chat committed c;
                c = (if committed \<noteq> [] then emit (Committed chat (map tr_messageId committed)) c else c);
                c = upd chat (\<lambda>l. l\<lparr>ld_needsReconcile := False,
                      ld_debt := (if ld_entries l = [] \<and> ld_debt l = DebtRequired then DebtNone
                                  else ld_debt l)\<rparr>) c;
                c = emit (WorkChanged chat) (cleanupLedger chat c)
            in finish_job chat True c)"

definition ack_fail :: "string \<Rightarrow> coord \<Rightarrow> coord" where
  "ack_fail chat c =
     (let l = the_ledger c chat in
      case ld_acks l of
        [] \<Rightarrow> c
      | job # rest \<Rightarrow>
          if ld_head l \<noteq> HeadSending then c
          else
            let c = upd chat (\<lambda>l. l\<lparr>ld_needsReconcile := True, ld_entries :=
                      map (\<lambda>t. if tr_entryId t \<le> jb_through job then t\<lparr>tr_ack := None\<rparr> else t)
                        (ld_entries l)\<rparr>) c;
                c = emit (WorkChanged chat) c;
                c = markRecoveryDebt chat (jb_recoverOnFail job) c
            in finish_job chat False c)"

text \<open>A job that waited for the recovery it requested answers false once the recovery is over.\<close>

definition ack_resume :: "string \<Rightarrow> coord \<Rightarrow> coord" where
  "ack_resume chat c =
     (if ld_head (the_ledger c chat) = HeadAwaitRecovery \<and> chat \<notin> set (co_recovering c)
      then finish_job chat False c else c)"


section \<open>Notices that must be posted before an acknowledgement\<close>

definition settleNoticeRequiredRedelivery :: "string \<Rightarrow> tracked \<Rightarrow> coord \<Rightarrow> coord" where
  "settleNoticeRequiredRedelivery chat t c =
     (if \<not> tr_noticeRequired t then c
      else if tr_noticeInFlight t then c
      else case tr_noticePayload t of
        None \<Rightarrow> markRecoveryDebt chat False c
      | Some payload \<Rightarrow>
          if \<not> co_hasNotice c then markRecoveryDebt chat False c
          else let c = upd_entries chat (set_entry (tr_oid t) (\<lambda>t. t\<lparr>tr_noticeInFlight := True\<rparr>)) c;
                   c = emit (NoticePosted chat payload) c
               in c\<lparr>co_notices := co_notices c @ [(chat, tr_oid t, tr_entryId t)]\<rparr>)"

definition settle_notice_entry :: "int \<Rightarrow> tracked \<Rightarrow> tracked" where
  "settle_notice_entry now t =
     t\<lparr>tr_noticeRequired := False, tr_noticePayload := None, tr_phase := PhTerminal,
       tr_outcome := (case tr_outcome t of
          None \<Rightarrow> Some \<lparr>to_status = StatusError, to_errorKind = Some KindDeterministic,
                        to_handledAt = now, to_evidence = None\<rparr>
        | Some x \<Rightarrow> Some x)\<rparr>"

definition remove_nth :: "nat \<Rightarrow> 'a list \<Rightarrow> 'a list" where
  "remove_nth i xs = take i xs @ drop (Suc i) xs"

definition notice_ok :: "nat \<Rightarrow> int \<Rightarrow> coord \<Rightarrow> coord" where
  "notice_ok i now c =
     (if i \<ge> length (co_notices c) then c
      else case co_notices c ! i of
        (chat, oid, entryId) \<Rightarrow>
          (let c = c\<lparr>co_notices := remove_nth i (co_notices c)\<rparr>;
               c = upd_entries chat (set_entry oid (settle_notice_entry now)) c;
               c = emit (WorkChanged chat) c
           in ackThrough chat entryId ''notice_required_redelivery'' False (KNotice oid) c))"

definition notice_fail :: "nat \<Rightarrow> coord \<Rightarrow> coord" where
  "notice_fail i c =
     (if i \<ge> length (co_notices c) then c
      else case co_notices c ! i of
        (chat, oid, entryId) \<Rightarrow>
          (let c = c\<lparr>co_notices := remove_nth i (co_notices c)\<rparr>;
               c = markRecoveryDebt chat False c
           in upd_entries chat (set_entry oid (\<lambda>t. t\<lparr>tr_noticeInFlight := False\<rparr>)) c))"


section \<open>Arrival\<close>

record inbox_entry =
  ie_id :: int
  ie_chatId :: "string option"
  ie_messageId :: string
  ie_messageChatId :: string

definition new_tracked :: "nat \<Rightarrow> int \<Rightarrow> string \<Rightarrow> string \<Rightarrow> tracked" where
  "new_tracked oid entryId messageId key =
     \<lparr>tr_oid = oid, tr_entryId = entryId, tr_messageId = messageId, tr_dedupKey = key, tr_phase = PhOpen,
      tr_startedAt = None, tr_noticeRequired = False, tr_noticePayload = None,
      tr_noticeInFlight = False, tr_outcome = None, tr_ack = None, tr_withheld = False\<rparr>"

definition entry_chat :: "inbox_entry \<Rightarrow> string" where
  "entry_chat e = (case ie_chatId e of Some c \<Rightarrow> c | None \<Rightarrow> ie_messageChatId e)"

definition entry_work :: "inbox_entry \<Rightarrow> work" where
  "entry_work e = \<lparr>wk_chatId = entry_chat e, wk_entryId = ie_id e, wk_messageId = ie_messageId e\<rparr>"

definition admit_entry :: "inbox_entry \<Rightarrow> coord \<Rightarrow> coord" where
  "admit_entry e c =
     (let chat = entry_chat e;
          t = new_tracked (co_nextOid c) (ie_id e) (ie_messageId e) (dedupKey chat (ie_messageId e));
          c = upd_entries chat (\<lambda>ts. sort_key tr_entryId (ts @ [t])) c
      in emit (Deliver (entry_work e))
           (emit (WorkChanged chat) (c\<lparr>co_nextOid := Suc (co_nextOid c)\<rparr>)))"

text \<open>A redelivery of an entry that is already tracked.\<close>

definition receive_active :: "inbox_entry \<Rightarrow> tracked \<Rightarrow> coord \<Rightarrow> coord" where
  "receive_active e t c =
     (let chat = entry_chat e in
      if tr_withheld t
      then emit (Deliver (entry_work e)) (emit (WorkChanged chat)
             (upd_entries chat (set_entry (tr_oid t) (\<lambda>t. t\<lparr>tr_withheld := False\<rparr>)) c))
      else if tr_noticeRequired t
      then emit (DuplicateInFlight chat (ie_id e)) (settleNoticeRequiredRedelivery chat t c)
      else if tr_phase t = PhTerminal
      then emit (DuplicateInFlight chat (ie_id e))
             (ackThrough chat (tr_entryId t) ''redelivery_terminal_retry'' True KRedelivery c)
      else emit (DuplicateInFlight chat (ie_id e)) c)"

definition receive :: "inbox_entry \<Rightarrow> coord \<Rightarrow> coord" where
  "receive e c =
     (let chat = entry_chat e;
          c = ensure chat c
      in if ld_debt (the_ledger c chat) \<noteq> DebtNone then emit (Recovering chat (ie_id e)) c
         else case findEntry c chat (ie_id e) of
           Some t \<Rightarrow> receive_active e t c
         | None \<Rightarrow>
             if fenceSettled c chat (ie_messageId e) then emit (DuplicateInFlight chat (ie_id e)) c
             else
               let (dup, d) = isDuplicate (co_dedup c) (dedupKey chat (ie_messageId e));
                   c = c\<lparr>co_dedup := d\<rparr>
               in if dup \<and> list_ex (\<lambda>t. tr_messageId t = ie_messageId e) (entries_of c chat)
                  then emit (DuplicateInFlight chat (ie_id e)) c
                  else admit_entry e c)"


section \<open>Admission\<close>

definition runAdmission :: "string \<Rightarrow> coord \<Rightarrow> coord" where
  "runAdmission chat c =
     emit (WorkChanged chat) (upd chat (\<lambda>l. l\<lparr>ld_admission := Suc (ld_admission l)\<rparr>) (ensure chat c))"

definition admission_done :: "string \<Rightarrow> coord \<Rightarrow> coord" where
  "admission_done chat c =
     (case ld_admission (the_ledger c chat) of
        0 \<Rightarrow> c
      | Suc n \<Rightarrow>
          (let c = upd chat (\<lambda>l. l\<lparr>ld_admission := n\<rparr>) c
           in if n = 0 then emit (WorkChanged chat) (cleanupLedger chat c) else c))"


section \<open>Ownership, processing and completion\<close>

definition markReplayFenceWithheld :: "string \<Rightarrow> string list \<Rightarrow> coord \<Rightarrow> coord" where
  "markReplayFenceWithheld chat ids =
     upd_entries chat (map (\<lambda>t.
       if tr_messageId t \<in> set ids \<and> tr_phase t = PhOpen \<and> tr_startedAt t = None
       then t\<lparr>tr_withheld := True\<rparr> else t))"

definition settleReplayFencedEntries :: "string \<Rightarrow> string list \<Rightarrow> coord \<Rightarrow> coord" where
  "settleReplayFencedEntries chat ids c =
     (let c = markFenceSettled chat ids c in
      case ledger_at c chat of
        None \<Rightarrow> c
      | Some l \<Rightarrow>
          emit (WorkChanged chat)
            (cleanupLedger chat (upd_entries chat (filter (\<lambda>t. tr_messageId t \<notin> set ids)) c)))"

datatype route_ownership = RouteOwned | RouteSettled | RouteLost

definition markOwned :: "work \<Rightarrow> coord \<Rightarrow> route_ownership \<times> coord" where
  "markOwned w c =
     (case findEntry c (wk_chatId w) (wk_entryId w) of
        None \<Rightarrow>
          (if dedup_has (co_settled c) (settledKey (wk_chatId w) (wk_entryId w) (wk_messageId w))
           then RouteSettled else RouteLost, c)
      | Some t \<Rightarrow>
          (RouteOwned,
           if tr_phase t = PhOpen
           then emit (WorkChanged (wk_chatId w))
                  (upd_entries (wk_chatId w) (set_entry (tr_oid t) (\<lambda>t. t\<lparr>tr_phase := PhOwned\<rparr>)) c)
           else c))"

definition hasEntry :: "coord \<Rightarrow> work \<Rightarrow> bool" where
  "hasEntry c w =
     (case findEntry c (wk_chatId w) (wk_entryId w) of
        None \<Rightarrow> False | Some t \<Rightarrow> tr_messageId t = wk_messageId w)"

text \<open>A loop over the ledger entries that reports whether it changed one.\<close>

definition touch_entries :: "string \<Rightarrow> (tracked \<Rightarrow> tracked) \<Rightarrow> coord \<Rightarrow> coord" where
  "touch_entries chat f c =
     (if map f (entries_of c chat) \<noteq> entries_of c chat
      then emit (WorkChanged chat) (upd_entries chat (map f) c) else c)"

definition start_entry :: "int \<Rightarrow> tracked \<Rightarrow> tracked" where
  "start_entry now t =
     (let t = (if tr_phase t = PhOpen then t\<lparr>tr_phase := PhOwned\<rparr> else t)
      in if tr_phase t = PhOwned \<and> tr_startedAt t = None then t\<lparr>tr_startedAt := Some now\<rparr> else t)"

definition markProcessingStarted :: "string \<Rightarrow> session_message list \<Rightarrow> int \<Rightarrow> coord \<Rightarrow> coord" where
  "markProcessingStarted chat msgs now =
     touch_entries chat (\<lambda>t. if tr_entryId t \<in> set (messageEntryIds chat msgs) then start_entry now t else t)"

definition terminal_entry ::
  "turn_outcome \<Rightarrow> rejection_evidence option \<Rightarrow> int \<Rightarrow> tracked \<Rightarrow> tracked" where
  "terminal_entry outcome evidence now t =
     t\<lparr>tr_phase := PhTerminal, tr_noticeRequired := False, tr_noticePayload := None,
       tr_outcome := (case tr_outcome t of
          None \<Rightarrow> Some \<lparr>to_status = o_status outcome, to_errorKind = o_errorKind outcome,
                        to_handledAt = now, to_evidence = evidence\<rparr>
        | Some x \<Rightarrow> Some x)\<rparr>"

definition markTerminal ::
  "string \<Rightarrow> session_message list \<Rightarrow> turn_outcome \<Rightarrow> rejection_evidence option \<Rightarrow> int \<Rightarrow> coord \<Rightarrow> coord" where
  "markTerminal chat msgs outcome evidence now =
     touch_entries chat (\<lambda>t. if tr_entryId t \<in> set (messageEntryIds chat msgs)
                            then terminal_entry outcome evidence now t else t)"

definition finishTurn :: "string \<Rightarrow> session_message list \<Rightarrow> turn_outcome \<Rightarrow> int \<Rightarrow> coord \<Rightarrow> coord" where
  "finishTurn chat msgs outcome now c =
     (case lastMessageEntryId chat msgs of
        None \<Rightarrow> emit (TurnResult chat None Retry) c
      | Some through \<Rightarrow>
          ackThrough chat through ''finish_turn'' True (KFinishTurn through)
            (markTerminal chat msgs outcome None now c))"

definition terminalRejected ::
  "string \<Rightarrow> session_message list \<Rightarrow> rejection_evidence \<Rightarrow> int \<Rightarrow> coord \<Rightarrow> coord" where
  "terminalRejected chat msgs evidence now c =
     (case lastMessageEntryId chat msgs of
        None \<Rightarrow> c
      | Some through \<Rightarrow>
          ackThrough chat through ''terminal_rejected'' True KTerminalRejected
            (markTerminal chat msgs
              \<lparr>o_status = StatusError, o_terminal = True, o_errorKind = Some KindDeterministic\<rparr>
              (Some evidence) now c))"

definition tracks_any :: "coord \<Rightarrow> string \<Rightarrow> session_message list \<Rightarrow> bool" where
  "tracks_any c chat msgs =
     list_ex (\<lambda>t. tr_entryId t \<in> set (messageEntryIds chat msgs)) (entries_of c chat)"

definition retryTurn :: "string \<Rightarrow> session_message list \<Rightarrow> coord \<Rightarrow> coord" where
  "retryTurn chat msgs c = (if tracks_any c chat msgs then markRecoveryDebt chat True c else c)"

definition parkTurnForDeferredRecovery :: "string \<Rightarrow> session_message list \<Rightarrow> coord \<Rightarrow> bool \<times> coord" where
  "parkTurnForDeferredRecovery chat msgs c =
     (if tracks_any c chat msgs then (True, markRecoveryDebt chat False c) else (False, c))"


section \<open>Suspension, eviction and termination\<close>

definition terminal_prefix :: "tracked list \<Rightarrow> tracked list" where
  "terminal_prefix ts = takeWhile (\<lambda>t. tr_phase t = PhTerminal) ts"

text \<open>Acknowledge the terminal prefix; the continuation sees to what remains.\<close>

definition ack_terminal_prefix :: "string \<Rightarrow> string \<Rightarrow> ack_cont \<Rightarrow> coord \<Rightarrow> coord" where
  "ack_terminal_prefix chat reason k c =
     (if entries_of c chat = [] then c
      else case terminal_prefix (entries_of c chat) of
        [] \<Rightarrow> run_cont chat k False c
      | t # ts \<Rightarrow> ackThrough chat (tr_entryId (last (t # ts))) reason True k c)"

definition prepareSuspend :: "string \<Rightarrow> string \<Rightarrow> coord \<Rightarrow> coord" where
  "prepareSuspend chat reason = ack_terminal_prefix chat (reason @ '':terminal_prefix'') KSuspend"

definition drainForTerminate :: "string \<Rightarrow> bool \<Rightarrow> coord \<Rightarrow> coord" where
  "drainForTerminate chat requestNow = ack_terminal_prefix chat ''terminate'' (KTerminate requestNow)"

definition prepareEvict :: "string \<Rightarrow> coord \<Rightarrow> coord" where
  "prepareEvict chat c = (if entries_of c chat = [] then c else markRecoveryDebt chat True c)"

definition markNoticeRequired ::
  "string \<Rightarrow> session_message list \<Rightarrow> retry_payload option \<Rightarrow> coord \<Rightarrow> coord" where
  "markNoticeRequired chat msgs payload c =
     (if tracks_any c chat msgs
      then emit (WorkChanged chat)
             (upd_entries chat (map (\<lambda>t.
                if tr_entryId t \<in> set (messageEntryIds chat msgs)
                then t\<lparr>tr_noticeRequired := True,
                       tr_noticePayload := (case payload of None \<Rightarrow> tr_noticePayload t | Some p \<Rightarrow> Some p)\<rparr>
                else t)) c)
      else c)"

text \<open>
  The contiguous owned and started entries; terminal ones are skipped. The second result says whether
  an entry was marked.
\<close>

fun notice_prefix :: "retry_payload \<Rightarrow> tracked list \<Rightarrow> tracked list \<times> bool" where
  "notice_prefix p [] = ([], False)"
| "notice_prefix p (t # ts) =
     (if tr_phase t = PhTerminal
      then (case notice_prefix p ts of (ts', ch) \<Rightarrow> (t # ts', ch))
      else if tr_phase t = PhOwned \<and> tr_startedAt t \<noteq> None
      then (t\<lparr>tr_noticeRequired := True, tr_noticePayload := Some p\<rparr> # fst (notice_prefix p ts), True)
      else (t # ts, False))"

definition markNoticeRequiredForProcessingPrefix :: "string \<Rightarrow> retry_payload \<Rightarrow> coord \<Rightarrow> coord" where
  "markNoticeRequiredForProcessingPrefix chat payload c =
     (if snd (notice_prefix payload (entries_of c chat))
      then emit (WorkChanged chat) (upd_entries chat (\<lambda>ts. fst (notice_prefix payload ts)) c)
      else c)"

text \<open>
  The provider entered prefix an operator suspend may resolve: terminal entries without a notice, then
  owned and started entries, which become terminal. Results: the prefix length, whether an entry
  changed, the new entries.
\<close>

fun operator_prefix :: "int \<Rightarrow> tracked list \<Rightarrow> nat \<times> bool \<times> tracked list" where
  "operator_prefix now [] = (0, False, [])"
| "operator_prefix now (t # ts) =
     (if tr_phase t = PhTerminal \<and> \<not> tr_noticeRequired t
      then (case operator_prefix now ts of (n, ch, ts') \<Rightarrow> (Suc n, ch, t # ts'))
      else if tr_noticeRequired t then (0, False, t # ts)
      else if tr_phase t = PhOwned \<and> tr_startedAt t \<noteq> None
      then (case operator_prefix now ts of (n, ch, ts') \<Rightarrow>
              (Suc n, True, t\<lparr>tr_phase := PhTerminal,
                 tr_outcome := Some \<lparr>to_status = StatusError, to_errorKind = Some KindDeterministic,
                   to_handledAt = now, to_evidence = None\<rparr>\<rparr> # ts'))
      else (0, False, t # ts))"

definition prepareOperatorSuspend :: "string \<Rightarrow> int \<Rightarrow> coord \<Rightarrow> coord" where
  "prepareOperatorSuspend chat now c =
     (if entries_of c chat = [] then c
      else case operator_prefix now (entries_of c chat) of
        (n, ch, ts) \<Rightarrow>
          (let c = upd_entries chat (\<lambda>_. ts) c;
               c = (if ch then emit (WorkChanged chat) c else c)
           in if n = 0 then run_cont chat KOperatorSuspend False c
              else ackThrough chat (tr_entryId (ts ! (n - 1))) ''operator_suspended:resolved_prefix''
                     False KOperatorSuspend c))"


section \<open>Queries\<close>

definition hasProcessingOwnedWork :: "coord \<Rightarrow> string \<Rightarrow> bool" where
  "hasProcessingOwnedWork c chat =
     list_ex (\<lambda>t. tr_phase t = PhOwned \<and> tr_startedAt t \<noteq> None) (entries_of c chat)"

definition hasRecoveryDebt :: "coord \<Rightarrow> string \<Rightarrow> bool" where
  "hasRecoveryDebt c chat = (ld_debt (the_ledger c chat) \<noteq> DebtNone)"

definition hasNoticeRequiredDelivery :: "coord \<Rightarrow> string \<Rightarrow> bool" where
  "hasNoticeRequiredDelivery c chat = list_ex tr_noticeRequired (entries_of c chat)"

record work_snapshot =
  ws_entries :: "(int \<times> string \<times> phase) list"
  ws_debt :: debt
  ws_admissionPending :: bool
  ws_needsReconcile :: bool

text \<open>
  \<open>ledger?.admissionQueue !== null\<close> compares \<open>undefined\<close> with \<open>null\<close> when the chat has no
  ledger, which is true.
\<close>

definition snapshot :: "coord \<Rightarrow> string \<Rightarrow> work_snapshot" where
  "snapshot c chat =
     \<lparr>ws_entries = map (\<lambda>t. (tr_entryId t, tr_messageId t, tr_phase t)) (entries_of c chat),
      ws_debt = ld_debt (the_ledger c chat),
      ws_admissionPending = (case ledger_at c chat of None \<Rightarrow> True | Some l \<Rightarrow> ld_admission l \<noteq> 0),
      ws_needsReconcile = ld_needsReconcile (the_ledger c chat)\<rparr>"


section \<open>Events and runs\<close>

datatype event =
    EvReceive inbox_entry
  | EvAdmit string
  | EvAdmissionDone string
  | EvRecoverIfNeeded string
  | EvTakeActivation string
  | EvRecoverOk string "int option"
  | EvRecoverFail string
  | EvBound
  | EvBindStep nat
  | EvBindRecovered string
  | EvAckStart string int
  | EvAckOk string
  | EvAckFail string
  | EvAckResume string
  | EvNoticeOk nat int
  | EvNoticeFail nat
  | EvWithheld string "string list"
  | EvFenceSettled string "string list"
  | EvSettleFenced string "string list"
  | EvOwned work
  | EvProcessing string "session_message list" int
  | EvFinish string "session_message list" turn_outcome int
  | EvRejected string "session_message list" rejection_evidence int
  | EvRetry string "session_message list"
  | EvPark string "session_message list"
  | EvSuspend string string
  | EvNoticeRequired string "session_message list" "retry_payload option"
  | EvNoticePrefix string retry_payload
  | EvOperatorSuspend string int
  | EvEvict string
  | EvTerminate string bool

fun step :: "coord \<Rightarrow> event \<Rightarrow> coord" where
  "step c (EvReceive e) = receive e c"
| "step c (EvAdmit chat) = runAdmission chat c"
| "step c (EvAdmissionDone chat) = admission_done chat c"
| "step c (EvRecoverIfNeeded chat) = requestRecovery chat c"
| "step c (EvTakeActivation chat) = snd (takeRecoveryActivationReady chat c)"
| "step c (EvRecoverOk chat unacked) = recover_ok chat unacked c"
| "step c (EvRecoverFail chat) = recover_fail chat c"
| "step c EvBound = bind_start c"
| "step c (EvBindStep i) = bind_step i c"
| "step c (EvBindRecovered chat) = completeBindRecovery chat c"
| "step c (EvAckStart chat now) = ack_start chat now c"
| "step c (EvAckOk chat) = ack_ok chat c"
| "step c (EvAckFail chat) = ack_fail chat c"
| "step c (EvAckResume chat) = ack_resume chat c"
| "step c (EvNoticeOk i now) = notice_ok i now c"
| "step c (EvNoticeFail i) = notice_fail i c"
| "step c (EvWithheld chat ids) = markReplayFenceWithheld chat ids c"
| "step c (EvFenceSettled chat ids) = markFenceSettled chat ids c"
| "step c (EvSettleFenced chat ids) = settleReplayFencedEntries chat ids c"
| "step c (EvOwned w) = snd (markOwned w c)"
| "step c (EvProcessing chat msgs now) = markProcessingStarted chat msgs now c"
| "step c (EvFinish chat msgs outcome now) = finishTurn chat msgs outcome now c"
| "step c (EvRejected chat msgs evidence now) = terminalRejected chat msgs evidence now c"
| "step c (EvRetry chat msgs) = retryTurn chat msgs c"
| "step c (EvPark chat msgs) = snd (parkTurnForDeferredRecovery chat msgs c)"
| "step c (EvSuspend chat reason) = prepareSuspend chat reason c"
| "step c (EvNoticeRequired chat msgs payload) = markNoticeRequired chat msgs payload c"
| "step c (EvNoticePrefix chat payload) = markNoticeRequiredForProcessingPrefix chat payload c"
| "step c (EvOperatorSuspend chat now) = prepareOperatorSuspend chat now c"
| "step c (EvEvict chat) = prepareEvict chat c"
| "step c (EvTerminate chat requestNow) = drainForTerminate chat requestNow c"

fun run :: "coord \<Rightarrow> event list \<Rightarrow> coord" where
  "run c [] = c"
| "run c (e # es) = run (step c e) es"

end
