(* ===== verification/InboxLemmas.thy ===== *)
theory InboxLemmas
  imports InboxDelivery
begin

text \<open>
  The library of the delivery coordinator's proofs: what every operation of \<open>InboxDelivery\<close> does to the
  parts of the state the properties observe. Three collections carry the proofs:
  \<^item> \<open>led\<close>: the ledger of a chat after a primitive (\<open>upd\<close>, \<open>ensure\<close>, \<open>cleanupLedger\<close>);
  \<^item> \<open>fld\<close>: the other fields of the coordinator after an operation (frame rules);
  \<^item> \<open>ids\<close>: the identities of the tracked deliveries of a chat after an operation.
\<close>

named_theorems led \<open>ledgers after an operation\<close>
named_theorems fld \<open>fields of the coordinator after an operation\<close>
named_theorems ids \<open>identities of tracked deliveries after an operation\<close>
named_theorems iso \<open>the ledgers of the other chats after an operation\<close>

section \<open>Primitives\<close>

lemma ledger_at_fields [led]:
  "ledger_at (c\<lparr>co_dedup := d\<rparr>) k = ledger_at c k"
  "ledger_at (c\<lparr>co_settled := d\<rparr>) k = ledger_at c k"
  "ledger_at (c\<lparr>co_fenceSettled := fs\<rparr>) k = ledger_at c k"
  "ledger_at (c\<lparr>co_recovering := r\<rparr>) k = ledger_at c k"
  "ledger_at (c\<lparr>co_notices := ns\<rparr>) k = ledger_at c k"
  "ledger_at (c\<lparr>co_bindLoops := bs\<rparr>) k = ledger_at c k"
  "ledger_at (c\<lparr>co_nextOid := n\<rparr>) k = ledger_at c k"
  "ledger_at (c\<lparr>co_outs := os\<rparr>) k = ledger_at c k"
  by (simp_all add: ledger_at_def)

lemma ledger_at_emit [led]: "ledger_at (emit x c) k = ledger_at c k"
  by (simp add: emit_def ledger_at_def)

lemma ledger_at_upd [led]:
  "ledger_at (upd chat f c) k = (if k = chat then map_option f (ledger_at c chat) else ledger_at c k)"
  by (auto simp: upd_def ledger_at_def split: option.split)

lemma ledger_at_upd_entries [led]:
  "ledger_at (upd_entries chat f c) k =
     (if k = chat then map_option (\<lambda>l. l\<lparr>ld_entries := f (ld_entries l)\<rparr>) (ledger_at c chat) else ledger_at c k)"
  by (simp add: upd_entries_def ledger_at_upd)

lemma ledger_at_ensure [led]:
  "ledger_at (ensure chat c) k = (if k = chat then Some (the_ledger c chat) else ledger_at c k)"
  by (auto simp: ensure_def ledger_at_def the_ledger_def split: option.split)

definition window_closed :: "ledger \<Rightarrow> ledger" where
  "window_closed l = (if ld_windowOpen l \<and> quiescent l then l\<lparr>ld_windowOpen := False\<rparr> else l)"

definition disposable :: "ledger \<Rightarrow> bool" where
  "disposable l \<longleftrightarrow> quiescent l \<and> \<not> ld_activationReady l \<and> \<not> ld_windowOpen l \<and> \<not> ld_needsReconcile l"

lemma ledger_at_cleanup [led]:
  "ledger_at (cleanupLedger chat c) k =
     (if k = chat
      then (case ledger_at c chat of
              None \<Rightarrow> None
            | Some l \<Rightarrow> if disposable (window_closed l) then None else Some (window_closed l))
      else ledger_at c k)"
  by (auto simp: cleanupLedger_def ledger_at_def Let_def disposable_def window_closed_def split: option.split)

lemma window_closed_fields [simp]:
  "ld_entries (window_closed l) = ld_entries l" "ld_debt (window_closed l) = ld_debt l"
  "ld_activationReady (window_closed l) = ld_activationReady l"
  "ld_needsReconcile (window_closed l) = ld_needsReconcile l"
  "ld_admission (window_closed l) = ld_admission l" "ld_acks (window_closed l) = ld_acks l"
  "ld_head (window_closed l) = ld_head l" "quiescent (window_closed l) = quiescent l"
  by (simp_all add: window_closed_def quiescent_def)

lemma new_ledger_fields [simp]:
  "ld_entries new_ledger = []" "ld_debt new_ledger = DebtNone" "\<not> ld_activationReady new_ledger"
  "\<not> ld_windowOpen new_ledger" "\<not> ld_needsReconcile new_ledger" "ld_admission new_ledger = 0"
  "ld_acks new_ledger = []" "ld_head new_ledger = HeadIdle"
  by (simp_all add: new_ledger_def)

lemma the_ledger_Some [simp]: "ledger_at c k = Some l \<Longrightarrow> the_ledger c k = l"
  by (simp add: the_ledger_def)

lemma the_ledger_None [simp]: "ledger_at c k = None \<Longrightarrow> the_ledger c k = new_ledger"
  by (simp add: the_ledger_def)

lemma the_ledger_cong: "ledger_at c k = ledger_at c' k \<Longrightarrow> the_ledger c k = the_ledger c' k"
  by (simp add: the_ledger_def)

lemma entries_of_None [simp]: "ledger_at c k = None \<Longrightarrow> entries_of c k = []"
  by (simp add: entries_of_def)

text \<open>The frame rules of the primitives: every field but the ledgers.\<close>

lemma co_fields_upd [fld]:
  "co_hasRecover (upd k f c) = co_hasRecover c" "co_hasNotice (upd k f c) = co_hasNotice c"
  "co_dedup (upd k f c) = co_dedup c" "co_settled (upd k f c) = co_settled c"
  "co_fenceSettled (upd k f c) = co_fenceSettled c" "co_recovering (upd k f c) = co_recovering c"
  "co_notices (upd k f c) = co_notices c" "co_bindLoops (upd k f c) = co_bindLoops c"
  "co_nextOid (upd k f c) = co_nextOid c" "co_outs (upd k f c) = co_outs c"
  by (simp_all add: upd_def split: option.split)

lemma co_fields_upd_entries [fld]:
  "co_hasRecover (upd_entries k g c) = co_hasRecover c" "co_hasNotice (upd_entries k g c) = co_hasNotice c"
  "co_dedup (upd_entries k g c) = co_dedup c" "co_settled (upd_entries k g c) = co_settled c"
  "co_fenceSettled (upd_entries k g c) = co_fenceSettled c"
  "co_recovering (upd_entries k g c) = co_recovering c"
  "co_notices (upd_entries k g c) = co_notices c" "co_bindLoops (upd_entries k g c) = co_bindLoops c"
  "co_nextOid (upd_entries k g c) = co_nextOid c" "co_outs (upd_entries k g c) = co_outs c"
  by (simp_all add: upd_entries_def fld)

lemma co_fields_ensure [fld]:
  "co_hasRecover (ensure k c) = co_hasRecover c" "co_hasNotice (ensure k c) = co_hasNotice c"
  "co_dedup (ensure k c) = co_dedup c" "co_settled (ensure k c) = co_settled c"
  "co_fenceSettled (ensure k c) = co_fenceSettled c" "co_recovering (ensure k c) = co_recovering c"
  "co_notices (ensure k c) = co_notices c" "co_bindLoops (ensure k c) = co_bindLoops c"
  "co_nextOid (ensure k c) = co_nextOid c" "co_outs (ensure k c) = co_outs c"
  by (simp_all add: ensure_def split: option.split)

lemma co_fields_cleanup [fld]:
  "co_hasRecover (cleanupLedger k c) = co_hasRecover c" "co_hasNotice (cleanupLedger k c) = co_hasNotice c"
  "co_dedup (cleanupLedger k c) = co_dedup c" "co_settled (cleanupLedger k c) = co_settled c"
  "co_fenceSettled (cleanupLedger k c) = co_fenceSettled c"
  "co_recovering (cleanupLedger k c) = co_recovering c"
  "co_notices (cleanupLedger k c) = co_notices c" "co_bindLoops (cleanupLedger k c) = co_bindLoops c"
  "co_nextOid (cleanupLedger k c) = co_nextOid c" "co_outs (cleanupLedger k c) = co_outs c"
  by (simp_all add: cleanupLedger_def Let_def split: option.split)

lemma co_fields_emit [fld]:
  "co_hasRecover (emit x c) = co_hasRecover c" "co_hasNotice (emit x c) = co_hasNotice c"
  "co_dedup (emit x c) = co_dedup c" "co_settled (emit x c) = co_settled c"
  "co_fenceSettled (emit x c) = co_fenceSettled c" "co_recovering (emit x c) = co_recovering c"
  "co_notices (emit x c) = co_notices c" "co_bindLoops (emit x c) = co_bindLoops c"
  "co_nextOid (emit x c) = co_nextOid c" "co_outs (emit x c) = co_outs c @ [x]"
  by (simp_all add: emit_def)


section \<open>Isolation: an operation on one chat leaves the ledgers of the others alone\<close>

lemma iso_upd [iso]: "k \<noteq> chat \<Longrightarrow> ledger_at (upd chat f c) k = ledger_at c k"
  by (simp add: led)

lemma iso_upd_entries [iso]: "k \<noteq> chat \<Longrightarrow> ledger_at (upd_entries chat f c) k = ledger_at c k"
  by (simp add: led)

lemma iso_ensure [iso]: "k \<noteq> chat \<Longrightarrow> ledger_at (ensure chat c) k = ledger_at c k"
  by (simp add: led)

lemma iso_cleanup [iso]: "k \<noteq> chat \<Longrightarrow> ledger_at (cleanupLedger chat c) k = ledger_at c k"
  by (simp add: led)

declare ledger_at_fields [iso] ledger_at_emit [iso]

lemma iso_requestRecovery [iso]: "k \<noteq> chat \<Longrightarrow> ledger_at (requestRecovery chat c) k = ledger_at c k"
  by (simp add: requestRecovery_def Let_def iso)

lemma iso_markRecoveryDebt [iso]: "k \<noteq> chat \<Longrightarrow> ledger_at (markRecoveryDebt chat b c) k = ledger_at c k"
  by (simp add: markRecoveryDebt_def Let_def iso)

lemma iso_clearEntries [iso]:
  "k \<noteq> chat \<Longrightarrow> ledger_at (clearEntriesForRecoverySuccess chat c) k = ledger_at c k"
  by (simp add: clearEntriesForRecoverySuccess_def Let_def iso)

lemma iso_markFenceSettled [iso]: "ledger_at (markFenceSettled chat ids c) k = ledger_at c k"
  by (simp add: markFenceSettled_def iso)

lemma iso_record_committed [iso]: "ledger_at (record_committed chat ts c) k = ledger_at c k"
  by (simp add: record_committed_def ledger_at_def)

lemma iso_commitRemaining [iso]:
  "k \<noteq> chat \<Longrightarrow> ledger_at (commitRemainingEntriesFromServerProof chat c) k = ledger_at c k"
  by (simp add: commitRemainingEntriesFromServerProof_def Let_def iso)

lemma iso_recover_ok [iso]: "k \<noteq> chat \<Longrightarrow> ledger_at (recover_ok chat u c) k = ledger_at c k"
  by (simp add: recover_ok_def Let_def iso)

lemma iso_recover_fail [iso]: "k \<noteq> chat \<Longrightarrow> ledger_at (recover_fail chat c) k = ledger_at c k"
  by (simp add: recover_fail_def Let_def iso)

lemma iso_takeActivation [iso]:
  "k \<noteq> chat \<Longrightarrow> ledger_at (snd (takeRecoveryActivationReady chat c)) k = ledger_at c k"
  by (simp add: takeRecoveryActivationReady_def iso split: option.split)

lemma iso_completeBindRecovery [iso]:
  "k \<noteq> chat \<Longrightarrow> ledger_at (completeBindRecovery chat c) k = ledger_at c k"
  by (simp add: completeBindRecovery_def iso split: option.split)

lemma iso_run_cont [iso]: "k \<noteq> chat \<Longrightarrow> ledger_at (run_cont chat kt ok c) k = ledger_at c k"
  by (simp add: run_cont_def iso split: ack_cont.split)

lemma iso_ackThrough [iso]:
  "k \<noteq> chat \<Longrightarrow> ledger_at (ackThrough chat t r b kt c) k = ledger_at c k"
  by (simp add: ackThrough_def iso split: option.split)

lemma iso_finish_job [iso]: "k \<noteq> chat \<Longrightarrow> ledger_at (finish_job chat ok c) k = ledger_at c k"
  by (simp add: finish_job_def Let_def iso split: list.split)

lemma iso_ack_start [iso]: "k \<noteq> chat \<Longrightarrow> ledger_at (ack_start chat now c) k = ledger_at c k"
  by (simp add: ack_start_def Let_def iso split: list.split option.split)

lemma iso_ack_ok [iso]: "k \<noteq> chat \<Longrightarrow> ledger_at (ack_ok chat c) k = ledger_at c k"
  by (simp add: ack_ok_def Let_def iso split: list.split)

lemma iso_ack_fail [iso]: "k \<noteq> chat \<Longrightarrow> ledger_at (ack_fail chat c) k = ledger_at c k"
  by (simp add: ack_fail_def Let_def iso split: list.split)

lemma iso_ack_resume [iso]: "k \<noteq> chat \<Longrightarrow> ledger_at (ack_resume chat c) k = ledger_at c k"
  by (simp add: ack_resume_def iso)

lemma iso_settleNotice [iso]:
  "k \<noteq> chat \<Longrightarrow> ledger_at (settleNoticeRequiredRedelivery chat t c) k = ledger_at c k"
  by (simp add: settleNoticeRequiredRedelivery_def Let_def iso split: option.split)

lemma iso_notice_ok [iso]:
  "i < length (co_notices c) \<longrightarrow> fst (co_notices c ! i) \<noteq> k \<Longrightarrow> ledger_at (notice_ok i now c) k = ledger_at c k"
  by (cases "co_notices c ! i") (auto simp: notice_ok_def Let_def iso)

lemma iso_notice_fail [iso]:
  "i < length (co_notices c) \<longrightarrow> fst (co_notices c ! i) \<noteq> k \<Longrightarrow> ledger_at (notice_fail i c) k = ledger_at c k"
  by (cases "co_notices c ! i") (auto simp: notice_fail_def Let_def iso)

lemma iso_receive [iso]: "k \<noteq> entry_chat e \<Longrightarrow> ledger_at (receive e c) k = ledger_at c k"
  by (simp add: receive_def receive_active_def admit_entry_def Let_def iso split: option.split prod.split)

lemma iso_runAdmission [iso]: "k \<noteq> chat \<Longrightarrow> ledger_at (runAdmission chat c) k = ledger_at c k"
  by (simp add: runAdmission_def iso)

lemma iso_admission_done [iso]: "k \<noteq> chat \<Longrightarrow> ledger_at (admission_done chat c) k = ledger_at c k"
  by (simp add: admission_done_def Let_def iso split: nat.split)

lemma iso_withheld [iso]: "k \<noteq> chat \<Longrightarrow> ledger_at (markReplayFenceWithheld chat ids c) k = ledger_at c k"
  by (simp add: markReplayFenceWithheld_def iso)

lemma iso_settleFenced [iso]: "k \<noteq> chat \<Longrightarrow> ledger_at (settleReplayFencedEntries chat ids c) k = ledger_at c k"
  by (simp add: settleReplayFencedEntries_def Let_def iso split: option.split)

lemma iso_markOwned [iso]: "k \<noteq> wk_chatId w \<Longrightarrow> ledger_at (snd (markOwned w c)) k = ledger_at c k"
  by (simp add: markOwned_def iso split: option.split)

lemma iso_touch [iso]: "k \<noteq> chat \<Longrightarrow> ledger_at (touch_entries chat f c) k = ledger_at c k"
  by (simp add: touch_entries_def iso)

lemma iso_processing [iso]:
  "k \<noteq> chat \<Longrightarrow> ledger_at (markProcessingStarted chat msgs now c) k = ledger_at c k"
  by (simp add: markProcessingStarted_def iso)

lemma iso_markTerminal [iso]:
  "k \<noteq> chat \<Longrightarrow> ledger_at (markTerminal chat msgs oc ev now c) k = ledger_at c k"
  by (simp add: markTerminal_def iso)

lemma iso_finishTurn [iso]: "k \<noteq> chat \<Longrightarrow> ledger_at (finishTurn chat msgs oc now c) k = ledger_at c k"
  by (simp add: finishTurn_def iso split: option.split)

lemma iso_terminalRejected [iso]:
  "k \<noteq> chat \<Longrightarrow> ledger_at (terminalRejected chat msgs ev now c) k = ledger_at c k"
  by (simp add: terminalRejected_def iso split: option.split)

lemma iso_retryTurn [iso]: "k \<noteq> chat \<Longrightarrow> ledger_at (retryTurn chat msgs c) k = ledger_at c k"
  by (simp add: retryTurn_def iso)

lemma iso_park [iso]:
  "k \<noteq> chat \<Longrightarrow> ledger_at (snd (parkTurnForDeferredRecovery chat msgs c)) k = ledger_at c k"
  by (simp add: parkTurnForDeferredRecovery_def iso)

lemma iso_ack_terminal_prefix [iso]:
  "k \<noteq> chat \<Longrightarrow> ledger_at (ack_terminal_prefix chat r kt c) k = ledger_at c k"
  by (simp add: ack_terminal_prefix_def iso split: list.split)

lemma iso_suspension [iso]:
  "k \<noteq> chat \<Longrightarrow> ledger_at (prepareSuspend chat r c) k = ledger_at c k"
  "k \<noteq> chat \<Longrightarrow> ledger_at (drainForTerminate chat b c) k = ledger_at c k"
  "k \<noteq> chat \<Longrightarrow> ledger_at (prepareEvict chat c) k = ledger_at c k"
  "k \<noteq> chat \<Longrightarrow> ledger_at (markNoticeRequired chat msgs p c) k = ledger_at c k"
  "k \<noteq> chat \<Longrightarrow> ledger_at (markNoticeRequiredForProcessingPrefix chat q c) k = ledger_at c k"
  "k \<noteq> chat \<Longrightarrow> ledger_at (prepareOperatorSuspend chat now c) k = ledger_at c k"
  by (simp_all add: prepareSuspend_def drainForTerminate_def prepareEvict_def markNoticeRequired_def
      markNoticeRequiredForProcessingPrefix_def prepareOperatorSuspend_def Let_def iso split: prod.split)

text \<open>The chats an event acts on. A bind loop acts on the next chat of its list.\<close>

fun event_chats :: "coord \<Rightarrow> event \<Rightarrow> string set" where
  "event_chats c (EvReceive e) = {entry_chat e}"
| "event_chats c (EvOwned w) = {wk_chatId w}"
| "event_chats c EvBound = {}"
| "event_chats c (EvBindStep i) =
     (if i < length (co_bindLoops c) then set (take 1 (snd (co_bindLoops c ! i))) else {})"
| "event_chats c (EvNoticeOk i now) = (if i < length (co_notices c) then {fst (co_notices c ! i)} else {})"
| "event_chats c (EvNoticeFail i) = (if i < length (co_notices c) then {fst (co_notices c ! i)} else {})"
| "event_chats c (EvAdmit chat) = {chat}"
| "event_chats c (EvAdmissionDone chat) = {chat}"
| "event_chats c (EvRecoverIfNeeded chat) = {chat}"
| "event_chats c (EvTakeActivation chat) = {chat}"
| "event_chats c (EvRecoverOk chat u) = {chat}"
| "event_chats c (EvRecoverFail chat) = {chat}"
| "event_chats c (EvBindRecovered chat) = {chat}"
| "event_chats c (EvAckStart chat now) = {chat}"
| "event_chats c (EvAckOk chat) = {chat}"
| "event_chats c (EvAckFail chat) = {chat}"
| "event_chats c (EvAckResume chat) = {chat}"
| "event_chats c (EvWithheld chat ids) = {chat}"
| "event_chats c (EvFenceSettled chat ids) = {chat}"
| "event_chats c (EvSettleFenced chat ids) = {chat}"
| "event_chats c (EvProcessing chat msgs now) = {chat}"
| "event_chats c (EvFinish chat msgs oc now) = {chat}"
| "event_chats c (EvRejected chat msgs ev now) = {chat}"
| "event_chats c (EvRetry chat msgs) = {chat}"
| "event_chats c (EvPark chat msgs) = {chat}"
| "event_chats c (EvSuspend chat reason) = {chat}"
| "event_chats c (EvNoticeRequired chat msgs p) = {chat}"
| "event_chats c (EvNoticePrefix chat p) = {chat}"
| "event_chats c (EvOperatorSuspend chat now) = {chat}"
| "event_chats c (EvEvict chat) = {chat}"
| "event_chats c (EvTerminate chat b) = {chat}"

lemma iso_bind_step [iso]:
  assumes "k \<notin> event_chats c (EvBindStep i)"
  shows "ledger_at (bind_step i c) k = ledger_at c k"
proof (cases "i < length (co_bindLoops c)")
  case True
  obtain w chats where i: "co_bindLoops c ! i = (w, chats)" by (cases "co_bindLoops c ! i")
  show ?thesis
  proof (cases chats)
    case Nil
    with True i show ?thesis by (simp add: bind_step_def led)
  next
    case (Cons ch rest)
    with True i assms have "k \<noteq> ch" by simp
    with True i Cons show ?thesis by (simp add: bind_step_def iso)
  qed
qed (simp add: bind_step_def)

lemma step_isolation: "k \<notin> event_chats c e \<Longrightarrow> ledger_at (step c e) k = ledger_at c k"
proof (cases e)
  case (EvBindStep i)
  then show "k \<notin> event_chats c e \<Longrightarrow> ?thesis" by (simp add: iso_bind_step del: event_chats.simps)
next
  case EvBound
  then show ?thesis by (simp add: bind_start_def led)
qed (auto simp: iso split: if_splits)


section \<open>What the primitives do to one ledger\<close>

named_theorems view \<open>the ledger of a chat, as read through \<open>the_ledger\<close>\<close>

lemma the_ledger_upd [view]:
  "the_ledger (upd chat f c) k =
     (if k = chat \<and> ledger_at c chat \<noteq> None then f (the_ledger c chat) else the_ledger c k)"
  by (auto simp: the_ledger_def led split: option.split)

lemma the_ledger_ensure [view]: "the_ledger (ensure chat c) k = the_ledger c k"
  by (simp add: the_ledger_def led split: option.split)

lemma the_ledger_frame [view]:
  "the_ledger (emit x c) k = the_ledger c k"
  "the_ledger (c\<lparr>co_dedup := d\<rparr>) k = the_ledger c k"
  "the_ledger (c\<lparr>co_settled := d\<rparr>) k = the_ledger c k"
  "the_ledger (c\<lparr>co_fenceSettled := fs\<rparr>) k = the_ledger c k"
  "the_ledger (c\<lparr>co_recovering := r\<rparr>) k = the_ledger c k"
  "the_ledger (c\<lparr>co_notices := ns\<rparr>) k = the_ledger c k"
  "the_ledger (c\<lparr>co_bindLoops := bs\<rparr>) k = the_ledger c k"
  "the_ledger (c\<lparr>co_nextOid := n\<rparr>) k = the_ledger c k"
  by (simp_all add: the_ledger_def led)

lemma the_ledger_record_committed [view]: "the_ledger (record_committed chat ts c) k = the_ledger c k"
  by (simp add: the_ledger_def iso)

lemma the_ledger_markFence [view]: "the_ledger (markFenceSettled chat ids c) k = the_ledger c k"
  by (simp add: the_ledger_def iso)

lemma entries_of_upd_entries [ids]:
  "entries_of (upd_entries chat f c) k =
     (if k = chat \<and> ledger_at c chat \<noteq> None then f (entries_of c chat) else entries_of c k)"
  by (auto simp: entries_of_def upd_entries_def view)

lemma entries_of_upd [ids]:
  "(\<And>l. ld_entries (f l) = ld_entries l) \<Longrightarrow> entries_of (upd chat f c) k = entries_of c k"
  by (simp add: entries_of_def view)

lemma entries_of_frame [ids]:
  "entries_of (ensure chat c) k = entries_of c k"
  "entries_of (emit x c) k = entries_of c k"
  "entries_of (c\<lparr>co_dedup := d\<rparr>) k = entries_of c k"
  "entries_of (c\<lparr>co_settled := d\<rparr>) k = entries_of c k"
  "entries_of (c\<lparr>co_fenceSettled := fs\<rparr>) k = entries_of c k"
  "entries_of (c\<lparr>co_recovering := r\<rparr>) k = entries_of c k"
  "entries_of (c\<lparr>co_notices := ns\<rparr>) k = entries_of c k"
  "entries_of (c\<lparr>co_bindLoops := bs\<rparr>) k = entries_of c k"
  "entries_of (c\<lparr>co_nextOid := n\<rparr>) k = entries_of c k"
  "entries_of (record_committed chat ts c) k = entries_of c k"
  "entries_of (markFenceSettled chat ms c) k = entries_of c k"
  by (simp_all add: entries_of_def view)

lemma entries_of_cleanup [ids]: "entries_of (cleanupLedger chat c) k = entries_of c k"
  by (auto simp: entries_of_def the_ledger_def led disposable_def quiescent_def split: option.split)

lemma debt_of_cleanup: "ld_debt (the_ledger (cleanupLedger chat c) k) = ld_debt (the_ledger c k)"
  by (auto simp: the_ledger_def led disposable_def quiescent_def split: option.split)

lemma entries_of_requestRecovery [ids]: "entries_of (requestRecovery chat c) k = entries_of c k"
  by (simp add: requestRecovery_def Let_def ids)

lemma entries_of_markRecoveryDebt [ids]: "entries_of (markRecoveryDebt chat b c) k = entries_of c k"
  by (simp add: markRecoveryDebt_def Let_def ids)

lemma entries_of_clear [ids]:
  "entries_of (clearEntriesForRecoverySuccess chat c) k =
     (if k = chat then filter kept_by_recovery (entries_of c chat) else entries_of c k)"
  by (simp add: clearEntriesForRecoverySuccess_def Let_def ids led)

lemma entries_of_commitRemaining [ids]:
  "entries_of (commitRemainingEntriesFromServerProof chat c) k = (if k = chat then [] else entries_of c k)"
proof -
  have "entries_of (upd chat (\<lambda>l. l\<lparr>ld_entries := [], ld_needsReconcile := False\<rparr>) c) k =
      (if k = chat then [] else entries_of c k)" for k
    by (auto simp: entries_of_def view)
  then show ?thesis by (simp add: commitRemainingEntriesFromServerProof_def Let_def ids)
qed

lemma entries_of_recover_ok [ids]:
  "entries_of (recover_ok chat u c) k =
     (if k = chat \<and> chat \<in> set (co_recovering c)
      then (if recoverProvedChatSettled u then [] else filter kept_by_recovery (entries_of c chat))
      else entries_of c k)"
  by (simp add: recover_ok_def Let_def ids)

lemma entries_of_recover_fail [ids]: "entries_of (recover_fail chat c) k = entries_of c k"
  by (simp add: recover_fail_def Let_def ids)

lemma entries_of_takeActivation [ids]:
  "entries_of (snd (takeRecoveryActivationReady chat c)) k = entries_of c k"
  by (simp add: takeRecoveryActivationReady_def ids split: option.split)

lemma entries_of_completeBindRecovery [ids]:
  "entries_of (completeBindRecovery chat c) k =
     (if k = chat then filter kept_by_recovery (entries_of c chat) else entries_of c k)"
  by (simp add: completeBindRecovery_def ids split: option.split)

lemma entries_of_bind [ids]:
  "entries_of (bind_start c) k = entries_of c k"
  "entries_of (bind_step i c) k = entries_of c k"
  by (simp_all add: bind_start_def bind_step_def ids split: prod.split option.split list.split)


section \<open>Identities of the tracked deliveries\<close>

text \<open>What never changes while a delivery is tracked.\<close>

definition ident :: "tracked \<Rightarrow> nat \<times> int \<times> string \<times> string" where
  "ident t = (tr_oid t, tr_entryId t, tr_messageId t, tr_dedupKey t)"

definition idents :: "coord \<Rightarrow> string \<Rightarrow> (nat \<times> int \<times> string \<times> string) list" where
  "idents c k = map ident (entries_of c k)"

lemma idents_cong: "entries_of c k = entries_of c' k \<Longrightarrow> idents c k = idents c' k"
  by (simp add: idents_def)

lemma map_ident_map: "(\<And>t. ident (f t) = ident t) \<Longrightarrow> map ident (map f ts) = map ident ts"
  by simp

lemma map_ident_set_entry [simp]:
  "(\<And>t. ident (f t) = ident t) \<Longrightarrow> map ident (set_entry oid f ts) = map ident ts"
  by (simp add: set_entry_def)

lemma idents_upd_entries:
  "(\<And>ts. map ident (f ts) = map ident ts) \<Longrightarrow> idents (upd_entries chat f c) k = idents c k"
  by (simp add: idents_def ids)

lemma ident_updates [simp]:
  "ident (t\<lparr>tr_phase := p\<rparr>) = ident t" "ident (t\<lparr>tr_startedAt := s\<rparr>) = ident t"
  "ident (t\<lparr>tr_noticeRequired := b\<rparr>) = ident t" "ident (t\<lparr>tr_noticePayload := pl\<rparr>) = ident t"
  "ident (t\<lparr>tr_noticeInFlight := b\<rparr>) = ident t" "ident (t\<lparr>tr_outcome := oc\<rparr>) = ident t"
  "ident (t\<lparr>tr_ack := a\<rparr>) = ident t" "ident (t\<lparr>tr_withheld := b\<rparr>) = ident t"
  by (simp_all add: ident_def)

lemma ident_entry_steps [simp]:
  "ident (mark_attempt th r now t) = ident t" "ident (settle_notice_entry now t) = ident t"
  "ident (start_entry now t) = ident t" "ident (terminal_entry oc ev now t) = ident t"
  by (simp_all add: mark_attempt_def settle_notice_entry_def start_entry_def terminal_entry_def Let_def)

lemma notice_prefix_ident: "map ident (fst (notice_prefix p ts)) = map ident ts"
  by (induction ts) (auto split: prod.split)

lemma operator_prefix_ident:
  "map ident (snd (snd (operator_prefix now ts))) = map ident ts"
  by (induction ts) (auto split: prod.split)

lemma ack_prefix_append: "ack_prefix th ts = Some pre \<Longrightarrow> ts = pre @ drop (length pre) ts"
  by (induction ts arbitrary: pre) (auto split: if_splits)

lemma idents_frame [ids]:
  "idents (ensure chat c) k = idents c k"
  "idents (emit x c) k = idents c k"
  "idents (c\<lparr>co_dedup := d\<rparr>) k = idents c k"
  "idents (c\<lparr>co_notices := ns\<rparr>) k = idents c k"
  "idents (c\<lparr>co_nextOid := n\<rparr>) k = idents c k"
  "idents (cleanupLedger chat c) k = idents c k"
  "idents (requestRecovery chat c) k = idents c k"
  "idents (markRecoveryDebt chat b c) k = idents c k"
  "idents (markFenceSettled chat ms c) k = idents c k"
  "idents (record_committed chat ts c) k = idents c k"
  by (simp_all add: idents_def ids)

lemma idents_upd [ids]:
  "(\<And>l. ld_entries (f l) = ld_entries l) \<Longrightarrow> idents (upd chat f c) k = idents c k"
  by (simp add: idents_def ids)

lemma idents_run_cont [ids]: "idents (run_cont chat kt ok c) k = idents c k"
  by (simp add: run_cont_def ids idents_upd_entries split: ack_cont.split)

lemma idents_ackThrough [ids]: "idents (ackThrough chat th r b kt c) k = idents c k"
  by (simp add: ackThrough_def ids split: option.split)

lemma idents_finish_job [ids]: "idents (finish_job chat ok c) k = idents c k"
  by (simp add: finish_job_def Let_def ids split: list.split)

lemma idents_ack_start [ids]: "idents (ack_start chat now c) k = idents c k"
proof -
  have pre: "idents (upd_entries chat (\<lambda>ts. pre' @ drop (length pre) ts) c) k = idents c k"
    if "ack_prefix th (ld_entries (the_ledger c chat)) = Some pre" and same: "map ident pre' = map ident pre"
    for th pre pre'
  proof (cases "k = chat \<and> ledger_at c chat \<noteq> None")
    case True
    from ack_prefix_append [OF that(1)] have "entries_of c chat = pre @ drop (length pre) (entries_of c chat)"
      by (simp add: entries_of_def)
    then have "map ident (entries_of c chat) = map ident pre @ map ident (drop (length pre) (entries_of c chat))"
      by (metis map_append)
    with True same show ?thesis by (simp add: idents_def ids o_def)
  qed (use same in \<open>auto simp: idents_def ids\<close>)
  show ?thesis
    by (simp add: ack_start_def Let_def ids pre o_def split: list.split option.split)
qed

lemma idents_ack_ok [ids]:
  "idents (ack_ok chat c) k =
     (if k = chat \<and> ld_head (the_ledger c chat) = HeadSending \<and> ld_acks (the_ledger c chat) \<noteq> []
      then map ident (filter (\<lambda>t. tr_entryId t > jb_through (hd (ld_acks (the_ledger c chat)))) (entries_of c chat))
      else idents c k)"
  by (auto simp: ack_ok_def Let_def ids idents_def [of "upd_entries chat f c" for f] split: list.split)
     (simp_all add: idents_def)

lemma idents_ack_fail [ids]: "idents (ack_fail chat c) k = idents c k"
proof -
  have "idents (upd chat (\<lambda>l. l\<lparr>ld_needsReconcile := True, ld_entries :=
           map (\<lambda>t. if tr_entryId t \<le> th then t\<lparr>tr_ack := None\<rparr> else t) (ld_entries l)\<rparr>) c) k = idents c k" for th
    by (auto simp: idents_def entries_of_def view o_def if_distrib cong: if_cong)
  then show ?thesis by (simp add: ack_fail_def Let_def ids split: list.split)
qed

lemma idents_ack_resume [ids]: "idents (ack_resume chat c) k = idents c k"
  by (simp add: ack_resume_def ids)

lemma idents_settleNotice [ids]: "idents (settleNoticeRequiredRedelivery chat t c) k = idents c k"
  by (simp add: settleNoticeRequiredRedelivery_def Let_def ids idents_upd_entries split: option.split)

lemma idents_notice_ok [ids]: "idents (notice_ok i now c) k = idents c k"
  by (simp add: notice_ok_def Let_def ids idents_upd_entries split: prod.split)

lemma idents_notice_fail [ids]: "idents (notice_fail i c) k = idents c k"
  by (simp add: notice_fail_def Let_def ids idents_upd_entries split: prod.split)

lemma idents_admission [ids]:
  "idents (runAdmission chat c) k = idents c k"
  "idents (admission_done chat c) k = idents c k"
  by (simp_all add: runAdmission_def admission_done_def Let_def ids split: nat.split)

lemma idents_withheld [ids]: "idents (markReplayFenceWithheld chat ms c) k = idents c k"
  by (auto simp: markReplayFenceWithheld_def intro!: idents_upd_entries)

lemma idents_settleFenced [ids]:
  "idents (settleReplayFencedEntries chat ms c) k =
     (if k = chat then map ident (filter (\<lambda>t. tr_messageId t \<notin> set ms) (entries_of c chat)) else idents c k)"
  by (auto simp: settleReplayFencedEntries_def Let_def ids iso idents_def split: option.split)

lemma idents_markOwned [ids]: "idents (snd (markOwned w c)) k = idents c k"
  by (simp add: markOwned_def ids idents_upd_entries split: option.split)

lemma idents_touch: "(\<And>t. ident (f t) = ident t) \<Longrightarrow> idents (touch_entries chat f c) k = idents c k"
  by (simp add: touch_entries_def ids idents_upd_entries)

lemma idents_processing [ids]: "idents (markProcessingStarted chat msgs now c) k = idents c k"
  by (simp add: markProcessingStarted_def idents_touch)

lemma idents_markTerminal [ids]: "idents (markTerminal chat msgs oc ev now c) k = idents c k"
  by (simp add: markTerminal_def idents_touch)

lemma idents_completion [ids]:
  "idents (finishTurn chat msgs oc now c) k = idents c k"
  "idents (terminalRejected chat msgs ev now c) k = idents c k"
  "idents (retryTurn chat msgs c) k = idents c k"
  "idents (snd (parkTurnForDeferredRecovery chat msgs c)) k = idents c k"
  by (simp_all add: finishTurn_def terminalRejected_def retryTurn_def parkTurnForDeferredRecovery_def ids
      split: option.split)

lemma idents_ack_terminal_prefix [ids]: "idents (ack_terminal_prefix chat r kt c) k = idents c k"
  by (simp add: ack_terminal_prefix_def ids split: list.split)

lemma idents_noticeRequired [ids]: "idents (markNoticeRequired chat msgs p c) k = idents c k"
  by (auto simp: markNoticeRequired_def ids o_def intro!: idents_upd_entries)

lemma idents_operatorSuspend [ids]: "idents (prepareOperatorSuspend chat now c) k = idents c k"
proof -
  have "idents (upd_entries chat (\<lambda>_. snd (snd (operator_prefix now (entries_of c chat)))) c) k = idents c k"
    by (simp add: idents_def ids operator_prefix_ident)
  then show ?thesis
    by (auto simp: prepareOperatorSuspend_def Let_def ids split: prod.split)
qed

lemma idents_suspension [ids]:
  "idents (prepareSuspend chat r c) k = idents c k"
  "idents (drainForTerminate chat b c) k = idents c k"
  "idents (prepareEvict chat c) k = idents c k"
  "idents (markNoticeRequiredForProcessingPrefix chat q c) k = idents c k"
  by (simp_all add: prepareSuspend_def drainForTerminate_def prepareEvict_def
      markNoticeRequiredForProcessingPrefix_def ids idents_upd_entries notice_prefix_ident)


text \<open>When an arrival is admitted as a new delivery.\<close>

definition admits :: "coord \<Rightarrow> inbox_entry \<Rightarrow> bool" where
  "admits c e \<longleftrightarrow>
     ld_debt (the_ledger c (entry_chat e)) = DebtNone \<and>
     findEntry c (entry_chat e) (ie_id e) = None \<and>
     \<not> fenceSettled c (entry_chat e) (ie_messageId e) \<and>
     \<not> (dedup_has (co_dedup c) (dedupKey (entry_chat e) (ie_messageId e)) \<and>
        (\<exists>t \<in> set (entries_of c (entry_chat e)). tr_messageId t = ie_messageId e))"

definition admitted :: "coord \<Rightarrow> inbox_entry \<Rightarrow> tracked" where
  "admitted c e =
     new_tracked (co_nextOid c) (ie_id e) (ie_messageId e) (dedupKey (entry_chat e) (ie_messageId e))"

definition releases :: "coord \<Rightarrow> inbox_entry \<Rightarrow> bool" where
  "releases c e \<longleftrightarrow>
     ld_debt (the_ledger c (entry_chat e)) = DebtNone \<and>
     (\<exists>t. findEntry c (entry_chat e) (ie_id e) = Some t \<and> tr_withheld t)"

lemma findEntry_frame [ids]:
  "findEntry (ensure chat c) k i = findEntry c k i"
  by (simp add: findEntry_def ids)

lemma fenceSettled_frame [fld]:
  "fenceSettled (ensure chat c) k m = fenceSettled c k m"
  "fenceSettled (upd chat f c) k m = fenceSettled c k m"
  "fenceSettled (upd_entries chat g c) k m = fenceSettled c k m"
  "fenceSettled (emit x c) k m = fenceSettled c k m"
  "fenceSettled (cleanupLedger chat c) k m = fenceSettled c k m"
  "fenceSettled (c\<lparr>co_recovering := r\<rparr>) k m = fenceSettled c k m"
  "fenceSettled (c\<lparr>co_notices := ns\<rparr>) k m = fenceSettled c k m"
  "fenceSettled (c\<lparr>co_bindLoops := bs\<rparr>) k m = fenceSettled c k m"
  "fenceSettled (c\<lparr>co_dedup := w\<rparr>) k m = fenceSettled c k m"
  "fenceSettled (c\<lparr>co_nextOid := n\<rparr>) k m = fenceSettled c k m"
  by (simp_all add: fenceSettled_def fld)

lemma fenceSettled_mark [fld]:
  "fenceSettled (markFenceSettled chat ms c) k m \<longleftrightarrow> fenceSettled c k m \<or> k = chat \<and> m \<in> set ms"
  by (auto simp: fenceSettled_def markFenceSettled_def split: option.split)

text \<open>The three ways an arrival ends.\<close>

lemma receive_cases:
  obtains
    (admitted) "admits c e"
      "receive e c = admit_entry e ((ensure (entry_chat e) c)\<lparr>co_dedup :=
         snd (isDuplicate (co_dedup c) (dedupKey (entry_chat e) (ie_messageId e)))\<rparr>)"
  | (active) t where "\<not> admits c e" "ld_debt (the_ledger c (entry_chat e)) = DebtNone"
      "findEntry c (entry_chat e) (ie_id e) = Some t"
      "receive e c = receive_active e t (ensure (entry_chat e) c)"
  | (refused) d x where "\<not> admits c e" "\<not> releases c e"
      "x = Recovering (entry_chat e) (ie_id e) \<or> x = DuplicateInFlight (entry_chat e) (ie_id e)"
      "d = co_dedup c \<or> d = snd (isDuplicate (co_dedup c) (dedupKey (entry_chat e) (ie_messageId e)))"
      "receive e c = emit x ((ensure (entry_chat e) c)\<lparr>co_dedup := d\<rparr>)"
proof -
  let ?chat = "entry_chat e"
  let ?c = "ensure ?chat c"
  let ?key = "dedupKey ?chat (ie_messageId e)"
  have same: "(?c\<lparr>co_dedup := co_dedup c\<rparr>) = ?c" by (simp add: ensure_def split: option.split)
  have dup: "fst (isDuplicate (co_dedup c) ?key) = dedup_has (co_dedup c) ?key"
    by (rule isDuplicate_answer)
  consider
      (debt) "ld_debt (the_ledger c ?chat) \<noteq> DebtNone"
    | (found) t where "ld_debt (the_ledger c ?chat) = DebtNone" "findEntry c ?chat (ie_id e) = Some t"
    | (fenced) "ld_debt (the_ledger c ?chat) = DebtNone" "findEntry c ?chat (ie_id e) = None"
        "fenceSettled c ?chat (ie_messageId e)"
    | (seen) "ld_debt (the_ledger c ?chat) = DebtNone" "findEntry c ?chat (ie_id e) = None"
        "\<not> fenceSettled c ?chat (ie_messageId e)" "\<not> admits c e"
    | (new) "admits c e"
    by (cases "findEntry c ?chat (ie_id e)") blast+
  then show thesis
  proof cases
    case debt
    then show thesis
      by (intro refused [of "Recovering ?chat (ie_id e)" "co_dedup c"])
         (simp_all add: receive_def Let_def view admits_def releases_def same)
  next
    case (found t)
    then show thesis
      by (intro active [of t]) (simp_all add: receive_def Let_def view admits_def ids)
  next
    case fenced
    then show thesis
      by (intro refused [of "DuplicateInFlight ?chat (ie_id e)" "co_dedup c"])
         (simp_all add: receive_def Let_def view admits_def releases_def ids fld same)
  next
    case seen
    then show thesis
      using dup
      by (intro refused [of "DuplicateInFlight ?chat (ie_id e)" "snd (isDuplicate (co_dedup c) ?key)"])
         (auto simp: receive_def Let_def view admits_def releases_def ids fld list_ex_iff split: prod.split)
  next
    case new
    then show thesis
      using dup
      by (intro admitted)
         (auto simp: receive_def Let_def view admits_def ids fld list_ex_iff split: prod.split)
  qed
qed

lemma idents_receive_active [ids]: "idents (receive_active e t c) k = idents c k"
  by (simp add: receive_active_def Let_def ids idents_upd_entries)

lemma idents_receive [ids]:
  "idents (receive e c) k =
     (if admits c e \<and> k = entry_chat e
      then map ident (sort_key tr_entryId (entries_of c k @ [admitted c e])) else idents c k)"
proof (cases rule: receive_cases [of c e])
  case admitted
  have "idents (upd_entries (entry_chat e) f (c\<lparr>co_dedup := d\<rparr>)) k = idents (upd_entries (entry_chat e) f c) k" for f d c
    by (auto simp: idents_def ids iso)
  with admitted show ?thesis
    by (simp add: admit_entry_def Let_def ids iso led fld idents_def admitted_def)
qed (auto simp: ids)

end
