(* ===== verification/InboxOutputs.thy ===== *)
theory InboxOutputs
  imports InboxLemmas
begin

text \<open>
  What the coordinator says to its environment: the deliveries it hands to the dispatcher, the
  acknowledgements it sends to the server and the recoveries it requests, operation by operation.
  \<open>balance\<close> is the number of \<open>recoverChat\<close> calls of a chat that have settled: the calls made, less
  the one in flight.
\<close>

named_theorems outs \<open>outputs after an operation\<close>

section \<open>Observations\<close>

definition deliveries :: "coord \<Rightarrow> work list" where
  "deliveries c = List.map_filter (\<lambda>x. case x of Deliver w \<Rightarrow> Some w | _ \<Rightarrow> None) (co_outs c)"

definition acks_sent :: "coord \<Rightarrow> (string \<times> int) list" where
  "acks_sent c = List.map_filter (\<lambda>x. case x of AckSent k i \<Rightarrow> Some (k, i) | _ \<Rightarrow> None) (co_outs c)"

definition recoveries :: "string \<Rightarrow> coord \<Rightarrow> nat" where
  "recoveries chat c = length (filter (\<lambda>x. x = RecoverSent chat) (co_outs c))"

definition balance :: "string \<Rightarrow> coord \<Rightarrow> int" where
  "balance chat c = int (recoveries chat c) - (if chat \<in> set (co_recovering c) then 1 else 0)"

lemma map_filter_snoc: "List.map_filter f (xs @ [x]) = List.map_filter f xs @ (case f x of None \<Rightarrow> [] | Some y \<Rightarrow> [y])"
  by (simp add: List.map_filter_def split: option.split)

lemma emit_obs [outs]:
  "deliveries (emit x c) = deliveries c @ (case x of Deliver w \<Rightarrow> [w] | _ \<Rightarrow> [])"
  "acks_sent (emit x c) = acks_sent c @ (case x of AckSent k i \<Rightarrow> [(k, i)] | _ \<Rightarrow> [])"
  "balance chat (emit x c) = balance chat c + (if x = RecoverSent chat then 1 else 0)"
  by (simp_all add: deliveries_def acks_sent_def balance_def recoveries_def fld map_filter_snoc split: out.split)

definition same_obs :: "coord \<Rightarrow> coord \<Rightarrow> bool" where
  "same_obs c c' \<longleftrightarrow> co_outs c = co_outs c' \<and> co_recovering c = co_recovering c'"

lemma same_obs_obs:
  assumes "same_obs c c'"
  shows "deliveries c = deliveries c'" "acks_sent c = acks_sent c'" "balance k c = balance k c'"
  using assms by (simp_all add: same_obs_def deliveries_def acks_sent_def balance_def recoveries_def)

lemma same_obs_primitives:
  "same_obs (upd chat f c) c" "same_obs (upd_entries chat g c) c" "same_obs (ensure chat c) c"
  "same_obs (cleanupLedger chat c) c" "same_obs (c\<lparr>co_dedup := d\<rparr>) c" "same_obs (c\<lparr>co_notices := ns\<rparr>) c"
  "same_obs (c\<lparr>co_bindLoops := bs\<rparr>) c" "same_obs (c\<lparr>co_nextOid := n\<rparr>) c"
  "same_obs (record_committed chat ts c) c" "same_obs (markFenceSettled chat ms c) c"
  by (simp_all add: same_obs_def fld record_committed_def markFenceSettled_def)

lemmas obs_primitives [outs] = same_obs_primitives [THEN same_obs_obs(1)]
  same_obs_primitives [THEN same_obs_obs(2)] same_obs_primitives [THEN same_obs_obs(3)]

lemma recovering_record [fld]:
  "co_recovering (record_committed chat ts c) = co_recovering c"
  "co_recovering (markFenceSettled chat ms c) = co_recovering c"
  by (simp_all add: record_committed_def markFenceSettled_def)

lemma obs_recovering [outs]:
  "deliveries (c\<lparr>co_recovering := r\<rparr>) = deliveries c"
  "acks_sent (c\<lparr>co_recovering := r\<rparr>) = acks_sent c"
  by (simp_all add: deliveries_def acks_sent_def)

section \<open>Operations that deliver nothing and send no acknowledgement\<close>

lemma obs_requestRecovery [outs]:
  "deliveries (requestRecovery chat c) = deliveries c"
  "acks_sent (requestRecovery chat c) = acks_sent c"
  by (simp_all add: requestRecovery_def Let_def outs)

lemma balance_requestRecovery [outs]: "balance k (requestRecovery chat c) = balance k c"
  by (auto simp: requestRecovery_def Let_def outs balance_def recoveries_def fld)

lemma obs_markRecoveryDebt [outs]:
  "deliveries (markRecoveryDebt chat b c) = deliveries c"
  "acks_sent (markRecoveryDebt chat b c) = acks_sent c"
  "balance k (markRecoveryDebt chat b c) = balance k c"
  by (simp_all add: markRecoveryDebt_def Let_def outs)

lemma obs_clearEntries [outs]:
  "deliveries (clearEntriesForRecoverySuccess chat c) = deliveries c"
  "acks_sent (clearEntriesForRecoverySuccess chat c) = acks_sent c"
  "balance k (clearEntriesForRecoverySuccess chat c) = balance k c"
  by (simp_all add: clearEntriesForRecoverySuccess_def Let_def outs)

lemma obs_commitRemaining [outs]:
  "deliveries (commitRemainingEntriesFromServerProof chat c) = deliveries c"
  "acks_sent (commitRemainingEntriesFromServerProof chat c) = acks_sent c"
  "balance k (commitRemainingEntriesFromServerProof chat c) = balance k c"
  by (simp_all add: commitRemainingEntriesFromServerProof_def Let_def outs)

lemma recovering_clearEntries [fld]:
  "co_recovering (clearEntriesForRecoverySuccess chat c) = co_recovering c"
  "co_recovering (commitRemainingEntriesFromServerProof chat c) = co_recovering c"
  by (simp_all add: clearEntriesForRecoverySuccess_def commitRemainingEntriesFromServerProof_def Let_def fld)

lemma balance_settle:
  assumes "chat \<in> set r" and "r = co_recovering c"
  shows "balance k (c\<lparr>co_recovering := set_remove r chat\<rparr>) = balance k c + (if k = chat then 1 else 0)"
  using assms by (simp add: balance_def recoveries_def)

lemma obs_recover_ok [outs]:
  "deliveries (recover_ok chat u c) = deliveries c"
  "acks_sent (recover_ok chat u c) = acks_sent c"
  "balance k (recover_ok chat u c) = balance k c + (if k = chat \<and> chat \<in> set (co_recovering c) then 1 else 0)"
  by (simp_all add: recover_ok_def Let_def outs fld balance_settle)

lemma obs_recover_fail [outs]:
  "deliveries (recover_fail chat c) = deliveries c"
  "acks_sent (recover_fail chat c) = acks_sent c"
  "balance k (recover_fail chat c) = balance k c + (if k = chat \<and> chat \<in> set (co_recovering c) then 1 else 0)"
  by (simp_all add: recover_fail_def Let_def outs fld balance_settle)

lemma obs_bind [outs]:
  "deliveries (snd (takeRecoveryActivationReady chat c)) = deliveries c"
  "acks_sent (snd (takeRecoveryActivationReady chat c)) = acks_sent c"
  "balance k (snd (takeRecoveryActivationReady chat c)) = balance k c"
  "deliveries (completeBindRecovery chat c) = deliveries c"
  "acks_sent (completeBindRecovery chat c) = acks_sent c"
  "balance k (completeBindRecovery chat c) = balance k c"
  "deliveries (bind_start c) = deliveries c"
  "acks_sent (bind_start c) = acks_sent c"
  "balance k (bind_start c) = balance k c"
  "deliveries (bind_step i c) = deliveries c"
  "acks_sent (bind_step i c) = acks_sent c"
  "balance k (bind_step i c) = balance k c"
  by (simp_all add: takeRecoveryActivationReady_def completeBindRecovery_def bind_start_def bind_step_def outs
      split: option.split prod.split list.split)

lemma obs_run_cont [outs]:
  "deliveries (run_cont chat kt ok c) = deliveries c"
  "acks_sent (run_cont chat kt ok c) = acks_sent c"
  "balance k (run_cont chat kt ok c) = balance k c"
  by (simp_all add: run_cont_def outs split: ack_cont.split)

lemma obs_ackThrough [outs]:
  "deliveries (ackThrough chat th r b kt c) = deliveries c"
  "acks_sent (ackThrough chat th r b kt c) = acks_sent c"
  "balance k (ackThrough chat th r b kt c) = balance k c"
  by (simp_all add: ackThrough_def outs split: option.split)

lemma obs_finish_job [outs]:
  "deliveries (finish_job chat ok c) = deliveries c"
  "acks_sent (finish_job chat ok c) = acks_sent c"
  "balance k (finish_job chat ok c) = balance k c"
  by (simp_all add: finish_job_def Let_def outs split: list.split)

text \<open>When the first job of a chat's queue is sent to the server.\<close>

definition sendable :: "coord \<Rightarrow> string \<Rightarrow> bool" where
  "sendable c chat \<longleftrightarrow>
     (let l = the_ledger c chat in
      ld_acks l \<noteq> [] \<and> ld_head l = HeadIdle \<and> ld_debt l = DebtNone \<and>
      (case ack_prefix (jb_through (hd (ld_acks l))) (ld_entries l) of
         None \<Rightarrow> False
       | Some pre \<Rightarrow> jb_requireTerminal (hd (ld_acks l)) \<longrightarrow> (\<forall>t \<in> set pre. tr_phase t = PhTerminal)))"

lemma ack_prefix_nonempty: "ack_prefix th ts = Some pre \<Longrightarrow> ts \<noteq> []"
  by (cases ts) auto

lemma list_ex_not_terminal: "list_ex (\<lambda>t. tr_phase t \<noteq> PhTerminal) pre \<longleftrightarrow> \<not> (\<forall>t \<in> set pre. tr_phase t = PhTerminal)"
  by (auto simp: list_ex_iff)

lemma obs_ack_start [outs]:
  "deliveries (ack_start chat now c) = deliveries c"
  "acks_sent (ack_start chat now c) =
     acks_sent c @ (if sendable c chat then [(chat, jb_through (hd (ld_acks (the_ledger c chat))))] else [])"
  "balance k (ack_start chat now c) = balance k c"
  by (auto simp: ack_start_def Let_def outs sendable_def list_ex_not_terminal dest: ack_prefix_nonempty
      split: list.split option.split)

lemma obs_ack_settle [outs]:
  "deliveries (ack_ok chat c) = deliveries c"
  "acks_sent (ack_ok chat c) = acks_sent c"
  "balance k (ack_ok chat c) = balance k c"
  "deliveries (ack_fail chat c) = deliveries c"
  "acks_sent (ack_fail chat c) = acks_sent c"
  "balance k (ack_fail chat c) = balance k c"
  "deliveries (ack_resume chat c) = deliveries c"
  "acks_sent (ack_resume chat c) = acks_sent c"
  "balance k (ack_resume chat c) = balance k c"
  by (simp_all add: ack_ok_def ack_fail_def ack_resume_def Let_def outs split: list.split)

lemma obs_notice [outs]:
  "deliveries (settleNoticeRequiredRedelivery chat t c) = deliveries c"
  "acks_sent (settleNoticeRequiredRedelivery chat t c) = acks_sent c"
  "balance k (settleNoticeRequiredRedelivery chat t c) = balance k c"
  "deliveries (notice_ok i now c) = deliveries c"
  "acks_sent (notice_ok i now c) = acks_sent c"
  "balance k (notice_ok i now c) = balance k c"
  "deliveries (notice_fail i c) = deliveries c"
  "acks_sent (notice_fail i c) = acks_sent c"
  "balance k (notice_fail i c) = balance k c"
  by (simp_all add: settleNoticeRequiredRedelivery_def notice_ok_def notice_fail_def Let_def outs
      split: option.split prod.split)

lemma obs_admission [outs]:
  "deliveries (runAdmission chat c) = deliveries c"
  "acks_sent (runAdmission chat c) = acks_sent c"
  "balance k (runAdmission chat c) = balance k c"
  "deliveries (admission_done chat c) = deliveries c"
  "acks_sent (admission_done chat c) = acks_sent c"
  "balance k (admission_done chat c) = balance k c"
  by (simp_all add: runAdmission_def admission_done_def Let_def outs split: nat.split)

lemma obs_fence [outs]:
  "deliveries (markReplayFenceWithheld chat ms c) = deliveries c"
  "acks_sent (markReplayFenceWithheld chat ms c) = acks_sent c"
  "balance k (markReplayFenceWithheld chat ms c) = balance k c"
  "deliveries (settleReplayFencedEntries chat ms c) = deliveries c"
  "acks_sent (settleReplayFencedEntries chat ms c) = acks_sent c"
  "balance k (settleReplayFencedEntries chat ms c) = balance k c"
  by (simp_all add: markReplayFenceWithheld_def settleReplayFencedEntries_def Let_def outs split: option.split)

lemma obs_owned [outs]:
  "deliveries (snd (markOwned w c)) = deliveries c"
  "acks_sent (snd (markOwned w c)) = acks_sent c"
  "balance k (snd (markOwned w c)) = balance k c"
  "deliveries (touch_entries chat f c) = deliveries c"
  "acks_sent (touch_entries chat f c) = acks_sent c"
  "balance k (touch_entries chat f c) = balance k c"
  by (simp_all add: markOwned_def touch_entries_def outs split: option.split)

lemma obs_completion [outs]:
  "deliveries (markProcessingStarted chat msgs now c) = deliveries c"
  "acks_sent (markProcessingStarted chat msgs now c) = acks_sent c"
  "balance k (markProcessingStarted chat msgs now c) = balance k c"
  "deliveries (finishTurn chat msgs oc now c) = deliveries c"
  "acks_sent (finishTurn chat msgs oc now c) = acks_sent c"
  "balance k (finishTurn chat msgs oc now c) = balance k c"
  "deliveries (terminalRejected chat msgs ev now c) = deliveries c"
  "acks_sent (terminalRejected chat msgs ev now c) = acks_sent c"
  "balance k (terminalRejected chat msgs ev now c) = balance k c"
  "deliveries (retryTurn chat msgs c) = deliveries c"
  "acks_sent (retryTurn chat msgs c) = acks_sent c"
  "balance k (retryTurn chat msgs c) = balance k c"
  "deliveries (snd (parkTurnForDeferredRecovery chat msgs c)) = deliveries c"
  "acks_sent (snd (parkTurnForDeferredRecovery chat msgs c)) = acks_sent c"
  "balance k (snd (parkTurnForDeferredRecovery chat msgs c)) = balance k c"
  by (simp_all add: markProcessingStarted_def finishTurn_def terminalRejected_def retryTurn_def
      parkTurnForDeferredRecovery_def markTerminal_def outs split: option.split)

lemma obs_suspension [outs]:
  "deliveries (ack_terminal_prefix chat r kt c) = deliveries c"
  "acks_sent (ack_terminal_prefix chat r kt c) = acks_sent c"
  "balance k (ack_terminal_prefix chat r kt c) = balance k c"
  "deliveries (prepareEvict chat c) = deliveries c"
  "acks_sent (prepareEvict chat c) = acks_sent c"
  "balance k (prepareEvict chat c) = balance k c"
  "deliveries (prepareOperatorSuspend chat now c) = deliveries c"
  "acks_sent (prepareOperatorSuspend chat now c) = acks_sent c"
  "balance k (prepareOperatorSuspend chat now c) = balance k c"
  "deliveries (markNoticeRequired chat msgs p c) = deliveries c"
  "acks_sent (markNoticeRequired chat msgs p c) = acks_sent c"
  "balance k (markNoticeRequired chat msgs p c) = balance k c"
  "deliveries (markNoticeRequiredForProcessingPrefix chat q c) = deliveries c"
  "acks_sent (markNoticeRequiredForProcessingPrefix chat q c) = acks_sent c"
  "balance k (markNoticeRequiredForProcessingPrefix chat q c) = balance k c"
  by (simp_all add: ack_terminal_prefix_def prepareEvict_def prepareOperatorSuspend_def
      markNoticeRequired_def markNoticeRequiredForProcessingPrefix_def Let_def outs
      split: list.split prod.split)

lemma obs_receive [outs]:
  "deliveries (receive e c) = deliveries c @ (if admits c e \<or> releases c e then [entry_work e] else [])"
  "acks_sent (receive e c) = acks_sent c"
  "balance k (receive e c) = balance k c"
proof -
  have rel: "releases c e = tr_withheld t" "\<not> admits c e"
    if "ld_debt (the_ledger c (entry_chat e)) = DebtNone" "findEntry c (entry_chat e) (ie_id e) = Some t" for t
    using that by (simp_all add: releases_def admits_def)
  show "deliveries (receive e c) = deliveries c @ (if admits c e \<or> releases c e then [entry_work e] else [])"
    by (cases rule: receive_cases [of c e]) (auto simp: admit_entry_def receive_active_def Let_def outs rel)
  show "acks_sent (receive e c) = acks_sent c"
    by (cases rule: receive_cases [of c e]) (auto simp: admit_entry_def receive_active_def Let_def outs)
  show "balance k (receive e c) = balance k c"
    by (cases rule: receive_cases [of c e]) (auto simp: admit_entry_def receive_active_def Let_def outs)
qed

section \<open>Every event\<close>

lemma step_deliveries:
  "deliveries (step c e) =
     deliveries c @ (case e of EvReceive x \<Rightarrow> if admits c x \<or> releases c x then [entry_work x] else [] | _ \<Rightarrow> [])"
  by (cases e) (simp_all add: outs prepareSuspend_def drainForTerminate_def)

lemma step_acks_sent:
  "acks_sent (step c e) =
     acks_sent c @ (case e of EvAckStart chat now \<Rightarrow>
        if sendable c chat then [(chat, jb_through (hd (ld_acks (the_ledger c chat))))] else [] | _ \<Rightarrow> [])"
  by (cases e) (simp_all add: outs prepareSuspend_def drainForTerminate_def)

fun settles_recovery :: "coord \<Rightarrow> event \<Rightarrow> string \<Rightarrow> bool" where
  "settles_recovery c (EvRecoverOk chat u) k = (k = chat \<and> chat \<in> set (co_recovering c))"
| "settles_recovery c (EvRecoverFail chat) k = (k = chat \<and> chat \<in> set (co_recovering c))"
| "settles_recovery c e k = False"

lemma step_balance: "balance k (step c e) = balance k c + (if settles_recovery c e k then 1 else 0)"
  by (cases e) (simp_all add: outs prepareSuspend_def drainForTerminate_def)

end
