(* ===== verification/InboxInvariants.thy ===== *)
theory InboxInvariants
  imports InboxOutputs
begin

text \<open>
  The invariants of the delivery coordinator, over every event: custody (what makes a tracked delivery
  leave the ledger), the order and distinctness of the tracked deliveries, and the shape of the
  acknowledgement queue. \<open>coord_ok\<close> collects them; every state reached from \<open>new_coord\<close> has it.
\<close>

section \<open>Custody\<close>

text \<open>Which tracked deliveries of a chat survive an event.\<close>

fun keeps :: "coord \<Rightarrow> event \<Rightarrow> string \<Rightarrow> tracked \<Rightarrow> bool" where
  "keeps c (EvRecoverOk chat u) k = (\<lambda>t.
     if k = chat \<and> chat \<in> set (co_recovering c)
     then \<not> recoverProvedChatSettled u \<and> kept_by_recovery t else True)"
| "keeps c (EvBindRecovered chat) k = (\<lambda>t. if k = chat then kept_by_recovery t else True)"
| "keeps c (EvAckOk chat) k = (\<lambda>t.
     if k = chat \<and> ld_head (the_ledger c chat) = HeadSending \<and> ld_acks (the_ledger c chat) \<noteq> []
     then tr_entryId t > jb_through (hd (ld_acks (the_ledger c chat))) else True)"
| "keeps c (EvSettleFenced chat ms) k = (\<lambda>t. if k = chat then tr_messageId t \<notin> set ms else True)"
| "keeps c e k = (\<lambda>t. True)"

definition arrives :: "coord \<Rightarrow> event \<Rightarrow> string \<Rightarrow> tracked list" where
  "arrives c e k =
     (case e of
        EvReceive x \<Rightarrow> if admits c x \<and> k = entry_chat x then [admitted c x] else []
      | _ \<Rightarrow> [])"

lemma idents_recovery [ids]:
  "idents (snd (takeRecoveryActivationReady chat c)) k = idents c k"
  "idents (recover_fail chat c) k = idents c k"
  "idents (bind_start c) k = idents c k"
  "idents (bind_step i c) k = idents c k"
  by (simp_all add: idents_def ids)

lemma step_idents:
  "idents (step c e) k =
     (if arrives c e k = [] then map ident (filter (keeps c e k) (entries_of c k))
      else map ident (sort_key tr_entryId (entries_of c k @ arrives c e k)))"
  by (cases e) (auto simp: ids arrives_def idents_def [of "recover_ok chat u c" for chat u]
      idents_def [of "completeBindRecovery chat c" for chat] idents_def [of c])

section \<open>Order and identity\<close>

definition entryIds :: "coord \<Rightarrow> string \<Rightarrow> int list" where
  "entryIds c k = map tr_entryId (entries_of c k)"

lemma entryIds_idents: "entryIds c k = map (fst \<circ> snd) (idents c k)"
  by (simp add: entryIds_def idents_def ident_def o_def)

lemma oids_idents: "map tr_oid (entries_of c k) = map fst (idents c k)"
  by (simp add: idents_def ident_def o_def)

text \<open>The ledgers are ordered by entry id, and object identities are fresh.\<close>

abbreviation strict_sorted :: "int list \<Rightarrow> bool" where
  "strict_sorted \<equiv> sorted_wrt (<)"

definition ordered :: "coord \<Rightarrow> bool" where
  "ordered c \<longleftrightarrow> (\<forall>k. strict_sorted (entryIds c k))"

definition fresh_oids :: "coord \<Rightarrow> bool" where
  "fresh_oids c \<longleftrightarrow>
     (\<forall>k. distinct (map tr_oid (entries_of c k)) \<and> (\<forall>t \<in> set (entries_of c k). tr_oid t < co_nextOid c))"

lemma strict_sorted_filter: "strict_sorted (map f xs) \<Longrightarrow> strict_sorted (map f (filter P xs))"
  by (induction xs) auto

lemma findEntry_None: "findEntry c k i = None \<longleftrightarrow> i \<notin> set (entryIds c k)"
  by (auto simp: findEntry_def find_None_iff entryIds_def)

lemma findEntry_Some: "findEntry c k i = Some t \<Longrightarrow> t \<in> set (entries_of c k) \<and> tr_entryId t = i"
  by (auto simp: findEntry_def find_Some_iff)

lemma ordered_step: "ordered c \<Longrightarrow> ordered (step c e)"
  unfolding ordered_def
proof
  fix k
  assume ord: "\<forall>k. strict_sorted (entryIds c k)"
  show "strict_sorted (entryIds (step c e) k)"
  proof (cases "arrives c e k = []")
    case True
    then have "entryIds (step c e) k = map tr_entryId (filter (keeps c e k) (entries_of c k))"
      by (simp add: entryIds_idents step_idents ident_def o_def)
    with ord show ?thesis by (simp add: strict_sorted_filter entryIds_def)
  next
    case False
    then obtain x where x: "e = EvReceive x" "admits c x" "k = entry_chat x"
      by (auto simp: arrives_def split: event.splits if_splits)
    then have new: "ie_id x \<notin> set (entryIds c k)" by (simp add: admits_def findEntry_None)
    let ?ts = "entries_of c k @ [admitted c x]"
    have "entryIds (step c e) k = map tr_entryId (sort_key tr_entryId ?ts)"
      using x False
      by (simp only: entryIds_idents step_idents) (simp add: ident_def o_def arrives_def)
    moreover have "distinct (map tr_entryId (sort_key tr_entryId ?ts))"
    proof -
      have "distinct (map tr_entryId ?ts)"
        using ord new by (auto simp: entryIds_def admitted_def new_tracked_def strict_sorted_iff)
      then show ?thesis by (auto simp: distinct_map)
    qed
    moreover have "sorted (map tr_entryId (sort_key tr_entryId ?ts))" by simp
    ultimately show ?thesis by (simp add: strict_sorted_iff)
  qed
qed


section \<open>Fields that hardly change\<close>

text \<open>
  \<open>steady c c'\<close>: on the way from \<open>c\<close> to \<open>c'\<close> no delivery was admitted, the configuration stayed,
  both dedup windows stayed well-formed with their capacity, and no settled fence was forgotten.
\<close>

definition window_ok :: "dedup \<Rightarrow> bool" where
  "window_ok d \<longleftrightarrow> dedup_wf d \<and> capacity d = 1000"

definition steady :: "coord \<Rightarrow> coord \<Rightarrow> bool" where
  "steady c c' \<longleftrightarrow>
     co_nextOid c' = co_nextOid c \<and> co_hasRecover c' = co_hasRecover c \<and> co_hasNotice c' = co_hasNotice c \<and>
     (window_ok (co_dedup c) \<longrightarrow> window_ok (co_dedup c')) \<and>
     (window_ok (co_settled c) \<longrightarrow> window_ok (co_settled c')) \<and>
     (\<forall>k m. fenceSettled c k m \<longrightarrow> fenceSettled c' k m)"

named_theorems stab \<open>introduction rules of \<open>steady\<close>\<close>

lemma steady_refl [stab]: "steady c c"
  by (simp add: steady_def)

lemma steady_primitives [stab]:
  "steady c d \<Longrightarrow> steady c (emit x d)"
  "steady c d \<Longrightarrow> steady c (upd k f d)"
  "steady c d \<Longrightarrow> steady c (upd_entries k g d)"
  "steady c d \<Longrightarrow> steady c (ensure k d)"
  "steady c d \<Longrightarrow> steady c (cleanupLedger k d)"
  "steady c d \<Longrightarrow> steady c (markFenceSettled k ms d)"
  "steady c d \<Longrightarrow> steady c (d\<lparr>co_recovering := r\<rparr>)"
  "steady c d \<Longrightarrow> steady c (d\<lparr>co_notices := ns\<rparr>)"
  "steady c d \<Longrightarrow> steady c (d\<lparr>co_bindLoops := bs\<rparr>)"
  by (simp_all add: steady_def fld) (simp_all add: markFenceSettled_def)

lemma window_ok_drop: "window_ok d \<Longrightarrow> window_ok (dedup_drop d i)"
  by (simp add: window_ok_def dedup_drop_wf) (simp add: dedup_drop_def)

lemma window_ok_drops: "window_ok d \<Longrightarrow> window_ok (foldl dedup_drop d ks)"
  by (induction ks arbitrary: d) (simp_all add: window_ok_drop)

lemma window_ok_record: "window_ok d \<Longrightarrow> window_ok (snd (isDuplicate d i))"
  by (simp add: window_ok_def isDuplicate_wf dd.bound_record)

lemma window_ok_records: "window_ok d \<Longrightarrow> window_ok (foldl (\<lambda>d k. snd (isDuplicate d k)) d ks)"
  by (induction ks arbitrary: d) (simp_all add: window_ok_record)

lemma steady_windows [stab]:
  "steady c d \<Longrightarrow> steady c (record_committed k ts d)"
  "steady c d \<Longrightarrow> steady c (clearEntriesForRecoverySuccess k d)"
  by (auto simp: steady_def record_committed_def clearEntriesForRecoverySuccess_def fld
      window_ok_drops window_ok_records Let_def fenceSettled_def)

lemma steady_recovery [stab]:
  "steady c d \<Longrightarrow> steady c (requestRecovery k d)"
  "steady c d \<Longrightarrow> steady c (commitRemainingEntriesFromServerProof k d)"
  by (auto simp: requestRecovery_def commitRemainingEntriesFromServerProof_def Let_def intro!: stab)

lemma steady_debt [stab]: "steady c d \<Longrightarrow> steady c (markRecoveryDebt k b d)"
  by (auto simp: markRecoveryDebt_def Let_def intro!: stab)

lemma steady_settle [stab]:
  "steady c d \<Longrightarrow> steady c (recover_ok k u d)"
  "steady c d \<Longrightarrow> steady c (recover_fail k d)"
  by (auto simp: recover_ok_def recover_fail_def Let_def intro!: stab)

lemma steady_bind [stab]:
  "steady c d \<Longrightarrow> steady c (snd (takeRecoveryActivationReady k d))"
  "steady c d \<Longrightarrow> steady c (completeBindRecovery k d)"
  "steady c d \<Longrightarrow> steady c (bind_start d)"
  "steady c d \<Longrightarrow> steady c (bind_step i d)"
  by (auto simp: takeRecoveryActivationReady_def completeBindRecovery_def bind_start_def bind_step_def
      intro!: stab split: option.split prod.split list.split)

lemma steady_ack [stab]:
  "steady c d \<Longrightarrow> steady c (run_cont k kt ok d)"
  "steady c d \<Longrightarrow> steady c (ackThrough k th r b kt d)"
  by (auto simp: ackThrough_def run_cont_def intro!: stab split: option.split ack_cont.split)

lemma steady_finish [stab]: "steady c d \<Longrightarrow> steady c (finish_job k ok d)"
  by (auto simp: finish_job_def Let_def intro!: stab split: list.split)

lemma steady_ack_steps [stab]:
  "steady c d \<Longrightarrow> steady c (ack_start k now d)"
  "steady c d \<Longrightarrow> steady c (ack_ok k d)"
  "steady c d \<Longrightarrow> steady c (ack_fail k d)"
  "steady c d \<Longrightarrow> steady c (ack_resume k d)"
  by (auto simp: ack_start_def ack_ok_def ack_fail_def ack_resume_def Let_def intro!: stab
      split: list.split option.split)

lemma steady_notice [stab]:
  "steady c d \<Longrightarrow> steady c (settleNoticeRequiredRedelivery k t d)"
  "steady c d \<Longrightarrow> steady c (notice_ok i now d)"
  "steady c d \<Longrightarrow> steady c (notice_fail i d)"
  by (auto simp: settleNoticeRequiredRedelivery_def notice_ok_def notice_fail_def Let_def intro!: stab
      split: option.split prod.split)

lemma steady_arrival [stab]:
  "steady c d \<Longrightarrow> steady c (receive_active e t d)"
  "steady c d \<Longrightarrow> steady c (runAdmission k d)"
  "steady c d \<Longrightarrow> steady c (admission_done k d)"
  by (auto simp: receive_active_def runAdmission_def admission_done_def Let_def intro!: stab split: nat.split)

lemma steady_progress [stab]:
  "steady c d \<Longrightarrow> steady c (markReplayFenceWithheld k ms d)"
  "steady c d \<Longrightarrow> steady c (settleReplayFencedEntries k ms d)"
  "steady c d \<Longrightarrow> steady c (snd (markOwned w d))"
  "steady c d \<Longrightarrow> steady c (markProcessingStarted k msgs now d)"
  "steady c d \<Longrightarrow> steady c (markTerminal k msgs oc ev now d)"
  by (auto simp: markReplayFenceWithheld_def settleReplayFencedEntries_def markOwned_def Let_def
      markProcessingStarted_def markTerminal_def touch_entries_def intro!: stab split: option.split)

lemma steady_completion [stab]:
  "steady c d \<Longrightarrow> steady c (finishTurn k msgs oc now d)"
  "steady c d \<Longrightarrow> steady c (terminalRejected k msgs evd now d)"
  "steady c d \<Longrightarrow> steady c (retryTurn k msgs d)"
  "steady c d \<Longrightarrow> steady c (snd (parkTurnForDeferredRecovery k msgs d))"
  "steady c d \<Longrightarrow> steady c (ack_terminal_prefix k r kt d)"
  "steady c d \<Longrightarrow> steady c (prepareEvict k d)"
  "steady c d \<Longrightarrow> steady c (markNoticeRequired k msgs p d)"
  "steady c d \<Longrightarrow> steady c (markNoticeRequiredForProcessingPrefix k q d)"
  "steady c d \<Longrightarrow> steady c (prepareOperatorSuspend k now d)"
  by (auto simp: finishTurn_def terminalRejected_def retryTurn_def parkTurnForDeferredRecovery_def
      ack_terminal_prefix_def prepareEvict_def markNoticeRequired_def Let_def
      markNoticeRequiredForProcessingPrefix_def prepareOperatorSuspend_def intro!: stab
      split: option.split list.split prod.split)

lemma step_steady: "\<forall>x. e \<noteq> EvReceive x \<Longrightarrow> steady c (step c e)"
  by (cases e) (auto simp: prepareSuspend_def drainForTerminate_def intro!: stab)

lemma receive_steady:
  "co_nextOid (receive e c) = (if admits c e then Suc (co_nextOid c) else co_nextOid c)"
  "window_ok (co_dedup c) \<Longrightarrow> window_ok (co_dedup (receive e c))"
  "window_ok (co_settled c) \<Longrightarrow> window_ok (co_settled (receive e c))"
  "co_hasRecover (receive e c) = co_hasRecover c"
  "co_hasNotice (receive e c) = co_hasNotice c"
  "fenceSettled c k m \<Longrightarrow> fenceSettled (receive e c) k m"
proof -
  have act: "steady c (receive_active e t (ensure (entry_chat e) c))" for t by (intro stab)
  note stb = act [unfolded steady_def]
  show "co_nextOid (receive e c) = (if admits c e then Suc (co_nextOid c) else co_nextOid c)"
    by (cases rule: receive_cases [of c e]) (auto simp: admit_entry_def Let_def fld stb)
  show "window_ok (co_dedup c) \<Longrightarrow> window_ok (co_dedup (receive e c))"
    by (cases rule: receive_cases [of c e]) (auto simp: admit_entry_def Let_def fld stb window_ok_record)
  show "window_ok (co_settled c) \<Longrightarrow> window_ok (co_settled (receive e c))"
    by (cases rule: receive_cases [of c e]) (auto simp: admit_entry_def Let_def fld stb)
  show "co_hasRecover (receive e c) = co_hasRecover c"
    by (cases rule: receive_cases [of c e]) (auto simp: admit_entry_def Let_def fld stb)
  show "co_hasNotice (receive e c) = co_hasNotice c"
    by (cases rule: receive_cases [of c e]) (auto simp: admit_entry_def Let_def fld stb)
  show "fenceSettled c k m \<Longrightarrow> fenceSettled (receive e c) k m"
    by (cases rule: receive_cases [of c e])
       (auto simp: admit_entry_def Let_def fld stb)
qed

lemma step_windows:
  "window_ok (co_dedup c) \<Longrightarrow> window_ok (co_dedup (step c e))"
  "window_ok (co_settled c) \<Longrightarrow> window_ok (co_settled (step c e))"
  by (cases "\<exists>x. e = EvReceive x"; use step_steady [of e c] in \<open>auto simp: steady_def receive_steady\<close>)+

lemma arrives_some: "(\<exists>k. arrives c (EvReceive x) k \<noteq> []) \<longleftrightarrow> admits c x"
  by (auto simp: arrives_def intro!: exI [of _ "entry_chat x"] split: if_splits)

lemma step_nextOid: "co_nextOid (step c e) = co_nextOid c + (if \<exists>k. arrives c e k \<noteq> [] then 1 else 0)"
proof (cases "\<exists>x. e = EvReceive x")
  case True
  then obtain x where x: "e = EvReceive x" by blast
  have "(\<exists>k. arrives c e k \<noteq> []) = admits c x" unfolding x by (rule arrives_some)
  then show ?thesis by (simp only: x step.simps receive_steady) simp
next
  case False
  then have "arrives c e k = []" for k by (auto simp: arrives_def split: event.split)
  with False step_steady [of e c] show ?thesis by (simp add: steady_def)
qed

lemma step_fenceSettled: "fenceSettled c k m \<Longrightarrow> fenceSettled (step c e) k m"
  by (cases "\<exists>x. e = EvReceive x") (use step_steady [of e c] in \<open>auto simp: steady_def receive_steady\<close>)

lemma fresh_oids_step: "fresh_oids c \<Longrightarrow> fresh_oids (step c e)"
  unfolding fresh_oids_def
proof
  fix k
  assume fresh: "\<forall>k. distinct (map tr_oid (entries_of c k)) \<and> (\<forall>t \<in> set (entries_of c k). tr_oid t < co_nextOid c)"
  let ?c = "step c e"
  have oids: "map tr_oid (entries_of ?c k) = map fst (idents ?c k)" by (rule oids_idents)
  have "distinct (map tr_oid (entries_of ?c k)) \<and> (\<forall>i \<in> set (map tr_oid (entries_of ?c k)). i < co_nextOid ?c)"
  proof (cases "arrives c e k = []")
    case True
    then have "map tr_oid (entries_of ?c k) = map tr_oid (filter (keeps c e k) (entries_of c k))"
      by (simp add: oids step_idents ident_def o_def)
    with fresh show ?thesis by (auto simp: step_nextOid less_SucI intro: distinct_map_filter)
  next
    case False
    then obtain x where x: "arrives c e k = [admitted c x]"
      by (auto simp: arrives_def split: event.splits if_splits)
    then have "map tr_oid (entries_of ?c k) = map tr_oid (sort_key tr_entryId (entries_of c k @ [admitted c x]))"
      by (simp only: oids step_idents) (simp add: ident_def o_def)
    moreover from False have "\<exists>k. arrives c e k \<noteq> []" by blast
    then have "co_nextOid ?c = Suc (co_nextOid c)" by (simp add: step_nextOid)
    moreover have "distinct (map tr_oid (entries_of c k @ [admitted c x]))"
    proof -
      have "co_nextOid c \<notin> tr_oid ` set (entries_of c k)" using fresh by fastforce
      with fresh show ?thesis by (simp add: admitted_def new_tracked_def)
    qed
    ultimately show ?thesis using spec [OF fresh, of k]
      by (auto simp: distinct_map admitted_def new_tracked_def less_Suc_eq)
  qed
  then show "distinct (map tr_oid (entries_of ?c k)) \<and> (\<forall>t \<in> set (entries_of ?c k). tr_oid t < co_nextOid ?c)"
    by simp
qed

end
