(* ===== verification/InboxEvolution.thy ===== *)
theory InboxEvolution
  imports InboxInvariants
begin

text \<open>
  How tracked deliveries and the acknowledgement queue change. A delivery never goes back to an earlier
  phase and keeps its first terminal outcome (\<open>evolves\<close>). Between the moment an acknowledgement is
  sent and its answer, the job that sent it stays first in the queue. \<open>calm\<close> states both for a whole
  operation; only \<open>ack_start\<close> and the admission of a new delivery are not calm.
\<close>

section \<open>One delivery, one ledger\<close>

fun rank :: "phase \<Rightarrow> nat" where
  "rank PhOpen = 0" | "rank PhOwned = 1" | "rank PhTerminal = 2"

lemma rank_terminal [simp]: "2 \<le> rank p \<longleftrightarrow> p = PhTerminal" "rank p \<le> 2"
  by (cases p; simp)+

definition evolves :: "tracked \<Rightarrow> tracked \<Rightarrow> bool" where
  "evolves t t' \<longleftrightarrow>
     ident t' = ident t \<and> rank (tr_phase t) \<le> rank (tr_phase t') \<and>
     (tr_phase t = PhTerminal \<and> tr_outcome t \<noteq> None \<longrightarrow> tr_outcome t' = tr_outcome t) \<and>
     (tr_startedAt t \<noteq> None \<longrightarrow> tr_startedAt t' = tr_startedAt t)"

lemma evolves_refl [simp]: "evolves t t"
  by (simp add: evolves_def)

lemma evolves_trans: "evolves t u \<Longrightarrow> evolves u v \<Longrightarrow> evolves t v"
  unfolding evolves_def
  by (metis (no_types, lifting) le_antisym order_trans rank.simps(3) rank_terminal)

lemma evolves_updates [simp]:
  "evolves t (t\<lparr>tr_noticeRequired := b\<rparr>)" "evolves t (t\<lparr>tr_noticeInFlight := b\<rparr>)"
  "evolves t (t\<lparr>tr_noticeRequired := b, tr_noticePayload := p\<rparr>)"
  "evolves t (t\<lparr>tr_ack := a\<rparr>)" "evolves t (t\<lparr>tr_withheld := b\<rparr>)"
  "tr_phase t = PhOpen \<Longrightarrow> evolves t (t\<lparr>tr_phase := PhOwned\<rparr>)"
  by (simp_all add: evolves_def)

lemma evolves_steps [simp]:
  "evolves t (mark_attempt th r now t)" "evolves t (settle_notice_entry now t)"
  "evolves t (start_entry now t)" "evolves t (terminal_entry oc ev now t)"
  by (auto simp: mark_attempt_def settle_notice_entry_def start_entry_def terminal_entry_def evolves_def Let_def
      split: option.split)

definition evolved :: "tracked list \<Rightarrow> tracked list \<Rightarrow> bool" where
  "evolved ts ts' \<longleftrightarrow> (\<forall>t' \<in> set ts'. \<exists>t \<in> set ts. evolves t t')"

lemma evolved_refl [simp]: "evolved ts ts"
  unfolding evolved_def using evolves_refl by blast

lemma evolved_nil [simp]: "evolved ts []"
  by (simp add: evolved_def)

lemma evolved_trans: "evolved ts us \<Longrightarrow> evolved us vs \<Longrightarrow> evolved ts vs"
  unfolding evolved_def by (meson evolves_trans)

lemma evolved_map: "(\<And>t. t \<in> set ts \<Longrightarrow> evolves t (f t)) \<Longrightarrow> evolved ts (map f ts)"
  by (auto simp: evolved_def)

lemma evolved_filter [simp]: "evolved ts (filter P ts)"
  unfolding evolved_def by (auto intro: evolves_refl)

lemma evolved_Cons: "evolves t t' \<Longrightarrow> evolved ts ts' \<Longrightarrow> evolved (t # ts) (t' # ts')"
  by (auto simp: evolved_def)

lemma evolved_append: "evolved ts ts' \<Longrightarrow> evolved us us' \<Longrightarrow> evolved (ts @ us) (ts' @ us')"
  by (auto simp: evolved_def)

lemma evolved_set_entry:
  "(\<And>t. t \<in> set ts \<Longrightarrow> tr_oid t = oid \<Longrightarrow> evolves t (f t)) \<Longrightarrow> evolved ts (set_entry oid f ts)"
  unfolding set_entry_def by (rule evolved_map) simp

lemma evolved_notice_prefix: "evolved ts (fst (notice_prefix p ts))"
  by (induction ts) (auto intro: evolved_Cons split: prod.split)

lemma evolved_operator_prefix: "evolved ts (snd (snd (operator_prefix now ts)))"
proof (induction ts)
  case (Cons t ts)
  have "tr_phase t = PhOwned \<Longrightarrow> evolves t (t\<lparr>tr_phase := PhTerminal, tr_outcome := oc\<rparr>)" for oc
    by (simp add: evolves_def)
  with Cons show ?case by (auto intro: evolved_Cons split: prod.split)
qed simp

text \<open>
  An empty acknowledgement queue has an idle head, and every job asks for a terminal prefix: the code
  passes \<open>requireTerminal: true\<close> at every call.
\<close>

definition queue_ok :: "ledger \<Rightarrow> bool" where
  "queue_ok l \<longleftrightarrow>
     (ld_acks l = [] \<longrightarrow> ld_head l = HeadIdle) \<and> (\<forall>job \<in> set (ld_acks l). jb_requireTerminal job)"

definition led_calm :: "ledger \<Rightarrow> ledger \<Rightarrow> bool" where
  "led_calm l l' \<longleftrightarrow>
     evolved (ld_entries l) (ld_entries l') \<and>
     (queue_ok l \<longrightarrow> queue_ok l' \<and>
        (ld_head l' = HeadSending \<longrightarrow> ld_head l = HeadSending \<and> hd (ld_acks l') = hd (ld_acks l)))"

lemma led_calm_refl [simp]: "led_calm l l"
  by (simp add: led_calm_def)

lemma led_calm_trans: "led_calm l m \<Longrightarrow> led_calm m n \<Longrightarrow> led_calm l n"
  unfolding led_calm_def by (metis evolved_trans)

lemma led_calm_new [simp]: "led_calm l new_ledger"
  by (simp add: led_calm_def queue_ok_def)

lemma led_calmI:
  "evolved (ld_entries l) (ld_entries l') \<Longrightarrow> ld_acks l' = ld_acks l \<Longrightarrow> ld_head l' = ld_head l \<Longrightarrow> led_calm l l'"
  by (simp add: led_calm_def queue_ok_def)

lemma led_calm_append: "\<forall>job \<in> set js. jb_requireTerminal job \<Longrightarrow> led_calm l (l\<lparr>ld_acks := ld_acks l @ js\<rparr>)"
  by (cases "ld_acks l") (auto simp: led_calm_def queue_ok_def)

lemma led_calm_pop: "set js \<subseteq> set (ld_acks l) \<Longrightarrow> led_calm l (l\<lparr>ld_acks := js, ld_head := HeadIdle\<rparr>)"
  by (auto simp: led_calm_def queue_ok_def)


section \<open>Calm operations\<close>

definition calm :: "coord \<Rightarrow> coord \<Rightarrow> bool" where
  "calm c d \<longleftrightarrow> (\<forall>k. led_calm (the_ledger c k) (the_ledger d k))"

named_theorems calmI \<open>introduction rules of \<open>calm\<close>\<close>

lemma calm_refl [calmI]: "calm c c"
  by (simp add: calm_def)

lemma calm_frame [calmI]:
  "calm c d \<Longrightarrow> calm c (emit x d)"
  "calm c d \<Longrightarrow> calm c (ensure k d)"
  "calm c d \<Longrightarrow> calm c (markFenceSettled k ms d)"
  "calm c d \<Longrightarrow> calm c (record_committed k ts d)"
  "calm c d \<Longrightarrow> calm c (d\<lparr>co_recovering := r\<rparr>)"
  "calm c d \<Longrightarrow> calm c (d\<lparr>co_notices := ns\<rparr>)"
  "calm c d \<Longrightarrow> calm c (d\<lparr>co_bindLoops := bs\<rparr>)"
  "calm c d \<Longrightarrow> calm c (d\<lparr>co_dedup := dd\<rparr>)"
  by (simp_all add: calm_def view)

lemma calm_upd: "calm c d \<Longrightarrow> led_calm (the_ledger d k) (f (the_ledger d k)) \<Longrightarrow> calm c (upd k f d)"
  by (auto simp: calm_def view intro: led_calm_trans)

lemma calm_upd_flags [calmI]:
  "calm c d \<Longrightarrow> (\<And>l. ld_entries (f l) = ld_entries l \<and> ld_acks (f l) = ld_acks l \<and> ld_head (f l) = ld_head l) \<Longrightarrow>
   calm c (upd k f d)"
  by (rule calm_upd) (auto intro!: led_calmI)

lemma calm_upd_entries:
  "calm c d \<Longrightarrow> evolved (entries_of d k) (g (entries_of d k)) \<Longrightarrow> calm c (upd_entries k g d)"
  unfolding upd_entries_def entries_of_def by (rule calm_upd) (auto intro!: led_calmI)

lemma calm_set_entry [calmI]:
  "calm c d \<Longrightarrow> (\<And>t. evolves t (f t)) \<Longrightarrow> calm c (upd_entries k (set_entry oid f) d)"
  by (rule calm_upd_entries) (auto intro: evolved_set_entry)

lemma calm_map [calmI]:
  "calm c d \<Longrightarrow> (\<And>t. evolves t (f t)) \<Longrightarrow> calm c (upd_entries k (map f) d)"
  by (rule calm_upd_entries) (auto intro: evolved_map)

lemma calm_filter [calmI]: "calm c d \<Longrightarrow> calm c (upd_entries k (filter P) d)"
  by (rule calm_upd_entries) auto

lemma led_calm_cleanup: "led_calm (the_ledger d k) (the_ledger (cleanupLedger chat d) k)"
proof (cases "k = chat")
  case True
  then show ?thesis
    by (cases "ledger_at d chat") (auto simp: the_ledger_def led intro!: led_calmI)
qed (simp add: the_ledger_def led)

lemma calm_cleanup [calmI]: "calm c d \<Longrightarrow> calm c (cleanupLedger k d)"
  unfolding calm_def by (blast intro: led_calm_trans led_calm_cleanup)

lemma calm_requestRecovery [calmI]: "calm c d \<Longrightarrow> calm c (requestRecovery k d)"
  by (auto simp: requestRecovery_def Let_def intro!: calmI)

lemma calm_markRecoveryDebt [calmI]: "calm c d \<Longrightarrow> calm c (markRecoveryDebt k b d)"
  by (auto simp: markRecoveryDebt_def Let_def intro!: calmI)

lemma calm_clear [calmI]: "calm c d \<Longrightarrow> calm c (clearEntriesForRecoverySuccess k d)"
  by (auto simp: clearEntriesForRecoverySuccess_def Let_def intro!: calmI)

lemma calm_commitRemaining [calmI]: "calm c d \<Longrightarrow> calm c (commitRemainingEntriesFromServerProof k d)"
proof -
  assume c: "calm c d"
  have "calm c (upd k (\<lambda>l. l\<lparr>ld_entries := [], ld_needsReconcile := False\<rparr>) d)"
    by (rule calm_upd [OF c]) (auto intro!: led_calmI)
  then show ?thesis by (auto simp: commitRemainingEntriesFromServerProof_def Let_def intro!: calmI)
qed

lemma calm_settle [calmI]:
  "calm c d \<Longrightarrow> calm c (recover_ok k u d)"
  "calm c d \<Longrightarrow> calm c (recover_fail k d)"
  by (auto simp: recover_ok_def recover_fail_def Let_def intro!: calmI)

lemma calm_bind [calmI]:
  "calm c d \<Longrightarrow> calm c (snd (takeRecoveryActivationReady k d))"
  "calm c d \<Longrightarrow> calm c (completeBindRecovery k d)"
  "calm c d \<Longrightarrow> calm c (bind_start d)"
  "calm c d \<Longrightarrow> calm c (bind_step i d)"
  by (auto simp: takeRecoveryActivationReady_def completeBindRecovery_def bind_start_def bind_step_def
      intro!: calmI split: option.split prod.split list.split)

lemma calm_run_cont [calmI]: "calm c d \<Longrightarrow> calm c (run_cont k kt ok d)"
  by (auto simp: run_cont_def intro!: calmI split: ack_cont.split)

lemma calm_ackThrough [calmI]: "calm c d \<Longrightarrow> calm c (ackThrough k th r b kt d)"
  by (auto simp: ackThrough_def intro!: calmI calm_upd led_calm_append split: option.split)

lemma calm_finish_job [calmI]: "calm c d \<Longrightarrow> calm c (finish_job k ok d)"
  by (auto simp: finish_job_def Let_def intro!: calmI calm_upd led_calm_pop split: list.split)

lemma calm_ack_settle [calmI]:
  "calm c d \<Longrightarrow> calm c (ack_ok k d)"
  "calm c d \<Longrightarrow> calm c (ack_resume k d)"
  by (auto simp: ack_ok_def ack_resume_def Let_def intro!: calmI split: list.split)

lemma calm_ack_fail [calmI]:
  assumes "calm c d"
  shows "calm c (ack_fail k d)"
proof -
  have "calm c (upd k (\<lambda>l. l\<lparr>ld_needsReconcile := True, ld_entries :=
           map (\<lambda>t. if tr_entryId t \<le> th then t\<lparr>tr_ack := None\<rparr> else t) (ld_entries l)\<rparr>) d)" for th
    by (rule calm_upd [OF assms]) (auto intro!: led_calmI evolved_map)
  then show ?thesis using assms
    by (auto simp: ack_fail_def Let_def intro!: calm_finish_job calm_markRecoveryDebt calm_frame(1) split: list.split)
qed

lemma calm_notice [calmI]:
  "calm c d \<Longrightarrow> calm c (settleNoticeRequiredRedelivery k t d)"
  "calm c d \<Longrightarrow> calm c (notice_ok i now d)"
  "calm c d \<Longrightarrow> calm c (notice_fail i d)"
  by (auto simp: settleNoticeRequiredRedelivery_def notice_ok_def notice_fail_def Let_def intro!: calmI
      split: option.split prod.split)

lemma calm_arrival [calmI]:
  "calm c d \<Longrightarrow> calm c (receive_active e t d)"
  "calm c d \<Longrightarrow> calm c (runAdmission k d)"
  "calm c d \<Longrightarrow> calm c (admission_done k d)"
  by (auto simp: receive_active_def runAdmission_def admission_done_def Let_def intro!: calmI split: nat.split)

lemma calm_touch: "calm c d \<Longrightarrow> (\<And>t. evolves t (f t)) \<Longrightarrow> calm c (touch_entries k f d)"
  by (auto simp: touch_entries_def intro!: calmI)

lemma oid_unique:
  "fresh_oids c \<Longrightarrow> t \<in> set (entries_of c k) \<Longrightarrow> u \<in> set (entries_of c k) \<Longrightarrow> tr_oid t = tr_oid u \<Longrightarrow> t = u"
  unfolding fresh_oids_def by (meson distinct_map inj_onD)

lemma calm_markOwned:
  assumes "fresh_oids c"
  shows "calm c (snd (markOwned w c))"
proof (cases "findEntry c (wk_chatId w) (wk_entryId w)")
  case (Some t)
  have t: "t \<in> set (entries_of c (wk_chatId w))" using findEntry_Some [OF Some] by simp
  have "evolved (entries_of c (wk_chatId w))
      (set_entry (tr_oid t) (\<lambda>t. t\<lparr>tr_phase := PhOwned\<rparr>) (entries_of c (wk_chatId w)))"
    if "tr_phase t = PhOpen"
  proof (rule evolved_set_entry)
    fix u
    assume "u \<in> set (entries_of c (wk_chatId w))" and "tr_oid u = tr_oid t"
    then have "u = t" by (rule oid_unique [OF assms _ t])
    with that show "evolves u (u\<lparr>tr_phase := PhOwned\<rparr>)" by simp
  qed
  with Some show ?thesis
    by (auto simp: markOwned_def intro!: calm_refl calm_frame(1) calm_upd_entries)
qed (simp add: markOwned_def calm_refl)

lemma calm_progress [calmI]:
  "calm c d \<Longrightarrow> calm c (markReplayFenceWithheld k ms d)"
  "calm c d \<Longrightarrow> calm c (settleReplayFencedEntries k ms d)"
  "calm c d \<Longrightarrow> calm c (markProcessingStarted k msgs now d)"
  "calm c d \<Longrightarrow> calm c (markTerminal k msgs oc evd now d)"
  by (auto simp: markReplayFenceWithheld_def settleReplayFencedEntries_def Let_def markProcessingStarted_def
      markTerminal_def intro!: calmI calm_touch split: option.split)

lemma calm_notice_prefix [calmI]:
  "calm c d \<Longrightarrow> calm c (markNoticeRequiredForProcessingPrefix k q d)"
  by (auto simp: markNoticeRequiredForProcessingPrefix_def evolved_notice_prefix
      intro!: calm_frame(1) calm_upd_entries)

lemma calm_operator_suspend [calmI]:
  assumes "calm c d"
  shows "calm c (prepareOperatorSuspend k now d)"
proof -
  have "calm c (upd_entries k (\<lambda>_. ts) d)" if "operator_prefix now (entries_of d k) = (n, ch, ts)" for n ch ts
    using evolved_operator_prefix [of "entries_of d k" now] that by (auto intro!: calm_upd_entries [OF assms])
  with assms show ?thesis
    by (auto simp: prepareOperatorSuspend_def Let_def intro!: calm_frame(1) calm_run_cont calm_ackThrough
        split: prod.split)
qed

lemma calm_completion [calmI]:
  "calm c d \<Longrightarrow> calm c (finishTurn k msgs oc now d)"
  "calm c d \<Longrightarrow> calm c (terminalRejected k msgs evd now d)"
  "calm c d \<Longrightarrow> calm c (retryTurn k msgs d)"
  "calm c d \<Longrightarrow> calm c (snd (parkTurnForDeferredRecovery k msgs d))"
  "calm c d \<Longrightarrow> calm c (ack_terminal_prefix k r kt d)"
  "calm c d \<Longrightarrow> calm c (prepareEvict k d)"
  "calm c d \<Longrightarrow> calm c (markNoticeRequired k msgs p d)"
  by (auto simp: finishTurn_def terminalRejected_def retryTurn_def parkTurnForDeferredRecovery_def
      ack_terminal_prefix_def prepareEvict_def markNoticeRequired_def Let_def intro!: calmI
      split: option.split list.split prod.split)

text \<open>The two operations that are not calm.\<close>

fun restless :: "event \<Rightarrow> bool" where
  "restless (EvReceive x) = True"
| "restless (EvAckStart chat now) = True"
| "restless e = False"

lemma step_calm: "fresh_oids c \<Longrightarrow> \<not> restless e \<Longrightarrow> calm c (step c e)"
  by (cases e) (auto simp: prepareSuspend_def drainForTerminate_def calm_markOwned intro!: calmI)


section \<open>Sending and receiving\<close>

lemma queue_upd:
  "(\<And>l. ld_acks (f l) = ld_acks l) \<Longrightarrow> ld_acks (the_ledger (upd chat f c) k) = ld_acks (the_ledger c k)"
  by (simp add: view)

lemma queue_requestRecovery: "ld_acks (the_ledger (requestRecovery chat c) k) = ld_acks (the_ledger c k)"
  by (simp add: requestRecovery_def Let_def queue_upd view(2-))

lemma queue_markRecoveryDebt: "ld_acks (the_ledger (markRecoveryDebt chat b c) k) = ld_acks (the_ledger c k)"
  by (simp add: markRecoveryDebt_def Let_def queue_requestRecovery queue_upd view(2-))

text \<open>What sending does: nothing that shows, a wait for the recovery it asked for, or the call.\<close>

definition mark_sent :: "string \<Rightarrow> int \<Rightarrow> ack_job \<Rightarrow> tracked list \<Rightarrow> coord \<Rightarrow> coord" where
  "mark_sent chat now job pre c =
     upd_entries chat (\<lambda>ts. map (mark_attempt (jb_through job) (jb_reason job) now) pre @ drop (length pre) ts) c"

lemma ack_start_cases:
  obtains
    (quiet) "\<not> sendable c chat" "calm c (ack_start chat now c)"
  | (await) "\<not> sendable c chat" "ld_acks (the_ledger c chat) \<noteq> []" "ld_head (the_ledger c chat) = HeadIdle"
      "ack_start chat now c = upd chat (\<lambda>l. l\<lparr>ld_head := HeadAwaitRecovery\<rparr>) (markRecoveryDebt chat True c)"
  | (send) job rest pre d where "sendable c chat" "ld_acks (the_ledger c chat) = job # rest"
      "ld_head (the_ledger c chat) = HeadIdle"
      "ack_prefix (jb_through job) (entries_of c chat) = Some pre"
      "d = mark_sent chat now job pre c \<or> d = emit (WorkChanged chat) (mark_sent chat now job pre c)"
      "ack_start chat now c =
         upd chat (\<lambda>l. l\<lparr>ld_head := HeadSending\<rparr>) (emit (AckSent chat (jb_through job)) d)"
proof (cases "ld_acks (the_ledger c chat)")
  case Nil
  then show thesis by (intro quiet) (simp_all add: ack_start_def sendable_def Let_def calm_refl)
next
  case (Cons job rest)
  let ?l = "the_ledger c chat"
  consider (busy) "ld_head ?l \<noteq> HeadIdle"
    | (empty) "ld_head ?l = HeadIdle" "ld_entries ?l = [] \<or> ld_debt ?l \<noteq> DebtNone \<or> ack_prefix (jb_through job) (ld_entries ?l) = None"
    | (pre) pre where "ld_head ?l = HeadIdle" "ld_entries ?l \<noteq> []" "ld_debt ?l = DebtNone"
        "ack_prefix (jb_through job) (ld_entries ?l) = Some pre"
    by (cases "ack_prefix (jb_through job) (ld_entries ?l)") blast+
  then show thesis
  proof cases
    case busy
    with Cons show thesis by (intro quiet) (simp_all add: ack_start_def sendable_def Let_def calm_refl)
  next
    case empty
    then have "\<not> sendable c chat" using Cons by (auto simp: sendable_def Let_def split: option.split)
    moreover from empty Cons have "ack_start chat now c = finish_job chat False c"
      by (auto simp: ack_start_def Let_def split: option.split)
    ultimately show thesis by (intro quiet) (simp_all add: calm_finish_job calm_refl)
  next
    case (pre pre)
    show thesis
    proof (cases "jb_requireTerminal job \<and> list_ex (\<lambda>t. tr_phase t \<noteq> PhTerminal) pre")
      case True
      with pre Cons have ns: "\<not> sendable c chat" by (simp add: sendable_def list_ex_not_terminal)
      let ?c' = "markRecoveryDebt chat True c"
      show thesis
      proof (cases "chat \<in> set (co_recovering ?c')")
        case rec: True
        with pre Cons True ns show thesis by (intro await) (simp_all add: ack_start_def Let_def)
      next
        case False
        with pre Cons True ns show thesis
          by (intro quiet) (simp_all add: ack_start_def Let_def calm_finish_job calm_markRecoveryDebt calm_refl)
      qed
    next
      case False
      with pre Cons have s: "sendable c chat" by (auto simp: sendable_def list_ex_not_terminal)
      show thesis
        by (rule send [OF s Cons pre(1) _ _ _,
              of pre "if map (mark_attempt (jb_through job) (jb_reason job) now) pre \<noteq> pre
                      then emit (WorkChanged chat) (mark_sent chat now job pre c) else mark_sent chat now job pre c"])
           (use pre Cons False in \<open>auto simp: ack_start_def Let_def mark_sent_def entries_of_def o_def\<close>)
    qed
  qed
qed

lemma calm_mark_sent:
  assumes "ack_prefix (jb_through job) (entries_of c chat) = Some pre"
  shows "calm c (mark_sent chat now job pre c)"
  unfolding mark_sent_def
proof (rule calm_upd_entries [OF calm_refl])
  let ?ts = "entries_of c chat"
  from ack_prefix_append [OF assms] have "evolved ?ts ?ts = evolved (pre @ drop (length pre) ?ts) ?ts" by simp
  moreover have "evolved (pre @ drop (length pre) ?ts)
      (map (mark_attempt (jb_through job) (jb_reason job) now) pre @ drop (length pre) ?ts)"
    by (intro evolved_append evolved_map) simp_all
  ultimately show "evolved ?ts (map (mark_attempt (jb_through job) (jb_reason job) now) pre @ drop (length pre) ?ts)"
    using ack_prefix_append [OF assms] by simp
qed

text \<open>All of it seen from one ledger.\<close>

lemma ack_start_entries: "evolved (entries_of c k) (entries_of (ack_start chat now c) k)"
proof (cases rule: ack_start_cases [of c chat now])
  case quiet
  then show ?thesis by (simp add: calm_def led_calm_def entries_of_def)
next
  case await
  then show ?thesis by (simp add: ids)
next
  case (send job rest pre d)
  then have "evolved (entries_of c k) (entries_of (mark_sent chat now job pre c) k)"
    using calm_mark_sent [of job c chat pre now] by (simp add: calm_def led_calm_def entries_of_def)
  with send show ?thesis by (auto simp: ids)
qed

lemma ack_start_queue:
  assumes "queue_ok (the_ledger c k)"
  shows "queue_ok (the_ledger (ack_start chat now c) k) \<and>
    (ld_head (the_ledger (ack_start chat now c) k) = HeadSending \<longrightarrow>
       hd (ld_acks (the_ledger (ack_start chat now c) k)) = hd (ld_acks (the_ledger c k)) \<and>
       (ld_head (the_ledger c k) = HeadSending \<or> k = chat \<and> sendable c chat))"
proof (cases rule: ack_start_cases [of c chat now])
  case quiet
  with assms show ?thesis by (simp add: calm_def led_calm_def)
next
  case await
  have "calm c (markRecoveryDebt chat True c)" by (intro calmI)
  then have "led_calm (the_ledger c k) (the_ledger (markRecoveryDebt chat True c) k)" by (simp add: calm_def)
  with await assms show ?thesis
    by (auto simp: view queue_ok_def queue_markRecoveryDebt led_calm_def)
next
  case (send job rest pre d)
  have "led_calm (the_ledger c k) (the_ledger (mark_sent chat now job pre c) k)"
    using calm_mark_sent [OF send(4)] by (simp add: calm_def)
  moreover have "ld_acks (the_ledger (mark_sent chat now job pre c) k) = ld_acks (the_ledger c k)" for k
    by (simp add: mark_sent_def upd_entries_def view)
  ultimately show ?thesis using send assms
    by (auto simp: view queue_ok_def led_calm_def)
qed

lemma receive_queue:
  "queue_ok (the_ledger c k) \<Longrightarrow>
   queue_ok (the_ledger (receive e c) k) \<and>
   (ld_head (the_ledger (receive e c) k) = HeadSending \<longrightarrow>
      ld_head (the_ledger c k) = HeadSending \<and> hd (ld_acks (the_ledger (receive e c) k)) = hd (ld_acks (the_ledger c k)))"
proof (cases rule: receive_cases [of c e])
  case admitted
  assume q: "queue_ok (the_ledger c k)"
  have "ld_acks (the_ledger (receive e c) k) = ld_acks (the_ledger c k)"
    "ld_head (the_ledger (receive e c) k) = ld_head (the_ledger c k)"
    by (simp_all add: admitted admit_entry_def Let_def upd_entries_def view)
  with q show ?thesis by (simp add: queue_ok_def)
next
  case (active t)
  assume q: "queue_ok (the_ledger c k)"
  have "calm c (receive_active e t (ensure (entry_chat e) c))" by (intro calmI)
  with active q show ?thesis by (simp add: calm_def led_calm_def queue_ok_def)
next
  case (refused d x)
  assume q: "queue_ok (the_ledger c k)"
  with refused show ?thesis by (simp add: view queue_ok_def)
qed

section \<open>Every event\<close>

definition queues_ok :: "coord \<Rightarrow> bool" where
  "queues_ok c \<longleftrightarrow> (\<forall>k. queue_ok (the_ledger c k))"

lemma queues_ok_step:
  assumes "fresh_oids c" and "queues_ok c"
  shows "queues_ok (step c e)"
proof (cases "restless e")
  case True
  then show ?thesis
    using assms(2) by (cases e) (simp_all add: queues_ok_def ack_start_queue receive_queue)
next
  case False
  from step_calm [OF assms(1) False] assms(2) show ?thesis by (simp add: queues_ok_def calm_def led_calm_def)
qed

text \<open>Where an acknowledgement in flight comes from.\<close>

lemma step_sending:
  assumes "fresh_oids c" and "queues_ok c" and "ld_head (the_ledger (step c e) k) = HeadSending"
  shows "hd (ld_acks (the_ledger (step c e) k)) = hd (ld_acks (the_ledger c k)) \<and>
    (ld_head (the_ledger c k) = HeadSending \<or> (\<exists>now. e = EvAckStart k now) \<and> sendable c k)"
proof (cases "restless e")
  case True
  then show ?thesis
  proof (cases e)
    case (EvReceive x)
    then show ?thesis using assms receive_queue [of c k x] by (auto simp: queues_ok_def)
  next
    case (EvAckStart chat now)
    then show ?thesis using assms ack_start_queue [of c k chat now] by (auto simp: queues_ok_def)
  qed auto
next
  case False
  from step_calm [OF assms(1) False] have "led_calm (the_ledger c k) (the_ledger (step c e) k)"
    by (simp add: calm_def)
  with assms(2,3) show ?thesis by (auto simp: led_calm_def queues_ok_def)
qed

text \<open>Every delivery tracked after an event evolved from one tracked before it, or was admitted by it.\<close>

lemma step_entries:
  assumes "fresh_oids c" and "t' \<in> set (entries_of (step c e) k)"
  shows "(\<exists>t \<in> set (entries_of c k). evolves t t') \<or> t' \<in> set (arrives c e k)"
proof (cases "restless e")
  case True
  then show ?thesis
  proof (cases e)
    case (EvReceive x)
    show ?thesis
    proof (cases rule: receive_cases [of c x])
      case admitted
      have "t' \<in> set (entries_of c k) \<or> k = entry_chat x \<and> t' = admitted c x"
        using assms(2) EvReceive
        by (auto simp: admitted admit_entry_def Let_def ids led fld admitted_def split: if_splits)
      with admitted(1) EvReceive show ?thesis by (auto simp: arrives_def) (use evolves_refl in blast)+
    next
      case (active t)
      have "calm c (receive_active x t (ensure (entry_chat x) c))" by (intro calmI)
      with active assms(2) EvReceive show ?thesis by (simp add: calm_def led_calm_def evolved_def entries_of_def)
    next
      case (refused d y)
      with assms(2) EvReceive have "t' \<in> set (entries_of c k)" by (auto simp: ids)
      then show ?thesis using evolves_refl by blast
    qed
  next
    case (EvAckStart chat now)
    with assms(2) ack_start_entries [of c k chat now] show ?thesis by (auto simp: evolved_def)
  qed auto
next
  case False
  from step_calm [OF assms(1) False] assms(2) show ?thesis
    by (auto simp: calm_def led_calm_def evolved_def entries_of_def)
qed

end
