(* ===== verification/HeldFacts.thy ===== *)
theory HeldFacts
  imports Main
begin

text \<open>
  The contract of a component that holds facts until they are released: an event keeps the state
  sound, and a fact that holds goes on holding unless the event is one that releases it. The durable
  replay fences and the recovery debts of the delivery coordinator are instances.
\<close>

locale held_facts =
  fixes sound :: "'s \<Rightarrow> bool"
    and holds :: "'s \<Rightarrow> 'f \<Rightarrow> bool"
    and exec :: "'s \<Rightarrow> 'e \<Rightarrow> 's"
    and releases :: "'e \<Rightarrow> 'f \<Rightarrow> bool"
  assumes exec_sound: "sound s \<Longrightarrow> sound (exec s e)"
    and exec_holds: "sound s \<Longrightarrow> holds s f \<Longrightarrow> \<not> releases e f \<Longrightarrow> holds (exec s e) f"
begin

lemma sound_all: "sound s \<Longrightarrow> sound (foldl exec s es)"
  by (induction es arbitrary: s) (auto intro: exec_sound)

lemma holds_all:
  "sound s \<Longrightarrow> holds s f \<Longrightarrow> \<forall>e \<in> set es. \<not> releases e f \<Longrightarrow> holds (foldl exec s es) f"
  by (induction es arbitrary: s) (auto intro: exec_sound exec_holds)

text \<open>A fact that was given up was released by some event.\<close>

lemma lost_released:
  assumes "sound s" and "holds s f" and "\<not> holds (foldl exec s es) f"
  shows "\<exists>e \<in> set es. releases e f"
  using assms holds_all by blast

end

end
