(* ===== verification/InboxDebt.thy ===== *)
theory InboxDebt
  imports InboxInvariants HeldFacts
begin

text \<open>
  The recovery debt of a chat: which events can clear it, and that a chat whose debt is \<open>running\<close> has
  a \<open>recoverChat\<close> call in flight. \<open>debt_step S c d\<close> states both for a whole operation, and that it
  readies no activation; \<open>S\<close> are the chats whose debt it may clear.
\<close>

section \<open>Debts\<close>

definition debt_of :: "coord \<Rightarrow> string \<Rightarrow> debt" where
  "debt_of c k = ld_debt (the_ledger c k)"

definition ready_of :: "coord \<Rightarrow> string \<Rightarrow> bool" where
  "ready_of c k = ld_activationReady (the_ledger c k)"

definition running_ok :: "coord \<Rightarrow> bool" where
  "running_ok c \<longleftrightarrow> (\<forall>k. debt_of c k = DebtRunning \<longrightarrow> k \<in> set (co_recovering c))"

definition debt_step :: "string set \<Rightarrow> coord \<Rightarrow> coord \<Rightarrow> bool" where
  "debt_step S c d \<longleftrightarrow>
     (\<forall>k. k \<notin> S \<longrightarrow> debt_of c k \<noteq> DebtNone \<longrightarrow> debt_of d k \<noteq> DebtNone) \<and>
     (\<forall>k. k \<notin> S \<longrightarrow> ready_of d k \<longrightarrow> ready_of c k) \<and>
     (running_ok c \<longrightarrow> running_ok d)"

named_theorems debtI \<open>introduction rules of \<open>debt_step\<close>\<close>

lemma debt_step_refl [debtI]: "debt_step S c c"
  by (simp add: debt_step_def)

lemma debt_of_frame [view]:
  "debt_of (emit x d) k = debt_of d k"
  "debt_of (ensure chat d) k = debt_of d k"
  "debt_of (cleanupLedger chat d) k = debt_of d k"
  "debt_of (markFenceSettled chat ms d) k = debt_of d k"
  "debt_of (record_committed chat ts d) k = debt_of d k"
  "debt_of (d\<lparr>co_recovering := r\<rparr>) k = debt_of d k"
  "debt_of (d\<lparr>co_notices := ns\<rparr>) k = debt_of d k"
  "debt_of (d\<lparr>co_bindLoops := bs\<rparr>) k = debt_of d k"
  "debt_of (d\<lparr>co_dedup := w\<rparr>) k = debt_of d k"
  "debt_of (d\<lparr>co_nextOid := n\<rparr>) k = debt_of d k"
  "debt_of (upd_entries chat g d) k = debt_of d k"
  by (simp_all add: debt_of_def view debt_of_cleanup upd_entries_def)

lemma ready_of_cleanup: "ld_activationReady (the_ledger (cleanupLedger chat c) k) = ld_activationReady (the_ledger c k)"
  by (auto simp: the_ledger_def led fld disposable_def quiescent_def split: option.split)

lemma ready_of_frame [view]:
  "ready_of (emit x d) k = ready_of d k"
  "ready_of (ensure chat d) k = ready_of d k"
  "ready_of (cleanupLedger chat d) k = ready_of d k"
  "ready_of (markFenceSettled chat ms d) k = ready_of d k"
  "ready_of (record_committed chat ts d) k = ready_of d k"
  "ready_of (d\<lparr>co_recovering := r\<rparr>) k = ready_of d k"
  "ready_of (d\<lparr>co_notices := ns\<rparr>) k = ready_of d k"
  "ready_of (d\<lparr>co_bindLoops := bs\<rparr>) k = ready_of d k"
  "ready_of (d\<lparr>co_dedup := w\<rparr>) k = ready_of d k"
  "ready_of (d\<lparr>co_nextOid := n\<rparr>) k = ready_of d k"
  "ready_of (upd_entries chat g d) k = ready_of d k"
  by (simp_all add: ready_of_def view ready_of_cleanup upd_entries_def)

lemma ready_of_upd [view]:
  "ready_of (upd chat f d) k = (if k = chat \<and> ledger_at d chat \<noteq> None then ld_activationReady (f (the_ledger d k)) else ready_of d k)"
  by (auto simp: ready_of_def the_ledger_def led)

lemma debt_of_upd_same [view]:
  "(\<And>l. ld_debt (f l) = ld_debt l) \<Longrightarrow> debt_of (upd chat f d) k = debt_of d k"
  by (simp add: debt_of_def view)

lemma debt_of_upd_set [view]:
  "(\<And>l. ld_debt (f l) = x) \<Longrightarrow>
   debt_of (upd chat f d) k = (if k = chat \<and> ledger_at d chat \<noteq> None then x else debt_of d k)"
  by (auto simp: debt_of_def view)

lemma debt_step_frame [debtI]:
  "debt_step S c d \<Longrightarrow> debt_step S c (emit x d)"
  "debt_step S c d \<Longrightarrow> debt_step S c (ensure chat d)"
  "debt_step S c d \<Longrightarrow> debt_step S c (cleanupLedger chat d)"
  "debt_step S c d \<Longrightarrow> debt_step S c (markFenceSettled chat ms d)"
  "debt_step S c d \<Longrightarrow> debt_step S c (record_committed chat ts d)"
  "debt_step S c d \<Longrightarrow> debt_step S c (d\<lparr>co_notices := ns\<rparr>)"
  "debt_step S c d \<Longrightarrow> debt_step S c (d\<lparr>co_bindLoops := bs\<rparr>)"
  "debt_step S c d \<Longrightarrow> debt_step S c (d\<lparr>co_dedup := w\<rparr>)"
  "debt_step S c d \<Longrightarrow> debt_step S c (d\<lparr>co_nextOid := n\<rparr>)"
  "debt_step S c d \<Longrightarrow> debt_step S c (upd_entries chat g d)"
  by (auto simp: debt_step_def running_ok_def view fld record_committed_def [of chat ts d]
      markFenceSettled_def [of chat ms d]) (simp_all add: debt_of_def ready_of_def view)

lemma debt_step_upd [debtI]:
  assumes "debt_step S c d"
    and "(\<forall>l. ld_debt (f l) = ld_debt l) \<or> (\<forall>l. ld_debt (f l) = DebtRequired) \<or>
     chat \<in> S \<and> (\<forall>l. ld_debt (f l) = DebtNone)"
    and ready: "chat \<in> S \<or> (\<forall>l. ld_activationReady (f l) \<longrightarrow> ld_activationReady l)"
  shows "debt_step S c (upd chat f d)"
proof -
  have "ready_of d k" if "ready_of (upd chat f d) k" "k \<notin> S" for k
  proof (cases "k = chat \<and> ledger_at d chat \<noteq> None")
    case True
    with that have "ld_activationReady (f (the_ledger d k))" by (simp add: ready_of_upd)
    with ready that(2) True show ?thesis by (auto simp: ready_of_def)
  qed (use that in \<open>auto simp: ready_of_upd split: if_splits\<close>)
  then have "\<forall>k. k \<notin> S \<longrightarrow> ready_of (upd chat f d) k \<longrightarrow> ready_of c k" using assms(1) by (auto simp: debt_step_def)
  moreover have "(\<forall>k. k \<notin> S \<longrightarrow> debt_of c k \<noteq> DebtNone \<longrightarrow> debt_of (upd chat f d) k \<noteq> DebtNone) \<and>
      (running_ok c \<longrightarrow> running_ok (upd chat f d))"
    using assms(1,2) by (auto simp: debt_step_def running_ok_def debt_of_upd_same debt_of_upd_set fld split: if_splits)
  ultimately show ?thesis by (simp add: debt_step_def)
qed

lemma debt_step_trans: "debt_step S c d \<Longrightarrow> debt_step S d d' \<Longrightarrow> debt_step S c d'"
  by (auto simp: debt_step_def)

lemma debt_step_request [debtI]:
  assumes "debt_step S c d"
  shows "debt_step S c (requestRecovery chat d)"
proof (rule debt_step_trans [OF assms])
  show "debt_step S d (requestRecovery chat d)"
    by (auto simp: requestRecovery_def Let_def debt_step_def running_ok_def view fld led) (simp_all add: ready_of_def)
qed

lemma debt_step_mark [debtI]: "debt_step S c d \<Longrightarrow> debt_step S c (markRecoveryDebt chat b d)"
  by (auto simp: markRecoveryDebt_def Let_def intro!: debtI)

lemma debt_step_clear [debtI]:
  "debt_step S c d \<Longrightarrow> debt_step S c (clearEntriesForRecoverySuccess chat d)"
  "debt_step S c d \<Longrightarrow> debt_step S c (commitRemainingEntriesFromServerProof chat d)"
  by (auto simp: clearEntriesForRecoverySuccess_def commitRemainingEntriesFromServerProof_def Let_def
      intro!: debtI)

lemma debt_step_settled:
  "debt_step S c d \<Longrightarrow> debt_of d chat \<noteq> DebtRunning \<Longrightarrow>
   debt_step S c (d\<lparr>co_recovering := set_remove (co_recovering d) chat\<rparr>)"
  by (auto simp: debt_step_def running_ok_def view)

lemma debt_step_recover_fail [debtI]: "debt_step S c d \<Longrightarrow> debt_step S c (recover_fail chat d)"
proof -
  assume d: "debt_step S c d"
  let ?d = "upd chat (\<lambda>l. l\<lparr>ld_debt := DebtRequired\<rparr>) (ensure chat d)"
  have "debt_step S c ?d" using d by (auto intro!: debtI)
  moreover have "debt_of ?d chat \<noteq> DebtRunning" by (simp add: view led)
  ultimately have "debt_step S c (?d\<lparr>co_recovering := set_remove (co_recovering ?d) chat\<rparr>)"
    by (rule debt_step_settled)
  with d show ?thesis by (auto simp: recover_fail_def Let_def intro!: debtI)
qed

lemma debt_step_recover_ok: "debt_step S c d \<Longrightarrow> chat \<in> S \<Longrightarrow> debt_step S c (recover_ok chat u d)"
proof -
  assume d: "debt_step S c d" and S: "chat \<in> S"
  let ?e = "upd chat (\<lambda>l. l\<lparr>ld_needsReconcile := False\<rparr>) (ensure chat d)"
  let ?p = "upd chat (\<lambda>l. l\<lparr>ld_debt := DebtNone, ld_activationReady := False, ld_windowOpen := False\<rparr>)
              (commitRemainingEntriesFromServerProof chat ?e)"
  let ?q = "upd chat (\<lambda>l. l\<lparr>ld_debt := DebtNone, ld_activationReady := True, ld_windowOpen := False\<rparr>)
              (clearEntriesForRecoverySuccess chat ?e)"
  have gone: "debt_of (upd chat f x) chat \<noteq> DebtRunning" if "\<And>l. ld_debt (f l) = DebtNone" for f x
    using that by (auto simp: debt_of_def the_ledger_def led split: option.split)
  have "debt_step S c (cleanupLedger chat ?p)" "debt_step S c ?q"
    using d S by (auto intro!: debtI)
  then have "debt_step S c ((cleanupLedger chat ?p)\<lparr>co_recovering := set_remove (co_recovering (cleanupLedger chat ?p)) chat\<rparr>)"
    and "debt_step S c (?q\<lparr>co_recovering := set_remove (co_recovering ?q) chat\<rparr>)"
    by (auto intro!: debt_step_settled simp: debt_of_frame gone)
  with d show ?thesis by (auto simp: recover_ok_def Let_def intro!: debtI)
qed

lemma debt_step_bind [debtI]:
  "debt_step S c d \<Longrightarrow> debt_step S c (snd (takeRecoveryActivationReady chat d))"
  "debt_step S c d \<Longrightarrow> debt_step S c (bind_start d)"
  "debt_step S c d \<Longrightarrow> debt_step S c (bind_step i d)"
  by (auto simp: takeRecoveryActivationReady_def bind_start_def bind_step_def intro!: debtI
      split: option.split prod.split list.split)

lemma debt_step_completeBind:
  "debt_step S c d \<Longrightarrow> chat \<in> S \<Longrightarrow> debt_step S c (completeBindRecovery chat d)"
  by (auto simp: completeBindRecovery_def intro!: debtI split: option.split)

lemma debt_step_cont [debtI]:
  "debt_step S c d \<Longrightarrow> debt_step S c (run_cont chat kt ok d)"
  "debt_step S c d \<Longrightarrow> debt_step S c (ackThrough chat th r b kt d)"
  by (auto simp: run_cont_def ackThrough_def intro!: debtI split: ack_cont.split option.split)

lemma debt_step_finish [debtI]: "debt_step S c d \<Longrightarrow> debt_step S c (finish_job chat ok d)"
  by (auto simp: finish_job_def Let_def intro!: debtI split: list.split)

lemma debt_step_ack [debtI]:
  "debt_step S c d \<Longrightarrow> debt_step S c (ack_start chat now d)"
  "debt_step S c d \<Longrightarrow> debt_step S c (ack_fail chat d)"
  "debt_step S c d \<Longrightarrow> debt_step S c (ack_resume chat d)"
  by (auto simp: ack_start_def ack_fail_def ack_resume_def Let_def intro!: debtI
      split: list.split option.split)

lemma debt_step_ack_ok:
  assumes "debt_step S c d" and "chat \<in> S"
  shows "debt_step S c (ack_ok chat d)"
proof -
  have "debt_step S c (upd chat (\<lambda>l. l\<lparr>ld_needsReconcile := False,
      ld_debt := (if ld_entries l = [] \<and> ld_debt l = DebtRequired then DebtNone else ld_debt l)\<rparr>) x)"
    if "debt_step S c x" for x
    using that assms(2) by (auto simp: debt_step_def running_ok_def debt_of_def view fld)
  note window = this
  from assms show ?thesis
    by (auto simp: ack_ok_def Let_def intro!: debt_step_finish debt_step_frame window split: list.split)
qed

lemma debt_step_arrival [debtI]:
  "debt_step S c d \<Longrightarrow> debt_step S c (settleNoticeRequiredRedelivery chat t d)"
  "debt_step S c d \<Longrightarrow> debt_step S c (notice_ok i now d)"
  "debt_step S c d \<Longrightarrow> debt_step S c (notice_fail i d)"
  "debt_step S c d \<Longrightarrow> debt_step S c (runAdmission chat d)"
  "debt_step S c d \<Longrightarrow> debt_step S c (admission_done chat d)"
  by (auto simp: settleNoticeRequiredRedelivery_def notice_ok_def notice_fail_def runAdmission_def
      admission_done_def Let_def intro!: debtI split: option.split prod.split nat.split)

lemma debt_step_receive [debtI]: "debt_step S c d \<Longrightarrow> debt_step S c (receive x d)"
  by (auto simp: receive_def receive_active_def admit_entry_def Let_def intro!: debtI
      split: option.split prod.split)

lemma debt_step_progress [debtI]:
  "debt_step S c d \<Longrightarrow> debt_step S c (markReplayFenceWithheld chat ms d)"
  "debt_step S c d \<Longrightarrow> debt_step S c (settleReplayFencedEntries chat ms d)"
  "debt_step S c d \<Longrightarrow> debt_step S c (snd (markOwned w d))"
  "debt_step S c d \<Longrightarrow> debt_step S c (touch_entries chat f d)"
  by (auto simp: markReplayFenceWithheld_def settleReplayFencedEntries_def markOwned_def touch_entries_def
      Let_def intro!: debtI split: option.split)

lemma debt_step_completion [debtI]:
  "debt_step S c d \<Longrightarrow> debt_step S c (markProcessingStarted chat msgs now d)"
  "debt_step S c d \<Longrightarrow> debt_step S c (finishTurn chat msgs oc now d)"
  "debt_step S c d \<Longrightarrow> debt_step S c (terminalRejected chat msgs evd now d)"
  "debt_step S c d \<Longrightarrow> debt_step S c (retryTurn chat msgs d)"
  "debt_step S c d \<Longrightarrow> debt_step S c (snd (parkTurnForDeferredRecovery chat msgs d))"
  "debt_step S c d \<Longrightarrow> debt_step S c (ack_terminal_prefix chat r kt d)"
  "debt_step S c d \<Longrightarrow> debt_step S c (prepareEvict chat d)"
  "debt_step S c d \<Longrightarrow> debt_step S c (markNoticeRequired chat msgs p d)"
  "debt_step S c d \<Longrightarrow> debt_step S c (markNoticeRequiredForProcessingPrefix chat q d)"
  "debt_step S c d \<Longrightarrow> debt_step S c (prepareOperatorSuspend chat now d)"
  by (auto simp: markProcessingStarted_def markTerminal_def finishTurn_def terminalRejected_def retryTurn_def
      parkTurnForDeferredRecovery_def ack_terminal_prefix_def prepareEvict_def markNoticeRequired_def
      markNoticeRequiredForProcessingPrefix_def prepareOperatorSuspend_def Let_def intro!: debtI
      split: option.split list.split prod.split)

text \<open>Only these events may clear a debt.\<close>

fun clears :: "event \<Rightarrow> string set" where
  "clears (EvRecoverOk chat u) = {chat}"
| "clears (EvBindRecovered chat) = {chat}"
| "clears (EvAckOk chat) = {chat}"
| "clears e = {}"

lemma step_debt: "debt_step (clears e) c (step c e)"
  by (cases e) (auto simp: prepareSuspend_def drainForTerminate_def
      intro!: debtI debt_step_recover_ok debt_step_completeBind debt_step_ack_ok)

lemma running_ok_step: "running_ok c \<Longrightarrow> running_ok (step c e)"
  using step_debt [of e c] by (simp add: debt_step_def)

lemma step_keeps_unready: "k \<notin> clears e \<Longrightarrow> ready_of (step c e) k \<Longrightarrow> ready_of c k"
  using step_debt [of e c] by (simp add: debt_step_def)

lemma step_keeps_debt: "k \<notin> clears e \<Longrightarrow> debt_of c k \<noteq> DebtNone \<Longrightarrow> debt_of (step c e) k \<noteq> DebtNone"
  using step_debt [of e c] by (simp add: debt_step_def)

text \<open>Debts are held facts: no event but one that clears the chat gives a debt up.\<close>

interpretation debts: held_facts "\<lambda>c. True" "\<lambda>c k. debt_of c k \<noteq> DebtNone" step "\<lambda>e k. k \<in> clears e"
  by unfold_locales (auto simp: step_keeps_debt)

lemma run_foldl: "run c es = foldl step c es"
  by (induction es arbitrary: c) auto

lemma run_keeps_debt: "debt_of c k \<noteq> DebtNone \<Longrightarrow> \<forall>e \<in> set es. k \<notin> clears e \<Longrightarrow> debt_of (run c es) k \<noteq> DebtNone"
  using debts.holds_all [of c k es] by (simp add: run_foldl)

end
