(* ===== verification/InboxProperties.thy ===== *)
theory InboxProperties
  imports InboxEvolution InboxDebt
begin

text \<open>
  What the delivery coordinator promises, over whole runs: its invariant, custody of every delivery,
  acknowledgements that cover handled work only, the replay fence, the recovery discipline, and two
  end-to-end scenarios (a turn that settles, a turn that is retried).
\<close>

section \<open>Runs\<close>

definition keys_ok :: "coord \<Rightarrow> bool" where
  "keys_ok c \<longleftrightarrow> (\<forall>k. \<forall>t \<in> set (entries_of c k). tr_dedupKey t = dedupKey k (tr_messageId t))"

lemma keys_ok_step: "fresh_oids c \<Longrightarrow> keys_ok c \<Longrightarrow> keys_ok (step c e)"
  unfolding keys_ok_def
proof (intro allI ballI)
  fix k t'
  assume "fresh_oids c" and keys: "\<forall>k. \<forall>t \<in> set (entries_of c k). tr_dedupKey t = dedupKey k (tr_messageId t)"
    and "t' \<in> set (entries_of (step c e) k)"
  then consider t where "t \<in> set (entries_of c k)" "evolves t t'" | "t' \<in> set (arrives c e k)"
    using step_entries by blast
  then show "tr_dedupKey t' = dedupKey k (tr_messageId t')"
    by cases (use keys in \<open>auto simp: evolves_def ident_def arrives_def admitted_def new_tracked_def
      split: event.splits if_splits\<close>)
qed

definition coord_ok :: "coord \<Rightarrow> bool" where
  "coord_ok c \<longleftrightarrow>
     ordered c \<and> keys_ok c \<and> fresh_oids c \<and> queues_ok c \<and> running_ok c \<and>
     window_ok (co_dedup c) \<and> window_ok (co_settled c)"

lemma coord_ok_new: "coord_ok (new_coord r n)"
  by (simp add: coord_ok_def ordered_def keys_ok_def fresh_oids_def queues_ok_def running_ok_def entryIds_def
      entries_of_def the_ledger_def ledger_at_def debt_of_def window_ok_def queue_ok_def new_coord_def
      new_dedup_def dedup_wf_def)

lemma coord_ok_step: "coord_ok c \<Longrightarrow> coord_ok (step c e)"
  by (simp add: coord_ok_def ordered_step keys_ok_step fresh_oids_step queues_ok_step running_ok_step step_windows)

lemma coord_ok_runs: "coord_ok c \<Longrightarrow> coord_ok (run c es)"
  by (induction c es rule: run.induct) (simp_all add: coord_ok_step)

lemma run_append: "run c (es @ fs) = run (run c es) fs"
  by (induction c es rule: run.induct) simp_all

lemma reached_ok: "coord_ok (run (new_coord r n) es)"
  by (rule coord_ok_runs [OF coord_ok_new])

text \<open>
  C9. In every state the coordinator can reach, whatever the interleaving of
  arrivals, acknowledgements, recoveries and turns: each ledger is strictly ordered by entry id, every
  tracked delivery is a distinct object with the dedup key of its message, a queue without acknowledgement jobs has no head in flight
  and every job asks for a terminal prefix, a debt that is \<open>running\<close> has its \<open>recoverChat\<close> call in
  flight, and both dedup windows agree with their order lists and hold at most a thousand keys.
\<close>

theorem coord_invariant: "coord_ok (run (new_coord hasRecover hasNotice) es)"
  by (rule reached_ok)

text \<open>
  C2. Custody: the deliveries of a chat after an event are, in order, those before it that the
  event does not release, plus the one it admits. A delivery is released only by the answer of an
  acknowledgement in flight (ids up to the one acknowledged), by a recovery in flight (everything when
  the server proves the chat settled, otherwise what has neither a terminal outcome nor a pending
  notice), by a recovery after a bind, or by the settlement of its replay fence (\<open>keeps\<close>).
\<close>

theorem custody:
  "map ident (entries_of (step c e) k) =
     (if arrives c e k = [] then map ident (filter (keeps c e k) (entries_of c k))
      else map ident (sort_key tr_entryId (entries_of c k @ arrives c e k)))"
  using step_idents [of c e k] by (simp add: idents_def)

text \<open>
  Chats are independent: an event leaves the ledger of every chat it does not act
  on exactly as it was.
\<close>

theorem chat_isolation: "ledger_at (step c e) k = ledger_at c k \<or> k \<in> event_chats c e"
  using step_isolation by blast


section \<open>Phases\<close>

lemma nextOid_mono: "co_nextOid c \<le> co_nextOid (run c es)"
proof (induction es rule: rev_induct)
  case (snoc e es)
  then show ?case by (simp add: run_append step_nextOid)
qed simp

lemma run_evolves:
  assumes "coord_ok c" and "t \<in> set (entries_of c k)" and "t' \<in> set (entries_of (run c es) k)"
    and "tr_oid t' = tr_oid t"
  shows "evolves t t'"
  using assms(3,4)
proof (induction es arbitrary: t' rule: rev_induct)
  case Nil
  with assms(1,2) show ?case using oid_unique [of c t' k t] by (simp add: coord_ok_def)
next
  case (snoc e es)
  let ?d = "run c es"
  have ok: "fresh_oids ?d" using coord_ok_runs [OF assms(1), of es] by (simp add: coord_ok_def)
  from snoc.prems have "t' \<in> set (entries_of (step ?d e) k)" by (simp add: run_append)
  from step_entries [OF ok this] show ?case
  proof
    assume "\<exists>u \<in> set (entries_of ?d k). evolves u t'"
    then obtain u where u: "u \<in> set (entries_of ?d k)" "evolves u t'" by blast
    then have "tr_oid u = tr_oid t" using snoc.prems(2) by (simp add: evolves_def ident_def)
    with u snoc.IH show ?thesis by (blast intro: evolves_trans)
  next
    assume "t' \<in> set (arrives ?d e k)"
    then have "tr_oid t' = co_nextOid ?d"
      by (auto simp: arrives_def admitted_def new_tracked_def split: event.splits if_splits)
    moreover have "tr_oid t < co_nextOid c" using assms(1,2) by (simp add: coord_ok_def fresh_oids_def)
    ultimately show ?thesis using snoc.prems(2) nextOid_mono [of c es] by simp
  qed
qed

text \<open>
  As long as a delivery is tracked it never regresses: over any run its entry and
  message stay, its phase only goes from open to owned to terminal, its first processing start is
  kept, and once it is terminal its first recorded outcome is final.
\<close>

theorem no_regress:
  assumes "t \<in> set (entries_of (run (new_coord r n) es) k)"
    and "t' \<in> set (entries_of (run (new_coord r n) (es @ fs)) k)"
    and "tr_oid t' = tr_oid t"
  shows "tr_entryId t' = tr_entryId t \<and> tr_messageId t' = tr_messageId t \<and>
    rank (tr_phase t) \<le> rank (tr_phase t') \<and>
    (tr_phase t = PhTerminal \<and> tr_outcome t \<noteq> None \<longrightarrow> tr_outcome t' = tr_outcome t) \<and>
    (tr_startedAt t \<noteq> None \<longrightarrow> tr_startedAt t' = tr_startedAt t)"
  using run_evolves [OF reached_ok assms(1), of t' fs] assms(2,3)
  by (simp add: run_append evolves_def ident_def)


section \<open>Acknowledgements\<close>

lemma sendable_terminal:
  assumes "coord_ok c" and "sendable c chat"
  shows "debt_of c chat = DebtNone \<and>
    jb_through (hd (ld_acks (the_ledger c chat))) \<in> set (entryIds c chat) \<and>
    (\<forall>t \<in> set (entries_of c chat). tr_entryId t \<le> jb_through (hd (ld_acks (the_ledger c chat))) \<longrightarrow>
       tr_phase t = PhTerminal)"
proof -
  let ?l = "the_ledger c chat" and ?ts = "entries_of c chat"
  let ?th = "jb_through (hd (ld_acks ?l))"
  from assms(2) obtain pre where acks: "ld_acks ?l \<noteq> []" and debt: "ld_debt ?l = DebtNone"
    and pre: "ack_prefix ?th ?ts = Some pre"
    and trm: "jb_requireTerminal (hd (ld_acks ?l)) \<longrightarrow> (\<forall>t \<in> set pre. tr_phase t = PhTerminal)"
    by (auto simp: sendable_def Let_def entries_of_def split: option.splits)
  have "jb_requireTerminal (hd (ld_acks ?l))"
    using assms(1) hd_in_set [OF acks] by (simp add: coord_ok_def queues_ok_def queue_ok_def)
  with trm have trm: "\<forall>t \<in> set pre. tr_phase t = PhTerminal" by blast
  have sorted: "strict_sorted (map tr_entryId ?ts)"
    using assms(1) by (simp add: coord_ok_def ordered_def entryIds_def)
  have key: "ack_prefix th ts = Some p \<Longrightarrow> strict_sorted (map tr_entryId ts) \<Longrightarrow>
      th \<in> set (map tr_entryId ts) \<and> (\<forall>t \<in> set ts. tr_entryId t \<le> th \<longrightarrow> t \<in> set p)" for th ts p
  proof (induction ts arbitrary: p)
    case (Cons t ts)
    show ?case
    proof (cases "tr_entryId t = th")
      case True
      with Cons.prems show ?thesis by auto
    next
      case False
      with Cons.prems obtain q where "ack_prefix th ts = Some q" "p = t # q" by auto
      with Cons show ?thesis by auto
    qed
  qed simp
  from key [OF pre sorted] trm debt show ?thesis by (auto simp: debt_of_def entryIds_def)
qed

text \<open>
  C1. The coordinator acknowledges only handled work. When an event makes it
  call \<open>ackEntry\<close>, the event is the turn of the first job of one chat, the chat has no recovery debt,
  the entry acknowledged is tracked, and every tracked delivery the cumulative acknowledgement covers
  (ids up to it) is terminal.
\<close>

theorem ack_covers_handled_work:
  assumes c: "c = run (new_coord r n) es" and "acks_sent (step c e) \<noteq> acks_sent c"
  shows "\<exists>chat th now. e = EvAckStart chat now \<and> acks_sent (step c e) = acks_sent c @ [(chat, th)] \<and>
    debt_of c chat = DebtNone \<and> th \<in> set (entryIds c chat) \<and>
    (\<forall>t \<in> set (entries_of c chat). tr_entryId t \<le> th \<longrightarrow> tr_phase t = PhTerminal)"
proof -
  from assms(2) obtain chat now where e: "e = EvAckStart chat now" "sendable c chat"
    by (auto simp: step_acks_sent split: event.splits if_splits)
  have "coord_ok c" unfolding c by (rule reached_ok)
  moreover have "acks_sent (step c e) = acks_sent c @ [(chat, jb_through (hd (ld_acks (the_ledger c chat))))]"
    using e by (simp only: step_acks_sent) simp
  ultimately show ?thesis using e(1) sendable_terminal [OF _ e(2)] by blast
qed

text \<open>
  While an acknowledgement is in flight its answer releases every tracked id up to the one sent. The
  server hands out the entries of a chat in increasing order, so an arrival while the acknowledgement
  of \<open>through\<close> is in flight has a larger id. \<open>in_order\<close> says that a run keeps to this.
\<close>

fun in_order_event :: "coord \<Rightarrow> event \<Rightarrow> bool" where
  "in_order_event c (EvReceive x) =
     (let l = the_ledger c (entry_chat x)
      in ld_head l = HeadSending \<longrightarrow> ie_id x > jb_through (hd (ld_acks l)))"
| "in_order_event c e = True"

fun in_order :: "coord \<Rightarrow> event list \<Rightarrow> bool" where
  "in_order c [] = True"
| "in_order c (e # es) = (in_order_event c e \<and> in_order (step c e) es)"

definition sending_safe :: "coord \<Rightarrow> bool" where
  "sending_safe c \<longleftrightarrow> (\<forall>k. ld_head (the_ledger c k) = HeadSending \<longrightarrow>
     (\<forall>t \<in> set (entries_of c k). tr_entryId t \<le> jb_through (hd (ld_acks (the_ledger c k))) \<longrightarrow>
        tr_phase t = PhTerminal))"

lemma sending_safe_step:
  assumes ok: "coord_ok c" and safe: "sending_safe c" and ord: "in_order_event c e"
  shows "sending_safe (step c e)"
  unfolding sending_safe_def
proof (intro allI impI ballI)
  fix k t'
  let ?th = "jb_through (hd (ld_acks (the_ledger (step c e) k)))"
  assume head: "ld_head (the_ledger (step c e) k) = HeadSending"
    and t': "t' \<in> set (entries_of (step c e) k)" and le: "tr_entryId t' \<le> ?th"
  have fresh: "fresh_oids c" and queues: "queues_ok c" using ok by (simp_all add: coord_ok_def)
  from step_sending [OF fresh queues head]
  have th: "?th = jb_through (hd (ld_acks (the_ledger c k)))"
    and was: "ld_head (the_ledger c k) = HeadSending \<or> (\<exists>now. e = EvAckStart k now) \<and> sendable c k" by auto
  from step_entries [OF fresh t'] show "tr_phase t' = PhTerminal"
  proof
    assume "\<exists>t \<in> set (entries_of c k). evolves t t'"
    then obtain t where t: "t \<in> set (entries_of c k)" "evolves t t'" by blast
    then have "tr_entryId t \<le> jb_through (hd (ld_acks (the_ledger c k)))"
      using le th by (simp add: evolves_def ident_def)
    with was t(1) safe sendable_terminal [OF ok] have "tr_phase t = PhTerminal"
      by (auto simp: sending_safe_def)
    with t(2) show ?thesis by (simp add: evolves_def)
  next
    assume "t' \<in> set (arrives c e k)"
    then obtain x where x: "e = EvReceive x" "k = entry_chat x" "tr_entryId t' = ie_id x"
      by (auto simp: arrives_def admitted_def new_tracked_def split: event.splits if_splits)
    with was have "ld_head (the_ledger c k) = HeadSending" by auto
    with x ord have "ie_id x > jb_through (hd (ld_acks (the_ledger c k)))" by (simp add: Let_def)
    with x le th show ?thesis by simp
  qed
qed

lemma sending_safe_runs: "coord_ok c \<Longrightarrow> sending_safe c \<Longrightarrow> in_order c es \<Longrightarrow> sending_safe (run c es)"
  by (induction c es rule: run.induct) (simp_all add: coord_ok_step sending_safe_step)

text \<open>
  C3. What a confirmed acknowledgement releases was handled: in every run
  whose arrivals are in order, when the server confirms the acknowledgement in flight, each delivery
  that leaves the ledger has a terminal outcome. No work is dropped unprocessed by an acknowledgement.
\<close>

theorem ack_commits_handled_work:
  assumes c: "c = run (new_coord r n) es" and "in_order (new_coord r n) es"
    and "t \<in> set (entries_of c chat)" and "\<not> keeps c (EvAckOk chat) chat t"
  shows "tr_phase t = PhTerminal"
proof -
  have "sending_safe (new_coord r n)"
    by (simp add: sending_safe_def the_ledger_def ledger_at_def new_coord_def)
  then have "sending_safe c" unfolding c by (rule sending_safe_runs [OF coord_ok_new _ assms(2)])
  with assms(3,4) show ?thesis by (auto simp: sending_safe_def split: if_splits)
qed


section \<open>Deliveries\<close>

lemma findEntry_unique:
  assumes "ordered c" and "t \<in> set (entries_of c k)"
  shows "findEntry c k (tr_entryId t) = Some t"
proof -
  have "distinct (map tr_entryId (entries_of c k))"
    using assms(1) by (simp add: ordered_def entryIds_def strict_sorted_iff)
  then have uniq: "tr_entryId u = tr_entryId t \<Longrightarrow> u = t" if "u \<in> set (entries_of c k)" for u
    using assms(2) that by (meson distinct_map inj_onD)
  show ?thesis
  proof (cases "findEntry c k (tr_entryId t)")
    case None
    with assms(2) show ?thesis by (auto simp: findEntry_None entryIds_def)
  next
    case (Some u)
    with findEntry_Some [OF Some] uniq show ?thesis by simp
  qed
qed

text \<open>
  The dispatcher is handed an entry for exactly two reasons. When an event
  delivers an entry, its chat has no recovery debt and either the entry was not tracked and is now
  tracked as a new open delivery, or it was withheld by the replay fence and is not any more. In
  particular a redelivery of a tracked entry that is not withheld reaches the dispatcher never.
\<close>

theorem delivery_reasons:
  assumes "c = run (new_coord r n) es" and "deliveries (step c e) = deliveries c @ w # ws"
  shows "ws = [] \<and> debt_of c (wk_chatId w) = DebtNone \<and>
    ((findEntry c (wk_chatId w) (wk_entryId w) = None \<and>
      (\<exists>t. findEntry (step c e) (wk_chatId w) (wk_entryId w) = Some t \<and> tr_phase t = PhOpen \<and>
           tr_oid t = co_nextOid c)) \<or>
     (\<exists>t t'. findEntry c (wk_chatId w) (wk_entryId w) = Some t \<and> tr_withheld t \<and>
           findEntry (step c e) (wk_chatId w) (wk_entryId w) = Some t' \<and> tr_oid t' = tr_oid t \<and>
           \<not> tr_withheld t'))"
proof -
  have ok: "coord_ok c" "coord_ok (step c e)"
    unfolding assms(1) by (auto intro: reached_ok coord_ok_step)
  from assms(2) obtain x where x: "e = EvReceive x" and w: "w = entry_work x" "ws = []"
    and why: "admits c x \<or> releases c x"
    by (auto simp: step_deliveries split: event.splits if_splits)
  have ids: "wk_chatId w = entry_chat x" "wk_entryId w = ie_id x" by (simp_all add: w entry_work_def)
  have debt: "debt_of c (entry_chat x) = DebtNone"
    using why by (auto simp: admits_def releases_def debt_of_def)
  from why show ?thesis
  proof
    assume adm: "admits c x"
    let ?k = "entry_chat x"
    have "admitted c x \<in> set (entries_of (step c e) ?k)"
      using adm x
      by (cases rule: receive_cases [of c x]) (simp_all add: admit_entry_def Let_def InboxLemmas.ids led fld admitted_def)
    from findEntry_unique [OF _ this] ok(2) have "findEntry (step c e) ?k (ie_id x) = Some (admitted c x)"
      by (simp add: coord_ok_def admitted_def new_tracked_def)
    moreover have "findEntry c ?k (ie_id x) = None" using adm by (simp add: admits_def)
    ultimately show ?thesis using debt w(2) by (simp add: ids admitted_def new_tracked_def)
  next
    assume rel: "releases c x"
    let ?k = "entry_chat x"
    from rel obtain t where t: "findEntry c ?k (ie_id x) = Some t" "tr_withheld t"
      by (auto simp: releases_def)
    have mem: "t \<in> set (entries_of c ?k)" "tr_entryId t = ie_id x" using findEntry_Some [OF t(1)] by auto
    let ?t = "t\<lparr>tr_withheld := False\<rparr>"
    have "step c e = receive_active x t (ensure ?k c)"
      using x t rel debt
      by (cases rule: receive_cases [of c x]) (auto simp: admits_def)
    then have "?t \<in> set (entries_of (step c e) ?k)"
      using t mem by (auto simp: receive_active_def Let_def InboxLemmas.ids led set_entry_def intro!: image_eqI [of _ _ t])
    from findEntry_unique [OF _ this] ok(2) have "findEntry (step c e) ?k (ie_id x) = Some ?t"
      using mem(2) by (simp add: coord_ok_def)
    with t debt w(2) show ?thesis by (simp add: ids)
  qed
qed


section \<open>The replay fence\<close>

text \<open>A run whose arrivals name messages the way the server does: an inbox entry has one message.\<close>

definition names_agree :: "(int \<Rightarrow> string) \<Rightarrow> event list \<Rightarrow> bool" where
  "names_agree messageOf es \<longleftrightarrow> (\<forall>x. EvReceive x \<in> set es \<longrightarrow> ie_messageId x = messageOf (ie_id x))"

definition entries_agree :: "(int \<Rightarrow> string) \<Rightarrow> coord \<Rightarrow> bool" where
  "entries_agree messageOf c \<longleftrightarrow>
     (\<forall>k. \<forall>t \<in> set (entries_of c k). tr_messageId t = messageOf (tr_entryId t))"

definition fenced_off :: "string \<Rightarrow> string set \<Rightarrow> coord \<Rightarrow> bool" where
  "fenced_off chat ms c \<longleftrightarrow>
     (\<forall>m \<in> ms. fenceSettled c chat m) \<and> (\<forall>t \<in> set (entries_of c chat). tr_messageId t \<notin> ms)"

lemma entries_agree_step:
  assumes "coord_ok c" and "entries_agree messageOf c" and "names_agree messageOf [e]"
  shows "entries_agree messageOf (step c e)"
  unfolding entries_agree_def
proof (intro allI ballI)
  fix k t'
  assume "t' \<in> set (entries_of (step c e) k)"
  moreover have "fresh_oids c" using assms(1) by (simp add: coord_ok_def)
  ultimately consider t where "t \<in> set (entries_of c k)" "evolves t t'" | "t' \<in> set (arrives c e k)"
    using step_entries by blast
  then show "tr_messageId t' = messageOf (tr_entryId t')"
  proof cases
    case (1 t)
    with assms(2) show ?thesis by (auto simp: entries_agree_def evolves_def ident_def)
  next
    case 2
    with assms(3) show ?thesis
      by (auto simp: arrives_def names_agree_def admitted_def new_tracked_def split: event.splits if_splits)
  qed
qed


lemma fenced_off_step:
  assumes ok: "coord_ok c" and agree: "entries_agree messageOf c" and names: "names_agree messageOf [e]"
    and fenced: "fenced_off chat ms c"
  shows "fenced_off chat ms (step c e)"
    and "deliveries (step c e) = deliveries c @ ws \<Longrightarrow> w \<in> set ws \<Longrightarrow> wk_chatId w = chat \<Longrightarrow> wk_messageId w \<notin> ms"
proof -
  have notin: "\<not> admits c x" if "entry_chat x = chat" "ie_messageId x \<in> ms" for x
    using fenced that by (auto simp: fenced_off_def admits_def)
  show "fenced_off chat ms (step c e)"
    unfolding fenced_off_def
  proof (intro conjI ballI)
    fix m assume "m \<in> ms"
    with fenced show "fenceSettled (step c e) chat m" by (auto simp: fenced_off_def step_fenceSettled)
  next
    fix t' assume "t' \<in> set (entries_of (step c e) chat)"
    moreover have "fresh_oids c" using ok by (simp add: coord_ok_def)
    ultimately consider t where "t \<in> set (entries_of c chat)" "evolves t t'" | "t' \<in> set (arrives c e chat)"
      using step_entries by blast
    then show "tr_messageId t' \<notin> ms"
    proof cases
      case (1 t)
      with fenced show ?thesis by (auto simp: fenced_off_def evolves_def ident_def)
    next
      case 2
      with notin show ?thesis
        by (auto simp: arrives_def admitted_def new_tracked_def split: event.splits if_splits)
    qed
  qed
  assume "deliveries (step c e) = deliveries c @ ws" "w \<in> set ws" and chat: "wk_chatId w = chat"
  then obtain x where x: "e = EvReceive x" "w = entry_work x" "admits c x \<or> releases c x"
    by (auto simp: step_deliveries split: event.splits if_splits)
  then have c: "entry_chat x = chat" and m: "wk_messageId w = ie_messageId x"
    using chat by (simp_all add: entry_work_def)
  from x(3) show "wk_messageId w \<notin> ms"
  proof
    assume "admits c x"
    with notin c m show ?thesis by auto
  next
    assume "releases c x"
    then obtain t where "findEntry c chat (ie_id x) = Some t" using c by (auto simp: releases_def)
    from findEntry_Some [OF this] have t: "t \<in> set (entries_of c chat)" "tr_entryId t = ie_id x" by auto
    with agree names x(1) have "tr_messageId t = ie_messageId x"
      by (simp add: entries_agree_def names_agree_def)
    with t(1) fenced m show ?thesis by (auto simp: fenced_off_def)
  qed
qed

lemma fenced_off_run:
  assumes "coord_ok c" and "entries_agree messageOf c" and "names_agree messageOf es" and "fenced_off chat ms c"
  shows "\<exists>ws. deliveries (run c es) = deliveries c @ ws \<and>
    (\<forall>w \<in> set ws. wk_chatId w = chat \<longrightarrow> wk_messageId w \<notin> ms)"
  using assms
proof (induction c es rule: run.induct)
  case (2 c e es)
  have names: "names_agree messageOf [e]" "names_agree messageOf es"
    using "2.prems"(3) by (auto simp: names_agree_def)
  obtain vs where vs: "deliveries (step c e) = deliveries c @ vs" by (simp add: step_deliveries)
  note here = fenced_off_step [OF "2.prems"(1,2) names(1) "2.prems"(4)]
  from "2.IH" [OF coord_ok_step [OF "2.prems"(1)] entries_agree_step [OF "2.prems"(1,2) names(1)] names(2) here(1)]
  obtain ws where "deliveries (run (step c e) es) = deliveries (step c e) @ ws"
    "\<forall>w \<in> set ws. wk_chatId w = chat \<longrightarrow> wk_messageId w \<notin> ms" by blast
  with vs here(2) [OF vs] show ?case by (intro exI [of _ "vs @ ws"]) auto
qed simp

lemma entries_agree_run:
  "coord_ok c \<Longrightarrow> entries_agree messageOf c \<Longrightarrow> names_agree messageOf es \<Longrightarrow> entries_agree messageOf (run c es)"
proof (induction c es rule: run.induct)
  case (2 c e es)
  then have "names_agree messageOf [e]" "names_agree messageOf es" by (auto simp: names_agree_def)
  with 2 show ?case by (simp add: coord_ok_step entries_agree_step)
qed simp

lemma entries_agree_new: "entries_agree messageOf (new_coord r n)"
  by (simp add: entries_agree_def entries_of_def the_ledger_def ledger_at_def new_coord_def)

lemma fenced_off_settled: "fenced_off chat (set ms) (settleReplayFencedEntries chat ms c)"
proof -
  have "fenceSettled (markFenceSettled chat ms d) chat m" if "m \<in> set ms" for m d
    using that by (simp add: fenceSettled_def markFenceSettled_def)
  moreover have "fenceSettled (settleReplayFencedEntries chat ms c) k m = fenceSettled (markFenceSettled chat ms c) k m" for k m
    by (simp add: settleReplayFencedEntries_def Let_def fld split: option.split)
  moreover have "tr_messageId t \<notin> set ms" if "t \<in> set (entries_of (settleReplayFencedEntries chat ms c) chat)" for t
  proof -
    have "ident t \<in> set (idents (settleReplayFencedEntries chat ms c) chat)" using that by (simp add: idents_def)
    then show ?thesis by (auto simp: ids ident_def)
  qed
  ultimately show ?thesis by (simp add: fenced_off_def)
qed

text \<open>
  C9. Once the replay fence of messages of a chat is settled, no later event, in any
  order, hands one of these messages of that chat to the dispatcher again: neither a redelivery, nor a
  recovery, nor the release of a withheld entry.
\<close>

theorem fence_is_final:
  assumes "names_agree messageOf (es @ fs)"
    and "c = run (new_coord r n) (es @ [EvSettleFenced chat ms])"
  shows "\<exists>ws. deliveries (run c fs) = deliveries c @ ws \<and>
    (\<forall>w \<in> set ws. wk_chatId w = chat \<longrightarrow> wk_messageId w \<notin> set ms)"
proof (rule fenced_off_run)
  have names: "names_agree messageOf es" "names_agree messageOf [EvSettleFenced chat ms]"
    using assms(1) by (auto simp: names_agree_def)
  show "coord_ok c" unfolding assms(2) by (rule reached_ok)
  show "entries_agree messageOf c"
    unfolding assms(2) by (rule entries_agree_run [OF coord_ok_new entries_agree_new]) (use names in \<open>auto simp: names_agree_def\<close>)
  show "names_agree messageOf fs" using assms(1) by (auto simp: names_agree_def)
  show "fenced_off chat (set ms) c" unfolding assms(2) by (simp add: run_append fenced_off_settled)
qed



section \<open>Recovery\<close>

fun settlements :: "coord \<Rightarrow> event list \<Rightarrow> string \<Rightarrow> nat" where
  "settlements c [] k = 0"
| "settlements c (e # es) k = (if settles_recovery c e k then 1 else 0) + settlements (step c e) es k"

lemma balance_run: "balance k (run c es) = balance k c + int (settlements c es k)"
  by (induction c es rule: run.induct) (simp_all add: step_balance)

text \<open>
  C12. Recoveries are single-flight per chat: over any run the number of
  \<open>recoverChat\<close> calls of a chat is the number of those that have settled, plus one exactly when one
  is in flight. A chat never has two in flight.
\<close>

theorem recovery_single_flight:
  "recoveries k (run (new_coord r n) es) =
     settlements (new_coord r n) es k + (if k \<in> set (co_recovering (run (new_coord r n) es)) then 1 else 0)"
proof -
  have "balance k (new_coord r n) = 0" by (simp add: balance_def recoveries_def new_coord_def)
  with balance_run [of k "new_coord r n" es] show ?thesis by (simp add: balance_def split: if_splits)
qed

definition of_chat :: "string \<Rightarrow> work \<Rightarrow> bool" where
  "of_chat k w = (wk_chatId w = k)"

lemma debt_silences:
  assumes "debt_of c k \<noteq> DebtNone"
  shows "filter (of_chat k) (deliveries (step c e)) = filter (of_chat k) (deliveries c)"
    and "filter (\<lambda>a. fst a = k) (acks_sent (step c e)) = filter (\<lambda>a. fst a = k) (acks_sent c)"
proof -
  have "entry_chat x \<noteq> k" if "admits c x \<or> releases c x" for x
    using that assms by (auto simp: admits_def releases_def debt_of_def)
  then show "filter (of_chat k) (deliveries (step c e)) = filter (of_chat k) (deliveries c)"
    by (auto simp: step_deliveries of_chat_def entry_work_def split: event.split)
  have "chat \<noteq> k" if "sendable c chat" for chat
    using that assms by (auto simp: sendable_def debt_of_def Let_def)
  then show "filter (\<lambda>a. fst a = k) (acks_sent (step c e)) = filter (\<lambda>a. fst a = k) (acks_sent c)"
    by (auto simp: step_acks_sent split: event.split)
qed

text \<open>
  C18. A chat in recovery debt is closed: from a state with a debt, over any run
  without an event that can clear it (the answer of a recovery or of an acknowledgement in flight, or
  a recovery after a bind), the debt stays, nothing of the chat is delivered and nothing of it is
  acknowledged. The dispatcher is told to recover first exactly when no activation is ready, and an
  activation is ready only if it was so already at the start, left over from an earlier recovery.
\<close>

theorem debt_blocks_the_chat:
  assumes "debt_of c k \<noteq> DebtNone" and "\<forall>e \<in> set es. k \<notin> clears e"
  shows "debt_of (run c es) k \<noteq> DebtNone \<and>
    filter (of_chat k) (deliveries (run c es)) = filter (of_chat k) (deliveries c) \<and>
    filter (\<lambda>a. fst a = k) (acks_sent (run c es)) = filter (\<lambda>a. fst a = k) (acks_sent c) \<and>
    shouldRecoverBeforeDispatch (run c es) k healthy risk = (\<not> ld_activationReady (the_ledger (run c es) k)) \<and>
    (ld_activationReady (the_ledger (run c es) k) \<longrightarrow> ld_activationReady (the_ledger c k))"
  using assms
proof (induction c es rule: run.induct)
  case (1 c)
  then show ?case by (cases "ld_debt (the_ledger c k)") (simp_all add: shouldRecoverBeforeDispatch_def debt_of_def Let_def)
next
  case (2 c e es)
  moreover have "ld_activationReady (the_ledger (step c e) k) \<longrightarrow> ld_activationReady (the_ledger c k)"
    using step_keeps_unready [of k e c] 2(3) by (simp add: ready_of_def)
  ultimately show ?case by (simp add: step_keeps_debt debt_silences)
qed

text \<open>
  C31. Dropping a ledger is not observable: after \<open>cleanupLedger\<close> every chat has
  the same tracked deliveries, debt, pending admissions, acknowledgement queue and flags as before
  (the open activation window apart), and the questions the session runtime asks about a chat have the
  same answers, except that an activation window left open closes when all that remains of the chat is
  an acknowledgement to reconcile.
\<close>

theorem cleanup_is_neutral:
  fixes chat k :: string
  assumes "c = run (new_coord r n) es"
  defines "d \<equiv> cleanupLedger chat c"
  shows "(the_ledger d k)\<lparr>ld_windowOpen := w\<rparr> = (the_ledger c k)\<lparr>ld_windowOpen := w\<rparr> \<and>
    (fst (takeRecoveryActivationReady k d) = fst (takeRecoveryActivationReady k c) \<or>
       ld_needsReconcile (the_ledger c k)) \<and>
    shouldRecoverBeforeDispatch d k healthy risk = shouldRecoverBeforeDispatch c k healthy risk \<and>
    hasUnsettledWork d k = hasUnsettledWork c k"
proof (cases "k = chat")
  case False
  then have "ledger_at d k = ledger_at c k" by (simp add: d_def iso)
  then show ?thesis
    by (simp add: the_ledger_def takeRecoveryActivationReady_def shouldRecoverBeforeDispatch_def
        hasUnsettledWork_def d_def fld split: option.split)
next
  case True
  have "queue_ok (the_ledger c chat)"
    using reached_ok [of r n es] assms(1) by (simp add: coord_ok_def queues_ok_def)
  then show ?thesis
    using True
    by (cases "ledger_at c chat")
       (auto simp: d_def the_ledger_def takeRecoveryActivationReady_def shouldRecoverBeforeDispatch_def
         hasUnsettledWork_def led fld disposable_def window_closed_def quiescent_def queue_ok_def new_ledger_def)
qed


section \<open>Two scenarios\<close>

lemma queue_cleanup: "ld_acks (the_ledger (cleanupLedger chat c) k) = ld_acks (the_ledger c k)"
  by (auto simp: the_ledger_def led disposable_def quiescent_def split: option.split)

lemma queue_frame:
  "ld_acks (the_ledger (upd_entries chat g c) k) = ld_acks (the_ledger c k)"
  "ld_acks (the_ledger (emit x c) k) = ld_acks (the_ledger c k)"
  "ld_acks (the_ledger (record_committed chat ts c) k) = ld_acks (the_ledger c k)"
  by (simp_all add: upd_entries_def view)

text \<open>The answer of a finished turn.\<close>

lemma finish_job_turn:
  assumes "ld_acks (the_ledger c chat) = job # rest" and "jb_cont job = KFinishTurn th"
  shows "TurnResult chat (Some th) (if ok then Settled else Retry) \<in> set (co_outs (finish_job chat ok c))"
  using assms by (simp add: finish_job_def Let_def run_cont_def fld)

lemma ack_ok_turn:
  assumes "ld_head (the_ledger c chat) = HeadSending" and "ld_acks (the_ledger c chat) = job # rest"
    and "jb_cont job = KFinishTurn th"
  shows "TurnResult chat (Some th) Settled \<in> set (co_outs (ack_ok chat c))"
proof -
  have "\<exists>d. ack_ok chat c = finish_job chat True d \<and> ld_acks (the_ledger d chat) = job # rest"
    using assms unfolding ack_ok_def Let_def
    by (simp split del: if_split)
       (rule exI, rule conjI, rule refl, simp add: queue_cleanup queue_frame queue_upd)
  then show ?thesis using finish_job_turn [of _ chat job rest th True] assms(3) by auto
qed

lemma ack_prefix_total: "th \<in> set (map tr_entryId ts) \<Longrightarrow> \<exists>p. ack_prefix th ts = Some p"
  by (induction ts) auto

lemma ack_prefix_subset: "ack_prefix th ts = Some p \<Longrightarrow> strict_sorted (map tr_entryId ts) \<Longrightarrow> t \<in> set p \<Longrightarrow>
    t \<in> set ts \<and> tr_entryId t \<le> th"
proof (induction ts arbitrary: p)
  case (Cons u ts)
  show ?case
  proof (cases "tr_entryId u = th")
    case True
    with Cons.prems show ?thesis by auto
  next
    case False
    with Cons.prems obtain q where q: "ack_prefix th ts = Some q" "p = u # q" by auto
    have "th \<in> tr_entryId ` set ts" using q(1)
      by (induction ts arbitrary: q) (auto split: if_splits)
    with Cons q show ?thesis by auto
  qed
qed simp


lemma markTerminal_entries:
  "entries_of (markTerminal chat msgs oc ev now c) chat =
     map (\<lambda>t. if tr_entryId t \<in> set (messageEntryIds chat msgs) then terminal_entry oc ev now t else t)
       (entries_of c chat)"
  by (auto simp: markTerminal_def touch_entries_def ids)

lemma markTerminal_ledger:
  "ld_acks (the_ledger (markTerminal chat msgs oc ev now c) k) = ld_acks (the_ledger c k)"
  "ld_head (the_ledger (markTerminal chat msgs oc ev now c) k) = ld_head (the_ledger c k)"
  "debt_of (markTerminal chat msgs oc ev now c) k = debt_of c k"
  "ledger_at (markTerminal chat msgs oc ev now c) k = None \<longleftrightarrow> ledger_at c k = None"
  by (simp_all add: markTerminal_def touch_entries_def upd_entries_def view debt_of_def led)

definition finish_job_of :: "int \<Rightarrow> ack_job" where
  "finish_job_of th = \<lparr>jb_through = th, jb_reason = ''finish_turn'', jb_requireTerminal = True,
     jb_recoverOnFail = True, jb_cont = KFinishTurn th\<rparr>"

lemma map_ident_filter:
  "map ident ts = map ident us \<Longrightarrow>
   map ident (filter (\<lambda>t. P (tr_entryId t)) ts) = map ident (filter (\<lambda>t. P (tr_entryId t)) us)"
proof (induction ts arbitrary: us)
  case (Cons t ts)
  then obtain u us' where "us = u # us'" by (cases us) auto
  with Cons show ?case by (auto simp: ident_def)
qed simp

text \<open>After \<open>finishTurn\<close> on an idle chat the only job of the queue can be sent.\<close>

lemma finishTurn_sendable:
  assumes ok: "coord_ok c" and idle: "ld_acks (the_ledger c chat) = []" "debt_of c chat = DebtNone"
    and last: "lastMessageEntryId chat msgs = Some th" "th \<in> set (entryIds c chat)"
    and covered: "\<forall>t \<in> set (entries_of c chat). tr_entryId t \<le> th \<longrightarrow>
       tr_phase t = PhTerminal \<or> tr_entryId t \<in> set (messageEntryIds chat msgs)"
  shows "ld_acks (the_ledger (finishTurn chat msgs oc now c) chat) = [finish_job_of th] \<and>
    sendable (finishTurn chat msgs oc now c) chat"
proof -
  let ?m = "markTerminal chat msgs oc None now c" and ?c1 = "finishTurn chat msgs oc now c"
  let ?f = "\<lambda>t. if tr_entryId t \<in> set (messageEntryIds chat msgs) then terminal_entry oc None now t else t"
  have some: "ledger_at c chat \<noteq> None"
    using last(2) by (auto simp: entryIds_def entries_of_def the_ledger_def split: option.splits)
  then have "ledger_at ?m chat \<noteq> None" by (simp only: markTerminal_ledger(4)) simp
  then obtain l where l: "ledger_at ?m chat = Some l" by blast
  have c1: "the_ledger ?c1 chat = (the_ledger ?m chat)\<lparr>ld_acks := [finish_job_of th]\<rparr>"
    using l markTerminal_ledger(1) [of chat msgs oc None now c chat] idle(1) last(1)
    by (simp add: finishTurn_def ackThrough_def view finish_job_of_def)
  have same: "map tr_entryId (map ?f (entries_of c chat)) = map tr_entryId (entries_of c chat)"
    by (simp add: terminal_entry_def)
  have "th \<in> set (map tr_entryId (map ?f (entries_of c chat)))" using last(2) same by (simp only: entryIds_def)
  then obtain pre where pre: "ack_prefix th (map ?f (entries_of c chat)) = Some pre"
    using ack_prefix_total by blast
  have "strict_sorted (map tr_entryId (map ?f (entries_of c chat)))"
    using ok same by (simp only: coord_ok_def ordered_def entryIds_def)
  from ack_prefix_subset [OF pre this] covered have "\<forall>t \<in> set pre. tr_phase t = PhTerminal"
    by (fastforce simp: terminal_entry_def)
  moreover have "ld_head (the_ledger c chat) = HeadIdle"
    using ok idle(1) by (simp add: coord_ok_def queues_ok_def queue_ok_def)
  moreover have "ld_entries (the_ledger ?m chat) = map ?f (entries_of c chat)"
    using markTerminal_entries [of chat msgs oc None now c] by (simp only: entries_of_def)
  moreover have "ld_debt (the_ledger ?m chat) = DebtNone"
    using idle(2) markTerminal_ledger(3) [of chat msgs oc None now c chat] by (simp only: debt_of_def)
  ultimately have "sendable ?c1 chat"
    using pre by (simp add: sendable_def c1 finish_job_of_def markTerminal_ledger)
  with c1 show ?thesis by simp
qed

lemma ack_start_sendable:
  assumes "sendable c chat" and "ld_acks (the_ledger c chat) = [job]"
  shows "ld_head (the_ledger (ack_start chat now c) chat) = HeadSending \<and>
    ld_acks (the_ledger (ack_start chat now c) chat) = [job]"
proof (cases rule: ack_start_cases [of c chat now])
  case (send j rest pre d)
  have acks: "ld_acks (the_ledger d chat) = [job]" using send assms(2) by (auto simp: mark_sent_def queue_frame)
  then have "ledger_at d chat \<noteq> None" by (auto simp: the_ledger_def split: option.splits)
  with send acks show ?thesis by (simp add: view queue_upd led)
qed (use assms in auto)

text \<open>
  C4. A finished turn settles. Take a chat without recovery debt and without a
  queued acknowledgement, whose tracked entries up to the last message of a finished turn are terminal
  or messages of the turn. Finishing the turn, letting the queue send and the server confirm makes the
  coordinator acknowledge that last entry, answer \<open>settled\<close>, and keep exactly the later deliveries.
\<close>

theorem finished_turn_settles:
  assumes c: "c = run (new_coord r n) es"
    and idle: "ld_acks (the_ledger c chat) = []" "debt_of c chat = DebtNone"
    and last: "lastMessageEntryId chat msgs = Some th" "th \<in> set (entryIds c chat)"
    and covered: "\<forall>t \<in> set (entries_of c chat). tr_entryId t \<le> th \<longrightarrow>
       tr_phase t = PhTerminal \<or> tr_entryId t \<in> set (messageEntryIds chat msgs)"
    and d: "d = run c [EvFinish chat msgs oc now, EvAckStart chat now', EvAckOk chat]"
  shows "acks_sent d = acks_sent c @ [(chat, th)] \<and>
    TurnResult chat (Some th) Settled \<in> set (co_outs d) \<and>
    map ident (entries_of d chat) = map ident (filter (\<lambda>t. tr_entryId t > th) (entries_of c chat))"
proof -
  let ?c1 = "finishTurn chat msgs oc now c"
  let ?c2 = "ack_start chat now' ?c1"
  have ok: "coord_ok c" unfolding c by (rule reached_ok)
  have d3: "d = ack_ok chat ?c2" by (simp add: d)
  note s1 = finishTurn_sendable [OF ok idle last covered, of oc now]
  note s2 = ack_start_sendable [OF conjunct2 [OF s1] conjunct1 [OF s1], of now']
  have "acks_sent d = acks_sent c @ [(chat, th)]"
    using s1 by (simp add: d3 outs finish_job_of_def)
  moreover have "TurnResult chat (Some th) Settled \<in> set (co_outs d)"
    unfolding d3 by (rule ack_ok_turn) (use s2 in \<open>auto simp: finish_job_of_def\<close>)
  moreover have "map ident (entries_of d chat) = map ident (filter (\<lambda>t. tr_entryId t > th) (entries_of c chat))"
  proof -
    have "map ident (entries_of ?c2 chat) = map ident (entries_of c chat)"
      using idents_ack_start [of chat now' ?c1 chat] idents_completion(1) [of chat msgs oc now c chat]
      by (simp add: idents_def)
    from map_ident_filter [OF this, of "\<lambda>i. i > th"] show ?thesis
      using s2 idents_ack_ok [of chat ?c2 chat] by (simp add: d3 idents_def finish_job_of_def)
  qed
  ultimately show ?thesis by blast
qed







section \<open>Witnesses\<close>

text \<open>Two messages of one chat; the turn of the first is started, finished, or retried.\<close>

definition demo_entry :: "int \<Rightarrow> string \<Rightarrow> inbox_entry" where
  "demo_entry i m = \<lparr>ie_id = i, ie_chatId = Some ''chat'', ie_messageId = m, ie_messageChatId = ''chat''\<rparr>"

definition demo_message :: "int \<Rightarrow> string \<Rightarrow> session_message" where
  "demo_message i m = \<lparr>m_inboxEntryId = Some i, m_id = m, m_chatId = ''chat'', m_senderId = ''human''\<rparr>"

definition demo_outcome :: turn_outcome where
  "demo_outcome = \<lparr>o_status = StatusSuccess, o_terminal = True, o_errorKind = None\<rparr>"

definition demo_arrivals :: "event list" where
  "demo_arrivals = [EvReceive (demo_entry 7 ''m7''), EvReceive (demo_entry 9 ''m9''),
     EvOwned (entry_work (demo_entry 7 ''m7'')), EvProcessing ''chat'' [demo_message 7 ''m7''] 10]"

definition demo_finish :: "event list" where
  "demo_finish = [EvFinish ''chat'' [demo_message 7 ''m7''] demo_outcome 20]"

definition demo_first :: "event list \<Rightarrow> tracked" where
  "demo_first es = hd (entries_of (run (new_coord True True) es) ''chat'')"

lemma demo_first_tracked:
  "demo_first demo_arrivals \<in> set (entries_of (run (new_coord True True) demo_arrivals) ''chat'')"
  "demo_first (demo_arrivals @ demo_finish)
     \<in> set (entries_of (run (new_coord True True) (demo_arrivals @ demo_finish)) ''chat'')"
  "tr_oid (demo_first (demo_arrivals @ demo_finish)) = tr_oid (demo_first demo_arrivals)"
  by code_simp+

theorem no_regress_witness:
  "tr_startedAt (demo_first (demo_arrivals @ demo_finish)) = tr_startedAt (demo_first demo_arrivals) \<and>
   rank (tr_phase (demo_first demo_arrivals)) = 1 \<and> rank (tr_phase (demo_first (demo_arrivals @ demo_finish))) = 2"
proof -
  have "tr_startedAt (demo_first demo_arrivals) \<noteq> None" by code_simp
  moreover have "rank (tr_phase (demo_first demo_arrivals)) = 1"
    "rank (tr_phase (demo_first (demo_arrivals @ demo_finish))) = 2" by code_simp+
  ultimately show ?thesis using no_regress [OF demo_first_tracked] by blast
qed

theorem ack_covers_handled_work_witness:
  "\<exists>th. acks_sent (run (new_coord True True) (demo_arrivals @ demo_finish @ [EvAckStart ''chat'' 21])) = [(''chat'', th)] \<and>
     th \<in> set (entryIds (run (new_coord True True) (demo_arrivals @ demo_finish)) ''chat'')"
proof -
  let ?c = "run (new_coord True True) (demo_arrivals @ demo_finish)"
  have no: "acks_sent ?c = []" and yes: "acks_sent (step ?c (EvAckStart ''chat'' 21)) \<noteq> acks_sent ?c"
    by code_simp+
  from ack_covers_handled_work [OF refl yes] no show ?thesis by (auto simp: run_append simp del: step.simps)
qed

theorem ack_commits_handled_work_witness:
  "tr_phase (demo_first (demo_arrivals @ demo_finish @ [EvAckStart ''chat'' 21])) = PhTerminal \<and>
   length (entries_of (run (new_coord True True) (demo_arrivals @ demo_finish @ [EvAckStart ''chat'' 21, EvAckOk ''chat''])) ''chat'') = 1"
proof -
  let ?es = "demo_arrivals @ demo_finish @ [EvAckStart ''chat'' 21]"
  have "in_order (new_coord True True) ?es"
    "demo_first ?es \<in> set (entries_of (run (new_coord True True) ?es) ''chat'')"
    "\<not> keeps (run (new_coord True True) ?es) (EvAckOk ''chat'') ''chat'' (demo_first ?es)"
    by code_simp+
  moreover have "length (entries_of (run (new_coord True True) (?es @ [EvAckOk ''chat''])) ''chat'') = 1" by code_simp
  ultimately show ?thesis using ack_commits_handled_work [OF refl] by simp
qed

theorem delivery_reasons_witness:
  "debt_of (run (new_coord True True) demo_arrivals) ''chat'' = DebtNone \<and>
   deliveries (step (run (new_coord True True) demo_arrivals) (EvReceive (demo_entry 11 ''m11''))) \<noteq>
     deliveries (run (new_coord True True) demo_arrivals)"
proof -
  let ?c = "run (new_coord True True) demo_arrivals" and ?x = "demo_entry 11 ''m11''"
  have d: "deliveries (step ?c (EvReceive ?x)) = deliveries ?c @ entry_work ?x # []" by code_simp
  from delivery_reasons [OF refl d] d show ?thesis by (simp add: entry_work_def demo_entry_def entry_chat_def del: step.simps run.simps)
qed

theorem fence_is_final_witness:
  "\<exists>ws. deliveries (run (run (new_coord True True) (demo_arrivals @ [EvSettleFenced ''chat'' [''m9'']]))
          [EvReceive (demo_entry 9 ''m9''), EvReceive (demo_entry 12 ''m12'')]) =
        [entry_work (demo_entry 7 ''m7''), entry_work (demo_entry 9 ''m9'')] @ ws \<and>
     (\<forall>w \<in> set ws. wk_messageId w \<noteq> ''m9'')"
proof -
  let ?fs = "[EvReceive (demo_entry 9 ''m9''), EvReceive (demo_entry 12 ''m12'')]"
  let ?c = "run (new_coord True True) (demo_arrivals @ [EvSettleFenced ''chat'' [''m9'']])"
  have "names_agree (\<lambda>i. if i = 7 then ''m7'' else if i = 9 then ''m9'' else ''m12'') (demo_arrivals @ ?fs)"
    by (simp add: names_agree_def demo_arrivals_def demo_entry_def)
  from fence_is_final [OF this refl, where r = True and n = True and chat = "''chat''" and ms = "[''m9'']"]
  obtain ws where ws: "deliveries (run ?c ?fs) = deliveries ?c @ ws"
    "\<forall>w \<in> set ws. wk_chatId w = ''chat'' \<longrightarrow> wk_messageId w \<noteq> ''m9''" by (auto simp del: run.simps step.simps)
  have now: "deliveries ?c = [entry_work (demo_entry 7 ''m7''), entry_work (demo_entry 9 ''m9'')]" by code_simp
  have "list_all (\<lambda>w. wk_chatId w = ''chat'') (deliveries (run ?c ?fs))" by code_simp
  then have "\<forall>w \<in> set ws. wk_chatId w = ''chat''" unfolding ws(1) list_all_iff by simp
  with ws(2) have "\<forall>w \<in> set ws. wk_messageId w \<noteq> ''m9''" by blast
  with ws(1) show ?thesis unfolding now by blast
qed

theorem debt_blocks_the_chat_witness:
  "debt_of (run (run (new_coord True True) (demo_arrivals @ [EvRetry ''chat'' [demo_message 7 ''m7'']]))
      [EvReceive (demo_entry 12 ''m12''), EvFinish ''chat'' [demo_message 7 ''m7''] demo_outcome 20,
       EvAckStart ''chat'' 21]) ''chat'' \<noteq> DebtNone"
proof -
  have "debt_of (run (new_coord True True) (demo_arrivals @ [EvRetry ''chat'' [demo_message 7 ''m7'']])) ''chat'' \<noteq> DebtNone"
    by code_simp
  from debt_blocks_the_chat [OF this, of "[EvReceive (demo_entry 12 ''m12''),
      EvFinish ''chat'' [demo_message 7 ''m7''] demo_outcome 20, EvAckStart ''chat'' 21]"]
  show ?thesis by (simp del: run.simps step.simps)
qed

theorem cleanup_is_neutral_witness:
  "hasUnsettledWork (cleanupLedger ''chat'' (run (new_coord True True) demo_arrivals)) ''chat'' \<and>
   hasUnsettledWork (run (new_coord True True) demo_arrivals) ''chat''"
proof -
  have "hasUnsettledWork (run (new_coord True True) demo_arrivals) ''chat''" by code_simp
  with cleanup_is_neutral [OF refl, where r = True and n = True and es = demo_arrivals and chat = "''chat''" and k = "''chat''"] show ?thesis by (simp del: run.simps step.simps)
qed

theorem finished_turn_settles_witness:
  "acks_sent (run (run (new_coord True True) demo_arrivals)
      [EvFinish ''chat'' [demo_message 7 ''m7''] demo_outcome 20, EvAckStart ''chat'' 21, EvAckOk ''chat'']) = [(''chat'', 7)]"
proof -
  let ?c = "run (new_coord True True) demo_arrivals"
  have h: "ld_acks (the_ledger ?c ''chat'') = []" "debt_of ?c ''chat'' = DebtNone"
    "lastMessageEntryId ''chat'' [demo_message 7 ''m7''] = Some 7" "7 \<in> set (entryIds ?c ''chat'')"
    "\<forall>t \<in> set (entries_of ?c ''chat''). tr_entryId t \<le> 7 \<longrightarrow>
       tr_phase t = PhTerminal \<or> tr_entryId t \<in> set (messageEntryIds ''chat'' [demo_message 7 ''m7''])"
    by code_simp+
  have "acks_sent ?c = []" by code_simp
  with finished_turn_settles [OF refl h refl, of demo_outcome 20 21] show ?thesis by (simp del: run.simps step.simps)
qed


end
