(* ===== verification/RegExp.thy ===== *)
theory RegExp
  imports JsBase
begin

text \<open>
  The part of the JavaScript regular expressions that the classifiers of the runtime use with
  \<open>test\<close>: literals, \<open>.?\<close>, \<open>.*\<close>, \<open>\s+\<close>, \<open>\b\<close> and an alternation of literals, concatenated
  and searched for anywhere in the text. An alternation of plain literals needs no engine and is
  \<open>contains_any\<close>. The matcher backtracks over the pattern list; its flag tells whether the character
  before the current position is a word character, which \<open>\b\<close> reads.
  The case insensitive flag is modelled at the call sites, by lowering the text.
\<close>

datatype pat =
    Lit string
  | AnyOpt
  | AnyStar
  | SpacePlus
  | WordB
  | OneOf "string list"

definition is_word_char :: "char \<Rightarrow> bool" where
  "is_word_char c =
     (let n = of_char c :: nat
      in 48 \<le> n \<and> n \<le> 57 \<or> 65 \<le> n \<and> n \<le> 90 \<or> 97 \<le> n \<and> n \<le> 122 \<or> n = 95)"

definition is_line_end :: "char \<Rightarrow> bool" where
  "is_line_end c = (c = CHR 0x0A \<or> c = CHR 0x0D)"

definition next_is_word :: "string \<Rightarrow> bool" where
  "next_is_word s = (case s of [] \<Rightarrow> False | c # _ \<Rightarrow> is_word_char c)"

fun pat_cost :: "pat \<Rightarrow> nat" where
  "pat_cost (Lit s) = Suc (length s)"
| "pat_cost (OneOf ls) = 2 + sum_list (map length ls)"
| "pat_cost _ = 3"

lemma length_le_sum_list: "l \<in> set ls \<Longrightarrow> length l \<le> sum_list (map length ls)"
  by (induction ls) auto

function (sequential) match_here :: "pat list \<Rightarrow> bool \<Rightarrow> string \<Rightarrow> bool" where
  "match_here [] w s = True"
| "match_here (Lit [] # ps) w s = match_here ps w s"
| "match_here (Lit (l # ls) # ps) w [] = False"
| "match_here (Lit (l # ls) # ps) w (c # s) =
     (l = c \<and> match_here (Lit ls # ps) (is_word_char c) s)"
| "match_here (AnyOpt # ps) w [] = match_here ps w []"
| "match_here (AnyOpt # ps) w (c # s) =
     (match_here ps w (c # s) \<or> \<not> is_line_end c \<and> match_here ps (is_word_char c) s)"
| "match_here (AnyStar # ps) w [] = match_here ps w []"
| "match_here (AnyStar # ps) w (c # s) =
     (match_here ps w (c # s) \<or> \<not> is_line_end c \<and> match_here (AnyStar # ps) (is_word_char c) s)"
| "match_here (SpacePlus # ps) w [] = False"
| "match_here (SpacePlus # ps) w (c # s) =
     (is_space c \<and> (match_here ps (is_word_char c) s \<or> match_here (SpacePlus # ps) (is_word_char c) s))"
| "match_here (WordB # ps) w s = (w \<noteq> next_is_word s \<and> match_here ps w s)"
| "match_here (OneOf ls # ps) w s = list_ex (\<lambda>l. match_here (Lit l # ps) w s) ls"
  by pat_completeness auto
termination
  by (relation "measures [\<lambda>(ps, w, s). length s, \<lambda>(ps, w, s). sum_list (map pat_cost ps)]")
     (auto dest: length_le_sum_list)

fun search_from :: "pat list \<Rightarrow> bool \<Rightarrow> string \<Rightarrow> bool" where
  "search_from ps w [] = match_here ps w []"
| "search_from ps w (c # s) = (match_here ps w (c # s) \<or> search_from ps (is_word_char c) s)"

definition rx_test :: "pat list \<Rightarrow> string \<Rightarrow> bool" where
  "rx_test ps s = search_from ps False s"

lemma match_here_Lit: "match_here [Lit l] w s = starts_with l s"
  by (induction l s arbitrary: w rule: starts_with.induct) auto

lemma match_here_Lit_append:
  "match_here (Lit l # ps) w s \<longleftrightarrow>
     starts_with l s \<and> match_here ps (if l = [] then w else is_word_char (last l)) (drop (length l) s)"
  by (induction l s arbitrary: w rule: starts_with.induct) auto

lemma search_from_Lit: "search_from [Lit l] w s = contains l s"
  by (induction s arbitrary: w) (cases l; simp add: match_here_Lit)+

text \<open>A literal pattern is a substring test.\<close>

lemma rx_test_Lit: "rx_test [Lit l] s = contains l s"
  by (simp add: rx_test_def search_from_Lit)

text \<open>
  \<open>replace(/(?:a|b)\b/g, "")\<close> for literals that end in a word character: at each position the first
  literal that matches and is followed by no word character is removed.
\<close>

definition lit_then_boundary :: "string list \<Rightarrow> string \<Rightarrow> string option" where
  "lit_then_boundary ls s =
     (case filter (\<lambda>l. l \<noteq> [] \<and> starts_with l s \<and> \<not> next_is_word (drop (length l) s)) ls of
        [] \<Rightarrow> None
      | l # _ \<Rightarrow> Some l)"

lemma lit_then_boundary_Some:
  assumes "lit_then_boundary ls s = Some l"
  shows "l \<in> set ls \<and> l \<noteq> [] \<and> starts_with l s"
proof -
  from assms have "l \<in> set (filter (\<lambda>l. l \<noteq> [] \<and> starts_with l s \<and> \<not> next_is_word (drop (length l) s)) ls)"
    unfolding lit_then_boundary_def
    by (cases "filter (\<lambda>l. l \<noteq> [] \<and> starts_with l s \<and> \<not> next_is_word (drop (length l) s)) ls") auto
  then show ?thesis by auto
qed

function delete_all :: "string list \<Rightarrow> string \<Rightarrow> string" where
  "delete_all ls s =
     (case s of
        [] \<Rightarrow> []
      | c # cs \<Rightarrow>
          (case lit_then_boundary ls s of
             Some l \<Rightarrow> delete_all ls (drop (length l) s)
           | None \<Rightarrow> c # delete_all ls cs))"
  by pat_completeness auto
termination
  by (relation "measure (\<lambda>(ls, s). length s)") (auto dest: lit_then_boundary_Some)

declare delete_all.simps [simp del]

lemma delete_all_length: "length (delete_all ls s) \<le> length s"
proof (induction ls s rule: delete_all.induct)
  case (1 ls s)
  show ?case
  proof (cases s)
    case Nil
    then show ?thesis by (simp add: delete_all.simps)
  next
    case (Cons c cs)
    show ?thesis
    proof (cases "lit_then_boundary ls s")
      case None
      with 1 Cons show ?thesis by (simp add: delete_all.simps [of ls "c # cs"])
    next
      case (Some l)
      with 1 Cons have "length (delete_all ls (drop (length l) s)) \<le> length (drop (length l) s)" by simp
      with Some Cons show ?thesis by (simp add: delete_all.simps [of ls "c # cs"])
    qed
  qed
qed

end
