(* ===== verification/ErrorTaxonomy.thy ===== *)
theory ErrorTaxonomy
  imports Complex_Main RegExp RuntimeTypes
begin

text \<open>
  \<open>runtime/error-taxonomy.ts\<close> and the provider binary seam
  \<open>runtime/provider-support/binary-failure.ts\<close> it consumes: what kind of failure a thrown value is.

  A thrown value is an \<open>Error\<close>, a string, another object or another primitive. A field the code
  reads only under a \<open>typeof\<close> test is an option that is \<open>None\<close> when the test fails. Two
  results of the JavaScript library are carried as data: the JSON text of a non-Error object and
  \<open>String(x)\<close> of a primitive or object.
\<close>

section \<open>Thrown values\<close>

datatype err_code = CodeStr string | CodeNum int

text \<open>A JavaScript number that may be infinite or not a number.\<close>

datatype js_num = Finite rat | NotFinite

text \<open>A string valued \<open>retryAfter\<close> carries what \<open>Number\<close> and \<open>Date.parse\<close> make of it.\<close>

datatype retry_after = AfterNum js_num | AfterStr "rat option" "int option"

datatype error_class = PlainError | ManagedSkillsUnsafeDiscovery | ManagedSkillsState string

record err_fields =
  e_name :: "string option"
  e_message :: "string option"
  e_code :: "err_code option"
  e_status :: "int option"
  e_statusCode :: "int option"
  e_reason :: "string option"
  e_retryAfterMs :: "js_num option"
  e_retryAfter :: "retry_after option"
  e_stack :: "string option"

datatype thrown =
    ThrownError error_class err_fields "thrown option"
  | ThrownString string
  | ThrownObject err_fields string string "thrown option"
  | ThrownOther string

text \<open>
  \<open>ThrownObject f json str cause\<close>: the fields, \<open>JSON.stringify(err)\<close>, \<open>String(err)\<close> and the
  cause. An \<open>Error\<close> always has a name and a message.
\<close>

definition no_fields :: err_fields where
  "no_fields = \<lparr>e_name = None, e_message = None, e_code = None, e_status = None, e_statusCode = None,
     e_reason = None, e_retryAfterMs = None, e_retryAfter = None, e_stack = None\<rparr>"

definition or_empty :: "string option \<Rightarrow> string" where
  "or_empty x = (case x of None \<Rightarrow> [] | Some s \<Rightarrow> s)"

definition or_else :: "'a option \<Rightarrow> 'a \<Rightarrow> 'a" where
  "or_else x d = (case x of None \<Rightarrow> d | Some v \<Rightarrow> v)"

fun code_str :: "err_code \<Rightarrow> string" where
  "code_str (CodeStr s) = s"
| "code_str (CodeNum n) = int_str n"

definition code_text :: "err_code option \<Rightarrow> string" where
  "code_text c = (case c of None \<Rightarrow> [] | Some x \<Rightarrow> code_str x)"

fun readErrorShape :: "thrown \<Rightarrow> err_fields" where
  "readErrorShape (ThrownError cls f cause) = f"
| "readErrorShape (ThrownString s) = no_fields\<lparr>e_message := Some s\<rparr>"
| "readErrorShape (ThrownObject f json str cause) =
     f\<lparr>e_message := Some (or_else (e_message f) json)\<rparr>"
| "readErrorShape (ThrownOther s) = no_fields\<lparr>e_message := Some s\<rparr>"

definition shape_status :: "err_fields \<Rightarrow> int option" where
  "shape_status f = (case e_status f of Some n \<Rightarrow> Some n | None \<Rightarrow> e_statusCode f)"

definition message_text :: "err_fields \<Rightarrow> string" where
  "message_text f = or_empty (e_message f)"


section \<open>Provider binary failures\<close>

datatype binary_outcome = VerifyTransient | BinaryUnusable | BinaryMissing

record binary_signal =
  bs_outcome :: binary_outcome
  bs_reasonCode :: string
  bs_defaultMessage :: string

definition verifyTransientByName :: "(string \<times> string \<times> string) list" where
  "verifyTransientByName =
     [(''CodexBinaryVerifyTransientError'', ''codex_verify_transient'',
       ''codex --version smoke check did not complete (transient)''),
      (''CursorBinaryVerifyTransientError'', ''cursor_verify_transient'',
       ''cursor-agent --version smoke check did not complete (transient)''),
      (''GrokBinaryVerifyTransientError'', ''grok_verify_transient'',
       ''grok --version smoke check did not complete (transient)''),
      (''PiBinaryVerifyTransientError'', ''pi_verify_transient'',
       ''pi --version smoke check did not complete (transient)'')]"

fun errorText :: "thrown \<Rightarrow> string" where
  "errorText (ThrownError cls f cause) = message_text f"
| "errorText (ThrownString s) = s"
| "errorText (ThrownObject f json str cause) = or_else (e_message f) str"
| "errorText (ThrownOther s) = s"

text \<open>\<open>[message, stack].filter(Boolean).join("\n")\<close>: empty parts are dropped.\<close>

fun codexErrorSearchText :: "thrown \<Rightarrow> string" where
  "codexErrorSearchText (ThrownError cls f cause) =
     (let m = message_text f; st = or_empty (e_stack f)
      in if m = [] then st else if st = [] then m else m @ [CHR 0x0A] @ st)"
| "codexErrorSearchText t = errorText t"

fun namedErrorSearchText :: "thrown \<Rightarrow> string" where
  "namedErrorSearchText (ThrownError cls f cause) = or_empty (e_name f) @ '' '' @ message_text f"
| "namedErrorSearchText t = errorText t"

definition isCodexBinaryMissingError :: "thrown \<Rightarrow> bool" where
  "isCodexBinaryMissingError err =
     (let text = codexErrorSearchText err
      in contains ''codex runtime binary is missing'' (lower text) \<or>
         contains ''unable to locate codex cli binaries'' (lower text) \<or>
         contains ''findCodexPath'' text \<or>
         rx_test [Lit ''missing optional dependency'', SpacePlus, Lit ''@openai/codex''] (lower text))"

definition isCursorBinaryMissingError :: "thrown \<Rightarrow> bool" where
  "isCursorBinaryMissingError err =
     (let text = lower (namedErrorSearchText err)
      in contains ''cursor agent cli is missing'' text \<or>
         rx_test [Lit ''cursor-agent'', AnyStar, Lit ''not '', OneOf [''found'', ''installed'']] text)"

definition isGrokBinaryMissingError :: "thrown \<Rightarrow> bool" where
  "isGrokBinaryMissingError err =
     (let text = lower (namedErrorSearchText err)
      in contains ''grok build cli is missing'' text \<or>
         rx_test [Lit ''grok'', AnyStar, Lit ''not '', OneOf [''found'', ''installed'']] text)"

definition isAntigravityBinaryMissingError :: "thrown \<Rightarrow> bool" where
  "isAntigravityBinaryMissingError err =
     (let text = lower (namedErrorSearchText err)
      in contains ''antigravity cli is missing'' text \<or>
         rx_test [Lit ''agy'', AnyStar, Lit ''not '', OneOf [''found'', ''installed'']] text \<or>
         contains ''no agy binary'' text)"

text \<open>\<open>piErrorText\<close> reads the same text as \<open>namedErrorSearchText\<close>.\<close>

definition isPiBinaryMissingError :: "thrown \<Rightarrow> bool" where
  "isPiBinaryMissingError err =
     (let text = lower (namedErrorSearchText err)
      in if contains ''pi cli is missing'' text then True
         else if contains ''no pi binary'' text then True
         else (case index_of ''pi'' text of
                 None \<Rightarrow> False
               | Some i \<Rightarrow>
                   (let afterPi = drop (i + 2) text
                    in contains ''not found'' afterPi \<or> contains ''not installed'' afterPi)))"

definition piProviderDetailBinaryMissing :: "string \<Rightarrow> string option" where
  "piProviderDetailBinaryMissing detail =
     (if isPiBinaryMissingError (ThrownString detail) then Some ''pi_binary_missing''
      else let low = lower (trim detail)
           in if low = [] then None
              else if contains ''not found'' low \<or> contains ''not installed'' low
                   then Some ''pi_binary_missing'' else None)"

fun readErrorName :: "thrown \<Rightarrow> string option" where
  "readErrorName (ThrownError cls f cause) = e_name f"
| "readErrorName (ThrownObject f json str cause) = e_name f"
| "readErrorName _ = None"

definition verifyTransientSignal :: "thrown \<Rightarrow> string \<Rightarrow> binary_signal option" where
  "verifyTransientSignal err errorName =
     (if readErrorName err \<noteq> Some errorName then None
      else map_option (\<lambda>(code, msg).
             \<lparr>bs_outcome = VerifyTransient, bs_reasonCode = code, bs_defaultMessage = msg\<rparr>)
             (map_of verifyTransientByName errorName))"

definition codexUnusableSignal :: "thrown \<Rightarrow> binary_signal option" where
  "codexUnusableSignal err =
     (if readErrorName err \<noteq> Some ''CodexBinaryUnusableError'' \<and>
         \<not> contains ''codex runtime binary candidates are installed but unusable''
             (lower (codexErrorSearchText err))
      then None
      else Some \<lparr>bs_outcome = BinaryUnusable, bs_reasonCode = ''codex_binary_unusable'',
                 bs_defaultMessage = ''Codex runtime binary candidates are unusable''\<rparr>)"

definition missingSignal :: "(thrown \<Rightarrow> bool) \<Rightarrow> string \<Rightarrow> string \<Rightarrow> thrown \<Rightarrow> binary_signal option" where
  "missingSignal matches code msg err =
     (if \<not> matches err then None
      else Some \<lparr>bs_outcome = BinaryMissing, bs_reasonCode = code, bs_defaultMessage = msg\<rparr>)"

definition coalesce :: "'a option list \<Rightarrow> 'a option" where
  "coalesce xs = (case filter (\<lambda>x. x \<noteq> None) xs of [] \<Rightarrow> None | x # _ \<Rightarrow> x)"

definition recognizeDirectProviderBinaryFailure :: "thrown \<Rightarrow> binary_signal option" where
  "recognizeDirectProviderBinaryFailure err = coalesce
     [verifyTransientSignal err ''CodexBinaryVerifyTransientError'',
      codexUnusableSignal err,
      missingSignal isCodexBinaryMissingError ''codex_binary_missing'' ''Codex runtime binary missing'' err,
      verifyTransientSignal err ''CursorBinaryVerifyTransientError'',
      missingSignal isCursorBinaryMissingError ''cursor_binary_missing''
        ''Cursor Agent CLI binary missing'' err,
      verifyTransientSignal err ''GrokBinaryVerifyTransientError'',
      missingSignal isGrokBinaryMissingError ''grok_binary_missing''
        ''Grok Build CLI binary missing'' err,
      missingSignal isAntigravityBinaryMissingError ''antigravity_binary_missing''
        ''Antigravity CLI binary missing'' err,
      verifyTransientSignal err ''PiBinaryVerifyTransientError'',
      missingSignal isPiBinaryMissingError ''pi_binary_missing'' ''Pi CLI binary missing'' err]"

fun readErrorCause :: "thrown \<Rightarrow> thrown option" where
  "readErrorCause (ThrownError cls f cause) = cause"
| "readErrorCause (ThrownObject f json str cause) = cause"
| "readErrorCause _ = None"

text \<open>
  The cause chain is walked at most eight links deep. A value of the datatype has no cycles, so the
  \<open>seen\<close> set of the source, which stops at a repeated object, never stops a walk here; the
  bound of eight is what the source relies on for every other chain.
\<close>

fun recognize_from :: "nat \<Rightarrow> thrown option \<Rightarrow> binary_signal option" where
  "recognize_from 0 current = None"
| "recognize_from (Suc n) None = None"
| "recognize_from (Suc n) (Some err) =
     (case recognizeDirectProviderBinaryFailure err of
        Some s \<Rightarrow> Some s
      | None \<Rightarrow> recognize_from n (readErrorCause err))"

definition recognizeProviderBinaryFailure :: "thrown \<Rightarrow> binary_signal option" where
  "recognizeProviderBinaryFailure err = recognize_from 8 (Some err)"


section \<open>Classification\<close>

datatype error_kind = Transient | Degraded | Permanent

datatype error_source = SrcSession | SrcAuth | SrcBind | SrcUpdate | SrcStream | SrcConfig

datatype retry_strategy = ExponentialBackoff int int bool | NoRetry

record classification =
  c_kind :: error_kind
  c_strategy :: retry_strategy
  c_reasonCode :: string
  c_message :: string

definition TRANSIENT_FAST :: retry_strategy where
  "TRANSIENT_FAST = ExponentialBackoff 1000 300000 True"

definition TRANSIENT_BIND :: retry_strategy where
  "TRANSIENT_BIND = ExponentialBackoff 2000 300000 True"

definition TRANSIENT_NPM :: retry_strategy where
  "TRANSIENT_NPM = ExponentialBackoff 10000 600000 True"

definition UNKNOWN_FALLBACK :: retry_strategy where
  "UNKNOWN_FALLBACK = ExponentialBackoff 5000 60000 True"

text \<open>
  The delay before an attempt. \<open>r\<close> is the value \<open>Math.random()\<close> returns. Doubling an integer below
  \<open>2^53\<close> is exact in the source's numbers, and past their range it is infinite, which the
  minimum with the cap hides as it hides the exact value here.
\<close>

definition nextRetryDelayMs :: "rat \<Rightarrow> retry_strategy \<Rightarrow> int \<Rightarrow> int" where
  "nextRetryDelayMs r strategy attempt =
     (case strategy of
        NoRetry \<Rightarrow> 0
      | ExponentialBackoff baseMs capMs jitter \<Rightarrow>
          (let safeAttempt = max 1 attempt;
               raw = baseMs * 2 ^ nat (safeAttempt - 1);
               bounded = min raw capMs
           in if \<not> jitter then bounded
              else let factor = 1 + 1 / 5 * (r * 2 - 1)
                   in max 0 \<lfloor>of_int bounded * factor + 1 / 2\<rfloor>))"

definition clampRetryAttempt :: "int \<Rightarrow> int" where
  "clampRetryAttempt attempt = min (max 1 attempt) 30"

definition networkCodes :: "string list" where
  "networkCodes = [''ECONNRESET'', ''ETIMEDOUT'', ''ENOTFOUND'', ''EAI_AGAIN'', ''ECONNREFUSED'',
     ''EHOSTUNREACH'', ''ENETUNREACH'']"

definition networkMessages :: "string list" where
  "networkMessages = [''econnreset'', ''etimedout'', ''enotfound'', ''eai_again'', ''econnrefused'',
     ''fetch failed'', ''socket hang up'']"

definition isNetworkErrorShape :: "err_fields \<Rightarrow> bool" where
  "isNetworkErrorShape f =
     (contains_any networkCodes (code_text (e_code f)) \<or>
      contains_any networkMessages (lower (message_text f)))"

definition classified :: "error_kind \<Rightarrow> retry_strategy \<Rightarrow> string \<Rightarrow> err_fields \<Rightarrow> string \<Rightarrow> classification" where
  "classified kind strategy code f fallback =
     \<lparr>c_kind = kind, c_strategy = strategy, c_reasonCode = code,
      c_message = or_else (e_message f) fallback\<rparr>"

definition classifyBindReason :: "string \<Rightarrow> classification" where
  "classifyBindReason reason =
     (if reason \<in> {''wrong_client'', ''not_owned''} then
        \<lparr>c_kind = Transient, c_strategy = TRANSIENT_BIND, c_reasonCode = ''bind_'' @ reason,
         c_message = ''bind rejected: '' @ reason\<rparr>
      else if reason \<in> {''agent_suspended'', ''wrong_org'', ''unknown_agent'', ''runtime_provider_mismatch''} then
        \<lparr>c_kind = Degraded, c_strategy = NoRetry, c_reasonCode = ''bind_'' @ reason,
         c_message = ''bind rejected: '' @ reason\<rparr>
      else
        \<lparr>c_kind = Transient, c_strategy = TRANSIENT_BIND, c_reasonCode = ''bind_unknown'',
         c_message = ''bind rejected: '' @ (if reason = [] then ''unknown'' else reason)\<rparr>)"

definition rateLimitPat :: "pat list" where
  "rateLimitPat = [Lit ''rate'', AnyOpt, Lit ''limit'']"

definition classifyAuth :: "err_fields \<Rightarrow> classification option" where
  "classifyAuth f =
     (let msg = lower (message_text f) in
      if e_name f = Some ''AuthRefreshFailedError'' \<or> contains_any [''auth_rejected'', ''auth:rejected''] msg
      then Some (classified Permanent NoRetry ''auth_rejected'' f ''Auth rejected by server'')
      else if e_name f = Some ''AuthRefreshRateLimitedError'' \<or> rx_test rateLimitPat msg
      then Some (classified Transient TRANSIENT_FAST ''auth_rate_limited'' f ''Auth refresh rate limited'')
      else if contains ''expired'' msg \<or> e_name f = Some ''AuthExpiredError''
      then Some (classified Transient TRANSIENT_FAST ''auth_expired'' f ''Auth token expired'')
      else if isNetworkErrorShape f
      then Some (classified Transient TRANSIENT_FAST ''auth_network_error'' f ''Auth network error'')
      else None)"

definition classifyUpdate :: "err_fields \<Rightarrow> classification" where
  "classifyUpdate f =
     (let codeText = lower (code_text (e_code f)); text = lower (message_text f) in
      if contains ''ebadengine'' codeText \<or> contains ''ebadengine'' text
      then classified Permanent NoRetry ''npm_ebadengine'' f ''Node engine mismatch''
      else if contains_any [''eacces'', ''eperm''] codeText \<or> contains ''permission denied'' text
      then classified Permanent NoRetry ''npm_permission_denied'' f ''npm install permission denied''
      else if contains_any [''e404'', ''404 not found'', ''notarget''] text \<or>
              contains_any [''e404'', ''enoversions'', ''notarget''] codeText
      then classified Permanent NoRetry ''npm_version_not_found'' f ''npm package version not found''
      else if isNetworkErrorShape f \<or>
              contains_any [''etimedout'', ''enotfound'', ''econnreset'', ''network''] (codeText @ '' '' @ text)
      then classified Transient TRANSIENT_NPM ''npm_network_error'' f ''npm install network error''
      else classified Transient TRANSIENT_NPM ''npm_unknown'' f ''npm install failed'')"

definition classifyConfig :: "err_fields \<Rightarrow> classification option" where
  "classifyConfig f =
     (case shape_status f of
        None \<Rightarrow> None
      | Some status \<Rightarrow>
          (if 400 \<le> status \<and> status < 500 \<and> status \<noteq> 408 \<and> status \<noteq> 429
           then Some (classified Permanent NoRetry
                  (if status = 401 \<or> status = 403 then ''config_unauthorized'' else ''config_rejected'')
                  f (''Agent config request rejected ('' @ int_str status @ '')''))
           else None))"

definition classifyByClass :: "err_fields \<Rightarrow> classification option" where
  "classifyByClass f =
     (if e_name f \<in> {Some ''ClientUserMismatchError'', Some ''ClientOrgMismatchError'', Some ''ClientRetiredError''}
      then Some (classified Permanent NoRetry ''client_identity_mismatch'' f ''Client identity mismatch'')
      else if e_name f = Some ''AuthRefreshFailedError''
      then Some (classified Permanent NoRetry ''auth_refresh_failed'' f ''Refresh token rejected'')
      else if e_name f = Some ''ClaudeTuiLoginRequiredError''
      then Some (classified Permanent NoRetry ''claude_login_required'' f
             ''Claude Code CLI requires re-authentication (run /login)'')
      else None)"

definition classifyBinary :: "thrown \<Rightarrow> err_fields \<Rightarrow> classification option" where
  "classifyBinary err f =
     (case recognizeProviderBinaryFailure err of
        None \<Rightarrow> None
      | Some s \<Rightarrow>
          (if bs_outcome s = VerifyTransient
           then Some (classified Transient TRANSIENT_FAST (bs_reasonCode s) f (bs_defaultMessage s))
           else Some (classified Permanent NoRetry (bs_reasonCode s) f (bs_defaultMessage s))))"

definition classifyTail :: "error_source option \<Rightarrow> err_fields \<Rightarrow> classification" where
  "classifyTail source f =
     (let msg = lower (message_text f); name = lower (or_empty (e_name f)) in
      if e_name f = Some ''TimeoutError'' \<or> contains ''operation was aborted due to timeout'' msg
      then classified Transient TRANSIENT_FAST ''operation_timeout'' f ''Operation aborted due to timeout''
      else if e_name f = Some ''RateLimitError'' \<or> shape_status f = Some 429 \<or> rx_test rateLimitPat msg
      then classified Transient TRANSIENT_FAST ''claude_rate_limit'' f ''Claude API rate limit''
      else if e_name f = Some ''InternalServerError'' \<or> or_else (shape_status f) 0 \<ge> 500 \<or>
              contains_any [''overloaded'', ''server error''] msg
      then classified Transient TRANSIENT_FAST ''claude_server_error'' f ''Claude API server error''
      else if contains ''socket connection was closed'' msg \<or> contains ''apiconnection'' name \<or>
              contains ''fetch failed'' msg
      then classified Transient TRANSIENT_FAST ''claude_socket_closed'' f ''Claude API connection dropped''
      else if isNetworkErrorShape f
      then classified Transient TRANSIENT_FAST ''network_error'' f ''Network error''
      else if source = Some SrcStream \<and> contains ''api error'' msg
      then (if contains_any [''401'', ''403'', ''unauthorized'', ''forbidden''] msg
            then classified Permanent NoRetry ''claude_unauthorized'' f ''Claude API unauthorized''
            else classified Transient TRANSIENT_FAST ''claude_socket_closed'' f ''Claude API stream error'')
      else classified Transient UNKNOWN_FALLBACK ''unknown'' f ''Unknown error'')"

definition classify :: "thrown \<Rightarrow> error_source option \<Rightarrow> classification" where
  "classify err source =
     (let f = readErrorShape err in
      if source = Some SrcBind then
        classifyBindReason (case e_reason f of Some r \<Rightarrow> r | None \<Rightarrow> message_text f)
      else case (if source = Some SrcAuth then classifyAuth f else None) of
        Some c \<Rightarrow> c
      | None \<Rightarrow>
          if source = Some SrcUpdate then classifyUpdate f
          else case coalesce [if source = Some SrcConfig then classifyConfig f else None,
                              classifyByClass f, classifyBinary err f] of
            Some c \<Rightarrow> c
          | None \<Rightarrow> classifyTail source f)"

end
