(* ===== verification/RetryPolicy.thy ===== *)
theory RetryPolicy
  imports ErrorTaxonomy "HOL-Library.Word"
begin

text \<open>
  \<open>runtime/provider-retry-policy.ts\<close>: which category a provider failure has and whether, when and
  how often the runtime tries again. Patterns are tested on the lowered text of the failure; the
  long classification chain of the source is split where its comments split it.
\<close>

section \<open>Results\<close>

record failure_classification =
  fc_category :: failure_category
  fc_reasonCode :: string
  fc_message :: string
  fc_retryAfterMs :: "int option"
  fc_sourceKind :: error_kind

datatype terminal_kind =
    TKDeterministic | TKExhausted | TKUnsafeReplay | TKNeedsOperator | TKCapacityWait | TKRebindRequired

datatype retry_decision =
    RetryDecision (d_delayMs: int) (d_reasonCode: string) (d_attempt: int) (d_maxAttempts: "int option")
      (d_retryMode: retry_mode) (d_replaySafety: replay_safety) (d_userSeverity: severity)
  | StopDecision (d_reasonCode: string) (d_terminalKind: terminal_kind)
      (d_replaySafety: replay_safety) (d_userSeverity: severity)

definition is_retry :: "retry_decision \<Rightarrow> bool" where
  "is_retry d = (case d of RetryDecision _ _ _ _ _ _ _ \<Rightarrow> True | StopDecision _ _ _ _ \<Rightarrow> False)"

definition PROVIDER_TURN_MAX_RETRIES :: int where "PROVIDER_TURN_MAX_RETRIES = 2"
definition PROVIDER_TURN_DELAYS_MS :: "int list" where "PROVIDER_TURN_DELAYS_MS = [500, 1500]"
definition PROVIDER_TURN_CAPACITY_SHORT_WAIT_MS :: int where "PROVIDER_TURN_CAPACITY_SHORT_WAIT_MS = 30000"
definition UNKNOWN_MAX_RETRIES :: int where "UNKNOWN_MAX_RETRIES = 2"
definition UNKNOWN_DELAYS_MS :: "int list" where "UNKNOWN_DELAYS_MS = [5000, 15000]"
definition SESSION_FOREGROUND_RETRIES :: int where "SESSION_FOREGROUND_RETRIES = 3"
definition SESSION_TRANSIENT_CAP_MS :: int where "SESSION_TRANSIENT_CAP_MS = 60000"
definition SESSION_CAPACITY_CAP_MS :: int where "SESSION_CAPACITY_CAP_MS = 300000"

definition MANAGED_SKILLS_UNSAFE_DISCOVERY :: string where
  "MANAGED_SKILLS_UNSAFE_DISCOVERY = ''managed_skills_unsafe_discovery''"

lemmas retry_constants =
  PROVIDER_TURN_MAX_RETRIES_def PROVIDER_TURN_DELAYS_MS_def PROVIDER_TURN_CAPACITY_SHORT_WAIT_MS_def
  UNKNOWN_MAX_RETRIES_def UNKNOWN_DELAYS_MS_def SESSION_FOREGROUND_RETRIES_def
  SESSION_TRANSIENT_CAP_MS_def SESSION_CAPACITY_CAP_MS_def

definition requiresUnsafeReplayNoticeCustody :: "runtime_provider \<Rightarrow> bool" where
  "requiresUnsafeReplayNoticeCustody p = (p = Antigravity)"

definition startsFreshOnMismatchedContinuation :: "runtime_provider \<Rightarrow> bool" where
  "startsFreshOnMismatchedContinuation p = requiresUnsafeReplayNoticeCustody p"


section \<open>Reading waits out of a failure\<close>

fun span_digits :: "string \<Rightarrow> string \<times> string" where
  "span_digits [] = ([], [])"
| "span_digits (c # s) =
     (let n = of_char c :: nat
      in if 48 \<le> n \<and> n \<le> 57 then (case span_digits s of (ds, rest) \<Rightarrow> (c # ds, rest))
         else ([], c # s))"

fun digits_value :: "nat \<Rightarrow> string \<Rightarrow> nat" where
  "digits_value acc [] = acc"
| "digits_value acc (c # s) = digits_value (acc * 10 + (of_char c - 48)) s"

text \<open>The optional group \<open>(?:(\d+)u)?\<close> for a unit letter.\<close>

definition unit_group :: "char \<Rightarrow> string \<Rightarrow> nat option \<times> string" where
  "unit_group u s =
     (case span_digits s of
        (ds, rest) \<Rightarrow>
          (case rest of
             c # rest' \<Rightarrow> if ds \<noteq> [] \<and> c = u then (Some (digits_value 0 ds), rest') else (None, s)
           | [] \<Rightarrow> (None, s)))"

text \<open>\<open>x | 0\<close> reads a number as a signed 32 bit integer.\<close>

definition to_int32 :: "int \<Rightarrow> int" where
  "to_int32 x = sint (word_of_int x :: 32 word)"

definition parseResetsInDurationMs :: "string \<Rightarrow> int option" where
  "parseResetsInDurationMs text =
     (case index_of ''resets in '' text of
        None \<Rightarrow> None
      | Some i \<Rightarrow>
          (let s = drop (i + 10) text;
               (h, s1) = unit_group (CHR ''h'') s;
               (m, s2) = unit_group (CHR ''m'') s1;
               (sec, s3) = unit_group (CHR ''s'') s2
           in if h = None \<and> m = None \<and> sec = None then None
              else let totalMs = to_int32 ((int (or_else h 0) * 3600 + int (or_else m 0) * 60
                                             + int (or_else sec 0)) * 1000)
                   in if 0 < totalMs then Some totalMs else None))"

definition finite_nonneg :: "js_num option \<Rightarrow> rat option" where
  "finite_nonneg x = (case x of Some (Finite q) \<Rightarrow> if 0 \<le> q then Some q else None | _ \<Rightarrow> None)"

definition readRetryAfterMs :: "int \<Rightarrow> err_fields \<Rightarrow> int option" where
  "readRetryAfterMs now f =
     (case finite_nonneg (e_retryAfterMs f) of
        Some q \<Rightarrow> Some \<lfloor>q\<rfloor>
      | None \<Rightarrow>
          (case e_retryAfter f of
             None \<Rightarrow> None
           | Some (AfterNum n) \<Rightarrow> map_option (\<lambda>q. \<lfloor>q * 1000\<rfloor>) (finite_nonneg (Some n))
           | Some (AfterStr numeric dateMs) \<Rightarrow>
               (case numeric of
                  Some q \<Rightarrow>
                    if 0 \<le> q then Some \<lfloor>q * 1000\<rfloor> else map_option (\<lambda>d. max 0 (d - now)) dateMs
                | None \<Rightarrow> map_option (\<lambda>d. max 0 (d - now)) dateMs)))"

definition failure_text :: "err_fields \<Rightarrow> string" where
  "failure_text f =
     lower (or_empty (e_name f) @ '' '' @ message_text f @ '' '' @ code_text (e_code f) @ '' ''
            @ or_empty (e_reason f))"


section \<open>The category of a failure\<close>

definition runtimeSessionProofReason :: "err_fields \<Rightarrow> string \<Rightarrow> string option" where
  "runtimeSessionProofReason f text =
     (if e_code f = Some (CodeStr ''AGENT_RUNTIME_SESSION_MISSING'') \<or>
         contains ''agent_runtime_session_missing'' text \<or>
         contains ''missing x-agent-runtime-session header'' text
      then Some ''runtime_session_missing''
      else if e_code f = Some (CodeStr ''AGENT_RUNTIME_SESSION_INVALID'') \<or>
         contains ''agent_runtime_session_invalid'' text \<or>
         contains ''invalid agent runtime session'' text
      then Some ''runtime_session_invalid''
      else None)"

definition isBillingLimit :: "string \<Rightarrow> bool" where
  "isBillingLimit text =
     (contains_any [''billing_error'', ''insufficient account balance'', ''credit balance is too low'',
        ''credits_required'', ''out_of_credits''] text \<or>
      contains ''billing'' text \<and> contains ''credit'' text)"

definition isCapability :: "string \<Rightarrow> classification \<Rightarrow> bool" where
  "isCapability text base =
     (contains ''binary_missing'' (c_reasonCode base) \<or>
      contains ''binary_unusable'' (c_reasonCode base) \<or>
      contains_any [''binary missing'', ''binary candidates are installed but unusable'',
        ''executable missing'', ''unable to locate''] text)"

definition isAntigravityAuthDiagnostic :: "string \<Rightarrow> bool" where
  "isAntigravityAuthDiagnostic text =
     (contains_any [''authentication required'', ''not authenticated'', ''login required'',
        ''gemini_api_key'', ''token missing'', ''token expired'', ''invalid token''] text \<or>
      rx_test [WordB, Lit ''unauthorized'', WordB] text \<or>
      contains_any [''credential is missing'', ''api credential'', ''invalid credential''] text \<or>
      contains_any [''run agy to sign in'', ''run agy once to sign in'', ''please sign in'',
        ''sign in again''] text)"

definition structuredAuth :: "string \<Rightarrow> classification \<Rightarrow> int option \<Rightarrow> bool" where
  "structuredAuth text base status =
     (status = Some 401 \<or> status = Some 403 \<or>
      contains ''auth'' (c_reasonCode base) \<or> contains ''unauthorized'' (c_reasonCode base) \<or>
      rx_test [WordB, OneOf [''401'', ''403''], WordB] text)"

definition isCredential :: "string \<Rightarrow> classification \<Rightarrow> int option \<Rightarrow> runtime_provider \<Rightarrow> bool" where
  "isCredential text base status provider =
     (if provider = Antigravity then structuredAuth text base status \<or> isAntigravityAuthDiagnostic text
      else if structuredAuth text base status \<or>
        contains_any [''unauthorized'', ''forbidden'', ''invalid api key'', ''invalid_api_key'',
          ''authentication'', ''login required'', ''not authenticated'', ''oauth_org_not_allowed'',
          ''auth.login_required'', ''auth.provisioning_required'', ''auth.token_missing'',
          ''auth.token_unauthorized'', ''auth.model_not_resolved'', ''provider.auth_error''] text
      then True
      else if provider = Amp \<and> contains_any [''not logged in'', ''amp login'', ''amp_api_key'',
          ''no api key found'', ''starting login flow''] text
      then True
      else if provider = DeepseekHarness \<and> contains_any [''missing_credential'', ''deepseek_api_key'',
          ''missing api key'', ''not authenticated'', ''invalid api key'', ''invalid_credential''] text
      then True
      else if provider = Cursor \<and> contains_any [''not logged in'', ''agent login'', ''cursor_api_key''] text
      then True
      else if provider = Grok \<and> contains_any [''not logged in'', ''grok login'', ''auth.json''] text
      then True
      else provider = Pi \<and> contains_any [''missing credentials'', ''no api key'', ''/login'',
          ''auth_required'', ''auth required'', ''not authenticated'', ''pi_auth_required''] text)"

definition or_unknown :: "classification \<Rightarrow> string \<Rightarrow> string" where
  "or_unknown base d = (if c_reasonCode base = ''unknown'' then d else c_reasonCode base)"

definition credentialReason :: "classification \<Rightarrow> string" where
  "credentialReason base = or_unknown base ''provider_credential_required''"

definition isPiProtocolError :: "string option \<Rightarrow> string \<Rightarrow> bool" where
  "isPiProtocolError name text =
     (contains ''pirpcprotocolerror'' (lower (or_empty name)) \<or>
      contains_any [''session identity mismatch'', ''pi_session_mismatch'', ''pi_protocol_error''] text \<or>
      contains_any [''get_state response missing'', ''pi get_state failed'', ''get_state failed''] text)"

definition isPiModelConfiguration :: "string \<Rightarrow> bool" where
  "isPiModelConfiguration text =
     contains_any [''model selector is invalid'', ''model mismatch'', ''thinkinglevel mismatch'',
       ''pi_model_mismatch'', ''pi_model_configuration''] text"

definition isPiMcpConfiguration :: "string \<Rightarrow> bool" where
  "isPiMcpConfiguration text =
     contains_any [''managed mcp servers are not supported'', ''mcp servers are not supported'',
       ''pi_mcp_unsupported''] text"

definition isCodexServiceTierConfiguration :: "string \<Rightarrow> bool" where
  "isCodexServiceTierConfiguration text =
     (rx_test [Lit ''configured service tier '', AnyStar, Lit '' is not advertised as supported '', AnyStar,
        Lit '' will be omitted from requests''] text \<or>
      rx_test [Lit ''configured service tier '', AnyStar, Lit '' was not activated by codex '', AnyStar,
        Lit '' will not be used for requests''] text)"

definition isExhaustedCapacityPhrasing :: "runtime_provider \<Rightarrow> string \<Rightarrow> bool" where
  "isExhaustedCapacityPhrasing provider text =
     ((provider = Grok \<or> provider = Pi) \<and>
      contains_any [''too many requests'', ''resource has been exhausted''] text)"

definition isCapacity :: "string \<Rightarrow> classification \<Rightarrow> int option \<Rightarrow> runtime_provider \<Rightarrow> bool" where
  "isCapacity text base retryAfterMs provider =
     (retryAfterMs \<noteq> None \<or> contains ''rate_limit'' (c_reasonCode base) \<or>
      rx_test rateLimitPat text \<or>
      contains_any [''usage limit'', ''session limit'', ''quota'', ''insufficient_quota'', ''overloaded'',
        ''capacity''] text \<or>
      isExhaustedCapacityPhrasing provider text)"

definition antigravityViolations :: "string list" where
  "antigravityViolations = [''expected one conversation id'', ''resume conversation mismatch'',
     ''terminal result event'', ''malformed antigravity stream'', ''antigravity returned an error result'']"

definition antigravityObservedZero :: "string list" where
  "antigravityObservedZero = [''expected one terminal result event, observed 0'',
     ''expected one conversation id, observed 0'']"

definition isAntigravityProtocolConfiguration ::
  "string \<Rightarrow> classification \<Rightarrow> runtime_provider \<Rightarrow> bool" where
  "isAntigravityProtocolConfiguration text base provider =
     (if provider \<noteq> Antigravity then False
      else if rx_test [OneOf antigravityObservedZero, WordB] text \<and>
              \<not> contains_any antigravityViolations (delete_all antigravityObservedZero text)
      then False
      else if \<not> contains_any antigravityViolations text then False
      else if isCapacity text base None provider \<or> isBillingLimit text then False
      else \<not> contains_any [''authentication required'', ''unauthenticated'', ''not logged in''] text)"

definition isConfiguration :: "string \<Rightarrow> classification \<Rightarrow> runtime_provider \<Rightarrow> bool" where
  "isConfiguration text base provider =
     (if contains ''mismatch'' (c_reasonCode base) \<or>
        contains_any [''provider mismatch'', ''runtime_provider_mismatch'', ''bad config'', ''sandbox'',
          ''approval'', ''model_not_found'', ''model not found''] text
      then True
      else if provider = Codex \<and> isCodexServiceTierConfiguration text then True
      else if provider = KimiCode \<and> contains_any [''model.not_configured'', ''model.config_invalid''] text
      then True
      else if provider = Amp \<and> contains_any [''amp_mode_invalid'', ''amp mode must be one of''] text
      then True
      else if provider = DeepseekHarness \<and>
        contains_any [''deepseek_mcp_unsupported'', ''managed mcp servers are not supported''] text
      then True
      else if provider = Pi \<and> (isPiModelConfiguration text \<or> isPiMcpConfiguration text) then True
      else if isAntigravityProtocolConfiguration text base provider then True
      else provider = Cursor \<and>
        contains_any [''cannot use this model'', ''blocked by permissions configuration'',
          ''workspace trust''] text)"

definition configurationReason :: "string \<Rightarrow> classification \<Rightarrow> runtime_provider \<Rightarrow> string" where
  "configurationReason text base provider =
     (if provider = Codex \<and> isCodexServiceTierConfiguration text then ''codex_service_tier_unsupported''
      else if provider = Pi \<and> isPiModelConfiguration text then ''pi_model_configuration_error''
      else if provider = Pi \<and> isPiMcpConfiguration text then ''pi_mcp_unsupported''
      else if isAntigravityProtocolConfiguration text base provider then ''antigravity_protocol_error''
      else or_unknown base ''provider_configuration_error'')"

definition isDeterministicInput :: "string \<Rightarrow> classification \<Rightarrow> bool" where
  "isDeterministicInput text base =
     (contains ''context'' (c_reasonCode base) \<or>
      contains_any [''context length'', ''context_length'', ''context window'', ''invalid request'',
        ''invalid_request'', ''bad request'', ''max_output_tokens'', ''error_max_turns'',
        ''exceeded max turns'', ''error_max_budget_usd'', ''error_max_structured_output_retries''] text \<or>
      contains ''ran out of room'' text \<and> contains ''context'' text)"

definition deterministicReason :: "classification \<Rightarrow> string" where
  "deterministicReason base = or_unknown base ''provider_deterministic_input''"

definition capacityReason :: "string \<Rightarrow> classification \<Rightarrow> string" where
  "capacityReason text base =
     (if contains_any [''usage limit'', ''session limit'', ''quota'', ''insufficient_quota''] text
      then ''provider_usage_limit''
      else if contains_any [''overloaded'', ''capacity''] text then ''provider_overloaded''
      else if rx_test rateLimitPat text \<or>
        contains_any [''too many requests'', ''resource has been exhausted''] text \<or>
        contains ''rate_limit'' (c_reasonCode base)
      then ''provider_rate_limited''
      else or_unknown base ''provider_capacity'')"

definition isTransportText :: "string \<Rightarrow> bool" where
  "isTransportText text =
     (rx_test [WordB, OneOf [''500'', ''502'', ''503'', ''504''], WordB] text \<or>
      contains_any [''server error'', ''server_error'', ''unavailable'', ''timed out'', ''timeout'',
        ''fetch failed'', ''network'', ''unable to connect'', ''provider.connection_error'',
        ''connection refused'', ''connectionrefused'', ''econnreset'', ''econnrefused'', ''etimedout'',
        ''epipe''] text)"

definition transientReason :: "classification \<Rightarrow> runtime_provider \<Rightarrow> string" where
  "transientReason base provider =
     (if provider = Codex \<and> starts_with ''claude_'' (c_reasonCode base)
      then ''provider_transient_transport''
      else or_unknown base ''provider_transient_transport'')"

definition fcl :: "failure_category \<Rightarrow> string \<Rightarrow> classification \<Rightarrow> int option \<Rightarrow> failure_classification" where
  "fcl cat reason base after =
     \<lparr>fc_category = cat, fc_reasonCode = reason, fc_message = c_message base,
      fc_retryAfterMs = after, fc_sourceKind = c_kind base\<rparr>"

text \<open>The provider gated capability verdicts in the middle of the chain.\<close>

definition platformGate ::
  "runtime_provider \<Rightarrow> string \<Rightarrow> err_fields \<Rightarrow> string option" where
  "platformGate provider text f =
     (let win = contains ''not supported on windows in v1'' text in
      if provider = Amp \<and> win then Some ''amp_platform_unsupported''
      else if provider = DeepseekHarness \<and> win then Some ''deepseek_platform_unsupported''
      else if provider = Grok \<and> win then Some ''grok_platform_unsupported''
      else if provider = Antigravity \<and> win then Some ''antigravity_platform_unsupported''
      else if provider = Grok \<and> contains ''is not a supported grok build version'' text
      then Some ''grok_binary_unsupported''
      else if provider = Pi \<and> win then Some ''pi_platform_unsupported''
      else if provider = Pi \<and> contains_any [''unsupported version'', ''is not a supported pi'', ''requires >=''] text
      then Some ''pi_binary_unsupported''
      else if provider = Pi \<and> isPiProtocolError (e_name f) text then Some ''pi_protocol_error''
      else None)"

text \<open>Everything after the provider gates.\<close>

definition classifyRemainder ::
  "string \<Rightarrow> classification \<Rightarrow> int option \<Rightarrow> runtime_provider \<Rightarrow> failure_classification" where
  "classifyRemainder text base after provider =
     (if isConfiguration text base provider
      then fcl Configuration (configurationReason text base provider) base after
      else if isDeterministicInput text base
      then fcl DeterministicInput (deterministicReason base) base after
      else if isCapacity text base after provider
      then fcl ProviderCapacity (capacityReason text base) base after
      else if c_kind base = Transient \<and> c_reasonCode base \<noteq> ''unknown'' \<or> isTransportText text
      then fcl TransientTransport (transientReason base provider) base after
      else if c_reasonCode base = ''unknown''
      then fcl UnknownCategory ''unknown'' base after
      else fcl UnknownCategory (if c_reasonCode base = [] then ''unknown'' else c_reasonCode base) base after)"

text \<open>
  The source reads \<open>sdk\<close> as no source; \<open>now\<close> is \<open>Date.now()\<close>, read only for a retry-after date.
\<close>

fun is_managed_state :: "thrown \<Rightarrow> string option" where
  "is_managed_state (ThrownError (ManagedSkillsState reason) f cause) = Some reason"
| "is_managed_state _ = None"

fun is_managed_unsafe :: "thrown \<Rightarrow> bool" where
  "is_managed_unsafe (ThrownError cls f cause) = (cls \<noteq> PlainError)"
| "is_managed_unsafe _ = False"

definition classifyProviderFailure ::
  "int \<Rightarrow> thrown \<Rightarrow> runtime_provider \<Rightarrow> error_source option \<Rightarrow> failure_classification" where
  "classifyProviderFailure now err provider source =
     (let base = classify err source;
          f = readErrorShape err;
          text = failure_text f;
          after = (case readRetryAfterMs now f of Some ms \<Rightarrow> Some ms | None \<Rightarrow> parseResetsInDurationMs text)
      in case runtimeSessionProofReason f text of
           Some reason \<Rightarrow> fcl RuntimeTransport reason base None
         | None \<Rightarrow>
             (case is_managed_state err of
                Some reason \<Rightarrow> fcl Configuration (''managed_skills_state_'' @ reason) base after
              | None \<Rightarrow>
                  (if is_managed_unsafe err
                   then fcl TransientTransport MANAGED_SKILLS_UNSAFE_DISCOVERY base None
                   else if isBillingLimit text
                   then fcl ProviderCapacity ''provider_billing_limit'' base after
                   else if isCapability text base
                   then fcl Capability (c_reasonCode base) base after
                   else if isCredential text base (shape_status f) provider
                   then fcl Credential (credentialReason base) base after
                   else case platformGate provider text f of
                     Some code \<Rightarrow> fcl Capability code base after
                   | None \<Rightarrow> classifyRemainder text base after provider)))"


section \<open>The retry decision\<close>

definition nth_delay :: "int list \<Rightarrow> int \<Rightarrow> int \<Rightarrow> int" where
  "nth_delay ds attempt d =
     (let i = nat (attempt - 1) in if i < length ds then ds ! i else d)"

definition decideProviderTurnTransient :: "string \<Rightarrow> int \<Rightarrow> replay_safety \<Rightarrow> retry_decision" where
  "decideProviderTurnTransient reasonCode attempt safety =
     (if attempt \<le> PROVIDER_TURN_MAX_RETRIES
      then RetryDecision (nth_delay PROVIDER_TURN_DELAYS_MS attempt 1500) reasonCode attempt
             (Some PROVIDER_TURN_MAX_RETRIES) Foreground safety SevInfo
      else StopDecision (reasonCode @ ''_exhausted'') TKExhausted safety SevError)"

definition decideProviderTurnCapacity ::
  "string \<Rightarrow> int \<Rightarrow> int option \<Rightarrow> replay_safety \<Rightarrow> retry_decision" where
  "decideProviderTurnCapacity reasonCode attempt retryAfterMs safety =
     (if reasonCode = ''provider_billing_limit''
      then StopDecision reasonCode TKCapacityWait safety SevError
      else if safety = PreProvider
      then decideProviderTurnTransient reasonCode attempt safety
      else if reasonCode = ''provider_overloaded'' \<and> retryAfterMs = None
      then (if attempt \<le> PROVIDER_TURN_MAX_RETRIES
            then RetryDecision (nth_delay PROVIDER_TURN_DELAYS_MS attempt 1500) reasonCode attempt
                   (Some PROVIDER_TURN_MAX_RETRIES) Foreground safety SevWarning
            else StopDecision (reasonCode @ ''_exhausted'') TKExhausted safety SevError)
      else case retryAfterMs of
        Some ms \<Rightarrow>
          (if ms \<le> PROVIDER_TURN_CAPACITY_SHORT_WAIT_MS
           then (if attempt \<le> PROVIDER_TURN_MAX_RETRIES
                 then RetryDecision ms reasonCode attempt (Some PROVIDER_TURN_MAX_RETRIES) Foreground
                        safety SevWarning
                 else StopDecision (reasonCode @ ''_exhausted'') TKExhausted safety SevError)
           else StopDecision ''capacity_wait_required'' TKCapacityWait safety SevWarning)
      | None \<Rightarrow> StopDecision ''capacity_wait_required'' TKCapacityWait safety SevWarning)"

definition decideSessionTransient :: "string \<Rightarrow> int \<Rightarrow> replay_safety \<Rightarrow> retry_decision" where
  "decideSessionTransient reasonCode attempt safety =
     (let delayMs = min (1000 * 2 ^ nat (attempt - 1)) SESSION_TRANSIENT_CAP_MS
      in RetryDecision delayMs reasonCode attempt None
           (if attempt \<le> SESSION_FOREGROUND_RETRIES then Foreground else Background) safety
           (if attempt \<le> SESSION_FOREGROUND_RETRIES then SevInfo else SevWarning))"

definition decideSessionCapacity ::
  "string \<Rightarrow> int \<Rightarrow> int option \<Rightarrow> replay_safety \<Rightarrow> retry_decision" where
  "decideSessionCapacity reasonCode attempt retryAfterMs safety =
     (let backoffMs = min (1000 * 2 ^ nat (attempt - 1)) SESSION_CAPACITY_CAP_MS
      in RetryDecision (or_else retryAfterMs backoffMs) reasonCode attempt None Background safety SevWarning)"

definition decideUnknown :: "retry_scope \<Rightarrow> int \<Rightarrow> replay_safety \<Rightarrow> retry_decision" where
  "decideUnknown scope attempt safety =
     (if attempt \<le> UNKNOWN_MAX_RETRIES
      then RetryDecision (nth_delay UNKNOWN_DELAYS_MS attempt 15000) ''unknown'' attempt
             (Some UNKNOWN_MAX_RETRIES) Foreground safety SevWarning
      else StopDecision ''unknown_exhausted'' TKExhausted safety SevError)"

definition isUnsafeReplay :: "replay_safety \<Rightarrow> bool" where
  "isUnsafeReplay s = (s \<in> {UserVisible, UnsafeReplay, UnknownSafety})"

definition isRetryableUserVisibleFailure :: "failure_category \<Rightarrow> replay_safety \<Rightarrow> bool" where
  "isRetryableUserVisibleFailure cat s =
     (s = UserVisible \<and> (cat = ProviderCapacity \<or> cat = TransientTransport))"

definition decideByCategory ::
  "failure_classification \<Rightarrow> retry_scope \<Rightarrow> int \<Rightarrow> int option \<Rightarrow> replay_safety \<Rightarrow> retry_decision" where
  "decideByCategory c scope attempt retryAfterMs safety =
     (case fc_category c of
        Credential \<Rightarrow> StopDecision (fc_reasonCode c) TKNeedsOperator safety SevError
      | Capability \<Rightarrow> StopDecision (fc_reasonCode c) TKNeedsOperator safety SevError
      | Configuration \<Rightarrow> StopDecision (fc_reasonCode c) TKNeedsOperator safety SevError
      | DeterministicInput \<Rightarrow> StopDecision (fc_reasonCode c) TKDeterministic safety SevError
      | UnknownCategory \<Rightarrow> decideUnknown scope attempt safety
      | TransientTransport \<Rightarrow>
          (if scope = ProviderTurn then decideProviderTurnTransient (fc_reasonCode c) attempt safety
           else decideSessionTransient (fc_reasonCode c) attempt safety)
      | ProviderCapacity \<Rightarrow>
          (if scope = ProviderTurn
           then decideProviderTurnCapacity (fc_reasonCode c) attempt retryAfterMs safety
           else decideSessionCapacity (fc_reasonCode c) attempt retryAfterMs safety)
      | RuntimeTransport \<Rightarrow> StopDecision (fc_reasonCode c) TKRebindRequired safety SevWarning)"

definition decideProviderRetry ::
  "failure_classification \<Rightarrow> retry_scope \<Rightarrow> int \<Rightarrow> int option \<Rightarrow> replay_safety \<Rightarrow> retry_decision" where
  "decideProviderRetry c scope rawAttempt rawRetryAfterMs safety =
     (let attempt = max 1 rawAttempt;
          retryAfterMs = (case rawRetryAfterMs of Some ms \<Rightarrow> Some ms | None \<Rightarrow> fc_retryAfterMs c)
      in if fc_category c = RuntimeTransport
         then StopDecision (fc_reasonCode c) TKRebindRequired safety SevWarning
         else if scope = ProviderTurn \<and> isUnsafeReplay safety \<and>
                 (fc_reasonCode c = MANAGED_SKILLS_UNSAFE_DISCOVERY \<or>
                  \<not> isRetryableUserVisibleFailure (fc_category c) safety)
         then StopDecision ''unsafe_replay'' TKUnsafeReplay safety SevWarning
         else decideByCategory c scope attempt retryAfterMs safety)"


section \<open>The event of a decision\<close>

text \<open>
  The largest time a JavaScript \<open>Date\<close> holds; \<open>toISOString\<close> raises a \<open>RangeError\<close> beyond it, which
  is the left result. A time is kept in milliseconds instead of its ISO rendering. \<open>redact\<close> stands for
  \<open>redactErrorPreview\<close> with its length bound.
\<close>

datatype range_error = RangeError

definition MAX_DATE_MS :: int where "MAX_DATE_MS = 8640000000000000"

definition buildProviderRetryEvent ::
  "(string \<Rightarrow> string) \<Rightarrow> int \<Rightarrow> retry_event_name \<Rightarrow> runtime_provider \<Rightarrow> retry_scope \<Rightarrow>
   failure_classification \<Rightarrow> retry_decision option \<Rightarrow> string option \<Rightarrow> range_error + retry_payload" where
  "buildProviderRetryEvent redact now event provider scope c decision preview =
     (let retryD = (case decision of Some d \<Rightarrow> if is_retry d then Some d else None | None \<Rightarrow> None);
          nextAt = map_option (\<lambda>d. now + d_delayMs d) retryD
      in if (case nextAt of Some t \<Rightarrow> MAX_DATE_MS < \<bar>t\<bar> | None \<Rightarrow> False) then Inl RangeError
         else Inr
           \<lparr>rp_event = event, rp_provider = provider, rp_scope = scope, rp_category = fc_category c,
            rp_reasonCode = (case decision of Some d \<Rightarrow> d_reasonCode d | None \<Rightarrow> fc_reasonCode c),
            rp_attempt = map_option d_attempt retryD,
            rp_maxAttempts = Option.bind retryD d_maxAttempts,
            rp_retryMode = map_option d_retryMode retryD,
            rp_delayMs = map_option d_delayMs retryD,
            rp_nextRetryAt = nextAt,
            rp_replaySafety = map_option d_replaySafety decision,
            rp_userSeverity = (case decision of Some d \<Rightarrow> d_userSeverity d
               | None \<Rightarrow> if event = RetryExhausted \<or> event = FailureTerminal then SevError else SevInfo),
            rp_messagePreview = (case preview of None \<Rightarrow> None | Some [] \<Rightarrow> None
               | Some (x # xs) \<Rightarrow> Some (redact (x # xs)))\<rparr>)"

end
