(* ===== verification/ProviderAttempt.thy ===== *)
theory ProviderAttempt
  imports RetryPolicy
begin

text \<open>
  \<open>runtime/provider-attempt.ts\<close>: one attempt collects the failure signals of a provider turn or of a
  session start, keeps the strongest one and settles into a retry decision and its event.
\<close>

section \<open>The model\<close>

datatype signal_kind = SigProviderError | SigLocalError | SigTransportClose | SigDiagnostic

record signal =
  sg_kind :: signal_kind
  sg_error :: thrown
  sg_source :: "error_source option"
  sg_messagePreview :: "string option"

record attempt =
  at_provider :: runtime_provider
  at_scope :: retry_scope
  at_source :: "error_source option"
  at_replaySafety :: replay_safety
  at_strongest :: "(failure_classification \<times> string) option"
  at_diagnostics :: "string list"

definition new_attempt ::
  "runtime_provider \<Rightarrow> retry_scope \<Rightarrow> error_source option \<Rightarrow> replay_safety option \<Rightarrow> attempt" where
  "new_attempt provider scope source safety =
     \<lparr>at_provider = provider, at_scope = scope, at_source = source,
      at_replaySafety = or_else safety PreProvider, at_strongest = None, at_diagnostics = []\<rparr>"

definition setReplaySafety :: "attempt \<Rightarrow> replay_safety \<Rightarrow> attempt" where
  "setReplaySafety a s = a\<lparr>at_replaySafety := s\<rparr>"

definition markUserVisibleOutput :: "attempt \<Rightarrow> attempt" where
  "markUserVisibleOutput a = a\<lparr>at_replaySafety := UserVisible\<rparr>"

definition isHardFailureCategory :: "failure_category \<Rightarrow> bool" where
  "isHardFailureCategory c =
     (c \<in> {RuntimeTransport, Credential, Capability, Configuration, DeterministicInput})"

definition failureCategoryScore :: "failure_category \<Rightarrow> nat" where
  "failureCategoryScore c =
     (if c = RuntimeTransport then 500
      else if isHardFailureCategory c then 400
      else if c = ProviderCapacity then 300
      else if c = TransientTransport then 200
      else 100)"

fun errorMessage :: "thrown \<Rightarrow> string" where
  "errorMessage (ThrownError cls f cause) = message_text f"
| "errorMessage (ThrownString s) = s"
| "errorMessage (ThrownObject f json str cause) = str"
| "errorMessage (ThrownOther s) = s"

definition attempt_classify :: "int \<Rightarrow> attempt \<Rightarrow> signal \<Rightarrow> failure_classification" where
  "attempt_classify now a sig =
     classifyProviderFailure now (sg_error sig) (at_provider a)
       (case sg_source sig of Some s \<Rightarrow> Some s | None \<Rightarrow> at_source a)"

definition recordFailure :: "attempt \<Rightarrow> failure_classification \<Rightarrow> string \<Rightarrow> attempt" where
  "recordFailure a c preview =
     (case at_strongest a of
        None \<Rightarrow> a\<lparr>at_strongest := Some (c, preview)\<rparr>
      | Some (c0, p0) \<Rightarrow>
          (if failureCategoryScore (fc_category c) > failureCategoryScore (fc_category c0)
           then a\<lparr>at_strongest := Some (c, preview)\<rparr> else a))"

definition recordSignal :: "int \<Rightarrow> attempt \<Rightarrow> signal \<Rightarrow> failure_classification option \<times> attempt" where
  "recordSignal now a sig =
     (let preview = (case sg_messagePreview sig of Some m \<Rightarrow> m | None \<Rightarrow> errorMessage (sg_error sig));
          c = attempt_classify now a sig
      in if sg_kind sig = SigDiagnostic
         then let a' = (if preview \<noteq> [] then a\<lparr>at_diagnostics := at_diagnostics a @ [preview]\<rparr> else a)
              in if isHardFailureCategory (fc_category c) then (Some c, recordFailure a' c preview)
                 else (None, a')
         else (Some c, recordFailure a c preview))"

definition messagePreviewWithDiagnostics :: "attempt \<Rightarrow> string \<Rightarrow> string" where
  "messagePreviewWithDiagnostics a preview =
     (let uniqueDiagnostics = filter (\<lambda>d. d \<noteq> preview) (foldl set_add [] (at_diagnostics a))
      in if at_diagnostics a = [] \<or> uniqueDiagnostics = [] then preview
         else concat (preview # map (\<lambda>d. CHR 0x0A # ''diagnostic: '' @ d) uniqueDiagnostics))"

record settlement =
  st_classification :: failure_classification
  st_decision :: retry_decision
  st_eventName :: retry_event_name
  st_eventPayload :: retry_payload
  st_messagePreview :: string

text \<open>
  \<open>settle\<close> answers \<open>null\<close> when there is no failure to settle, and the event it builds can raise.
\<close>

definition settle ::
  "(string \<Rightarrow> string) \<Rightarrow> int \<Rightarrow> attempt \<Rightarrow> int \<Rightarrow> signal option \<Rightarrow>
   (range_error + settlement option) \<times> attempt" where
  "settle redact now a n fallback =
     (let a' = (case (at_strongest a, fallback) of
                  (None, Some sig) \<Rightarrow> snd (recordSignal now a sig) | _ \<Rightarrow> a)
      in case at_strongest a' of
           None \<Rightarrow> (Inr None, a')
         | Some (c, preview) \<Rightarrow>
             (let d = decideProviderRetry c (at_scope a') n None (at_replaySafety a');
                  ev = (case d of
                          RetryDecision _ _ _ _ _ _ _ \<Rightarrow> RetryScheduled
                        | StopDecision _ k _ _ \<Rightarrow>
                            if k = TKExhausted then RetryExhausted else FailureTerminal);
                  detail = messagePreviewWithDiagnostics a' preview
              in case buildProviderRetryEvent redact now ev (at_provider a') (at_scope a') c (Some d) (Some detail) of
                   Inl e \<Rightarrow> (Inl e, a')
                 | Inr payload \<Rightarrow>
                     (Inr (Some \<lparr>st_classification = c, st_decision = d, st_eventName = ev,
                                 st_eventPayload = payload, st_messagePreview = detail\<rparr>), a')))"


section \<open>The strongest failure wins, the earliest among equals\<close>

definition record_failures :: "attempt \<Rightarrow> (failure_classification \<times> string) list \<Rightarrow> attempt" where
  "record_failures a fs = foldl (\<lambda>a (c, p). recordFailure a c p) a fs"

abbreviation score_of :: "failure_classification \<times> string \<Rightarrow> nat" where
  "score_of x \<equiv> failureCategoryScore (fc_category (fst x))"

fun first_max :: "failure_classification \<times> string \<Rightarrow> (failure_classification \<times> string) list \<Rightarrow>
    failure_classification \<times> string" where
  "first_max b [] = b"
| "first_max b (x # xs) = first_max (if score_of x > score_of b then x else b) xs"

lemma recordFailure_frame [simp]:
  "at_replaySafety (recordFailure a c p) = at_replaySafety a"
  "at_scope (recordFailure a c p) = at_scope a"
  "at_provider (recordFailure a c p) = at_provider a"
  "at_diagnostics (recordFailure a c p) = at_diagnostics a"
  by (auto simp: recordFailure_def split: option.split)

lemma record_failures_Some:
  "at_strongest a = Some b \<Longrightarrow> at_strongest (record_failures a fs) = Some (first_max b fs)"
  by (induction fs arbitrary: a b)
     (auto simp: record_failures_def recordFailure_def split: prod.splits)

lemma first_max_score: "x \<in> set (b # xs) \<Longrightarrow> score_of x \<le> score_of (first_max b xs)"
proof (induction xs arbitrary: b x)
  case Nil
  then show ?case by simp
next
  case (Cons y ys)
  let ?b = "if score_of y > score_of b then y else b"
  have "score_of x \<le> score_of ?b \<or> x \<in> set ys" using Cons.prems by auto
  moreover have "score_of ?b \<le> score_of (first_max ?b ys)" by (rule Cons.IH) simp
  moreover have "x \<in> set ys \<Longrightarrow> score_of x \<le> score_of (first_max ?b ys)" by (rule Cons.IH) simp
  ultimately show ?case by (auto split: if_splits)
qed

lemma first_max_in: "first_max b xs \<in> set (b # xs)"
  by (induction xs arbitrary: b) (auto split: if_splits)

lemma settle_none: "at_strongest a = None \<Longrightarrow> settle redact now a n None = (Inr None, a)"
  by (simp add: settle_def Let_def)

end
