(* ===== verification/RetryProperties.thy ===== *)
theory RetryProperties
  imports ProviderAttempt
begin

text \<open>
  What the retry policy promises: replays that could repeat visible work are refused, automatic
  retries of a provider turn are few and short, session starts back off with a cap, an operator's
  problem is never retried away, and an attempt reports its strongest failure.
\<close>

section \<open>Replay safety\<close>

lemmas decide_defs = decideProviderRetry_def decideByCategory_def decideProviderTurnTransient_def
  decideProviderTurnCapacity_def decideSessionTransient_def decideSessionCapacity_def decideUnknown_def

lemma is_retry_simps [simp]:
  "is_retry (RetryDecision a b n m md s u)" "\<not> is_retry (StopDecision b k s u)"
  by (simp_all add: is_retry_def)

text \<open>
  C10. A provider turn whose effects may already be visible is not replayed. In the scope of a provider
  turn the policy retries exactly up to the second failed attempt, when either the provider has produced
  nothing visible, or visible output is the only effect and the failure is one of capacity or of transient
  transport that was not the discovery of unsafe managed skills; in particular never when a replay is
  unsafe or its safety is unknown. The failure has to be one of transient transport, an unknown one, or one
  of capacity that is no billing limit and either came before the provider was entered, or asks for a wait
  of at most thirty seconds, or names no wait and is an overload. A decision always carries the replay
  safety it was made for.
\<close>

theorem unsafe_turn_is_not_replayed:
  "d_replaySafety (decideProviderRetry c ProviderTurn n after safety) = safety \<and>
   (is_retry (decideProviderRetry c ProviderTurn n after safety) \<longleftrightarrow>
      n \<le> 2 \<and>
      (safety \<in> {PreProvider, PreVisible, ProviderEntered} \<or>
       safety = UserVisible \<and> fc_category c \<in> {ProviderCapacity, TransientTransport} \<and>
       fc_reasonCode c \<noteq> ''managed_skills_unsafe_discovery'') \<and>
      (fc_category c \<in> {TransientTransport, UnknownCategory} \<or>
       fc_category c = ProviderCapacity \<and> fc_reasonCode c \<noteq> ''provider_billing_limit'' \<and>
       (safety = PreProvider \<or>
        (case (case after of Some ms \<Rightarrow> Some ms | None \<Rightarrow> fc_retryAfterMs c) of
           Some ms \<Rightarrow> ms \<le> 30000
         | None \<Rightarrow> fc_reasonCode c = ''provider_overloaded''))))"
proof -
  have safety: "d_replaySafety (decideProviderRetry c ProviderTurn n after safety) = safety"
    by (auto simp: decide_defs Let_def split: failure_category.split option.split)
  have refused: "\<not> is_retry (decideProviderRetry c ProviderTurn n after safety)"
    if "isUnsafeReplay safety" "fc_reasonCode c = MANAGED_SKILLS_UNSAFE_DISCOVERY \<or>
        \<not> isRetryableUserVisibleFailure (fc_category c) safety"
    using that by (simp add: decideProviderRetry_def Let_def)
  let ?wait = "case after of Some ms \<Rightarrow> Some ms | None \<Rightarrow> fc_retryAfterMs c"
  have admitted: "is_retry (decideProviderRetry c ProviderTurn n after safety) \<longleftrightarrow>
      n \<le> 2 \<and> (fc_category c \<in> {TransientTransport, UnknownCategory} \<or>
       fc_category c = ProviderCapacity \<and> fc_reasonCode c \<noteq> ''provider_billing_limit'' \<and>
       (safety = PreProvider \<or> (case ?wait of Some ms \<Rightarrow> ms \<le> 30000 | None \<Rightarrow> fc_reasonCode c = ''provider_overloaded'')))"
    if "\<not> (isUnsafeReplay safety \<and> (fc_reasonCode c = MANAGED_SKILLS_UNSAFE_DISCOVERY \<or>
        \<not> isRetryableUserVisibleFailure (fc_category c) safety))"
  proof -
    have d: "decideProviderRetry c ProviderTurn n after safety =
        (if fc_category c = RuntimeTransport then StopDecision (fc_reasonCode c) TKRebindRequired safety SevWarning
         else decideByCategory c ProviderTurn (max 1 n) ?wait safety)"
      using that by (auto simp: decideProviderRetry_def Let_def)
    show ?thesis unfolding d
      by (cases "fc_category c"; cases ?wait)
        (auto simp: decideByCategory_def decideProviderTurnTransient_def decideProviderTurnCapacity_def decideUnknown_def retry_constants)
  qed
  have visible: "isUnsafeReplay safety \<longleftrightarrow> safety \<notin> {PreProvider, PreVisible, ProviderEntered}"
    by (cases safety) (simp_all add: isUnsafeReplay_def)
  show ?thesis
  proof (cases "isUnsafeReplay safety \<and> (fc_reasonCode c = MANAGED_SKILLS_UNSAFE_DISCOVERY \<or>
      \<not> isRetryableUserVisibleFailure (fc_category c) safety)")
    case True
    with refused safety visible show ?thesis by (auto simp: isRetryableUserVisibleFailure_def MANAGED_SKILLS_UNSAFE_DISCOVERY_def)
  next
    case False
    then have "safety \<in> {PreProvider, PreVisible, ProviderEntered} \<or>
       safety = UserVisible \<and> fc_category c \<in> {ProviderCapacity, TransientTransport} \<and>
       fc_reasonCode c \<noteq> ''managed_skills_unsafe_discovery''"
      unfolding visible by (auto simp: isRetryableUserVisibleFailure_def MANAGED_SKILLS_UNSAFE_DISCOVERY_def)
    with safety admitted [OF False] show ?thesis by blast
  qed
qed

text \<open>
  C33. Automatic retries of a provider turn are bounded, whatever the
  failure: at most two, each after at most thirty seconds (and never after a negative wait, when the
  wait read from the failure is not negative); from the third failed attempt on the policy stops.
\<close>

theorem turn_retries_are_bounded:
  assumes "is_retry (decideProviderRetry c ProviderTurn n after safety)"
  shows "n \<le> 2 \<and> d_attempt (decideProviderRetry c ProviderTurn n after safety) = max 1 n \<and>
    d_maxAttempts (decideProviderRetry c ProviderTurn n after safety) = Some 2 \<and>
    d_delayMs (decideProviderRetry c ProviderTurn n after safety) \<le> 30000 \<and>
    (0 \<le> or_else after (or_else (fc_retryAfterMs c) 0) \<longrightarrow>
       0 \<le> d_delayMs (decideProviderRetry c ProviderTurn n after safety))"
proof -
  have delays: "0 \<le> nth_delay [500, 1500] a 1500" "nth_delay [500, 1500] a 1500 \<le> 30000"
    "0 \<le> nth_delay [5000, 15000] a 15000" "nth_delay [5000, 15000] a 15000 \<le> 30000" for a
    by (auto simp: nth_delay_def Let_def less_Suc_eq numeral_2_eq_2)
  show ?thesis
    using assms delays
    by (cases "fc_category c"; cases after; cases "fc_retryAfterMs c")
       (auto simp: decide_defs Let_def retry_constants or_else_def split: if_splits)
qed

text \<open>
  A session start or resume that fails on transient transport is
  always tried again, without a bound on the number of attempts, after a delay that doubles from one
  second up to a cap of one minute; the first three attempts are in the foreground.
\<close>

theorem session_start_keeps_trying:
  assumes "scope \<noteq> ProviderTurn" and "fc_category c = TransientTransport"
  shows "decideProviderRetry c scope n after safety =
      RetryDecision (min (1000 * 2 ^ nat (max 1 n - 1)) 60000) (fc_reasonCode c) (max 1 n) None
        (if n \<le> 3 then Foreground else Background) safety (if n \<le> 3 then SevInfo else SevWarning) \<and>
    1000 \<le> d_delayMs (decideProviderRetry c scope n after safety)"
proof -
  have "(1::int) \<le> 2 ^ k" for k :: nat by simp
  then have "1000 \<le> min (1000 * 2 ^ nat (max 1 n - 1)) (60000 :: int)" by (simp add: mult_le_cancel_left1)
  with assms show ?thesis by (auto simp: decide_defs Let_def retry_constants max_def)
qed

text \<open>
  What only an operator or a new session can fix is never
  retried, in any scope, at any attempt, with any replay safety: credentials, missing capabilities,
  configuration and rejected input stop, and a failed proof of the runtime session asks for a rebind.
\<close>

theorem operator_problems_are_not_retried:
  assumes "fc_category c \<in> {RuntimeTransport, Credential, Capability, Configuration, DeterministicInput}"
  shows "\<not> is_retry (decideProviderRetry c scope n after safety) \<and>
    (fc_category c = RuntimeTransport \<longrightarrow>
       decideProviderRetry c scope n after safety = StopDecision (fc_reasonCode c) TKRebindRequired safety SevWarning)"
  using assms by (auto simp: decide_defs Let_def)

text \<open>
  A failure that says the agent's runtime session is missing or invalid is
  a runtime failure whatever else it says: no capacity, credential or managed skills reading of the
  same error applies, it stays so for every provider and source, and it is never retried.
\<close>

theorem runtime_proof_dominates:
  assumes "runtimeSessionProofReason (readErrorShape err) (failure_text (readErrorShape err)) = Some reason"
  shows "fc_category (classifyProviderFailure now err provider source) = RuntimeTransport \<and>
    fc_reasonCode (classifyProviderFailure now err provider source) = reason \<and>
    decideProviderRetry (classifyProviderFailure now err provider source) scope n after safety =
      StopDecision reason TKRebindRequired safety SevWarning"
  using assms by (simp add: classifyProviderFailure_def Let_def fcl_def decideProviderRetry_def)


section \<open>Backoff\<close>

lemma classified_strategy:
  "c_strategy (classified kd st code f fb) = st" "c_kind (classified kd st code f fb) = kd"
  by (simp_all add: classified_def)

definition consistent :: "classification \<Rightarrow> bool" where
  "consistent c \<longleftrightarrow>
     (if c_kind c = Transient
      then c_strategy c \<in> {TRANSIENT_FAST, TRANSIENT_BIND, TRANSIENT_NPM, UNKNOWN_FALLBACK}
      else c_strategy c = NoRetry)"

lemmas strategies = TRANSIENT_FAST_def TRANSIENT_BIND_def TRANSIENT_NPM_def UNKNOWN_FALLBACK_def

lemma consistent_classified:
  "consistent (classified kd st code f fb) \<longleftrightarrow>
     (if kd = Transient then st \<in> {TRANSIENT_FAST, TRANSIENT_BIND, TRANSIENT_NPM, UNKNOWN_FALLBACK} else st = NoRetry)"
  by (simp add: consistent_def classified_strategy)

lemma consistent_bind: "consistent (classifyBindReason r)"
  by (auto simp: classifyBindReason_def consistent_def)

lemma consistent_parts:
  "classifyAuth f = Some c \<Longrightarrow> consistent c"
  "consistent (classifyUpdate f)"
  "classifyConfig f = Some c \<Longrightarrow> consistent c"
  "classifyByClass f = Some c \<Longrightarrow> consistent c"
  "classifyBinary err f = Some c \<Longrightarrow> consistent c"
  "consistent (classifyTail source f)"
  by (auto simp: classifyAuth_def classifyUpdate_def classifyConfig_def classifyByClass_def classifyBinary_def
      classifyTail_def Let_def consistent_classified split: if_splits option.splits)

text \<open>What holds of the classification of each source and of the common tail holds of every classification.\<close>

lemma classify_rule:
  assumes "\<And>r. P (classifyBindReason r)" and "\<And>f c. classifyAuth f = Some c \<Longrightarrow> P c" and "\<And>f. P (classifyUpdate f)"
    and config: "\<And>f c. classifyConfig f = Some c \<Longrightarrow> P c" and cls: "\<And>f c. classifyByClass f = Some c \<Longrightarrow> P c"
    and bin: "\<And>err f c. classifyBinary err f = Some c \<Longrightarrow> P c" and tail: "\<And>source f. P (classifyTail source f)"
  shows "P (classify err source)"
proof -
  let ?f = "readErrorShape err"
  have first: "P (case coalesce [a, classifyByClass ?f, classifyBinary err ?f] of
      Some c \<Rightarrow> c | None \<Rightarrow> classifyTail source ?f)" if "\<And>c. a = Some c \<Longrightarrow> P c" for a
    using that cls [of ?f] bin [of err ?f] tail
    by (cases a; cases "classifyByClass ?f"; cases "classifyBinary err ?f") (simp_all add: coalesce_def)
  have "P (case coalesce [if source = Some SrcConfig then classifyConfig ?f else None,
      classifyByClass ?f, classifyBinary err ?f] of Some c \<Rightarrow> c | None \<Rightarrow> classifyTail source ?f)"
    by (rule first) (auto intro: config split: if_splits)
  then show ?thesis using assms(1-3)
    by (cases "classifyAuth ?f") (auto simp: classify_def Let_def)
qed

lemma consistent_classify: "consistent (classify err source)"
  by (rule classify_rule) (rule consistent_bind consistent_parts; assumption?)+

text \<open>
  Every classification of a thrown value is consistent: it is transient
  exactly when it comes with a backoff, so a permanent or degraded failure is never retried by the
  caller's backoff and a transient one always is; and the backoff starts at one second or more and is
  capped at ten minutes or less.
\<close>

theorem transient_means_backoff:
  "(c_kind (classify err source) = Transient \<longleftrightarrow> c_strategy (classify err source) \<noteq> NoRetry) \<and>
   (\<forall>b cap j. c_strategy (classify err source) = ExponentialBackoff b cap j \<longrightarrow>
      j \<and> 1000 \<le> b \<and> b \<le> cap \<and> cap \<le> 600000)"
  using consistent_classify [of err source] by (auto simp: consistent_def strategies split: if_splits)

lemma jitter_floor:
  fixes b :: int and r :: rat
  assumes "0 \<le> b" "0 \<le> r" "r < 1"
  defines "x \<equiv> of_int b * (1 + 1 / 5 * (r * 2 - 1)) + 1 / 2"
  shows "4 * b \<le> 5 * \<lfloor>x\<rfloor> + 2" "0 \<le> \<lfloor>x\<rfloor>" "5 * \<lfloor>x\<rfloor> \<le> 6 * b + 2"
proof -
  have lo: "4 / 5 \<le> 1 + 1 / 5 * (r * 2 - 1)" using assms(2) by (simp add: field_simps)
  have hi: "1 + 1 / 5 * (r * 2 - 1) \<le> 6 / 5" using assms(3) by (simp add: field_simps)
  have nn: "(0 :: rat) \<le> of_int b" using assms(1) by simp
  have low: "of_int b * (4 / 5) + 1 / 2 \<le> x" unfolding x_def using mult_left_mono [OF lo nn] by (rule add_right_mono)
  have high: "x \<le> of_int b * (6 / 5) + 1 / 2" unfolding x_def using mult_left_mono [OF hi nn] by (rule add_right_mono)
  have "(0 :: rat) \<le> of_int b * (4 / 5)" using nn by simp
  with low have "0 \<le> x" by (metis add_increasing2 order_trans zero_le_divide_1_iff zero_le_numeral)
  then show "0 \<le> \<lfloor>x\<rfloor>" by simp
  have f1: "of_int \<lfloor>x\<rfloor> \<le> x" and f2: "x < of_int \<lfloor>x\<rfloor> + 1" by linarith+
  have "5 * x < of_int (6 * b + 3)" using high by (simp add: field_simps)
  then have "(of_int (5 * \<lfloor>x\<rfloor>) :: rat) < of_int (6 * b + 3)"
    using mult_left_mono [OF f1, of 5] by (simp del: of_int_floor_le)
  then have "5 * \<lfloor>x\<rfloor> < 6 * b + 3" by (simp only: of_int_less_iff)
  then show "5 * \<lfloor>x\<rfloor> \<le> 6 * b + 2" by simp
  have "of_int (4 * b) < 5 * x - 2" using low by (simp add: field_simps)
  then have "(of_int (4 * b) :: rat) < of_int (5 * \<lfloor>x\<rfloor> + 3)"
    using mult_strict_left_mono [OF f2, of 5] by simp
  then have "4 * b < 5 * \<lfloor>x\<rfloor> + 3" by (simp only: of_int_less_iff)
  then show "4 * b \<le> 5 * \<lfloor>x\<rfloor> + 2" by simp
qed

text \<open>
  C29. The delay of a jittered backoff stays within a fifth of the capped
  exponential delay, for every attempt and every value of \<open>Math.random\<close> in [0, 1): it is never
  negative, never beyond six fifths of the cap, and never below four fifths of the base.
\<close>

theorem backoff_delay_bounds:
  assumes "0 \<le> r" "r < 1" and "0 \<le> base" "base \<le> cap"
  shows "4 * base \<le> 5 * nextRetryDelayMs r (ExponentialBackoff base cap True) attempt + 2 \<and>
    0 \<le> nextRetryDelayMs r (ExponentialBackoff base cap True) attempt \<and>
    5 * nextRetryDelayMs r (ExponentialBackoff base cap True) attempt \<le> 6 * cap + 2"
proof -
  let ?b = "min (base * 2 ^ nat (max 1 attempt - 1)) cap"
  have "base \<le> base * 2 ^ nat (max 1 attempt - 1)" using assms(3) by (simp add: mult_le_cancel_left1)
  then have b: "base \<le> ?b" "?b \<le> cap" using assms(4) by auto
  then have "0 \<le> ?b" using assms(3) by simp
  note j = jitter_floor [OF this assms(1,2)]
  have "nextRetryDelayMs r (ExponentialBackoff base cap True) attempt =
      max 0 \<lfloor>of_int ?b * (1 + 1 / 5 * (r * 2 - 1)) + 1 / 2\<rfloor>"
    by (simp add: nextRetryDelayMs_def Let_def)
  also have "\<dots> = \<lfloor>of_int ?b * (1 + 1 / 5 * (r * 2 - 1)) + 1 / 2\<rfloor>" using j(2) by (rule max_absorb2)
  finally have d: "nextRetryDelayMs r (ExponentialBackoff base cap True) attempt =
      \<lfloor>of_int ?b * (1 + 1 / 5 * (r * 2 - 1)) + 1 / 2\<rfloor>" .
  show ?thesis unfolding d using j b by linarith
qed


section \<open>The strongest failure\<close>

text \<open>
  An attempt settles with its strongest failure: after any sequence of
  failures the classification it settles with is one of those recorded, no recorded failure is
  stronger, it is the earliest of the strongest, and the decision and its event are the policy's for
  that failure. The only other outcome is the range error of an event whose retry time is no date.
\<close>

theorem strongest_failure_settles:
  assumes "a = record_failures (new_attempt provider scope source safety) (f # fs)"
  shows "at_strongest a = Some (first_max f fs) \<and> first_max f fs \<in> set (f # fs) \<and>
    (\<forall>x \<in> set (f # fs). score_of x \<le> score_of (first_max f fs)) \<and>
    (\<forall>st. fst (settle redact now a n sig) = Inr st \<longrightarrow>
       (\<exists>s. st = Some s \<and> st_classification s = fst (first_max f fs) \<and>
            st_decision s = decideProviderRetry (fst (first_max f fs)) scope n None (or_else safety PreProvider)))"
proof -
  let ?a1 = "recordFailure (new_attempt provider scope source safety) (fst f) (snd f)"
  have a: "a = record_failures ?a1 fs" using assms by (simp add: record_failures_def split: prod.split)
  have one: "at_strongest ?a1 = Some f" by (simp add: recordFailure_def new_attempt_def)
  have strongest: "at_strongest a = Some (first_max f fs)" unfolding a by (rule record_failures_Some [OF one])
  have frame: "at_scope (record_failures b gs) = at_scope b \<and>
      at_replaySafety (record_failures b gs) = at_replaySafety b" for b gs
    by (induction gs arbitrary: b) (auto simp: record_failures_def)
  have "at_scope a = scope" "at_replaySafety a = or_else safety PreProvider"
    unfolding a using frame [of ?a1 fs] by (simp_all add: new_attempt_def)
  then have "\<forall>st. fst (settle redact now a n sig) = Inr st \<longrightarrow>
       (\<exists>s. st = Some s \<and> st_classification s = fst (first_max f fs) \<and>
            st_decision s = decideProviderRetry (fst (first_max f fs)) scope n None (or_else safety PreProvider))"
    using strongest by (auto simp: settle_def Let_def split: prod.split sum.splits)
  with strongest first_max_in first_max_score show ?thesis by blast
qed


section \<open>The events of the policy\<close>

lemma coalesce_in:
  assumes "coalesce xs = Some x"
  shows "Some x \<in> set xs"
proof -
  obtain rest where "filter (\<lambda>y. y \<noteq> None) xs = Some x # rest"
    using assms by (auto simp: coalesce_def split: list.splits)
  then have "Some x \<in> set (filter (\<lambda>y. y \<noteq> None) xs)" by (simp del: not_None_eq)
  then show ?thesis by simp
qed

lemma missing_reason: "missingSignal m code msg err = Some s \<Longrightarrow> bs_reasonCode s = code"
  by (auto simp: missingSignal_def split: if_splits)

lemma verify_reason: "verifyTransientSignal err n = Some s \<Longrightarrow> bs_reasonCode s \<noteq> []"
  by (auto simp: verifyTransientSignal_def verifyTransientByName_def split: if_splits)

lemma unusable_reason: "codexUnusableSignal err = Some s \<Longrightarrow> bs_reasonCode s \<noteq> []"
  by (auto simp: codexUnusableSignal_def split: if_splits)

lemma direct_reason:
  assumes "recognizeDirectProviderBinaryFailure err = Some s"
  shows "bs_reasonCode s \<noteq> []"
proof -
  have "\<exists>n m code msg. code \<noteq> [] \<and> (verifyTransientSignal err n = Some s \<or> codexUnusableSignal err = Some s \<or>
      missingSignal m code msg err = Some s)"
    using coalesce_in [OF assms [unfolded recognizeDirectProviderBinaryFailure_def]]
    by (simp only: list.set insert_iff empty_iff eq_commute [of "Some s"]) (elim disjE; force)
  then show ?thesis using verify_reason unusable_reason missing_reason by metis
qed

lemma signal_reason: "recognizeProviderBinaryFailure err = Some s \<Longrightarrow> bs_reasonCode s \<noteq> []"
proof -
  have "recognize_from n e = Some s \<Longrightarrow> bs_reasonCode s \<noteq> []" for n e
    by (induction n e rule: recognize_from.induct) (auto dest: direct_reason split: option.splits)
  then show "recognizeProviderBinaryFailure err = Some s \<Longrightarrow> bs_reasonCode s \<noteq> []"
    by (simp add: recognizeProviderBinaryFailure_def)
qed

lemma classified_reason: "c_reasonCode (classified kd st code f fb) = code"
  by (simp add: classified_def)

lemma classify_reason: "c_reasonCode (classify err source) \<noteq> []"
  by (rule classify_rule)
    (auto simp: classifyBindReason_def classifyAuth_def classifyUpdate_def classifyConfig_def classifyByClass_def
      classifyBinary_def classifyTail_def Let_def classified_reason dest: signal_reason split: if_splits option.splits)

lemma or_unknown_reason: "c_reasonCode base \<noteq> [] \<Longrightarrow> d \<noteq> [] \<Longrightarrow> or_unknown base d \<noteq> []"
  by (simp add: or_unknown_def)

lemma fcl_reason: "fc_reasonCode (fcl cat r base after) = r"
  by (simp add: fcl_def)

lemma configuration_reason: "c_reasonCode base \<noteq> [] \<Longrightarrow> configurationReason text base provider \<noteq> []"
  by (simp add: configurationReason_def or_unknown_reason)

lemma named_reasons:
  assumes "c_reasonCode base \<noteq> []"
  shows "deterministicReason base \<noteq> []" "capacityReason text base \<noteq> []" "transientReason base provider \<noteq> []"
    "credentialReason base \<noteq> []"
  using assms
  by (simp_all add: deterministicReason_def capacityReason_def transientReason_def credentialReason_def or_unknown_reason)

lemma remainder_reason: "c_reasonCode base \<noteq> [] \<Longrightarrow> fc_reasonCode (classifyRemainder text base after provider) \<noteq> []"
  by (simp add: classifyRemainder_def fcl_reason configuration_reason named_reasons)

lemma gate_reason: "platformGate provider text f = Some code \<Longrightarrow> code \<noteq> []"
  unfolding platformGate_def Let_def by (auto split: if_splits)

lemma proof_reason: "runtimeSessionProofReason f text = Some reason \<Longrightarrow> reason \<noteq> []"
  unfolding runtimeSessionProofReason_def by (auto split: if_splits)

lemma failure_reason: "fc_reasonCode (classifyProviderFailure now err provider source) \<noteq> []"
  using classify_reason [of err source]
  by (simp add: classifyProviderFailure_def Let_def fcl_reason remainder_reason named_reasons gate_reason proof_reason
      MANAGED_SKILLS_UNSAFE_DISCOVERY_def split: option.split)

lemma remainder_after: "fc_retryAfterMs (classifyRemainder text base after provider) = after"
  by (simp add: classifyRemainder_def fcl_def)

lemma wait_nonneg: "readRetryAfterMs now f = Some ms \<Longrightarrow> 0 \<le> ms"
  by (auto simp: readRetryAfterMs_def finite_nonneg_def split: option.splits js_num.splits retry_after.splits if_splits)

lemma fcl_after: "fc_retryAfterMs (fcl cat r base after) = after"
  by (simp add: fcl_def)

lemma resets_nonneg: "parseResetsInDurationMs text = Some ms \<Longrightarrow> 0 \<le> ms"
  by (auto simp: parseResetsInDurationMs_def Let_def split: option.splits if_splits prod.splits)

lemma failure_wait_nonneg:
  assumes "fc_retryAfterMs (classifyProviderFailure now err provider source) = Some ms"
  shows "0 \<le> ms"
proof -
  let ?f = "readErrorShape err"
  let ?after = "case readRetryAfterMs now ?f of Some ms \<Rightarrow> Some ms | None \<Rightarrow> parseResetsInDurationMs (failure_text ?f)"
  have "fc_retryAfterMs (classifyProviderFailure now err provider source) \<in> {None, ?after}"
    by (simp add: classifyProviderFailure_def Let_def fcl_after remainder_after split: option.split)
  with assms have "?after = Some ms" by simp
  then show ?thesis by (auto intro: wait_nonneg resets_nonneg split: option.splits)
qed

definition decision_ok :: "retry_decision \<Rightarrow> bool" where
  "decision_ok d \<longleftrightarrow> d_reasonCode d \<noteq> [] \<and>
     (is_retry d \<longrightarrow> 0 < d_attempt d \<and> 0 \<le> d_delayMs d \<and> (\<forall>k. d_maxAttempts d = Some k \<longrightarrow> 0 < k))"

lemma delays_nonneg: "0 \<le> nth_delay PROVIDER_TURN_DELAYS_MS n 1500" "0 \<le> nth_delay UNKNOWN_DELAYS_MS n 15000"
  by (auto simp: nth_delay_def PROVIDER_TURN_DELAYS_MS_def UNKNOWN_DELAYS_MS_def Let_def nth_Cons split: nat.split)

lemma decisions_ok:
  assumes "1 \<le> n" and "reason \<noteq> []" and "\<And>ms. after = Some ms \<Longrightarrow> 0 \<le> ms"
  shows "decision_ok (decideProviderTurnTransient reason n safety)" "decision_ok (decideSessionTransient reason n safety)"
    "decision_ok (decideProviderTurnCapacity reason n after safety)" "decision_ok (decideSessionCapacity reason n after safety)"
    "decision_ok (decideUnknown scope n safety)"
proof -
  show t: "decision_ok (decideProviderTurnTransient reason n safety)"
    using assms delays_nonneg(1) by (simp add: decision_ok_def decideProviderTurnTransient_def PROVIDER_TURN_MAX_RETRIES_def)
  show "decision_ok (decideSessionTransient reason n safety)"
    using assms by (simp add: decision_ok_def decideSessionTransient_def SESSION_TRANSIENT_CAP_MS_def Let_def)
  have retry: "decision_ok (RetryDecision d reason n (Some PROVIDER_TURN_MAX_RETRIES) mode safety sev)" if "0 \<le> d" for d mode sev
    using assms(1,2) that by (simp add: decision_ok_def PROVIDER_TURN_MAX_RETRIES_def)
  have stop: "decision_ok (StopDecision why kind safety sev)" if "why \<noteq> []" for why kind sev
    using that by (simp add: decision_ok_def)
  show "decision_ok (decideProviderTurnCapacity reason n after safety)"
    unfolding decideProviderTurnCapacity_def using assms(2,3) delays_nonneg(1) t retry stop
    by (cases after) auto
  show "decision_ok (decideSessionCapacity reason n after safety)"
    using assms by (cases after) (simp_all add: decision_ok_def decideSessionCapacity_def SESSION_CAPACITY_CAP_MS_def or_else_def Let_def)
  show "decision_ok (decideUnknown scope n safety)"
    using assms delays_nonneg(2) by (simp add: decision_ok_def decideUnknown_def UNKNOWN_MAX_RETRIES_def)
qed

lemma decide_ok:
  assumes "fc_reasonCode c \<noteq> []" and wait: "\<And>ms. (case after of Some ms \<Rightarrow> Some ms | None \<Rightarrow> fc_retryAfterMs c) = Some ms \<Longrightarrow> 0 \<le> ms"
  shows "decision_ok (decideProviderRetry c scope n after safety)"
proof -
  have stop: "decision_ok (StopDecision reason kind safety sev)" if "reason \<noteq> []" for reason kind sev
    using that by (simp add: decision_ok_def)
  note ok = decisions_ok [OF _ assms(1) wait]
  have "decision_ok (decideByCategory c scope (max 1 n)
      (case after of Some ms \<Rightarrow> Some ms | None \<Rightarrow> fc_retryAfterMs c) safety)"
    unfolding decideByCategory_def using assms(1) by (cases "fc_category c") (simp_all add: stop ok)
  then show ?thesis using assms(1) by (simp add: decideProviderRetry_def Let_def stop)
qed

text \<open>
  C24. Every event the policy builds for the classification of any thrown value of any provider,
  with its own decision or with none, passes the schema that the receivers parse it with: its reason is
  not empty, its attempts are positive and its delay is not negative, whatever wait the provider asked
  for. The bound of the preview is that of \<open>redactErrorPreview\<close>.
\<close>

theorem retry_events_are_well_typed:
  assumes "\<forall>text. length (redact text) \<le> 800" and "c = classifyProviderFailure now err provider source"
    and "decision = None \<or> decision = Some (decideProviderRetry c scope n after safety)"
    and "\<forall>ms. after = Some ms \<longrightarrow> 0 \<le> ms"
    and "buildProviderRetryEvent redact now' ev provider scope c decision preview = Inr payload"
  shows "providerRetryEventPayloadSchema payload"
proof -
  have reason: "fc_reasonCode c \<noteq> []" using assms(2) by (simp add: failure_reason)
  have wait: "0 \<le> ms" if "(case after of Some ms \<Rightarrow> Some ms | None \<Rightarrow> fc_retryAfterMs c) = Some ms" for ms
    using that assms(2,4) by (auto intro: failure_wait_nonneg split: option.splits)
  have preview: "(case preview of None \<Rightarrow> None | Some [] \<Rightarrow> None | Some (x # xs) \<Rightarrow> Some (redact (x # xs))) = Some t \<Longrightarrow>
      length t \<le> 800" for t
    using assms(1) by (auto split: option.splits list.splits)
  show ?thesis
  proof (cases decision)
    case None
    with assms(5) reason preview show ?thesis
      by (auto simp: buildProviderRetryEvent_def providerRetryEventPayloadSchema_def split: option.split)
  next
    case (Some d)
    with assms(3) have d: "d = decideProviderRetry c scope n after safety" by simp
    have ok: "decision_ok d" unfolding d using reason wait by (rule decide_ok)
    show ?thesis using assms(5) Some ok preview
      by (auto simp: decision_ok_def buildProviderRetryEvent_def providerRetryEventPayloadSchema_def Let_def split: option.splits if_splits)
  qed
qed

section \<open>Waits read from a failure\<close>

text \<open>
  The wait read from a ``resets in'' text is always a positive 32 bit number, but
  the code's bitwise or wraps: from about 597 hours on the wait is wrong, and a limit that resets in
  1200 hours is read as one that resets in seven.
\<close>

theorem resets_in_wraps:
  "(\<forall>input ms. parseResetsInDurationMs input = Some ms \<longrightarrow> 0 < ms \<and> ms < 2 ^ 31) \<and>
   parseResetsInDurationMs ''resets in 596h'' = Some (596 * 3600 * 1000) \<and>
   parseResetsInDurationMs ''resets in 600h'' = None \<and>
   parseResetsInDurationMs ''resets in 1200h'' = Some 25032704"
proof (intro conjI allI impI)
  fix input ms
  assume a: "parseResetsInDurationMs input = Some ms"
  have "to_int32 x < 2 ^ 31" for x
    using sint_lt [of "word_of_int x :: 32 word"] by (simp add: to_int32_def)
  with a show "0 < ms" "ms < 2 ^ 31"
    by (auto simp: parseResetsInDurationMs_def Let_def split: option.splits prod.splits if_splits)
qed (code_simp+)

text \<open>
  C36. Building the event of a decision fails exactly when the policy retries at a
  time a \<open>Date\<close> cannot hold; no cap in the policy excludes it, since a session start waits as long as
  the provider's retry-after says, however long that is.
\<close>

theorem event_range_error:
  "((\<exists>e. buildProviderRetryEvent redact now ev provider scope c (Some d) preview = Inl e) \<longleftrightarrow>
      is_retry d \<and> MAX_DATE_MS < \<bar>now + d_delayMs d\<bar>) \<and>
   (fc_category c = ProviderCapacity \<and> scope \<noteq> ProviderTurn \<longrightarrow>
      d_delayMs (decideProviderRetry c scope n (Some after) safety) = after)"
  by (auto simp: buildProviderRetryEvent_def Let_def decide_defs or_else_def)


section \<open>Witnesses\<close>

definition demo_failure :: "failure_category \<Rightarrow> string \<Rightarrow> failure_classification" where
  "demo_failure cat reason = \<lparr>fc_category = cat, fc_reasonCode = reason, fc_message = reason,
     fc_retryAfterMs = None, fc_sourceKind = Transient\<rparr>"

theorem unsafe_turn_is_not_replayed_witness:
  "is_retry (decideProviderRetry (demo_failure TransientTransport ''network_error'') ProviderTurn 1 None UserVisible) \<and>
   fc_category (demo_failure TransientTransport ''network_error'') \<in> {ProviderCapacity, TransientTransport} \<and>
   \<not> is_retry (decideProviderRetry (demo_failure TransientTransport ''network_error'') ProviderTurn 1 None UnsafeReplay)"
proof -
  have r: "is_retry (decideProviderRetry (demo_failure TransientTransport ''network_error'') ProviderTurn 1 None UserVisible)"
    by code_simp
  have "isUnsafeReplay UserVisible" "isUnsafeReplay UnsafeReplay" by code_simp+
  with r unsafe_turn_is_not_replayed [of "demo_failure TransientTransport ''network_error''" 1 None UserVisible]
    unsafe_turn_is_not_replayed [of "demo_failure TransientTransport ''network_error''" 1 None UnsafeReplay]
  show ?thesis by auto
qed

theorem turn_retries_are_bounded_witness:
  "d_delayMs (decideProviderRetry (demo_failure ProviderCapacity ''provider_rate_limited'') ProviderTurn 2 (Some 20000) PreVisible) \<le> 30000 \<and>
   is_retry (decideProviderRetry (demo_failure ProviderCapacity ''provider_rate_limited'') ProviderTurn 2 (Some 20000) PreVisible)"
proof -
  have r: "is_retry (decideProviderRetry (demo_failure ProviderCapacity ''provider_rate_limited'') ProviderTurn 2 (Some 20000) PreVisible)"
    by code_simp
  from turn_retries_are_bounded [OF this] r show ?thesis by blast
qed

theorem session_start_keeps_trying_witness:
  "d_delayMs (decideProviderRetry (demo_failure TransientTransport ''network_error'') SessionStart 4 None PreProvider) = 8000"
proof -
  have h: "SessionStart \<noteq> ProviderTurn" "fc_category (demo_failure TransientTransport ''network_error'') = TransientTransport"
    by (simp_all add: demo_failure_def)
  from session_start_keeps_trying [OF h, of 4 None PreProvider] show ?thesis by simp
qed

theorem operator_problems_are_not_retried_witness:
  "\<not> is_retry (decideProviderRetry (demo_failure Credential ''provider_credential_required'') SessionStart 1 None PreProvider)"
proof -
  have "fc_category (demo_failure Credential ''provider_credential_required'')
      \<in> {RuntimeTransport, Credential, Capability, Configuration, DeterministicInput}"
    by (simp add: demo_failure_def)
  from operator_problems_are_not_retried [OF this, of SessionStart 1 None PreProvider] show ?thesis by blast
qed

definition demo_thrown :: thrown where
  "demo_thrown = ThrownError PlainError
     (no_fields\<lparr>e_name := Some ''Error'', e_message := Some ''429: agent_runtime_session_missing''\<rparr>) None"

theorem runtime_proof_dominates_witness:
  "decideProviderRetry (classifyProviderFailure 0 demo_thrown Codex None) ProviderTurn 1 (Some 5) PreProvider =
     StopDecision ''runtime_session_missing'' TKRebindRequired PreProvider SevWarning"
proof -
  have "runtimeSessionProofReason (readErrorShape demo_thrown) (failure_text (readErrorShape demo_thrown)) =
      Some ''runtime_session_missing''"
    by code_simp
  from runtime_proof_dominates [OF this, of 0 Codex None ProviderTurn 1 "Some 5" PreProvider] show ?thesis by blast
qed

theorem transient_means_backoff_witness:
  "c_strategy (classify (ThrownString ''fetch failed'') None) = ExponentialBackoff 1000 300000 True \<and>
   (1000::int) \<le> 1000 \<and> (300000::int) \<le> 600000"
proof -
  have c: "c_strategy (classify (ThrownString ''fetch failed'') None) = ExponentialBackoff 1000 300000 True" by code_simp
  from transient_means_backoff [of "ThrownString ''fetch failed''" None] c show ?thesis by auto
qed

theorem backoff_delay_bounds_witness:
  "0 \<le> nextRetryDelayMs (1 / 4) (ExponentialBackoff 1000 300000 True) 3 \<and>
   5 * nextRetryDelayMs (1 / 4) (ExponentialBackoff 1000 300000 True) 3 \<le> 6 * 300000 + 2"
proof -
  have "0 \<le> (1 / 4 :: rat)" "(1 / 4 :: rat) < 1" "0 \<le> (1000 :: int)" "(1000 :: int) \<le> 300000" by simp_all
  from backoff_delay_bounds [OF this, of 3] show ?thesis by blast
qed

theorem strongest_failure_settles_witness:
  "let a = record_failures (new_attempt Codex ProviderTurn None None)
         [(demo_failure TransientTransport ''network_error'', ''net''), (demo_failure Credential ''auth'', ''key''),
          (demo_failure ProviderCapacity ''quota'', ''quota'')]
   in at_strongest a = Some (demo_failure Credential ''auth'', ''key'') \<and>
      (\<forall>x \<in> {(demo_failure ProviderCapacity ''quota'', ''quota'')}. score_of x \<le> 400)"
proof -
  let ?f = "(demo_failure TransientTransport ''network_error'', ''net'')"
  let ?fs = "[(demo_failure Credential ''auth'', ''key''), (demo_failure ProviderCapacity ''quota'', ''quota'')]"
  have m: "first_max ?f ?fs = (demo_failure Credential ''auth'', ''key'')"
    "score_of (demo_failure Credential ''auth'', ''key'') = 400" by code_simp+
  from strongest_failure_settles [OF refl, of Codex ProviderTurn None None ?f ?fs id 0 1 None] m
  show ?thesis by (simp add: Let_def)
qed

theorem resets_in_wraps_witness:
  "parseResetsInDurationMs ''usage limit, resets in 1h30m'' = Some 5400000 \<and> (5400000 :: int) < 2 ^ 31"
proof -
  have p: "parseResetsInDurationMs ''usage limit, resets in 1h30m'' = Some 5400000" by code_simp
  with resets_in_wraps show ?thesis by blast
qed

theorem event_range_error_witness:
  "(\<exists>e. buildProviderRetryEvent id 0 RetryScheduled Codex SessionStart (demo_failure ProviderCapacity ''quota'')
      (Some (decideProviderRetry (demo_failure ProviderCapacity ''quota'') SessionStart 1 (Some (MAX_DATE_MS + 1)) PreProvider))
      None = Inl e)"
proof -
  let ?d = "decideProviderRetry (demo_failure ProviderCapacity ''quota'') SessionStart 1 (Some (MAX_DATE_MS + 1)) PreProvider"
  have "is_retry ?d \<and> MAX_DATE_MS < \<bar>0 + d_delayMs ?d\<bar>" by code_simp
  with event_range_error [of id 0 RetryScheduled Codex SessionStart "demo_failure ProviderCapacity ''quota''" ?d None]
  show ?thesis by blast
qed

theorem retry_events_are_well_typed_witness:
  "\<exists>payload. buildProviderRetryEvent (take 256) 0 RetryScheduled Codex SessionStart
      (classifyProviderFailure 0 (ThrownString ''fetch failed'') Codex None)
      (Some (decideProviderRetry (classifyProviderFailure 0 (ThrownString ''fetch failed'') Codex None) SessionStart 1 None PreProvider))
      None = Inr payload \<and> rp_delayMs payload = Some 1000 \<and> providerRetryEventPayloadSchema payload"
proof -
  let ?c = "classifyProviderFailure 0 (ThrownString ''fetch failed'') Codex None"
  let ?d = "decideProviderRetry ?c SessionStart 1 None PreProvider"
  have "(case buildProviderRetryEvent (take 256) 0 RetryScheduled Codex SessionStart ?c (Some ?d) None of
     Inl e \<Rightarrow> None | Inr p \<Rightarrow> rp_delayMs p) = Some 1000" by code_simp
  then obtain p where p: "buildProviderRetryEvent (take 256) 0 RetryScheduled Codex SessionStart ?c (Some ?d) None = Inr p"
    "rp_delayMs p = Some 1000" by (auto split: sum.splits)
  have "providerRetryEventPayloadSchema p" by (rule retry_events_are_well_typed [OF _ refl _ _ p(1), where after = None]) auto
  with p show ?thesis by blast
qed

end
