(* ===== verification/Disk.thy ===== *)
theory Disk
  imports JsBase
begin

text \<open>
  JSON values and the two files of a persisted store: the file itself and the temporary sibling it is
  written to before the rename. A file holds what \<open>JSON.parse\<close> makes of its text, \<open>None\<close> when it is
  no JSON. A string that is written or read as a date is the leaf \<open>JDate\<close> with the time it stands
  for, \<open>None\<close> when it is no date. \<open>io\<close> says which file system calls throw.
\<close>

section \<open>JSON and the disk\<close>

datatype json =
    JNull
  | JBool bool
  | JNum int
  | JStr string
  | JDate "int option"
  | JArr "json list"
  | JObj "(string \<times> json) list"

type_synonym content = "json option"

datatype file_state = Missing | Unreadable string | Readable content

record disk =
  dk_file :: file_state
  dk_tmp :: file_state

datatype fs_call = Mkdir | WriteTmp | OpenTmp | FsyncTmp | CloseTmp | Rename | OpenDir | FsyncDir | CloseDir

text \<open>\<open>fails\<close> gives the message of a call that throws; a failed write may leave any temporary file.\<close>

record io =
  fails :: "fs_call \<Rightarrow> string option"
  partialTmp :: file_state


end
