(* ===== verification/ReplayFence.thy ===== *)
theory ReplayFence
  imports Disk
begin

text \<open>
  The model of \<open>runtime/replay-fence.ts\<close>: the durable record of deliveries whose replay would repeat
  an effect. The calls \<open>persist\<close> makes are steps on the file and its temporary sibling, and the list of
  disks they pass through is kept, since the process can be killed after any of them.
\<close>

section \<open>The store\<close>

record replay_fence_entry =
  rf_chatId :: string
  rf_messageId :: string
  rf_provider :: string
  rf_toolName :: string
  rf_toolUseId :: string
  rf_fencedAt :: string

record fence_store =
  fs_entries :: "(string, replay_fence_entry) jsmap"
  fs_loaded :: bool

definition new_fence_store :: fence_store where
  "new_fence_store = \<lparr>fs_entries = [], fs_loaded = False\<rparr>"

datatype fence_error =
    FenceUnreadable string
  | FenceCorrupted
  | FenceUnsupportedVersion
  | FenceMalformedEntries
  | FenceMalformedEntry string
  | FencePersistFailed string

definition FENCE_VERSION :: int where "FENCE_VERSION = 1"

definition keyOf :: "string \<Rightarrow> string \<Rightarrow> string" where
  "keyOf chatId messageId = nat_str (length chatId) @ '':'' @ chatId @ messageId"

fun json_str :: "json option \<Rightarrow> string option" where
  "json_str (Some (JStr s)) = Some s"
| "json_str _ = None"

text \<open>\<open>isValidEntry\<close>, with the entry it narrows to. A value that is no object fails the test.\<close>

definition validEntry :: "json \<Rightarrow> replay_fence_entry option" where
  "validEntry v =
     (case v of
        JObj props \<Rightarrow>
          (case (json_str (js_get props ''chatId''), json_str (js_get props ''messageId''),
                 json_str (js_get props ''provider''), json_str (js_get props ''toolName''),
                 json_str (js_get props ''toolUseId''), json_str (js_get props ''fencedAt'')) of
             (Some c, Some m, Some p, Some n, Some u, Some a) \<Rightarrow>
               Some \<lparr>rf_chatId = c, rf_messageId = m, rf_provider = p, rf_toolName = n,
                     rf_toolUseId = u, rf_fencedAt = a\<rparr>
           | _ \<Rightarrow> None)
      | _ \<Rightarrow> None)"

fun load_entries ::
  "(string \<times> json) list \<Rightarrow> (string, replay_fence_entry) jsmap \<Rightarrow>
   fence_error + (string, replay_fence_entry) jsmap" where
  "load_entries [] acc = Inr acc"
| "load_entries ((key, v) # rest) acc =
     (case validEntry v of
        None \<Rightarrow> Inl (FenceMalformedEntry key)
      | Some e \<Rightarrow>
          if keyOf (rf_chatId e) (rf_messageId e) \<noteq> key then Inl (FenceMalformedEntry key)
          else load_entries rest (js_set acc key e))"

text \<open>\<open>Object.entries\<close> of the parsed \<open>entries\<close> field; an array is refused before.\<close>

definition load_data :: "json \<Rightarrow> fence_error + (string, replay_fence_entry) jsmap" where
  "load_data data =
     (case data of
        JObj props \<Rightarrow>
          (if js_get props ''version'' \<noteq> Some (JNum FENCE_VERSION) then Inl FenceUnsupportedVersion
           else case js_get props ''entries'' of
             Some (JObj entries) \<Rightarrow> load_entries entries []
           | _ \<Rightarrow> Inl FenceMalformedEntries)
      | _ \<Rightarrow> Inl FenceUnsupportedVersion)"

definition load_store :: "disk \<Rightarrow> fence_store \<Rightarrow> (fence_error + unit) \<times> fence_store" where
  "load_store d s =
     (case dk_file d of
        Missing \<Rightarrow> (Inr (), s\<lparr>fs_loaded := True\<rparr>)
      | Unreadable msg \<Rightarrow> (Inl (FenceUnreadable msg), s)
      | Readable None \<Rightarrow> (Inl FenceCorrupted, s)
      | Readable (Some data) \<Rightarrow>
          (case load_data data of
             Inl e \<Rightarrow> (Inl e, s)
           | Inr m \<Rightarrow> (Inr (), s\<lparr>fs_entries := m, fs_loaded := True\<rparr>)))"

definition isFenced :: "fence_store \<Rightarrow> string \<Rightarrow> string \<Rightarrow> bool" where
  "isFenced s chatId messageId = js_has (fs_entries s) (keyOf chatId messageId)"

definition hasFenceForChat :: "fence_store \<Rightarrow> string \<Rightarrow> bool" where
  "hasFenceForChat s chatId = list_ex (\<lambda>(k, e). rf_chatId e = chatId) (fs_entries s)"

definition fence_snapshot :: "fence_store \<Rightarrow> replay_fence_entry list" where
  "fence_snapshot s = map snd (fs_entries s)"


section \<open>Persisting\<close>

definition entry_json :: "replay_fence_entry \<Rightarrow> json" where
  "entry_json e = JObj
     [(''chatId'', JStr (rf_chatId e)), (''messageId'', JStr (rf_messageId e)),
      (''provider'', JStr (rf_provider e)), (''toolName'', JStr (rf_toolName e)),
      (''toolUseId'', JStr (rf_toolUseId e)), (''fencedAt'', JStr (rf_fencedAt e))]"

definition store_json :: "(string, replay_fence_entry) jsmap \<Rightarrow> json" where
  "store_json m = JObj
     [(''version'', JNum FENCE_VERSION),
      (''entries'', JObj (foldl (\<lambda>ob (k, e). js_set ob k (entry_json e)) [] m))]"

text \<open>
  \<open>persist\<close> is mkdir, write, open, fsync, close, rename; a failure of one throws, and the rest is
  skipped (the close of an fsync that failed is still called). The fsync of the directory is tried
  and its failure ignored. The first result lists the disks in the order they are reached.
\<close>

definition sync_failure :: "io \<Rightarrow> string option" where
  "sync_failure i =
     (case fails i OpenTmp of
        Some m \<Rightarrow> Some m
      | None \<Rightarrow> (case fails i CloseTmp of Some m \<Rightarrow> Some m | None \<Rightarrow> fails i FsyncTmp))"

definition persist :: "io \<Rightarrow> json \<Rightarrow> disk \<Rightarrow> disk list \<times> (fence_error + unit)" where
  "persist i data d =
     (case fails i Mkdir of
        Some m \<Rightarrow> ([d], Inl (FencePersistFailed m))
      | None \<Rightarrow>
          (case fails i WriteTmp of
             Some m \<Rightarrow> ([d, d\<lparr>dk_tmp := partialTmp i\<rparr>], Inl (FencePersistFailed m))
           | None \<Rightarrow>
               (let d1 = d\<lparr>dk_tmp := Readable (Some data)\<rparr> in
                case sync_failure i of
                  Some m \<Rightarrow> ([d, d\<lparr>dk_tmp := partialTmp i\<rparr>, d1], Inl (FencePersistFailed m))
                | None \<Rightarrow>
                    (case fails i Rename of
                       Some m \<Rightarrow> ([d, d\<lparr>dk_tmp := partialTmp i\<rparr>, d1], Inl (FencePersistFailed m))
                     | None \<Rightarrow>
                         ([d, d\<lparr>dk_tmp := partialTmp i\<rparr>, d1, d1\<lparr>dk_file := dk_tmp d1, dk_tmp := Missing\<rparr>],
                          Inr ())))))"

definition fence ::
  "io \<Rightarrow> replay_fence_entry \<Rightarrow> fence_store \<Rightarrow> disk \<Rightarrow> (fence_error + unit) \<times> fence_store \<times> disk list" where
  "fence i entry s d =
     (let key = keyOf (rf_chatId entry) (rf_messageId entry) in
      if js_has (fs_entries s) key then (Inr (), s, [d])
      else let m = js_set (fs_entries s) key entry in
        case persist i (store_json m) d of
          (ds, Inr _) \<Rightarrow> (Inr (), s\<lparr>fs_entries := m\<rparr>, ds)
        | (ds, Inl e) \<Rightarrow> (Inl e, s\<lparr>fs_entries := js_delete m key\<rparr>, ds))"

definition clear_fence ::
  "io \<Rightarrow> string \<Rightarrow> string \<Rightarrow> fence_store \<Rightarrow> disk \<Rightarrow> (fence_error + unit) \<times> fence_store \<times> disk list" where
  "clear_fence i chatId messageId s d =
     (let key = keyOf chatId messageId in
      case js_get (fs_entries s) key of
        None \<Rightarrow> (Inr (), s, [d])
      | Some existing \<Rightarrow>
          (let m = js_delete (fs_entries s) key in
           case persist i (store_json m) d of
             (ds, Inr _) \<Rightarrow> (Inr (), s\<lparr>fs_entries := m\<rparr>, ds)
           | (ds, Inl e) \<Rightarrow> (Inl e, s\<lparr>fs_entries := js_set m key existing\<rparr>, ds)))"

end
