(* ===== verification/FenceProperties.thy ===== *)
theory FenceProperties
  imports ReplayFence HeldFacts
begin

text \<open>
  What the replay fence promises: distinct deliveries have distinct keys, what is persisted is what is
  loaded, a mutation is atomic on disk and in memory, a store that cannot be trusted is refused, and
  a fence that was taken survives every crash until it is cleared. The store is an
  instance of the contract \<open>held_facts\<close>.
\<close>

section \<open>Keys\<close>

lemma colon_not_digit: "CHR '':'' \<notin> set (nat_str n)"
  by (rule nat_str_no_char) simp

lemma keyOf_inj': "keyOf c m = keyOf c' m' \<Longrightarrow> c = c' \<and> m = m'"
proof -
  assume a: "keyOf c m = keyOf c' m'"
  have t: "takeWhile (\<lambda>x. x \<noteq> CHR '':'') (keyOf c m) = nat_str (length c)" for c m
    using colon_not_digit [of "length c"]
    by (auto simp: keyOf_def takeWhile_append takeWhile_eq_all_conv)
  have "nat_str (length c) = nat_str (length c')" using t [of c m] t [of c' m'] a by simp
  then have len: "length c = length c'" by (rule nat_str_inj)
  with a have "c @ m = c' @ m'" by (simp add: keyOf_def)
  with len show ?thesis by simp
qed

text \<open>
  The length-prefixed key tells deliveries apart whatever characters the
  ids contain: two pairs of chat and message have the same key only when they are the same pair.
\<close>

theorem fence_keys_are_unambiguous: "keyOf c m = keyOf c' m' \<longleftrightarrow> c = c' \<and> m = m'"
  using keyOf_inj' by blast


section \<open>Round trip\<close>

definition store_wf :: "(string, replay_fence_entry) jsmap \<Rightarrow> bool" where
  "store_wf m \<longleftrightarrow>
     distinct (map fst m) \<and> (\<forall>(k, e) \<in> set m. k = keyOf (rf_chatId e) (rf_messageId e))"

lemma set_js_set: "set (js_set m k v) \<subseteq> insert (k, v) (set m)"
  by (induction m) auto

lemma store_wf_set:
  "store_wf m \<Longrightarrow> store_wf (js_set m (keyOf (rf_chatId e) (rf_messageId e)) e)"
  unfolding store_wf_def using set_js_set [of "keyOf (rf_chatId e) (rf_messageId e)" e m]
  by (fastforce simp: AList.distinct_update)

lemma store_wf_delete: "store_wf m \<Longrightarrow> store_wf (js_delete m k)"
  by (auto simp: store_wf_def AList.distinct_delete) (auto simp: AList.delete_eq)

lemma store_wf_get:
  "store_wf m \<Longrightarrow> js_get m k = Some e \<Longrightarrow> k = keyOf (rf_chatId e) (rf_messageId e)"
  by (auto simp: store_wf_def dest: map_of_SomeD)

lemma js_set_new: "k \<notin> set (map fst m) \<Longrightarrow> js_set m k v = m @ [(k, v)]"
  by (induction m) auto

lemma json_fold:
  "distinct (map fst acc @ map fst m) \<Longrightarrow>
   foldl (\<lambda>ob (k, e). js_set ob k (entry_json e)) acc m = acc @ map (\<lambda>(k, e). (k, entry_json e)) m"
proof (induction m arbitrary: acc)
  case (Cons x m)
  obtain k e where x: "x = (k, e)" by (cases x)
  with Cons.prems have "js_set acc k (entry_json e) = acc @ [(k, entry_json e)]"
    by (intro js_set_new) auto
  moreover have "foldl (\<lambda>ob (k, e). js_set ob k (entry_json e)) (acc @ [(k, entry_json e)]) m =
      (acc @ [(k, entry_json e)]) @ map (\<lambda>(k, e). (k, entry_json e)) m"
    by (rule Cons.IH) (use Cons.prems x in auto)
  ultimately show ?case by (simp add: x)
qed simp

lemma validEntry_json: "validEntry (entry_json e) = Some e"
  by (simp add: validEntry_def entry_json_def)

lemma load_entries_json:
  "store_wf (acc @ m) \<Longrightarrow> load_entries (map (\<lambda>(k, e). (k, entry_json e)) m) acc = Inr (acc @ m)"
proof (induction m arbitrary: acc)
  case (Cons x m)
  obtain k e where x: "x = (k, e)" by (cases x)
  with Cons.prems have new: "js_set acc k e = acc @ [(k, e)]" and k: "keyOf (rf_chatId e) (rf_messageId e) = k"
    by (auto simp: store_wf_def intro!: js_set_new)
  have "load_entries (map (\<lambda>(k, e). (k, entry_json e)) m) (acc @ [(k, e)]) = Inr ((acc @ [(k, e)]) @ m)"
    by (rule Cons.IH) (use Cons.prems x in simp)
  with new k show ?case by (simp add: x validEntry_json)
qed simp

lemma load_store_json: "store_wf m \<Longrightarrow> load_data (store_json m) = Inr m"
  using json_fold [of "[]" m] load_entries_json [of "[]" m]
  by (simp add: load_data_def store_json_def FENCE_VERSION_def store_wf_def)

text \<open>
  What is persisted is what is loaded: a well-formed store written to the file is
  loaded back with the same fences in the same order, into any store.
\<close>

theorem fence_round_trip:
  assumes "store_wf m"
  shows "load_store \<lparr>dk_file = Readable (Some (store_json m)), dk_tmp = t\<rparr> s =
    (Inr (), s\<lparr>fs_entries := m, fs_loaded := True\<rparr>)"
  using load_store_json [OF assms] by (simp add: load_store_def)


section \<open>Atomic mutations\<close>

text \<open>The fences a process that starts on this disk has, \<open>None\<close> when it refuses the file.\<close>

definition disk_fences :: "disk \<Rightarrow> (string \<rightharpoonup> replay_fence_entry) option" where
  "disk_fences d =
     (case load_store d new_fence_store of
        (Inr _, s) \<Rightarrow> Some (js_get (fs_entries s))
      | (Inl _, s) \<Rightarrow> None)"

definition in_sync :: "fence_store \<Rightarrow> disk \<Rightarrow> bool" where
  "in_sync s d \<longleftrightarrow> store_wf (fs_entries s) \<and> disk_fences d = Some (js_get (fs_entries s))"

lemma disk_fences_tmp [simp]: "disk_fences (d\<lparr>dk_tmp := t\<rparr>) = disk_fences d"
  by (simp add: disk_fences_def load_store_def split: file_state.split option.split)

lemma disk_fences_written:
  "store_wf m \<Longrightarrow> dk_file d = Readable (Some (store_json m)) \<Longrightarrow> disk_fences d = Some (js_get m)"
  by (simp add: disk_fences_def load_store_def load_store_json split: sum.split)

lemma persist_result:
  assumes "persist i (store_json m) d = (ds, r)" and "store_wf m"
  shows "ds \<noteq> [] \<and> (\<forall>x \<in> set ds. disk_fences x = disk_fences d \<or> disk_fences x = Some (js_get m)) \<and>
    (case r of Inr _ \<Rightarrow> disk_fences (last ds) = Some (js_get m) | Inl _ \<Rightarrow> disk_fences (last ds) = disk_fences d)"
  using assms by (auto simp: persist_def Let_def disk_fences_written split: option.splits)

lemma js_get_ext: "(\<And>k. js_get m k = js_get m' k) \<Longrightarrow> js_get m = js_get m'"
  by (rule ext)

lemma delete_set_new: "k \<notin> set (map fst m) \<Longrightarrow> js_delete (js_set m k v) k = m"
  by (induction m) (auto simp: AList.delete_eq)

lemma fence_outcome:
  assumes "in_sync s d" and "fence i e s d = (r, s', ds)"
  shows "ds \<noteq> [] \<and> in_sync s' (last ds) \<and>
    (\<forall>x \<in> set ds. disk_fences x = Some (js_get (fs_entries s)) \<or>
       disk_fences x = Some ((js_get (fs_entries s)) (keyOf (rf_chatId e) (rf_messageId e) \<mapsto> e))) \<and>
    (r = Inr () \<and> isFenced s' (rf_chatId e) (rf_messageId e) \<and>
       (\<forall>c m. isFenced s c m \<longrightarrow> isFenced s' c m) \<or>
     (\<exists>msg. r = Inl (FencePersistFailed msg)) \<and> s' = s)"
proof (cases "js_has (fs_entries s) (keyOf (rf_chatId e) (rf_messageId e))")
  case True
  with assms show ?thesis by (auto simp: fence_def in_sync_def isFenced_def)
next
  case False
  let ?key = "keyOf (rf_chatId e) (rf_messageId e)"
  let ?m = "js_set (fs_entries s) ?key e"
  have wf: "store_wf ?m" using assms(1) by (simp add: in_sync_def store_wf_set)
  have get: "js_get ?m = (js_get (fs_entries s)) (?key \<mapsto> e)" by (rule ext) simp
  have del: "js_delete ?m ?key = fs_entries s"
    by (rule delete_set_new) (use False in \<open>simp add: js_has_iff js_keys_def\<close>)
  obtain es q where p: "persist i (store_json ?m) d = (es, q)" by (cases "persist i (store_json ?m) d")
  note res = persist_result [OF p wf]
  have msg: "\<exists>msg. x = FencePersistFailed msg" if "q = Inl x" for x
    using p that by (auto simp: persist_def Let_def split: option.splits)
  show ?thesis
    using assms False p res msg wf get del
    by (cases q) (auto simp: fence_def Let_def in_sync_def isFenced_def)
qed

lemma clear_outcome:
  assumes "in_sync s d" and "clear_fence i c m s d = (r, s', ds)"
  shows "ds \<noteq> [] \<and> in_sync s' (last ds) \<and>
    (\<forall>x \<in> set ds. disk_fences x = Some (js_get (fs_entries s)) \<or>
       disk_fences x = Some ((js_get (fs_entries s)) (keyOf c m := None))) \<and>
    (r = Inr () \<and> js_get (fs_entries s') = (js_get (fs_entries s)) (keyOf c m := None) \<or>
     (\<exists>msg. r = Inl (FencePersistFailed msg)) \<and> js_get (fs_entries s') = js_get (fs_entries s))"
proof (cases "js_get (fs_entries s) (keyOf c m)")
  case None
  then have "(js_get (fs_entries s)) (keyOf c m := None) = js_get (fs_entries s)" by (auto simp: fun_eq_iff)
  with None assms show ?thesis by (auto simp: clear_fence_def Let_def in_sync_def)
next
  case (Some existing)
  let ?key = "keyOf c m"
  let ?m = "js_delete (fs_entries s) ?key"
  have swf: "store_wf (fs_entries s)" using assms(1) by (simp add: in_sync_def)
  have wf: "store_wf ?m" using swf by (rule store_wf_delete)
  have key: "?key = keyOf (rf_chatId existing) (rf_messageId existing)" by (rule store_wf_get [OF swf Some])
  note maps = AList.update_conv' AList.delete_conv' map_upd_triv [of "js_get (fs_entries s)", OF Some]
  have wfb: "store_wf (js_set ?m ?key existing)" using store_wf_set [OF wf, of existing] key by simp
  obtain es q where p: "persist i (store_json ?m) d = (es, q)" by (cases "persist i (store_json ?m) d")
  note res = persist_result [OF p wf, unfolded AList.delete_conv']
  have msg: "\<exists>msg. x = FencePersistFailed msg" if "q = Inl x" for x
    using p that by (auto simp: persist_def Let_def split: option.splits)
  show ?thesis
    using assms Some p res msg wf wfb
    by (cases q) (auto simp: clear_fence_def Let_def in_sync_def maps simp del: js_get_set js_get_delete,
        auto simp: fun_upd_def)
qed


text \<open>
  C34. Taking a fence is atomic. On a store in step with its file, whichever of the file
  system calls fails: either the call returns and the delivery is fenced in memory and on disk, or it
  throws a persist error and the store is exactly as before; earlier fences stay; and every disk the
  calls pass through, where the process may be killed, loads as the fences before or after the call.
\<close>

theorem fence_is_atomic:
  assumes "in_sync s d" and "fence i e s d = (r, s', ds)"
  shows "in_sync s' (last ds) \<and>
    (\<forall>x \<in> set ds. disk_fences x = Some (js_get (fs_entries s)) \<or>
       disk_fences x = Some ((js_get (fs_entries s)) (keyOf (rf_chatId e) (rf_messageId e) \<mapsto> e))) \<and>
    (r = Inr () \<and> isFenced s' (rf_chatId e) (rf_messageId e) \<and>
       (\<forall>c m. isFenced s c m \<longrightarrow> isFenced s' c m) \<or>
     (\<exists>msg. r = Inl (FencePersistFailed msg)) \<and> s' = s)"
  using fence_outcome [OF assms] by blast

lemma load_entries_sound:
  "load_entries es acc = Inr m \<Longrightarrow> store_wf acc \<Longrightarrow>
   store_wf m \<and> (\<forall>(k, v) \<in> set es. js_get m k \<noteq> None) \<and> (\<forall>k. js_get acc k \<noteq> None \<longrightarrow> js_get m k \<noteq> None)"
proof (induction es arbitrary: acc)
  case (Cons x es)
  obtain k v where x: "x = (k, v)" by (cases x)
  with Cons.prems(1) obtain e where e: "validEntry v = Some e" "keyOf (rf_chatId e) (rf_messageId e) = k"
    and rest: "load_entries es (js_set acc k e) = Inr m"
    by (auto split: option.splits if_splits)
  have "store_wf (js_set acc k e)" using store_wf_set [OF Cons.prems(2), of e] e(2) by simp
  from Cons.IH [OF rest this] x show ?case by (auto split: if_splits)
qed simp

text \<open>
  A store that cannot be trusted is refused: loading succeeds only when the file is
  missing, and then nothing changes but the loaded flag, or when it holds a version 1 object whose
  entries are all valid and all under their own key, and then every entry is fenced. An unreadable or
  corrupt file, another version, or a single malformed entry is an error that leaves the store alone.
\<close>

theorem load_fails_closed:
  assumes "load_store d s = (r, s')"
  shows "(\<exists>e. r = Inl e) \<and> s' = s \<or>
    r = Inr () \<and> dk_file d = Missing \<and> s' = s\<lparr>fs_loaded := True\<rparr> \<or>
    r = Inr () \<and> (\<exists>ps es. dk_file d = Readable (Some (JObj ps)) \<and>
      js_get ps ''version'' = Some (JNum 1) \<and> js_get ps ''entries'' = Some (JObj es) \<and>
      store_wf (fs_entries s') \<and>
      (\<forall>(k, v) \<in> set es. \<exists>e. validEntry v = Some e \<and> isFenced s' (rf_chatId e) (rf_messageId e)))"
proof -
  have valid: "\<exists>e. validEntry v = Some e \<and> k = keyOf (rf_chatId e) (rf_messageId e)"
    if "load_entries es acc = Inr m" "(k, v) \<in> set es" for es acc m k v
    using that
  proof (induction es arbitrary: acc)
    case (Cons x es)
    then show ?case by (cases x) (auto split: option.splits if_splits)
  qed simp
  have "(\<exists>e. load_data data = Inl e) \<or>
    (\<exists>ps es m. data = JObj ps \<and> js_get ps ''version'' = Some (JNum 1) \<and>
       js_get ps ''entries'' = Some (JObj es) \<and> load_data data = Inr m \<and> load_entries es [] = Inr m)" for data
    by (auto simp: load_data_def FENCE_VERSION_def split: json.splits option.splits sum.split)
       (metis old.sum.exhaust)
  note cases = this
  show ?thesis
  proof (cases "\<exists>data. dk_file d = Readable (Some data)")
    case True
    then obtain data where data: "dk_file d = Readable (Some data)" by blast
    from cases [of data] show ?thesis
    proof
      assume "\<exists>e. load_data data = Inl e"
      with assms data show ?thesis by (auto simp: load_store_def)
    next
      assume "\<exists>ps es m. data = JObj ps \<and> js_get ps ''version'' = Some (JNum 1) \<and>
         js_get ps ''entries'' = Some (JObj es) \<and> load_data data = Inr m \<and> load_entries es [] = Inr m"
      then obtain ps es m where m: "data = JObj ps" "js_get ps ''version'' = Some (JNum 1)"
        "js_get ps ''entries'' = Some (JObj es)" "load_data data = Inr m" "load_entries es [] = Inr m" by blast
      have "store_wf []" by (simp add: store_wf_def)
      note ok = load_entries_sound [OF m(5) this]
      have s': "r = Inr ()" "fs_entries s' = m" using assms data m(4) by (auto simp: load_store_def)
      have "\<exists>e. validEntry v = Some e \<and> isFenced s' (rf_chatId e) (rf_messageId e)" if "(k, v) \<in> set es" for k v
        using valid [OF m(5) that] ok that s'(2) by (fastforce simp: isFenced_def js_has_def)
      with data m s' ok show ?thesis by blast
    qed
  next
    case False
    with assms show ?thesis by (auto simp: load_store_def split: file_state.splits option.splits)
  qed
qed


section \<open>Across crashes\<close>

text \<open>
  One call of a handler, and whether the process is killed during it: \<open>Some n\<close> kills it when the
  \<open>n\<close>th disk is reached (the last one when there are fewer), and a new process loads that disk.
\<close>

datatype fence_op = OpFence io replay_fence_entry | OpClear io string string

definition run_op :: "fence_op \<Rightarrow> fence_store \<Rightarrow> disk \<Rightarrow> (fence_error + unit) \<times> fence_store \<times> disk list" where
  "run_op op s d = (case op of OpFence i e \<Rightarrow> fence i e s d | OpClear i c m \<Rightarrow> clear_fence i c m s d)"

definition fence_exec :: "fence_store \<times> disk \<Rightarrow> fence_op \<times> nat option \<Rightarrow> fence_store \<times> disk" where
  "fence_exec st ev =
     (case run_op (fst ev) (fst st) (snd st) of
        (r, s', ds) \<Rightarrow>
          (case snd ev of
             None \<Rightarrow> (s', last ds)
           | Some n \<Rightarrow>
               (let x = ds ! min n (length ds - 1) in (snd (load_store x new_fence_store), x))))"

fun op_releases :: "fence_op \<times> nat option \<Rightarrow> string \<times> string \<Rightarrow> bool" where
  "op_releases (OpClear i c m, kill) cm = (cm = (c, m))"
| "op_releases (OpFence i e, kill) cm = False"

definition holds_fence :: "fence_store \<times> disk \<Rightarrow> string \<times> string \<Rightarrow> bool" where
  "holds_fence st cm = isFenced (fst st) (fst cm) (snd cm)"

lemma reopened:
  assumes "disk_fences x = Some f"
  shows "js_get (fs_entries (snd (load_store x new_fence_store))) = f \<and>
    store_wf (fs_entries (snd (load_store x new_fence_store)))"
proof -
  have wf: "store_wf []" by (simp add: store_wf_def)
  show ?thesis
    using assms load_entries_sound [OF _ wf]
    by (auto simp: disk_fences_def load_store_def new_fence_store_def load_data_def wf
        split: file_state.splits option.splits sum.splits json.splits if_splits)
qed

lemma fence_exec_sound:
  assumes "in_sync (fst st) (snd st)"
  shows "in_sync (fst (fence_exec st ev)) (snd (fence_exec st ev)) \<and>
    (\<forall>cm. holds_fence st cm \<longrightarrow> op_releases ev cm \<or> holds_fence (fence_exec st ev) cm)"
proof -
  obtain s d where st: "st = (s, d)" by (cases st)
  obtain op kill where ev: "ev = (op, kill)" by (cases ev)
  obtain r s' ds where run: "run_op op s d = (r, s', ds)" by (cases "run_op op s d")
  have ok: "in_sync s d" using assms st by simp
  let ?keep = "\<lambda>f. \<forall>c m. isFenced s c m \<longrightarrow> op_releases ev (c, m) \<or> f (keyOf c m) \<noteq> None"
  have keep: "ds \<noteq> [] \<and> in_sync s' (last ds) \<and> ?keep (js_get (fs_entries s')) \<and>
      (\<forall>x \<in> set ds. \<exists>f. disk_fences x = Some f \<and> ?keep f)"
  proof (cases op)
    case (OpFence i e)
    with run have f: "fence i e s d = (r, s', ds)" by (simp add: run_op_def)
    from fence_outcome [OF ok f] show ?thesis
      by (auto simp: isFenced_def js_has_def)
  next
    case (OpClear i c m)
    with run have f: "clear_fence i c m s d = (r, s', ds)" by (simp add: run_op_def)
    have keeps: "?keep (js_get (fs_entries s))" "?keep ((js_get (fs_entries s)) (keyOf c m := None))"
      by (auto simp: isFenced_def js_has_def OpClear ev dest: keyOf_inj' split: if_splits)
    note out = clear_outcome [OF ok f]
    then have "?keep (js_get (fs_entries s'))" using keeps by (elim conjE disjE) (simp_all only:)
    with out keeps show ?thesis by blast
  qed
  show ?thesis
  proof (cases kill)
    case None
    with keep show ?thesis by (simp add: fence_exec_def st ev run holds_fence_def isFenced_def js_has_def)
  next
    case (Some n)
    let ?x = "ds ! min n (length ds - 1)"
    have "?x \<in> set ds" using keep by (intro nth_mem) (cases ds; auto)
    then obtain f where f: "disk_fences ?x = Some f" "?keep f" using keep by blast
    with Some reopened [OF f(1)] show ?thesis
      by (simp add: fence_exec_def st ev run Let_def in_sync_def holds_fence_def isFenced_def js_has_def)
  qed
qed

interpretation fences: held_facts "\<lambda>st. in_sync (fst st) (snd st)" holds_fence fence_exec op_releases
  by unfold_locales (use fence_exec_sound in blast)+

text \<open>
  C11. Once a delivery is fenced it stays fenced, through any sequence of fence and
  clear calls, any failures of the file system, and any kills and restarts of the process during them,
  until a call clears that very delivery. Every restart can load the file.
\<close>

theorem fence_survives_crashes:
  assumes "in_sync s d" and "isFenced s c m"
    and "\<forall>(op, kill) \<in> set evs. \<forall>i. op \<noteq> OpClear i c m"
  shows "in_sync (fst (foldl fence_exec (s, d) evs)) (snd (foldl fence_exec (s, d) evs)) \<and>
    isFenced (fst (foldl fence_exec (s, d) evs)) c m"
proof -
  have "\<not> op_releases ev (c, m)" if "ev \<in> set evs" for ev
    using that assms(3) by (cases "(ev, (c, m))" rule: op_releases.cases) auto
  then have "holds_fence (foldl fence_exec (s, d) evs) (c, m)"
    using assms(1,2) by (intro fences.holds_all) (auto simp: holds_fence_def)
  moreover have "in_sync (fst (foldl fence_exec (s, d) evs)) (snd (foldl fence_exec (s, d) evs))"
    using fences.sound_all [of "(s, d)" evs] assms(1) by simp
  ultimately show ?thesis by (simp add: holds_fence_def)
qed


section \<open>Witnesses\<close>

definition demo_fence :: replay_fence_entry where
  "demo_fence = \<lparr>rf_chatId = ''a'', rf_messageId = ''1b'', rf_provider = ''codex'',
     rf_toolName = ''shell'', rf_toolUseId = ''t1'', rf_fencedAt = ''2025-01-01T00:00:00.000Z''\<rparr>"

definition demo_io :: io where "demo_io = \<lparr>fails = (\<lambda>c. None), partialTmp = Missing\<rparr>"

definition broken_io :: io where
  "broken_io = \<lparr>fails = (\<lambda>c. if c = Rename then Some ''EIO'' else None), partialTmp = Missing\<rparr>"

definition empty_disk :: disk where "empty_disk = \<lparr>dk_file = Missing, dk_tmp = Missing\<rparr>"

lemma demo_in_sync: "in_sync new_fence_store empty_disk"
  by (simp add: in_sync_def store_wf_def disk_fences_def load_store_def empty_disk_def new_fence_store_def)

theorem fence_round_trip_witness:
  "load_store \<lparr>dk_file = Readable (Some (store_json [(keyOf ''a'' ''1b'', demo_fence)])), dk_tmp = Missing\<rparr> new_fence_store =
   (Inr (), new_fence_store\<lparr>fs_entries := [(keyOf ''a'' ''1b'', demo_fence)], fs_loaded := True\<rparr>)"
proof -
  have "store_wf [(keyOf ''a'' ''1b'', demo_fence)]" by (simp add: store_wf_def demo_fence_def)
  from fence_round_trip [OF this] show ?thesis .
qed

theorem fence_is_atomic_witness:
  "fst (snd (fence broken_io demo_fence new_fence_store empty_disk)) = new_fence_store \<and>
   isFenced (fst (snd (fence demo_io demo_fence new_fence_store empty_disk))) ''a'' ''1b''"
proof -
  obtain r s' ds where b: "fence broken_io demo_fence new_fence_store empty_disk = (r, s', ds)"
    by (cases "fence broken_io demo_fence new_fence_store empty_disk")
  obtain q t es where g: "fence demo_io demo_fence new_fence_store empty_disk = (q, t, es)"
    by (cases "fence demo_io demo_fence new_fence_store empty_disk")
  have "fst (fence broken_io demo_fence new_fence_store empty_disk) = Inl (FencePersistFailed ''EIO'')"
    "fst (fence demo_io demo_fence new_fence_store empty_disk) = Inr ()" by code_simp+
  with b g have r: "r = Inl (FencePersistFailed ''EIO'')" "q = Inr ()" by simp_all
  have d: "rf_chatId demo_fence = ''a''" "rf_messageId demo_fence = ''1b''" by (simp_all add: demo_fence_def)
  from fence_is_atomic [OF demo_in_sync b] fence_is_atomic [OF demo_in_sync g] r b g d show ?thesis by simp
qed

theorem load_fails_closed_witness:
  "snd (load_store \<lparr>dk_file = Readable (Some (JObj [(''version'', JNum 2)])), dk_tmp = Missing\<rparr> new_fence_store) = new_fence_store"
proof -
  let ?d = "\<lparr>dk_file = Readable (Some (JObj [(''version'', JNum 2)])), dk_tmp = Missing\<rparr>"
  obtain r s' where l: "load_store ?d new_fence_store = (r, s')" by (cases "load_store ?d new_fence_store")
  have "fst (load_store ?d new_fence_store) = Inl FenceUnsupportedVersion" by code_simp
  with l have "r \<noteq> Inr ()" by simp
  with load_fails_closed [OF l] l show ?thesis by auto
qed

theorem fence_survives_crashes_witness:
  "isFenced (fst (foldl fence_exec (fence_exec (new_fence_store, empty_disk) (OpFence demo_io demo_fence, None))
      [(OpClear demo_io ''a1'' ''b'', Some 1), (OpFence broken_io demo_fence, Some 2)])) ''a'' ''1b''"
proof -
  let ?st = "fence_exec (new_fence_store, empty_disk) (OpFence demo_io demo_fence, None)"
  have "in_sync (fst ?st) (snd ?st)" by (rule conjunct1 [OF fence_exec_sound]) (simp add: demo_in_sync)
  moreover have "isFenced (fst ?st) ''a'' ''1b''" by code_simp
  moreover have "\<forall>(op, kill) \<in> set [(OpClear demo_io ''a1'' ''b'', Some 1), (OpFence broken_io demo_fence, Some 2 :: nat option)].
      \<forall>i. op \<noteq> OpClear i ''a'' ''1b''" by simp
  ultimately show ?thesis
    using fence_survives_crashes [of "fst ?st" "snd ?st" "''a''" "''1b''"
        "[(OpClear demo_io ''a1'' ''b'', Some 1), (OpFence broken_io demo_fence, Some 2)]"]
    by (simp only: prod.collapse)
qed

end
