(* ===== verification/SessionRegistry.thy ===== *)
theory SessionRegistry
  imports Disk
begin

text \<open>
  The model of \<open>runtime/session-registry.ts\<close>: the resume mappings of an agent on disk, written
  debounced or at once, and the Reset nonces that are written with every mapping. Values read from
  the file are not validated by the code, so a session id or a status is the JSON value it was
  (\<open>None\<close> is \<open>undefined\<close>), and a time is \<open>None\<close> when it is not a number. A JSON array or object in
  place of a date is read as no date.
\<close>

section \<open>State\<close>

record stored_continuation =
  sc_provider :: string
  sc_sessionId :: string
  sc_messageId :: string

record registry_entry =
  re_sessionId :: "json option"
  re_lastActivity :: "int option"
  re_status :: "json option"
  re_continuation :: "stored_continuation option"

type_synonym entry_map = "(string, registry_entry) jsmap"

record registry =
  rg_timer :: bool
  rg_pending :: "entry_map option"
  rg_nonces :: "(string, string) jsmap"
  rg_rotations :: "(string, string) jsmap"

definition new_registry :: registry where
  "new_registry = \<lparr>rg_timer = False, rg_pending = None, rg_nonces = [], rg_rotations = []\<rparr>"

definition REGISTRY_VERSION :: int where "REGISTRY_VERSION = 1"

definition MAX_TIME :: int where "MAX_TIME = 8640000000000000"


section \<open>Reading\<close>

definition property_of :: "json \<Rightarrow> string \<Rightarrow> json option" where
  "property_of v name = (case v of JObj ps \<Rightarrow> js_get ps name | _ \<Rightarrow> None)"

fun nonempty_str :: "json option \<Rightarrow> string option" where
  "nonempty_str (Some (JStr (x # xs))) = Some (x # xs)"
| "nonempty_str _ = None"

definition parseProviderContinuation :: "json option \<Rightarrow> stored_continuation option" where
  "parseProviderContinuation value =
     (case value of
        Some (JObj ps) \<Rightarrow>
          (if js_get ps ''kind'' \<noteq> Some (JStr ''provider_continuation'') then None
           else case (nonempty_str (js_get ps ''provider''), nonempty_str (js_get ps ''sessionId''),
                      nonempty_str (js_get ps ''messageId'')) of
             (Some p, Some s, Some m) \<Rightarrow> Some \<lparr>sc_provider = p, sc_sessionId = s, sc_messageId = m\<rparr>
           | _ \<Rightarrow> None)
      | _ \<Rightarrow> None)"

text \<open>\<open>new Date(value).getTime()\<close>\<close>

definition in_range :: "int \<Rightarrow> int option" where
  "in_range t = (if \<bar>t\<bar> \<le> MAX_TIME then Some t else None)"

fun date_time :: "json option \<Rightarrow> int option" where
  "date_time (Some (JDate d)) = Option.bind d in_range"
| "date_time (Some (JNum n)) = in_range n"
| "date_time (Some (JBool b)) = Some (if b then 1 else 0)"
| "date_time (Some JNull) = Some 0"
| "date_time _ = None"

text \<open>\<open>Object.entries\<close>; the own keys of an array or a string are its indices.\<close>

definition indexed :: "json list \<Rightarrow> (string \<times> json) list" where
  "indexed xs = zip (map nat_str [0..<length xs]) xs"

fun object_entries :: "json \<Rightarrow> (string \<times> json) list" where
  "object_entries (JObj ps) = ps"
| "object_entries (JArr xs) = indexed xs"
| "object_entries (JStr s) = indexed (map (\<lambda>c. JStr [c]) s)"
| "object_entries _ = []"

text \<open>
  The loop over the entries. \<open>None\<close> in the second result says that it threw: the properties of a
  \<open>null\<close> entry cannot be read. The entries read before are kept.
\<close>

fun read_entries :: "(string \<times> json) list \<Rightarrow> entry_map \<Rightarrow> entry_map \<times> unit option" where
  "read_entries [] acc = (acc, Some ())"
| "read_entries ((chatId, v) # rest) acc =
     (if v = JNull then (acc, None)
      else read_entries rest
             (js_set acc chatId
                \<lparr>re_sessionId = property_of v ''claudeSessionId'',
                 re_lastActivity = date_time (property_of v ''lastActivity''),
                 re_status = property_of v ''status'',
                 re_continuation = parseProviderContinuation (property_of v ''continuation'')\<rparr>))"

fun read_nonces :: "(string \<times> json) list \<Rightarrow> (string, string) jsmap \<Rightarrow> (string, string) jsmap" where
  "read_nonces [] acc = acc"
| "read_nonces ((chatId, v) # rest) acc =
     read_nonces rest
       (case nonempty_str (Some v) of Some n \<Rightarrow> js_set acc chatId n | None \<Rightarrow> acc)"

definition read_data :: "json \<Rightarrow> entry_map \<times> (string, string) jsmap" where
  "read_data data =
     (if property_of data ''version'' \<noteq> Some (JNum REGISTRY_VERSION) then ([], [])
      else
        let es = (case property_of data ''entries'' of None \<Rightarrow> [] | Some v \<Rightarrow> object_entries v) in
        case read_entries es [] of
          (entries, None) \<Rightarrow> (entries, [])
        | (entries, Some _) \<Rightarrow>
            (entries,
             (case property_of data ''freshStartNonces'' of
                Some (JObj ps) \<Rightarrow> read_nonces ps []
              | Some (JArr xs) \<Rightarrow> read_nonces (indexed xs) []
              | _ \<Rightarrow> [])))"

definition loadSnapshot :: "disk \<Rightarrow> registry \<Rightarrow> (entry_map \<times> (string, string) jsmap) \<times> registry" where
  "loadSnapshot d r =
     (let (entries, nonces) = (case dk_file d of Readable (Some data) \<Rightarrow> read_data data | _ \<Rightarrow> ([], []))
      in ((entries, nonces), r\<lparr>rg_nonces := nonces, rg_rotations := []\<rparr>))"


section \<open>Writing\<close>

datatype registry_error = InvalidTime | RegistryIo string

definition continuation_json :: "stored_continuation \<Rightarrow> json" where
  "continuation_json k = JObj
     [(''kind'', JStr ''provider_continuation''), (''provider'', JStr (sc_provider k)),
      (''sessionId'', JStr (sc_sessionId k)), (''messageId'', JStr (sc_messageId k))]"

text \<open>Undefined properties are not printed.\<close>

definition opt_prop :: "string \<Rightarrow> json option \<Rightarrow> (string \<times> json) list" where
  "opt_prop name v = (case v of None \<Rightarrow> [] | Some x \<Rightarrow> [(name, x)])"

definition registry_entry_json :: "registry_entry \<Rightarrow> int \<Rightarrow> json" where
  "registry_entry_json e t = JObj
     (opt_prop ''claudeSessionId'' (re_sessionId e) @ [(''lastActivity'', JDate (Some t))]
      @ opt_prop ''status'' (re_status e)
      @ opt_prop ''continuation'' (map_option continuation_json (re_continuation e)))"

text \<open>\<open>toISOString\<close> of a time that is no valid date throws.\<close>

fun entries_json :: "entry_map \<Rightarrow> (string \<times> json) list \<Rightarrow> registry_error + (string \<times> json) list" where
  "entries_json [] acc = Inr acc"
| "entries_json ((chatId, e) # rest) acc =
     (case Option.bind (re_lastActivity e) in_range of
        None \<Rightarrow> Inl InvalidTime
      | Some t \<Rightarrow> entries_json rest (js_set acc chatId (registry_entry_json e t)))"

definition registry_json :: "(string, string) jsmap \<Rightarrow> (string \<times> json) list \<Rightarrow> json" where
  "registry_json nonces es = JObj
     [(''version'', JNum REGISTRY_VERSION), (''entries'', JObj es),
      (''freshStartNonces'', JObj (foldl (\<lambda>ob (k, n). js_set ob k (JStr n)) [] nonces))]"

definition writeToDisk :: "io \<Rightarrow> entry_map \<Rightarrow> registry \<Rightarrow> disk \<Rightarrow> (registry_error + unit) \<times> disk" where
  "writeToDisk i entries r d =
     (case entries_json entries [] of
        Inl e \<Rightarrow> (Inl e, d)
      | Inr es \<Rightarrow>
          (case fails i Mkdir of
             Some m \<Rightarrow> (Inl (RegistryIo m), d)
           | None \<Rightarrow>
               (case fails i WriteTmp of
                  Some m \<Rightarrow> (Inl (RegistryIo m), d\<lparr>dk_tmp := partialTmp i\<rparr>)
                | None \<Rightarrow>
                    (let data = Readable (Some (registry_json (rg_nonces r) es)) in
                     case fails i Rename of
                       Some m \<Rightarrow> (Inl (RegistryIo m), d\<lparr>dk_tmp := data\<rparr>)
                     | None \<Rightarrow> (Inr (), d\<lparr>dk_file := data, dk_tmp := Missing\<rparr>)))))"

definition clearPendingWrite :: "registry \<Rightarrow> registry" where
  "clearPendingWrite r = r\<lparr>rg_timer := False, rg_pending := None\<rparr>"

definition flush :: "io \<Rightarrow> entry_map \<Rightarrow> registry \<Rightarrow> disk \<Rightarrow> registry \<times> disk" where
  "flush i entries r d =
     (let r = clearPendingWrite r in (r, snd (writeToDisk i entries r d)))"

definition flushOrThrow ::
  "io \<Rightarrow> entry_map \<Rightarrow> registry \<Rightarrow> disk \<Rightarrow> (registry_error + unit) \<times> registry \<times> disk" where
  "flushOrThrow i entries r d =
     (let r = clearPendingWrite r in
      case writeToDisk i entries r d of (res, d') \<Rightarrow> (res, r, d'))"

definition save :: "entry_map \<Rightarrow> registry \<Rightarrow> registry" where
  "save entries r = r\<lparr>rg_pending := Some entries, rg_timer := True\<rparr>"

text \<open>The debounce timer fires. It does nothing when it is not armed.\<close>

definition timer_fires :: "io \<Rightarrow> registry \<Rightarrow> disk \<Rightarrow> registry \<times> disk" where
  "timer_fires i r d =
     (if \<not> rg_timer r then (r, d)
      else let r = r\<lparr>rg_timer := False\<rparr> in
        case rg_pending r of
          None \<Rightarrow> (r, d)
        | Some entries \<Rightarrow>
            (case flush i entries r d of (r', d') \<Rightarrow> (r'\<lparr>rg_pending := None\<rparr>, d')))"

definition dispose :: "io \<Rightarrow> registry \<Rightarrow> disk \<Rightarrow> registry \<times> disk" where
  "dispose i r d =
     (case rg_pending r of
        Some entries \<Rightarrow> (case flush i entries r d of (r', d') \<Rightarrow> (r'\<lparr>rg_pending := None\<rparr>, d'))
      | None \<Rightarrow> (r\<lparr>rg_timer := False\<rparr>, d))"


section \<open>Reset nonces\<close>

definition getFreshStartNonce :: "registry \<Rightarrow> string \<Rightarrow> string option" where
  "getFreshStartNonce r chatId = js_get (rg_nonces r) chatId"

text \<open>\<open>uuid\<close> is what \<open>randomUUID\<close> returns. An empty pending nonce would not count as one.\<close>

definition rotateFreshStartNonce :: "string \<Rightarrow> string \<Rightarrow> registry \<Rightarrow> string \<times> registry" where
  "rotateFreshStartNonce uuid chatId r =
     (case js_get (rg_rotations r) chatId of
        Some (x # xs) \<Rightarrow> (x # xs, r)
      | _ \<Rightarrow> (uuid, r\<lparr>rg_rotations := js_set (rg_rotations r) chatId uuid,
                     rg_nonces := js_set (rg_nonces r) chatId uuid\<rparr>))"

definition markResetNonceDurable :: "string \<Rightarrow> registry \<Rightarrow> registry" where
  "markResetNonceDurable chatId r = r\<lparr>rg_rotations := js_delete (rg_rotations r) chatId\<rparr>"


section \<open>Runs\<close>

datatype registry_event =
    RSave entry_map
  | RTimer io
  | RFlush io entry_map
  | RFlushOrThrow io entry_map
  | RRotate string string
  | RDurable string
  | RDispose io

definition registry_step :: "registry \<times> disk \<Rightarrow> registry_event \<Rightarrow> registry \<times> disk" where
  "registry_step st ev =
     (case st of (r, d) \<Rightarrow>
        (case ev of
           RSave es \<Rightarrow> (save es r, d)
         | RTimer i \<Rightarrow> timer_fires i r d
         | RFlush i es \<Rightarrow> flush i es r d
         | RFlushOrThrow i es \<Rightarrow> snd (flushOrThrow i es r d)
         | RRotate uuid chatId \<Rightarrow> (snd (rotateFreshStartNonce uuid chatId r), d)
         | RDurable chatId \<Rightarrow> (markResetNonceDurable chatId r, d)
         | RDispose i \<Rightarrow> dispose i r d))"

end
