(* ===== verification/RegistryProperties.thy ===== *)
theory RegistryProperties
  imports SessionRegistry
begin

text \<open>
  What the session registry promises: a written mapping is read back, a stale debounced snapshot never
  overwrites a later one, the nonces of Reset outlive everything, and what happens to a mapping whose
  time is no date.
\<close>

section \<open>Round trip\<close>

definition continuation_ok :: "stored_continuation \<Rightarrow> bool" where
  "continuation_ok k \<longleftrightarrow> sc_provider k \<noteq> [] \<and> sc_sessionId k \<noteq> [] \<and> sc_messageId k \<noteq> []"

definition time_ok :: "registry_entry \<Rightarrow> bool" where
  "time_ok e \<longleftrightarrow> (\<exists>t. re_lastActivity e = Some t \<and> \<bar>t\<bar> \<le> MAX_TIME)"

definition entry_ok :: "registry_entry \<Rightarrow> bool" where
  "entry_ok e \<longleftrightarrow> time_ok e \<and> (\<forall>k. re_continuation e = Some k \<longrightarrow> continuation_ok k)"

definition storable :: "entry_map \<Rightarrow> bool" where
  "storable m \<longleftrightarrow> distinct (map fst m) \<and> (\<forall>(c, e) \<in> set m. entry_ok e)"

definition nonces_ok :: "(string, string) jsmap \<Rightarrow> bool" where
  "nonces_ok m \<longleftrightarrow> distinct (map fst m) \<and> (\<forall>(c, n) \<in> set m. n \<noteq> [])"

lemma set_new: "k \<notin> set (map fst m) \<Longrightarrow> js_set m k v = m @ [(k, v)]"
  by (induction m) auto

lemma nonempty_str_JStr [simp]: "s \<noteq> [] \<Longrightarrow> nonempty_str (Some (JStr s)) = Some s"
  by (cases s) auto

lemma continuation_round_trip:
  "continuation_ok k \<Longrightarrow> parseProviderContinuation (Some (continuation_json k)) = Some k"
  by (simp add: continuation_ok_def parseProviderContinuation_def continuation_json_def)

lemma parse_none: "parseProviderContinuation None = None"
  by (simp add: parseProviderContinuation_def)

definition read_entry :: "json \<Rightarrow> registry_entry" where
  "read_entry v = \<lparr>re_sessionId = property_of v ''claudeSessionId'',
     re_lastActivity = date_time (property_of v ''lastActivity''),
     re_status = property_of v ''status'',
     re_continuation = parseProviderContinuation (property_of v ''continuation'')\<rparr>"

lemma entry_round_trip:
  assumes "re_lastActivity e = Some t" "\<bar>t\<bar> \<le> MAX_TIME" "\<forall>k. re_continuation e = Some k \<longrightarrow> continuation_ok k"
  shows "read_entry (registry_entry_json e t) = e"
proof (cases e)
  case (fields sid act st cont)
  with assms show ?thesis
    by (cases sid; cases st; cases cont)
       (auto simp: read_entry_def registry_entry_json_def opt_prop_def property_of_def in_range_def
          continuation_round_trip parse_none)
qed

text \<open>The entries as JSON, when every time is a date.\<close>

definition entry_pairs :: "entry_map \<Rightarrow> (string \<times> json) list" where
  "entry_pairs m = map (\<lambda>(c, e). (c, registry_entry_json e (the (re_lastActivity e)))) m"

lemma entries_json_pairs:
  "distinct (map fst acc @ map fst m) \<Longrightarrow> \<forall>(c, e) \<in> set m. time_ok e \<Longrightarrow>
   entries_json m acc = Inr (acc @ entry_pairs m)"
proof (induction m arbitrary: acc)
  case (Cons x m)
  obtain c e where x: "x = (c, e)" by (cases x)
  with Cons.prems(2) obtain t where t: "re_lastActivity e = Some t" "\<bar>t\<bar> \<le> MAX_TIME" by (auto simp: time_ok_def)
  from Cons.prems(1) x have new: "js_set acc c (registry_entry_json e t) = acc @ [(c, registry_entry_json e t)]"
    by (intro set_new) auto
  have "entries_json m (acc @ [(c, registry_entry_json e t)]) =
      Inr ((acc @ [(c, registry_entry_json e t)]) @ entry_pairs m)"
    by (rule Cons.IH) (use Cons.prems x in auto)
  with t new show ?case by (simp add: x in_range_def entry_pairs_def)
qed (simp add: entry_pairs_def)

lemma read_entries_pairs:
  "distinct (map fst acc @ map fst m) \<Longrightarrow> \<forall>(c, e) \<in> set m. entry_ok e \<Longrightarrow>
   read_entries (entry_pairs m) acc = (acc @ m, Some ())"
proof (induction m arbitrary: acc)
  case (Cons x m)
  obtain c e where x: "x = (c, e)" by (cases x)
  with Cons.prems(2) obtain t where t: "re_lastActivity e = Some t" "\<bar>t\<bar> \<le> MAX_TIME"
    "\<forall>k. re_continuation e = Some k \<longrightarrow> continuation_ok k" by (auto simp: entry_ok_def time_ok_def)
  have "js_set acc c e = acc @ [(c, e)]" by (rule set_new) (use Cons.prems(1) x in auto)
  moreover have "read_entries (entry_pairs m) (acc @ [(c, e)]) = ((acc @ [(c, e)]) @ m, Some ())"
    by (rule Cons.IH) (use Cons.prems x in auto)
  moreover have "registry_entry_json e t \<noteq> JNull" by (simp add: registry_entry_json_def)
  ultimately show ?case
    using entry_round_trip [OF t] t(1) by (simp add: x entry_pairs_def read_entry_def)
qed (simp add: entry_pairs_def)

lemma nonces_json_pairs:
  "distinct (map fst acc @ map fst m) \<Longrightarrow>
   foldl (\<lambda>ob (k, n). js_set ob k (JStr n)) acc m = acc @ map (\<lambda>(k, n). (k, JStr n)) m"
proof (induction m arbitrary: acc)
  case (Cons x m)
  obtain k n where x: "x = (k, n)" by (cases x)
  have "js_set acc k (JStr n) = acc @ [(k, JStr n)]" by (rule set_new) (use Cons.prems x in auto)
  moreover have "foldl (\<lambda>ob (k, n). js_set ob k (JStr n)) (acc @ [(k, JStr n)]) m =
      (acc @ [(k, JStr n)]) @ map (\<lambda>(k, n). (k, JStr n)) m"
    by (rule Cons.IH) (use Cons.prems x in auto)
  ultimately show ?case by (simp add: x)
qed simp

lemma read_nonces_pairs:
  "distinct (map fst acc @ map fst m) \<Longrightarrow> \<forall>(c, n) \<in> set m. n \<noteq> [] \<Longrightarrow>
   read_nonces (map (\<lambda>(k, n). (k, JStr n)) m) acc = acc @ m"
proof (induction m arbitrary: acc)
  case (Cons x m)
  obtain k n where x: "x = (k, n)" by (cases x)
  have "js_set acc k n = acc @ [(k, n)]" by (rule set_new) (use Cons.prems x in auto)
  moreover have "read_nonces (map (\<lambda>(k, n). (k, JStr n)) m) (acc @ [(k, n)]) = (acc @ [(k, n)]) @ m"
    by (rule Cons.IH) (use Cons.prems x in auto)
  ultimately show ?case using Cons.prems(2) x by simp
qed simp

definition registry_file :: "entry_map \<Rightarrow> (string, string) jsmap \<Rightarrow> file_state" where
  "registry_file m nonces = Readable (Some (registry_json nonces (entry_pairs m)))"

lemma read_registry_file:
  assumes "storable m" and "nonces_ok n" and "dk_file d = registry_file m n"
  shows "loadSnapshot d r = ((m, n), r\<lparr>rg_nonces := n, rg_rotations := []\<rparr>)"
  using assms read_entries_pairs [of "[]" m] nonces_json_pairs [of "[]" n] read_nonces_pairs [of "[]" n]
  by (simp add: loadSnapshot_def registry_file_def read_data_def registry_json_def property_of_def
      REGISTRY_VERSION_def storable_def nonces_ok_def)

lemma write_result:
  "writeToDisk i m r d = (res, d') \<Longrightarrow> \<forall>(c, e) \<in> set m. time_ok e \<Longrightarrow> distinct (map fst m) \<Longrightarrow>
   res = Inr () \<and> dk_file d' = registry_file m (rg_nonces r) \<or>
   (\<exists>msg. res = Inl (RegistryIo msg)) \<and> dk_file d' = dk_file d"
  using entries_json_pairs [of "[]" m]
  by (auto simp: writeToDisk_def registry_file_def Let_def split: option.splits)

text \<open>
  What the registry writes it reads: when a forced write of mappings with valid
  times returns, a process that loads the file gets exactly these mappings, in their order and with
  their continuations, and exactly the Reset nonces of the writer. When it throws, the file is as it was.
\<close>

theorem registry_round_trip:
  assumes "storable m" and "nonces_ok (rg_nonces r)" and "flushOrThrow i m r d = (res, r', d')"
  shows "res = Inr () \<and> fst (loadSnapshot d' s) = (m, rg_nonces r) \<or>
    (\<exists>msg. res = Inl (RegistryIo msg)) \<and> dk_file d' = dk_file d"
proof -
  from assms(3) have w: "writeToDisk i m (clearPendingWrite r) d = (res, d')"
    by (auto simp: flushOrThrow_def Let_def split: prod.splits)
  have "\<forall>(c, e) \<in> set m. time_ok e" "distinct (map fst m)" using assms(1) by (auto simp: storable_def entry_ok_def)
  from write_result [OF w this] show ?thesis
    using read_registry_file [OF assms(1,2)] by (auto simp: clearPendingWrite_def)
qed


section \<open>Debouncing\<close>

text \<open>The mapping the host handed over last.\<close>

fun handed :: "registry_event \<Rightarrow> entry_map option" where
  "handed (RSave es) = Some es"
| "handed (RFlush i es) = Some es"
| "handed (RFlushOrThrow i es) = Some es"
| "handed ev = None"

definition latest :: "registry_event list \<Rightarrow> entry_map option" where
  "latest evs = foldl (\<lambda>acc ev. case handed ev of None \<Rightarrow> acc | Some es \<Rightarrow> Some es) None evs"

lemma latest_snoc: "latest (evs @ [ev]) = (case handed ev of None \<Rightarrow> latest evs | Some es \<Rightarrow> Some es)"
  by (simp add: latest_def split: option.split)

definition registry_run :: "disk \<Rightarrow> registry_event list \<Rightarrow> registry \<times> disk" where
  "registry_run d evs = foldl registry_step (new_registry, d) evs"

lemma registry_run_snoc: "registry_run d (evs @ [ev]) = registry_step (registry_run d evs) ev"
  by (simp add: registry_run_def)

lemma pending_latest:
  "rg_pending (fst (registry_run d evs)) = Some es \<Longrightarrow> latest evs = Some es \<and> rg_timer (fst (registry_run d evs))"
proof (induction evs arbitrary: es rule: rev_induct)
  case Nil
  then show ?case by (simp add: registry_run_def new_registry_def)
next
  case (snoc ev evs)
  then show ?case
    by (cases ev)
       (auto simp: registry_run_snoc registry_step_def latest_snoc save_def flush_def flushOrThrow_def
          timer_fires_def dispose_def clearPendingWrite_def rotateFreshStartNonce_def
          markResetNonceDurable_def Let_def split: prod.splits option.splits if_splits list.splits)
qed

lemma write_file:
  "dk_file (snd (writeToDisk i m r d)) \<noteq> dk_file d \<Longrightarrow>
   \<exists>js. entries_json m [] = Inr js \<and> dk_file (snd (writeToDisk i m r d)) = Readable (Some (registry_json (rg_nonces r) js))"
  by (auto simp: writeToDisk_def Let_def split: option.splits sum.splits)

text \<open>
  C35. A stale snapshot never reaches the disk. In every run of saves, forced writes, timer
  firings and disposals, whenever the file changes it becomes the encoding of the mapping handed over
  last, together with all the Reset nonces the registry has at that moment.
\<close>

theorem no_stale_write:
  assumes "dk_file (snd (registry_run d (evs @ [ev]))) \<noteq> dk_file (snd (registry_run d evs))"
  shows "\<exists>es js. latest (evs @ [ev]) = Some es \<and> entries_json es [] = Inr js \<and>
    dk_file (snd (registry_run d (evs @ [ev]))) =
      Readable (Some (registry_json (rg_nonces (fst (registry_run d (evs @ [ev])))) js))"
proof -
  obtain r d0 where st: "registry_run d evs = (r, d0)" by (cases "registry_run d evs")
  have pend: "latest evs = Some es" if "rg_pending r = Some es" for es
    using pending_latest [of d evs es] st that by simp
  have wf: "\<exists>js. entries_json m [] = Inr js \<and> dk_file d' = Readable (Some (registry_json (rg_nonces r0) js))"
    if "writeToDisk i m r0 d0 = (res, d')" "dk_file d' \<noteq> dk_file d0" for i m r0 res d'
    using write_file [of i m r0 d0] that by simp
  show ?thesis
    using assms pend
    by (cases ev)
       (auto simp: registry_run_snoc st registry_step_def latest_snoc save_def flush_def flushOrThrow_def
          timer_fires_def dispose_def clearPendingWrite_def rotateFreshStartNonce_def markResetNonceDurable_def
          Let_def split: prod.splits option.splits if_splits list.splits dest!: write_file wf)
qed


definition quiet_event :: "registry_event \<Rightarrow> bool" where
  "quiet_event ev \<longleftrightarrow> (case ev of RRotate u c \<Rightarrow> True | RDurable c \<Rightarrow> True | _ \<Rightarrow> False)"

lemma quiet_pending:
  "\<forall>ev \<in> set evs. quiet_event ev \<Longrightarrow> rg_pending (fst st) = Some es \<Longrightarrow>
   rg_pending (fst (foldl registry_step st evs)) = Some es"
proof (induction evs arbitrary: st)
  case (Cons ev evs)
  have "rg_pending (fst (registry_step st ev)) = Some es"
    using Cons.prems
    by (cases st; cases ev) (auto simp: quiet_event_def registry_step_def rotateFreshStartNonce_def
        markResetNonceDurable_def split: option.splits list.splits)
  with Cons show ?case by simp
qed simp

lemma healthy_write:
  assumes "\<forall>c. fails i c = None" and "storable m"
  shows "dk_file (snd (writeToDisk i m r d)) = registry_file m (rg_nonces r)"
proof -
  have "\<forall>(c, e) \<in> set m. time_ok e" "distinct (map fst m)" using assms(2) by (auto simp: storable_def entry_ok_def)
  with entries_json_pairs [of "[]" m] assms(1) show ?thesis
    by (simp add: writeToDisk_def registry_file_def Let_def)
qed

text \<open>
  The last mapping survives a teardown. When the last mapping handed over was
  a debounced save, whatever happened before it, and the debounce window has not ended, then disposing
  of the registry leaves that mapping in the file with the current nonces, provided its times are valid
  and no file system call fails. Rotating and confirming Reset nonces in between does not lose it.
\<close>

theorem last_save_reaches_disk:
  assumes "storable m" and "\<forall>c. fails i c = None" and "\<forall>ev \<in> set quiet. quiet_event ev"
  shows "dk_file (snd (registry_run d (before @ [RSave m] @ quiet @ [RDispose i]))) =
    registry_file m (rg_nonces (fst (registry_run d (before @ [RSave m] @ quiet))))"
proof -
  let ?st = "registry_run d (before @ [RSave m] @ quiet)"
  obtain r d0 where st: "?st = (r, d0)" by (cases ?st)
  have "rg_pending (fst (registry_step (registry_run d before) (RSave m))) = Some m"
    by (simp add: registry_step_def save_def split: prod.split)
  from quiet_pending [OF assms(3) this] have pend: "rg_pending r = Some m"
    using st by (simp add: registry_run_def)
  have "registry_run d (before @ [RSave m] @ quiet @ [RDispose i]) = registry_step ?st (RDispose i)"
    using registry_run_snoc [of d "before @ [RSave m] @ quiet" "RDispose i"] by simp
  then show ?thesis
    using pend st healthy_write [OF assms(2,1), of "clearPendingWrite r" d0]
    by (simp add: registry_step_def dispose_def flush_def Let_def clearPendingWrite_def split: prod.splits)
qed


section \<open>Reset nonces\<close>

lemma nonce_step:
  "rg_nonces (fst (registry_step st ev)) =
     (case ev of RRotate u c \<Rightarrow>
        (case js_get (rg_rotations (fst st)) c of
           Some (x # xs) \<Rightarrow> rg_nonces (fst st) | _ \<Rightarrow> js_set (rg_nonces (fst st)) c u)
      | _ \<Rightarrow> rg_nonces (fst st))"
  "rg_rotations (fst (registry_step st ev)) =
     (case ev of
        RRotate u c \<Rightarrow>
        (case js_get (rg_rotations (fst st)) c of
           Some (x # xs) \<Rightarrow> rg_rotations (fst st) | _ \<Rightarrow> js_set (rg_rotations (fst st)) c u)
      | RDurable c \<Rightarrow> js_delete (rg_rotations (fst st)) c
      | _ \<Rightarrow> rg_rotations (fst st))"
  by (cases st; cases ev; auto simp: registry_step_def save_def flush_def flushOrThrow_def timer_fires_def
      dispose_def clearPendingWrite_def rotateFreshStartNonce_def markResetNonceDurable_def Let_def
      split: prod.splits option.splits list.splits)+

text \<open>
  A Reset that is retried uses the nonce of its first attempt: after a
  rotation, whatever is saved, written, fired or disposed of, and however often the write fails, the
  next rotation of the chat returns the same nonce until the Reset is confirmed durable, and no rotation
  of another chat touches it. The nonce a fresh start reads is that one.
\<close>

theorem reset_nonce_is_stable:
  assumes "u \<noteq> []" and "js_get (rg_rotations r) c = None" and "RDurable c \<notin> set evs"
    and "st = foldl registry_step (snd (rotateFreshStartNonce u c r), d) evs"
  shows "fst (rotateFreshStartNonce u' c (fst st)) = u \<and> getFreshStartNonce (fst st) c = Some u"
proof -
  have "js_get (rg_rotations (fst (foldl registry_step s es))) c = Some u \<and>
      js_get (rg_nonces (fst (foldl registry_step s es))) c = Some u"
    if "js_get (rg_rotations (fst s)) c = Some u" "js_get (rg_nonces (fst s)) c = Some u" "RDurable c \<notin> set es"
    for s es
    using that
  proof (induction es arbitrary: s)
    case (Cons e es)
    have "js_get (rg_rotations (fst (registry_step s e))) c = Some u \<and>
        js_get (rg_nonces (fst (registry_step s e))) c = Some u"
      using Cons.prems assms(1) by (cases u) (auto simp: nonce_step split: registry_event.split option.splits list.splits)
    with Cons show ?case by simp
  qed simp
  from this [of "(snd (rotateFreshStartNonce u c r), d)" evs] assms
  have "js_get (rg_rotations (fst st)) c = Some u \<and> js_get (rg_nonces (fst st)) c = Some u"
    by (simp add: rotateFreshStartNonce_def)
  with assms(1) show ?thesis
    by (cases u) (simp_all add: rotateFreshStartNonce_def getFreshStartNonce_def)
qed

definition bad_time_disk :: disk where
  "bad_time_disk = \<lparr>dk_file = Readable (Some (JObj
     [(''version'', JNum 1),
      (''entries'', JObj [(''c'', JObj [(''claudeSessionId'', JStr ''s''), (''lastActivity'', JDate None),
                                        (''status'', JStr ''active'')])])])), dk_tmp = Missing\<rparr>"

lemma invalid_time_json: "\<exists>(c, e) \<in> set m. \<not> time_ok e \<Longrightarrow> entries_json m acc = Inl InvalidTime"
proof (induction m arbitrary: acc)
  case (Cons x m)
  then show ?case
    by (cases x) (auto simp: time_ok_def in_range_def bind_eq_Some_conv split: option.splits if_splits)
qed simp

lemma valid_time_json: "\<forall>(c, e) \<in> set m. time_ok e \<Longrightarrow> entries_json m acc \<noteq> Inl InvalidTime"
proof (induction m arbitrary: acc)
  case (Cons x m)
  then show ?case by (cases x) (auto simp: time_ok_def in_range_def)
qed simp

text \<open>
  C37. One mapping whose time is no date blocks the whole registry: every
  write of a set of mappings that contains it fails before it touches the disk, and only then. Loading
  does not refuse such a mapping: a file with one invalid \<open>lastActivity\<close> is read into a set that
  can never be written again, which debounced writes drop silently and the forced write of a Reset
  throws on.
\<close>

theorem invalid_time_blocks_persistence:
  "((\<exists>(c, e) \<in> set m. \<not> time_ok e) \<longleftrightarrow> writeToDisk i m r d = (Inl InvalidTime, d)) \<and>
   (\<exists>(c, e) \<in> set (fst (fst (loadSnapshot bad_time_disk r))). \<not> time_ok e)"
proof
  show "(\<exists>(c, e) \<in> set m. \<not> time_ok e) \<longleftrightarrow> writeToDisk i m r d = (Inl InvalidTime, d)"
  proof (cases "\<exists>(c, e) \<in> set m. \<not> time_ok e")
    case True
    from invalid_time_json [OF this] True show ?thesis by (simp add: writeToDisk_def)
  next
    case False
    then have "\<forall>(c, e) \<in> set m. time_ok e" by auto
    from valid_time_json [OF this, of "[]"] False show ?thesis
      by (auto simp: writeToDisk_def Let_def split: option.splits sum.splits)
  qed
  show "\<exists>(c, e) \<in> set (fst (fst (loadSnapshot bad_time_disk r))). \<not> time_ok e"
    by (simp add: loadSnapshot_def bad_time_disk_def read_data_def property_of_def REGISTRY_VERSION_def time_ok_def)
qed


section \<open>Witnesses\<close>

definition demo_mapping :: entry_map where
  "demo_mapping = [(''c'', \<lparr>re_sessionId = Some (JStr ''s1''), re_lastActivity = Some 1735689600000,
     re_status = Some (JStr ''evicted''),
     re_continuation = Some \<lparr>sc_provider = ''antigravity'', sc_sessionId = ''s1'', sc_messageId = ''m1''\<rparr>\<rparr>)]"

definition healthy_io :: io where "healthy_io = \<lparr>fails = (\<lambda>c. None), partialTmp = Missing\<rparr>"

definition no_disk :: disk where "no_disk = \<lparr>dk_file = Missing, dk_tmp = Missing\<rparr>"

lemma demo_storable: "storable demo_mapping"
  by (simp add: storable_def demo_mapping_def entry_ok_def time_ok_def continuation_ok_def MAX_TIME_def)

lemma healthy: "\<forall>c. fails healthy_io c = None"
  by (simp add: healthy_io_def)

theorem registry_round_trip_witness:
  "fst (loadSnapshot (snd (snd (flushOrThrow healthy_io demo_mapping new_registry no_disk))) new_registry) = (demo_mapping, [])"
proof -
  obtain res r' d' where f: "flushOrThrow healthy_io demo_mapping new_registry no_disk = (res, r', d')"
    by (cases "flushOrThrow healthy_io demo_mapping new_registry no_disk")
  have "fst (flushOrThrow healthy_io demo_mapping new_registry no_disk) = Inr ()" by code_simp
  with f have "res = Inr ()" by simp
  moreover have "nonces_ok (rg_nonces new_registry)" by (simp add: nonces_ok_def new_registry_def)
  ultimately show ?thesis
    using registry_round_trip [OF demo_storable _ f, of new_registry] f by (simp add: new_registry_def)
qed

theorem no_stale_write_witness:
  "\<exists>es. latest [RSave [], RSave demo_mapping, RTimer healthy_io] = Some es \<and> es = demo_mapping"
proof -
  have written: "dk_file (snd (registry_run no_disk ([RSave [], RSave demo_mapping] @ [RTimer healthy_io]))) =
      registry_file demo_mapping []" "dk_file (snd (registry_run no_disk [RSave [], RSave demo_mapping])) = Missing"
    by code_simp+
  then have "dk_file (snd (registry_run no_disk ([RSave [], RSave demo_mapping] @ [RTimer healthy_io]))) \<noteq>
      dk_file (snd (registry_run no_disk [RSave [], RSave demo_mapping]))" by (simp add: registry_file_def)
  from no_stale_write [OF this] show ?thesis by (simp add: latest_def)
qed

theorem last_save_reaches_disk_witness:
  "dk_file (snd (registry_run no_disk ([] @ [RSave demo_mapping] @ [RRotate ''n1'' ''c''] @ [RDispose healthy_io]))) =
   registry_file demo_mapping [(''c'', ''n1'')]"
proof -
  have "\<forall>ev \<in> set [RRotate ''n1'' ''c'']. quiet_event ev" by (simp add: quiet_event_def)
  note w = last_save_reaches_disk [OF demo_storable healthy this, of no_disk "[]"]
  have "rg_nonces (fst (registry_run no_disk ([] @ [RSave demo_mapping] @ [RRotate ''n1'' ''c'']))) = [(''c'', ''n1'')]"
    by code_simp
  with w show ?thesis by simp
qed

theorem reset_nonce_is_stable_witness:
  "fst (rotateFreshStartNonce ''n2'' ''c''
     (fst (foldl registry_step (snd (rotateFreshStartNonce ''n1'' ''c'' new_registry), no_disk)
       [RFlushOrThrow healthy_io demo_mapping, RRotate ''x'' ''d'', RDurable ''d'']))) = ''n1''"
proof -
  have "''n1'' \<noteq> []" "js_get (rg_rotations new_registry) ''c'' = None"
    "RDurable ''c'' \<notin> set [RFlushOrThrow healthy_io demo_mapping, RRotate ''x'' ''d'', RDurable ''d'']"
    by (simp_all add: new_registry_def)
  from reset_nonce_is_stable [OF this refl, of "''n2''" no_disk] show ?thesis by simp
qed

end
