(* ===== verification/SessionProjection.thy ===== *)
theory SessionProjection
  imports Complex_Main RuntimeTypes SessionRegistry
begin

text \<open>
  The model of \<open>runtime/session-projection-authority.ts\<close>: which chats have a live session or an evicted
  resume mapping, what is persisted of them, and what was last reported of their state and runtime.
  The callbacks of the host are recorded in \<open>pj_outs\<close>; the flags say which of the three report callbacks
  are installed. What the authority asks of its host is an argument of the operation that asks:
  \<open>owned\<close> is \<open>hasProcessingOwnedWork\<close>, \<open>fallback\<close> is \<open>resumeFallbackSessionId\<close>, \<open>retrying\<close> is
  \<open>hasPendingTransientRetry\<close>, \<open>forced\<close> is \<open>hasRuntimeSyncForceKeepExtra\<close>. Session entries are objects
  of the host; \<open>ps_oid\<close> is their identity.
\<close>

section \<open>State\<close>

definition MAX_EVICTED_MAPPINGS :: nat where "MAX_EVICTED_MAPPINGS = 500"

definition RUNTIME_REAFFIRM_BASE_MS :: rat where "RUNTIME_REAFFIRM_BASE_MS = 20000"
definition RUNTIME_REAFFIRM_JITTER_RATIO :: rat where "RUNTIME_REAFFIRM_JITTER_RATIO = 1 / 5"

text \<open>\<open>r\<close> is what \<open>Math.random\<close> returns.\<close>

definition jitteredReaffirmDelay :: "rat \<Rightarrow> rat" where
  "jitteredReaffirmDelay r =
     (let offset = (r * 2 - 1) * RUNTIME_REAFFIRM_BASE_MS * RUNTIME_REAFFIRM_JITTER_RATIO
      in RUNTIME_REAFFIRM_BASE_MS + offset)"

fun resumableProviderSessionId :: "string option list \<Rightarrow> string option" where
  "resumableProviderSessionId [] = None"
| "resumableProviderSessionId (Some s # rest) =
     (if trim s \<noteq> [] then Some s else resumableProviderSessionId rest)"
| "resumableProviderSessionId (None # rest) = resumableProviderSessionId rest"

record proj_session =
  ps_oid :: nat
  ps_chatId :: string
  ps_sessionId :: string
  ps_continuation :: "stored_continuation option"
  ps_sourceKey :: string
  ps_status :: session_state
  ps_lastActivity :: "int option"

record evicted_mapping =
  em_sessionId :: string
  em_lastActivity :: "int option"
  em_continuation :: "stored_continuation option"

datatype proj_out =
    StateReport string session_state
  | RuntimeReport string runtime_state
  | AggregateReport runtime_state
  | DrainPending
  | BindRecovered string

record projection =
  pj_onState :: bool
  pj_onRuntime :: bool
  pj_onAggregate :: bool
  pj_sessions :: "(string, proj_session) jsmap"
  pj_evicted :: "(string, evicted_mapping) jsmap"
  pj_trigger :: "(string, string \<times> string) jsmap"
  pj_registry :: "registry option"
  pj_reported :: "(string, session_state) jsmap"
  pj_runtime :: "(string, runtime_state) jsmap"
  pj_inTurn :: "string list"
  pj_proofChats :: "string list"
  pj_aggregate :: "runtime_state option"
  pj_treeResolveAt :: int
  pj_timers :: "nat list"
  pj_timerHandle :: "nat option"
  pj_nextTimer :: nat
  pj_outs :: "proj_out list"

definition new_projection :: "bool \<Rightarrow> bool \<Rightarrow> bool \<Rightarrow> bool \<Rightarrow> projection" where
  "new_projection onState onRuntime onAggregate hasRegistry =
     \<lparr>pj_onState = onState, pj_onRuntime = onRuntime, pj_onAggregate = onAggregate, pj_sessions = [],
      pj_evicted = [], pj_trigger = [], pj_registry = (if hasRegistry then Some new_registry else None),
      pj_reported = [], pj_runtime = [], pj_inTurn = [], pj_proofChats = [], pj_aggregate = None,
      pj_treeResolveAt = 0, pj_timers = [], pj_timerHandle = None, pj_nextTimer = 0, pj_outs = []\<rparr>"

definition say :: "proj_out \<Rightarrow> projection \<Rightarrow> projection" where
  "say x p = p\<lparr>pj_outs := pj_outs p @ [x]\<rparr>"


section \<open>Runtime projection\<close>

text \<open>The loop over the runtime states: error ends it, working does not replace blocked.\<close>

fun aggregate_from :: "runtime_state \<Rightarrow> runtime_state list \<Rightarrow> runtime_state" where
  "aggregate_from agg [] = agg"
| "aggregate_from agg (s # rest) =
     (if s = RError then RError
      else aggregate_from
             (if s = RBlocked then RBlocked
              else if s = RWorking \<and> agg \<noteq> RBlocked then RWorking
              else agg) rest)"

definition recomputeRuntimeState :: "projection \<Rightarrow> projection" where
  "recomputeRuntimeState p =
     (if \<not> pj_onAggregate p then p
      else let agg = aggregate_from RIdle (map snd (pj_runtime p)) in
        if pj_aggregate p \<noteq> Some agg then say (AggregateReport agg) (p\<lparr>pj_aggregate := Some agg\<rparr>) else p)"

definition reportRuntime :: "string \<Rightarrow> runtime_state \<Rightarrow> projection \<Rightarrow> projection" where
  "reportRuntime chatId st p = (if pj_onRuntime p then say (RuntimeReport chatId st) p else p)"

definition withdrawSessionRuntime :: "string \<Rightarrow> projection \<Rightarrow> projection" where
  "withdrawSessionRuntime chatId p =
     (let p = p\<lparr>pj_inTurn := set_remove (pj_inTurn p) chatId\<rparr> in
      if \<not> js_has (pj_runtime p) chatId then p
      else recomputeRuntimeState
             (reportRuntime chatId RIdle (p\<lparr>pj_runtime := js_delete (pj_runtime p) chatId\<rparr>)))"

definition projectedRuntimeState ::
  "(string \<Rightarrow> bool) \<Rightarrow> projection \<Rightarrow> string \<Rightarrow> proj_session option \<Rightarrow> runtime_state option" where
  "projectedRuntimeState owned p chatId session =
     (case session of
        None \<Rightarrow> None
      | Some s \<Rightarrow>
          (if ps_status s = SErrored then Some RError
           else if ps_status s \<noteq> SActive then None
           else Some (if owned chatId \<or> chatId \<in> set (pj_inTurn p) then RWorking else RIdle)))"

definition projectSessionRuntime ::
  "(string \<Rightarrow> bool) \<Rightarrow> string \<Rightarrow> bool \<Rightarrow> projection \<Rightarrow> projection" where
  "projectSessionRuntime owned chatId drain p =
     (case projectedRuntimeState owned p chatId (js_get (pj_sessions p) chatId) of
        None \<Rightarrow> withdrawSessionRuntime chatId p
      | Some st \<Rightarrow>
          (if js_get (pj_runtime p) chatId = Some st then p
           else let p = recomputeRuntimeState
                          (reportRuntime chatId st (p\<lparr>pj_runtime := js_set (pj_runtime p) chatId st\<rparr>))
                in if st = RIdle \<and> drain then say DrainPending p else p))"

definition noteProviderTurnStart :: "(string \<Rightarrow> bool) \<Rightarrow> string \<Rightarrow> projection \<Rightarrow> projection" where
  "noteProviderTurnStart owned chatId p =
     (if chatId \<in> set (pj_inTurn p) then p
      else projectSessionRuntime owned chatId True (p\<lparr>pj_inTurn := set_add (pj_inTurn p) chatId\<rparr>))"

definition noteProviderTurnEnd :: "(string \<Rightarrow> bool) \<Rightarrow> string \<Rightarrow> projection \<Rightarrow> projection" where
  "noteProviderTurnEnd owned chatId p =
     (if chatId \<notin> set (pj_inTurn p) then p
      else projectSessionRuntime owned chatId True (p\<lparr>pj_inTurn := set_remove (pj_inTurn p) chatId\<rparr>))"

definition reaffirmable :: "projection \<Rightarrow> string \<times> proj_session \<Rightarrow> proj_out option" where
  "reaffirmable p x =
     (if ps_status (snd x) \<noteq> SActive \<and> ps_status (snd x) \<noteq> SErrored then None
      else case js_get (pj_runtime p) (fst x) of
        Some RWorking \<Rightarrow> Some (RuntimeReport (fst x) RWorking)
      | Some RError \<Rightarrow> Some (RuntimeReport (fst x) RError)
      | _ \<Rightarrow> None)"

definition reaffirmRuntimeStates :: "projection \<Rightarrow> projection" where
  "reaffirmRuntimeStates p =
     (if \<not> pj_onRuntime p then p
      else p\<lparr>pj_outs := pj_outs p @ List.map_filter (reaffirmable p) (pj_sessions p)\<rparr>)"

definition armReaffirm :: "projection \<Rightarrow> projection" where
  "armReaffirm p = p\<lparr>pj_timers := pj_timers p @ [pj_nextTimer p], pj_timerHandle := Some (pj_nextTimer p),
     pj_nextTimer := Suc (pj_nextTimer p)\<rparr>"

definition startRuntimeReaffirm :: "projection \<Rightarrow> projection" where
  "startRuntimeReaffirm p = (if \<not> pj_onRuntime p then p else armReaffirm p)"

definition reaffirm_fires :: "nat \<Rightarrow> projection \<Rightarrow> projection" where
  "reaffirm_fires t p =
     (if t \<notin> set (pj_timers p) then p
      else armReaffirm (reaffirmRuntimeStates (p\<lparr>pj_timers := set_remove (pj_timers p) t\<rparr>)))"

definition stopRuntimeReaffirm :: "projection \<Rightarrow> projection" where
  "stopRuntimeReaffirm p =
     (case pj_timerHandle p of
        None \<Rightarrow> p
      | Some t \<Rightarrow> p\<lparr>pj_timers := set_remove (pj_timers p) t, pj_timerHandle := None\<rparr>)"


section \<open>State reports\<close>

definition notifySessionState :: "string \<Rightarrow> session_state \<Rightarrow> projection \<Rightarrow> projection" where
  "notifySessionState chatId st p =
     (if \<not> pj_onState p then p
      else if js_get (pj_reported p) chatId = Some st then p
      else say (StateReport chatId st) (p\<lparr>pj_reported := js_set (pj_reported p) chatId st\<rparr>))"


section \<open>Membership\<close>

text \<open>The new mapping goes in, then the oldest leaves when there are too many.\<close>

definition addEvictedMapping :: "string \<Rightarrow> evicted_mapping \<Rightarrow> projection \<Rightarrow> projection" where
  "addEvictedMapping chatId mapping p =
     (case resumableProviderSessionId [Some (em_sessionId mapping)] of
        None \<Rightarrow> p\<lparr>pj_evicted := js_delete (pj_evicted p) chatId\<rparr>
      | Some sid \<Rightarrow>
          (let m = js_set (pj_evicted p) chatId (mapping\<lparr>em_sessionId := sid\<rparr>)
           in p\<lparr>pj_evicted := (if length m > MAX_EVICTED_MAPPINGS then js_delete m (fst (hd m)) else m)\<rparr>))"

definition recordEvictionResume :: "string \<Rightarrow> evicted_mapping option \<Rightarrow> projection \<Rightarrow> projection" where
  "recordEvictionResume chatId mapping p =
     (case mapping of
        Some m \<Rightarrow> addEvictedMapping chatId m p
      | None \<Rightarrow> p\<lparr>pj_evicted := js_delete (pj_evicted p) chatId\<rparr>)"

definition activateLiveSession :: "proj_session \<Rightarrow> projection \<Rightarrow> evicted_mapping option \<times> projection" where
  "activateLiveSession entry p =
     (let stored = js_get (pj_evicted p) (ps_chatId entry);
          p = p\<lparr>pj_evicted := js_delete (pj_evicted p) (ps_chatId entry),
                pj_sessions := js_set (pj_sessions p) (ps_chatId entry) entry\<rparr>
      in (case stored of
            None \<Rightarrow> None
          | Some m \<Rightarrow> map_option (\<lambda>sid. m\<lparr>em_sessionId := sid\<rparr>)
                        (resumableProviderSessionId [Some (em_sessionId m)]), p))"

definition forgetChat :: "string \<Rightarrow> projection \<Rightarrow> projection" where
  "forgetChat chatId p =
     (let p = p\<lparr>pj_sessions := js_delete (pj_sessions p) chatId,
                pj_evicted := js_delete (pj_evicted p) chatId\<rparr>;
          p = withdrawSessionRuntime chatId p
      in p\<lparr>pj_reported := js_delete (pj_reported p) chatId,
           pj_trigger := js_delete (pj_trigger p) chatId\<rparr>)"

definition dropLiveSession :: "string \<Rightarrow> projection \<Rightarrow> projection" where
  "dropLiveSession chatId p =
     (let p = withdrawSessionRuntime chatId (p\<lparr>pj_sessions := js_delete (pj_sessions p) chatId\<rparr>)
      in p\<lparr>pj_trigger := js_delete (pj_trigger p) chatId\<rparr>)"

definition isSameSession :: "projection \<Rightarrow> string \<Rightarrow> proj_session \<Rightarrow> bool" where
  "isSameSession p chatId entry =
     (case js_get (pj_sessions p) chatId of None \<Rightarrow> False | Some s \<Rightarrow> ps_oid s = ps_oid entry)"

definition dropLiveSessionIfCurrent :: "string \<Rightarrow> proj_session \<Rightarrow> projection \<Rightarrow> bool \<times> projection" where
  "dropLiveSessionIfCurrent chatId entry p =
     (if \<not> isSameSession p chatId entry then (False, p) else (True, dropLiveSession chatId p))"

definition clearActiveRuntimeProjection :: "string \<Rightarrow> projection \<Rightarrow> projection" where
  "clearActiveRuntimeProjection = withdrawSessionRuntime"

definition continuation_matches :: "string \<Rightarrow> string list \<Rightarrow> stored_continuation option \<Rightarrow> bool" where
  "continuation_matches provider messageIds k =
     (case k of None \<Rightarrow> False | Some c \<Rightarrow> sc_provider c = provider \<and> sc_messageId c \<in> set messageIds)"

definition clearProviderContinuationForAck ::
  "string \<Rightarrow> string \<Rightarrow> string list \<Rightarrow> projection \<Rightarrow> bool \<times> projection" where
  "clearProviderContinuationForAck chatId provider messageIds p =
     (let (c1, p1) =
        (case js_get (pj_sessions p) chatId of
           Some s \<Rightarrow>
             if continuation_matches provider messageIds (ps_continuation s)
             then (True, p\<lparr>pj_sessions := js_set (pj_sessions p) chatId (s\<lparr>ps_continuation := None\<rparr>)\<rparr>)
             else (False, p)
         | None \<Rightarrow> (False, p))
      in case js_get (pj_evicted p1) chatId of
           Some m \<Rightarrow>
             if continuation_matches provider messageIds (em_continuation m)
             then (True, recordEvictionResume chatId (Some (m\<lparr>em_continuation := None\<rparr>)) p1)
             else (c1, p1)
         | None \<Rightarrow> (c1, p1))"

definition clearLiveMapsOnShutdown :: "projection \<Rightarrow> projection" where
  "clearLiveMapsOnShutdown p =
     (foldl (\<lambda>p chatId. withdrawSessionRuntime chatId p) p (js_keys (pj_runtime p)))
       \<lparr>pj_sessions := [], pj_evicted := []\<rparr>"

definition clearProjectionLedgers :: "projection \<Rightarrow> projection" where
  "clearProjectionLedgers p =
     p\<lparr>pj_proofChats := [], pj_reported := [], pj_runtime := [], pj_aggregate := None\<rparr>"

definition recordHandlerSource :: "nat \<Rightarrow> string \<Rightarrow> projection \<Rightarrow> projection" where
  "recordHandlerSource oid key p =
     p\<lparr>pj_sessions := map (\<lambda>(k, s). (k, if ps_oid s = oid then s\<lparr>ps_sourceKey := key\<rparr> else s)) (pj_sessions p)\<rparr>"

definition noteTreeResolveAttempt :: "int \<Rightarrow> projection \<Rightarrow> projection" where
  "noteTreeResolveAttempt t p = p\<lparr>pj_treeResolveAt := t\<rparr>"

definition setCurrentTrigger :: "string \<Rightarrow> session_message \<Rightarrow> projection \<Rightarrow> projection" where
  "setCurrentTrigger chatId m p =
     (if m_id m = [] then p
      else p\<lparr>pj_trigger := js_set (pj_trigger p) chatId (m_id m, m_senderId m)\<rparr>)"

definition clearCurrentTrigger :: "string \<Rightarrow> projection \<Rightarrow> projection" where
  "clearCurrentTrigger chatId p = p\<lparr>pj_trigger := js_delete (pj_trigger p) chatId\<rparr>"

definition markRuntimeProofRecoveryChat :: "string \<Rightarrow> projection \<Rightarrow> projection" where
  "markRuntimeProofRecoveryChat chatId p = p\<lparr>pj_proofChats := set_add (pj_proofChats p) chatId\<rparr>"

definition noteBindRecoveryComplete :: "(string \<Rightarrow> bool) \<Rightarrow> projection \<Rightarrow> projection" where
  "noteBindRecoveryComplete owned p =
     (foldl (\<lambda>p chatId. projectSessionRuntime owned chatId True (say (BindRecovered chatId) p)) p (pj_proofChats p))
       \<lparr>pj_proofChats := []\<rparr>"

text \<open>The host owns the session entries and changes their status, session id and times.\<close>

definition host_updates :: "string \<Rightarrow> (proj_session \<Rightarrow> proj_session) \<Rightarrow> projection \<Rightarrow> projection" where
  "host_updates chatId f p =
     (case js_get (pj_sessions p) chatId of
        None \<Rightarrow> p
      | Some s \<Rightarrow> p\<lparr>pj_sessions := js_set (pj_sessions p) chatId ((f s)\<lparr>ps_oid := ps_oid s, ps_chatId := ps_chatId s\<rparr>)\<rparr>)"


section \<open>Persistence\<close>

fun state_name :: "session_state \<Rightarrow> string" where
  "state_name SActive = ''active''"
| "state_name SSuspended = ''suspended''"
| "state_name SEvicted = ''evicted''"
| "state_name SErrored = ''errored''"

fun json_text :: "json option \<Rightarrow> string option" where
  "json_text (Some (JStr s)) = Some s"
| "json_text _ = None"

definition load_mapping :: "projection \<Rightarrow> string \<times> registry_entry \<Rightarrow> projection" where
  "load_mapping p x =
     (case resumableProviderSessionId [json_text (re_sessionId (snd x))] of
        None \<Rightarrow> p
      | Some sid \<Rightarrow>
          addEvictedMapping (fst x)
            \<lparr>em_sessionId = sid, em_lastActivity = re_lastActivity (snd x),
             em_continuation = re_continuation (snd x)\<rparr> p)"

definition loadPersistedSessions :: "disk \<Rightarrow> projection \<Rightarrow> projection" where
  "loadPersistedSessions d p =
     (case pj_registry p of
        None \<Rightarrow> p
      | Some r \<Rightarrow>
          (case loadSnapshot d r of
             ((entries, nonces), r') \<Rightarrow> foldl load_mapping (p\<lparr>pj_registry := Some r'\<rparr>) entries))"

definition session_entry :: "(proj_session \<Rightarrow> string option) \<Rightarrow> proj_session \<Rightarrow> registry_entry option" where
  "session_entry fallback s =
     map_option (\<lambda>sid. \<lparr>re_sessionId = Some (JStr sid), re_lastActivity = ps_lastActivity s,
         re_status = Some (JStr (state_name (ps_status s))), re_continuation = ps_continuation s\<rparr>)
       (resumableProviderSessionId [Some (ps_sessionId s), fallback s])"

definition mapping_entry :: "evicted_mapping \<Rightarrow> registry_entry option" where
  "mapping_entry m =
     map_option (\<lambda>sid. \<lparr>re_sessionId = Some (JStr sid), re_lastActivity = em_lastActivity m,
         re_status = Some (JStr ''evicted''), re_continuation = em_continuation m\<rparr>)
       (resumableProviderSessionId [Some (em_sessionId m)])"

definition put_entry :: "entry_map \<Rightarrow> string \<times> registry_entry option \<Rightarrow> entry_map" where
  "put_entry m x = (case snd x of None \<Rightarrow> m | Some e \<Rightarrow> js_set m (fst x) e)"

definition registry_entries :: "(proj_session \<Rightarrow> string option) \<Rightarrow> projection \<Rightarrow> entry_map" where
  "registry_entries fallback p =
     foldl put_entry
       (foldl put_entry [] (map (\<lambda>(k, s). (k, session_entry fallback s)) (pj_sessions p)))
       (map (\<lambda>(k, m). (k, mapping_entry m)) (pj_evicted p))"

datatype persist_mode = Debounced | Immediate | ThrowOnFailure

definition persistRegistry ::
  "io \<Rightarrow> (proj_session \<Rightarrow> string option) \<Rightarrow> persist_mode \<Rightarrow> projection \<Rightarrow> disk \<Rightarrow>
   (registry_error + unit) \<times> projection \<times> disk" where
  "persistRegistry i fallback mode p d =
     (case pj_registry p of
        None \<Rightarrow> (Inr (), p, d)
      | Some r \<Rightarrow>
          (let entries = registry_entries fallback p in
           case mode of
             ThrowOnFailure \<Rightarrow>
               (case flushOrThrow i entries r d of (res, r', d') \<Rightarrow> (res, p\<lparr>pj_registry := Some r'\<rparr>, d'))
           | Immediate \<Rightarrow> (case flush i entries r d of (r', d') \<Rightarrow> (Inr (), p\<lparr>pj_registry := Some r'\<rparr>, d'))
           | Debounced \<Rightarrow> (Inr (), p\<lparr>pj_registry := Some (save entries r)\<rparr>, d)))"

text \<open>The registry operations the authority forwards.\<close>

definition proj_rotateFreshStartNonce :: "string \<Rightarrow> string \<Rightarrow> projection \<Rightarrow> projection" where
  "proj_rotateFreshStartNonce uuid chatId p =
     p\<lparr>pj_registry := map_option (\<lambda>r. snd (rotateFreshStartNonce uuid chatId r)) (pj_registry p)\<rparr>"

definition proj_markResetNonceDurable :: "string \<Rightarrow> projection \<Rightarrow> projection" where
  "proj_markResetNonceDurable chatId p =
     p\<lparr>pj_registry := map_option (markResetNonceDurable chatId) (pj_registry p)\<rparr>"

definition proj_getFreshStartNonce :: "projection \<Rightarrow> string \<Rightarrow> string option" where
  "proj_getFreshStartNonce p chatId = Option.bind (pj_registry p) (\<lambda>r. getFreshStartNonce r chatId)"

definition disposeRegistry :: "io \<Rightarrow> projection \<Rightarrow> disk \<Rightarrow> projection \<times> disk" where
  "disposeRegistry i p d =
     (case pj_registry p of
        None \<Rightarrow> (p, d)
      | Some r \<Rightarrow> (case dispose i r d of (r', d') \<Rightarrow> (p\<lparr>pj_registry := Some r'\<rparr>, d')))"


section \<open>Runtime sync\<close>

definition shouldIncludeInRuntimeSync ::
  "(proj_session \<Rightarrow> bool) \<Rightarrow> (string \<Rightarrow> bool) \<Rightarrow> projection \<Rightarrow> string list option \<Rightarrow> string \<Rightarrow> bool" where
  "shouldIncludeInRuntimeSync retrying forced p active chatId =
     (case active of
        None \<Rightarrow> True
      | Some ids \<Rightarrow>
          chatId \<in> set ids \<or>
          (case js_get (pj_sessions p) chatId of None \<Rightarrow> False | Some s \<Rightarrow> retrying s) \<or>
          forced chatId)"

definition getSessionStates ::
  "(proj_session \<Rightarrow> bool) \<Rightarrow> (string \<Rightarrow> bool) \<Rightarrow> projection \<Rightarrow> string list option \<Rightarrow> (string \<times> session_state) list" where
  "getSessionStates retrying forced p active =
     map (\<lambda>(k, s). (k, ps_status s))
       (filter (\<lambda>(k, s). shouldIncludeInRuntimeSync retrying forced p active k) (pj_sessions p))"

definition getEvictedChatIds ::
  "(proj_session \<Rightarrow> bool) \<Rightarrow> (string \<Rightarrow> bool) \<Rightarrow> projection \<Rightarrow> string list option \<Rightarrow> string list" where
  "getEvictedChatIds retrying forced p active =
     filter (shouldIncludeInRuntimeSync retrying forced p active) (js_keys (pj_evicted p))"

definition getSessionRuntimeStates ::
  "(proj_session \<Rightarrow> bool) \<Rightarrow> (string \<Rightarrow> bool) \<Rightarrow> (string \<Rightarrow> bool) \<Rightarrow> projection \<Rightarrow> string list option \<Rightarrow>
   (string \<times> runtime_state) list" where
  "getSessionRuntimeStates retrying forced owned p active =
     List.map_filter (\<lambda>(k, s).
         if shouldIncludeInRuntimeSync retrying forced p active k
         then map_option (Pair k) (projectedRuntimeState owned p k (Some s)) else None)
       (pj_sessions p)"

definition getHeldChatIds ::
  "(proj_session \<Rightarrow> bool) \<Rightarrow> (string \<Rightarrow> bool) \<Rightarrow> projection \<Rightarrow> string list option \<Rightarrow> string list \<Rightarrow> string list" where
  "getHeldChatIds retrying forced p active extra =
     foldl set_add []
       (filter (shouldIncludeInRuntimeSync retrying forced p active)
          (js_keys (pj_sessions p) @ js_keys (pj_evicted p) @ extra))"

end
