(* ===== verification/Reachability.thy ===== *)
theory Reachability
  imports Main
begin

text \<open>
  States reached from a start state by the steps of a component, and the interface of an inductive
  invariant: what the start states and the steps owe, and what every reached state gets for it.
\<close>

inductive reaches :: "('s \<Rightarrow> bool) \<Rightarrow> ('s \<Rightarrow> 's \<Rightarrow> bool) \<Rightarrow> 's \<Rightarrow> bool" for start step where
  begins: "start s \<Longrightarrow> reaches start step s"
| moves: "reaches start step s \<Longrightarrow> step s t \<Longrightarrow> reaches start step t"

locale invariant_system =
  fixes start :: "'s \<Rightarrow> bool" and step :: "'s \<Rightarrow> 's \<Rightarrow> bool" and inv :: "'s \<Rightarrow> bool"
  assumes start_inv: "start s \<Longrightarrow> inv s"
    and step_inv: "step s t \<Longrightarrow> inv s \<Longrightarrow> inv t"
begin

lemma always: "reaches start step s \<Longrightarrow> inv s"
  by (induction rule: reaches.induct) (auto intro: start_inv step_inv)

lemma after: "reaches start step s \<Longrightarrow> step s t \<Longrightarrow> inv t"
  by (blast intro: always step_inv)

end

end
