(* ===== verification/ProjectionProperties.thy ===== *)
theory ProjectionProperties
  imports SessionProjection Reachability RegistryProperties
begin

text \<open>
  What the session projection promises to the server and to the next process: the runtime state last
  reported of a chat is the one it is in, the aggregate is the strongest of them, the resume mappings
  stay bounded, and a restart finds the sessions that were persisted.
\<close>

section \<open>The order of runtime states\<close>

instantiation runtime_state :: linorder
begin

fun severity_of :: "runtime_state \<Rightarrow> nat" where
  "severity_of RIdle = 0"
| "severity_of RWorking = 1"
| "severity_of RBlocked = 2"
| "severity_of RError = 3"

definition less_eq_runtime_state :: "runtime_state \<Rightarrow> runtime_state \<Rightarrow> bool" where
  "less_eq_runtime_state a b \<longleftrightarrow> severity_of a \<le> severity_of b"

definition less_runtime_state :: "runtime_state \<Rightarrow> runtime_state \<Rightarrow> bool" where
  "less_runtime_state a b \<longleftrightarrow> severity_of a < severity_of b"

instance
proof
  show "a \<le> b \<Longrightarrow> b \<le> a \<Longrightarrow> a = b" for a b :: runtime_state
    by (cases a; cases b) (simp_all add: less_eq_runtime_state_def)
qed (auto simp: less_eq_runtime_state_def less_runtime_state_def)

end

lemma max_states:
  "max RError s = RError" "max s RError = RError" "max RIdle s = s" "max s RIdle = s"
  "max RBlocked RWorking = RBlocked" "max RWorking RBlocked = RBlocked"
  by (cases s; simp add: max_def less_eq_runtime_state_def)+

lemma aggregate_from_fold: "agg \<noteq> RError \<Longrightarrow> aggregate_from agg ss = foldl max agg ss"
proof (induction ss arbitrary: agg)
  case (Cons s ss)
  have top: "foldl max RError xs = RError" for xs by (induction xs) (simp_all add: max_states)
  from Cons.prems show ?case
    by (cases s; cases agg) (simp_all add: Cons.IH max_states top)
qed simp

lemma foldl_max: "foldl max a xs = Max (insert (a :: 'a :: linorder) (set xs))"
proof -
  have "foldl max a xs = fold max xs a" by (induction xs arbitrary: a) (simp_all add: max.commute)
  then show ?thesis using Max.set_eq_fold [of a xs] by simp
qed

lemma aggregate_is_max: "aggregate_from RIdle ss = Max (insert RIdle (set ss))"
  by (simp add: aggregate_from_fold foldl_max)


section \<open>What the server has seen\<close>

definition see_runtime :: "(string \<Rightarrow> runtime_state) \<Rightarrow> proj_out \<Rightarrow> string \<Rightarrow> runtime_state" where
  "see_runtime f x = (case x of RuntimeReport c st \<Rightarrow> f(c := st) | _ \<Rightarrow> f)"

definition runtime_seen :: "proj_out list \<Rightarrow> string \<Rightarrow> runtime_state" where
  "runtime_seen outs = foldl see_runtime (\<lambda>c. RIdle) outs"

definition aggregate_seen :: "proj_out list \<Rightarrow> runtime_state" where
  "aggregate_seen outs = foldl (\<lambda>a x. case x of AggregateReport st \<Rightarrow> st | _ \<Rightarrow> a) RIdle outs"

lemma seen_snoc [simp]:
  "runtime_seen (outs @ [x]) = see_runtime (runtime_seen outs) x"
  "aggregate_seen (outs @ [x]) = (case x of AggregateReport st \<Rightarrow> st | _ \<Rightarrow> aggregate_seen outs)"
  by (simp_all add: runtime_seen_def aggregate_seen_def split: proj_out.split)

text \<open>The runtime state the authority holds for a chat; none means idle.\<close>

definition runtime_held :: "projection \<Rightarrow> string \<Rightarrow> runtime_state" where
  "runtime_held p c = (case js_get (pj_runtime p) c of None \<Rightarrow> RIdle | Some st \<Rightarrow> st)"

definition aggregate_held :: "projection \<Rightarrow> runtime_state" where
  "aggregate_held p = aggregate_from RIdle (map snd (pj_runtime p))"

definition runtime_ok :: "projection \<Rightarrow> bool" where
  "runtime_ok p \<longleftrightarrow> distinct (map fst (pj_runtime p)) \<and>
     (pj_onRuntime p \<longrightarrow> runtime_seen (pj_outs p) = runtime_held p)"

text \<open>The last aggregate that was recorded is the one that was sent.\<close>

definition aggregate_sync :: "projection \<Rightarrow> bool" where
  "aggregate_sync p \<longleftrightarrow> (\<not> pj_onAggregate p \<longrightarrow> pj_aggregate p = None) \<and>
     aggregate_seen (pj_outs p) = (case pj_aggregate p of None \<Rightarrow> RIdle | Some a \<Rightarrow> a)"

definition aggregate_ok :: "projection \<Rightarrow> bool" where
  "aggregate_ok p \<longleftrightarrow> aggregate_sync p \<and>
     (pj_onAggregate p \<longrightarrow> aggregate_seen (pj_outs p) = aggregate_held p)"

definition seen_ok :: "projection \<Rightarrow> bool" where
  "seen_ok p \<longleftrightarrow> runtime_ok p \<and> aggregate_ok p"

text \<open>What the invariant reads. An operation that leaves it alone keeps the invariant.\<close>

definition same_view :: "projection \<Rightarrow> projection \<Rightarrow> bool" where
  "same_view p q \<longleftrightarrow> pj_runtime q = pj_runtime p \<and> pj_aggregate q = pj_aggregate p \<and>
     pj_onRuntime q = pj_onRuntime p \<and> pj_onAggregate q = pj_onAggregate p \<and>
     runtime_seen (pj_outs q) = runtime_seen (pj_outs p) \<and> aggregate_seen (pj_outs q) = aggregate_seen (pj_outs p)"

lemma same_view_ok: "same_view p q \<Longrightarrow> seen_ok p \<Longrightarrow> seen_ok q"
  by (auto simp: same_view_def seen_ok_def runtime_ok_def aggregate_ok_def aggregate_sync_def runtime_held_def
      aggregate_held_def fun_eq_iff)

lemma same_view_trans: "same_view p q \<Longrightarrow> same_view q r \<Longrightarrow> same_view p r"
  by (simp add: same_view_def)

lemma same_view_refl [simp]: "same_view p p"
  by (simp add: same_view_def)

lemma recompute_ok:
  "runtime_ok p \<Longrightarrow> aggregate_sync p \<Longrightarrow> seen_ok (recomputeRuntimeState p)"
  by (auto simp: seen_ok_def runtime_ok_def aggregate_ok_def aggregate_sync_def recomputeRuntimeState_def Let_def
      say_def runtime_held_def aggregate_held_def see_runtime_def split: option.splits)

lemma recompute_view:
  "runtime_seen (pj_outs (recomputeRuntimeState p)) = runtime_seen (pj_outs p)"
  "pj_runtime (recomputeRuntimeState p) = pj_runtime p"
  "pj_onRuntime (recomputeRuntimeState p) = pj_onRuntime p"
  by (simp_all add: recomputeRuntimeState_def say_def see_runtime_def Let_def)

lemma set_runtime_ok:
  assumes "seen_ok p" and "q = reportRuntime c st (p\<lparr>pj_runtime := js_set (pj_runtime p) c st\<rparr>)"
  shows "seen_ok (recomputeRuntimeState q)"
  using assms
  by (intro recompute_ok)
     (auto simp: seen_ok_def runtime_ok_def aggregate_ok_def aggregate_sync_def reportRuntime_def say_def
        runtime_held_def see_runtime_def fun_eq_iff)

lemma withdraw_ok:
  assumes "seen_ok p"
  shows "seen_ok (withdrawSessionRuntime c p)"
proof -
  let ?p = "p\<lparr>pj_inTurn := set_remove (pj_inTurn p) c\<rparr>"
  have "same_view p ?p" by (simp add: same_view_def)
  with assms have ok: "seen_ok ?p" by (blast intro: same_view_ok)
  have "seen_ok (recomputeRuntimeState
      (reportRuntime c RIdle (?p\<lparr>pj_runtime := js_delete (pj_runtime ?p) c\<rparr>)))"
    using ok
    by (intro recompute_ok)
       (auto simp: seen_ok_def runtime_ok_def aggregate_ok_def aggregate_sync_def reportRuntime_def say_def
          runtime_held_def see_runtime_def fun_eq_iff)
  with ok show ?thesis by (simp add: withdrawSessionRuntime_def Let_def)
qed

lemma say_view: "(\<forall>c st. x \<noteq> RuntimeReport c st) \<Longrightarrow> (\<forall>st. x \<noteq> AggregateReport st) \<Longrightarrow> same_view p (say x p)"
  by (cases x) (simp_all add: say_def same_view_def see_runtime_def)

lemma project_ok:
  assumes "seen_ok p"
  shows "seen_ok (projectSessionRuntime owned c drain p)"
proof (cases "projectedRuntimeState owned p c (js_get (pj_sessions p) c)")
  case None
  with withdraw_ok [OF assms] show ?thesis by (simp add: projectSessionRuntime_def)
next
  case (Some st)
  let ?q = "recomputeRuntimeState (reportRuntime c st (p\<lparr>pj_runtime := js_set (pj_runtime p) c st\<rparr>))"
  have q: "seen_ok ?q" by (rule set_runtime_ok [OF assms refl])
  moreover have "seen_ok (say DrainPending ?q)" by (rule same_view_ok [OF say_view q]) simp_all
  ultimately show ?thesis using Some assms by (auto simp: projectSessionRuntime_def Let_def)
qed

lemma fold_ok: "(\<And>x q. seen_ok q \<Longrightarrow> seen_ok (f q x)) \<Longrightarrow> seen_ok p \<Longrightarrow> seen_ok (foldl f p xs)"
  by (induction xs arbitrary: p) auto

lemma fold_view: "(\<And>x q. same_view q (f q x)) \<Longrightarrow> same_view p (foldl f p xs)"
  by (induction xs arbitrary: p) (auto intro: same_view_trans)

text \<open>A reaffirmation repeats what the server was told last.\<close>

lemma reaffirm_repeats:
  assumes "runtime_seen outs = runtime_held p"
  shows "runtime_seen (outs @ List.map_filter (reaffirmable p) xs) = runtime_held p \<and>
    aggregate_seen (outs @ List.map_filter (reaffirmable p) xs) = aggregate_seen outs"
  using assms
proof (induction xs arbitrary: outs)
  case (Cons x xs)
  show ?case
  proof (cases "reaffirmable p x")
    case None
    with Cons show ?thesis by (simp add: List.map_filter_simps)
  next
    case (Some y)
    then obtain st where y: "y = RuntimeReport (fst x) st" "js_get (pj_runtime p) (fst x) = Some st"
      by (auto simp: reaffirmable_def split: if_splits option.splits runtime_state.splits)
    then have "runtime_seen (outs @ [y]) = runtime_held p" "aggregate_seen (outs @ [y]) = aggregate_seen outs"
      using Cons.prems by (auto simp: see_runtime_def runtime_held_def)
    with Cons.IH [of "outs @ [y]"] Some show ?thesis by (simp add: List.map_filter_simps)
  qed
qed (simp add: List.map_filter_simps)

lemma reaffirm_view: "seen_ok p \<Longrightarrow> same_view p (reaffirmRuntimeStates p)"
  using reaffirm_repeats [of "pj_outs p" p "pj_sessions p"]
  by (auto simp: reaffirmRuntimeStates_def same_view_def seen_ok_def runtime_ok_def)


section \<open>Resume mappings\<close>

definition resumable :: "string \<Rightarrow> bool" where
  "resumable s \<longleftrightarrow> trim s \<noteq> []"

lemma resumable_first [simp]:
  "resumableProviderSessionId [Some s] = (if resumable s then Some s else None)"
  by (simp add: resumable_def)

declare resumableProviderSessionId.simps(2) [simp del]

definition held_ok :: "projection \<Rightarrow> bool" where
  "held_ok p \<longleftrightarrow> distinct (map fst (pj_sessions p)) \<and> distinct (map fst (pj_evicted p)) \<and>
     length (pj_evicted p) \<le> MAX_EVICTED_MAPPINGS \<and> (\<forall>(c, m) \<in> set (pj_evicted p). resumable (em_sessionId m))"

lemma length_set: "length (js_set m k v) = (if k \<in> set (map fst m) then length m else Suc (length m))"
  by (induction m) auto

lemma length_delete: "distinct (map fst m) \<Longrightarrow> k \<in> set (map fst m) \<Longrightarrow> Suc (length (js_delete m k)) = length m"
  by (induction m) (auto simp: AList.delete_notin_dom dest: map_of_SomeD)

lemma set_members: "x \<in> set (js_set m k v) \<Longrightarrow> x = (k, v) \<or> x \<in> set m"
  by (induction m) (auto split: if_splits)

lemma delete_members: "x \<in> set (js_delete m k) \<Longrightarrow> x \<in> set m"
  by (simp add: AList.delete_eq)

lemma length_delete_le: "length (js_delete m k) \<le> length m"
  by (simp add: AList.delete_eq)

lemma delete_evicted_ok: "held_ok p \<Longrightarrow> held_ok (p\<lparr>pj_evicted := js_delete (pj_evicted p) c\<rparr>)"
  using length_delete_le [of c "pj_evicted p"]
  by (auto simp: held_ok_def distinct_keys_delete dest!: delete_members)

lemma add_evicted_ok: "held_ok p \<Longrightarrow> held_ok (addEvictedMapping c m p)"
proof (cases "resumable (em_sessionId m)")
  case True
  assume ok: "held_ok p"
  let ?m = "js_set (pj_evicted p) c (m\<lparr>em_sessionId := em_sessionId m\<rparr>)"
  have d: "distinct (map fst ?m)" using ok by (simp add: held_ok_def distinct_keys_set)
  have all: "\<forall>(c, x) \<in> set ?m. resumable (em_sessionId x)"
    using ok True by (auto simp: held_ok_def dest!: set_members)
  have len: "length ?m \<le> Suc MAX_EVICTED_MAPPINGS" using ok by (simp add: length_set held_ok_def)
  have ne: "?m \<noteq> []" by (simp add: AList.update_nonempty)
  then have "fst (hd ?m) \<in> set (map fst ?m)" by simp
  from length_delete [OF d this] len have "length (js_delete ?m (fst (hd ?m))) \<le> MAX_EVICTED_MAPPINGS" by simp
  then show ?thesis
    using ok True d all len
    by (auto simp: addEvictedMapping_def held_ok_def Let_def distinct_keys_delete dest!: delete_members)
qed (simp add: addEvictedMapping_def delete_evicted_ok)

lemma add_evicted_new:
  assumes "held_ok p" and "resumable (em_sessionId m)"
  shows "js_get (pj_evicted (addEvictedMapping c m p)) c = Some m"
proof -
  let ?m = "js_set (pj_evicted p) c m"
  have "fst (hd ?m) \<noteq> c" if "length ?m > MAX_EVICTED_MAPPINGS"
  proof -
    have "c \<notin> set (map fst (pj_evicted p))" "pj_evicted p \<noteq> []"
      using that assms(1) by (auto simp: length_set held_ok_def MAX_EVICTED_MAPPINGS_def split: if_splits)
    then show ?thesis by (cases "pj_evicted p") auto
  qed
  with assms(2) show ?thesis by (auto simp: addEvictedMapping_def Let_def)
qed

lemma members_kept [simp]:
  "pj_sessions (recomputeRuntimeState p) = pj_sessions p" "pj_evicted (recomputeRuntimeState p) = pj_evicted p"
  "pj_sessions (reportRuntime c st p) = pj_sessions p" "pj_evicted (reportRuntime c st p) = pj_evicted p"
  "pj_sessions (say x p) = pj_sessions p" "pj_evicted (say x p) = pj_evicted p"
  by (simp_all add: recomputeRuntimeState_def reportRuntime_def say_def Let_def)

lemma withdraw_members [simp]:
  "pj_sessions (withdrawSessionRuntime c p) = pj_sessions p"
  "pj_evicted (withdrawSessionRuntime c p) = pj_evicted p"
  by (simp_all add: withdrawSessionRuntime_def Let_def)

lemma project_members [simp]:
  "pj_sessions (projectSessionRuntime owned c drain p) = pj_sessions p"
  "pj_evicted (projectSessionRuntime owned c drain p) = pj_evicted p"
  by (simp_all add: projectSessionRuntime_def Let_def split: option.split)

lemma fold_members: "(\<And>x q. g (f q x) = g q) \<Longrightarrow> g (foldl f p xs) = g p"
  by (induction xs arbitrary: p) auto

definition proj_ok :: "projection \<Rightarrow> bool" where
  "proj_ok p \<longleftrightarrow> seen_ok p \<and> held_ok p"

lemma proj_okI: "seen_ok q \<Longrightarrow> held_ok p \<Longrightarrow> pj_sessions q = pj_sessions p \<Longrightarrow> pj_evicted q = pj_evicted p \<Longrightarrow> proj_ok q"
  by (simp add: proj_ok_def held_ok_def)

lemma proj_ok_view:
  "proj_ok p \<Longrightarrow> same_view p q \<Longrightarrow> held_ok q \<Longrightarrow> proj_ok q"
  by (auto simp: proj_ok_def intro: same_view_ok)


section \<open>Steps\<close>

text \<open>
  Every operation of the authority is a step, with any answer of the host. A shutdown clears the live
  maps and then the ledgers.
\<close>

inductive proj_step :: "projection \<Rightarrow> projection \<Rightarrow> bool" where
  activates: "proj_step p (snd (activateLiveSession e p))"
| forgets: "proj_step p (forgetChat c p)"
| drops: "proj_step p (dropLiveSession c p)"
| drops_current: "proj_step p (snd (dropLiveSessionIfCurrent c e p))"
| clears_runtime: "proj_step p (clearActiveRuntimeProjection c p)"
| evicts: "proj_step p (recordEvictionResume c m p)"
| acks: "proj_step p (snd (clearProviderContinuationForAck c provider ids p))"
| shuts_down: "proj_step p (clearProjectionLedgers (clearLiveMapsOnShutdown p))"
| clears_maps: "proj_step p (clearLiveMapsOnShutdown p)"
| starts_timer: "proj_step p (startRuntimeReaffirm p)"
| timer: "proj_step p (reaffirm_fires t p)"
| stops_timer: "proj_step p (stopRuntimeReaffirm p)"
| loads: "proj_step p (loadPersistedSessions d p)"
| persists: "proj_step p (fst (snd (persistRegistry i fallback mode p d)))"
| rotates: "proj_step p (proj_rotateFreshStartNonce uuid c p)"
| confirms: "proj_step p (proj_markResetNonceDurable c p)"
| disposes: "proj_step p (fst (disposeRegistry i p d))"
| notifies: "proj_step p (notifySessionState c st p)"
| turn_starts: "proj_step p (noteProviderTurnStart owned c p)"
| turn_ends: "proj_step p (noteProviderTurnEnd owned c p)"
| projects: "proj_step p (projectSessionRuntime owned c drain p)"
| triggers: "proj_step p (setCurrentTrigger c message p)"
| untriggers: "proj_step p (clearCurrentTrigger c p)"
| binds: "proj_step p (noteBindRecoveryComplete owned p)"
| marks: "proj_step p (markRuntimeProofRecoveryChat c p)"
| sources: "proj_step p (recordHandlerSource oid key p)"
| resolves: "proj_step p (noteTreeResolveAttempt t p)"
| host: "proj_step p (host_updates c f p)"

inductive_cases proj_step_elim: "proj_step p q"

inductive proj_start :: "projection \<Rightarrow> bool" where
  "proj_start (new_projection onState onRuntime onAggregate hasRegistry)"

inductive_simps proj_start_iff: "proj_start p"

lemma start_ok: "proj_start p \<Longrightarrow> proj_ok p"
  by (auto simp: proj_start_iff new_projection_def proj_ok_def seen_ok_def runtime_ok_def aggregate_ok_def
      aggregate_sync_def held_ok_def runtime_seen_def aggregate_seen_def runtime_held_def aggregate_held_def)

lemma quiet_steps:
  "same_view p (snd (activateLiveSession e p))" "same_view p (addEvictedMapping c m p)"
  "same_view p (setCurrentTrigger c msg p)" "same_view p (clearCurrentTrigger c p)"
  "same_view p (markRuntimeProofRecoveryChat c p)" "same_view p (recordHandlerSource oid key p)"
  "same_view p (noteTreeResolveAttempt t p)" "same_view p (host_updates c f p)"
  "same_view p (startRuntimeReaffirm p)" "same_view p (armReaffirm p)" "same_view p (stopRuntimeReaffirm p)"
  "same_view p (proj_rotateFreshStartNonce uuid c p)" "same_view p (proj_markResetNonceDurable c p)"
  "same_view p (fst (disposeRegistry i p d))" "same_view p (fst (snd (persistRegistry i fallback mode p d)))"
  "same_view p (notifySessionState c st p)"
  by (auto simp: same_view_def activateLiveSession_def addEvictedMapping_def setCurrentTrigger_def
      clearCurrentTrigger_def markRuntimeProofRecoveryChat_def recordHandlerSource_def noteTreeResolveAttempt_def
      host_updates_def startRuntimeReaffirm_def armReaffirm_def stopRuntimeReaffirm_def
      proj_rotateFreshStartNonce_def proj_markResetNonceDurable_def disposeRegistry_def persistRegistry_def
      notifySessionState_def say_def see_runtime_def Let_def
      split: option.split persist_mode.split prod.split)

lemma evict_view: "same_view p (recordEvictionResume c m p)"
  by (simp add: recordEvictionResume_def quiet_steps split: option.split) (simp add: same_view_def)

lemma ack_view: "same_view p (snd (clearProviderContinuationForAck c provider ids p))"
  by (auto simp: clearProviderContinuationForAck_def Let_def same_view_def recordEvictionResume_def
      addEvictedMapping_def split: option.split prod.split)

lemma load_cases:
  obtains "loadPersistedSessions d p = p"
  | r es where "loadPersistedSessions d p = foldl load_mapping (p\<lparr>pj_registry := r\<rparr>) es"
proof (cases "pj_registry p")
  case None
  with that(1) show ?thesis by (simp add: loadPersistedSessions_def)
next
  case (Some r)
  obtain es n r' where "loadSnapshot d r = ((es, n), r')" by (metis prod.exhaust)
  with Some that(2) [of "Some r'" es] show ?thesis by (simp add: loadPersistedSessions_def)
qed

lemma load_view: "same_view p (loadPersistedSessions d p)"
proof (cases d p rule: load_cases)
  case (2 r es)
  have one: "same_view q (load_mapping q x)" for q x
    by (simp add: load_mapping_def quiet_steps split: option.split)
  have "same_view (p\<lparr>pj_registry := r\<rparr>) (foldl load_mapping (p\<lparr>pj_registry := r\<rparr>) es)"
    by (rule fold_view) (rule one)
  moreover have "same_view p (p\<lparr>pj_registry := r\<rparr>)" by (simp add: same_view_def)
  ultimately show ?thesis using 2 by (simp add: same_view_def)
qed simp

lemma load_held: "held_ok p \<Longrightarrow> held_ok (loadPersistedSessions d p)"
proof (cases d p rule: load_cases)
  case (2 r es)
  assume ok: "held_ok p"
  have "held_ok q \<Longrightarrow> held_ok (foldl load_mapping q es)" for q
    by (induction es arbitrary: q) (simp_all add: load_mapping_def add_evicted_ok split: option.split)
  moreover have "held_ok (p\<lparr>pj_registry := r\<rparr>)" using ok by (simp add: held_ok_def)
  ultimately show ?thesis using 2 by simp
qed simp

lemma evict_held: "held_ok p \<Longrightarrow> held_ok (recordEvictionResume c m p)"
  by (simp add: recordEvictionResume_def add_evicted_ok delete_evicted_ok split: option.split)

lemma replace_session: "held_ok p \<Longrightarrow> held_ok (p\<lparr>pj_sessions := js_set (pj_sessions p) c s\<rparr>)"
  by (simp add: held_ok_def distinct_keys_set)

lemma delete_session: "held_ok p \<Longrightarrow> held_ok (p\<lparr>pj_sessions := js_delete (pj_sessions p) c\<rparr>)"
  by (simp add: held_ok_def distinct_keys_delete)

lemma ack_held: "held_ok p \<Longrightarrow> held_ok (snd (clearProviderContinuationForAck c provider ids p))"
  by (simp add: clearProviderContinuationForAck_def evict_held replace_session split: option.split)

lemma held_ok_members: "held_ok p \<Longrightarrow> pj_sessions q = pj_sessions p \<Longrightarrow> pj_evicted q = pj_evicted p \<Longrightarrow> held_ok q"
  by (simp add: held_ok_def)

lemma seen_ok_members [simp]:
  "seen_ok (p\<lparr>pj_sessions := x\<rparr>) = seen_ok p" "seen_ok (p\<lparr>pj_evicted := y\<rparr>) = seen_ok p"
  "seen_ok (p\<lparr>pj_trigger := z\<rparr>) = seen_ok p" "seen_ok (p\<lparr>pj_inTurn := w\<rparr>) = seen_ok p"
  "seen_ok (p\<lparr>pj_proofChats := v\<rparr>) = seen_ok p" "seen_ok (p\<lparr>pj_reported := u\<rparr>) = seen_ok p"
  "seen_ok (p\<lparr>pj_timers := ts\<rparr>) = seen_ok p"
  by (simp_all add: seen_ok_def runtime_ok_def aggregate_ok_def aggregate_sync_def runtime_held_def [abs_def] aggregate_held_def)

lemma withdraw_proj_ok: "proj_ok p \<Longrightarrow> proj_ok (withdrawSessionRuntime c p)"
  by (auto simp: proj_ok_def withdraw_ok intro: held_ok_members)

lemma project_proj_ok: "proj_ok p \<Longrightarrow> proj_ok (projectSessionRuntime owned c drain p)"
  by (auto simp: proj_ok_def project_ok intro: held_ok_members)

lemma turn_proj_ok:
  assumes "proj_ok p"
  shows "proj_ok (noteProviderTurnStart owned c p)" "proj_ok (noteProviderTurnEnd owned c p)"
proof -
  have "proj_ok (p\<lparr>pj_inTurn := x\<rparr>)" for x using assms by (simp add: proj_ok_def held_ok_def)
  with assms show "proj_ok (noteProviderTurnStart owned c p)" "proj_ok (noteProviderTurnEnd owned c p)"
    by (simp_all add: noteProviderTurnStart_def noteProviderTurnEnd_def project_proj_ok)
qed

lemma fold_proj_ok: "(\<And>x q. proj_ok q \<Longrightarrow> proj_ok (f q x)) \<Longrightarrow> proj_ok p \<Longrightarrow> proj_ok (foldl f p xs)"
  by (induction xs arbitrary: p) auto

lemma bind_proj_ok:
  assumes "proj_ok p"
  shows "proj_ok (noteBindRecoveryComplete owned p)"
proof -
  have said: "proj_ok (say (BindRecovered c) q)" if "proj_ok q" for c q
  proof -
    have "same_view q (say (BindRecovered c) q)" by (rule say_view) simp_all
    with that show ?thesis by (auto simp: proj_ok_def intro: same_view_ok held_ok_members)
  qed
  have "proj_ok (foldl (\<lambda>p chatId. projectSessionRuntime owned chatId True (say (BindRecovered chatId) p)) p (pj_proofChats p))"
    by (rule fold_proj_ok [OF _ assms]) (simp add: project_proj_ok said)
  then show ?thesis by (simp add: noteBindRecoveryComplete_def proj_ok_def held_ok_def)
qed

lemma clear_maps_ok:
  assumes "proj_ok p"
  shows "proj_ok (clearLiveMapsOnShutdown p)"
proof -
  have "proj_ok (foldl (\<lambda>p chatId. withdrawSessionRuntime chatId p) p (js_keys (pj_runtime p)))"
    by (rule fold_proj_ok [OF _ assms]) (simp add: withdraw_proj_ok)
  then show ?thesis by (simp add: clearLiveMapsOnShutdown_def proj_ok_def held_ok_def)
qed

lemma withdraw_runtime [simp]:
  "pj_runtime (withdrawSessionRuntime c p) = js_delete (pj_runtime p) c"
  by (simp add: withdrawSessionRuntime_def Let_def reportRuntime_def say_def recompute_view js_has_def
      AList.delete_notin_dom map_of_eq_None_iff flip: map_of_eq_None_iff)

lemma withdraw_all: "pj_runtime (foldl (\<lambda>p chatId. withdrawSessionRuntime chatId p) p ks) =
    filter (\<lambda>x. fst x \<notin> set ks) (pj_runtime p)"
  by (induction ks arbitrary: p) (auto simp: AList.delete_eq intro: filter_cong)

lemma cleared_runtime: "pj_runtime (clearLiveMapsOnShutdown p) = []"
  by (auto simp: clearLiveMapsOnShutdown_def withdraw_all js_keys_def filter_empty_conv)

text \<open>The ledgers may be forgotten because every chat was withdrawn before: the server has seen idle.\<close>

lemma shutdown_ok:
  assumes "proj_ok p"
  shows "proj_ok (clearProjectionLedgers (clearLiveMapsOnShutdown p))"
proof -
  let ?q = "clearLiveMapsOnShutdown p"
  have ok: "proj_ok ?q" by (rule clear_maps_ok [OF assms])
  have "aggregate_seen (pj_outs ?q) = RIdle"
    using ok cleared_runtime [of p]
    by (cases "pj_onAggregate ?q")
       (auto simp: proj_ok_def seen_ok_def aggregate_ok_def aggregate_held_def aggregate_sync_def split: option.splits)
  with ok cleared_runtime [of p] show ?thesis
    by (auto simp: clearProjectionLedgers_def proj_ok_def held_ok_def seen_ok_def runtime_ok_def aggregate_ok_def
        aggregate_sync_def runtime_held_def [abs_def] aggregate_held_def)
qed

lemma reaffirm_ok: "proj_ok p \<Longrightarrow> proj_ok (reaffirm_fires t p)"
proof -
  assume ok: "proj_ok p"
  let ?p = "p\<lparr>pj_timers := set_remove (pj_timers p) t\<rparr>"
  have p: "proj_ok ?p" using ok by (simp add: proj_ok_def held_ok_def)
  have "same_view ?p (armReaffirm (reaffirmRuntimeStates ?p))"
    using reaffirm_view [of ?p] p quiet_steps(10) by (blast intro: same_view_trans dest: proj_ok_def [THEN iffD1])
  with p have "proj_ok (armReaffirm (reaffirmRuntimeStates ?p))"
    by (rule proj_ok_view) (use p in \<open>simp add: proj_ok_def held_ok_def armReaffirm_def reaffirmRuntimeStates_def\<close>)
  with ok show ?thesis by (simp add: reaffirm_fires_def)
qed

lemma drop_ok: "proj_ok p \<Longrightarrow> proj_ok (dropLiveSession c p)"
proof -
  assume ok: "proj_ok p"
  then have "proj_ok (p\<lparr>pj_sessions := js_delete (pj_sessions p) c\<rparr>)" by (simp add: proj_ok_def delete_session)
  from withdraw_proj_ok [OF this, of c] show ?thesis
    by (simp add: dropLiveSession_def Let_def proj_ok_def held_ok_def)
qed

lemma forget_ok: "proj_ok p \<Longrightarrow> proj_ok (forgetChat c p)"
proof -
  assume ok: "proj_ok p"
  then have "proj_ok (p\<lparr>pj_sessions := js_delete (pj_sessions p) c, pj_evicted := js_delete (pj_evicted p) c\<rparr>)"
    using delete_session [of p c] delete_evicted_ok [of "p\<lparr>pj_sessions := js_delete (pj_sessions p) c\<rparr>" c]
    by (simp add: proj_ok_def)
  from withdraw_proj_ok [OF this, of c] show ?thesis
    by (simp add: forgetChat_def Let_def proj_ok_def held_ok_def)
qed

lemma quiet_members:
  "held_ok p \<Longrightarrow> held_ok (setCurrentTrigger c msg p)" "held_ok p \<Longrightarrow> held_ok (clearCurrentTrigger c p)"
  "held_ok p \<Longrightarrow> held_ok (markRuntimeProofRecoveryChat c p)" "held_ok p \<Longrightarrow> held_ok (noteTreeResolveAttempt t p)"
  "held_ok p \<Longrightarrow> held_ok (startRuntimeReaffirm p)" "held_ok p \<Longrightarrow> held_ok (stopRuntimeReaffirm p)"
  "held_ok p \<Longrightarrow> held_ok (proj_rotateFreshStartNonce uuid c p)" "held_ok p \<Longrightarrow> held_ok (proj_markResetNonceDurable c p)"
  "held_ok p \<Longrightarrow> held_ok (fst (disposeRegistry i p d))"
  "held_ok p \<Longrightarrow> held_ok (fst (snd (persistRegistry i fallback mode p d)))"
  "held_ok p \<Longrightarrow> held_ok (notifySessionState c st p)"
  by (auto simp: held_ok_def setCurrentTrigger_def clearCurrentTrigger_def markRuntimeProofRecoveryChat_def
      noteTreeResolveAttempt_def startRuntimeReaffirm_def armReaffirm_def stopRuntimeReaffirm_def
      proj_rotateFreshStartNonce_def proj_markResetNonceDurable_def disposeRegistry_def persistRegistry_def
      notifySessionState_def say_def Let_def split: option.split persist_mode.split prod.split)

lemma session_members:
  "held_ok p \<Longrightarrow> held_ok (snd (activateLiveSession e p))" "held_ok p \<Longrightarrow> held_ok (host_updates c f p)"
  "held_ok p \<Longrightarrow> held_ok (recordHandlerSource oid key p)"
proof -
  assume ok: "held_ok p"
  from delete_evicted_ok [OF replace_session [OF ok]] show "held_ok (snd (activateLiveSession e p))"
    by (simp add: activateLiveSession_def Let_def held_ok_def)
  from ok show "held_ok (host_updates c f p)" by (simp add: host_updates_def replace_session split: option.split)
  have "map fst (map (\<lambda>(k, s). (k, if ps_oid s = oid then s\<lparr>ps_sourceKey := key\<rparr> else s)) (pj_sessions p)) =
      map fst (pj_sessions p)" by auto
  with ok show "held_ok (recordHandlerSource oid key p)"
    unfolding recordHandlerSource_def held_ok_def by (metis (no_types, lifting) projection.select_convs(4,5)
      projection.update_convs(4) projection.surjective)
qed

lemma proj_step_ok: "proj_step p q \<Longrightarrow> proj_ok p \<Longrightarrow> proj_ok q"
  by (erule proj_step_elim)
     (auto simp: forget_ok drop_ok withdraw_proj_ok shutdown_ok clear_maps_ok reaffirm_ok turn_proj_ok
        project_proj_ok bind_proj_ok clearActiveRuntimeProjection_def dropLiveSessionIfCurrent_def
        intro!: proj_ok_view [OF _ evict_view] proj_ok_view [OF _ ack_view] proj_ok_view [OF _ load_view]
          proj_ok_view [OF _ quiet_steps(1)] quiet_steps [THEN proj_ok_view [rotated]]
        intro: quiet_members session_members evict_held ack_held load_held simp: proj_ok_def [THEN iffD1])

interpretation proj: invariant_system proj_start proj_step proj_ok
  by unfold_locales (auto intro: start_ok proj_step_ok)


section \<open>Properties\<close>

lemma project_held:
  "runtime_held (projectSessionRuntime owned c drain p) =
     (runtime_held p)(c := case projectedRuntimeState owned p c (js_get (pj_sessions p) c) of None \<Rightarrow> RIdle | Some st \<Rightarrow> st)"
proof -
  have out: "pj_runtime (say x q) = pj_runtime q" "pj_runtime (reportRuntime k st q) = pj_runtime q" for x q k st
    by (simp_all add: say_def reportRuntime_def)
  show ?thesis
    by (auto simp: projectSessionRuntime_def runtime_held_def Let_def fun_eq_iff out recompute_view split: option.split)
qed

text \<open>
  C37. The server sees what the client projects. In every reachable state with
  the runtime callback installed, projecting a chat leaves the server, by the reports sent so far, at
  exactly the state the chat's session calls for (error when it is errored, working when it is active
  and work is owned or a turn is in flight, idle otherwise and when the session is gone), and leaves
  what the server has seen of every other chat as the authority holds it.
\<close>

theorem server_sees_the_projection:
  assumes "reaches proj_start proj_step p" and "pj_onRuntime p"
  shows "runtime_seen (pj_outs (projectSessionRuntime owned c drain p)) =
    (\<lambda>k. if k = c
         then case projectedRuntimeState owned p c (js_get (pj_sessions p) c) of None \<Rightarrow> RIdle | Some st \<Rightarrow> st
         else case js_get (pj_runtime p) k of None \<Rightarrow> RIdle | Some st \<Rightarrow> st)"
proof -
  let ?q = "projectSessionRuntime owned c drain p"
  have "proj_ok ?q" by (rule proj.after [OF assms(1) projects])
  moreover have "pj_onRuntime ?q"
    using assms(2) by (simp add: projectSessionRuntime_def withdrawSessionRuntime_def Let_def reportRuntime_def
        say_def recompute_view split: option.split)
  ultimately have "runtime_seen (pj_outs ?q) = runtime_held ?q"
    by (simp add: proj_ok_def seen_ok_def runtime_ok_def)
  then show ?thesis by (auto simp: project_held runtime_held_def)
qed

text \<open>
  C38. The aggregate the server was told last is the strongest of the runtime
  states held (error over blocked over working over idle), and idle when none is, in every reachable
  state with the callback installed: also after sessions ended and after a shutdown forgot the ledgers.
\<close>

theorem aggregate_is_the_strongest:
  assumes "reaches proj_start proj_step p" and "pj_onAggregate p"
  shows "aggregate_seen (pj_outs p) = Max (insert RIdle (snd ` set (pj_runtime p)))"
  using proj.always [OF assms(1)] assms(2) aggregate_is_max [of "map snd (pj_runtime p)"]
  by (simp add: proj_ok_def seen_ok_def aggregate_ok_def aggregate_held_def)

text \<open>
  The resume mappings stay bounded and usable: in every reachable state
  there are at most 500, at most one for a chat, each with a session id that can be resumed; and the
  mapping of the session evicted last is always among them, whatever had to leave.
\<close>

theorem resume_mappings_are_bounded:
  assumes "reaches proj_start proj_step p" and "trim (em_sessionId m) \<noteq> []"
  shows "length (pj_evicted p) \<le> 500 \<and> distinct (js_keys (pj_evicted p)) \<and>
    (\<forall>(k, x) \<in> set (pj_evicted p). trim (em_sessionId x) \<noteq> []) \<and>
    js_get (pj_evicted (recordEvictionResume c (Some m) p)) c = Some m"
  using proj.always [OF assms(1)] assms(2) add_evicted_new [of p m c]
  by (simp add: proj_ok_def held_ok_def MAX_EVICTED_MAPPINGS_def js_keys_def resumable_def recordEvictionResume_def)


section \<open>Restart\<close>

definition conts_ok :: "stored_continuation option \<Rightarrow> bool" where
  "conts_ok k \<longleftrightarrow> (\<forall>x. k = Some x \<longrightarrow> continuation_ok x)"

text \<open>The mapping a session leaves for the next process.\<close>

definition session_mapping :: "(proj_session \<Rightarrow> string option) \<Rightarrow> proj_session \<Rightarrow> evicted_mapping option" where
  "session_mapping fallback s =
     map_option (\<lambda>sid. \<lparr>em_sessionId = sid, em_lastActivity = ps_lastActivity s, em_continuation = ps_continuation s\<rparr>)
       (resumableProviderSessionId [Some (ps_sessionId s), fallback s])"

definition entry_mapping :: "registry_entry \<Rightarrow> evicted_mapping" where
  "entry_mapping e = \<lparr>em_sessionId = the (json_text (re_sessionId e)), em_lastActivity = re_lastActivity e,
     em_continuation = re_continuation e\<rparr>"

definition entry_good :: "registry_entry \<Rightarrow> bool" where
  "entry_good e \<longleftrightarrow> (\<exists>sid. re_sessionId e = Some (JStr sid) \<and> resumable sid) \<and> conts_ok (re_continuation e)"

lemma put_entries:
  "distinct (map fst xs) \<Longrightarrow>
   js_get (foldl put_entry acc xs) k = (case map_of xs k of Some (Some e) \<Rightarrow> Some e | _ \<Rightarrow> js_get acc k)"
proof (induction xs arbitrary: acc)
  case (Cons x xs)
  then have "map_of xs (fst x) = None" by (simp add: map_of_eq_None_iff)
  with Cons show ?case by (auto simp: put_entry_def split: option.split)
qed simp

lemma put_distinct: "distinct (map fst acc) \<Longrightarrow> distinct (map fst (foldl put_entry acc xs))"
  by (induction xs arbitrary: acc) (auto simp: put_entry_def distinct_keys_set split: option.split)

lemma put_good:
  "\<forall>x \<in> set acc. entry_good (snd x) \<Longrightarrow> \<forall>x \<in> set xs. \<forall>e. snd x = Some e \<longrightarrow> entry_good e \<Longrightarrow>
   \<forall>x \<in> set (foldl put_entry acc xs). entry_good (snd x)"
proof (induction xs arbitrary: acc)
  case (Cons x xs)
  have "\<forall>y \<in> set (put_entry acc x). entry_good (snd y)"
    using Cons.prems by (auto simp: put_entry_def split: option.split dest!: set_members)
  with Cons show ?case by simp
qed simp

lemma resumable_some: "resumableProviderSessionId xs = Some sid \<Longrightarrow> resumable sid"
  by (induction xs rule: resumableProviderSessionId.induct)
     (auto simp: resumable_def resumableProviderSessionId.simps(2) split: if_splits)

lemma session_entry_good: "session_entry fallback s = Some e \<Longrightarrow> conts_ok (ps_continuation s) \<Longrightarrow> entry_good e"
  by (auto simp: session_entry_def entry_good_def dest: resumable_some)

lemma mapping_entry_good: "mapping_entry m = Some e \<Longrightarrow> conts_ok (em_continuation m) \<Longrightarrow> entry_good e"
  by (auto simp: mapping_entry_def entry_good_def split: if_splits)

lemma registry_entries_good:
  assumes "\<forall>(c, s) \<in> set (pj_sessions p). conts_ok (ps_continuation s)"
    and "\<forall>(c, m) \<in> set (pj_evicted p). conts_ok (em_continuation m)"
  shows "\<forall>x \<in> set (registry_entries fallback p). entry_good (snd x)"
  unfolding registry_entries_def
proof (rule put_good [OF put_good])
  show "\<forall>x \<in> set (map (\<lambda>(k, s). (k, session_entry fallback s)) (pj_sessions p)). \<forall>e. snd x = Some e \<longrightarrow> entry_good e"
    using assms(1) by (auto dest!: session_entry_good)
  show "\<forall>x \<in> set (map (\<lambda>(k, m). (k, mapping_entry m)) (pj_evicted p)). \<forall>e. snd x = Some e \<longrightarrow> entry_good e"
    using assms(2) by (auto dest!: mapping_entry_good)
qed simp

lemma load_all:
  "length (pj_evicted q) + length es \<le> MAX_EVICTED_MAPPINGS \<Longrightarrow> distinct (map fst (pj_evicted q) @ map fst es) \<Longrightarrow>
   \<forall>x \<in> set es. entry_good (snd x) \<Longrightarrow>
   pj_evicted (foldl load_mapping q es) = pj_evicted q @ map (\<lambda>(c, e). (c, entry_mapping e)) es"
proof (induction es arbitrary: q)
  case (Cons x es)
  obtain c e where x: "x = (c, e)" by (cases x)
  with Cons.prems obtain sid where sid: "re_sessionId e = Some (JStr sid)" "resumable sid" by (auto simp: entry_good_def)
  have "js_set (pj_evicted q) c (entry_mapping e) = pj_evicted q @ [(c, entry_mapping e)]"
    by (rule set_new) (use Cons.prems(2) x in auto)
  then have one: "pj_evicted (load_mapping q x) = pj_evicted q @ [(c, entry_mapping e)]"
    using sid Cons.prems(1) by (simp add: x load_mapping_def addEvictedMapping_def entry_mapping_def Let_def)
  have "pj_evicted (foldl load_mapping (load_mapping q x) es) =
      pj_evicted (load_mapping q x) @ map (\<lambda>(c, e). (c, entry_mapping e)) es"
    by (rule Cons.IH) (use Cons.prems x one in auto)
  with one x show ?case by simp
qed simp

lemma map_of_pairs: "map_of (map (\<lambda>(k, v). (k, f v)) xs) k = map_option f (map_of xs k)"
  by (induction xs) auto

lemma put_mapped:
  assumes "distinct (map fst xs)"
  shows "js_get (foldl put_entry acc (map (\<lambda>(k, s). (k, f s)) xs)) k =
    (case Option.bind (map_of xs k) f of Some e \<Rightarrow> Some e | None \<Rightarrow> js_get acc k)"
proof -
  have "map fst (map (\<lambda>(k, s). (k, f s)) xs) = map fst xs" by auto
  with assms have "distinct (map fst (map (\<lambda>(k, s). (k, f s)) xs))" by metis
  from put_entries [OF this, of acc k] show ?thesis
    by (cases "map_of xs k") (simp_all add: map_of_pairs split: option.split)
qed

lemma entries_lookup:
  assumes "held_ok p"
  shows "map_option entry_mapping (js_get (registry_entries fallback p) c) =
    (case js_get (pj_evicted p) c of
       Some m \<Rightarrow> Some m
     | None \<Rightarrow> Option.bind (js_get (pj_sessions p) c) (session_mapping fallback))"
proof -
  have m: "map_option entry_mapping (mapping_entry m) = Some m" if "js_get (pj_evicted p) c = Some m" for m
  proof -
    from map_of_SomeD [OF that] assms have "resumable (em_sessionId m)" by (auto simp: held_ok_def)
    then show ?thesis by (simp add: mapping_entry_def entry_mapping_def)
  qed
  have s: "map_option entry_mapping (session_entry fallback s) = session_mapping fallback s" for s
    by (simp add: session_entry_def session_mapping_def entry_mapping_def option.map_comp comp_def)
  show ?thesis
    using assms m
    by (cases "js_get (pj_evicted p) c"; cases "js_get (pj_sessions p) c")
       (auto simp: registry_entries_def put_mapped held_ok_def s [symmetric] split: option.split)
qed

lemma entries_distinct: "distinct (map fst (registry_entries fallback p))"
  by (simp add: registry_entries_def put_distinct)

text \<open>
  C36. A restart finds the sessions. When a forced write of the registry
  returned in a reachable state, a new process that loads the file holds for every chat the resume
  mapping the old one had (the evicted mapping, or else the live session by its resumable session id or
  its fallback, with its time and its provider continuation), provided at most 500 entries were
  written, the stored continuations name a provider, session and message, and no nonce is empty. Beyond
  500 entries, which 500 evicted mappings and one live session already are, the load drops the oldest.
\<close>

theorem restart_keeps_the_sessions:
  assumes "reaches proj_start proj_step p" and "pj_registry p = Some r" and "nonces_ok (rg_nonces r)"
    and "\<forall>(c, s) \<in> set (pj_sessions p). conts_ok (ps_continuation s)"
    and "\<forall>(c, m) \<in> set (pj_evicted p). conts_ok (em_continuation m)"
    and "length (registry_entries fallback p) \<le> 500"
    and "persistRegistry i fallback ThrowOnFailure p d = (Inr (), p', d')"
  shows "js_get (pj_evicted (loadPersistedSessions d' (new_projection a b e True))) c =
    (case js_get (pj_evicted p) c of
       Some m \<Rightarrow> Some m
     | None \<Rightarrow> Option.bind (js_get (pj_sessions p) c) (session_mapping fallback))"
proof -
  let ?es = "registry_entries fallback p" and ?n = "new_projection a b e True"
  have ok: "held_ok p" using proj.always [OF assms(1)] by (simp add: proj_ok_def)
  have good: "\<forall>x \<in> set ?es. entry_good (snd x)" by (rule registry_entries_good [OF assms(4,5)])
  have w: "writeToDisk i ?es (clearPendingWrite r) d = (Inr (), d')"
    using assms(2,7) by (auto simp: persistRegistry_def flushOrThrow_def Let_def split: prod.splits)
  have times: "\<forall>(c, x) \<in> set ?es. time_ok x"
  proof (rule ccontr)
    assume "\<not> ?thesis"
    then have "entries_json ?es [] = Inl InvalidTime" by (intro invalid_time_json) auto
    with w show False by (simp add: writeToDisk_def)
  qed
  have st: "storable ?es"
    using times good entries_distinct [of fallback p] by (force simp: storable_def entry_ok_def entry_good_def conts_ok_def)
  from write_result [OF w times entries_distinct]
  have "dk_file d' = registry_file ?es (rg_nonces r)" by (simp add: clearPendingWrite_def)
  from read_registry_file [OF st assms(3) this, of new_registry]
  have "loadPersistedSessions d' ?n =
      foldl load_mapping (?n\<lparr>pj_registry := Some (new_registry\<lparr>rg_nonces := rg_nonces r, rg_rotations := []\<rparr>)\<rparr>) ?es"
    by (simp add: loadPersistedSessions_def new_projection_def)
  then have "pj_evicted (loadPersistedSessions d' ?n) = map (\<lambda>(c, e). (c, entry_mapping e)) ?es"
    using load_all [of "?n\<lparr>pj_registry := Some (new_registry\<lparr>rg_nonces := rg_nonces r, rg_rotations := []\<rparr>)\<rparr>" ?es]
      assms(6) entries_distinct [of fallback p] good
    by (simp add: new_projection_def MAX_EVICTED_MAPPINGS_def)
  then show ?thesis using entries_lookup [OF ok, of fallback c] by (simp add: map_of_pairs)
qed


section \<open>Witnesses\<close>

definition demo_session :: "nat \<Rightarrow> string \<Rightarrow> string \<Rightarrow> session_state \<Rightarrow> proj_session" where
  "demo_session oid chat sid st = \<lparr>ps_oid = oid, ps_chatId = chat, ps_sessionId = sid, ps_continuation = None,
     ps_sourceKey = [], ps_status = st, ps_lastActivity = Some 5\<rparr>"

definition demo_projection :: projection where
  "demo_projection = noteProviderTurnStart (\<lambda>c. False) ''a''
     (snd (activateLiveSession (demo_session 2 ''b'' '' '' SErrored)
       (snd (activateLiveSession (demo_session 1 ''a'' ''s1'' SActive) (new_projection True True True True)))))"

lemma demo_reached: "reaches proj_start proj_step demo_projection"
  unfolding demo_projection_def
  by (rule reaches.moves [OF reaches.moves [OF reaches.moves [OF reaches.begins]]]; rule proj_step.intros proj_start.intros)

theorem server_sees_the_projection_witness:
  "runtime_seen (pj_outs (projectSessionRuntime (\<lambda>c. False) ''b'' True demo_projection)) ''b'' = RError \<and>
   runtime_seen (pj_outs (projectSessionRuntime (\<lambda>c. False) ''b'' True demo_projection)) ''a'' = RWorking"
proof -
  have "pj_onRuntime demo_projection" by code_simp
  note w = server_sees_the_projection [OF demo_reached this, of "\<lambda>c. False" "''b''" True]
  have "projectedRuntimeState (\<lambda>c. False) demo_projection ''b'' (js_get (pj_sessions demo_projection) ''b'') = Some RError"
    "js_get (pj_runtime demo_projection) ''a'' = Some RWorking" by code_simp+
  with w show ?thesis by simp
qed

theorem aggregate_is_the_strongest_witness: "aggregate_seen (pj_outs demo_projection) = RWorking"
proof -
  have "pj_onAggregate demo_projection" "pj_runtime demo_projection = [(''a'', RWorking)]" by code_simp+
  with aggregate_is_the_strongest [OF demo_reached] show ?thesis by (simp add: max_states)
qed

theorem resume_mappings_are_bounded_witness:
  "js_get (pj_evicted (recordEvictionResume ''z'' (Some \<lparr>em_sessionId = ''s'', em_lastActivity = Some 1,
     em_continuation = None\<rparr>) demo_projection)) ''z'' \<noteq> None"
  using resume_mappings_are_bounded [OF demo_reached, of "\<lparr>em_sessionId = ''s'', em_lastActivity = Some 1,
     em_continuation = None\<rparr>" "''z''"]
  by (simp add: trim_def is_space_def)

theorem restart_keeps_the_sessions_witness:
  "js_get (pj_evicted (loadPersistedSessions
      (snd (snd (persistRegistry healthy_io (\<lambda>s. Some ''f'') ThrowOnFailure demo_projection no_disk)))
      (new_projection True True True True))) ''b'' =
   Some \<lparr>em_sessionId = ''f'', em_lastActivity = Some 5, em_continuation = None\<rparr>"
proof -
  obtain res p' d' where run: "persistRegistry healthy_io (\<lambda>s. Some ''f'') ThrowOnFailure demo_projection no_disk = (res, p', d')"
    by (metis prod.exhaust)
  have "fst (persistRegistry healthy_io (\<lambda>s. Some ''f'') ThrowOnFailure demo_projection no_disk) = Inr ()" by code_simp
  with run have "persistRegistry healthy_io (\<lambda>s. Some ''f'') ThrowOnFailure demo_projection no_disk = (Inr (), p', d')" by simp
  note w = restart_keeps_the_sessions [OF demo_reached _ _ _ _ _ this, of new_registry True True True "''b''"]
  have "pj_registry demo_projection = Some new_registry" "length (registry_entries (\<lambda>s. Some ''f'') demo_projection) \<le> 500"
    "pj_sessions demo_projection = [(''a'', demo_session 1 ''a'' ''s1'' SActive), (''b'', demo_session 2 ''b'' '' '' SErrored)]"
    "pj_evicted demo_projection = []" by code_simp+
  with w run show ?thesis
    by (simp add: nonces_ok_def new_registry_def conts_ok_def demo_session_def session_mapping_def
        resumableProviderSessionId.simps(2) trim_def is_space_def)
qed

end
