(* ===== verification/RouteTeardown.thy ===== *)
theory RouteTeardown
  imports RuntimeTypes
begin

text \<open>
  The model of \<open>runtime/route-teardown-authority.ts\<close>: the generations and transitions of the route of a
  session, handlers that were detached without a confirmed stop (the teardown debt), the coalesced
  shutdowns of a handler, the producers of routes still in flight, and the quarantine of handlers whose
  suspend timed out. Handlers, session entries and tokens are objects, so they are numbers here; a lookup
  in a \<open>WeakMap\<close> of an entry that was never attached throws, which is \<open>None\<close>. What the host owns (the
  session map, the fields of the entries, the slots, the shutdown flag) is \<open>rt_host\<close>.

  A promise is a state and the callbacks that wait for it. An attempt to shut a handler down waits for
  the one before it, runs and settles; a callback on it is a \<open>waiter\<close> that runs some time after the attempt
  has settled. A caller that looks at failures waits for the raw promise; one that does not adds no waiter.
\<close>

section \<open>State\<close>

type_synonym handler = nat
type_synonym entry_id = nat

datatype route_phase = PhaseStart | PhaseResume

record route_lease =
  ln_generation :: nat
  ln_handler :: handler

record route_transition = route_lease +
  tk_id :: nat
  tk_phase :: route_phase

definition lease_of :: "route_transition \<Rightarrow> route_lease" where
  "lease_of k = \<lparr>ln_generation = ln_generation k, ln_handler = ln_handler k\<rparr>"

record route_state =
  rs_generation :: nat
  rs_transition :: "route_transition option"
  rs_injectReady :: bool

definition emptyRouteState :: route_state where
  "emptyRouteState = \<lparr>rs_generation = 0, rs_transition = None, rs_injectReady = False\<rparr>"

record quarantined =
  qu_handler :: handler
  qu_generation :: nat
  qu_inFlight :: bool

record host_entry =
  he_chatId :: string
  he_handler :: handler
  he_status :: session_state
  he_suspending :: bool
  he_stopped :: "handler option"

record route_host =
  rh_entries :: "(entry_id, host_entry) jsmap"
  rh_sessions :: "(string, entry_id) jsmap"
  rh_slots :: "entry_id list"
  rh_shuttingDown :: bool

datatype shutdown_state = SdWaiting | SdRunning | SdStopped | SdFailed

record shutdown_attempt =
  sd_handler :: handler
  sd_reason :: string
  sd_prior :: "nat option"
  sd_state :: shutdown_state

datatype waiter =
    WaitDebt nat string handler
  | WaitRetire nat entry_id handler
  | WaitSettle nat string handler "handler list" bool
  | WaitQuiesce string "nat list" bool

datatype route_out =
    HandlerShutdown handler string
  | AdmissionInvalidated string
  | RouteAdmission string bool
  | Quiesced string
  | SuspendTimedOut string nat bool

record teardown =
  rt_host :: route_host
  rt_routes :: "(entry_id, route_state) jsmap"
  rt_pending :: "(string, handler list) jsmap"
  rt_quarantined :: "(string, quarantined) jsmap"
  rt_producers :: "(string, nat list) jsmap"
  rt_open :: "nat list"
  rt_nextProducer :: nat
  rt_retired :: "handler list"
  rt_shutdowns :: "(handler, nat) jsmap"
  rt_attempts :: "shutdown_attempt list"
  rt_waiters :: "waiter list"
  rt_nextToken :: nat
  rt_outs :: "route_out list"

definition new_teardown :: "route_host \<Rightarrow> teardown" where
  "new_teardown h = \<lparr>rt_host = h, rt_routes = [], rt_pending = [], rt_quarantined = [], rt_producers = [],
     rt_open = [], rt_nextProducer = 0, rt_retired = [], rt_shutdowns = [], rt_attempts = [], rt_waiters = [],
     rt_nextToken = 0, rt_outs = []\<rparr>"

definition report :: "route_out \<Rightarrow> teardown \<Rightarrow> teardown" where
  "report x t = t\<lparr>rt_outs := rt_outs t @ [x]\<rparr>"

definition await :: "waiter \<Rightarrow> teardown \<Rightarrow> teardown" where
  "await w t = t\<lparr>rt_waiters := rt_waiters t @ [w]\<rparr>"

definition entry_of :: "teardown \<Rightarrow> entry_id \<Rightarrow> host_entry option" where
  "entry_of t e = js_get (rh_entries (rt_host t)) e"

definition upd_entry :: "entry_id \<Rightarrow> (host_entry \<Rightarrow> host_entry) \<Rightarrow> teardown \<Rightarrow> teardown" where
  "upd_entry e f t =
     (case entry_of t e of
        None \<Rightarrow> t
      | Some x \<Rightarrow> t\<lparr>rt_host := (rt_host t)\<lparr>rh_entries := js_set (rh_entries (rt_host t)) e (f x)\<rparr>\<rparr>)"

definition route :: "teardown \<Rightarrow> entry_id \<Rightarrow> route_state option" where
  "route t e = js_get (rt_routes t) e"

definition set_route :: "entry_id \<Rightarrow> route_state \<Rightarrow> teardown \<Rightarrow> teardown" where
  "set_route e s t = t\<lparr>rt_routes := js_set (rt_routes t) e s\<rparr>"

definition attachLiveSession :: "entry_id \<Rightarrow> teardown \<Rightarrow> teardown" where
  "attachLiveSession e t = set_route e emptyRouteState t"


section \<open>Queries\<close>

definition pending_of :: "teardown \<Rightarrow> string \<Rightarrow> handler list" where
  "pending_of t c = (case js_get (rt_pending t) c of None \<Rightarrow> [] | Some hs \<Rightarrow> hs)"

definition producers_of :: "teardown \<Rightarrow> string \<Rightarrow> nat list" where
  "producers_of t c = (case js_get (rt_producers t) c of None \<Rightarrow> [] | Some ps \<Rightarrow> ps)"

definition hasQuarantinedChat :: "teardown \<Rightarrow> string \<Rightarrow> bool" where
  "hasQuarantinedChat t c = js_has (rt_quarantined t) c"

definition isHandlerInAnyQuarantine :: "teardown \<Rightarrow> handler \<Rightarrow> bool" where
  "isHandlerInAnyQuarantine t h = list_ex (\<lambda>(c, q). qu_handler q = h) (rt_quarantined t)"

definition hasPendingTeardown :: "teardown \<Rightarrow> string \<Rightarrow> bool" where
  "hasPendingTeardown t c = (pending_of t c \<noteq> [])"

definition hasRouteProducers :: "teardown \<Rightarrow> string \<Rightarrow> bool" where
  "hasRouteProducers t c = (producers_of t c \<noteq> [])"

definition quarantinedChatIds :: "teardown \<Rightarrow> string list" where
  "quarantinedChatIds t = map fst (rt_quarantined t)"

definition quarantinedHandler :: "teardown \<Rightarrow> string \<Rightarrow> handler option" where
  "quarantinedHandler t c = map_option qu_handler (js_get (rt_quarantined t) c)"

definition pendingTeardownChatIds :: "teardown \<Rightarrow> string list" where
  "pendingTeardownChatIds t = map fst (rt_pending t)"

definition allPendingTeardownEntries :: "teardown \<Rightarrow> (string \<times> handler list) list" where
  "allPendingTeardownEntries t = rt_pending t"

definition routeProducerChatIds :: "teardown \<Rightarrow> string list" where
  "routeProducerChatIds t = map fst (rt_producers t)"

definition allRouteProducerPromises :: "teardown \<Rightarrow> nat list" where
  "allRouteProducerPromises t = concat (map snd (rt_producers t))"

definition hasInFlightTransition :: "teardown \<Rightarrow> entry_id \<Rightarrow> bool" where
  "hasInFlightTransition t e = (case route t e of None \<Rightarrow> False | Some s \<Rightarrow> rs_transition s \<noteq> None)"

definition isRouteInjectReady :: "teardown \<Rightarrow> entry_id \<Rightarrow> bool" where
  "isRouteInjectReady t e = (case route t e of None \<Rightarrow> False | Some s \<Rightarrow> rs_injectReady s)"

definition currentRouteLease :: "teardown \<Rightarrow> entry_id \<Rightarrow> route_lease option" where
  "currentRouteLease t e =
     (case (route t e, entry_of t e) of
        (Some s, Some x) \<Rightarrow> Some \<lparr>ln_generation = rs_generation s, ln_handler = he_handler x\<rparr>
      | _ \<Rightarrow> None)"

definition captureGeneration :: "teardown \<Rightarrow> entry_id \<Rightarrow> nat" where
  "captureGeneration t e = (case route t e of None \<Rightarrow> 0 | Some s \<Rightarrow> rs_generation s)"

definition isGenerationCurrent :: "teardown \<Rightarrow> entry_id \<Rightarrow> nat \<Rightarrow> bool option" where
  "isGenerationCurrent t e g = map_option (\<lambda>s. rs_generation s = g) (route t e)"

definition isHandlerRetired :: "teardown \<Rightarrow> handler \<Rightarrow> bool" where
  "isHandlerRetired t h = (h \<in> set (rt_retired t))"

definition quarantineMatches :: "teardown \<Rightarrow> string \<Rightarrow> route_lease \<Rightarrow> bool" where
  "quarantineMatches t c l =
     (case js_get (rt_quarantined t) c of
        None \<Rightarrow> False
      | Some q \<Rightarrow> qu_handler q = ln_handler l \<and> qu_generation q = ln_generation l)"

definition quarantined_handler_is :: "teardown \<Rightarrow> string \<Rightarrow> handler \<Rightarrow> bool" where
  "quarantined_handler_is t c h =
     (case js_get (rt_quarantined t) c of None \<Rightarrow> False | Some q \<Rightarrow> qu_handler q = h)"

definition isCurrentHandlerQuarantined :: "teardown \<Rightarrow> entry_id \<Rightarrow> bool" where
  "isCurrentHandlerQuarantined t e =
     (case entry_of t e of None \<Rightarrow> False | Some x \<Rightarrow> quarantined_handler_is t (he_chatId x) (he_handler x))"

definition isProviderAdmissionRestartRequired :: "teardown \<Rightarrow> string \<Rightarrow> bool" where
  "isProviderAdmissionRestartRequired t c =
     (case js_get (rt_quarantined t) c of None \<Rightarrow> False | Some q \<Rightarrow> qu_inFlight q)"


section \<open>Debt and shutdowns\<close>

definition registerPendingTeardown :: "string \<Rightarrow> handler \<Rightarrow> teardown \<Rightarrow> teardown" where
  "registerPendingTeardown c h t = t\<lparr>rt_pending := js_set (rt_pending t) c (set_add (pending_of t c) h)\<rparr>"

definition dropPendingTeardown :: "string \<Rightarrow> handler \<Rightarrow> teardown \<Rightarrow> teardown" where
  "dropPendingTeardown c h t =
     (case js_get (rt_pending t) c of
        None \<Rightarrow> t
      | Some hs \<Rightarrow>
          (let hs' = set_remove hs h
           in t\<lparr>rt_pending := (if hs' = [] then js_delete (rt_pending t) c else js_set (rt_pending t) c hs')\<rparr>))"

definition dropPendingTeardownEverywhere :: "handler \<Rightarrow> teardown \<Rightarrow> teardown" where
  "dropPendingTeardownEverywhere h t =
     t\<lparr>rt_pending := filter (\<lambda>(c, hs). hs \<noteq> []) (map (\<lambda>(c, hs). (c, set_remove hs h)) (rt_pending t))\<rparr>"

text \<open>
  A prior shutdown is joined, unless the caller asks for one after it. The result is the attempt
  whose promise the caller gets.
\<close>

definition shutdownHandler :: "handler \<Rightarrow> string \<Rightarrow> bool \<Rightarrow> teardown \<Rightarrow> nat \<times> teardown" where
  "shutdownHandler h reason afterPrior t =
     (let prior = js_get (rt_shutdowns t) h;
          i = length (rt_attempts t);
          t' = t\<lparr>rt_attempts := rt_attempts t @
                   [\<lparr>sd_handler = h, sd_reason = reason, sd_prior = prior, sd_state = SdWaiting\<rparr>],
                 rt_shutdowns := js_set (rt_shutdowns t) h i\<rparr>
      in case prior of
           Some p \<Rightarrow> if afterPrior then (i, t') else (p, t)
         | None \<Rightarrow> (i, t'))"

definition settled_state :: "shutdown_state \<Rightarrow> bool" where
  "settled_state s = (s = SdStopped \<or> s = SdFailed)"

definition attempt_settled :: "teardown \<Rightarrow> nat \<Rightarrow> bool" where
  "attempt_settled t i = (i < length (rt_attempts t) \<and> settled_state (sd_state (rt_attempts t ! i)))"

definition set_attempt :: "nat \<Rightarrow> shutdown_state \<Rightarrow> teardown \<Rightarrow> teardown" where
  "set_attempt i s t = t\<lparr>rt_attempts := (rt_attempts t)[i := (rt_attempts t ! i)\<lparr>sd_state := s\<rparr>]\<rparr>"

definition shutdown_starts :: "nat \<Rightarrow> teardown \<Rightarrow> teardown" where
  "shutdown_starts i t =
     (if i < length (rt_attempts t) \<and> sd_state (rt_attempts t ! i) = SdWaiting \<and>
         (case sd_prior (rt_attempts t ! i) of None \<Rightarrow> True | Some p \<Rightarrow> attempt_settled t p)
      then report (HandlerShutdown (sd_handler (rt_attempts t ! i)) (sd_reason (rt_attempts t ! i)))
             (set_attempt i SdRunning t)
      else t)"

definition shutdown_settles :: "nat \<Rightarrow> bool \<Rightarrow> teardown \<Rightarrow> teardown" where
  "shutdown_settles i ok t =
     (if i < length (rt_attempts t) \<and> sd_state (rt_attempts t ! i) = SdRunning
      then set_attempt i (if ok then SdStopped else SdFailed) t else t)"

definition shutdown_forgets :: "nat \<Rightarrow> teardown \<Rightarrow> teardown" where
  "shutdown_forgets i t =
     (if attempt_settled t i \<and> js_get (rt_shutdowns t) (sd_handler (rt_attempts t ! i)) = Some i
      then t\<lparr>rt_shutdowns := js_delete (rt_shutdowns t) (sd_handler (rt_attempts t ! i))\<rparr> else t)"

definition detachHandlerWithPendingTeardown :: "string \<Rightarrow> handler \<Rightarrow> string \<Rightarrow> teardown \<Rightarrow> teardown" where
  "detachHandlerWithPendingTeardown c h reason t =
     (let (i, t') = shutdownHandler h reason False (registerPendingTeardown c h t)
      in await (WaitDebt i c h) t')"

definition retireHandler :: "handler \<Rightarrow> teardown \<Rightarrow> teardown" where
  "retireHandler h t = t\<lparr>rt_retired := set_add (rt_retired t) h\<rparr>"

definition retireTransitionHandler :: "route_transition \<Rightarrow> string \<Rightarrow> teardown \<Rightarrow> teardown" where
  "retireTransitionHandler k reason t =
     snd (shutdownHandler (ln_handler k) reason False (retireHandler (ln_handler k) t))"

definition retireHandlerForContextSourceChange :: "entry_id \<Rightarrow> teardown \<Rightarrow> teardown" where
  "retireHandlerForContextSourceChange e t =
     (case entry_of t e of
        None \<Rightarrow> t
      | Some x \<Rightarrow>
          (let stale = he_handler x in
           if he_stopped x \<noteq> Some stale \<and> \<not> isCurrentHandlerQuarantined t e
           then let (i, t') = shutdownHandler stale ''session_resume_context_source_changed'' False
                                (registerPendingTeardown (he_chatId x) stale t)
                in await (WaitRetire i e stale) t'
           else retireHandler stale t))"


section \<open>Route producers and admission\<close>

definition registerRouteProducer :: "string \<Rightarrow> teardown \<Rightarrow> nat \<times> teardown" where
  "registerRouteProducer c t =
     (let p = rt_nextProducer t
      in (p, t\<lparr>rt_nextProducer := Suc p, rt_open := rt_open t @ [p],
               rt_producers := js_set (rt_producers t) c (set_add (producers_of t c) p)\<rparr>))"

definition producer_settles :: "string \<Rightarrow> nat \<Rightarrow> teardown \<Rightarrow> teardown" where
  "producer_settles c p t =
     (let t = t\<lparr>rt_open := set_remove (rt_open t) p\<rparr> in
      case js_get (rt_producers t) c of
        None \<Rightarrow> t
      | Some ps \<Rightarrow>
          (let ps' = set_remove ps p
           in t\<lparr>rt_producers := (if ps' = [] then js_delete (rt_producers t) c
                                 else js_set (rt_producers t) c ps')\<rparr>))"

text \<open>
  The loop over the pending handlers: each is shut down strictly, in the order of the snapshot. A round
  without failures looks at the debt again.
\<close>

definition await_stop :: "string \<Rightarrow> handler \<Rightarrow> handler list \<Rightarrow> bool \<Rightarrow> teardown \<Rightarrow> teardown" where
  "await_stop c h rest settled t =
     (let (i, t') = shutdownHandler h ''route_admission_teardown'' False t
      in await (WaitSettle i c h rest settled) t')"

definition settle_debt :: "string \<Rightarrow> teardown \<Rightarrow> teardown" where
  "settle_debt c t =
     (case pending_of t c of
        [] \<Rightarrow> report (RouteAdmission c True) t
      | h # rest \<Rightarrow> await_stop c h rest True t)"

definition settle_next :: "string \<Rightarrow> handler list \<Rightarrow> bool \<Rightarrow> teardown \<Rightarrow> teardown" where
  "settle_next c rest settled t =
     (case rest of
        h # rest' \<Rightarrow> await_stop c h rest' settled t
      | [] \<Rightarrow> if settled then settle_debt c t else report (RouteAdmission c False) t)"

text \<open>\<open>debt\<close> says that the caller is the admission, which settles the debt after the producers.\<close>

definition quiesce :: "string \<Rightarrow> bool \<Rightarrow> teardown \<Rightarrow> teardown" where
  "quiesce c debt t =
     (if producers_of t c \<noteq> [] then await (WaitQuiesce c (producers_of t c) debt) t
      else if debt then settle_debt c t
      else report (Quiesced c) t)"

definition quiesceRouteProducers :: "string \<Rightarrow> teardown \<Rightarrow> teardown" where
  "quiesceRouteProducers c t = quiesce c False t"

definition settleTeardownDebtBeforeRoute :: "string \<Rightarrow> teardown \<Rightarrow> teardown" where
  "settleTeardownDebtBeforeRoute c t =
     (if isProviderAdmissionRestartRequired t c then report (RouteAdmission c False) t
      else quiesce c True t)"

fun waiter_ready :: "teardown \<Rightarrow> waiter \<Rightarrow> bool" where
  "waiter_ready t (WaitDebt i c h) = attempt_settled t i"
| "waiter_ready t (WaitRetire i e h) = attempt_settled t i"
| "waiter_ready t (WaitSettle i c h rest settled) = attempt_settled t i"
| "waiter_ready t (WaitQuiesce c ps debt) = (set ps \<inter> set (rt_open t) = {})"

definition stopped :: "teardown \<Rightarrow> nat \<Rightarrow> bool" where
  "stopped t i = (sd_state (rt_attempts t ! i) = SdStopped)"

fun waiter_continues :: "waiter \<Rightarrow> teardown \<Rightarrow> teardown" where
  "waiter_continues (WaitDebt i c h) t = (if stopped t i then dropPendingTeardown c h t else t)"
| "waiter_continues (WaitRetire i e h) t =
     (if stopped t i
      then case entry_of t e of
             None \<Rightarrow> t
           | Some x \<Rightarrow> retireHandler h
               (upd_entry e (\<lambda>x. x\<lparr>he_stopped := Some h\<rparr>) (dropPendingTeardown (he_chatId x) h t))
      else t)"
| "waiter_continues (WaitSettle i c h rest settled) t =
     (if stopped t i then settle_next c rest settled (dropPendingTeardown c h t)
      else settle_next c rest False t)"
| "waiter_continues (WaitQuiesce c ps debt) t = quiesce c debt t"

definition waiter_runs :: "nat \<Rightarrow> teardown \<Rightarrow> teardown" where
  "waiter_runs k t =
     (if k < length (rt_waiters t) \<and> waiter_ready t (rt_waiters t ! k)
      then waiter_continues (rt_waiters t ! k)
             (t\<lparr>rt_waiters := take k (rt_waiters t) @ drop (Suc k) (rt_waiters t)\<rparr>)
      else t)"


section \<open>Transitions\<close>

definition markRouteInjectReady :: "entry_id \<Rightarrow> teardown \<Rightarrow> bool \<times> teardown" where
  "markRouteInjectReady e t =
     (case (route t e, entry_of t e) of
        (Some s, Some x) \<Rightarrow>
          if rs_transition s = None then (False, t)
          else if he_status x \<noteq> SActive \<or> e \<notin> set (rh_slots (rt_host t)) then (False, t)
          else (True, set_route e (s\<lparr>rs_injectReady := True\<rparr>) t)
      | _ \<Rightarrow> (False, t))"

definition beginOperatorSuspendTransition ::
  "entry_id \<Rightarrow> teardown \<Rightarrow> ((bool \<times> route_transition option) \<times> teardown) option" where
  "beginOperatorSuspendTransition e t =
     map_option (\<lambda>s.
       ((case rs_transition s of None \<Rightarrow> False | Some k \<Rightarrow> tk_phase k = PhaseStart, rs_transition s),
        set_route e (s\<lparr>rs_transition := None, rs_injectReady := False\<rparr>) t))
     (route t e)"

definition completeOperatorSuspendAdoptionFence :: "entry_id \<Rightarrow> teardown \<Rightarrow> teardown option" where
  "completeOperatorSuspendAdoptionFence e t =
     map_option (\<lambda>s. set_route e (s\<lparr>rs_generation := Suc (rs_generation s)\<rparr>) t) (route t e)"

definition quarantineTimedOutSuspend ::
  "entry_id \<Rightarrow> route_transition option \<Rightarrow> teardown \<Rightarrow> teardown option" where
  "quarantineTimedOutSuspend e transition t =
     (case entry_of t e of
        None \<Rightarrow> None
      | Some x \<Rightarrow>
          Option.bind (case transition of Some k \<Rightarrow> Some (ln_generation k) | None \<Rightarrow> map_option rs_generation (route t e))
            (\<lambda>generation.
              let h = (case transition of Some k \<Rightarrow> ln_handler k | None \<Rightarrow> he_handler x);
                  c = he_chatId x;
                  t = t\<lparr>rt_quarantined := js_set (rt_quarantined t) c
                          \<lparr>qu_handler = h, qu_generation = generation, qu_inFlight = (transition \<noteq> None)\<rparr>\<rparr>;
                  t = retireHandler h t;
                  t = (if transition \<noteq> None then t\<lparr>rt_producers := js_delete (rt_producers t) c\<rparr> else t)
              in Some (report (SuspendTimedOut c generation (transition \<noteq> None)) t)))"

text \<open>\<open>fresh\<close> is the handler the factory creates when a replacement is needed.\<close>

definition handlerForRouteTransition :: "entry_id \<Rightarrow> handler \<Rightarrow> teardown \<Rightarrow> (handler \<times> teardown) option" where
  "handlerForRouteTransition e fresh t =
     map_option (\<lambda>x.
       if he_handler x \<notin> set (rt_retired t) then (he_handler x, t)
       else
         let previous = he_handler x;
             t = upd_entry e (\<lambda>x. x\<lparr>he_handler := fresh\<rparr>) t
         in (fresh,
             if quarantined_handler_is t (he_chatId x) previous then t
             else if he_stopped x \<noteq> Some previous
             then detachHandlerWithPendingTeardown (he_chatId x) previous ''handler_replaced_after_retire'' t
             else t))
     (entry_of t e)"

definition beginRouteTransition ::
  "entry_id \<Rightarrow> handler \<Rightarrow> route_phase \<Rightarrow> teardown \<Rightarrow> (route_transition \<times> teardown) option" where
  "beginRouteTransition e h phase t =
     map_option (\<lambda>s.
       let k = \<lparr>ln_generation = Suc (rs_generation s), ln_handler = h, tk_id = rt_nextToken t, tk_phase = phase\<rparr>
       in (k, (set_route e \<lparr>rs_generation = Suc (rs_generation s), rs_transition = Some k, rs_injectReady = False\<rparr> t)
                \<lparr>rt_nextToken := Suc (rt_nextToken t)\<rparr>))
     (route t e)"

text \<open>The checks on a lease. The conjunctions are evaluated from left to right, so a missing route is reached only then.\<close>

definition isDeliveryRouteIdentityValid :: "teardown \<Rightarrow> entry_id \<Rightarrow> route_lease \<Rightarrow> bool option" where
  "isDeliveryRouteIdentityValid t e l =
     (case entry_of t e of
        None \<Rightarrow> Some False
      | Some x \<Rightarrow>
          (if js_get (rh_sessions (rt_host t)) (he_chatId x) \<noteq> Some e then Some False
           else map_option (\<lambda>s. rs_generation s = ln_generation l \<and> he_handler x = ln_handler l \<and>
                                ln_handler l \<notin> set (rt_retired t)) (route t e)))"

definition status_is :: "teardown \<Rightarrow> entry_id \<Rightarrow> session_state \<Rightarrow> bool" where
  "status_is t e st = (case entry_of t e of None \<Rightarrow> False | Some x \<Rightarrow> he_status x = st)"

definition slot_held :: "teardown \<Rightarrow> entry_id \<Rightarrow> bool" where
  "slot_held t e = (e \<in> set (rh_slots (rt_host t)))"

definition isRouteAdoptionValid :: "teardown \<Rightarrow> entry_id \<Rightarrow> route_lease \<Rightarrow> bool option" where
  "isRouteAdoptionValid t e l =
     (if rh_shuttingDown (rt_host t) then Some False
      else map_option (\<lambda>valid. valid \<and> status_is t e SActive \<and> slot_held t e)
             (isDeliveryRouteIdentityValid t e l))"

definition isDeliverySettlementLeaseValid :: "teardown \<Rightarrow> entry_id \<Rightarrow> route_lease \<Rightarrow> bool option" where
  "isDeliverySettlementLeaseValid t e l =
     (let leaseHolder = (status_is t e SActive \<and> slot_held t e \<or>
            status_is t e SSuspended \<and> (case entry_of t e of None \<Rightarrow> False | Some x \<Rightarrow> he_suspending x))
      in map_option (\<lambda>valid. valid \<and> leaseHolder) (isDeliveryRouteIdentityValid t e l))"

definition isCurrentRouteTransition :: "teardown \<Rightarrow> entry_id \<Rightarrow> route_transition \<Rightarrow> bool option" where
  "isCurrentRouteTransition t e k =
     Option.bind (route t e) (\<lambda>s.
       if rs_transition s \<noteq> Some k then Some False else isRouteAdoptionValid t e (lease_of k))"

definition completeRouteTransition ::
  "entry_id \<Rightarrow> route_transition \<Rightarrow> teardown \<Rightarrow> (bool \<times> teardown) option" where
  "completeRouteTransition e k t =
     Option.bind (route t e) (\<lambda>s.
       if rs_transition s \<noteq> Some k then Some (False, t)
       else map_option (\<lambda>valid.
              if valid then (True, set_route e (s\<lparr>rs_transition := None, rs_injectReady := False\<rparr>) t)
              else (False, t)) (isRouteAdoptionValid t e (lease_of k)))"

text \<open>The first result is \<open>None\<close> when the call throws, after it invalidated the delivery admission.\<close>

definition invalidateRouteTransition ::
  "entry_id \<Rightarrow> string \<Rightarrow> teardown \<Rightarrow> route_transition option option \<times> teardown" where
  "invalidateRouteTransition e reason t =
     (case entry_of t e of
        None \<Rightarrow> (None, t)
      | Some x \<Rightarrow>
          (let t = report (AdmissionInvalidated (he_chatId x)) t in
           case route t e of
             None \<Rightarrow> (None, t)
           | Some s \<Rightarrow>
               (let t = set_route e \<lparr>rs_generation = Suc (rs_generation s), rs_transition = None,
                                     rs_injectReady = False\<rparr> t
                in (Some (rs_transition s),
                    case rs_transition s of None \<Rightarrow> t | Some k \<Rightarrow> retireTransitionHandler k reason t))))"

definition discardStaleRouteTransition :: "string \<Rightarrow> route_transition \<Rightarrow> string \<Rightarrow> teardown \<Rightarrow> teardown" where
  "discardStaleRouteTransition c k reason t =
     (let t = retireHandler (ln_handler k) t in
      if quarantineMatches t c (lease_of k) then t
      else let (i, t') = shutdownHandler (ln_handler k) reason True (registerPendingTeardown c (ln_handler k) t)
           in await (WaitDebt i c (ln_handler k)) t')"


section \<open>Events\<close>

datatype teardown_event =
    TdHost route_host
  | TdAttach entry_id
  | TdInject entry_id
  | TdSuspend entry_id
  | TdSuspendFence entry_id
  | TdQuarantine entry_id "route_transition option"
  | TdHandler entry_id handler
  | TdBegin entry_id handler route_phase
  | TdComplete entry_id route_transition
  | TdInvalidate entry_id string
  | TdDiscard string route_transition string
  | TdRetire handler
  | TdContextChanged entry_id
  | TdShutdown handler string bool
  | TdRegister string handler
  | TdDrop string handler
  | TdDropEverywhere handler
  | TdDetach string handler string
  | TdProducer string
  | TdProducerSettles string nat
  | TdQuiesce string
  | TdAdmit string
  | TdStarts nat
  | TdSettles nat bool
  | TdForgets nat
  | TdWaiter nat

text \<open>A call that throws leaves the state as it is.\<close>

definition or_same :: "teardown \<Rightarrow> teardown option \<Rightarrow> teardown" where
  "or_same t r = (case r of None \<Rightarrow> t | Some t' \<Rightarrow> t')"

fun td_step :: "teardown \<Rightarrow> teardown_event \<Rightarrow> teardown" where
  "td_step t (TdHost h) = t\<lparr>rt_host := h\<rparr>"
| "td_step t (TdAttach e) = attachLiveSession e t"
| "td_step t (TdInject e) = snd (markRouteInjectReady e t)"
| "td_step t (TdSuspend e) = or_same t (map_option snd (beginOperatorSuspendTransition e t))"
| "td_step t (TdSuspendFence e) = or_same t (completeOperatorSuspendAdoptionFence e t)"
| "td_step t (TdQuarantine e k) = or_same t (quarantineTimedOutSuspend e k t)"
| "td_step t (TdHandler e fresh) = or_same t (map_option snd (handlerForRouteTransition e fresh t))"
| "td_step t (TdBegin e h phase) = or_same t (map_option snd (beginRouteTransition e h phase t))"
| "td_step t (TdComplete e k) = or_same t (map_option snd (completeRouteTransition e k t))"
| "td_step t (TdInvalidate e reason) = snd (invalidateRouteTransition e reason t)"
| "td_step t (TdDiscard c k reason) = discardStaleRouteTransition c k reason t"
| "td_step t (TdRetire h) = retireHandler h t"
| "td_step t (TdContextChanged e) = retireHandlerForContextSourceChange e t"
| "td_step t (TdShutdown h reason after) = snd (shutdownHandler h reason after t)"
| "td_step t (TdRegister c h) = registerPendingTeardown c h t"
| "td_step t (TdDrop c h) = dropPendingTeardown c h t"
| "td_step t (TdDropEverywhere h) = dropPendingTeardownEverywhere h t"
| "td_step t (TdDetach c h reason) = detachHandlerWithPendingTeardown c h reason t"
| "td_step t (TdProducer c) = snd (registerRouteProducer c t)"
| "td_step t (TdProducerSettles c p) = producer_settles c p t"
| "td_step t (TdQuiesce c) = quiesceRouteProducers c t"
| "td_step t (TdAdmit c) = settleTeardownDebtBeforeRoute c t"
| "td_step t (TdStarts i) = shutdown_starts i t"
| "td_step t (TdSettles i ok) = shutdown_settles i ok t"
| "td_step t (TdForgets i) = shutdown_forgets i t"
| "td_step t (TdWaiter k) = waiter_runs k t"

definition td_run :: "teardown \<Rightarrow> teardown_event list \<Rightarrow> teardown" where
  "td_run t es = foldl td_step t es"

end
