(* ===== verification/RouteProperties.thy ===== *)
theory RouteProperties
  imports RouteTeardown Reachability HeldFacts
begin

text \<open>
  What the route teardown authority promises: the shutdowns of a handler never overlap, a superseded
  route is fenced for good, a teardown debt is given up only for a confirmed stop, and the window in
  which a suspended route may still settle its deliveries.
\<close>

named_theorems td_fields \<open>fields an operation leaves alone\<close>

section \<open>What the operations leave alone\<close>

lemma report_fields [td_fields]:
  "rt_host (report x t) = rt_host t" "rt_routes (report x t) = rt_routes t" "rt_pending (report x t) = rt_pending t"
  "rt_retired (report x t) = rt_retired t" "rt_shutdowns (report x t) = rt_shutdowns t"
  "rt_attempts (report x t) = rt_attempts t" "rt_waiters (report x t) = rt_waiters t"
  by (simp_all add: report_def)

lemma await_fields [td_fields]:
  "rt_host (await w t) = rt_host t" "rt_routes (await w t) = rt_routes t" "rt_pending (await w t) = rt_pending t"
  "rt_retired (await w t) = rt_retired t" "rt_shutdowns (await w t) = rt_shutdowns t"
  "rt_attempts (await w t) = rt_attempts t" "rt_waiters (await w t) = rt_waiters t @ [w]"
  by (simp_all add: await_def)

lemma set_route_fields [td_fields]:
  "rt_host (set_route e s t) = rt_host t" "rt_pending (set_route e s t) = rt_pending t"
  "rt_retired (set_route e s t) = rt_retired t" "rt_shutdowns (set_route e s t) = rt_shutdowns t"
  "rt_attempts (set_route e s t) = rt_attempts t" "rt_waiters (set_route e s t) = rt_waiters t"
  by (simp_all add: set_route_def)

lemma upd_entry_fields [td_fields]:
  "rt_routes (upd_entry e f t) = rt_routes t" "rt_pending (upd_entry e f t) = rt_pending t"
  "rt_retired (upd_entry e f t) = rt_retired t" "rt_shutdowns (upd_entry e f t) = rt_shutdowns t"
  "rt_attempts (upd_entry e f t) = rt_attempts t" "rt_waiters (upd_entry e f t) = rt_waiters t"
  by (simp_all add: upd_entry_def split: option.split)

lemma pending_fields [td_fields]:
  "rt_host (registerPendingTeardown c h t) = rt_host t" "rt_routes (registerPendingTeardown c h t) = rt_routes t"
  "rt_retired (registerPendingTeardown c h t) = rt_retired t" "rt_shutdowns (registerPendingTeardown c h t) = rt_shutdowns t"
  "rt_attempts (registerPendingTeardown c h t) = rt_attempts t" "rt_waiters (registerPendingTeardown c h t) = rt_waiters t"
  "rt_routes (dropPendingTeardown c h t) = rt_routes t"
  "rt_retired (dropPendingTeardown c h t) = rt_retired t" "rt_shutdowns (dropPendingTeardown c h t) = rt_shutdowns t"
  "rt_attempts (dropPendingTeardown c h t) = rt_attempts t" "rt_waiters (dropPendingTeardown c h t) = rt_waiters t"
  by (simp_all add: registerPendingTeardown_def dropPendingTeardown_def Let_def split: option.split)

lemma retire_fields [td_fields]:
  "rt_host (retireHandler h t) = rt_host t" "rt_routes (retireHandler h t) = rt_routes t"
  "rt_pending (retireHandler h t) = rt_pending t" "rt_shutdowns (retireHandler h t) = rt_shutdowns t"
  "rt_attempts (retireHandler h t) = rt_attempts t" "rt_waiters (retireHandler h t) = rt_waiters t"
  by (simp_all add: retireHandler_def)

lemma shutdown_fields [td_fields]:
  "rt_host (snd (shutdownHandler h r a t)) = rt_host t" "rt_routes (snd (shutdownHandler h r a t)) = rt_routes t"
  "rt_pending (snd (shutdownHandler h r a t)) = rt_pending t" "rt_retired (snd (shutdownHandler h r a t)) = rt_retired t"
  "rt_waiters (snd (shutdownHandler h r a t)) = rt_waiters t"
  by (simp_all add: shutdownHandler_def Let_def split: option.split)

lemma set_attempt_fields [td_fields]:
  "rt_host (set_attempt i s t) = rt_host t" "rt_routes (set_attempt i s t) = rt_routes t"
  "rt_pending (set_attempt i s t) = rt_pending t" "rt_retired (set_attempt i s t) = rt_retired t"
  "rt_shutdowns (set_attempt i s t) = rt_shutdowns t" "rt_waiters (set_attempt i s t) = rt_waiters t"
  by (simp_all add: set_attempt_def)


section \<open>The chain of shutdowns of a handler\<close>

abbreviation handler_at :: "teardown \<Rightarrow> nat \<Rightarrow> handler" where
  "handler_at t i \<equiv> sd_handler (rt_attempts t ! i)"

definition earlier_settled :: "teardown \<Rightarrow> nat \<Rightarrow> bool" where
  "earlier_settled t i \<longleftrightarrow> (\<forall>j < i. handler_at t j = handler_at t i \<longrightarrow> attempt_settled t j)"

definition attempt_ok :: "teardown \<Rightarrow> nat \<Rightarrow> bool" where
  "attempt_ok t i \<longleftrightarrow>
     (case sd_prior (rt_attempts t ! i) of
        None \<Rightarrow> earlier_settled t i
      | Some p \<Rightarrow> p < i \<and> handler_at t p = handler_at t i \<and>
          (\<forall>j. p < j \<longrightarrow> j < i \<longrightarrow> handler_at t j \<noteq> handler_at t i)) \<and>
     (sd_state (rt_attempts t ! i) \<noteq> SdWaiting \<longrightarrow> earlier_settled t i)"

definition newest_ok :: "teardown \<Rightarrow> handler \<Rightarrow> bool" where
  "newest_ok t h \<longleftrightarrow>
     (case js_get (rt_shutdowns t) h of
        None \<Rightarrow> (\<forall>j < length (rt_attempts t). handler_at t j = h \<longrightarrow> attempt_settled t j)
      | Some i \<Rightarrow> i < length (rt_attempts t) \<and> handler_at t i = h \<and>
          (\<forall>j < length (rt_attempts t). i < j \<longrightarrow> handler_at t j \<noteq> h))"

definition chain_ok :: "teardown \<Rightarrow> bool" where
  "chain_ok t \<longleftrightarrow> (\<forall>i < length (rt_attempts t). attempt_ok t i) \<and> (\<forall>h. newest_ok t h)"

lemma chain_okD:
  "chain_ok t \<Longrightarrow> i < length (rt_attempts t) \<Longrightarrow> attempt_ok t i"
  "chain_ok t \<Longrightarrow> newest_ok t h"
  by (simp_all add: chain_ok_def)

lemma chain_ok_cong:
  "rt_attempts t' = rt_attempts t \<Longrightarrow> rt_shutdowns t' = rt_shutdowns t \<Longrightarrow> chain_ok t' = chain_ok t"
  by (simp add: chain_ok_def attempt_ok_def newest_ok_def earlier_settled_def attempt_settled_def cong: option.case_cong)

lemma chain_new: "chain_ok (new_teardown h)"
  by (simp add: chain_ok_def newest_ok_def new_teardown_def)

lemma shutdown_chain:
  assumes "chain_ok t"
  shows "chain_ok (snd (shutdownHandler h r a t))"
proof -
  let ?n = "length (rt_attempts t)"
  let ?x = "\<lparr>sd_handler = h, sd_reason = r, sd_prior = js_get (rt_shutdowns t) h, sd_state = SdWaiting\<rparr>"
  let ?t = "t\<lparr>rt_attempts := rt_attempts t @ [?x], rt_shutdowns := js_set (rt_shutdowns t) h ?n\<rparr>"
  have len: "length (rt_attempts ?t) = Suc ?n" by simp
  have old: "rt_attempts ?t ! i = rt_attempts t ! i" if "i < ?n" for i using that by (simp add: nth_append)
  have new: "rt_attempts ?t ! ?n = ?x" by simp
  have settled: "attempt_settled ?t i = attempt_settled t i" if "i < ?n" for i
    using that by (simp add: attempt_settled_def nth_append)
  have earlier: "earlier_settled ?t i = earlier_settled t i" if "i < ?n" for i
    using that settled old by (auto simp: earlier_settled_def)
  have before: "attempt_ok ?t i" if i: "i < ?n" for i
  proof -
    have "attempt_ok t i" by (rule chain_okD(1) [OF assms i])
    with i old earlier show ?thesis unfolding attempt_ok_def by (auto split: option.splits)
  qed
  have newest: "newest_ok t h" by (rule chain_okD(2) [OF assms])
  have last: "attempt_ok ?t ?n"
  proof (cases "js_get (rt_shutdowns t) h")
    case None
    with newest have "earlier_settled ?t ?n" using old settled new
      by (simp add: newest_ok_def earlier_settled_def)
    with None show ?thesis by (simp add: attempt_ok_def)
  next
    case (Some p)
    with newest old show ?thesis by (auto simp: attempt_ok_def newest_ok_def new)
  qed
  have keys: "newest_ok ?t k" for k
  proof (cases "k = h")
    case True
    then show ?thesis using new by (simp add: newest_ok_def len)
  next
    case False
    have "newest_ok t k" by (rule chain_okD(2) [OF assms])
    with False old settled new show ?thesis
      unfolding newest_ok_def len by (auto split: option.splits simp: less_Suc_eq)
  qed
  have "chain_ok ?t" using before last keys by (auto simp: chain_ok_def len less_Suc_eq)
  with assms show ?thesis
    by (cases "js_get (rt_shutdowns t) h"; cases a) (simp_all add: shutdownHandler_def Let_def)
qed

lemma set_attempt_chain:
  assumes "chain_ok t" and i: "i < length (rt_attempts t)"
    and open_i: "\<not> settled_state (sd_state (rt_attempts t ! i))" and "s \<noteq> SdWaiting" and "earlier_settled t i"
  shows "chain_ok (set_attempt i s t)"
proof -
  let ?t = "set_attempt i s t"
  have len: "length (rt_attempts ?t) = length (rt_attempts t)" by (simp add: set_attempt_def)
  have same: "handler_at ?t j = handler_at t j" "sd_prior (rt_attempts ?t ! j) = sd_prior (rt_attempts t ! j)" for j
    using i by (cases "j = i"; simp add: set_attempt_def)+
  have st: "sd_state (rt_attempts ?t ! j) = (if j = i then s else sd_state (rt_attempts t ! j))" for j
    using i by (simp add: set_attempt_def)
  have mono: "attempt_settled ?t j" if "attempt_settled t j" for j
    using that open_i by (auto simp: attempt_settled_def len st)
  have earlier: "earlier_settled ?t j" if "earlier_settled t j" for j
    using that mono by (simp add: earlier_settled_def same)
  have "attempt_ok ?t j" if j: "j < length (rt_attempts t)" for j
  proof -
    have "attempt_ok t j" by (rule chain_okD(1) [OF assms(1) j])
    with earlier assms(5) show ?thesis unfolding attempt_ok_def same st by (auto split: option.splits if_splits)
  qed
  moreover have "newest_ok ?t k" for k
  proof -
    have "newest_ok t k" by (rule chain_okD(2) [OF assms(1)])
    with mono show ?thesis unfolding newest_ok_def len same set_attempt_fields by (auto split: option.splits)
  qed
  ultimately show ?thesis by (simp add: chain_ok_def len)
qed

named_theorems td_chain \<open>operations that keep the chain of shutdowns\<close>

lemma chain_fields [td_chain]:
  "chain_ok (report x t) = chain_ok t" "chain_ok (await w t) = chain_ok t" "chain_ok (set_route e s t) = chain_ok t"
  "chain_ok (upd_entry e f t) = chain_ok t" "chain_ok (registerPendingTeardown c h t) = chain_ok t"
  "chain_ok (dropPendingTeardown c h t) = chain_ok t" "chain_ok (retireHandler h t) = chain_ok t"
  by (rule chain_ok_cong; simp add: td_fields)+

lemma chain_updates [td_chain]:
  "chain_ok (rt_host_update f t) = chain_ok t" "chain_ok (rt_pending_update g t) = chain_ok t"
  "chain_ok (rt_quarantined_update q t) = chain_ok t" "chain_ok (rt_producers_update p t) = chain_ok t"
  "chain_ok (rt_waiters_update w t) = chain_ok t" "chain_ok (rt_nextToken_update n t) = chain_ok t"
  "chain_ok (rt_open_update m t) = chain_ok t" "chain_ok (rt_nextProducer_update k t) = chain_ok t"
  by (rule chain_ok_cong; simp)+

lemmas [td_chain] = shutdown_chain

lemma starts_chain [td_chain]: "chain_ok t \<Longrightarrow> chain_ok (shutdown_starts i t)"
proof (cases "shutdown_starts i t = t")
  case False
  assume ok: "chain_ok t"
  let ?a = "rt_attempts t ! i"
  from False have i: "i < length (rt_attempts t)" and w: "sd_state ?a = SdWaiting"
    and p: "case sd_prior ?a of None \<Rightarrow> True | Some p \<Rightarrow> attempt_settled t p"
    by (auto simp: shutdown_starts_def split: if_splits)
  from chain_okD(1) [OF ok i] have a: "attempt_ok t i" .
  have "earlier_settled t i"
  proof (cases "sd_prior ?a")
    case None
    with a show ?thesis by (simp add: attempt_ok_def)
  next
    case (Some q)
    with a p have q: "q < i" "handler_at t q = handler_at t i" "attempt_settled t q"
      and gap: "\<forall>j. q < j \<longrightarrow> j < i \<longrightarrow> handler_at t j \<noteq> handler_at t i" by (auto simp: attempt_ok_def)
    from q i have "attempt_ok t q" by (intro chain_okD(1) [OF ok]) simp
    with q(3) have "earlier_settled t q" by (auto simp: attempt_ok_def attempt_settled_def settled_state_def)
    with q gap show ?thesis by (metis earlier_settled_def nat_neq_iff)
  qed
  then have "chain_ok (set_attempt i SdRunning t)"
    using ok i w by (intro set_attempt_chain) (simp_all add: settled_state_def)
  then show ?thesis using ok by (simp add: shutdown_starts_def td_chain)
qed simp

lemma settles_chain [td_chain]: "chain_ok t \<Longrightarrow> chain_ok (shutdown_settles i ok t)"
proof (cases "i < length (rt_attempts t) \<and> sd_state (rt_attempts t ! i) = SdRunning")
  case True
  assume ok: "chain_ok t"
  with True have "attempt_ok t i" by (intro chain_okD(1)) auto
  with True have "earlier_settled t i" by (simp add: attempt_ok_def)
  with True ok show ?thesis
    by (simp add: shutdown_settles_def set_attempt_chain settled_state_def)
qed (auto simp: shutdown_settles_def)

lemma forgets_chain [td_chain]: "chain_ok t \<Longrightarrow> chain_ok (shutdown_forgets i t)"
proof (cases "attempt_settled t i \<and> js_get (rt_shutdowns t) (handler_at t i) = Some i")
  case True
  assume ok: "chain_ok t"
  let ?t = "t\<lparr>rt_shutdowns := js_delete (rt_shutdowns t) (handler_at t i)\<rparr>"
  from True have i: "i < length (rt_attempts t)" by (simp add: attempt_settled_def)
  have ai: "attempt_ok t i" by (rule chain_okD(1) [OF ok i])
  with True have early: "earlier_settled t i" by (auto simp: attempt_ok_def attempt_settled_def settled_state_def)
  have newest: "newest_ok t (handler_at t i)" by (rule chain_okD(2) [OF ok])
  have "newest_ok ?t k" for k
  proof (cases "k = handler_at t i")
    case True
    have "attempt_settled t j" if "j < length (rt_attempts t)" "handler_at t j = handler_at t i" for j
      using that early newest \<open>attempt_settled t i \<and> _\<close> by (cases j i rule: linorder_cases) (auto simp: earlier_settled_def newest_ok_def)
    with True show ?thesis by (simp add: newest_ok_def attempt_settled_def)
  next
    case False
    have "newest_ok t k" by (rule chain_okD(2) [OF ok])
    with False show ?thesis by (simp add: newest_ok_def attempt_settled_def cong: option.case_cong)
  qed
  moreover have "attempt_ok ?t j" if "j < length (rt_attempts t)" for j
    using chain_okD(1) [OF ok that] by (simp add: attempt_ok_def earlier_settled_def attempt_settled_def cong: option.case_cong)
  ultimately have "chain_ok ?t" by (simp add: chain_ok_def)
  with True show ?thesis by (simp add: shutdown_forgets_def)
qed (auto simp: shutdown_forgets_def)

lemma await_stop_chain [td_chain]: "chain_ok t \<Longrightarrow> chain_ok (await_stop c h rest b t)"
  by (simp add: await_stop_def split_beta td_chain)

lemma settle_debt_chain [td_chain]: "chain_ok t \<Longrightarrow> chain_ok (settle_debt c t)"
  by (simp add: settle_debt_def td_chain split: list.split)

lemma settle_next_chain [td_chain]: "chain_ok t \<Longrightarrow> chain_ok (settle_next c rest b t)"
  by (simp add: settle_next_def td_chain split: list.split)

lemma quiesce_chain [td_chain]: "chain_ok t \<Longrightarrow> chain_ok (quiesce c b t)"
  by (simp add: quiesce_def td_chain)

lemma waiter_continues_chain [td_chain]: "chain_ok t \<Longrightarrow> chain_ok (waiter_continues w t)"
  by (cases w) (simp_all add: td_chain split: option.split)

lemma waiter_runs_chain [td_chain]: "chain_ok t \<Longrightarrow> chain_ok (waiter_runs k t)"
  by (simp add: waiter_runs_def td_chain)

lemma detach_chain [td_chain]: "chain_ok t \<Longrightarrow> chain_ok (detachHandlerWithPendingTeardown c h r t)"
  by (simp add: detachHandlerWithPendingTeardown_def split_beta td_chain)

lemma td_step_chain: "chain_ok t \<Longrightarrow> chain_ok (td_step t e)"
proof (cases e)
  case (TdQuarantine e k)
  assume "chain_ok t"
  then show ?thesis using TdQuarantine
    by (auto simp: or_same_def quarantineTimedOutSuspend_def Let_def td_chain
        split: option.splits bind_splits)
next
  case (TdInvalidate e r)
  assume "chain_ok t"
  then show ?thesis using TdInvalidate
    by (simp add: invalidateRouteTransition_def retireTransitionHandler_def Let_def td_chain split: option.split)
next
  case (TdHandler e fresh)
  assume "chain_ok t"
  then show ?thesis using TdHandler
    by (auto simp: or_same_def handlerForRouteTransition_def Let_def td_chain split: option.split)
next
  case (TdContextChanged e)
  assume "chain_ok t"
  then show ?thesis using TdContextChanged
    by (simp add: retireHandlerForContextSourceChange_def Let_def split_beta td_chain split: option.split)
next
  case (TdComplete e k)
  assume "chain_ok t"
  then show ?thesis using TdComplete
    by (auto simp: or_same_def completeRouteTransition_def td_chain split: option.splits bind_splits if_splits)
qed (simp_all add: or_same_def attachLiveSession_def markRouteInjectReady_def beginOperatorSuspendTransition_def
      completeOperatorSuspendAdoptionFence_def beginRouteTransition_def discardStaleRouteTransition_def
      registerRouteProducer_def producer_settles_def quiesceRouteProducers_def settleTeardownDebtBeforeRoute_def
      dropPendingTeardownEverywhere_def Let_def split_beta td_chain split: option.split)


section \<open>The generation of a route\<close>

definition at_least :: "teardown \<Rightarrow> entry_id \<times> nat \<Rightarrow> bool" where
  "at_least t f \<longleftrightarrow> (\<exists>s. route t (fst f) = Some s \<and> snd f \<le> rs_generation s)"

named_theorems td_routes \<open>operations that keep the routes\<close>

lemma run_routes [td_routes]:
  "rt_routes (shutdown_starts i t) = rt_routes t" "rt_routes (shutdown_settles i ok t) = rt_routes t"
  "rt_routes (shutdown_forgets i t) = rt_routes t" "rt_routes (await_stop c h rest b t) = rt_routes t"
  "rt_routes (retireTransitionHandler k r t) = rt_routes t" "rt_routes (detachHandlerWithPendingTeardown c h r t) = rt_routes t"
  "rt_routes (discardStaleRouteTransition c k r t) = rt_routes t" "rt_routes (producer_settles c p t) = rt_routes t"
  "rt_routes (snd (registerRouteProducer c t)) = rt_routes t" "rt_routes (dropPendingTeardownEverywhere h t) = rt_routes t"
  by (simp_all add: shutdown_starts_def shutdown_settles_def shutdown_forgets_def await_stop_def split_beta
      retireTransitionHandler_def detachHandlerWithPendingTeardown_def discardStaleRouteTransition_def
      producer_settles_def registerRouteProducer_def dropPendingTeardownEverywhere_def Let_def td_fields
      split: option.split)

lemma settle_routes [td_routes]:
  "rt_routes (settle_debt c t) = rt_routes t" "rt_routes (settle_next c rest b t) = rt_routes t"
  "rt_routes (quiesce c b t) = rt_routes t" "rt_routes (settleTeardownDebtBeforeRoute c t) = rt_routes t"
  "rt_routes (retireHandlerForContextSourceChange e t) = rt_routes t"
  by (simp_all add: settle_debt_def settle_next_def quiesce_def settleTeardownDebtBeforeRoute_def
      retireHandlerForContextSourceChange_def Let_def split_beta td_fields td_routes split: list.split option.split)

lemma waiter_routes [td_routes]: "rt_routes (waiter_runs k t) = rt_routes t"
proof -
  have "rt_routes (waiter_continues w t) = rt_routes t" for w t
    by (cases w) (simp_all add: td_fields td_routes split: option.split)
  then show ?thesis by (simp add: waiter_runs_def)
qed

lemma at_least_cong: "rt_routes t' = rt_routes t \<Longrightarrow> at_least t' f = at_least t f"
  by (simp add: at_least_def route_def)

lemma at_least_set_route:
  "at_least t f \<Longrightarrow> (e = fst f \<Longrightarrow> rs_generation (the (route t e)) \<le> rs_generation s) \<Longrightarrow> at_least (set_route e s t) f"
  by (cases "e = fst f") (auto simp: at_least_def route_def set_route_def)

lemma generation_grows:
  assumes "at_least t f" and "ev \<noteq> TdAttach (fst f)"
  shows "at_least (td_step t ev) f"
proof -
  have keep: "at_least t' f" if "rt_routes t' = rt_routes t" for t' using at_least_cong [OF that] assms(1) by simp
  have grow: "at_least (set_route e s t) f" if "route t e = Some s0" "rs_generation s0 \<le> rs_generation s" for e s s0
    using that assms(1) by (intro at_least_set_route) simp_all
  show ?thesis
  proof (cases ev)
    case (TdAttach e)
    with assms show ?thesis by (auto simp: at_least_def route_def attachLiveSession_def set_route_def)
  next
    case (TdInject e)
    with grow keep show ?thesis by (auto simp: markRouteInjectReady_def split: option.split)
  next
    case (TdSuspend e)
    with grow keep show ?thesis
      by (cases "route t e") (auto simp: or_same_def beginOperatorSuspendTransition_def)
  next
    case (TdSuspendFence e)
    with grow keep show ?thesis
      by (cases "route t e") (auto simp: or_same_def completeOperatorSuspendAdoptionFence_def)
  next
    case (TdBegin e h p)
    show ?thesis
    proof (cases "route t e")
      case (Some s)
      let ?k = "\<lparr>ln_generation = Suc (rs_generation s), ln_handler = h, tk_id = rt_nextToken t, tk_phase = p\<rparr>"
      have "at_least (set_route e \<lparr>rs_generation = Suc (rs_generation s), rs_transition = Some ?k, rs_injectReady = False\<rparr> t) f"
        by (rule grow [OF Some]) simp
      with Some TdBegin show ?thesis
        by (simp add: or_same_def beginRouteTransition_def at_least_def route_def Let_def)
    qed (use TdBegin keep in \<open>simp add: or_same_def beginRouteTransition_def\<close>)
  next
    case (TdComplete e k)
    with grow keep show ?thesis
      by (auto simp: or_same_def completeRouteTransition_def split: option.splits bind_splits if_splits)
  next
    case (TdInvalidate e r)
    have "at_least (set_route e s (report x t)) f" if "route t e = Some s0" "rs_generation s0 \<le> rs_generation s" for s s0 x
      using grow [OF that] by (simp add: at_least_def route_def set_route_def report_def)
    moreover have "route (report x t) e = route t e" for x by (simp add: route_def td_fields)
    moreover have "at_least (retireTransitionHandler k r t') f = at_least t' f" for k t'
      by (rule at_least_cong) (simp add: td_routes)
    ultimately show ?thesis
      using TdInvalidate keep
      by (auto simp: invalidateRouteTransition_def Let_def td_fields split: option.split)
  next
    case (TdQuarantine e k)
    then have "rt_routes (td_step t ev) = rt_routes t"
      by (auto simp: or_same_def quarantineTimedOutSuspend_def Let_def td_fields split: option.splits bind_splits)
    then show ?thesis by (rule keep)
  next
    case (TdHandler e h)
    then have "rt_routes (td_step t ev) = rt_routes t"
      by (auto simp: or_same_def handlerForRouteTransition_def Let_def td_fields td_routes split: option.splits)
    then show ?thesis by (rule keep)
  qed (rule keep, simp add: td_fields td_routes quiesceRouteProducers_def)+
qed

interpretation generations: held_facts "\<lambda>_. True" at_least td_step "\<lambda>ev f. ev = TdAttach (fst f)"
  by unfold_locales (auto intro: generation_grows)


section \<open>Who waits for which shutdown\<close>

fun waiter_good :: "teardown \<Rightarrow> waiter \<Rightarrow> bool" where
  "waiter_good t (WaitDebt i c h) = (i < length (rt_attempts t) \<and> handler_at t i = h)"
| "waiter_good t (WaitRetire i e h) = (i < length (rt_attempts t) \<and> handler_at t i = h)"
| "waiter_good t (WaitSettle i c h rest settled) = (i < length (rt_attempts t) \<and> handler_at t i = h)"
| "waiter_good t (WaitQuiesce c ps debt) = True"

definition confirmed :: "teardown \<Rightarrow> handler \<Rightarrow> bool" where
  "confirmed t h \<longleftrightarrow> (\<exists>i < length (rt_attempts t). handler_at t i = h \<and> stopped t i)"

definition waiters_ok :: "teardown \<Rightarrow> bool" where
  "waiters_ok t \<longleftrightarrow> (\<forall>w \<in> set (rt_waiters t). waiter_good t w)"

text \<open>Attempts are added, and a settled one stays as it is.\<close>

definition grows :: "teardown \<Rightarrow> teardown \<Rightarrow> bool" where
  "grows t t' \<longleftrightarrow> length (rt_attempts t) \<le> length (rt_attempts t') \<and>
     (\<forall>i < length (rt_attempts t). handler_at t' i = handler_at t i \<and> (attempt_settled t i \<longrightarrow>
        sd_state (rt_attempts t' ! i) = sd_state (rt_attempts t ! i)))"

lemma grows_same: "rt_attempts t' = rt_attempts t \<Longrightarrow> grows t t'"
  by (simp add: grows_def)

lemma grows_good: "grows t t' \<Longrightarrow> waiter_good t w \<Longrightarrow> waiter_good t' w"
  by (cases w) (auto simp: grows_def)

lemma grows_confirmed: "grows t t' \<Longrightarrow> confirmed t h \<Longrightarrow> confirmed t' h"
  unfolding confirmed_def grows_def stopped_def attempt_settled_def settled_state_def
  by (metis order.strict_trans2)

lemma grows_ok:
  assumes "grows t t'" and "waiters_ok t" and "\<And>w. w \<in> set (rt_waiters t') \<Longrightarrow> w \<in> set (rt_waiters t) \<or> waiter_good t' w"
  shows "waiters_ok t'"
  using assms grows_good unfolding waiters_ok_def by blast

lemma shutdown_grows: "grows t (snd (shutdownHandler h r a t))"
  by (auto simp: grows_def shutdownHandler_def Let_def nth_append split: option.split)

lemma shutdown_result:
  assumes "chain_ok t" and "shutdownHandler h r a t = (i, t')"
  shows "i < length (rt_attempts t') \<and> handler_at t' i = h"
proof -
  have "newest_ok t h" by (rule chain_okD(2) [OF assms(1)])
  with assms(2) show ?thesis
    by (auto simp: newest_ok_def shutdownHandler_def Let_def split: option.splits if_splits)
qed

text \<open>A caller that waits for a shutdown of its handler.\<close>

lemma await_shutdown_ok:
  assumes "chain_ok t" and "waiters_ok t"
    and good: "\<And>i u. i < length (rt_attempts u) \<Longrightarrow> handler_at u i = h \<Longrightarrow> waiter_good u (w i)"
  shows "waiters_ok (case shutdownHandler h r a t of (i, t') \<Rightarrow> await (w i) t')"
proof (cases "shutdownHandler h r a t")
  case (Pair i t')
  have "grows t t'" using shutdown_grows [of t h r a] Pair by simp
  then have "grows t (await (w i) t')" by (simp add: grows_def td_fields attempt_settled_def)
  moreover have "rt_waiters (await (w i) t') = rt_waiters t @ [w i]"
    using shutdown_fields(5) [of h r a t] Pair by (simp add: td_fields)
  moreover from shutdown_result [OF assms(1) Pair] have "waiter_good (await (w i) t') (w i)"
    by (intro good) (simp_all add: td_fields)
  ultimately show ?thesis using assms(2) Pair by (auto intro!: grows_ok [of t])
qed

named_theorems td_waiters \<open>operations that keep the waiters sound\<close>

lemma waiters_cong: "rt_attempts t' = rt_attempts t \<Longrightarrow> rt_waiters t' = rt_waiters t \<Longrightarrow> waiters_ok t' = waiters_ok t"
proof -
  assume "rt_attempts t' = rt_attempts t" and w: "rt_waiters t' = rt_waiters t"
  then have "waiter_good t' w = waiter_good t w" for w by (cases w) simp_all
  with w show ?thesis by (simp add: waiters_ok_def)
qed

lemma waiters_fields [td_waiters]:
  "waiters_ok (report x t) = waiters_ok t" "waiters_ok (set_route e s t) = waiters_ok t"
  "waiters_ok (upd_entry e f t) = waiters_ok t" "waiters_ok (registerPendingTeardown c h t) = waiters_ok t"
  "waiters_ok (dropPendingTeardown c h t) = waiters_ok t" "waiters_ok (retireHandler h t) = waiters_ok t"
  "waiters_ok (rt_host_update f1 t) = waiters_ok t" "waiters_ok (rt_pending_update f2 t) = waiters_ok t"
  "waiters_ok (rt_quarantined_update f3 t) = waiters_ok t" "waiters_ok (rt_producers_update f4 t) = waiters_ok t"
  "waiters_ok (rt_shutdowns_update f5 t) = waiters_ok t" "waiters_ok (rt_nextToken_update f6 t) = waiters_ok t"
  "waiters_ok (rt_open_update f7 t) = waiters_ok t" "waiters_ok (rt_nextProducer_update f8 t) = waiters_ok t"
  by (rule waiters_cong; simp add: td_fields)+

lemma waiters_quiesce [td_waiters]: "waiters_ok (await (WaitQuiesce c ps b) t) = waiters_ok t"
proof -
  have "waiter_good (await (WaitQuiesce c ps b) t) w = waiter_good t w" for w by (cases w) (simp_all add: td_fields)
  then show ?thesis by (simp add: waiters_ok_def td_fields)
qed

lemma waiters_shutdown [td_waiters]: "waiters_ok t \<Longrightarrow> waiters_ok (snd (shutdownHandler h r a t))"
  by (rule grows_ok [OF shutdown_grows]) (simp_all add: td_fields)

lemma set_attempt_grows:
  "i < length (rt_attempts t) \<Longrightarrow> \<not> settled_state (sd_state (rt_attempts t ! i)) \<Longrightarrow> grows t (set_attempt i s t)"
  by (auto simp: grows_def set_attempt_def attempt_settled_def nth_list_update)

lemma waiters_set_attempt:
  "waiters_ok t \<Longrightarrow> i < length (rt_attempts t) \<Longrightarrow> \<not> settled_state (sd_state (rt_attempts t ! i)) \<Longrightarrow>
     waiters_ok (set_attempt i s t)"
  by (rule grows_ok [OF set_attempt_grows]) (simp_all add: td_fields)

lemma waiters_attempts [td_waiters]:
  "waiters_ok t \<Longrightarrow> waiters_ok (shutdown_starts i t)" "waiters_ok t \<Longrightarrow> waiters_ok (shutdown_settles i ok t)"
  "waiters_ok t \<Longrightarrow> waiters_ok (shutdown_forgets i t)"
  by (auto simp: shutdown_starts_def shutdown_settles_def shutdown_forgets_def td_waiters waiters_set_attempt settled_state_def)

lemma waiters_await [td_waiters]:
  "chain_ok t \<Longrightarrow> waiters_ok t \<Longrightarrow> waiters_ok (await_stop c h rest b t)"
  "chain_ok t \<Longrightarrow> waiters_ok t \<Longrightarrow> waiters_ok (detachHandlerWithPendingTeardown c h r t)"
  "chain_ok t \<Longrightarrow> waiters_ok t \<Longrightarrow> waiters_ok (discardStaleRouteTransition c k r t)"
  "chain_ok t \<Longrightarrow> waiters_ok t \<Longrightarrow> waiters_ok (retireHandlerForContextSourceChange e t)"
  by (auto simp: await_stop_def detachHandlerWithPendingTeardown_def discardStaleRouteTransition_def Let_def
      retireHandlerForContextSourceChange_def td_waiters td_chain intro!: await_shutdown_ok split: option.split)

lemma waiters_settle [td_waiters]:
  "chain_ok t \<Longrightarrow> waiters_ok t \<Longrightarrow> waiters_ok (settle_debt c t)"
  "chain_ok t \<Longrightarrow> waiters_ok t \<Longrightarrow> waiters_ok (settle_next c rest b t)"
  "chain_ok t \<Longrightarrow> waiters_ok t \<Longrightarrow> waiters_ok (quiesce c b t)"
  by (simp_all add: settle_debt_def settle_next_def quiesce_def td_waiters split: list.split)

lemma waiters_continue: "chain_ok t \<Longrightarrow> waiters_ok t \<Longrightarrow> waiters_ok (waiter_continues w t)"
  by (cases w) (simp_all add: td_waiters td_chain split: option.split)

lemma waiters_run [td_waiters]: "chain_ok t \<Longrightarrow> waiters_ok t \<Longrightarrow> waiters_ok (waiter_runs k t)"
proof -
  assume c: "chain_ok t" and w: "waiters_ok t"
  let ?t = "t\<lparr>rt_waiters := take k (rt_waiters t) @ drop (Suc k) (rt_waiters t)\<rparr>"
  have "waiters_ok ?t"
    by (rule grows_ok [OF grows_same w]) (auto dest: in_set_takeD in_set_dropD)
  moreover have "chain_ok ?t" using c by (simp add: td_chain)
  ultimately show ?thesis using w by (simp add: waiter_runs_def waiters_continue)
qed

lemma td_step_waiters: "chain_ok t \<Longrightarrow> waiters_ok t \<Longrightarrow> waiters_ok (td_step t e)"
proof (cases e)
  case (TdQuarantine e k)
  assume "waiters_ok t"
  then show ?thesis using TdQuarantine
    by (auto simp: or_same_def quarantineTimedOutSuspend_def Let_def td_waiters split: option.splits bind_splits)
next
  case (TdHandler e fresh)
  assume "chain_ok t" "waiters_ok t"
  then show ?thesis using TdHandler
    by (auto simp: or_same_def handlerForRouteTransition_def Let_def td_waiters td_chain split: option.split)
next
  case (TdComplete e k)
  assume "waiters_ok t"
  then show ?thesis using TdComplete
    by (auto simp: or_same_def completeRouteTransition_def td_waiters split: option.splits bind_splits if_splits)
qed (simp_all add: or_same_def attachLiveSession_def markRouteInjectReady_def beginOperatorSuspendTransition_def
      completeOperatorSuspendAdoptionFence_def beginRouteTransition_def invalidateRouteTransition_def
      retireTransitionHandler_def registerRouteProducer_def producer_settles_def quiesceRouteProducers_def
      settleTeardownDebtBeforeRoute_def dropPendingTeardownEverywhere_def Let_def td_waiters split: option.split)


section \<open>Debt\<close>

definition owes :: "teardown \<Rightarrow> string \<times> handler \<Rightarrow> bool" where
  "owes t f \<longleftrightarrow> snd f \<in> set (pending_of t (fst f))"

lemma owes_cong: "rt_pending t' = rt_pending t \<Longrightarrow> owes t' f = owes t f"
  by (simp add: owes_def pending_of_def)

lemma owes_register: "owes (registerPendingTeardown c h t) f \<longleftrightarrow> owes t f \<or> f = (c, h)"
  by (cases f) (auto simp: owes_def pending_of_def registerPendingTeardown_def split: option.split)

lemma owes_drop: "owes (dropPendingTeardown c h t) f \<longleftrightarrow> owes t f \<and> f \<noteq> (c, h)"
  by (cases f) (auto simp: owes_def pending_of_def dropPendingTeardown_def Let_def set_remove_def filter_empty_conv split: option.split if_splits)

lemma owes_everywhere:
  assumes "owes t f" and "snd f \<noteq> h"
  shows "owes (dropPendingTeardownEverywhere h t) f"
proof -
  have kept: "js_get (filter (\<lambda>(c, hs). hs \<noteq> []) (map (\<lambda>(c, hs). (c, set_remove hs h)) m)) c = Some (set_remove hs h)"
    if "js_get m c = Some hs" "set_remove hs h \<noteq> []" for m :: "(string, handler list) jsmap" and c hs
    using that by (induction m) auto
  obtain hs where hs: "js_get (rt_pending t) (fst f) = Some hs" "snd f \<in> set hs"
    using assms(1) by (cases "js_get (rt_pending t) (fst f)") (simp_all add: owes_def pending_of_def)
  with assms(2) have left: "snd f \<in> set (set_remove hs h)" by simp
  then have "set_remove hs h \<noteq> []" by (metis empty_iff empty_set)
  from kept [OF hs(1) this] left show ?thesis
    by (simp add: owes_def pending_of_def dropPendingTeardownEverywhere_def)
qed

text \<open>What a step owes to a debt: it stays, or the shutdown of the handler was confirmed.\<close>

definition keeps_debt :: "teardown \<Rightarrow> teardown \<Rightarrow> bool" where
  "keeps_debt t t' \<longleftrightarrow> (\<forall>f. owes t f \<longrightarrow> owes t' f)"

named_theorems td_debt \<open>operations that keep the debts\<close>

lemma keeps_refl [td_debt]: "keeps_debt t t"
  by (simp add: keeps_debt_def)

lemma keeps_fields [td_debt]:
  "rt_pending t' = rt_pending t \<Longrightarrow> keeps_debt t t'"
  by (simp add: keeps_debt_def owes_def pending_of_def)

lemma await_stop_pending [td_fields]: "rt_pending (await_stop c h rest b t) = rt_pending t"
  by (simp add: await_stop_def split_beta td_fields)

lemma settle_pending [td_fields]:
  "rt_pending (settle_debt c t) = rt_pending t" "rt_pending (settle_next c rest b t) = rt_pending t"
  "rt_pending (quiesce c b t) = rt_pending t" "rt_pending (settleTeardownDebtBeforeRoute c t) = rt_pending t"
  by (simp_all add: settle_debt_def settle_next_def quiesce_def settleTeardownDebtBeforeRoute_def td_fields
      split: list.split)

lemma attempts_pending [td_fields]:
  "rt_pending (shutdown_starts i t) = rt_pending t" "rt_pending (shutdown_settles i ok t) = rt_pending t"
  "rt_pending (shutdown_forgets i t) = rt_pending t" "rt_pending (retireTransitionHandler k r t) = rt_pending t"
  "rt_pending (snd (registerRouteProducer c t)) = rt_pending t" "rt_pending (producer_settles c p t) = rt_pending t"
  by (simp_all add: shutdown_starts_def shutdown_settles_def shutdown_forgets_def retireTransitionHandler_def
      registerRouteProducer_def producer_settles_def td_fields Let_def split: option.split)

lemma registering_keeps [td_debt]:
  "keeps_debt t (registerPendingTeardown c h t)" "keeps_debt t (detachHandlerWithPendingTeardown c h r t)"
  "keeps_debt t (discardStaleRouteTransition c k r t)" "keeps_debt t (retireHandlerForContextSourceChange e t)"
proof -
  have more: "keeps_debt t t'" if "rt_pending t' = rt_pending (registerPendingTeardown c h t)" for t' c h
    unfolding keeps_debt_def owes_cong [OF that] owes_register by blast
  have more': "keeps_debt t t'" if "rt_pending t' = rt_pending (registerPendingTeardown c h (retireHandler g t))" for t' c h g
    using owes_cong [of "retireHandler g t" t]
    unfolding keeps_debt_def owes_cong [OF that] owes_register by (simp add: td_fields)
  show "keeps_debt t (registerPendingTeardown c h t)" "keeps_debt t (detachHandlerWithPendingTeardown c h r t)"
    by (rule more, simp add: detachHandlerWithPendingTeardown_def split_beta td_fields)+
  show "keeps_debt t (discardStaleRouteTransition c k r t)"
    by (auto simp: discardStaleRouteTransition_def Let_def split_beta td_fields intro: more' keeps_fields)
  show "keeps_debt t (retireHandlerForContextSourceChange e t)"
    by (auto simp: retireHandlerForContextSourceChange_def Let_def split_beta td_fields
        intro: more keeps_fields split: option.split)
qed

lemma confirmed_stop: "waiter_good t (WaitDebt i c h) \<Longrightarrow> stopped t i \<Longrightarrow> confirmed t h"
  by (auto simp: confirmed_def)

lemma waiter_debt:
  assumes "waiter_good t w" and "owes t f"
  shows "owes (waiter_continues w t) f \<or> confirmed t (snd f)"
proof (cases w)
  case (WaitDebt i c h)
  with assms show ?thesis by (auto simp: owes_drop confirmed_def)
next
  case (WaitRetire i e h)
  have "owes (retireHandler g (upd_entry e q t')) f = owes t' f" for g e q t' by (rule owes_cong) (simp add: td_fields)
  with WaitRetire assms show ?thesis by (auto simp: owes_drop confirmed_def split: option.split)
next
  case (WaitSettle i c h rest b)
  have "owes (settle_next c r b' t') f = owes t' f" for r b' t' by (rule owes_cong) (simp add: td_fields)
  with WaitSettle assms show ?thesis by (auto simp: owes_drop confirmed_def)
next
  case (WaitQuiesce c ps b)
  have "owes (quiesce c b t) f = owes t f" by (rule owes_cong) (simp add: td_fields)
  with WaitQuiesce assms show ?thesis by simp
qed

lemma waiter_run_debt:
  assumes "waiters_ok t" and "owes t f"
  shows "owes (waiter_runs k t) f \<or> confirmed t (snd f)"
proof (cases "k < length (rt_waiters t) \<and> waiter_ready t (rt_waiters t ! k)")
  case True
  let ?w = "rt_waiters t ! k" and ?t = "t\<lparr>rt_waiters := take k (rt_waiters t) @ drop (Suc k) (rt_waiters t)\<rparr>"
  have "waiter_good t ?w" using True assms(1) by (auto simp: waiters_ok_def)
  then have "waiter_good ?t ?w" by (rule grows_good [OF grows_same, rotated]) simp
  moreover have "owes ?t f" using assms(2) owes_cong [of ?t t f] by simp
  ultimately have "owes (waiter_continues ?w ?t) f \<or> confirmed ?t (snd f)" by (rule waiter_debt)
  with True show ?thesis by (simp add: waiter_runs_def confirmed_def stopped_def)
qed (use assms(2) in \<open>auto simp: waiter_runs_def\<close>)

definition drops :: "teardown_event \<Rightarrow> string \<times> handler \<Rightarrow> bool" where
  "drops ev f \<longleftrightarrow> ev = TdDrop (fst f) (snd f) \<or> ev = TdDropEverywhere (snd f)"

lemma step_teardown_debt:
  assumes "waiters_ok t" and "owes t f" and "\<not> drops ev f"
  shows "owes (td_step t ev) f \<or> confirmed t (snd f)"
proof -
  have kept: "owes t' f" if "keeps_debt t t'" for t' using that assms(2) by (cases f) (simp add: keeps_debt_def)
  show ?thesis
  proof (cases ev)
    case (TdDrop c h)
    with assms show ?thesis by (cases f) (auto simp: owes_drop drops_def)
  next
    case (TdDropEverywhere h)
    with assms show ?thesis by (auto simp: drops_def intro: owes_everywhere)
  next
    case (TdWaiter k)
    with waiter_run_debt [OF assms(1,2)] show ?thesis by simp
  next
    case (TdQuarantine e k)
    then have "rt_pending (td_step t ev) = rt_pending t"
      by (auto simp: or_same_def quarantineTimedOutSuspend_def Let_def td_fields split: option.splits bind_splits)
    then show ?thesis by (intro disjI1 kept keeps_fields)
  next
    case (TdComplete e k)
    then have "rt_pending (td_step t ev) = rt_pending t"
      by (auto simp: or_same_def completeRouteTransition_def td_fields split: option.splits bind_splits if_splits)
    then show ?thesis by (intro disjI1 kept keeps_fields)
  next
    case (TdHandler e g)
    have "keeps_debt t (detachHandlerWithPendingTeardown c h r (upd_entry e q t))" for c h r q
    proof -
      have "keeps_debt (upd_entry e q t) (detachHandlerWithPendingTeardown c h r (upd_entry e q t))" by (rule registering_keeps)
      then show ?thesis by (simp add: keeps_debt_def owes_def pending_of_def td_fields)
    qed
    then have "keeps_debt t (td_step t ev)" using TdHandler
      by (auto simp: or_same_def handlerForRouteTransition_def Let_def td_fields intro: keeps_fields split: option.split)
    then show ?thesis by (intro disjI1 kept)
  qed (intro disjI1 kept; simp add: or_same_def attachLiveSession_def markRouteInjectReady_def
        beginOperatorSuspendTransition_def completeOperatorSuspendAdoptionFence_def beginRouteTransition_def
        invalidateRouteTransition_def quiesceRouteProducers_def Let_def td_fields td_debt split: option.split)+
qed

definition td_ok :: "teardown \<Rightarrow> bool" where
  "td_ok t \<longleftrightarrow> chain_ok t \<and> waiters_ok t"


section \<open>Admissions\<close>

definition admissions :: "teardown \<Rightarrow> string \<Rightarrow> nat" where
  "admissions t c = length (filter (\<lambda>x. x = RouteAdmission c True) (rt_outs t))"

named_theorems td_admit \<open>how often a route was admitted\<close>

lemma admissions_report [td_admit]:
  "admissions (report x t) c = (if x = RouteAdmission c True then Suc (admissions t c) else admissions t c)"
  by (simp add: admissions_def report_def)

lemma admissions_cong: "rt_outs t' = rt_outs t \<Longrightarrow> admissions t' c = admissions t c"
  by (simp add: admissions_def)

lemma admissions_fields [td_admit]:
  "admissions (await w t) c = admissions t c" "admissions (set_route e s t) c = admissions t c"
  "admissions (upd_entry e f t) c = admissions t c" "admissions (registerPendingTeardown c' h t) c = admissions t c"
  "admissions (dropPendingTeardown c' h t) c = admissions t c" "admissions (retireHandler h t) c = admissions t c"
  "admissions (snd (shutdownHandler h r a t)) c = admissions t c" "admissions (set_attempt i s2 t) c = admissions t c"
  "admissions (rt_host_update f1 t) c = admissions t c" "admissions (rt_pending_update f2 t) c = admissions t c"
  "admissions (rt_quarantined_update f3 t) c = admissions t c" "admissions (rt_producers_update f4 t) c = admissions t c"
  "admissions (rt_shutdowns_update f5 t) c = admissions t c" "admissions (rt_nextToken_update f6 t) c = admissions t c"
  "admissions (rt_open_update f7 t) c = admissions t c" "admissions (rt_nextProducer_update f8 t) c = admissions t c"
  "admissions (rt_waiters_update f9 t) c = admissions t c"
  by (rule admissions_cong; simp add: await_def set_route_def upd_entry_def registerPendingTeardown_def
      dropPendingTeardown_def retireHandler_def shutdownHandler_def set_attempt_def Let_def split: option.split)+

lemma admissions_quiet [td_admit]:
  "admissions (await_stop c' h rest b t) c = admissions t c"
  "admissions (shutdown_starts i t) c = admissions t c" "admissions (shutdown_settles i ok t) c = admissions t c"
  "admissions (shutdown_forgets i t) c = admissions t c" "admissions (retireTransitionHandler k r t) c = admissions t c"
  "admissions (detachHandlerWithPendingTeardown c' h r t) c = admissions t c"
  "admissions (discardStaleRouteTransition c' k r t) c = admissions t c"
  "admissions (retireHandlerForContextSourceChange e t) c = admissions t c"
  "admissions (producer_settles c' p t) c = admissions t c" "admissions (snd (registerRouteProducer c' t)) c = admissions t c"
  by (simp_all add: await_stop_def shutdown_starts_def shutdown_settles_def shutdown_forgets_def Let_def split_beta
      retireTransitionHandler_def detachHandlerWithPendingTeardown_def discardStaleRouteTransition_def
      retireHandlerForContextSourceChange_def producer_settles_def registerRouteProducer_def td_admit split: option.split)

text \<open>A step that admits a route leaves no debt of its chat.\<close>

definition admits_clean :: "teardown \<Rightarrow> teardown \<Rightarrow> string \<Rightarrow> bool" where
  "admits_clean t t' c \<longleftrightarrow> admissions t' c = admissions t c \<or> pending_of t' c = []"

lemma admits_same [td_admit]: "admissions t' c = admissions t c \<Longrightarrow> admits_clean t t' c"
  by (simp add: admits_clean_def)

lemma pending_of_cong: "rt_pending t' = rt_pending t \<Longrightarrow> pending_of t' c = pending_of t c"
  by (simp add: pending_of_def)

lemma settle_debt_clean: "admits_clean t (settle_debt c' t) c"
proof -
  have "pending_of (settle_debt c' t) c = pending_of t c" by (rule pending_of_cong) (simp add: td_fields)
  then show ?thesis by (auto simp: admits_clean_def settle_debt_def td_admit split: list.split)
qed

lemma settle_clean: "admits_clean t (settle_next c' rest b t) c" "admits_clean t (quiesce c' b t) c"
  using settle_debt_clean [of t c' c]
  by (simp_all add: settle_next_def quiesce_def td_admit split: list.split)

lemma clean_after: "admits_clean t' t'' c \<Longrightarrow> admissions t' c = admissions t c \<Longrightarrow> admits_clean t t'' c"
  by (simp add: admits_clean_def)

lemma waiter_clean: "admits_clean t (waiter_runs k t) c"
proof -
  have "admits_clean t (waiter_continues w t) c" for w t
  proof (cases w)
    case (WaitSettle i c' h rest b)
    then show ?thesis
      by (simp add: settle_clean clean_after [OF settle_clean(1)] td_admit)
  qed (simp_all add: settle_clean td_admit split: option.split)
  then have "admits_clean t (waiter_continues w (rt_waiters_update f t)) c" for w f
    by (rule clean_after) (simp add: td_admit)
  then show ?thesis by (simp add: waiter_runs_def td_admit)
qed

lemma step_clean: "admits_clean t (td_step t ev) c"
proof (cases ev)
  case (TdQuarantine e k)
  then show ?thesis
    by (auto simp: or_same_def quarantineTimedOutSuspend_def Let_def td_admit split: option.splits bind_splits)
next
  case (TdComplete e k)
  then show ?thesis
    by (auto simp: or_same_def completeRouteTransition_def td_admit split: option.splits bind_splits if_splits)
next
  case (TdHandler e h)
  then show ?thesis
    by (auto simp: or_same_def handlerForRouteTransition_def Let_def td_admit split: option.split)
next
  case (TdAdmit c')
  then show ?thesis by (simp add: settleTeardownDebtBeforeRoute_def settle_clean td_admit)
next
  case (TdWaiter k)
  then show ?thesis by (simp add: waiter_clean)
qed (simp_all add: or_same_def attachLiveSession_def markRouteInjectReady_def beginOperatorSuspendTransition_def
      completeOperatorSuspendAdoptionFence_def beginRouteTransition_def invalidateRouteTransition_def
      quiesceRouteProducers_def settle_clean dropPendingTeardownEverywhere_def Let_def td_admit split: option.split)


section \<open>Runs\<close>

definition td_start :: "teardown \<Rightarrow> bool" where
  "td_start t \<longleftrightarrow> (\<exists>h. t = new_teardown h)"

inductive td_move :: "teardown \<Rightarrow> teardown \<Rightarrow> bool" where
  "td_move t (td_step t e)"

inductive_cases td_moveE: "td_move t t'"

interpretation td: invariant_system td_start td_move td_ok
proof
  show "td_ok t" if "td_start t" for t
    using that by (auto simp: td_start_def td_ok_def chain_new) (simp add: new_teardown_def waiters_ok_def)
  show "td_ok t'" if "td_move t t'" "td_ok t" for t t'
    using that by (auto simp: td_ok_def td_step_chain td_step_waiters elim: td_moveE)
qed

named_theorems td_grows \<open>operations that only add attempts\<close>

lemma grows_right:
  "rt_attempts t'' = rt_attempts t' \<Longrightarrow> grows t t'' = grows t t'"
  by (simp add: grows_def)

lemma grows_fields [td_grows]:
  "grows t (report x u) = grows t u" "grows t (await w u) = grows t u" "grows t (set_route e s u) = grows t u"
  "grows t (upd_entry e f u) = grows t u" "grows t (registerPendingTeardown c h u) = grows t u"
  "grows t (dropPendingTeardown c h u) = grows t u" "grows t (retireHandler h u) = grows t u"
  "grows t (rt_host_update f1 u) = grows t u" "grows t (rt_pending_update f2 u) = grows t u"
  "grows t (rt_quarantined_update f3 u) = grows t u" "grows t (rt_producers_update f4 u) = grows t u"
  "grows t (rt_shutdowns_update f5 u) = grows t u" "grows t (rt_nextToken_update f6 u) = grows t u"
  "grows t (rt_open_update f7 u) = grows t u" "grows t (rt_nextProducer_update f8 u) = grows t u"
  "grows t (rt_waiters_update f9 u) = grows t u"
  by (rule grows_right; simp add: td_fields)+

lemma grows_trans: "grows t u \<Longrightarrow> grows u v \<Longrightarrow> grows t v"
  by (auto simp: grows_def attempt_settled_def)

lemma grows_shutdown [td_grows]: "grows t u \<Longrightarrow> grows t (snd (shutdownHandler h r a u))"
  by (rule grows_trans [OF _ shutdown_grows])

lemma grows_refl [td_grows]: "grows t t"
  by (simp add: grows_def)

lemma grows_calls [td_grows]:
  "grows t u \<Longrightarrow> grows t (await_stop c h rest b u)" "grows t u \<Longrightarrow> grows t (detachHandlerWithPendingTeardown c h r u)"
  "grows t u \<Longrightarrow> grows t (discardStaleRouteTransition c k r u)" "grows t u \<Longrightarrow> grows t (retireTransitionHandler k r u)"
  "grows t u \<Longrightarrow> grows t (retireHandlerForContextSourceChange e u)" "grows t u \<Longrightarrow> grows t (settle_debt c u)"
  by (simp_all add: await_stop_def detachHandlerWithPendingTeardown_def discardStaleRouteTransition_def settle_debt_def
      retireTransitionHandler_def retireHandlerForContextSourceChange_def Let_def split_beta td_grows split: option.split list.split)

lemma grows_settle [td_grows]: "grows t u \<Longrightarrow> grows t (settle_next c rest b u)" "grows t u \<Longrightarrow> grows t (quiesce c b u)"
  by (simp_all add: settle_next_def quiesce_def td_grows split: list.split)

lemma grows_attempts [td_grows]:
  "grows t (shutdown_starts i t)" "grows t (shutdown_settles i ok t)" "grows t (shutdown_forgets i t)"
  by (auto simp: shutdown_starts_def shutdown_settles_def shutdown_forgets_def settled_state_def td_grows set_attempt_grows)

lemma grows_waiter [td_grows]: "grows t (waiter_runs k t)"
proof -
  have "grows t (waiter_continues w u)" if "grows t u" for w u
    using that by (cases w) (simp_all add: td_grows split: option.split)
  then show ?thesis by (simp add: waiter_runs_def td_grows)
qed

lemma step_grows: "grows t (td_step t e)"
proof (cases e)
  case (TdQuarantine e k)
  then show ?thesis
    by (auto simp: or_same_def quarantineTimedOutSuspend_def Let_def td_grows split: option.splits bind_splits)
next
  case (TdComplete e k)
  then show ?thesis
    by (auto simp: or_same_def completeRouteTransition_def td_grows split: option.splits bind_splits if_splits)
next
  case (TdHandler e h)
  then show ?thesis
    by (auto simp: or_same_def handlerForRouteTransition_def Let_def td_grows split: option.split)
qed (simp_all add: or_same_def attachLiveSession_def markRouteInjectReady_def beginOperatorSuspendTransition_def
      completeOperatorSuspendAdoptionFence_def beginRouteTransition_def invalidateRouteTransition_def
      registerRouteProducer_def producer_settles_def quiesceRouteProducers_def
      settleTeardownDebtBeforeRoute_def dropPendingTeardownEverywhere_def Let_def td_grows split: option.split)

interpretation debt: held_facts td_ok "\<lambda>t f. owes t f \<or> confirmed t (snd f)" td_step drops
proof
  show "td_ok (td_step t e)" if "td_ok t" for t e
    using that by (simp add: td_ok_def td_step_chain td_step_waiters)
  show "owes (td_step t e) f \<or> confirmed (td_step t e) (snd f)"
    if "td_ok t" "owes t f \<or> confirmed t (snd f)" "\<not> drops e f" for t f e
    using that step_teardown_debt [of t f e] grows_confirmed [OF step_grows, of t "snd f" e] by (auto simp: td_ok_def)
qed


section \<open>Properties\<close>

text \<open>
  C21. The shutdowns of one handler are strictly serial: once an attempt runs or has
  settled, every earlier attempt on the same handler has settled, whichever calls join, follow or forget a prior one.
\<close>
theorem shutdowns_never_overlap:
  assumes "reaches td_start td_move t" and "i < j" and "j < length (rt_attempts t)"
    and "sd_handler (rt_attempts t ! i) = sd_handler (rt_attempts t ! j)" and "sd_state (rt_attempts t ! j) \<noteq> SdWaiting"
  shows "attempt_settled t i"
proof -
  have "chain_ok t" using td.always [OF assms(1)] by (simp add: td_ok_def)
  from chain_okD(1) [OF this assms(3)] assms show ?thesis by (simp add: attempt_ok_def earlier_settled_def)
qed

definition fences :: "teardown_event \<Rightarrow> entry_id \<Rightarrow> bool" where
  "fences ev e \<longleftrightarrow> (\<exists>h p. ev = TdBegin e h p) \<or> (\<exists>r. ev = TdInvalidate e r) \<or> ev = TdSuspendFence e"

lemma fenced_step:
  assumes "route t e \<noteq> None" and "entry_of t e \<noteq> None" and "fences ev e"
  shows "at_least (td_step t ev) (e, Suc (captureGeneration t e))"
  using assms
  by (auto simp: fences_def at_least_def or_same_def beginRouteTransition_def completeOperatorSuspendAdoptionFence_def
      invalidateRouteTransition_def Let_def route_def set_route_def captureGeneration_def td_fields td_routes
      retireTransitionHandler_def split: option.split)

lemma outdated_lease:
  assumes "at_least t (e, Suc (ln_generation l))"
  shows "isDeliveryRouteIdentityValid t e l = Some False"
  using assms by (auto simp: at_least_def isDeliveryRouteIdentityValid_def split: option.split)

text \<open>
  C19. A lease is fenced for good when its route is superseded: after a new
  transition, an invalidation or the adoption fence of an operator suspend, whatever happens next (the
  entry is not attached afresh), the lease passes no identity, adoption or settlement check, and completing
  its transition changes nothing.
\<close>
theorem superseded_route_is_fenced:
  assumes "route t e \<noteq> None" and "entry_of t e \<noteq> None" and "fences ev e"
    and "TdAttach e \<notin> set es" and "ln_generation l \<le> captureGeneration t e" and "t' = td_run (td_step t ev) es"
  shows "isDeliveryRouteIdentityValid t' e l = Some False \<and> isRouteAdoptionValid t' e l = Some False \<and>
     isDeliverySettlementLeaseValid t' e l = Some False \<and>
     (\<forall>k. lease_of k = l \<longrightarrow> completeRouteTransition e k t' = Some (False, t'))"
proof -
  have "at_least (td_step t ev) (e, Suc (ln_generation l))"
    using fenced_step [OF assms(1-3)] assms(5) by (auto simp: at_least_def)
  then have "at_least t' (e, Suc (ln_generation l))"
    unfolding assms(6) td_run_def using assms(4) by (intro generations.holds_all) auto
  then obtain s where "route t' e = Some s" and "isDeliveryRouteIdentityValid t' e l = Some False"
    using outdated_lease by (auto simp: at_least_def)
  then show ?thesis
    by (auto simp: isRouteAdoptionValid_def isDeliverySettlementLeaseValid_def completeRouteTransition_def Let_def)
qed

text \<open>
  C20. A handler that was detached without a confirmed stop holds its chat
  back: when a later step admits a route to that chat, and the host did not drop the debt in between, then
  some shutdown of that handler has been confirmed, and the chat has no debt left at that moment.
\<close>
theorem admission_waits_for_the_stop:
  assumes "reaches td_start td_move t" and "h \<in> set (pending_of t c)"
    and "\<forall>e \<in> set (es @ [ev]). \<not> drops e (c, h)"
    and "admissions (td_run t es) c < admissions (td_run t (es @ [ev])) c"
  shows "confirmed (td_run t (es @ [ev])) h \<and> pending_of (td_run t (es @ [ev])) c = []"
proof -
  let ?t = "td_run t (es @ [ev])"
  have "td_ok t" by (rule td.always [OF assms(1)])
  moreover have "owes t (c, h) \<or> confirmed t (snd (c, h))" using assms(2) by (simp add: owes_def)
  ultimately have "owes ?t (c, h) \<or> confirmed ?t (snd (c, h))"
    unfolding td_run_def using assms(3) by (rule debt.holds_all)
  moreover have "pending_of ?t c = []"
    using step_clean [of "td_run t es" ev c] assms(4) by (simp add: admits_clean_def td_run_def)
  ultimately show ?thesis by (simp add: owes_def)
qed



section \<open>Examples\<close>

text \<open>A session of one chat, its handler 7, and the run that evicts it and starts it again.\<close>

definition sample_host :: route_host where
  "sample_host = \<lparr>rh_entries = [(0, \<lparr>he_chatId = ''c'', he_handler = 7, he_status = SActive, he_suspending = False,
     he_stopped = None\<rparr>)], rh_sessions = [(''c'', 0)], rh_slots = [0], rh_shuttingDown = False\<rparr>"

definition sample_evict :: "teardown_event list" where
  "sample_evict = [TdAttach 0, TdBegin 0 7 PhaseStart, TdInvalidate 0 ''evict'', TdDetach ''c'' 7 ''evict'']"

definition sample_stop :: "teardown_event list" where
  "sample_stop = [TdStarts 0, TdSettles 0 True, TdWaiter 0]"

lemma td_run_reaches: "reaches td_start td_move (td_run (new_teardown h) es)"
proof (induction es rule: rev_induct)
  case Nil
  then show ?case by (auto simp: td_run_def td_start_def intro: reaches.begins)
next
  case (snoc e es)
  then show ?case by (auto simp: td_run_def intro: reaches.moves td_move.intros)
qed

definition overlap_run :: teardown where
  "overlap_run = td_run (new_teardown sample_host)
     (sample_evict @ [TdShutdown 7 ''late'' True, TdStarts 1, TdStarts 0, TdSettles 0 True, TdStarts 1])"

theorem shutdowns_never_overlap_witness: "attempt_settled overlap_run 0"
proof -
  have "length (rt_attempts overlap_run) = 2" "handler_at overlap_run 0 = handler_at overlap_run 1"
    "sd_state (rt_attempts overlap_run ! 1) = SdRunning" by code_simp+
  with td_run_reaches show ?thesis
    by (intro shutdowns_never_overlap [of overlap_run 0 1]) (simp_all add: overlap_run_def)
qed

definition superseded_run :: teardown where
  "superseded_run = td_run (new_teardown sample_host) [TdAttach 0, TdBegin 0 7 PhaseStart]"

definition superseded_after :: teardown where
  "superseded_after = td_run (td_step superseded_run (TdInvalidate 0 ''evict'')) [TdBegin 0 8 PhaseResume]"

theorem superseded_route_is_fenced_witness:
  "isRouteAdoptionValid superseded_run 0 \<lparr>ln_generation = 1, ln_handler = 7\<rparr> = Some True \<and>
   isRouteAdoptionValid superseded_after 0 \<lparr>ln_generation = 1, ln_handler = 7\<rparr> = Some False"
proof -
  have "route superseded_run 0 \<noteq> None" "entry_of superseded_run 0 \<noteq> None" "captureGeneration superseded_run 0 = 1"
    "isRouteAdoptionValid superseded_run 0 \<lparr>ln_generation = 1, ln_handler = 7\<rparr> = Some True"
    by code_simp+
  then show ?thesis
    using superseded_route_is_fenced [of superseded_run 0 "TdInvalidate 0 ''evict''" "[TdBegin 0 8 PhaseResume]"
        "\<lparr>ln_generation = 1, ln_handler = 7\<rparr>" superseded_after]
    by (simp add: fences_def superseded_after_def)
qed

definition evicted_run :: teardown where
  "evicted_run = td_run (new_teardown sample_host) sample_evict"

theorem admission_waits_for_the_stop_witness:
  "pending_of evicted_run ''c'' = [7] \<and> confirmed (td_run evicted_run (sample_stop @ [TdAdmit ''c''])) 7"
proof -
  have "pending_of evicted_run ''c'' = [7]"
    "admissions (td_run evicted_run sample_stop) ''c'' < admissions (td_run evicted_run (sample_stop @ [TdAdmit ''c''])) ''c''"
    by code_simp+
  moreover have "reaches td_start td_move evicted_run" unfolding evicted_run_def by (rule td_run_reaches)
  ultimately show ?thesis
    using admission_waits_for_the_stop [of evicted_run 7 "''c''" sample_stop "TdAdmit ''c''"]
    by (simp add: drops_def sample_stop_def)
qed

text \<open>
  The debt of a chat is a set of handlers, so the debt of a late route on the
  handler of an eviction is the same element: the eviction's confirmed stop drops it. The chat is
  admitted although the shutdown that the late route asked for has not run, and nothing is left of that
  debt when it then fails.
\<close>
theorem late_debt_can_be_lost:
  "let k = \<lparr>ln_generation = 1, ln_handler = 7, tk_id = 0, tk_phase = PhaseStart\<rparr>;
       t = td_run (new_teardown sample_host)
             (sample_evict @ [TdDiscard ''c'' k ''late'', TdStarts 0, TdSettles 0 True, TdWaiter 0, TdAdmit ''c'']);
       t' = td_run t [TdStarts 1, TdSettles 1 False, TdWaiter 0]
   in RouteAdmission ''c'' True \<in> set (rt_outs t) \<and> sd_state (rt_attempts t ! 1) = SdWaiting \<and>
      sd_state (rt_attempts t' ! 1) = SdFailed \<and> pending_of t' ''c'' = []"
  by code_simp

end
