(* ===== verification/SlotScheduler.thy ===== *)
theory SlotScheduler
  imports RetryPolicy RouteTeardown
begin

text \<open>
  The model of \<open>runtime/slot-scheduler-authority.ts\<close> without \<open>executeRetry\<close>: active slots, the queue of
  messages that wait for one, the choice of a session to suspend or evict, and the custody of a failed
  start or resume until its retry. The private state of a session is keyed by the identity of its entry
  (\<open>sl_slots\<close>). The sessions of the host that the scheduler reads and suspends are \<open>sc_sessions\<close>, and of
  the route of an entry only the phase of its transition is kept. Timers are numbers: a timer is live from
  \<open>setTimeout\<close> until it fires or is cleared. What the host answers to a query at the time of a call is
  \<open>sched_env\<close>; what the scheduler asks of the host is recorded in \<open>sc_calls\<close>.
\<close>

section \<open>State\<close>

datatype delivery_kind = DkFresh | DkRecovery | DkControl

record pending_message =
  pm_message :: "session_message option"
  pm_chatId :: string
  pm_kind :: delivery_kind

record evicted_resume =
  er_sessionId :: string
  er_lastActivity :: int
  er_continuation :: "provider_continuation option"

record slot_state =
  sl_held :: bool
  sl_attempt :: int
  sl_nextAt :: "int option"
  sl_timer :: "nat option"
  sl_reason :: "string option"
  sl_category :: "failure_category option"
  sl_scope :: "retry_scope option"
  sl_rawError :: "string option"
  sl_head :: "session_message option"
  sl_deferred :: "session_message list"
  sl_fromEvicted :: "evicted_resume option"

definition emptySlotState :: "evicted_resume option \<Rightarrow> slot_state" where
  "emptySlotState resume = \<lparr>sl_held = False, sl_attempt = 0, sl_nextAt = None, sl_timer = None, sl_reason = None,
     sl_category = None, sl_scope = None, sl_rawError = None, sl_head = None, sl_deferred = [],
     sl_fromEvicted = resume\<rparr>"

record sched_session =
  se_id :: entry_id
  se_chatId :: string
  se_sessionId :: string
  se_handler :: handler
  se_status :: session_state
  se_lastActivity :: int
  se_continuation :: "provider_continuation option"

text \<open>A probe of the provider that throws is \<open>None\<close>.\<close>

record sched_env =
  ev_shuttingDown :: bool
  ev_concurrency :: nat
  ev_maxSessions :: nat
  ev_idleTimeoutSec :: int
  ev_workingGraceSec :: int
  ev_now :: int
  ev_provider :: runtime_provider
  ev_subprocess :: "string \<Rightarrow> bool"
  ev_fenced :: "string \<Rightarrow> bool"
  ev_recoveryDebt :: "string \<Rightarrow> bool"
  ev_processing :: "string \<Rightarrow> bool"
  ev_hasEntry :: "string \<Rightarrow> string \<Rightarrow> int \<Rightarrow> bool"
  ev_turnActive :: "handler \<Rightarrow> bool option"
  ev_pendingTeardown :: "string \<Rightarrow> bool"
  ev_settleWaiter :: "handler \<Rightarrow> bool"

datatype sched_call =
    Resilience string string string
  | RouteMessage pending_message
  | ResumeSession string delivery_kind
  | RetryDeliveryTurn string session_message string
  | RouteInvalidated entry_id string
  | DetachHandler string handler string
  | RegisterDebt string handler
  | DropDebt string handler
  | StopHandler handler string
  | RecordResume string "evicted_resume option"
  | DropLiveSession string
  | NotifyState string session_state
  | PrepareEvict string string
  | PrepareSuspend string string
  | ClearActiveRuntime string
  | RecomputeRuntime
  | PersistRegistry
  | ProjectRuntime string
  | RecoverIfNeeded string string
  | FailForRecovery string string string
  | SettleDebt string
  | EnsureImages session_message
  | AuthorizeSource string
  | CreateHandler string handler
  | BeginRoute entry_id handler route_phase
  | RegisterProducer string
  | SettleProducer string
  | SetTrigger string session_message
  | CallStart handler session_message
  | CallResume handler "session_message option" string "provider_continuation option"
  | DiscardStale string entry_id string
  | AbortUnowned string string
  | DrainDeferred string
  | RetryEvent string retry_event_name retry_scope failure_classification "string option"
  | ConfirmFailure string failure_classification retry_decision
  | CompleteTurn string session_message string
  | DrainForTerminate string
  | ForgetChat string
  | FlushRegistry string

text \<open>A flight is one execution of \<open>executeRetry\<close>; its phases are the awaits of that method.\<close>

datatype retry_phase =
    PhRecover bool
  | PhSettle
  | PhImages
  | PhStop
  | PhAuthorize
  | PhRoute handler
  | PhConfirm
  | PhTeardown "bool option"
  | PhDone

datatype retry_route = ByResume string | ByStart session_message

record retry_flight =
  fl_entry :: "entry_id option"
  fl_generation :: nat
  fl_head :: "session_message option"
  fl_route :: "retry_route option"
  fl_replaced :: "handler option"
  fl_phase :: retry_phase

text \<open>A timer that was set and has neither fired nor been cleared, with the delay it runs for.\<close>

record live_timer =
  lt_id :: nat
  lt_entry :: entry_id
  lt_chat :: string
  lt_delay :: int

text \<open>
  A forced retirement that waits for the provider turn of its handler, and a termination of a chat with
  the entry it began with: it waits for a suspension under way, stops the handlers of the chat, or drains
  its deliveries.
\<close>

datatype retire_action =
    RetireForRecovery string "string option" "provider_continuation option"
  | RetireForProof string

record retirement =
  rt_entry :: entry_id
  rt_handler :: handler
  rt_action :: retire_action

datatype terminate_phase = TpSuspending | TpStopping | TpDraining

record terminate_flight =
  tm_entry :: "entry_id option"
  tm_phase :: terminate_phase

record sched =
  sc_slots :: "(entry_id, slot_state) jsmap"
  sc_admissions :: "(string, nat) jsmap"
  sc_queue :: "pending_message list"
  sc_active :: nat
  sc_idle :: bool
  sc_flights :: "(string, retry_flight) jsmap"
  sc_sessions :: "(string, sched_session) jsmap"
  sc_transitions :: "(entry_id, route_phase) jsmap"
  sc_timers :: "live_timer list"
  sc_nextTimer :: nat
  sc_calls :: "sched_call list"
  sc_retirements :: "(string, retirement) jsmap"
  sc_terminations :: "(string, terminate_flight) jsmap"

definition new_sched :: sched where
  "new_sched = \<lparr>sc_slots = [], sc_admissions = [], sc_queue = [], sc_active = 0, sc_idle = False, sc_flights = [],
     sc_sessions = [], sc_transitions = [], sc_timers = [], sc_nextTimer = 0, sc_calls = [],
     sc_retirements = [], sc_terminations = []\<rparr>"

definition tell :: "sched_call \<Rightarrow> sched \<Rightarrow> sched" where
  "tell x s = s\<lparr>sc_calls := sc_calls s @ [x]\<rparr>"

fun resumable_id :: "string option list \<Rightarrow> string option" where
  "resumable_id [] = None"
| "resumable_id (c # cs) =
     (case c of Some x \<Rightarrow> if trim x \<noteq> [] then Some x else resumable_id cs | None \<Rightarrow> resumable_id cs)"


section \<open>Queries\<close>

definition peekSlot :: "sched \<Rightarrow> entry_id \<Rightarrow> slot_state option" where
  "peekSlot s e = js_get (sc_slots s) e"

definition getSession :: "sched \<Rightarrow> string \<Rightarrow> sched_session option" where
  "getSession s c = js_get (sc_sessions s) c"

definition isProviderTurnActive :: "sched_env \<Rightarrow> sched_session \<Rightarrow> bool" where
  "isProviderTurnActive q x = (case ev_turnActive q (se_handler x) of Some b \<Rightarrow> b | None \<Rightarrow> True)"

definition isActiveSlotHeld :: "sched \<Rightarrow> entry_id \<Rightarrow> bool" where
  "isActiveSlotHeld s e = (case peekSlot s e of None \<Rightarrow> False | Some x \<Rightarrow> sl_held x)"

definition currentRetryAttempt :: "sched \<Rightarrow> entry_id \<Rightarrow> int" where
  "currentRetryAttempt s e = (case peekSlot s e of None \<Rightarrow> 0 | Some x \<Rightarrow> sl_attempt x)"

definition resumeFallbackSessionId :: "sched \<Rightarrow> entry_id \<Rightarrow> string option" where
  "resumeFallbackSessionId s e =
     resumable_id [Option.bind (peekSlot s e) (\<lambda>x. map_option er_sessionId (sl_fromEvicted x))]"

definition hasResumableProviderSession :: "sched \<Rightarrow> sched_session \<Rightarrow> bool" where
  "hasResumableProviderSession s x = (resumable_id [Some (se_sessionId x), resumeFallbackSessionId s (se_id x)] \<noteq> None)"

definition retryClassificationForEntry :: "slot_state \<Rightarrow> failure_classification" where
  "retryClassificationForEntry x =
     \<lparr>fc_category = (case sl_category x of Some c \<Rightarrow> c | None \<Rightarrow> UnknownCategory),
      fc_reasonCode = (case sl_reason x of Some r \<Rightarrow> r | None \<Rightarrow> ''unknown''),
      fc_message = (case sl_rawError x of Some m \<Rightarrow> m
                    | None \<Rightarrow> (case sl_reason x of Some r \<Rightarrow> r | None \<Rightarrow> ''unknown'')),
      fc_retryAfterMs = None, fc_sourceKind = Transient\<rparr>"

definition deferredMessageSnapshot :: "sched \<Rightarrow> entry_id \<Rightarrow> session_message list" where
  "deferredMessageSnapshot s e = (case peekSlot s e of None \<Rightarrow> [] | Some x \<Rightarrow> sl_deferred x)"

definition hasArmedRetryTimer :: "sched \<Rightarrow> entry_id \<Rightarrow> bool" where
  "hasArmedRetryTimer s e = (case peekSlot s e of None \<Rightarrow> False | Some x \<Rightarrow> sl_timer x \<noteq> None)"

definition isRetryEligible :: "sched \<Rightarrow> sched_session \<Rightarrow> bool" where
  "isRetryEligible s x =
     (case peekSlot s (se_id x) of
        None \<Rightarrow> False
      | Some y \<Rightarrow> se_status x = SSuspended \<and> \<not> sl_held y \<and> js_get (sc_transitions s) (se_id x) = None \<and>
                  sl_attempt y \<noteq> 0)"

definition currentAdmissionGeneration :: "sched \<Rightarrow> string \<Rightarrow> nat" where
  "currentAdmissionGeneration s c = (case js_get (sc_admissions s) c of None \<Rightarrow> 0 | Some n \<Rightarrow> n)"

text \<open>The entry is given by its identity; the session of the chat is the entry when the identities agree.\<close>

definition isRetryAdmissionOpen :: "sched_env \<Rightarrow> string \<Rightarrow> entry_id \<Rightarrow> nat option \<Rightarrow> sched \<Rightarrow> bool" where
  "isRetryAdmissionOpen q c e expected s =
     (\<not> ev_shuttingDown q \<and> \<not> ev_fenced q c \<and>
      (case expected of None \<Rightarrow> True | Some g \<Rightarrow> currentAdmissionGeneration s c = g) \<and>
      (case getSession s c of None \<Rightarrow> False | Some x \<Rightarrow> se_id x = e \<and> isRetryEligible s x))"

definition getActiveCount :: "sched \<Rightarrow> nat" where
  "getActiveCount s = sc_active s"

definition hasPendingTransientRetry :: "sched \<Rightarrow> entry_id \<Rightarrow> bool" where
  "hasPendingTransientRetry s e = (currentRetryAttempt s e > 0)"

definition hasDeferredMessages :: "sched \<Rightarrow> entry_id \<Rightarrow> bool" where
  "hasDeferredMessages s e = (deferredMessageSnapshot s e \<noteq> [])"

definition hasQueuedChat :: "sched \<Rightarrow> string \<Rightarrow> bool" where
  "hasQueuedChat s c = list_ex (\<lambda>p. pm_chatId p = c) (sc_queue s)"


section \<open>Slots, timers and retry custody\<close>

definition upd_slot :: "entry_id \<Rightarrow> (slot_state \<Rightarrow> slot_state) \<Rightarrow> sched \<Rightarrow> sched" where
  "upd_slot e f s = (case peekSlot s e of None \<Rightarrow> s | Some x \<Rightarrow> s\<lparr>sc_slots := js_set (sc_slots s) e (f x)\<rparr>)"

definition upd_session :: "string \<Rightarrow> (sched_session \<Rightarrow> sched_session) \<Rightarrow> sched \<Rightarrow> sched" where
  "upd_session c f s =
     (case getSession s c of None \<Rightarrow> s | Some x \<Rightarrow> s\<lparr>sc_sessions := js_set (sc_sessions s) c (f x)\<rparr>)"

definition clearTimeout :: "nat option \<Rightarrow> sched \<Rightarrow> sched" where
  "clearTimeout t s = (case t of None \<Rightarrow> s | Some i \<Rightarrow> s\<lparr>sc_timers := filter (\<lambda>x. lt_id x \<noteq> i) (sc_timers s)\<rparr>)"

text \<open>Node runs a timer whose delay is below 1 or beyond 31 bits after one millisecond.\<close>

definition TIMEOUT_MAX :: int where "TIMEOUT_MAX = 2147483647"

definition timer_delay :: "int \<Rightarrow> int" where
  "timer_delay d = (if 1 \<le> d \<and> d \<le> TIMEOUT_MAX then d else 1)"

definition setTimeout :: "entry_id \<Rightarrow> string \<Rightarrow> int \<Rightarrow> sched \<Rightarrow> nat \<times> sched" where
  "setTimeout e c delayMs s =
     (sc_nextTimer s,
      s\<lparr>sc_timers := sc_timers s @ [\<lparr>lt_id = sc_nextTimer s, lt_entry = e, lt_chat = c, lt_delay = timer_delay delayMs\<rparr>],
        sc_nextTimer := Suc (sc_nextTimer s)\<rparr>)"

definition timer_of :: "sched \<Rightarrow> entry_id \<Rightarrow> nat option" where
  "timer_of s e = Option.bind (peekSlot s e) sl_timer"

definition attachLiveSlot :: "entry_id \<Rightarrow> evicted_resume option \<Rightarrow> sched \<Rightarrow> sched" where
  "attachLiveSlot e resume s =
     (let s = clearTimeout (timer_of s e) s
      in s\<lparr>sc_slots := js_set (sc_slots s) e (emptySlotState resume)\<rparr>)"

definition deferMessage :: "entry_id \<Rightarrow> session_message \<Rightarrow> sched \<Rightarrow> sched" where
  "deferMessage e m s = upd_slot e (\<lambda>x. x\<lparr>sl_deferred := sl_deferred x @ [m]\<rparr>) s"

definition takeDeferredMessages :: "entry_id \<Rightarrow> sched \<Rightarrow> session_message list \<times> sched" where
  "takeDeferredMessages e s = (deferredMessageSnapshot s e, upd_slot e (\<lambda>x. x\<lparr>sl_deferred := []\<rparr>) s)"

definition clearDeferredMessages :: "entry_id \<Rightarrow> sched \<Rightarrow> sched" where
  "clearDeferredMessages e s = upd_slot e (\<lambda>x. x\<lparr>sl_deferred := []\<rparr>) s"

definition cancelRetryTimer :: "entry_id \<Rightarrow> sched \<Rightarrow> sched" where
  "cancelRetryTimer e s = upd_slot e (\<lambda>x. x\<lparr>sl_timer := None\<rparr>) (clearTimeout (timer_of s e) s)"

definition cancelAllRetryTimers :: "sched \<Rightarrow> sched" where
  "cancelAllRetryTimers s = foldl (\<lambda>s x. cancelRetryTimer (se_id (snd x)) s) s (sc_sessions s)"

definition arm_timer :: "sched_env \<Rightarrow> string \<Rightarrow> entry_id \<Rightarrow> int \<Rightarrow> sched \<Rightarrow> sched" where
  "arm_timer q c e delayMs s =
     (let (i, s) = setTimeout e c delayMs s
      in upd_slot e (\<lambda>x. x\<lparr>sl_nextAt := Some (ev_now q + delayMs), sl_timer := Some i\<rparr>) s)"

definition scheduleTransientRetry ::
  "sched_env \<Rightarrow> sched_session \<Rightarrow> session_message option \<Rightarrow> int \<Rightarrow> string \<Rightarrow> failure_category \<Rightarrow> retry_scope \<Rightarrow>
   string option \<Rightarrow> int \<Rightarrow> sched \<Rightarrow> sched" where
  "scheduleTransientRetry q x head attempt reason category scope rawError delayMs s =
     (if peekSlot s (se_id x) = None then s else
      let e = se_id x;
          s = upd_slot e (\<lambda>y. y\<lparr>sl_head := head, sl_attempt := attempt, sl_reason := Some reason,
                sl_category := Some category, sl_scope := Some scope, sl_rawError := rawError\<rparr>) s
      in arm_timer q (se_chatId x) e delayMs (clearTimeout (timer_of s e) s))"

definition startIdleEviction :: "sched \<Rightarrow> sched" where
  "startIdleEviction s = s\<lparr>sc_idle := True\<rparr>"

definition stopIdleEviction :: "sched \<Rightarrow> sched" where
  "stopIdleEviction s = s\<lparr>sc_idle := False\<rparr>"

definition resetActiveCount :: "sched \<Rightarrow> sched" where
  "resetActiveCount s = s\<lparr>sc_active := 0\<rparr>"

definition clearPendingQueueForChat :: "string \<Rightarrow> sched \<Rightarrow> sched" where
  "clearPendingQueueForChat c s = s\<lparr>sc_queue := filter (\<lambda>p. pm_chatId p \<noteq> c) (sc_queue s)\<rparr>"

definition clearRetryAttemptState :: "entry_id \<Rightarrow> sched \<Rightarrow> sched" where
  "clearRetryAttemptState e s =
     upd_slot e (\<lambda>x. x\<lparr>sl_attempt := 0, sl_nextAt := None, sl_timer := None, sl_reason := None, sl_category := None,
        sl_scope := None, sl_rawError := None, sl_head := None\<rparr>) (clearTimeout (timer_of s e) s)"

definition clearRetryState :: "entry_id \<Rightarrow> sched \<Rightarrow> sched" where
  "clearRetryState e s = clearDeferredMessages e (clearRetryAttemptState e s)"

definition claimActiveSlot :: "entry_id \<Rightarrow> sched \<Rightarrow> sched" where
  "claimActiveSlot e s =
     (if isActiveSlotHeld s e \<or> peekSlot s e = None then s
      else (upd_slot e (\<lambda>x. x\<lparr>sl_held := True\<rparr>) s)\<lparr>sc_active := Suc (sc_active s)\<rparr>)"

definition releaseActiveSlot :: "entry_id \<Rightarrow> sched \<Rightarrow> bool \<times> sched" where
  "releaseActiveSlot e s =
     (if \<not> isActiveSlotHeld s e then (False, s)
      else (True, (upd_slot e (\<lambda>x. x\<lparr>sl_held := False\<rparr>) s)\<lparr>sc_active := sc_active s - 1\<rparr>))"

definition invalidateDeliveryAdmission :: "string \<Rightarrow> sched \<Rightarrow> sched" where
  "invalidateDeliveryAdmission c s =
     s\<lparr>sc_admissions := js_set (sc_admissions s) c (Suc (currentAdmissionGeneration s c))\<rparr>"

text \<open>\<open>RouteTeardownAuthority.invalidateRouteTransition\<close>, which calls back to the admission of the chat.\<close>

definition invalidate_route :: "sched_session \<Rightarrow> string \<Rightarrow> sched \<Rightarrow> sched" where
  "invalidate_route x reason s =
     (let s = invalidateDeliveryAdmission (se_chatId x) (tell (RouteInvalidated (se_id x) reason) s)
      in s\<lparr>sc_transitions := js_delete (sc_transitions s) (se_id x)\<rparr>)"

definition rearmRetryTimer :: "sched_env \<Rightarrow> string \<Rightarrow> entry_id \<Rightarrow> int \<Rightarrow> sched \<Rightarrow> sched" where
  "rearmRetryTimer q c e delayMs s =
     (if ev_shuttingDown q \<or> ev_fenced q c then s
      else case getSession s c of
        None \<Rightarrow> s
      | Some x \<Rightarrow>
          if se_id x \<noteq> e \<or> \<not> isRetryEligible s x \<or> timer_of s e \<noteq> None then s
          else arm_timer q c e delayMs s)"


section \<open>The queue for a slot\<close>

definition queueForSlot :: "string \<Rightarrow> session_message option \<Rightarrow> delivery_kind \<Rightarrow> string \<Rightarrow> sched \<Rightarrow> sched" where
  "queueForSlot c m k reason s =
     (let s = tell (Resilience c ''resilience.session.queued'' reason) s
      in s\<lparr>sc_queue := sc_queue s @ [\<lparr>pm_message = m, pm_chatId = c, pm_kind = k\<rparr>]\<rparr>)"

definition queuedMessageStillOwned :: "sched_env \<Rightarrow> pending_message \<Rightarrow> bool" where
  "queuedMessageStillOwned q p =
     (case pm_message p of
        None \<Rightarrow> True
      | Some m \<Rightarrow> (case m_inboxEntryId m of None \<Rightarrow> True | Some i \<Rightarrow> ev_hasEntry q (pm_chatId p) (m_id m) i))"

fun oldest_active :: "(sched_session \<Rightarrow> bool) \<Rightarrow> sched_session option \<Rightarrow> sched_session list \<Rightarrow> sched_session option" where
  "oldest_active ok best [] = best"
| "oldest_active ok best (x # xs) =
     oldest_active ok
       (if se_status x = SActive \<and> ok x \<and>
           (case best of None \<Rightarrow> True | Some b \<Rightarrow> se_lastActivity x < se_lastActivity b)
        then Some x else best) xs"

definition findOldestActiveSession :: "(sched_session \<Rightarrow> bool) \<Rightarrow> sched \<Rightarrow> sched_session option" where
  "findOldestActiveSession ok s = oldest_active ok None (map snd (sc_sessions s))"

definition next_dispatchable :: "sched_env \<Rightarrow> pending_message list \<Rightarrow> nat option" where
  "next_dispatchable q ps =
     (case filter (\<lambda>i. queuedMessageStillOwned q (ps ! i) \<and> \<not> ev_recoveryDebt q (pm_chatId (ps ! i))) [0..<length ps] of
        [] \<Rightarrow> None | i # _ \<Rightarrow> Some i)"

definition remove_at :: "nat \<Rightarrow> 'a list \<Rightarrow> 'a list" where
  "remove_at i xs = take i xs @ drop (Suc i) xs"

lemma next_dispatchable_Some:
  assumes "next_dispatchable q ps = Some i"
  shows "i < length ps \<and> queuedMessageStillOwned q (ps ! i) \<and> \<not> ev_recoveryDebt q (pm_chatId (ps ! i))"
proof -
  let ?ok = "\<lambda>i. queuedMessageStillOwned q (ps ! i) \<and> \<not> ev_recoveryDebt q (pm_chatId (ps ! i))"
  from assms have "i \<in> set (filter ?ok [0..<length ps])"
    by (cases "filter ?ok [0..<length ps]") (simp_all add: next_dispatchable_def)
  then show ?thesis by simp
qed

text \<open>
  The stale deliveries go first. A control request for a session that is already active is dropped and
  the next one is looked at; otherwise one request is dispatched.
\<close>

function drainPendingQueue :: "sched_env \<Rightarrow> sched \<Rightarrow> sched" where
  "drainPendingQueue q s =
     (let s1 = s\<lparr>sc_queue := filter (queuedMessageStillOwned q) (sc_queue s)\<rparr> in
      case next_dispatchable q (sc_queue s1) of
        None \<Rightarrow> s1
      | Some i \<Rightarrow>
          (let p = sc_queue s1 ! i;
               s2 = s1\<lparr>sc_queue := remove_at i (sc_queue s1)\<rparr>
           in if (case getSession s1 (pm_chatId p) of None \<Rightarrow> False | Some x \<Rightarrow> se_status x = SActive)
              then (case pm_message p of
                      None \<Rightarrow> drainPendingQueue q s2
                    | Some m \<Rightarrow> tell (RouteMessage p) s2)
              else if sc_active s1 \<ge> ev_concurrency q \<and>
                      findOldestActiveSession (\<lambda>x. se_chatId x \<noteq> pm_chatId p \<and> \<not> ev_processing q (se_chatId x)) s1 = None
              then s1
              else (case pm_message p of
                      None \<Rightarrow> (if getSession s2 (pm_chatId p) \<noteq> None
                               then tell (ResumeSession (pm_chatId p) (pm_kind p)) s2 else s2)
                    | Some m \<Rightarrow> tell (RouteMessage p) s2)))"
  by pat_completeness auto

termination
proof (relation "measure (\<lambda>(q, s). length (sc_queue s))", goal_cases)
  case (2 q s s1 i p s2)
  then have "i < length (filter (queuedMessageStillOwned q) (sc_queue s))"
    and "sc_queue s2 = remove_at i (filter (queuedMessageStillOwned q) (sc_queue s))"
    using next_dispatchable_Some by fastforce+
  moreover have "length (filter (queuedMessageStillOwned q) (sc_queue s)) \<le> length (sc_queue s)" by simp
  ultimately have "length (sc_queue s2) < length (sc_queue s)" unfolding remove_at_def by (simp del: length_filter_le)
  then show ?case by simp
qed simp

declare drainPendingQueue.simps [simp del]

text \<open>What a dispatch does when it fails later.\<close>

definition dispatch_failed :: "pending_message \<Rightarrow> sched \<Rightarrow> sched" where
  "dispatch_failed p s =
     (case pm_message p of
        Some m \<Rightarrow> (if m_inboxEntryId m \<noteq> None then tell (RetryDeliveryTurn (pm_chatId p) m ''pending_drain_failed'') s
                   else s\<lparr>sc_queue := p # sc_queue s\<rparr>)
      | None \<Rightarrow> s\<lparr>sc_queue := p # sc_queue s\<rparr>)"


section \<open>Suspending a session\<close>

text \<open>
  The synchronous part of \<open>SessionRuntime.suspendSession\<close>, which the scheduler calls for its victims.
\<close>

definition suspend_session :: "sched_env \<Rightarrow> sched_session \<Rightarrow> string \<Rightarrow> bool \<Rightarrow> bool \<Rightarrow> sched \<Rightarrow> sched" where
  "suspend_session q x reason ackConsumedPrefix drainQueue s =
     (let c = se_chatId x; e = se_id x;
          canceled = js_get (sc_transitions s) e;
          s = invalidate_route x reason s;
          s = (case canceled of
                 Some PhaseStart \<Rightarrow> clearRetryState e s
               | Some PhaseResume \<Rightarrow> clearDeferredMessages e s
               | None \<Rightarrow> s);
          s = tell (if ackConsumedPrefix then PrepareSuspend c reason else PrepareEvict c reason) s;
          s = upd_session c (\<lambda>y. y\<lparr>se_status := SSuspended\<rparr>) s;
          s = snd (releaseActiveSlot e s);
          s = tell (NotifyState c SSuspended) (tell PersistRegistry (tell (ClearActiveRuntime c) s))
      in if drainQueue then drainPendingQueue q s else s)"


section \<open>Acquiring a slot\<close>

datatype victim_kind = VictimIdle | VictimWorking

definition hasLiveSubprocess :: "sched_env \<Rightarrow> string \<Rightarrow> bool" where
  "hasLiveSubprocess q c = ev_subprocess q c"

definition choose_victim ::
  "sched_env \<Rightarrow> string \<Rightarrow> delivery_kind \<Rightarrow> bool \<Rightarrow> sched \<Rightarrow> (sched_session \<times> victim_kind) option" where
  "choose_victim q c k protectSubprocess s =
     (case findOldestActiveSession (\<lambda>x. se_chatId x \<noteq> c \<and> \<not> isProviderTurnActive q x \<and>
             \<not> ev_processing q (se_chatId x) \<and> (\<not> protectSubprocess \<or> \<not> hasLiveSubprocess q (se_chatId x))) s of
        Some x \<Rightarrow> Some (x, VictimIdle)
      | None \<Rightarrow>
          if k = DkFresh
          then map_option (\<lambda>x. (x, VictimWorking))
                 (findOldestActiveSession (\<lambda>x. se_chatId x \<noteq> c \<and> \<not> isProviderTurnActive q x \<and>
                    (\<not> protectSubprocess \<or> \<not> hasLiveSubprocess q (se_chatId x))) s)
          else None)"

definition chosen_victim :: "sched_env \<Rightarrow> string \<Rightarrow> delivery_kind \<Rightarrow> sched \<Rightarrow> (sched_session \<times> victim_kind) option" where
  "chosen_victim q c k s =
     (case choose_victim q c k True s of Some v \<Rightarrow> Some v | None \<Rightarrow> choose_victim q c k False s)"

definition acquireActiveSlot ::
  "sched_env \<Rightarrow> string \<Rightarrow> session_message option \<Rightarrow> delivery_kind \<Rightarrow> bool \<Rightarrow> sched \<Rightarrow> bool \<times> sched" where
  "acquireActiveSlot q c m k queueOnFailure s =
     (if sc_active s < ev_concurrency q then (True, s)
      else case chosen_victim q c k s of
        Some (v, VictimIdle) \<Rightarrow> (True, suspend_session q v ''concurrency_idle_yield'' True False s)
      | Some (v, VictimWorking) \<Rightarrow>
          (True, suspend_session q v ''concurrency_preempted'' False False
                   (tell (Resilience (se_chatId v) ''resilience.session.preempted'' ''concurrency_preempted'') s))
      | None \<Rightarrow> (False, if queueOnFailure then queueForSlot c m k ''concurrency_limit'' s else s))"


section \<open>Eviction\<close>

record eviction_candidates =
  ec_nonActive :: "sched_session option"
  ec_idle :: "sched_session option"
  ec_subprocess :: "sched_session option"

definition older :: "sched_session \<Rightarrow> sched_session option \<Rightarrow> sched_session option" where
  "older x best =
     (case best of None \<Rightarrow> Some x | Some b \<Rightarrow> if se_lastActivity x < se_lastActivity b then Some x else Some b)"

definition scan_candidate :: "sched_env \<Rightarrow> eviction_candidates \<Rightarrow> sched_session \<Rightarrow> eviction_candidates" where
  "scan_candidate q cs x =
     (if ev_pendingTeardown q (se_chatId x) \<or> isProviderTurnActive q x then cs
      else if se_status x \<noteq> SActive then cs\<lparr>ec_nonActive := older x (ec_nonActive cs)\<rparr>
      else if ev_processing q (se_chatId x) then cs
      else if hasLiveSubprocess q (se_chatId x) then cs\<lparr>ec_subprocess := older x (ec_subprocess cs)\<rparr>
      else cs\<lparr>ec_idle := older x (ec_idle cs)\<rparr>)"

definition eviction_candidate :: "sched_env \<Rightarrow> sched \<Rightarrow> sched_session option" where
  "eviction_candidate q s =
     (let cs = foldl (scan_candidate q) \<lparr>ec_nonActive = None, ec_idle = None, ec_subprocess = None\<rparr>
                 (map snd (sc_sessions s))
      in case ec_nonActive cs of
           Some x \<Rightarrow> Some x
         | None \<Rightarrow> (case ec_idle cs of Some x \<Rightarrow> Some x | None \<Rightarrow> ec_subprocess cs))"

definition evict_session :: "sched_session \<Rightarrow> sched \<Rightarrow> sched" where
  "evict_session x s =
     (let c = se_chatId x; e = se_id x;
          s = invalidate_route x ''session_evicted'' s;
          s = tell (RecordResume c
                (map_option (\<lambda>sid. \<lparr>er_sessionId = sid, er_lastActivity = se_lastActivity x, er_continuation = None\<rparr>)
                   (resumable_id [Some (se_sessionId x), resumeFallbackSessionId s e]))) s;
          held = isActiveSlotHeld s e;
          s = snd (releaseActiveSlot e s);
          s = tell (if held then DetachHandler c (se_handler x) ''session_evicted'' else RegisterDebt c (se_handler x)) s;
          s = (tell (DropLiveSession c) s)\<lparr>sc_sessions := js_delete (sc_sessions s) c\<rparr>
      in tell PersistRegistry (tell RecomputeRuntime (tell (PrepareEvict c ''session_evicted'')
           (tell (NotifyState c SSuspended) s))))"

definition evictIfNeeded ::
  "sched_env \<Rightarrow> (string \<times> session_message) option \<Rightarrow> delivery_kind \<Rightarrow> sched \<Rightarrow> bool \<times> sched" where
  "evictIfNeeded q request k s =
     (if length (sc_sessions s) < ev_maxSessions q then (True, s)
      else case eviction_candidate q s of
        None \<Rightarrow> (False, case request of
                  Some (c, m) \<Rightarrow> queueForSlot c (Some m) k ''max_sessions_all_working'' s
                | None \<Rightarrow> s)
      | Some x \<Rightarrow> (True, evict_session x s))"

definition evict_idle_one :: "sched_env \<Rightarrow> sched \<Rightarrow> string \<Rightarrow> sched" where
  "evict_idle_one q s c =
     (case getSession s c of
        None \<Rightarrow> s
      | Some x \<Rightarrow>
          (let timeoutMs = ev_idleTimeoutSec q * 1000;
               workingGraceMs = ev_workingGraceSec q * 1000;
               inactiveMs = ev_now q - se_lastActivity x
           in if se_status x \<noteq> SActive \<or> inactiveMs \<le> timeoutMs then s
              else if isProviderTurnActive q x then s
              else if (ev_processing q (se_chatId x) \<or> hasLiveSubprocess q (se_chatId x)) \<and>
                      \<not> inactiveMs \<ge> timeoutMs + workingGraceMs then s
              else suspend_session q x ''session_suspended'' True True s))"

definition evictIdle :: "sched_env \<Rightarrow> sched \<Rightarrow> sched" where
  "evictIdle q s = foldl (evict_idle_one q) s (map fst (sc_sessions s))"

end
