(* ===== verification/RetryFlight.thy ===== *)
theory RetryFlight
  imports SlotScheduler
begin

text \<open>
  \<open>SlotSchedulerAuthority.executeRetry\<close>, cut at its awaits, with the operations of
  \<open>runtime/session-runtime.ts\<close> that start, resume, fail and end a session as far as they act on slots,
  timers and retry custody. The answers of the route authority, the provider and the server are arguments.
\<close>

section \<open>Ending a session\<close>

definition drop_session :: "string \<Rightarrow> sched \<Rightarrow> sched" where
  "drop_session c s = (tell (DropLiveSession c) s)\<lparr>sc_sessions := js_delete (sc_sessions s) c\<rparr>"

definition recovery_continuation ::
  "sched_env \<Rightarrow> provider_continuation option \<Rightarrow> provider_continuation option \<Rightarrow> string \<Rightarrow>
   provider_continuation option" where
  "recovery_continuation q given own sid =
     (let fits = (\<lambda>k. pc_provider k = ev_provider q \<and> pc_sessionId k = sid)
      in case given of
           Some k \<Rightarrow> (if fits k then Some k else case own of Some k' \<Rightarrow> if fits k' then Some k' else None | None \<Rightarrow> None)
         | None \<Rightarrow> (case own of Some k' \<Rightarrow> if fits k' then Some k' else None | None \<Rightarrow> None))"

definition failSessionForRecoveryNow ::
  "sched_env \<Rightarrow> string \<Rightarrow> string \<Rightarrow> string option \<Rightarrow> provider_continuation option \<Rightarrow> sched \<Rightarrow> sched" where
  "failSessionForRecoveryNow q c reason sid continuation s =
     (case getSession s c of
        None \<Rightarrow> s
      | Some x \<Rightarrow>
          (let e = se_id x;
               s = clearRetryState e (invalidate_route x reason s);
               s = (case resumable_id [sid, map_option pc_sessionId continuation, Some (se_sessionId x),
                                       resumeFallbackSessionId s e] of
                      None \<Rightarrow> s
                    | Some found \<Rightarrow> tell (RecordResume c (Some \<lparr>er_sessionId = found, er_lastActivity = se_lastActivity x,
                        er_continuation = recovery_continuation q continuation (se_continuation x) found\<rparr>)) s);
               s = snd (releaseActiveSlot e s);
               s = tell (PrepareEvict c reason) (tell (DetachHandler c (se_handler x) reason) s);
               s = tell (NotifyState c SErrored) (drop_session c s)
           in drainPendingQueue q (tell PersistRegistry (tell RecomputeRuntime s))))"

text \<open>The same for a runtime-session proof the server refused, until a fresh bind restores it.\<close>

definition fenceSessionForRuntimeSessionProofRecoveryNow :: "sched_env \<Rightarrow> string \<Rightarrow> string \<Rightarrow> sched \<Rightarrow> sched" where
  "fenceSessionForRuntimeSessionProofRecoveryNow q c code s =
     (case getSession s c of
        None \<Rightarrow> s
      | Some x \<Rightarrow>
          (let e = se_id x;
               reason = ''runtime_session_proof:'' @ code;
               s = clearRetryState e (invalidate_route x reason s);
               s = (case resumable_id [Some (se_sessionId x), resumeFallbackSessionId s e] of
                      None \<Rightarrow> s
                    | Some found \<Rightarrow> tell (RecordResume c (Some \<lparr>er_sessionId = found, er_lastActivity = se_lastActivity x,
                        er_continuation = se_continuation x\<rparr>)) s);
               s = tell (StopHandler (se_handler x) reason) (snd (releaseActiveSlot e s));
               s = tell (NotifyState c SErrored) (drop_session c s)
           in drainPendingQueue q (tell PersistRegistry (tell RecomputeRuntime s))))"

text \<open>
  Both wait while the provider turn of the handler runs. One retirement waits per chat; the first stays.
  A provider without a settlement waiter keeps its route and nothing waits.
\<close>

definition deferProviderRetirement :: "sched_env \<Rightarrow> sched_session \<Rightarrow> retire_action \<Rightarrow> sched \<Rightarrow> bool \<times> sched" where
  "deferProviderRetirement q x act s =
     (if \<not> isProviderTurnActive q x then (False, s)
      else (True,
        if js_get (sc_retirements s) (se_chatId x) \<noteq> None \<or> \<not> ev_settleWaiter q (se_handler x) then s
        else s\<lparr>sc_retirements := js_set (sc_retirements s) (se_chatId x)
                 \<lparr>rt_entry = se_id x, rt_handler = se_handler x, rt_action = act\<rparr>\<rparr>))"

definition retire_now :: "sched_env \<Rightarrow> string \<Rightarrow> retire_action \<Rightarrow> sched \<Rightarrow> sched" where
  "retire_now q c act s =
     (case act of
        RetireForRecovery reason sid continuation \<Rightarrow> failSessionForRecoveryNow q c reason sid continuation s
      | RetireForProof code \<Rightarrow> fenceSessionForRuntimeSessionProofRecoveryNow q c code s)"

definition retire_session :: "sched_env \<Rightarrow> string \<Rightarrow> retire_action \<Rightarrow> sched \<Rightarrow> sched" where
  "retire_session q c act s =
     (case getSession s c of
        None \<Rightarrow> s
      | Some x \<Rightarrow>
          (let (deferred, s) = deferProviderRetirement q x act s
           in if deferred then s else retire_now q c act s))"

definition failSessionForRecovery ::
  "sched_env \<Rightarrow> string \<Rightarrow> string \<Rightarrow> string option \<Rightarrow> provider_continuation option \<Rightarrow> sched \<Rightarrow> sched" where
  "failSessionForRecovery q c reason sid continuation s = retire_session q c (RetireForRecovery reason sid continuation) s"

definition fenceSessionForRuntimeSessionProofRecovery :: "sched_env \<Rightarrow> string \<Rightarrow> string \<Rightarrow> sched \<Rightarrow> sched" where
  "fenceSessionForRuntimeSessionProofRecovery q c code s = retire_session q c (RetireForProof code) s"

text \<open>The turn that a retirement waited for has settled, or its waiter failed.\<close>

definition retirement_settles :: "sched_env \<Rightarrow> string \<Rightarrow> sched \<Rightarrow> sched" where
  "retirement_settles q c s =
     (case js_get (sc_retirements s) c of
        None \<Rightarrow> s
      | Some p \<Rightarrow>
          (let s = s\<lparr>sc_retirements := js_delete (sc_retirements s) c\<rparr>
           in if ev_shuttingDown q then s
              else case getSession s c of
                None \<Rightarrow> s
              | Some x \<Rightarrow>
                  if se_id x \<noteq> rt_entry p \<or> se_handler x \<noteq> rt_handler p then s
                  else if isProviderTurnActive q x then snd (deferProviderRetirement q x (rt_action p) s)
                  else retire_now q c (rt_action p) s))"

definition abortUnownedRoute :: "sched_env \<Rightarrow> string \<Rightarrow> string \<Rightarrow> sched \<Rightarrow> sched" where
  "abortUnownedRoute q c reason s =
     (case getSession s c of
        None \<Rightarrow> s
      | Some x \<Rightarrow>
          (let s = snd (releaseActiveSlot (se_id x) (invalidate_route x reason s));
               s = drop_session c (tell (DetachHandler c (se_handler x) reason) s)
           in drainPendingQueue q (tell PersistRegistry (tell RecomputeRuntime s))))"

definition teardown_ends :: "sched_env \<Rightarrow> sched_session \<Rightarrow> sched \<Rightarrow> sched" where
  "teardown_ends q x s =
     (let c = se_chatId x;
          s = drop_session c (tell (DetachHandler c (se_handler x) ''session_terminal_failure'') s);
          s = snd (releaseActiveSlot (se_id x) (tell RecomputeRuntime s))
      in drainPendingQueue q (tell PersistRegistry s))"

text \<open>The answer says whether the failure is terminal; its event then waits for its confirmation.\<close>

definition handleSessionFailure ::
  "sched_env \<Rightarrow> sched_session \<Rightarrow> failure_classification \<Rightarrow> route_phase \<Rightarrow> session_message option \<Rightarrow>
   string option \<Rightarrow> sched \<Rightarrow> bool \<times> sched" where
  "handleSessionFailure q x cls phase attempted rawError s =
     (let c = se_chatId x; e = se_id x;
          scope = (if phase = PhaseStart then SessionStart else SessionResume);
          attempt = clampRetryAttempt (currentRetryAttempt s e + 1);
          d = decideProviderRetry cls scope attempt None PreProvider
      in case d of
           RetryDecision delayMs reason att mx mode safety sev \<Rightarrow>
             (let s = snd (releaseActiveSlot e s);
                  s = tell (ProjectRuntime c) (upd_session c (\<lambda>y. y\<lparr>se_status := SSuspended\<rparr>) s);
                  s = tell (RetryEvent c RetryScheduled scope cls rawError) s
              in (False, scheduleTransientRetry q x attempted att reason (fc_category cls) scope rawError delayMs s))
         | StopDecision reason kind safety sev \<Rightarrow>
             (let s = upd_session c (\<lambda>y. y\<lparr>se_status := SErrored\<rparr>) (clearRetryAttemptState e s);
                  s = tell (ProjectRuntime c) (tell (NotifyState c SErrored) s)
              in (True, tell (ConfirmFailure c cls d) s)))"


section \<open>Starting and resuming\<close>

text \<open>The end of \<open>startNewSession\<close> and of \<open>resumeSession\<close>, from the admission of a slot to the route.\<close>

definition begin_route :: "entry_id \<Rightarrow> handler \<Rightarrow> route_phase \<Rightarrow> sched \<Rightarrow> sched" where
  "begin_route e h phase s = (tell (BeginRoute e h phase) s)\<lparr>sc_transitions := js_set (sc_transitions s) e phase\<rparr>"

definition startNewSession ::
  "sched_env \<Rightarrow> string \<Rightarrow> entry_id \<Rightarrow> handler \<Rightarrow> evicted_resume option \<Rightarrow> session_message \<Rightarrow> delivery_kind \<Rightarrow>
   sched \<Rightarrow> sched" where
  "startNewSession q c e h evicted m k s =
     (let (room, s) = evictIfNeeded q (Some (c, m)) k s in
      if \<not> room then s
      else
        let (acquired, s) = acquireActiveSlot q c (Some m) k True s in
        if \<not> acquired then s
        else
          let x = \<lparr>se_id = e, se_chatId = c,
                se_sessionId = (case evicted of Some r \<Rightarrow> er_sessionId r | None \<Rightarrow> ''''), se_handler = h,
                se_status = SActive, se_lastActivity = ev_now q,
                se_continuation = Option.bind evicted er_continuation\<rparr>;
              s = (tell (CreateHandler c h) s)\<lparr>sc_sessions := js_set (sc_sessions s) c x\<rparr>;
              s = claimActiveSlot e (attachLiveSlot e evicted s);
              s = begin_route e h (if evicted = None then PhaseStart else PhaseResume) s
          in tell (ProjectRuntime c) (tell (NotifyState c SActive) s))"

definition resumeSession ::
  "sched_env \<Rightarrow> string \<Rightarrow> session_message option \<Rightarrow> delivery_kind \<Rightarrow> handler \<Rightarrow> sched \<Rightarrow> sched" where
  "resumeSession q c m k h s =
     (case getSession s c of
        None \<Rightarrow> s
      | Some x \<Rightarrow>
          if isActiveSlotHeld s (se_id x) \<or> se_status x \<noteq> SSuspended \<and> se_status x \<noteq> SEvicted then s
          else
            let kind = (if m = None then DkControl else k);
                (acquired, s) = acquireActiveSlot q c m kind True s
            in if \<not> acquired \<or> ev_shuttingDown q then s
               else
                 let s = upd_session c (\<lambda>y. y\<lparr>se_handler := h, se_status := SActive, se_lastActivity := ev_now q\<rparr>) s;
                     s = begin_route (se_id x) h PhaseResume (claimActiveSlot (se_id x) s)
                 in tell (ProjectRuntime c) (tell (NotifyState c SActive) s))"


section \<open>A retry\<close>

definition flight_of :: "sched \<Rightarrow> string \<Rightarrow> retry_flight option" where
  "flight_of s c = js_get (sc_flights s) c"

definition set_flight :: "string \<Rightarrow> retry_flight \<Rightarrow> sched \<Rightarrow> sched" where
  "set_flight c f s = s\<lparr>sc_flights := js_set (sc_flights s) c f\<rparr>"

definition set_phase :: "string \<Rightarrow> retry_flight \<Rightarrow> retry_phase \<Rightarrow> sched \<Rightarrow> sched" where
  "set_phase c f ph s = set_flight c (f\<lparr>fl_phase := ph\<rparr>) s"

definition RETRY_REARM_MS :: int where "RETRY_REARM_MS = 5000"

definition retry_open :: "sched_env \<Rightarrow> string \<Rightarrow> retry_flight \<Rightarrow> sched \<Rightarrow> bool" where
  "retry_open q c f s =
     (case fl_entry f of None \<Rightarrow> False | Some e \<Rightarrow> isRetryAdmissionOpen q c e (Some (fl_generation f)) s)"

definition rearm_and_end :: "sched_env \<Rightarrow> string \<Rightarrow> retry_flight \<Rightarrow> sched \<Rightarrow> sched" where
  "rearm_and_end q c f s =
     set_phase c f PhDone (case fl_entry f of None \<Rightarrow> s | Some e \<Rightarrow> rearmRetryTimer q c e RETRY_REARM_MS s)"

definition previous_session :: "sched_session \<Rightarrow> slot_state \<Rightarrow> string" where
  "previous_session x y =
     (if se_sessionId x \<noteq> '''' then se_sessionId x
      else case sl_fromEvicted y of Some r \<Rightarrow> er_sessionId r | None \<Rightarrow> '''')"

definition scope_of_retry :: "sched \<Rightarrow> sched_session \<Rightarrow> slot_state \<Rightarrow> retry_scope" where
  "scope_of_retry s x y =
     (case sl_scope y of Some sc \<Rightarrow> sc
      | None \<Rightarrow> if hasResumableProviderSession s x then SessionResume else SessionStart)"

definition retry_begins :: "sched_env \<Rightarrow> string \<Rightarrow> sched \<Rightarrow> sched" where
  "retry_begins q c s =
     (let g = currentAdmissionGeneration s c;
          f = \<lparr>fl_entry = map_option se_id (getSession s c), fl_generation = g, fl_head = None, fl_route = None,
               fl_replaced = None, fl_phase = PhDone\<rparr>
      in case getSession s c of
           None \<Rightarrow> set_flight c f s
         | Some x \<Rightarrow>
             if \<not> isRetryAdmissionOpen q c (se_id x) (Some g) s then set_flight c f s
             else if ev_recoveryDebt q c
             then set_phase c f (PhRecover True)
                    (tell (RecoverIfNeeded c ''session_retry:recovery_debt'') (clearRetryState (se_id x) s))
             else case peekSlot s (se_id x) of
               None \<Rightarrow> set_flight c f s
             | Some y \<Rightarrow>
                 (let head = sl_head y;
                      previous = previous_session x y;
                      route = (if previous \<noteq> '''' then Some (ByResume previous) else map_option ByStart head)
                  in if (case head of None \<Rightarrow> False
                         | Some m \<Rightarrow> (case m_inboxEntryId m of None \<Rightarrow> False | Some i \<Rightarrow> \<not> ev_hasEntry q c (m_id m) i))
                     then set_phase c f (PhRecover False)
                            (tell (RecoverIfNeeded c ''session_retry_head_custody_missing'')
                               (failSessionForRecovery q c ''session_retry_head_custody_missing'' (Some previous) None s))
                     else if route = None
                     then set_phase c f (PhRecover False)
                            (tell (RecoverIfNeeded c ''session_retry_head_missing'')
                               (failSessionForRecovery q c ''session_retry_head_missing'' None None s))
                     else set_flight c (f\<lparr>fl_head := head, fl_route := route, fl_phase := PhSettle\<rparr>)
                            (tell (SettleDebt c)
                               (tell (RetryEvent c RetryStarted (scope_of_retry s x y) (retryClassificationForEntry y)
                                  (sl_rawError y)) s))))"

definition runRetry :: "sched_env \<Rightarrow> string \<Rightarrow> sched \<Rightarrow> sched" where
  "runRetry q c s = (if flight_of s c \<noteq> None then s else retry_begins q c s)"

definition flight_ends :: "string \<Rightarrow> sched \<Rightarrow> sched" where
  "flight_ends c s =
     (case flight_of s c of
        Some f \<Rightarrow> if fl_phase f = PhDone then s\<lparr>sc_flights := js_delete (sc_flights s) c\<rparr> else s
      | None \<Rightarrow> s)"

definition retry_recovered :: "string \<Rightarrow> retry_flight \<Rightarrow> bool \<Rightarrow> sched \<Rightarrow> sched" where
  "retry_recovered c f project s = set_phase c f PhDone (if project then tell (ProjectRuntime c) s else s)"

definition retry_replaces :: "sched_env \<Rightarrow> string \<Rightarrow> retry_flight \<Rightarrow> sched \<Rightarrow> sched" where
  "retry_replaces q c f s =
     (case getSession s c of
        None \<Rightarrow> set_phase c f PhDone s
      | Some x \<Rightarrow>
          if \<not> retry_open q c f s then set_phase c f PhDone s
          else set_flight c (f\<lparr>fl_replaced := Some (se_handler x), fl_phase := PhStop\<rparr>)
                 (tell (StopHandler (se_handler x) ''session_retry_replace'') (tell (RegisterDebt c (se_handler x)) s)))"

definition retry_settled :: "sched_env \<Rightarrow> string \<Rightarrow> retry_flight \<Rightarrow> bool \<Rightarrow> sched \<Rightarrow> sched" where
  "retry_settled q c f settled s =
     (if \<not> settled then rearm_and_end q c f s
      else if \<not> retry_open q c f s then set_phase c f PhDone s
      else case fl_head f of
        Some m \<Rightarrow> set_phase c f PhImages (tell (EnsureImages m) s)
      | None \<Rightarrow> retry_replaces q c f s)"

text \<open>
  The debt is dropped for the handler the entry has after the stop. An entry that has left the
  session map keeps its handler.
\<close>

definition retry_stopped :: "sched_env \<Rightarrow> string \<Rightarrow> retry_flight \<Rightarrow> bool \<Rightarrow> sched \<Rightarrow> sched" where
  "retry_stopped q c f ok s =
     (if \<not> ok then rearm_and_end q c f s
      else
        let current = (case getSession s c of
                         Some x \<Rightarrow> if Some (se_id x) = fl_entry f then Some (se_handler x) else fl_replaced f
                       | None \<Rightarrow> fl_replaced f);
            s = (case current of Some h \<Rightarrow> tell (DropDebt c h) s | None \<Rightarrow> s)
        in if \<not> retry_open q c f s then set_phase c f PhDone s
           else set_phase c f PhAuthorize (tell (AuthorizeSource c) s))"

definition retry_installs :: "sched_env \<Rightarrow> string \<Rightarrow> retry_flight \<Rightarrow> sched_session \<Rightarrow> handler \<Rightarrow> sched \<Rightarrow> sched" where
  "retry_installs q c f x h s =
     (let e = se_id x;
          phase = (case fl_route f of Some (ByStart m) \<Rightarrow> PhaseStart | _ \<Rightarrow> PhaseResume);
          s = upd_session c (\<lambda>y. y\<lparr>se_handler := h, se_status := SActive, se_lastActivity := ev_now q\<rparr>)
                (tell (CreateHandler c h) s);
          s = begin_route e h phase (claimActiveSlot e s);
          s = tell (RegisterProducer c) (tell (ProjectRuntime c) (tell (NotifyState c SActive) s));
          s = (case fl_head f of Some m \<Rightarrow> tell (SetTrigger c m) s | None \<Rightarrow> s)
      in case fl_route f of
           Some (ByStart m) \<Rightarrow> set_phase c f (PhRoute h) (tell (CallStart h m) s)
         | Some (ByResume previous) \<Rightarrow>
             (let mapping = Option.bind (peekSlot s e) sl_fromEvicted;
                  continuation = Option.bind mapping er_continuation;
                  options = continuationResumeOptions continuation (fl_head f) previous (ev_provider q)
              in if continuation \<noteq> None \<and> options = None
                 then set_phase c f PhDone (tell (SettleProducer c) (tell PersistRegistry (tell (RecordResume c mapping)
                        (failSessionForRecovery q c ''session_retry_provider_continuation_mismatch''
                           (map_option er_sessionId mapping) None s))))
                 else set_phase c f (PhRoute h) (tell (CallResume h (fl_head f) previous options) s))
         | None \<Rightarrow> set_phase c f PhDone s)"

definition retry_authorized :: "sched_env \<Rightarrow> string \<Rightarrow> retry_flight \<Rightarrow> bool \<Rightarrow> handler \<Rightarrow> sched \<Rightarrow> sched" where
  "retry_authorized q c f ok h s =
     (if \<not> ok then rearm_and_end q c f s
      else if \<not> retry_open q c f s then set_phase c f PhDone s
      else case getSession s c of
        None \<Rightarrow> set_phase c f PhDone s
      | Some x \<Rightarrow>
          (let (acquired, s) = acquireActiveSlot q c (fl_head f) DkRecovery False s
           in if \<not> acquired then rearm_and_end q c f s else retry_installs q c f x h s))"

text \<open>
  The provider returned a receipt, or threw. \<open>current\<close> is whether the route authority still takes the
  transition as current, \<open>owned\<close> whether the delivery was still in custody, \<open>completes\<close> whether the
  transition completed.
\<close>

datatype route_answer =
    RouteReturned bool string "provider_continuation option" bool bool
  | RouteThrew bool bool failure_classification "string option"

definition preserveStaleProviderContinuation ::
  "sched_env \<Rightarrow> string \<Rightarrow> entry_id \<Rightarrow> session_message option \<Rightarrow> string \<Rightarrow> provider_continuation option \<Rightarrow>
   sched \<Rightarrow> sched" where
  "preserveStaleProviderContinuation q c e m sid continuation s =
     (case continuationResumeOptions continuation m sid (ev_provider q) of
        None \<Rightarrow> s
      | Some k \<Rightarrow>
          (case getSession s c of
             None \<Rightarrow> s
           | Some x \<Rightarrow>
               (let s = (if se_id x = e then upd_session c (\<lambda>y. y\<lparr>se_sessionId := sid\<rparr>) s else s)
                in tell PersistRegistry (tell (RecordResume c
                     (Some \<lparr>er_sessionId = sid, er_lastActivity = se_lastActivity x, er_continuation = Some k\<rparr>)) s))))"

definition retry_returned ::
  "sched_env \<Rightarrow> string \<Rightarrow> retry_flight \<Rightarrow> entry_id \<Rightarrow> bool \<Rightarrow> string \<Rightarrow> provider_continuation option \<Rightarrow> bool \<Rightarrow> bool \<Rightarrow>
   sched \<Rightarrow> sched" where
  "retry_returned q c f e current sid continuation owned completes s =
     (if \<not> current
      then tell (DiscardStale c e ''session_retry_stale_completion'')
             (preserveStaleProviderContinuation q c e (fl_head f) sid continuation s)
      else if \<not> owned then abortUnownedRoute q c ''session_retry_unowned_delivery'' s
      else
        let s = upd_session c (\<lambda>y. y\<lparr>se_sessionId := sid\<rparr>) s
        in if \<not> completes then tell (DiscardStale c e ''session_retry_stale_adoption'') s
           else
             let s' = clearRetryAttemptState e (s\<lparr>sc_transitions := js_delete (sc_transitions s) e\<rparr>)
             in case (getSession s c, peekSlot s e) of
                  (Some x, Some y) \<Rightarrow>
                    tell PersistRegistry (tell (DrainDeferred c)
                      (tell (RetryEvent c RetrySucceeded (scope_of_retry s x y) (retryClassificationForEntry y)
                         (Some (''retry succeeded after '' @ int_str (sl_attempt y) @ '' attempt(s)''))) s'))
                | _ \<Rightarrow> s')"

definition retry_threw ::
  "sched_env \<Rightarrow> string \<Rightarrow> retry_flight \<Rightarrow> sched_session \<Rightarrow> bool \<Rightarrow> failure_classification \<Rightarrow> string option \<Rightarrow>
   sched \<Rightarrow> sched" where
  "retry_threw q c f x contextChanged cls rawError s =
     (let s = invalidate_route x ''session_retry_failed'' s
      in if contextChanged
         then set_phase c f PhDone (tell (SettleProducer c)
                (failSessionForRecovery q c ''session_context_source_changed'' (Some (se_sessionId x)) None s))
         else
           let phase = (case fl_route f of Some (ByStart m) \<Rightarrow> PhaseStart | _ \<Rightarrow> PhaseResume);
               (terminal, s) = handleSessionFailure q x cls phase (fl_head f) rawError s
           in if terminal then set_phase c f PhConfirm s
              else set_phase c f PhDone (tell (SettleProducer c) s))"

definition retry_routed :: "sched_env \<Rightarrow> string \<Rightarrow> retry_flight \<Rightarrow> route_answer \<Rightarrow> sched \<Rightarrow> sched" where
  "retry_routed q c f answer s =
     (case fl_entry f of
        None \<Rightarrow> set_phase c f PhDone s
      | Some e \<Rightarrow>
          (case answer of
             RouteReturned current sid continuation owned completes \<Rightarrow>
               set_phase c f PhDone (tell (SettleProducer c)
                 (retry_returned q c f e current sid continuation owned completes s))
           | RouteThrew current contextChanged cls rawError \<Rightarrow>
               (case getSession s c of
                  Some x \<Rightarrow>
                    (if current \<and> se_id x = e then retry_threw q c f x contextChanged cls rawError s
                     else set_phase c f PhDone (tell (SettleProducer c) (tell (DiscardStale c e ''session_retry_stale_failure'') s)))
                | None \<Rightarrow>
                    set_phase c f PhDone (tell (SettleProducer c) (tell (DiscardStale c e ''session_retry_stale_failure'') s)))))"

text \<open>The event of a terminal failure was confirmed or not; then the session is torn down.\<close>

definition same_session :: "sched \<Rightarrow> string \<Rightarrow> retry_flight \<Rightarrow> sched_session option" where
  "same_session s c f =
     (case getSession s c of Some x \<Rightarrow> if Some (se_id x) = fl_entry f then Some x else None | None \<Rightarrow> None)"

definition retry_confirmed :: "sched_env \<Rightarrow> string \<Rightarrow> retry_flight \<Rightarrow> bool \<Rightarrow> sched \<Rightarrow> sched" where
  "retry_confirmed q c f persisted s =
     (case same_session s c f of
        None \<Rightarrow> set_phase c f PhDone (tell (SettleProducer c) s)
      | Some x \<Rightarrow>
          (let s = invalidate_route x ''session_terminal_failure'' s;
               deferred = hasDeferredMessages s (se_id x);
               s = clearRetryState (se_id x) s
           in case fl_head f of
                Some m \<Rightarrow>
                  if persisted \<and> \<not> ev_recoveryDebt q c
                  then set_phase c f (PhTeardown (Some deferred)) (tell (CompleteTurn c m ''session_failure_terminal'') s)
                  else set_phase c f (PhTeardown None) (tell (DrainForTerminate c) s)
              | None \<Rightarrow> set_phase c f (PhTeardown None) (tell (DrainForTerminate c) s)))"

definition retry_torn_down :: "sched_env \<Rightarrow> string \<Rightarrow> retry_flight \<Rightarrow> bool option \<Rightarrow> sched \<Rightarrow> sched" where
  "retry_torn_down q c f deferred s =
     (case same_session s c f of
        None \<Rightarrow> set_phase c f PhDone (tell (SettleProducer c) s)
      | Some x \<Rightarrow>
          if deferred \<noteq> None \<and> (the deferred \<or> ev_recoveryDebt q c)
          then set_phase c f (PhTeardown None) (tell (DrainForTerminate c) s)
          else set_phase c f PhDone (tell (SettleProducer c) (teardown_ends q x s)))"

definition triggerImmediateRetry :: "sched_env \<Rightarrow> string \<Rightarrow> sched \<Rightarrow> sched" where
  "triggerImmediateRetry q c s =
     (case getSession s c of
        None \<Rightarrow> s
      | Some x \<Rightarrow>
          if \<not> hasPendingTransientRetry s (se_id x) \<or> flight_of s c \<noteq> None then s
          else if Option.bind (peekSlot s (se_id x)) sl_reason = Some MANAGED_SKILLS_UNSAFE_DISCOVERY then s
          else runRetry q c (cancelRetryTimer (se_id x) s))"

definition retry_timer_fires :: "sched_env \<Rightarrow> nat \<Rightarrow> sched \<Rightarrow> sched" where
  "retry_timer_fires q i s =
     (case filter (\<lambda>x. lt_id x = i) (sc_timers s) of
        [] \<Rightarrow> s
      | x # _ \<Rightarrow>
          (let s = s\<lparr>sc_timers := filter (\<lambda>x. lt_id x \<noteq> i) (sc_timers s)\<rparr>
           in runRetry q (lt_chat x) (upd_slot (lt_entry x) (\<lambda>y. y\<lparr>sl_timer := None\<rparr>) s)))"


section \<open>Terminating a chat, and the shutdown\<close>

definition termination_of :: "sched \<Rightarrow> string \<Rightarrow> terminate_flight option" where
  "termination_of s c = js_get (sc_terminations s) c"

definition set_terminating :: "string \<Rightarrow> terminate_flight \<Rightarrow> terminate_phase \<Rightarrow> sched \<Rightarrow> sched" where
  "set_terminating c t ph s = s\<lparr>sc_terminations := js_set (sc_terminations s) c (t\<lparr>tm_phase := ph\<rparr>)\<rparr>"

definition terminate_fails :: "string \<Rightarrow> sched \<Rightarrow> sched" where
  "terminate_fails c s = s\<lparr>sc_terminations := js_delete (sc_terminations s) c\<rparr>"

text \<open>A second command joins the termination under way.\<close>

definition terminate_begins :: "string \<Rightarrow> sched \<Rightarrow> sched" where
  "terminate_begins c s =
     (if termination_of s c \<noteq> None then s
      else
        let live = getSession s c;
            s = invalidateDeliveryAdmission c s;
            s = (case live of None \<Rightarrow> s | Some x \<Rightarrow> invalidate_route x ''session_terminated'' (cancelRetryTimer (se_id x) s))
        in set_terminating c \<lparr>tm_entry = map_option se_id live, tm_phase = TpSuspending\<rparr> TpSuspending s)"

text \<open>
  The suspension that was under way has ended. The slot of the entry the termination began with is
  released before its handler is stopped, and the session stays in the map with the status it had.
\<close>

definition terminate_releases :: "string \<Rightarrow> bool \<Rightarrow> sched \<Rightarrow> sched" where
  "terminate_releases c ok s =
     (case termination_of s c of
        None \<Rightarrow> s
      | Some t \<Rightarrow>
          if tm_phase t \<noteq> TpSuspending then s
          else if \<not> ok then terminate_fails c s
          else set_terminating c t TpStopping
                 (case tm_entry t of None \<Rightarrow> s | Some e \<Rightarrow> snd (releaseActiveSlot e s)))"

text \<open>The handlers and the routes of the chat have stopped, or a stop failed and the session stays.\<close>

definition terminate_forgets :: "string \<Rightarrow> bool \<Rightarrow> sched \<Rightarrow> sched" where
  "terminate_forgets c ok s =
     (case termination_of s c of
        None \<Rightarrow> s
      | Some t \<Rightarrow>
          if tm_phase t \<noteq> TpStopping then s
          else if \<not> ok then terminate_fails c s
          else set_terminating c t TpDraining
                 (tell (DrainForTerminate c) (clearPendingQueueForChat c
                    ((tell (ForgetChat c) s)\<lparr>sc_sessions := js_delete (sc_sessions s) c\<rparr>))))"

definition terminate_ends :: "sched_env \<Rightarrow> string \<Rightarrow> bool \<Rightarrow> sched \<Rightarrow> sched" where
  "terminate_ends q c flushed s =
     (case termination_of s c of
        None \<Rightarrow> s
      | Some t \<Rightarrow>
          if tm_phase t \<noteq> TpDraining then s
          else
            let s = tell (FlushRegistry c) (tell RecomputeRuntime s)
            in terminate_fails c (if flushed then drainPendingQueue q s else s))"

definition shutdown_begins :: "sched \<Rightarrow> sched" where
  "shutdown_begins s =
     (let s = cancelAllRetryTimers (stopIdleEviction (s\<lparr>sc_retirements := []\<rparr>))
      in foldl (\<lambda>s x. invalidateDeliveryAdmission (se_chatId x) s) s (map snd (sc_sessions s)))"

definition shutdown_routes :: "string \<Rightarrow> sched \<Rightarrow> sched" where
  "shutdown_routes reason s = foldl (\<lambda>s x. invalidate_route x reason s) s (map snd (sc_sessions s))"

definition shutdown_ends :: "bool \<Rightarrow> sched \<Rightarrow> sched" where
  "shutdown_ends reports s =
     (let active = filter (\<lambda>(c, x). se_status x = SActive) (sc_sessions s);
          s = (if reports
               then foldl (\<lambda>s (c, x). tell (NotifyState c SSuspended) (tell (ClearActiveRuntime c) s)) s active else s)
      in resetActiveCount ((tell PersistRegistry s)\<lparr>sc_sessions := []\<rparr>))"


section \<open>Events\<close>

text \<open>An answer to a flight: what its current await returned.\<close>

datatype flight_answer =
    FaDone
  | FaSettled bool
  | FaStopped bool
  | FaAuthorized bool handler
  | FaRouted route_answer
  | FaConfirmed bool

definition flight_step :: "sched_env \<Rightarrow> string \<Rightarrow> flight_answer \<Rightarrow> sched \<Rightarrow> sched" where
  "flight_step q c a s =
     (case flight_of s c of
        None \<Rightarrow> s
      | Some f \<Rightarrow>
          (case (fl_phase f, a) of
             (PhRecover p, FaDone) \<Rightarrow> retry_recovered c f p s
           | (PhSettle, FaSettled ok) \<Rightarrow> retry_settled q c f ok s
           | (PhImages, FaDone) \<Rightarrow> retry_replaces q c f s
           | (PhStop, FaStopped ok) \<Rightarrow> retry_stopped q c f ok s
           | (PhAuthorize, FaAuthorized ok h) \<Rightarrow> retry_authorized q c f ok h s
           | (PhRoute h, FaRouted r) \<Rightarrow> retry_routed q c f r s
           | (PhConfirm, FaConfirmed p) \<Rightarrow> retry_confirmed q c f p s
           | (PhTeardown d, FaDone) \<Rightarrow> retry_torn_down q c f d s
           | _ \<Rightarrow> s))"

datatype sched_event =
    SdStart string entry_id handler "evicted_resume option" session_message delivery_kind
  | SdResume string "session_message option" delivery_kind handler
  | SdSuspend string string bool bool
  | SdRouteDone string
  | SdRouteFailed string route_phase failure_classification "session_message option" "string option"
  | SdFail string string
  | SdProof string string
  | SdRetire string
  | SdAbort string string
  | SdTeardown string
  | SdTerminate string
  | SdTerminateReleases string bool
  | SdTerminateForgets string bool
  | SdTerminateEnds string bool
  | SdEvict
  | SdEvictIdle
  | SdQueue string "session_message option" delivery_kind string
  | SdDrain
  | SdDispatchFailed pending_message
  | SdDefer string session_message
  | SdTakeDeferred string
  | SdAdmission string
  | SdTimer nat
  | SdTrigger string
  | SdFlight string flight_answer
  | SdFlightEnds string
  | SdShutdown
  | SdShutdownRoutes string
  | SdShutdownEnds bool

definition on_session :: "sched \<Rightarrow> string \<Rightarrow> (sched_session \<Rightarrow> sched) \<Rightarrow> sched" where
  "on_session s c g = (case getSession s c of None \<Rightarrow> s | Some x \<Rightarrow> g x)"

text \<open>A session starts with an entry that has no slot yet, for a chat that has no session.\<close>

fun sched_step :: "sched \<Rightarrow> sched_env \<times> sched_event \<Rightarrow> sched" where
  "sched_step s (q, SdStart c e h r m k) =
     (if peekSlot s e = None \<and> getSession s c = None then startNewSession q c e h r m k s else s)"
| "sched_step s (q, SdResume c m k h) = resumeSession q c m k h s"
| "sched_step s (q, SdSuspend c reason ack drain) = on_session s c (\<lambda>x. suspend_session q x reason ack drain s)"
| "sched_step s (q, SdRouteDone c) = on_session s c (\<lambda>x. s\<lparr>sc_transitions := js_delete (sc_transitions s) (se_id x)\<rparr>)"
| "sched_step s (q, SdRouteFailed c phase cls m raw) =
     on_session s c (\<lambda>x. snd (handleSessionFailure q x cls phase m raw (invalidate_route x ''session_route_failed'' s)))"
| "sched_step s (q, SdFail c reason) = failSessionForRecovery q c reason None None s"
| "sched_step s (q, SdProof c code) = fenceSessionForRuntimeSessionProofRecovery q c code s"
| "sched_step s (q, SdRetire c) = retirement_settles q c s"
| "sched_step s (q, SdAbort c reason) = abortUnownedRoute q c reason s"
| "sched_step s (q, SdTeardown c) =
     on_session s c (\<lambda>x. teardown_ends q x (clearRetryState (se_id x) (invalidate_route x ''session_terminal_failure'' s)))"
| "sched_step s (q, SdTerminate c) = terminate_begins c s"
| "sched_step s (q, SdTerminateReleases c ok) = terminate_releases c ok s"
| "sched_step s (q, SdTerminateForgets c ok) = terminate_forgets c ok s"
| "sched_step s (q, SdTerminateEnds c flushed) = terminate_ends q c flushed s"
| "sched_step s (q, SdEvict) = snd (evictIfNeeded q None DkFresh s)"
| "sched_step s (q, SdEvictIdle) = evictIdle q s"
| "sched_step s (q, SdQueue c m k reason) = queueForSlot c m k reason s"
| "sched_step s (q, SdDrain) = drainPendingQueue q s"
| "sched_step s (q, SdDispatchFailed p) = dispatch_failed p s"
| "sched_step s (q, SdDefer c m) = on_session s c (\<lambda>x. deferMessage (se_id x) m s)"
| "sched_step s (q, SdTakeDeferred c) = on_session s c (\<lambda>x. snd (takeDeferredMessages (se_id x) s))"
| "sched_step s (q, SdAdmission c) = invalidateDeliveryAdmission c s"
| "sched_step s (q, SdTimer i) = retry_timer_fires q i s"
| "sched_step s (q, SdTrigger c) = triggerImmediateRetry q c s"
| "sched_step s (q, SdFlight c a) = flight_step q c a s"
| "sched_step s (q, SdFlightEnds c) = flight_ends c s"
| "sched_step s (q, SdShutdown) = shutdown_begins s"
| "sched_step s (q, SdShutdownRoutes reason) = shutdown_routes reason s"
| "sched_step s (q, SdShutdownEnds reports) = shutdown_ends reports s"

definition sched_run :: "sched \<Rightarrow> (sched_env \<times> sched_event) list \<Rightarrow> sched" where
  "sched_run s es = foldl sched_step s es"

end
