(* ===== verification/SlotLemmas.thy ===== *)
theory SlotLemmas
  imports RetryFlight
begin

text \<open>
  What the operations of the scheduler do to the slots: most leave the view of the slots alone, and the
  others move one slot or one session. The contract of the view is \<open>slots_ok\<close>, against a budget that
  counts the terminations: a termination releases the slot of a session that stays active until its
  handler has stopped.
\<close>

declare resumable_id.simps [simp del]

section \<open>The view of the slots\<close>

definition heldset :: "sched \<Rightarrow> entry_id set" where
  "heldset s = {e. isActiveSlotHeld s e}"

definition known :: "sched \<Rightarrow> entry_id set" where
  "known s = {e. peekSlot s e \<noteq> None}"

definition running :: "sched \<Rightarrow> entry_id set" where
  "running s = {e. \<exists>c x. getSession s c = Some x \<and> se_status x = SActive \<and> se_id x = e}"

type_synonym slot_view =
  "entry_id set \<times> entry_id set \<times> (string, sched_session) jsmap \<times> nat \<times> (string, terminate_flight) jsmap"

definition view :: "sched \<Rightarrow> slot_view" where
  "view s = (heldset s, known s, sc_sessions s, sc_active s, sc_terminations s)"

named_theorems sd_view \<open>operations that leave the view of the slots alone\<close>

lemma view_eqI:
  "sc_slots s' = sc_slots s \<Longrightarrow> sc_sessions s' = sc_sessions s \<Longrightarrow> sc_active s' = sc_active s \<Longrightarrow>
     sc_terminations s' = sc_terminations s \<Longrightarrow> view s' = view s"
  by (simp add: view_def heldset_def known_def isActiveSlotHeld_def peekSlot_def)

lemma view_fields [sd_view]:
  "view (tell x s) = view s" "view (sc_admissions_update f1 s) = view s" "view (sc_queue_update f2 s) = view s"
  "view (sc_idle_update f3 s) = view s" "view (sc_flights_update f4 s) = view s"
  "view (sc_transitions_update f5 s) = view s" "view (sc_timers_update f6 s) = view s"
  "view (sc_nextTimer_update f7 s) = view s" "view (clearTimeout t s) = view s"
  "view (invalidateDeliveryAdmission c s) = view s" "view (invalidate_route y r s) = view s"
  "view (queueForSlot c m k r s) = view s" "view (clearPendingQueueForChat c s) = view s"
  "view (begin_route e h p s) = view s" "view (set_flight c f s) = view s" "view (set_phase c f ph s) = view s"
  "view (flight_ends c s) = view s" "view (dispatch_failed pm s) = view s" "view (stopIdleEviction s) = view s"
  "view (sc_retirements_update f8 s) = view s" "view (snd (deferProviderRetirement q y act s)) = view s"
  by (rule view_eqI; simp add: tell_def clearTimeout_def invalidateDeliveryAdmission_def invalidate_route_def
      queueForSlot_def clearPendingQueueForChat_def begin_route_def set_flight_def set_phase_def flight_ends_def
      dispatch_failed_def stopIdleEviction_def deferProviderRetirement_def Let_def split: option.split)+

lemma view_upd_slot [sd_view]:
  assumes "\<And>x. sl_held (f x) = sl_held x"
  shows "view (upd_slot e f s) = view s"
  using assms
  by (auto simp: view_def heldset_def known_def isActiveSlotHeld_def peekSlot_def upd_slot_def split: option.split)

lemma view_timers [sd_view]:
  "view (snd (setTimeout e c d s)) = view s" "view (arm_timer q c e d s) = view s"
  "view (cancelRetryTimer e s) = view s" "view (scheduleTransientRetry q x m a r cat sc raw d s) = view s"
  "view (clearRetryAttemptState e s) = view s" "view (clearDeferredMessages e s) = view s"
  "view (deferMessage e msg s) = view s" "view (snd (takeDeferredMessages e s)) = view s"
  by (simp_all add: setTimeout_def arm_timer_def cancelRetryTimer_def scheduleTransientRetry_def
      clearRetryAttemptState_def clearDeferredMessages_def deferMessage_def takeDeferredMessages_def Let_def sd_view)

lemma view_retry [sd_view]:
  "view (clearRetryState e s) = view s" "view (rearmRetryTimer q c e d s) = view s"
  "view (rearm_and_end q c f s) = view s" "view (retry_recovered c f p s) = view s"
  by (simp_all add: clearRetryState_def rearmRetryTimer_def rearm_and_end_def retry_recovered_def sd_view split: option.split)

lemma view_cancel_all [sd_view]: "view (cancelAllRetryTimers s) = view s"
proof -
  have "view (foldl (\<lambda>s x. cancelRetryTimer (se_id (snd x)) s) s xs) = view s" for xs :: "(string \<times> sched_session) list"
    by (induction xs arbitrary: s) (simp_all add: sd_view)
  then show ?thesis by (simp add: cancelAllRetryTimers_def)
qed

lemma view_drain [sd_view]: "view (drainPendingQueue q s) = view s"
proof (induction q s rule: drainPendingQueue.induct)
  case (1 q s)
  show ?case
    using 1 by (subst drainPendingQueue.simps) (auto simp: Let_def sd_view split: option.split)
qed

lemma view_getSession: "view s' = view s \<Longrightarrow> getSession s' c = getSession s c"
  by (simp add: view_def getSession_def)


section \<open>The contract of the slots\<close>

text \<open>
  The budget: the concurrency, how many terminations have released a slot and of which chats, and whether
  the slots are still counted: the shutdown resets the count and forgets the sessions, not their slots.
\<close>

record slot_budget =
  bg_counts :: bool
  bg_limit :: nat
  bg_ended :: nat
  bg_chats :: "string set"

fun sessions_ok :: "slot_view \<Rightarrow> bool" where
  "sessions_ok (held, kn, sessions, active, terms) \<longleftrightarrow>
     distinct (map fst sessions) \<and>
     (\<forall>c x. js_get sessions c = Some x \<longrightarrow> se_chatId x = c \<and> se_id x \<in> kn) \<and>
     (\<forall>c c' x x'. js_get sessions c = Some x \<longrightarrow> js_get sessions c' = Some x' \<longrightarrow> se_id x = se_id x' \<longrightarrow> c = c') \<and>
     (\<forall>c t e. js_get terms c = Some t \<longrightarrow> tm_entry t = Some e \<longrightarrow>
        e \<in> kn \<and> (\<forall>c' x. js_get sessions c' = Some x \<longrightarrow> se_id x = e \<longrightarrow> c' = c))"

fun count_ok :: "slot_budget \<Rightarrow> slot_view \<Rightarrow> bool" where
  "count_ok w (held, kn, sessions, active, terms) \<longleftrightarrow>
     (let run = {e. \<exists>c x. js_get sessions c = Some x \<and> se_status x = SActive \<and> se_id x = e} in
     finite held \<and> active = card held \<and>
     (\<forall>c x. js_get sessions c = Some x \<longrightarrow> se_status x = SActive \<longrightarrow> se_id x \<in> held \<or> c \<in> bg_chats w) \<and>
     card (run - held) \<le> bg_ended w \<and> card (held \<union> run) \<le> bg_limit w + bg_ended w)"

definition slots_ok :: "slot_budget \<Rightarrow> slot_view \<Rightarrow> bool" where
  "slots_ok w v \<longleftrightarrow> sessions_ok v \<and> (bg_counts w \<longrightarrow> count_ok w v)"

declare sessions_ok.simps [simp del] count_ok.simps [simp del]

lemma sessions_ok_iff:
  "sessions_ok (view s) \<longleftrightarrow>
     distinct (map fst (sc_sessions s)) \<and>
     (\<forall>c x. getSession s c = Some x \<longrightarrow> se_chatId x = c \<and> se_id x \<in> known s) \<and>
     (\<forall>c c' x x'. getSession s c = Some x \<longrightarrow> getSession s c' = Some x' \<longrightarrow> se_id x = se_id x' \<longrightarrow> c = c') \<and>
     (\<forall>c t e. termination_of s c = Some t \<longrightarrow> tm_entry t = Some e \<longrightarrow>
        e \<in> known s \<and> (\<forall>c' x. getSession s c' = Some x \<longrightarrow> se_id x = e \<longrightarrow> c' = c))"
  by (simp only: view_def sessions_ok.simps getSession_def termination_of_def)

lemma count_ok_iff:
  "count_ok w (view s) \<longleftrightarrow>
     finite (heldset s) \<and> sc_active s = card (heldset s) \<and>
     (\<forall>c x. getSession s c = Some x \<longrightarrow> se_status x = SActive \<longrightarrow> se_id x \<in> heldset s \<or> c \<in> bg_chats w) \<and>
     card (running s - heldset s) \<le> bg_ended w \<and> card (heldset s \<union> running s) \<le> bg_limit w + bg_ended w"
  unfolding view_def count_ok.simps getSession_def running_def Let_def ..

lemma view_running: "view s' = view s \<Longrightarrow> running s' = running s"
  by (simp add: running_def view_getSession [of s' s])

lemma slots_okD:
  assumes "slots_ok w (view s)"
  shows "distinct (map fst (sc_sessions s))"
    "getSession s c = Some x \<Longrightarrow> se_chatId x = c" "getSession s c = Some x \<Longrightarrow> se_id x \<in> known s"
    "getSession s c = Some x \<Longrightarrow> getSession s c' = Some x' \<Longrightarrow> se_id x = se_id x' \<Longrightarrow> c = c'"
    "termination_of s c = Some t \<Longrightarrow> tm_entry t = Some e \<Longrightarrow> e \<in> known s"
    "termination_of s c = Some t \<Longrightarrow> tm_entry t = Some e \<Longrightarrow> getSession s c' = Some x \<Longrightarrow> se_id x = e \<Longrightarrow> c' = c"
    "bg_counts w \<Longrightarrow> count_ok w (view s)"
  using assms unfolding slots_ok_def sessions_ok_iff by blast+

lemma finite_running: "finite (running s)"
proof (rule finite_subset)
  show "running s \<subseteq> (\<lambda>z. se_id (snd z)) ` set (sc_sessions s)"
    by (force simp: running_def getSession_def dest: map_of_SomeD)
qed simp

text \<open>
  An operation that gives no slot: sessions leave or stop being active, and at most one slot is released,
  which no active session is left without.
\<close>

lemma slots_shrink:
  assumes ok: "slots_ok w (view s)"
    and kept: "known s \<subseteq> known s'" "sc_terminations s' = sc_terminations s" "distinct (map fst (sc_sessions s'))"
    and sess: "\<And>c y. getSession s' c = Some y \<Longrightarrow> \<exists>x. getSession s c = Some x \<and> se_id y = se_id x \<and>
        se_chatId y = se_chatId x \<and> (se_status y = SActive \<longrightarrow> se_status x = SActive \<and> (se_id x \<in> heldset s \<longrightarrow> se_id x \<in> heldset s'))"
    and held: "heldset s' = heldset s - E" "sc_active s' = (if E \<inter> heldset s = {} then sc_active s else sc_active s - 1)"
      "E = {} \<or> (\<exists>e. E = {e})"
  shows "slots_ok w (view s')"
proof -
  have old: "\<exists>x. getSession s c = Some x \<and> se_id x = se_id y \<and> se_chatId x = se_chatId y" if "getSession s' c = Some y" for c y
    using sess [OF that] by auto
  have tms: "termination_of s' c = termination_of s c" for c by (simp add: termination_of_def kept(2))
  have chat: "se_chatId y = c \<and> se_id y \<in> known s'" if "getSession s' c = Some y" for c y
    using old [OF that] slots_okD(2,3) [OF ok] kept(1) by fastforce
  have inj: "c = d" if "getSession s' c = Some y" "getSession s' d = Some z" "se_id y = se_id z" for c d y z
    using old [OF that(1)] old [OF that(2)] slots_okD(4) [OF ok] that(3) by metis
  have entry: "e \<in> known s' \<and> (\<forall>d y. getSession s' d = Some y \<longrightarrow> se_id y = e \<longrightarrow> d = c)"
    if "termination_of s' c = Some t" "tm_entry t = Some e" for c t e
    using slots_okD(5,6) [OF ok that(1) [unfolded tms] that(2)] old kept(1) by blast
  have "sessions_ok (view s')" unfolding sessions_ok_iff using kept(3) chat inj entry by blast
  moreover have "count_ok w (view s')" if "bg_counts w"
  proof -
    note C = slots_okD(7) [OF ok that, unfolded count_ok_iff]
    have r: "e \<in> running s \<and> (e \<in> heldset s \<longrightarrow> e \<in> heldset s')" if "e \<in> running s'" for e
    proof -
      from that obtain c y where y: "getSession s' c = Some y" "se_status y = SActive" "se_id y = e" by (auto simp: running_def)
      from sess [OF y(1)] obtain x where "getSession s c = Some x" "se_status x = SActive" "se_id x = e"
        "e \<in> heldset s \<longrightarrow> e \<in> heldset s'" using y(2,3) by auto
      then show ?thesis unfolding running_def by blast
    qed
    then have r: "running s' \<subseteq> running s" "running s' - heldset s' \<subseteq> running s - heldset s" by blast+
    have "card (heldset s - E) = (if E \<inter> heldset s = {} then card (heldset s) else card (heldset s) - 1)"
      using held(3) C by (auto simp: card_Diff_singleton_if)
    moreover have "card (running s' - heldset s') \<le> bg_ended w"
      using C card_mono [OF _ r(2)] finite_running by (meson finite_Diff le_trans)
    moreover have "card (heldset s' \<union> running s') \<le> card (heldset s \<union> running s)"
      using r(1) held(1) C finite_running by (intro card_mono) auto
    moreover have "se_id y \<in> heldset s' \<or> c \<in> bg_chats w" if "getSession s' c = Some y" "se_status y = SActive" for c y
      using C sess [OF that(1)] that(2) by metis
    ultimately show ?thesis using C held unfolding count_ok_iff by simp
  qed
  ultimately show ?thesis by (simp add: slots_ok_def)
qed

lemma slots_session_in:
  assumes "slots_ok w (view s)" and "x \<in> snd ` set (sc_sessions s)"
  shows "getSession s (se_chatId x) = Some x"
proof -
  from assms(2) obtain c where "(c, x) \<in> set (sc_sessions s)" by auto
  then have "getSession s c = Some x" using slots_okD(1) [OF assms(1)] by (simp add: getSession_def)
  with slots_okD(2) [OF assms(1) this] show ?thesis by simp
qed

lemma release_fields:
  "heldset (snd (releaseActiveSlot e s)) = heldset s - {e}" "known (snd (releaseActiveSlot e s)) = known s"
  "sc_sessions (snd (releaseActiveSlot e s)) = sc_sessions s"
  "sc_active (snd (releaseActiveSlot e s)) = (if e \<in> heldset s then sc_active s - 1 else sc_active s)"
  "getSession (snd (releaseActiveSlot e s)) c = getSession s c"
  "sc_terminations (snd (releaseActiveSlot e s)) = sc_terminations s"
  by (auto simp: heldset_def known_def isActiveSlotHeld_def peekSlot_def releaseActiveSlot_def upd_slot_def getSession_def
      split: option.splits if_splits)

lemma claim_fields:
  assumes "e \<in> known s"
  shows "heldset (claimActiveSlot e s) = insert e (heldset s)" "known (claimActiveSlot e s) = known s"
    "sc_sessions (claimActiveSlot e s) = sc_sessions s" "getSession (claimActiveSlot e s) c = getSession s c"
    "sc_active (claimActiveSlot e s) = (if e \<in> heldset s then sc_active s else Suc (sc_active s))"
    "sc_terminations (claimActiveSlot e s) = sc_terminations s"
  using assms
  by (auto simp: heldset_def known_def isActiveSlotHeld_def peekSlot_def claimActiveSlot_def upd_slot_def getSession_def
      split: option.splits if_splits)

lemma upd_session_fields:
  "heldset (upd_session c f s) = heldset s" "known (upd_session c f s) = known s" "sc_active (upd_session c f s) = sc_active s"
  "getSession (upd_session c f s) c' = (if c' = c then map_option f (getSession s c) else getSession s c')"
  "distinct (map fst (sc_sessions s)) \<Longrightarrow> distinct (map fst (sc_sessions (upd_session c f s)))"
  "sc_terminations (upd_session c f s) = sc_terminations s"
  by (auto simp: heldset_def known_def isActiveSlotHeld_def peekSlot_def upd_session_def getSession_def distinct_keys_set
      split: option.split)

text \<open>A session changes, and does not become active.\<close>

lemma upd_session_ok:
  assumes "slots_ok w (view s)" and x: "getSession s c = Some x"
    and f: "se_id (f x) = se_id x" "se_chatId (f x) = se_chatId x" "se_status (f x) = SActive \<Longrightarrow> se_status x = SActive"
  shows "slots_ok w (view (upd_session c f s))"
proof (rule slots_shrink [OF assms(1), where E = "{}"])
  show "\<exists>z. getSession s c' = Some z \<and> se_id y = se_id z \<and> se_chatId y = se_chatId z \<and>
      (se_status y = SActive \<longrightarrow> se_status z = SActive \<and> (se_id z \<in> heldset s \<longrightarrow> se_id z \<in> heldset (upd_session c f s)))"
    if "getSession (upd_session c f s) c' = Some y" for c' y
    using that x f by (auto simp: upd_session_fields split: if_splits)
qed (simp_all add: upd_session_fields slots_okD(1) [OF assms(1)])

lemma drop_session_fields:
  "heldset (drop_session c s) = heldset s" "known (drop_session c s) = known s" "sc_active (drop_session c s) = sc_active s"
  "getSession (drop_session c s) c' = (if c' = c then None else getSession s c')"
  "distinct (map fst (sc_sessions s)) \<Longrightarrow> distinct (map fst (sc_sessions (drop_session c s)))"
  "sc_terminations (drop_session c s) = sc_terminations s"
  by (simp_all add: heldset_def known_def isActiveSlotHeld_def peekSlot_def drop_session_def tell_def getSession_def
      distinct_keys_delete)

section \<open>Operations that move slots\<close>

lemma view_same:
  assumes "view s' = view s"
  shows "heldset s' = heldset s" "known s' = known s" "sc_active s' = sc_active s" "sc_sessions s' = sc_sessions s"
    "getSession s' c = getSession s c" "running s' = running s" "sc_terminations s' = sc_terminations s"
  using assms view_running [OF assms] by (simp_all add: view_def getSession_def)

text \<open>There is room for one more session with a slot.\<close>

definition room :: "slot_budget \<Rightarrow> sched \<Rightarrow> bool" where
  "room w s \<longleftrightarrow> (bg_counts w \<longrightarrow> card (heldset s \<union> running s) < bg_limit w + bg_ended w)"

lemma room_view: assumes "view s' = view s" shows "room w s' = room w s"
  unfolding room_def view_same [OF assms] ..

lemmas sd_same = sd_view [THEN view_same(1)] sd_view [THEN view_same(2)] sd_view [THEN view_same(3)]
  sd_view [THEN view_same(5)] sd_view [THEN room_view]

lemma release_and_suspend_ok:
  assumes "slots_ok w (view s)" and "getSession s c = Some x" and "f = (\<lambda>y. y\<lparr>se_status := SSuspended\<rparr>)"
  shows "slots_ok w (view (snd (releaseActiveSlot (se_id x) (upd_session c f s))))"
    "slots_ok w (view (upd_session c f (snd (releaseActiveSlot (se_id x) s))))"
proof -
  have other: "se_id y \<noteq> se_id x" if "getSession s c' = Some y" "c' \<noteq> c" for c' y
    using slots_okD(4) [OF assms(1) that(1) assms(2)] that(2) by blast
  note F = release_fields upd_session_fields assms(2,3)
  show "slots_ok w (view (snd (releaseActiveSlot (se_id x) (upd_session c f s))))"
    by (rule slots_shrink [OF assms(1), where E = "{se_id x}"])
      (simp_all add: F slots_okD(1) [OF assms(1)], auto simp: F dest: other split: if_splits)
  show "slots_ok w (view (upd_session c f (snd (releaseActiveSlot (se_id x) s))))"
    by (rule slots_shrink [OF assms(1), where E = "{se_id x}"])
      (simp_all add: F slots_okD(1) [OF assms(1)], auto simp: F dest: other split: if_splits)
qed

lemma release_and_drop_ok:
  assumes "slots_ok w (view s)" and "getSession s c = Some x"
  shows "slots_ok w (view (drop_session c (snd (releaseActiveSlot (se_id x) s))))"
    "slots_ok w (view (snd (releaseActiveSlot (se_id x) (drop_session c s))))"
proof -
  have other: "se_id y \<noteq> se_id x" if "getSession s c' = Some y" "c' \<noteq> c" for c' y
    using slots_okD(4) [OF assms(1) that(1) assms(2)] that(2) by blast
  note F = release_fields drop_session_fields assms(2)
  show "slots_ok w (view (drop_session c (snd (releaseActiveSlot (se_id x) s))))"
    by (rule slots_shrink [OF assms(1), where E = "{se_id x}"])
      (simp_all add: F slots_okD(1) [OF assms(1)], auto simp: F dest: other split: if_splits)
  show "slots_ok w (view (snd (releaseActiveSlot (se_id x) (drop_session c s))))"
    by (rule slots_shrink [OF assms(1), where E = "{se_id x}"])
      (simp_all add: F slots_okD(1) [OF assms(1)], auto simp: F dest: other split: if_splits)
qed

text \<open>An operation that puts an active session in the map together with its slot.\<close>

lemma slots_install:
  assumes ok: "slots_ok w (view s)" and room: "room w s"
    and known: "insert e (known s) \<subseteq> known s'" and terms: "sc_terminations s' = sc_terminations s"
    and dist: "distinct (map fst (sc_sessions s'))"
    and sess: "\<And>c'. getSession s' c' = (if c' = c then Some y else getSession s c')"
    and y: "se_id y = e" "se_chatId y = c" "se_status y = SActive"
    and own: "\<And>c' x. getSession s c' = Some x \<Longrightarrow> se_id x = e \<Longrightarrow> c' = c"
      "\<And>c' t. termination_of s c' = Some t \<Longrightarrow> tm_entry t = Some e \<Longrightarrow> c' = c"
    and held: "heldset s' = insert e (heldset s)" "sc_active s' = (if e \<in> heldset s then sc_active s else Suc (sc_active s))"
  shows "slots_ok w (view s')"
proof -
  have terms': "termination_of s' c' = termination_of s c'" for c' by (simp add: termination_of_def terms)
  have cases: "c' = c \<and> x = y \<or> c' \<noteq> c \<and> getSession s c' = Some x" if "getSession s' c' = Some x" for c' x
    using that unfolding sess by (cases "c' = c") simp_all
  have chat: "se_chatId x = c' \<and> se_id x \<in> known s'" if "getSession s' c' = Some x" for c' x
    using cases [OF that]
  proof (elim disjE conjE)
    assume "getSession s c' = Some x"
    from slots_okD(2,3) [OF ok this] known show ?thesis by blast
  qed (use y known in simp)
  have inj: "c1 = c2" if "getSession s' c1 = Some x1" "getSession s' c2 = Some x2" "se_id x1 = se_id x2" for c1 c2 x1 x2
    using cases [OF that(1)] cases [OF that(2)] that(3) y(1) own(1) [of c1 x1] own(1) [of c2 x2]
      slots_okD(4) [OF ok, of c1 x1 c2 x2] by metis
  have tms: "e' \<in> known s' \<and> (\<forall>c'' x. getSession s' c'' = Some x \<longrightarrow> se_id x = e' \<longrightarrow> c'' = c')"
    if "termination_of s' c' = Some t" "tm_entry t = Some e'" for c' t e'
  proof (intro conjI allI impI)
    show "e' \<in> known s'" using slots_okD(5) [OF ok that(1) [unfolded terms'] that(2)] known by blast
    show "c'' = c'" if x: "getSession s' c'' = Some x" "se_id x = e'" for c'' x
      using cases [OF x(1)] slots_okD(6) [OF ok \<open>termination_of s' c' = Some t\<close> [unfolded terms'] \<open>tm_entry t = Some e'\<close>]
        own(2) [OF \<open>termination_of s' c' = Some t\<close> [unfolded terms']] \<open>tm_entry t = Some e'\<close> x(2) y(1) by metis
  qed
  have "count_ok w (view s')" if "bg_counts w"
  proof -
    note C = slots_okD(7) [OF ok that, unfolded count_ok_iff]
    have r: "running s' \<subseteq> insert e (running s)" using y(1) cases unfolding running_def by fastforce
    have "card (running s' - heldset s') \<le> card (running s - heldset s)"
      using r held(1) finite_running by (intro card_mono) auto
    moreover have "card (heldset s' \<union> running s') \<le> card (insert e (heldset s \<union> running s))"
      using r held(1) C finite_running by (intro card_mono) auto
    moreover have "card (insert e (heldset s \<union> running s)) \<le> Suc (card (heldset s \<union> running s))" using C finite_running by (simp add: card_insert_if)
    moreover have "card (heldset s \<union> running s) < bg_limit w + bg_ended w" using room that by (simp add: room_def)
    moreover have "se_id x \<in> heldset s' \<or> c' \<in> bg_chats w" if "getSession s' c' = Some x" "se_status x = SActive" for c' x
      using cases [OF that(1)] C that(2) y(1) held(1) by blast
    ultimately show ?thesis using C held unfolding count_ok_iff by (auto simp: card_insert_if)
  qed
  with dist chat inj tms show ?thesis unfolding slots_ok_def sessions_ok_iff by blast
qed

lemma suspend_view:
  "\<exists>s'. view s' = view s \<and> view (suspend_session q x r a d s) =
     view (snd (releaseActiveSlot (se_id x) (upd_session (se_chatId x) (\<lambda>y. y\<lparr>se_status := SSuspended\<rparr>) s')))"
proof -
  let ?c = "se_chatId x" and ?e = "se_id x"
  let ?s1 = "invalidate_route x r s"
  let ?s2 = "case js_get (sc_transitions s) ?e of Some PhaseStart \<Rightarrow> clearRetryState ?e ?s1
     | Some PhaseResume \<Rightarrow> clearDeferredMessages ?e ?s1 | None \<Rightarrow> ?s1"
  let ?s3 = "tell (if a then PrepareSuspend ?c r else PrepareEvict ?c r) ?s2"
  have "view ?s3 = view s" by (simp add: sd_view split: option.split route_phase.split)
  moreover have "view (suspend_session q x r a d s) =
     view (snd (releaseActiveSlot ?e (upd_session ?c (\<lambda>y. y\<lparr>se_status := SSuspended\<rparr>) ?s3)))"
    by (simp add: suspend_session_def Let_def sd_view)
  ultimately show ?thesis by blast
qed

lemma suspend_ok:
  assumes "slots_ok w (view s)" and "getSession s (se_chatId x) = Some x"
  shows "slots_ok w (view (suspend_session q x r a d s))"
proof -
  obtain s' where s': "view s' = view s" and v: "view (suspend_session q x r a d s) =
     view (snd (releaseActiveSlot (se_id x) (upd_session (se_chatId x) (\<lambda>y. y\<lparr>se_status := SSuspended\<rparr>) s')))"
    using suspend_view by blast
  have "slots_ok w (view s')" "getSession s' (se_chatId x) = Some x"
    using assms s' view_same(5) [OF s'] by simp_all
  then show ?thesis unfolding v by (rule release_and_suspend_ok) simp
qed

lemma suspend_fields:
  "heldset (suspend_session q x r a d s) = heldset s - {se_id x}" "known (suspend_session q x r a d s) = known s"
  "sc_active (suspend_session q x r a d s) = (if se_id x \<in> heldset s then sc_active s - 1 else sc_active s)"
  "getSession (suspend_session q x r a d s) c =
     (if c = se_chatId x then map_option (\<lambda>y. y\<lparr>se_status := SSuspended\<rparr>) (getSession s c) else getSession s c)"
proof -
  obtain s' where s': "view s' = view s" and v: "view (suspend_session q x r a d s) =
     view (snd (releaseActiveSlot (se_id x) (upd_session (se_chatId x) (\<lambda>y. y\<lparr>se_status := SSuspended\<rparr>) s')))"
    using suspend_view by blast
  show "heldset (suspend_session q x r a d s) = heldset s - {se_id x}" "known (suspend_session q x r a d s) = known s"
    "sc_active (suspend_session q x r a d s) = (if se_id x \<in> heldset s then sc_active s - 1 else sc_active s)"
    "getSession (suspend_session q x r a d s) c =
     (if c = se_chatId x then map_option (\<lambda>y. y\<lparr>se_status := SSuspended\<rparr>) (getSession s c) else getSession s c)"
    unfolding view_same [OF v] release_fields upd_session_fields view_same [OF s'] by simp_all
qed

text \<open>The choice of a victim.\<close>

lemma oldest_active_in:
  "oldest_active ok best xs = Some v \<Longrightarrow> best = Some v \<or> v \<in> set xs \<and> se_status v = SActive \<and> ok v"
  by (induction xs arbitrary: best) (auto split: if_splits)

lemma findOldest_Some:
  assumes "findOldestActiveSession ok s = Some v"
  shows "v \<in> snd ` set (sc_sessions s) \<and> se_status v = SActive \<and> ok v"
  using oldest_active_in [OF assms [unfolded findOldestActiveSession_def]] by auto

lemma chosen_victim_Some:
  assumes "chosen_victim q c k s = Some (v, how)"
  shows "v \<in> snd ` set (sc_sessions s)" "se_status v = SActive" "se_chatId v \<noteq> c" "\<not> isProviderTurnActive q v"
    "how = VictimIdle \<longrightarrow> \<not> ev_processing q (se_chatId v)" "how = VictimWorking \<longrightarrow> k = DkFresh"
  using assms
  by (auto simp: chosen_victim_def choose_victim_def dest!: findOldest_Some split: option.splits if_splits)

lemma room_below:
  assumes "slots_ok w (view s)" and "sc_active s < bg_limit w"
  shows "room w s"
proof -
  have "card (heldset s \<union> running s) < bg_limit w + bg_ended w" if "bg_counts w"
  proof -
    note C = slots_okD(7) [OF assms(1) that, unfolded count_ok_iff]
    have "card (heldset s \<union> running s) \<le> card (heldset s) + card (running s - heldset s)"
      using card_Un_le [of "heldset s" "running s - heldset s"] by simp
    with C assms(2) show ?thesis by linarith
  qed
  then show ?thesis by (simp add: room_def)
qed

lemma room_suspended:
  assumes ok: "slots_ok w (view s)" and x: "getSession s (se_chatId x) = Some x" "se_status x = SActive"
  shows "room w (suspend_session q x r a d s)"
proof -
  let ?s = "suspend_session q x r a d s"
  have "card (heldset ?s \<union> running ?s) < bg_limit w + bg_ended w" if "bg_counts w"
  proof -
    note C = slots_okD(7) [OF ok that, unfolded count_ok_iff]
    have "running ?s \<subseteq> running s - {se_id x}"
    proof
      fix e assume "e \<in> running ?s"
      then obtain c y where y: "getSession ?s c = Some y" "se_status y = SActive" "se_id y = e" by (auto simp: running_def)
      then have c: "c \<noteq> se_chatId x" "getSession s c = Some y" by (auto simp: suspend_fields split: if_splits)
      with slots_okD(4) [OF ok c(2) x(1)] y show "e \<in> running s - {se_id x}" by (auto simp: running_def)
    qed
    moreover have "se_id x \<in> running s" using x by (auto simp: running_def)
    ultimately have "heldset ?s \<union> running ?s \<subset> heldset s \<union> running s" by (auto simp: suspend_fields)
    then have "card (heldset ?s \<union> running ?s) < card (heldset s \<union> running s)"
      using C finite_running by (intro psubset_card_mono) auto
    with C show ?thesis by linarith
  qed
  then show ?thesis by (simp add: room_def)
qed

lemma acquired_by:
  assumes "\<not> sc_active s < ev_concurrency q" and "chosen_victim q c k s = Some (v, how)"
    and "acquireActiveSlot q c m k b s = (ok, s')"
  shows "ok \<and> (\<exists>u r a d. view u = view s \<and> s' = suspend_session q v r a d u)"
proof (cases how)
  case VictimIdle
  with assms have "ok" "s' = suspend_session q v ''concurrency_idle_yield'' True False s"
    by (auto simp: acquireActiveSlot_def)
  then show ?thesis by blast
next
  case VictimWorking
  let ?u = "tell (Resilience (se_chatId v) ''resilience.session.preempted'' ''concurrency_preempted'') s"
  from VictimWorking assms have "ok" "s' = suspend_session q v ''concurrency_preempted'' False False ?u"
    by (auto simp: acquireActiveSlot_def)
  moreover have "view ?u = view s" by (simp add: sd_view)
  ultimately show ?thesis by blast
qed

lemma acquire_ok:
  assumes "slots_ok w (view s)" and "acquireActiveSlot q c m k b s = (ok, s')" and "ev_concurrency q = bg_limit w"
  shows "slots_ok w (view s')" "ok \<Longrightarrow> room w s'" "known s' = known s" "getSession s' c = getSession s c"
    "heldset s' \<subseteq> heldset s"
proof -
  have "slots_ok w (view s') \<and> (ok \<longrightarrow> room w s') \<and> known s' = known s \<and>
     getSession s' c = getSession s c \<and> heldset s' \<subseteq> heldset s"
  proof (cases "sc_active s < ev_concurrency q")
    case True
    with assms room_below show ?thesis by (auto simp: acquireActiveSlot_def)
  next
    case False
    show ?thesis
    proof (cases "chosen_victim q c k s")
      case None
      with False assms show ?thesis by (cases b) (auto simp: acquireActiveSlot_def sd_view sd_same)
    next
      case (Some z)
      obtain v how where z: "z = (v, how)" by (cases z)
      note v = chosen_victim_Some [OF Some [unfolded z]]
      from acquired_by [OF False Some [unfolded z] assms(2)] obtain u r a d where
        u: "view u = view s" and s': "s' = suspend_session q v r a d u" by blast
      have uok: "slots_ok w (view u)" "getSession u (se_chatId v) = Some v"
        using assms(1) slots_session_in [OF assms(1) v(1)] u view_same(5) [OF u] by simp_all
      show ?thesis unfolding s'
        using suspend_ok [OF uok] room_suspended [OF uok v(2)] v(3) by (auto simp: suspend_fields view_same [OF u])
    qed
  qed
  then show "slots_ok w (view s')" "ok \<Longrightarrow> room w s'" "known s' = known s" "getSession s' c = getSession s c"
    "heldset s' \<subseteq> heldset s" by blast+
qed

text \<open>Eviction.\<close>

lemma older_in: "older x best = Some v \<Longrightarrow> v = x \<or> best = Some v"
  by (auto simp: older_def split: option.splits if_splits)

definition expendable :: "sched_env \<Rightarrow> sched_session \<Rightarrow> bool" where
  "expendable q x \<longleftrightarrow> \<not> ev_pendingTeardown q (se_chatId x) \<and> \<not> isProviderTurnActive q x \<and>
     (se_status x = SActive \<longrightarrow> \<not> ev_processing q (se_chatId x))"

definition candidates_ok :: "sched_env \<Rightarrow> sched_session set \<Rightarrow> eviction_candidates \<Rightarrow> bool" where
  "candidates_ok q A cs \<longleftrightarrow>
     (\<forall>v. ec_nonActive cs = Some v \<or> ec_idle cs = Some v \<or> ec_subprocess cs = Some v \<longrightarrow> v \<in> A \<and> expendable q v)"

lemma scan_ok: "candidates_ok q A cs \<Longrightarrow> x \<in> A \<Longrightarrow> candidates_ok q A (scan_candidate q cs x)"
  by (auto simp: candidates_ok_def scan_candidate_def expendable_def dest: older_in)

lemma eviction_candidate_Some:
  assumes "eviction_candidate q s = Some v"
  shows "v \<in> snd ` set (sc_sessions s)" "expendable q v"
proof -
  let ?start = "\<lparr>ec_nonActive = None, ec_idle = None, ec_subprocess = None\<rparr>"
  have "candidates_ok q A (foldl (scan_candidate q) cs xs)" if "candidates_ok q A cs" "set xs \<subseteq> A" for A cs xs
    using that by (induction xs arbitrary: cs) (auto intro: scan_ok)
  from this [of "snd ` set (sc_sessions s)" ?start "map snd (sc_sessions s)"]
  have "candidates_ok q (snd ` set (sc_sessions s)) (foldl (scan_candidate q) ?start (map snd (sc_sessions s)))"
    by (simp add: candidates_ok_def)
  with assms have "v \<in> snd ` set (sc_sessions s) \<and> expendable q v"
    by (auto simp: eviction_candidate_def Let_def candidates_ok_def split: option.splits)
  then show "v \<in> snd ` set (sc_sessions s)" "expendable q v" by simp_all
qed

lemma evict_session_view:
  "\<exists>s'. view s' = view s \<and> view (evict_session x s) =
     view (drop_session (se_chatId x) (snd (releaseActiveSlot (se_id x) s')))"
proof -
  let ?s = "invalidate_route x ''session_evicted'' s"
  let ?s' = "tell (RecordResume (se_chatId x)
                (map_option (\<lambda>sid. \<lparr>er_sessionId = sid, er_lastActivity = se_lastActivity x, er_continuation = None\<rparr>)
                   (resumable_id [Some (se_sessionId x), resumeFallbackSessionId ?s (se_id x)]))) ?s"
  have drop: "view (drop_session c (tell z u)) = view (drop_session c u)" for c z u
    by (simp add: drop_session_def tell_def view_def heldset_def known_def isActiveSlotHeld_def peekSlot_def)
  have "view (evict_session x s) = view (drop_session (se_chatId x) (snd (releaseActiveSlot (se_id x) ?s')))"
    by (simp add: evict_session_def Let_def sd_view drop flip: drop_session_def)
  moreover have "view ?s' = view s" by (simp add: sd_view)
  ultimately show ?thesis by blast
qed

lemma evict_session_ok:
  assumes "slots_ok w (view s)" and "getSession s (se_chatId x) = Some x"
  shows "slots_ok w (view (evict_session x s))" "known (evict_session x s) = known s"
    "heldset (evict_session x s) \<subseteq> heldset s"
    "getSession (evict_session x s) c = (if c = se_chatId x then None else getSession s c)"
proof -
  obtain s' where s': "view s' = view s" and v: "view (evict_session x s) =
     view (drop_session (se_chatId x) (snd (releaseActiveSlot (se_id x) s')))"
    using evict_session_view by blast
  have "slots_ok w (view s')" "getSession s' (se_chatId x) = Some x"
    using assms s' view_same(5) [OF s'] by simp_all
  then show "slots_ok w (view (evict_session x s))" unfolding v by (rule release_and_drop_ok)
  show "known (evict_session x s) = known s" "heldset (evict_session x s) \<subseteq> heldset s"
    "getSession (evict_session x s) c = (if c = se_chatId x then None else getSession s c)"
    unfolding view_same [OF v] drop_session_fields release_fields view_same [OF s'] by auto
qed

lemma evictIfNeeded_ok:
  assumes "slots_ok w (view s)" and "evictIfNeeded q r k s = (ok, s')"
  shows "slots_ok w (view s')" "known s' = known s" "heldset s' \<subseteq> heldset s"
    "getSession s c = None \<Longrightarrow> getSession s' c = None"
proof -
  have "slots_ok w (view s') \<and> known s' = known s \<and> heldset s' \<subseteq> heldset s \<and>
     (getSession s c = None \<longrightarrow> getSession s' c = None)"
  proof (cases "eviction_candidate q s")
    case None
    with assms show ?thesis
      by (cases r) (auto simp: evictIfNeeded_def sd_view sd_same split: if_splits)
  next
    case (Some x)
    have "getSession s (se_chatId x) = Some x"
      by (rule slots_session_in [OF assms(1) eviction_candidate_Some(1) [OF Some]])
    from evict_session_ok [OF assms(1) this] Some assms show ?thesis
      by (auto simp: evictIfNeeded_def split: if_splits)
  qed
  then show "slots_ok w (view s')" "known s' = known s" "heldset s' \<subseteq> heldset s"
    "getSession s c = None \<Longrightarrow> getSession s' c = None" by blast+
qed

lemma evict_idle_ok:
  assumes "slots_ok w (view s)"
  shows "slots_ok w (view (evictIdle q s))"
proof -
  have one: "slots_ok w (view (evict_idle_one q s c))" if "slots_ok w (view s)" for s c
  proof (cases "getSession s c")
    case (Some x)
    with slots_okD(2) [OF that Some] have "getSession s (se_chatId x) = Some x" by simp
    from suspend_ok [OF that this] that Some show ?thesis by (simp add: evict_idle_one_def Let_def)
  qed (simp add: evict_idle_one_def that)
  have "slots_ok w (view (foldl (evict_idle_one q) s cs))" for cs
    using assms by (induction cs arbitrary: s) (simp_all add: one)
  then show ?thesis by (simp add: evictIdle_def)
qed

section \<open>Sessions that take a slot\<close>

lemma held_known: "heldset s \<subseteq> known s"
  by (auto simp: heldset_def known_def isActiveSlotHeld_def split: option.splits)

lemma attach_fields:
  "heldset (attachLiveSlot e r s) = heldset s - {e}" "known (attachLiveSlot e r s) = insert e (known s)"
  "sc_sessions (attachLiveSlot e r s) = sc_sessions s" "sc_active (attachLiveSlot e r s) = sc_active s"
  "getSession (attachLiveSlot e r s) c = getSession s c" "sc_terminations (attachLiveSlot e r s) = sc_terminations s"
  by (auto simp: heldset_def known_def isActiveSlotHeld_def peekSlot_def attachLiveSlot_def emptySlotState_def Let_def
      clearTimeout_def getSession_def split: option.splits)

lemma put_session_fields:
  "heldset (s\<lparr>sc_sessions := js_set m c x\<rparr>) = heldset s" "known (s\<lparr>sc_sessions := js_set m c x\<rparr>) = known s"
  "sc_active (s\<lparr>sc_sessions := js_set m c x\<rparr>) = sc_active s"
  "m = sc_sessions s \<Longrightarrow> getSession (s\<lparr>sc_sessions := js_set m c x\<rparr>) c' = (if c' = c then Some x else getSession s c')"
  "sc_terminations (s\<lparr>sc_sessions := js_set m c x\<rparr>) = sc_terminations s"
  by (simp_all add: heldset_def known_def isActiveSlotHeld_def peekSlot_def getSession_def)

lemma install_new_ok:
  assumes ok: "slots_ok w (view s)" and new: "se_id x \<notin> known s"
    and x: "se_chatId x = c" "getSession s c = None" "se_status x = SActive" and room: "room w s"
  shows "slots_ok w (view (claimActiveSlot (se_id x)
           (attachLiveSlot (se_id x) r (s\<lparr>sc_sessions := js_set (sc_sessions s) c x\<rparr>))))"
proof (rule slots_install [OF ok room, where e = "se_id x" and y = x and c = c])
  let ?u = "attachLiveSlot (se_id x) r (s\<lparr>sc_sessions := js_set (sc_sessions s) c x\<rparr>)"
  have k: "se_id x \<in> known ?u" by (simp add: attach_fields)
  have "se_id x \<notin> heldset s" using new held_known by blast
  then have h: "heldset s - {se_id x} = heldset s" by simp
  note F = claim_fields [OF k] attach_fields put_session_fields(1-3,5) put_session_fields(4) [OF refl] h
  show "insert (se_id x) (known s) \<subseteq> known (claimActiveSlot (se_id x) ?u)"
    "sc_terminations (claimActiveSlot (se_id x) ?u) = sc_terminations s"
    "heldset (claimActiveSlot (se_id x) ?u) = insert (se_id x) (heldset s)"
    "getSession (claimActiveSlot (se_id x) ?u) c' = (if c' = c then Some x else getSession s c')"
    "sc_active (claimActiveSlot (se_id x) ?u) = (if se_id x \<in> heldset s then sc_active s else Suc (sc_active s))" for c'
    unfolding F by simp_all
  show "distinct (map fst (sc_sessions (claimActiveSlot (se_id x) ?u)))"
    unfolding F using slots_okD(1) [OF ok] by (simp add: distinct_keys_set)
  show "c' = c" if "getSession s c' = Some y" "se_id y = se_id x" for c' y
    using slots_okD(3) [OF ok that(1)] that(2) new by simp
  show "c' = c" if "termination_of s c' = Some t" "tm_entry t = Some (se_id x)" for c' t
    using slots_okD(5) [OF ok that] new by simp
qed (simp_all add: x)

lemma install_old_ok:
  assumes ok: "slots_ok w (view s)" and x: "getSession s c = Some x" and room: "room w s"
    and f: "se_id (f x) = se_id x" "se_chatId (f x) = se_chatId x" "se_status (f x) = SActive"
    and u: "view u = view (upd_session c f s)"
  shows "slots_ok w (view (claimActiveSlot (se_id x) u))"
proof (rule slots_install [OF ok room, where e = "se_id x" and y = "f x" and c = c])
  have k: "se_id x \<in> known u" using slots_okD(3) [OF ok x] by (simp add: view_same [OF u] upd_session_fields)
  note F = claim_fields [OF k] view_same [OF u] upd_session_fields(1-4,6)
  show "insert (se_id x) (known s) \<subseteq> known (claimActiveSlot (se_id x) u)"
    "sc_terminations (claimActiveSlot (se_id x) u) = sc_terminations s"
    "heldset (claimActiveSlot (se_id x) u) = insert (se_id x) (heldset s)"
    "getSession (claimActiveSlot (se_id x) u) c' = (if c' = c then Some (f x) else getSession s c')"
    "sc_active (claimActiveSlot (se_id x) u) = (if se_id x \<in> heldset s then sc_active s else Suc (sc_active s))" for c'
    unfolding F using slots_okD(3) [OF ok x] x by simp_all
  show "distinct (map fst (sc_sessions (claimActiveSlot (se_id x) u)))"
    unfolding F using upd_session_fields(5) [OF slots_okD(1) [OF ok]] .
  show "c' = c" if "getSession s c' = Some y" "se_id y = se_id x" for c' y
    by (rule slots_okD(4) [OF ok that(1) x that(2)])
  show "c' = c" if "termination_of s c' = Some t" "tm_entry t = Some (se_id x)" for c' t
    using slots_okD(6) [OF ok that x] by simp
qed (use f slots_okD(2) [OF ok x] in simp_all)

lemma tell_sessions: "sc_sessions (tell z s) = sc_sessions s"
  by (simp add: tell_def)

lemma startNewSession_ok:
  assumes "slots_ok w (view s)" and "peekSlot s e = None" and "getSession s c = None" and "ev_concurrency q = bg_limit w"
  shows "slots_ok w (view (startNewSession q c e h r m k s))"
proof -
  obtain ok1 s1 where 1: "evictIfNeeded q (Some (c, m)) k s = (ok1, s1)" by (cases "evictIfNeeded q (Some (c, m)) k s")
  obtain ok2 s2 where 2: "acquireActiveSlot q c (Some m) k True s1 = (ok2, s2)" by (cases "acquireActiveSlot q c (Some m) k True s1")
  note e1 = evictIfNeeded_ok [OF assms(1) 1]
  note e2 = acquire_ok [OF e1(1) 2 assms(4)]
  let ?x = "\<lparr>se_id = e, se_chatId = c, se_sessionId = (case r of Some z \<Rightarrow> er_sessionId z | None \<Rightarrow> ''''), se_handler = h,
     se_status = SActive, se_lastActivity = ev_now q, se_continuation = Option.bind r er_continuation\<rparr>"
  let ?u = "tell (CreateHandler c h) s2"
  have "e \<notin> known ?u" using assms(2) e1(2) e2(3) by (simp add: sd_same) (simp add: known_def)
  moreover have "getSession ?u c = None" using assms(3) e1(4) e2(4) by (simp add: sd_same)
  ultimately have "ok2 \<Longrightarrow> slots_ok w (view (claimActiveSlot (se_id ?x)
           (attachLiveSlot (se_id ?x) r (?u\<lparr>sc_sessions := js_set (sc_sessions ?u) c ?x\<rparr>))))"
    using e2(1,2) by (intro install_new_ok) (simp_all add: sd_view sd_same)
  then show ?thesis using e1(1) e2(1) 1 2
    by (cases r) (simp_all add: startNewSession_def Let_def sd_view tell_sessions)
qed

lemma resumeSession_ok:
  assumes "slots_ok w (view s)" and "ev_concurrency q = bg_limit w"
  shows "slots_ok w (view (resumeSession q c m k h s))"
proof (cases "getSession s c")
  case (Some x)
  let ?kind = "if m = None then DkControl else k"
  obtain ok s1 where 1: "acquireActiveSlot q c m ?kind True s = (ok, s1)" by (cases "acquireActiveSlot q c m ?kind True s")
  note e = acquire_ok [OF assms(1) 1 assms(2)]
  have "ok \<Longrightarrow> slots_ok w (view (claimActiveSlot (se_id x)
      (upd_session c (\<lambda>y. y\<lparr>se_handler := h, se_status := SActive, se_lastActivity := ev_now q\<rparr>) s1)))"
    using e Some by (intro install_old_ok [OF e(1) _ _ _ _ _ refl]) simp_all
  then show ?thesis using assms(1) e(1) Some 1
    by (simp add: resumeSession_def Let_def sd_view)
qed (simp add: resumeSession_def assms(1))


section \<open>Sessions that lose their slot\<close>

lemma drop_tell: "view (drop_session c (tell z u)) = view (drop_session c u)"
  by (simp add: drop_session_def tell_def view_def heldset_def known_def isActiveSlotHeld_def peekSlot_def)

lemma failNow_ok:
  assumes "slots_ok w (view s)"
  shows "slots_ok w (view (failSessionForRecoveryNow q c r sid k s))"
proof (cases "getSession s c")
  case (Some x)
  let ?e = "se_id x"
  let ?s1 = "clearRetryState ?e (invalidate_route x r s)"
  let ?s2 = "case resumable_id [sid, map_option pc_sessionId k, Some (se_sessionId x), resumeFallbackSessionId ?s1 ?e] of
     None \<Rightarrow> ?s1
   | Some found \<Rightarrow> tell (RecordResume c (Some \<lparr>er_sessionId = found, er_lastActivity = se_lastActivity x,
       er_continuation = recovery_continuation q k (se_continuation x) found\<rparr>)) ?s1"
  have s2: "view ?s2 = view s"
    by (simp add: sd_view split: option.split)
  have "slots_ok w (view ?s2)" "getSession ?s2 c = Some x"
    using assms Some view_same(5) [OF s2] by (simp_all only: s2)
  then have "slots_ok w (view (drop_session c (snd (releaseActiveSlot ?e ?s2))))" by (rule release_and_drop_ok)
  then show ?thesis using Some by (simp add: failSessionForRecoveryNow_def Let_def sd_view drop_tell)
qed (simp add: failSessionForRecoveryNow_def assms)

lemma proofNow_ok:
  assumes "slots_ok w (view s)"
  shows "slots_ok w (view (fenceSessionForRuntimeSessionProofRecoveryNow q c code s))"
proof (cases "getSession s c")
  case (Some x)
  obtain r where r: "''runtime_session_proof:'' @ code = r" by blast
  let ?e = "se_id x"
  let ?s1 = "clearRetryState ?e (invalidate_route x r s)"
  let ?s2 = "case resumable_id [Some (se_sessionId x), resumeFallbackSessionId ?s1 ?e] of
     None \<Rightarrow> ?s1
   | Some found \<Rightarrow> tell (RecordResume c (Some \<lparr>er_sessionId = found, er_lastActivity = se_lastActivity x,
       er_continuation = se_continuation x\<rparr>)) ?s1"
  have s2: "view ?s2 = view s"
    by (simp add: sd_view split: option.split)
  have "slots_ok w (view ?s2)" "getSession ?s2 c = Some x"
    using assms Some view_same(5) [OF s2] by (simp_all only: s2)
  then have "slots_ok w (view (drop_session c (snd (releaseActiveSlot ?e ?s2))))" by (rule release_and_drop_ok)
  then show ?thesis unfolding fenceSessionForRuntimeSessionProofRecoveryNow_def Let_def r
    using Some by (simp add: sd_view drop_tell)
qed (simp add: fenceSessionForRuntimeSessionProofRecoveryNow_def assms)

lemma retire_now_ok: "slots_ok w (view s) \<Longrightarrow> slots_ok w (view (retire_now q c act s))"
  by (simp add: retire_now_def failNow_ok proofNow_ok split: retire_action.split)

lemma retire_ok: "slots_ok w (view s) \<Longrightarrow> slots_ok w (view (retire_session q c act s))"
  using sd_view by (auto simp: retire_session_def Let_def split_beta retire_now_ok split: option.split)

lemma failSession_ok: "slots_ok w (view s) \<Longrightarrow> slots_ok w (view (failSessionForRecovery q c r sid k s))"
  by (simp add: failSessionForRecovery_def retire_ok)

lemma proof_ok: "slots_ok w (view s) \<Longrightarrow> slots_ok w (view (fenceSessionForRuntimeSessionProofRecovery q c code s))"
  by (simp add: fenceSessionForRuntimeSessionProofRecovery_def retire_ok)

lemma retirement_ok: "slots_ok w (view s) \<Longrightarrow> slots_ok w (view (retirement_settles q c s))"
  by (simp add: retirement_settles_def Let_def retire_now_ok sd_view split: option.split)

lemma abort_ok:
  assumes "slots_ok w (view s)"
  shows "slots_ok w (view (abortUnownedRoute q c r s))"
proof (cases "getSession s c")
  case (Some x)
  let ?s = "invalidate_route x r s"
  have "slots_ok w (view ?s)" "getSession ?s c = Some x" using assms Some by (simp_all add: sd_view sd_same)
  then have "slots_ok w (view (drop_session c (snd (releaseActiveSlot (se_id x) ?s))))" by (rule release_and_drop_ok)
  then show ?thesis using Some by (simp add: abortUnownedRoute_def Let_def sd_view drop_tell)
qed (simp add: abortUnownedRoute_def assms)

lemma release_cong:
  assumes "view s' = view s"
  shows "view (snd (releaseActiveSlot e s')) = view (snd (releaseActiveSlot e s))"
  unfolding view_def release_fields view_same(1-4,7) [OF assms] ..

lemma teardown_ok:
  assumes "slots_ok w (view s)" and "getSession s (se_chatId x) = Some x"
  shows "slots_ok w (view (teardown_ends q x s))"
proof -
  have "view (tell RecomputeRuntime (drop_session (se_chatId x) (tell z s))) = view (drop_session (se_chatId x) s)" for z
    by (simp add: sd_view drop_tell)
  from release_cong [OF this] release_and_drop_ok(2) [OF assms] show ?thesis
    by (simp add: teardown_ends_def Let_def sd_view)
qed

lemma handleFailure_ok:
  assumes "slots_ok w (view s)" and "getSession s (se_chatId x) = Some x"
  shows "slots_ok w (view (snd (handleSessionFailure q x cls p m raw s)))"
proof -
  let ?e = "se_id x" and ?c = "se_chatId x"
  have retry: "slots_ok w (view (upd_session ?c (\<lambda>y. y\<lparr>se_status := SSuspended\<rparr>) (snd (releaseActiveSlot ?e s))))"
    by (rule release_and_suspend_ok [OF assms]) simp
  have stop: "slots_ok w (view (upd_session ?c (\<lambda>y. y\<lparr>se_status := SErrored\<rparr>) (clearRetryAttemptState ?e s)))"
    using assms by (intro upd_session_ok [where x = x]) (auto simp: sd_view sd_same)
  show ?thesis
    using retry stop by (simp add: handleSessionFailure_def Let_def sd_view split: retry_decision.split)
qed

section \<open>Retry flights\<close>

lemma retry_begins_ok:
  assumes "slots_ok w (view s)"
  shows "slots_ok w (view (retry_begins q c s))"
  using assms
  by (auto simp: retry_begins_def Let_def sd_view failSession_ok split: option.split)

lemma runRetry_ok: "slots_ok w (view s) \<Longrightarrow> slots_ok w (view (runRetry q c s))"
  by (simp add: runRetry_def retry_begins_ok)

lemma retry_replaces_view [sd_view]: "view (retry_replaces q c f s) = view s"
  by (simp add: retry_replaces_def sd_view split: option.split)

lemma retry_settled_view [sd_view]: "view (retry_settled q c f b s) = view s"
  by (simp add: retry_settled_def sd_view split: option.split)

lemma retry_stopped_view [sd_view]: "view (retry_stopped q c f b s) = view s"
  by (simp add: retry_stopped_def Let_def sd_view split: option.split)

lemma retry_installs_ok:
  assumes "slots_ok w (view s)" and "getSession s c = Some x" and "room w s"
  shows "slots_ok w (view (retry_installs q c f x h s))"
proof -
  let ?u = "tell (CreateHandler c h) s"
  let ?s = "claimActiveSlot (se_id x)
     (upd_session c (\<lambda>y. y\<lparr>se_handler := h, se_status := SActive, se_lastActivity := ev_now q\<rparr>) ?u)"
  have "slots_ok w (view ?u)" "getSession ?u c = Some x" "room w ?u"
    using assms by (simp_all add: sd_view sd_same)
  then have installed: "slots_ok w (view ?s)" by (rule install_old_ok) simp_all
  show ?thesis using installed
    by (auto simp: retry_installs_def Let_def sd_view failSession_ok split: option.split retry_route.split)
qed

lemma retry_authorized_ok:
  assumes "slots_ok w (view s)" and "ev_concurrency q = bg_limit w"
  shows "slots_ok w (view (retry_authorized q c f b h s))"
proof (cases "b \<and> retry_open q c f s \<and> getSession s c \<noteq> None")
  case True
  then obtain x where x: "getSession s c = Some x" by auto
  obtain ok s1 where 1: "acquireActiveSlot q c (fl_head f) DkRecovery False s = (ok, s1)"
    by (cases "acquireActiveSlot q c (fl_head f) DkRecovery False s")
  note e = acquire_ok [OF assms(1) 1 assms(2)]
  from True x 1 e retry_installs_ok [OF e(1), of c x] show ?thesis
    by (simp add: retry_authorized_def sd_view)
next
  case False
  with assms(1) show ?thesis by (auto simp: retry_authorized_def sd_view split: option.split)
qed

text \<open>A new provider session id does not move a slot.\<close>

lemma sessionId_ok:
  assumes "slots_ok w (view s)"
  shows "slots_ok w (view (upd_session c (\<lambda>y. y\<lparr>se_sessionId := sid\<rparr>) s))"
proof (cases "getSession s c")
  case (Some x)
  then show ?thesis by (intro upd_session_ok [OF assms Some]) auto
qed (simp add: upd_session_def assms)

lemma preserve_ok:
  "slots_ok w (view s) \<Longrightarrow> slots_ok w (view (preserveStaleProviderContinuation q c e m sid k s))"
  by (simp add: preserveStaleProviderContinuation_def Let_def sd_view sessionId_ok split: option.split)

lemma retry_returned_ok:
  assumes "slots_ok w (view s)"
  shows "slots_ok w (view (retry_returned q c f e b1 sid k b2 b3 s))"
  using assms
  by (auto simp: retry_returned_def Let_def sd_view sessionId_ok preserve_ok abort_ok split: option.split)

lemma retry_threw_ok:
  assumes "slots_ok w (view s)" and "getSession s c = Some x"
  shows "slots_ok w (view (retry_threw q c f x b cls raw s))"
proof -
  let ?s = "invalidate_route x ''session_retry_failed'' s"
  have "slots_ok w (view ?s)" using assms(1) by (simp add: sd_view)
  moreover have "getSession ?s (se_chatId x) = Some x"
    using assms slots_okD(2) [OF assms] by (simp add: sd_same)
  ultimately have "slots_ok w (view (snd (handleSessionFailure q x cls p m raw ?s)))" for p m
    by (rule handleFailure_ok)
  with \<open>slots_ok w (view ?s)\<close> show ?thesis
    by (simp add: retry_threw_def Let_def sd_view failSession_ok split_beta)
qed

lemma retry_routed_ok:
  assumes "slots_ok w (view s)"
  shows "slots_ok w (view (retry_routed q c f r s))"
  using assms
  by (auto simp: retry_routed_def sd_view retry_returned_ok retry_threw_ok split: option.split route_answer.split)

lemma same_session_Some: "same_session s c f = Some x \<Longrightarrow> getSession s c = Some x \<and> fl_entry f = Some (se_id x)"
  by (auto simp: same_session_def split: option.splits if_splits)

lemma retry_confirmed_view [sd_view]: "view (retry_confirmed q c f b s) = view s"
  by (simp add: retry_confirmed_def Let_def sd_view split: option.split)

lemma retry_torn_down_ok:
  assumes "slots_ok w (view s)"
  shows "slots_ok w (view (retry_torn_down q c f d s))"
proof (cases "same_session s c f")
  case (Some x)
  then have "getSession s c = Some x" using same_session_Some by blast
  with slots_okD(2) [OF assms this] have "getSession s (se_chatId x) = Some x" by simp
  from teardown_ok [OF assms this] assms Some show ?thesis
    by (simp add: retry_torn_down_def sd_view)
qed (simp add: retry_torn_down_def sd_view assms)

lemma trigger_ok: "slots_ok w (view s) \<Longrightarrow> slots_ok w (view (triggerImmediateRetry q c s))"
  by (simp add: triggerImmediateRetry_def runRetry_ok sd_view split: option.split)

lemma retry_timer_fires_ok: "slots_ok w (view s) \<Longrightarrow> slots_ok w (view (retry_timer_fires q i s))"
  by (simp add: retry_timer_fires_def Let_def runRetry_ok sd_view split: list.split)

lemma flight_step_ok:
  assumes "slots_ok w (view s)" and "ev_concurrency q = bg_limit w"
  shows "slots_ok w (view (flight_step q c a s))"
proof (cases "flight_of s c")
  case f: (Some f)
  note step = flight_step_def f option.case prod.case
  show ?thesis
  proof (cases "fl_phase f")
    case (PhAuthorize)
    show ?thesis unfolding step PhAuthorize
      using assms by (cases a) (simp_all add: retry_authorized_ok)
  next
    case (PhRoute h)
    show ?thesis unfolding step PhRoute using assms(1) by (cases a) (simp_all add: retry_routed_ok)
  next
    case (PhTeardown d)
    show ?thesis unfolding step PhTeardown using assms(1) by (cases a) (simp_all add: retry_torn_down_ok)
  qed (use f assms(1) in \<open>cases a; simp add: flight_step_def sd_view\<close>)+
qed (simp add: flight_step_def assms(1))

lemma on_session_ok:
  assumes "slots_ok w (view s)"
    and "\<And>x. getSession s c = Some x \<Longrightarrow> getSession s (se_chatId x) = Some x \<Longrightarrow> slots_ok w (view (g x))"
  shows "slots_ok w (view (on_session s c g))"
proof (cases "getSession s c")
  case (Some x)
  have "getSession s (se_chatId x) = Some x" unfolding slots_okD(2) [OF assms(1) Some] by (rule Some)
  from assms(2) [OF Some this] show ?thesis by (simp only: on_session_def Some option.case)
qed (simp add: on_session_def assms(1))

section \<open>Terminations and the shutdown\<close>

text \<open>What an event adds to the budget.\<close>

fun charged :: "sched_event \<Rightarrow> slot_budget \<Rightarrow> slot_budget" where
  "charged (SdTerminateReleases c True) w = w\<lparr>bg_ended := Suc (bg_ended w), bg_chats := insert c (bg_chats w)\<rparr>"
| "charged (SdShutdownEnds b) w = w\<lparr>bg_counts := False\<rparr>"
| "charged _ w = w"

lemma slots_ok_charged:
  assumes "slots_ok w v" shows "slots_ok (charged ev w) v"
proof -
  obtain h k ss a ts where v: "v = (h, k, ss, a, ts)" by (cases v)
  have le: "bg_chats w \<subseteq> bg_chats (charged ev w)" "bg_ended w \<le> bg_ended (charged ev w)"
    "bg_limit (charged ev w) = bg_limit w" "bg_counts (charged ev w) \<Longrightarrow> bg_counts w"
    by (cases "(ev, w)" rule: charged.cases; auto)+
  have "count_ok w v \<Longrightarrow> count_ok (charged ev w) v"
    using le(1-3) unfolding v count_ok.simps Let_def by (auto intro: le_trans)
  with assms le(4) show ?thesis by (auto simp: slots_ok_def)
qed

text \<open>The entry of a termination is the one the session of its chat has, if it has not left the map.\<close>

lemma terms_ok:
  assumes ok: "slots_ok w (view s)"
    and own: "\<And>e. tm_entry t = Some e \<Longrightarrow> e \<in> known s \<and> (\<forall>c' x. getSession s c' = Some x \<longrightarrow> se_id x = e \<longrightarrow> c' = c)"
  shows "slots_ok w (view (set_terminating c t ph s))"
proof -
  have "view (set_terminating c t ph s) = (heldset s, known s, sc_sessions s, sc_active s,
      js_set (sc_terminations s) c (t\<lparr>tm_phase := ph\<rparr>))"
    by (simp add: view_def set_terminating_def heldset_def known_def isActiveSlotHeld_def peekSlot_def)
  with assms show ?thesis
    unfolding slots_ok_def view_def sessions_ok.simps count_ok.simps getSession_def by auto
qed

lemma kept_terms_ok:
  assumes ok: "slots_ok w (view s)" and t: "termination_of s c = Some t"
  shows "slots_ok w (view (set_terminating c t ph s))" "slots_ok w (view (terminate_fails c s))"
proof -
  show "slots_ok w (view (set_terminating c t ph s))"
    using slots_okD(5,6) [OF ok t] by (intro terms_ok [OF ok]) blast
  have "view (terminate_fails c s) = (heldset s, known s, sc_sessions s, sc_active s, js_delete (sc_terminations s) c)"
    by (simp add: view_def terminate_fails_def heldset_def known_def isActiveSlotHeld_def peekSlot_def)
  with ok show "slots_ok w (view (terminate_fails c s))"
    unfolding slots_ok_def view_def sessions_ok.simps count_ok.simps by (auto split: if_splits)
qed

lemma terminate_begins_ok:
  assumes ok: "slots_ok w (view s)"
  shows "slots_ok w (view (terminate_begins c s))"
proof (cases "termination_of s c")
  case None
  let ?u = "case getSession s c of None \<Rightarrow> invalidateDeliveryAdmission c s
     | Some x \<Rightarrow> invalidate_route x ''session_terminated'' (cancelRetryTimer (se_id x) (invalidateDeliveryAdmission c s))"
  have u: "view ?u = view s" by (simp add: sd_view split: option.split)
  have "slots_ok w (view ?u)" using ok by (simp only: u)
  moreover have "e \<in> known ?u \<and> (\<forall>c' y. getSession ?u c' = Some y \<longrightarrow> se_id y = e \<longrightarrow> c' = c)"
    if "map_option se_id (getSession s c) = Some e" for e
    using that slots_okD(3,4) [OF ok] unfolding view_same [OF u] by auto
  ultimately have "slots_ok w (view (set_terminating c \<lparr>tm_entry = map_option se_id (getSession s c), tm_phase = TpSuspending\<rparr>
      TpSuspending ?u))" by (intro terms_ok) simp_all
  with None show ?thesis by (simp add: terminate_begins_def Let_def)
qed (simp add: terminate_begins_def ok)

lemma release_charged:
  assumes ok: "slots_ok w (view s)" and t: "termination_of s c = Some t" "tm_entry t = Some e"
  shows "slots_ok (charged (SdTerminateReleases c True) w) (view (snd (releaseActiveSlot e s)))"
proof -
  let ?s = "snd (releaseActiveSlot e s)" and ?w = "charged (SdTerminateReleases c True) w"
  have R: "running ?s = running s" by (simp add: running_def release_fields)
  have terms: "termination_of ?s d = termination_of s d" for d by (simp add: termination_of_def release_fields)
  have "sessions_ok (view ?s)"
    using ok unfolding slots_ok_def sessions_ok_iff release_fields terms by blast
  moreover have "count_ok ?w (view ?s)" if "bg_counts w"
  proof -
    note C = slots_okD(7) [OF ok that, unfolded count_ok_iff]
    have "card (running s - (heldset s - {e})) \<le> card (insert e (running s - heldset s))"
      using finite_running by (intro card_mono) auto
    also have "\<dots> \<le> Suc (card (running s - heldset s))" using finite_running by (simp add: card_insert_if)
    finally have "card (running s - (heldset s - {e})) \<le> Suc (bg_ended w)" using C by linarith
    moreover have "card (heldset s - {e} \<union> running s) \<le> card (heldset s \<union> running s)"
      using C finite_running by (intro card_mono) auto
    moreover have "se_id x \<in> heldset s - {e} \<or> d \<in> insert c (bg_chats w)" if "getSession s d = Some x" "se_status x = SActive" for d x
      using C that slots_okD(6) [OF ok t that(1)] by blast
    ultimately show ?thesis
      using C unfolding count_ok_iff release_fields R by (auto simp: card_Diff_singleton)
  qed
  ultimately show ?thesis by (simp add: slots_ok_def)
qed

lemma terminate_releases_ok:
  assumes ok: "slots_ok w (view s)"
  shows "slots_ok (charged (SdTerminateReleases c b) w) (view (terminate_releases c b s))"
proof (cases "termination_of s c")
  case (Some t)
  let ?w = "charged (SdTerminateReleases c b) w"
  have same: "slots_ok ?w (view s)" by (rule slots_ok_charged [OF ok])
  show ?thesis
  proof (cases "tm_phase t = TpSuspending \<and> b")
    case True
    let ?u = "case tm_entry t of None \<Rightarrow> s | Some e \<Rightarrow> snd (releaseActiveSlot e s)"
    have "slots_ok ?w (view ?u)"
      using release_charged [OF ok Some] same True by (cases "tm_entry t") simp_all
    moreover have "termination_of ?u c = Some t"
      using Some by (simp add: termination_of_def release_fields split: option.split)
    ultimately have "slots_ok ?w (view (set_terminating c t TpStopping ?u))" by (rule kept_terms_ok)
    with Some True show ?thesis by (simp add: terminate_releases_def)
  qed (use Some kept_terms_ok(2) [OF same Some] same in \<open>auto simp: terminate_releases_def\<close>)
qed (use slots_ok_charged [OF ok] in \<open>simp add: terminate_releases_def\<close>)

lemma forget_session_ok:
  assumes ok: "slots_ok w (view s)"
  shows "slots_ok w (view (s\<lparr>sc_sessions := js_delete (sc_sessions s) c\<rparr>))"
proof -
  have "view (s\<lparr>sc_sessions := js_delete (sc_sessions s) c\<rparr>) = view (drop_session c s)"
    by (simp add: drop_session_def tell_def view_def heldset_def known_def isActiveSlotHeld_def peekSlot_def)
  moreover have "slots_ok w (view (drop_session c s))"
    by (rule slots_shrink [OF ok, where E = "{}"])
      (auto simp: drop_session_fields slots_okD(1) [OF ok] split: if_splits)
  ultimately show ?thesis by simp
qed

lemma terminate_forgets_ok:
  assumes ok: "slots_ok w (view s)"
  shows "slots_ok w (view (terminate_forgets c b s))"
proof (cases "termination_of s c")
  case (Some t)
  let ?f = "(tell (ForgetChat c) s)\<lparr>sc_sessions := js_delete (sc_sessions s) c\<rparr>"
  let ?u = "tell (DrainForTerminate c) (clearPendingQueueForChat c ?f)"
  have "slots_ok w (view (tell (ForgetChat c) s))" using ok by (simp add: sd_view)
  from forget_session_ok [OF this, of c] have "slots_ok w (view ?u)" by (simp add: sd_view) (simp add: tell_def)
  moreover have "termination_of ?u c = Some t"
    using Some by (simp add: termination_of_def tell_def clearPendingQueueForChat_def)
  ultimately have "slots_ok w (view (set_terminating c t TpDraining ?u))" by (rule kept_terms_ok)
  with Some kept_terms_ok(2) [OF ok Some] ok show ?thesis by (simp add: terminate_forgets_def)
qed (simp add: terminate_forgets_def ok)

lemma terminate_ends_ok:
  assumes ok: "slots_ok w (view s)"
  shows "slots_ok w (view (terminate_ends q c b s))"
proof (cases "termination_of s c")
  case (Some t)
  let ?u = "tell (FlushRegistry c) (tell RecomputeRuntime s)"
  let ?v = "if b then drainPendingQueue q ?u else ?u"
  have v: "view ?v = view s" by (simp add: sd_view)
  have "slots_ok w (view ?v)" "termination_of ?v c = Some t"
    using ok Some view_same(7) [OF v] by (simp_all only: v termination_of_def)
  from kept_terms_ok(2) [OF this] Some ok show ?thesis by (simp add: terminate_ends_def Let_def)
qed (simp add: terminate_ends_def ok)

lemma shutdown_views [sd_view]: "view (shutdown_begins s) = view s" "view (shutdown_routes r s) = view s"
proof -
  have "view (foldl (\<lambda>s x. invalidateDeliveryAdmission (se_chatId x) s) u xs) = view u" for u and xs :: "sched_session list"
    by (induction xs arbitrary: u) (simp_all add: sd_view)
  moreover have "view (foldl (\<lambda>s x. invalidate_route x r s) u xs) = view u" for u xs
    by (induction xs arbitrary: u) (simp_all add: sd_view)
  ultimately show "view (shutdown_begins s) = view s" "view (shutdown_routes r s) = view s"
    by (simp_all add: shutdown_begins_def shutdown_routes_def Let_def sd_view)
qed

lemma shutdown_ends_ok:
  assumes ok: "slots_ok w (view s)"
  shows "slots_ok (charged (SdShutdownEnds b) w) (view (shutdown_ends b s))"
proof -
  let ?told = "\<lambda>s. foldl (\<lambda>s (c, x). tell (NotifyState c SSuspended) (tell (ClearActiveRuntime c) s)) s"
  have told: "view (?told u xs) = view u" for u and xs :: "(string \<times> sched_session) list"
    by (induction xs arbitrary: u) (simp_all add: sd_view split_beta)
  let ?u = "tell PersistRegistry (if b then ?told s (filter (\<lambda>(c, x). se_status x = SActive) (sc_sessions s)) else s)"
  have u: "view ?u = view s" by (simp add: sd_view told)
  have "known (shutdown_ends b s) = known ?u" "sc_terminations (shutdown_ends b s) = sc_terminations ?u"
    by (simp_all add: shutdown_ends_def Let_def known_def peekSlot_def resetActiveCount_def)
  moreover have "sc_sessions (shutdown_ends b s) = []" by (simp add: shutdown_ends_def Let_def resetActiveCount_def)
  ultimately have "sessions_ok (view (shutdown_ends b s))"
    using ok unfolding slots_ok_def sessions_ok_iff getSession_def termination_of_def view_same [OF u] by auto
  then show ?thesis by (simp add: slots_ok_def)
qed

lemma sched_step_slots:
  assumes "slots_ok w (view s)" and "ev_concurrency (fst qe) = bg_limit w"
  shows "slots_ok (charged (snd qe) w) (view (sched_step s qe))"
proof -
  obtain q e where qe: "qe = (q, e)" by (cases qe)
  have ok: "slots_ok w (view s)" using assms(1) .
  have N: "ev_concurrency q = bg_limit w" using assms(2) qe by simp
  have "slots_ok (charged e w) (view (sched_step s (q, e)))"
  proof (cases e)
    case (SdRouteFailed c p cls m raw)
    have "slots_ok w (view (snd (handleSessionFailure q x cls p m raw (invalidate_route x ''session_route_failed'' s))))"
      if "getSession s (se_chatId x) = Some x" for x
      using ok that by (intro handleFailure_ok) (simp_all add: sd_view sd_same)
    with SdRouteFailed ok show ?thesis by (auto intro: on_session_ok)
  next
    case (SdTeardown c)
    have "slots_ok w (view (teardown_ends q x (clearRetryState (se_id x) (invalidate_route x ''session_terminal_failure'' s))))"
      if "getSession s (se_chatId x) = Some x" for x
      using ok that by (intro teardown_ok) (simp_all add: sd_view sd_same)
    with SdTeardown ok show ?thesis by (auto intro: on_session_ok)
  next
    case (SdTerminateReleases c b)
    then show ?thesis using terminate_releases_ok [OF ok, of c b] by simp
  next
    case (SdShutdownEnds b)
    then show ?thesis using shutdown_ends_ok [OF ok, of b] by simp
  next
    case SdEvict
    then show ?thesis using evictIfNeeded_ok(1) [OF ok] by (cases "evictIfNeeded q None DkFresh s") auto
  qed (use ok N in \<open>auto intro: on_session_ok startNewSession_ok resumeSession_ok suspend_ok evict_idle_ok
        failSession_ok proof_ok retirement_ok abort_ok retry_timer_fires_ok trigger_ok flight_step_ok
        terminate_begins_ok terminate_forgets_ok terminate_ends_ok simp: sd_view\<close>)
  then show ?thesis by (simp add: qe)
qed

end
