(* ===== verification/SlotTimers.thy ===== *)
theory SlotTimers
  imports SlotLemmas
begin

text \<open>
  The retry timers of the scheduler: every live timer is the one its entry remembers, so that it can be
  cleared, and an entry has at most one.
\<close>

section \<open>Tracked timers\<close>

definition timers_ok :: "sched \<Rightarrow> bool" where
  "timers_ok s \<longleftrightarrow>
     (\<forall>t \<in> set (sc_timers s). timer_of s (lt_entry t) = Some (lt_id t) \<and> lt_id t < sc_nextTimer s) \<and>
     (\<forall>e i. timer_of s e = Some i \<longrightarrow> (\<exists>t \<in> set (sc_timers s). lt_id t = i \<and> lt_entry t = e)) \<and>
     distinct (map lt_id (sc_timers s))"

lemma timers_okD:
  assumes "timers_ok s"
  shows "t \<in> set (sc_timers s) \<Longrightarrow> timer_of s (lt_entry t) = Some (lt_id t)"
    "t \<in> set (sc_timers s) \<Longrightarrow> lt_id t < sc_nextTimer s"
    "timer_of s e = Some i \<Longrightarrow> \<exists>t \<in> set (sc_timers s). lt_id t = i \<and> lt_entry t = e"
    "distinct (map lt_id (sc_timers s))"
  using assms by (auto simp: timers_ok_def)

lemma timers_id_entry:
  assumes "timers_ok s" and "t \<in> set (sc_timers s)" and "timer_of s e = Some i"
  shows "lt_id t = i \<longleftrightarrow> lt_entry t = e"
proof
  assume "lt_id t = i"
  from timers_okD(3) [OF assms(1,3)] obtain u where u: "u \<in> set (sc_timers s)" "lt_id u = i" "lt_entry u = e" by blast
  then have "t = u" using timers_okD(4) [OF assms(1)] assms(2) \<open>lt_id t = i\<close> by (auto simp: distinct_map inj_on_def)
  with u show "lt_entry t = e" by simp
next
  assume "lt_entry t = e"
  with timers_okD(1) [OF assms(1,2)] assms(3) show "lt_id t = i" by simp
qed

lemma cleared_timers:
  assumes "timers_ok s"
  shows "sc_timers (clearTimeout (timer_of s e) s) = filter (\<lambda>t. lt_entry t \<noteq> e) (sc_timers s)"
proof (cases "timer_of s e")
  case None
  have "lt_entry t \<noteq> e" if "t \<in> set (sc_timers s)" for t using timers_okD(1) [OF assms that] None by auto
  then have "filter (\<lambda>t. lt_entry t \<noteq> e) (sc_timers s) = sc_timers s" by (simp add: filter_id_conv)
  with None show ?thesis by (simp add: clearTimeout_def)
next
  case (Some i)
  have "filter (\<lambda>t. lt_id t \<noteq> i) (sc_timers s) = filter (\<lambda>t. lt_entry t \<noteq> e) (sc_timers s)"
    by (rule filter_cong) (simp_all add: timers_id_entry [OF assms _ Some])
  with Some show ?thesis by (simp add: clearTimeout_def)
qed

text \<open>The timer of one entry is cleared, and perhaps a new one armed.\<close>

lemma retime_ok:
  assumes ok: "timers_ok s"
    and ts: "sc_timers s' = filter (\<lambda>t. lt_entry t \<noteq> e) (sc_timers s) @ new"
    and tof: "timer_of s' = (timer_of s)(e := map_option lt_id (case new of [] \<Rightarrow> None | t # _ \<Rightarrow> Some t))"
    and new: "new = [] \<or> (\<exists>t. new = [t] \<and> lt_entry t = e \<and> lt_id t = sc_nextTimer s)"
    and nt: "sc_nextTimer s' = sc_nextTimer s + length new"
  shows "timers_ok s'"
proof -
  have old: "timer_of s (lt_entry t) = Some (lt_id t) \<and> lt_id t < sc_nextTimer s" if "t \<in> set (sc_timers s)" for t
    using timers_okD(1,2) [OF ok that] by simp
  have d: "distinct (map lt_id (filter (\<lambda>t. lt_entry t \<noteq> e) (sc_timers s)))"
    using timers_okD(4) [OF ok] by (simp add: distinct_map_filter)
  have tracked: "\<exists>t \<in> set (sc_timers s'). lt_id t = i \<and> lt_entry t = e'" if "timer_of s' e' = Some i" for e' i
  proof (cases "e' = e")
    case True
    with that tof new show ?thesis by (auto simp: ts)
  next
    case False
    with that tof have "timer_of s e' = Some i" by simp
    from timers_okD(3) [OF ok this] False show ?thesis by (auto simp: ts)
  qed
  from new show ?thesis
  proof
    assume "new = []"
    with old d tracked show ?thesis unfolding timers_ok_def by (auto simp: ts tof nt)
  next
    assume "\<exists>t. new = [t] \<and> lt_entry t = e \<and> lt_id t = sc_nextTimer s"
    then obtain t where t: "new = [t]" "lt_entry t = e" "lt_id t = sc_nextTimer s" by blast
    have "sc_nextTimer s \<notin> lt_id ` {t \<in> set (sc_timers s). lt_entry t \<noteq> e}"
      using old by (metis (mono_tags, lifting) imageE less_irrefl mem_Collect_eq)
    with t old d tracked show ?thesis unfolding timers_ok_def by (auto simp: ts tof nt less_SucI)
  qed
qed

lemma timers_cong:
  "sc_timers s' = sc_timers s \<Longrightarrow> timer_of s' = timer_of s \<Longrightarrow> sc_nextTimer s' = sc_nextTimer s \<Longrightarrow>
     timers_ok s' = timers_ok s"
  by (simp add: timers_ok_def)

named_theorems sd_timers \<open>operations that keep the timers tracked\<close>

lemma timer_of_slots: "sc_slots s' = sc_slots s \<Longrightarrow> timer_of s' = timer_of s"
  by (rule ext) (simp add: timer_of_def peekSlot_def)

lemma timers_fields [sd_timers]:
  "timers_ok (tell x s) = timers_ok s" "timers_ok (sc_admissions_update f1 s) = timers_ok s"
  "timers_ok (sc_queue_update f2 s) = timers_ok s" "timers_ok (sc_idle_update f3 s) = timers_ok s"
  "timers_ok (sc_flights_update f4 s) = timers_ok s" "timers_ok (sc_transitions_update f5 s) = timers_ok s"
  "timers_ok (sc_sessions_update f6 s) = timers_ok s" "timers_ok (sc_active_update f7 s) = timers_ok s"
  "timers_ok (invalidateDeliveryAdmission c s) = timers_ok s" "timers_ok (invalidate_route y r s) = timers_ok s"
  "timers_ok (queueForSlot c m k r s) = timers_ok s" "timers_ok (clearPendingQueueForChat c s) = timers_ok s"
  "timers_ok (begin_route e h p s) = timers_ok s" "timers_ok (set_flight c f s) = timers_ok s"
  "timers_ok (set_phase c f ph s) = timers_ok s" "timers_ok (flight_ends c s) = timers_ok s"
  "timers_ok (dispatch_failed pm s) = timers_ok s" "timers_ok (stopIdleEviction s) = timers_ok s"
  "timers_ok (upd_session c g s) = timers_ok s" "timers_ok (drop_session c s) = timers_ok s"
  "timers_ok (sc_retirements_update f8 s) = timers_ok s" "timers_ok (sc_terminations_update f9 s) = timers_ok s"
  "timers_ok (snd (deferProviderRetirement q y act s)) = timers_ok s" "timers_ok (set_terminating c t tp s) = timers_ok s"
  "timers_ok (terminate_fails c s) = timers_ok s" "timers_ok (resetActiveCount s) = timers_ok s"
  by (rule timers_cong; (rule timer_of_slots)?; simp add: tell_def invalidateDeliveryAdmission_def invalidate_route_def
      queueForSlot_def clearPendingQueueForChat_def begin_route_def set_flight_def set_phase_def flight_ends_def
      dispatch_failed_def stopIdleEviction_def upd_session_def drop_session_def deferProviderRetirement_def
      set_terminating_def terminate_fails_def resetActiveCount_def Let_def split: option.split)+

lemma timer_of_upd: "timer_of (upd_slot e f s) e' =
    (if e' = e then Option.bind (peekSlot s e) (\<lambda>x. sl_timer (f x)) else timer_of s e')"
  by (auto simp: timer_of_def upd_slot_def peekSlot_def split: option.split)

lemma upd_slot_timers: "sc_timers (upd_slot e f s) = sc_timers s" "sc_nextTimer (upd_slot e f s) = sc_nextTimer s"
  by (simp_all add: upd_slot_def split: option.split)

lemma timers_upd_slot [sd_timers]:
  assumes "\<And>x. sl_timer (f x) = sl_timer x"
  shows "timers_ok (upd_slot e f s) = timers_ok s"
proof (rule timers_cong)
  show "timer_of (upd_slot e f s) = timer_of s"
    using assms by (auto simp: fun_eq_iff timer_of_def upd_slot_def peekSlot_def split: option.split)
qed (simp_all add: upd_slot_timers)

lemma clear_timeout_fields:
  "peekSlot (clearTimeout t s) e = peekSlot s e" "timer_of (clearTimeout t s) = timer_of s"
  "sc_nextTimer (clearTimeout t s) = sc_nextTimer s"
  by (auto simp: clearTimeout_def peekSlot_def timer_of_def fun_eq_iff split: option.split)

text \<open>Clearing the timer of an entry and forgetting it.\<close>

lemma forget_timer_ok:
  assumes "timers_ok s" and "\<And>x. sl_timer (f x) = None"
  shows "timers_ok (upd_slot e f (clearTimeout (timer_of s e) s))"
proof (rule retime_ok [OF assms(1), where e = e and new = "[]"])
  show "timer_of (upd_slot e f (clearTimeout (timer_of s e) s)) = (timer_of s)
     (e := map_option lt_id (case [] of [] \<Rightarrow> None | t # _ \<Rightarrow> Some t))"
    using assms(2) by (auto simp: fun_eq_iff timer_of_upd clear_timeout_fields split: bind_splits)
qed (simp_all add: upd_slot_timers cleared_timers [OF assms(1)] clear_timeout_fields)

lemma timers_cancel [sd_timers]:
  "timers_ok s \<Longrightarrow> timers_ok (cancelRetryTimer e s)" "timers_ok s \<Longrightarrow> timers_ok (clearRetryAttemptState e s)"
  by (simp_all add: cancelRetryTimer_def clearRetryAttemptState_def forget_timer_ok)

lemma timers_attach [sd_timers]:
  assumes "timers_ok s"
  shows "timers_ok (attachLiveSlot e r s)"
proof (rule retime_ok [OF assms, where e = e and new = "[]"])
  show "timer_of (attachLiveSlot e r s) = (timer_of s)(e := map_option lt_id (case [] of [] \<Rightarrow> None | t # _ \<Rightarrow> Some t))"
    by (auto simp: fun_eq_iff attachLiveSlot_def timer_of_def peekSlot_def emptySlotState_def Let_def clearTimeout_def
        split: option.split)
  have "sc_timers (attachLiveSlot e r s) = sc_timers (clearTimeout (timer_of s e) s)" by (simp add: attachLiveSlot_def Let_def)
  then show "sc_timers (attachLiveSlot e r s) = filter (\<lambda>t. lt_entry t \<noteq> e) (sc_timers s) @ []"
    by (simp add: cleared_timers [OF assms])
  show "sc_nextTimer (attachLiveSlot e r s) = sc_nextTimer s + length []"
    by (simp add: attachLiveSlot_def Let_def clear_timeout_fields)
qed simp

lemma arm_ok:
  assumes "timers_ok s" and "peekSlot u e \<noteq> None"
    and "sc_timers u = filter (\<lambda>t. lt_entry t \<noteq> e) (sc_timers s)" "sc_nextTimer u = sc_nextTimer s"
    and "\<And>e'. e' \<noteq> e \<Longrightarrow> timer_of u e' = timer_of s e'"
  shows "timers_ok (arm_timer q c e d u)"
proof (rule retime_ok [OF assms(1), where e = e and new =
    "[\<lparr>lt_id = sc_nextTimer s, lt_entry = e, lt_chat = c, lt_delay = timer_delay d\<rparr>]"])
  obtain x where "peekSlot u e = Some x" using assms(2) by auto
  then show "timer_of (arm_timer q c e d u) = (timer_of s)(e := map_option lt_id (case
      [\<lparr>lt_id = sc_nextTimer s, lt_entry = e, lt_chat = c, lt_delay = timer_delay d\<rparr>] of [] \<Rightarrow> None | t # _ \<Rightarrow> Some t))"
    using assms(4,5)
    by (auto simp: fun_eq_iff arm_timer_def setTimeout_def timer_of_upd) (auto simp: timer_of_def peekSlot_def)
qed (simp_all add: arm_timer_def setTimeout_def upd_slot_timers assms(3,4))

lemma timers_schedule [sd_timers]:
  assumes "timers_ok s"
  shows "timers_ok (scheduleTransientRetry q x m a r cat sc raw d s)"
proof (cases "peekSlot s (se_id x)")
  case (Some y)
  let ?e = "se_id x"
  let ?u = "upd_slot ?e (\<lambda>y. y\<lparr>sl_head := m, sl_attempt := a, sl_reason := Some r, sl_category := Some cat,
              sl_scope := Some sc, sl_rawError := raw\<rparr>) s"
  have u: "timers_ok ?u" using assms by (simp add: sd_timers)
  have peek: "peekSlot ?u ?e \<noteq> None" using Some by (simp add: peekSlot_def upd_slot_def)
  have "timers_ok (arm_timer q (se_chatId x) ?e d (clearTimeout (timer_of ?u ?e) ?u))"
    using peek by (intro arm_ok [OF u]) (auto simp: clear_timeout_fields cleared_timers [OF u])
  with Some show ?thesis by (simp add: scheduleTransientRetry_def Let_def)
qed (simp add: scheduleTransientRetry_def assms)

lemma timers_rearm [sd_timers]:
  assumes "timers_ok s"
  shows "timers_ok (rearmRetryTimer q c e d s)"
proof (cases "rearmRetryTimer q c e d s = s")
  case False
  then obtain x where x: "getSession s c = Some x" "se_id x = e" "isRetryEligible s x" "timer_of s e = None"
    and r: "rearmRetryTimer q c e d s = arm_timer q c e d s"
    by (auto simp: rearmRetryTimer_def split: option.splits if_splits)
  have "peekSlot s e \<noteq> None" using x(2,3) by (auto simp: isRetryEligible_def split: option.splits)
  moreover have "sc_timers s = filter (\<lambda>t. lt_entry t \<noteq> e) (sc_timers s)"
    using cleared_timers [OF assms, of e] x(4) by (simp add: clearTimeout_def)
  ultimately show ?thesis unfolding r by (intro arm_ok [OF assms]) simp_all
qed (simp add: assms)

lemma timers_slots [sd_timers]:
  "timers_ok (snd (releaseActiveSlot e s)) = timers_ok s" "timers_ok (claimActiveSlot e s) = timers_ok s"
  "timers_ok (clearDeferredMessages e s) = timers_ok s" "timers_ok (deferMessage e msg s) = timers_ok s"
  "timers_ok (snd (takeDeferredMessages e s)) = timers_ok s" "timers_ok s \<Longrightarrow> timers_ok (clearRetryState e s)"
  by (simp_all add: releaseActiveSlot_def claimActiveSlot_def clearDeferredMessages_def deferMessage_def
      takeDeferredMessages_def clearRetryState_def sd_timers)

section \<open>Timers through the operations\<close>

lemma timers_drain [sd_timers]: "timers_ok (drainPendingQueue q s) = timers_ok s"
proof (induction q s rule: drainPendingQueue.induct)
  case (1 q s)
  show ?case using 1 by (subst drainPendingQueue.simps) (auto simp: Let_def sd_timers split: option.split)
qed

lemma timers_suspend [sd_timers]: "timers_ok s \<Longrightarrow> timers_ok (suspend_session q x r a d s)"
  by (simp add: suspend_session_def Let_def sd_timers split: option.split route_phase.split)

lemma timers_acquire [sd_timers]: "timers_ok s \<Longrightarrow> timers_ok (snd (acquireActiveSlot q c m k b s))"
  by (auto simp: acquireActiveSlot_def sd_timers split: option.split victim_kind.split)

lemma timers_evict [sd_timers]:
  "timers_ok s \<Longrightarrow> timers_ok (evict_session x s)" "timers_ok s \<Longrightarrow> timers_ok (snd (evictIfNeeded q r k s))"
  by (auto simp: evict_session_def evictIfNeeded_def Let_def sd_timers split: option.split)

lemma timers_idle [sd_timers]: "timers_ok s \<Longrightarrow> timers_ok (evictIdle q s)"
proof -
  have one: "timers_ok (evict_idle_one q s c)" if "timers_ok s" for s c
    using that by (simp add: evict_idle_one_def Let_def sd_timers split: option.split)
  assume "timers_ok s"
  then have "timers_ok (foldl (evict_idle_one q) s cs)" for cs
    by (induction cs arbitrary: s) (simp_all add: one)
  then show ?thesis by (simp add: evictIdle_def)
qed

lemma timers_cancel_all [sd_timers]: "timers_ok s \<Longrightarrow> timers_ok (cancelAllRetryTimers s)"
proof -
  assume "timers_ok s"
  then have "timers_ok (foldl (\<lambda>s x. cancelRetryTimer (se_id (snd x)) s) s xs)" for xs :: "(string \<times> sched_session) list"
    by (induction xs arbitrary: s) (simp_all add: sd_timers)
  then show ?thesis by (simp add: cancelAllRetryTimers_def)
qed

lemma timers_start [sd_timers]: "timers_ok s \<Longrightarrow> timers_ok (startNewSession q c e h r m k s)"
  using timers_evict(2) [of s q "Some (c, m)" k] timers_acquire [of _ q c "Some m" k True]
  by (auto simp: startNewSession_def Let_def split_beta sd_timers)

lemma timers_resume [sd_timers]: "timers_ok s \<Longrightarrow> timers_ok (resumeSession q c m k h s)"
  using timers_acquire [of s q c m "if m = None then DkControl else k" True]
  by (auto simp: resumeSession_def Let_def split_beta sd_timers split: option.split)

lemma timers_retire_now [sd_timers]: "timers_ok s \<Longrightarrow> timers_ok (retire_now q c act s)"
  by (simp add: retire_now_def failSessionForRecoveryNow_def fenceSessionForRuntimeSessionProofRecoveryNow_def Let_def sd_timers
      del: append_Cons append.simps split: option.split retire_action.split)

lemma timers_retire [sd_timers]:
  "timers_ok s \<Longrightarrow> timers_ok (retire_session q c act s)" "timers_ok s \<Longrightarrow> timers_ok (retirement_settles q c s)"
  by (simp_all add: retire_session_def retirement_settles_def Let_def split_beta sd_timers split: option.split)

lemma timers_terminate [sd_timers]:
  "timers_ok s \<Longrightarrow> timers_ok (terminate_begins c s)" "timers_ok s \<Longrightarrow> timers_ok (terminate_releases c b s)"
  "timers_ok s \<Longrightarrow> timers_ok (terminate_forgets c b s)" "timers_ok s \<Longrightarrow> timers_ok (terminate_ends q c b s)"
  by (simp_all add: terminate_begins_def terminate_releases_def terminate_forgets_def terminate_ends_def Let_def sd_timers
      split: option.split)

lemma timers_shutdown [sd_timers]:
  "timers_ok s \<Longrightarrow> timers_ok (shutdown_begins s)" "timers_ok s \<Longrightarrow> timers_ok (shutdown_routes r s)"
  "timers_ok s \<Longrightarrow> timers_ok (shutdown_ends b s)"
proof -
  assume ok: "timers_ok s"
  have 1: "timers_ok (foldl (\<lambda>s x. invalidateDeliveryAdmission (se_chatId x) s) u xs) = timers_ok u"
    for u and xs :: "sched_session list"
    by (induction xs arbitrary: u) (simp_all add: sd_timers)
  have 2: "timers_ok (foldl (\<lambda>s x. invalidate_route x r s) u xs) = timers_ok u" for u xs
    by (induction xs arbitrary: u) (simp_all add: sd_timers)
  have 3: "timers_ok (foldl (\<lambda>s (c, x). tell (NotifyState c SSuspended) (tell (ClearActiveRuntime c) s)) u xs) = timers_ok u"
    for u and xs :: "(string \<times> sched_session) list"
    by (induction xs arbitrary: u) (simp_all add: sd_timers split_beta)
  show "timers_ok (shutdown_begins s)" "timers_ok (shutdown_routes r s)" "timers_ok (shutdown_ends b s)"
    using ok by (simp_all add: shutdown_begins_def shutdown_routes_def shutdown_ends_def Let_def sd_timers 1 2 3)
qed

lemma timers_end [sd_timers]:
  "timers_ok s \<Longrightarrow> timers_ok (failSessionForRecovery q c r sid k s)"
  "timers_ok s \<Longrightarrow> timers_ok (fenceSessionForRuntimeSessionProofRecovery q c code s)" "timers_ok s \<Longrightarrow> timers_ok (abortUnownedRoute q c r s)"
  "timers_ok s \<Longrightarrow> timers_ok (teardown_ends q x s)"
  by (simp_all add: failSessionForRecovery_def fenceSessionForRuntimeSessionProofRecovery_def abortUnownedRoute_def teardown_ends_def Let_def sd_timers split: option.split)

lemma timers_failure [sd_timers]: "timers_ok s \<Longrightarrow> timers_ok (snd (handleSessionFailure q x cls p m raw s))"
  by (simp add: handleSessionFailure_def Let_def sd_timers split: retry_decision.split)

lemma timers_flight [sd_timers]:
  "timers_ok s \<Longrightarrow> timers_ok (rearm_and_end q c f s)" "timers_ok s \<Longrightarrow> timers_ok (retry_begins q c s)"
  "timers_ok s \<Longrightarrow> timers_ok (retry_recovered c f b s)" "timers_ok s \<Longrightarrow> timers_ok (retry_replaces q c f s)"
  by (auto simp: rearm_and_end_def retry_begins_def retry_recovered_def retry_replaces_def Let_def sd_timers
      split: option.split)

lemma timers_run [sd_timers]: "timers_ok s \<Longrightarrow> timers_ok (runRetry q c s)"
  by (simp add: runRetry_def sd_timers)

lemma timers_settled [sd_timers]:
  "timers_ok s \<Longrightarrow> timers_ok (retry_settled q c f b s)" "timers_ok s \<Longrightarrow> timers_ok (retry_stopped q c f b s)"
  by (auto simp: retry_settled_def retry_stopped_def Let_def sd_timers split: option.split)

lemma timers_installs [sd_timers]: "timers_ok s \<Longrightarrow> timers_ok (retry_installs q c f x h s)"
  by (auto simp: retry_installs_def Let_def sd_timers split: option.split retry_route.split)

lemma timers_authorized [sd_timers]: "timers_ok s \<Longrightarrow> timers_ok (retry_authorized q c f b h s)"
  using timers_acquire [of s q c "fl_head f" DkRecovery False]
  by (auto simp: retry_authorized_def Let_def split_beta sd_timers split: option.split)

lemma timers_returned [sd_timers]: "timers_ok s \<Longrightarrow> timers_ok (retry_returned q c f e b1 sid k b2 b3 s)"
  by (auto simp: retry_returned_def preserveStaleProviderContinuation_def Let_def sd_timers split: option.split)

lemma timers_threw [sd_timers]: "timers_ok s \<Longrightarrow> timers_ok (retry_threw q c f x b cls raw s)"
  by (auto simp: retry_threw_def Let_def split_beta sd_timers)

lemma timers_routed [sd_timers]:
  "timers_ok s \<Longrightarrow> timers_ok (retry_routed q c f r s)" "timers_ok s \<Longrightarrow> timers_ok (retry_confirmed q c f b s)"
  "timers_ok s \<Longrightarrow> timers_ok (retry_torn_down q c f d s)" "timers_ok s \<Longrightarrow> timers_ok (triggerImmediateRetry q c s)"
  by (auto simp: retry_routed_def retry_confirmed_def retry_torn_down_def triggerImmediateRetry_def Let_def sd_timers
      split: option.split route_answer.split)

lemma timers_fire [sd_timers]:
  assumes "timers_ok s"
  shows "timers_ok (retry_timer_fires q i s)"
proof (cases "filter (\<lambda>x. lt_id x = i) (sc_timers s)")
  case Nil
  then show ?thesis using assms by (simp add: retry_timer_fires_def)
next
  case (Cons t ts)
  then have "t \<in> set (filter (\<lambda>x. lt_id x = i) (sc_timers s))" by simp
  then have t: "t \<in> set (sc_timers s)" "lt_id t = i" by simp_all
  with timers_okD(1) [OF assms] have i: "timer_of s (lt_entry t) = Some i" by auto
  have "timers_ok (upd_slot (lt_entry t) (\<lambda>y. y\<lparr>sl_timer := None\<rparr>) (clearTimeout (timer_of s (lt_entry t)) s))"
    by (rule forget_timer_ok [OF assms]) simp
  then show ?thesis using Cons i by (simp add: retry_timer_fires_def Let_def clearTimeout_def sd_timers)
qed

lemma timers_flight_step [sd_timers]:
  assumes "timers_ok s"
  shows "timers_ok (flight_step q c a s)"
proof (cases "flight_of s c")
  case (Some f)
  then show ?thesis using assms
    by (cases "fl_phase f") (cases a; simp add: flight_step_def sd_timers)+
qed (simp add: flight_step_def assms)

lemma timers_on_session: "timers_ok s \<Longrightarrow> (\<And>x. timers_ok (g x)) \<Longrightarrow> timers_ok (on_session s c g)"
  by (simp add: on_session_def split: option.split)

lemma sched_step_timers:
  assumes "timers_ok s"
  shows "timers_ok (sched_step s qe)"
proof -
  obtain q e where "qe = (q, e)" by (cases qe)
  then show ?thesis using assms
    by (cases e) (auto simp: sd_timers intro!: timers_on_session)
qed

end
