(* ===== verification/SlotFlights.thy ===== *)
theory SlotFlights
  imports SlotTimers Reachability
begin

text \<open>
  Retry flights next to everything else the scheduler does: what an operation may do to the session of a
  chat without closing the admission that a flight was started under, and to the flights of other chats.
\<close>

section \<open>Steady operations\<close>

text \<open>
  Under an admission generation that has not moved, a session that is not active has been so, with the
  same handler; requests to the host are only added.
\<close>

definition steady :: "string \<Rightarrow> sched \<Rightarrow> sched \<Rightarrow> bool" where
  "steady c s s' \<longleftrightarrow>
     currentAdmissionGeneration s c \<le> currentAdmissionGeneration s' c \<and>
     (currentAdmissionGeneration s' c = currentAdmissionGeneration s c \<longrightarrow>
        (\<forall>x'. getSession s' c = Some x' \<longrightarrow> se_status x' \<noteq> SActive \<longrightarrow>
           (\<exists>x. getSession s c = Some x \<and> se_status x \<noteq> SActive \<and> se_handler x = se_handler x' \<and> se_id x = se_id x'))) \<and>
     set (sc_calls s) \<subseteq> set (sc_calls s')"

lemma steady_self [simp]: "steady c s s"
  by (auto simp: steady_def)

lemma steady_trans [trans]:
  assumes "steady c s t" and "steady c t u"
  shows "steady c s u"
proof -
  have le: "currentAdmissionGeneration s c \<le> currentAdmissionGeneration t c"
    "currentAdmissionGeneration t c \<le> currentAdmissionGeneration u c"
    using assms by (simp_all add: steady_def)
  have "\<exists>x. getSession s c = Some x \<and> se_status x \<noteq> SActive \<and> se_handler x = se_handler x' \<and> se_id x = se_id x'"
    if "currentAdmissionGeneration u c = currentAdmissionGeneration s c" "getSession u c = Some x'" "se_status x' \<noteq> SActive" for x'
  proof -
    from that(1) le have g: "currentAdmissionGeneration u c = currentAdmissionGeneration t c"
      "currentAdmissionGeneration t c = currentAdmissionGeneration s c" by simp_all
    from assms(2) g(1) that(2,3) obtain y where "getSession t c = Some y" "se_status y \<noteq> SActive"
      "se_handler y = se_handler x'" "se_id y = se_id x'" unfolding steady_def by blast
    with assms(1) g(2) show ?thesis unfolding steady_def by metis
  qed
  with le assms show ?thesis by (auto simp: steady_def)
qed

lemma steady_same:
  "sc_admissions u' = sc_admissions u \<Longrightarrow> sc_sessions u' = sc_sessions u \<Longrightarrow> set (sc_calls u) \<subseteq> set (sc_calls u') \<Longrightarrow>
     steady c u u'"
  by (auto simp: steady_def currentAdmissionGeneration_def getSession_def)

named_theorems sd_steady \<open>operations that are steady\<close>

lemma steady_fields [sd_steady]:
  "steady c u (tell x u)" "steady c u (sc_queue_update f2 u)" "steady c u (sc_idle_update f3 u)"
  "steady c u (sc_flights_update f4 u)" "steady c u (sc_transitions_update f5 u)" "steady c u (sc_active_update f7 u)"
  "steady c u (sc_timers_update f8 u)" "steady c u (queueForSlot d m k r u)" "steady c u (clearPendingQueueForChat d u)"
  "steady c u (begin_route e h p u)" "steady c u (set_flight d f u)" "steady c u (set_phase d f ph u)"
  "steady c u (flight_ends d u)" "steady c u (dispatch_failed pm u)" "steady c u (stopIdleEviction u)"
  "steady c u (upd_slot e g u)" "steady c u (clearTimeout i u)" "steady c u (arm_timer q d e n u)"
  "steady c u (sc_retirements_update f9 u)" "steady c u (sc_terminations_update f10 u)" "steady c u (resetActiveCount u)"
  "steady c u (snd (deferProviderRetirement q y act u))" "steady c u (set_terminating d t tp u)" "steady c u (terminate_fails d u)"
  by (rule steady_same; force simp: tell_def queueForSlot_def clearPendingQueueForChat_def begin_route_def set_flight_def
      set_phase_def flight_ends_def dispatch_failed_def stopIdleEviction_def upd_slot_def clearTimeout_def arm_timer_def
      setTimeout_def resetActiveCount_def deferProviderRetirement_def set_terminating_def terminate_fails_def Let_def
      split: option.split)+

lemma steady_slots [sd_steady]:
  "steady c u (cancelRetryTimer e u)" "steady c u (clearRetryAttemptState e u)" "steady c u (clearDeferredMessages e u)"
  "steady c u (deferMessage e msg u)" "steady c u (snd (takeDeferredMessages e u))" "steady c u (attachLiveSlot e r u)"
  "steady c u (scheduleTransientRetry q x m a why cat sc raw d u)" "steady c u (rearmRetryTimer q ch e d u)"
  "steady c u (snd (releaseActiveSlot e u))" "steady c u (claimActiveSlot e u)" "steady c u (clearRetryState e u)"
  by (rule steady_same; force simp: cancelRetryTimer_def clearRetryAttemptState_def clearDeferredMessages_def deferMessage_def
      takeDeferredMessages_def attachLiveSlot_def scheduleTransientRetry_def rearmRetryTimer_def releaseActiveSlot_def
      claimActiveSlot_def clearRetryState_def arm_timer_def setTimeout_def upd_slot_def clearTimeout_def Let_def
      split: option.split)+

lemma steady_drain [sd_steady]: "steady c u (drainPendingQueue q u)"
proof (induction q u rule: drainPendingQueue.induct)
  case (1 q s)
  have "steady c s (drainPendingQueue q (s\<lparr>sc_queue := ps\<rparr>))"
    if "steady c (s\<lparr>sc_queue := ps\<rparr>) (drainPendingQueue q (s\<lparr>sc_queue := ps\<rparr>))" for ps
    using that by (rule steady_trans [rotated]) (simp add: sd_steady)
  moreover have "steady c s (tell x (s\<lparr>sc_queue := ps\<rparr>))" for x ps
    by (rule steady_trans [of _ _ "s\<lparr>sc_queue := ps\<rparr>"]) (simp_all add: sd_steady)
  ultimately show ?case
    using 1 by (subst drainPendingQueue.simps) (auto simp: Let_def sd_steady split: option.split)
qed

text \<open>Composed operations: a chain of steady steps is steady.\<close>

lemma steady_step: "steady c t u \<Longrightarrow> steady c s t \<Longrightarrow> steady c s u"
  by (rule steady_trans)

lemma steady_invalidate [sd_steady]:
  "steady c u (invalidateDeliveryAdmission d u)" "steady c u (invalidate_route x r u)"
  by (auto simp: steady_def invalidateDeliveryAdmission_def invalidate_route_def tell_def currentAdmissionGeneration_def
      getSession_def Let_def split: option.split)

text \<open>Once the admission of the chat has moved, any change of its session is steady.\<close>

lemma steady_moved:
  assumes "currentAdmissionGeneration s c < currentAdmissionGeneration t c" and "steady c s t"
    and "sc_admissions u = sc_admissions t" and "set (sc_calls t) \<subseteq> set (sc_calls u)"
  shows "steady c s u"
  using assms by (auto simp: steady_def currentAdmissionGeneration_def)

lemma steady_drop [sd_steady]: "steady c u (drop_session d u)"
  by (auto simp: steady_def drop_session_def tell_def currentAdmissionGeneration_def getSession_def)

lemma steady_upd_session:
  assumes "\<And>x. getSession u c = Some x \<Longrightarrow> se_status (f x) \<noteq> SActive \<Longrightarrow>
      se_status x \<noteq> SActive \<and> se_handler (f x) = se_handler x \<and> se_id (f x) = se_id x"
  shows "steady c u (upd_session d f u)"
  using assms
  by (auto simp: steady_def upd_session_def currentAdmissionGeneration_def getSession_def split: option.split)

named_theorems sd_chain \<open>steady operations after steady ones\<close>

lemmas steady_chain [sd_chain] = sd_steady [THEN steady_step]

definition moved :: "string \<Rightarrow> sched \<Rightarrow> sched \<Rightarrow> bool" where
  "moved c s u \<longleftrightarrow> currentAdmissionGeneration s c < currentAdmissionGeneration u c \<and> set (sc_calls s) \<subseteq> set (sc_calls u)"

lemma moved_steady: "moved c s u \<Longrightarrow> steady c s u"
  by (simp add: moved_def steady_def)

lemma moved_step: "steady c t u \<Longrightarrow> moved c s t \<Longrightarrow> moved c s u"
  by (auto simp: moved_def steady_def)

lemmas sd_moved = sd_steady [THEN moved_step]

lemma moved_upd [simp]: "moved c s (upd_session d f u) = moved c s u"
  by (simp add: moved_def upd_session_def currentAdmissionGeneration_def split: option.split)

lemma moved_invalidate [simp]: "steady (se_chatId x) s u \<Longrightarrow> moved (se_chatId x) s (invalidate_route x r u)"
  by (auto simp: moved_def steady_def invalidate_route_def invalidateDeliveryAdmission_def currentAdmissionGeneration_def
      tell_def Let_def)

lemma steady_other [sd_chain]: "steady c s u \<Longrightarrow> d \<noteq> c \<Longrightarrow> steady c s (upd_session d f u)"
  by (erule steady_step [rotated]) (auto simp: steady_def upd_session_def currentAdmissionGeneration_def getSession_def split: option.split)

lemma steady_active [sd_chain]: "steady c s u \<Longrightarrow> (\<And>x. se_status (f x) = SActive) \<Longrightarrow> steady c s (upd_session d f u)"
  by (erule steady_step [rotated]) (rule steady_upd_session, simp)

lemma steady_put [sd_chain]:
  "steady c s u \<Longrightarrow> se_status x = SActive \<Longrightarrow> m = sc_sessions u \<Longrightarrow> steady c s (u\<lparr>sc_sessions := js_set m d x\<rparr>)"
  by (erule steady_step [rotated]) (auto simp: steady_def currentAdmissionGeneration_def getSession_def)

lemma suspend_steady [sd_steady]: "steady c s (suspend_session q x r a d s)"
proof (cases "c = se_chatId x")
  case True
  have "moved (se_chatId x) s (suspend_session q x r a d s)"
    by (simp add: suspend_session_def Let_def sd_moved split: option.split route_phase.split)
  with True show ?thesis by (simp add: moved_steady)
next
  case False
  then show ?thesis
    by (simp add: suspend_session_def Let_def sd_chain split: option.split route_phase.split)
qed

lemmas suspend_chain = suspend_steady [THEN steady_step]

lemma acquire_steady: "steady c s (snd (acquireActiveSlot q d m k b s))"
  by (auto simp: acquireActiveSlot_def sd_chain suspend_chain split: option.split victim_kind.split)

lemma evict_session_steady: "steady c s (evict_session x s)"
proof -
  have drop: "steady c s (u\<lparr>sc_sessions := js_delete (sc_sessions u') d\<rparr>)" if "steady c s u" "sc_sessions u' = sc_sessions u" for u u' d
    using that by (auto simp: steady_def currentAdmissionGeneration_def getSession_def)
  show ?thesis by (simp add: evict_session_def Let_def sd_chain drop tell_sessions)
qed

lemma evict_steady: "steady c s (snd (evictIfNeeded q r k s))"
  by (auto simp: evictIfNeeded_def sd_chain evict_session_steady split: option.split)

lemma idle_steady: "steady c s (evictIdle q s)"
proof -
  have one: "steady c t (evict_idle_one q s d)" if "steady c t s" for t s d
    using that by (simp add: evict_idle_one_def Let_def suspend_chain split: option.split)
  have "steady c t (foldl (evict_idle_one q) s cs)" if "steady c t s" for t cs
    using that by (induction cs arbitrary: s) (simp_all add: one)
  then show ?thesis by (simp add: evictIdle_def)
qed

lemma cancel_all_steady: "steady c t s \<Longrightarrow> steady c t (cancelAllRetryTimers s)"
proof -
  assume "steady c t s"
  then have "steady c t (foldl (\<lambda>s x. cancelRetryTimer (se_id (snd x)) s) s xs)" for xs :: "(string \<times> sched_session) list"
    by (induction xs arbitrary: s) (simp_all add: sd_chain)
  then show ?thesis by (simp add: cancelAllRetryTimers_def)
qed

lemma start_steady: "steady c s (startNewSession q d e h r m k s)"
proof -
  have "steady c s (snd (acquireActiveSlot q d (Some m) k True (snd (evictIfNeeded q (Some (d, m)) k s))))"
    by (rule steady_trans [OF evict_steady acquire_steady])
  then show ?thesis using evict_steady [of c s q "Some (d, m)" k]
    by (auto simp: startNewSession_def Let_def split_beta sd_chain tell_sessions)
qed

lemma resume_steady: "steady c s (resumeSession q d m k h s)"
  using acquire_steady [of c s q d m "if m = None then DkControl else k" True]
  by (auto simp: resumeSession_def Let_def split_beta sd_chain split: option.split)

lemma retire_now_steady: "steady c s u \<Longrightarrow> steady c s (retire_now q d act u)"
  by (simp add: retire_now_def failSessionForRecoveryNow_def fenceSessionForRuntimeSessionProofRecoveryNow_def Let_def sd_chain
      del: append_Cons append.simps split: option.split retire_action.split)

lemma retire_steady:
  "steady c s u \<Longrightarrow> steady c s (retire_session q d act u)" "steady c s u \<Longrightarrow> steady c s (retirement_settles q d u)"
  by (simp_all add: retire_session_def retirement_settles_def Let_def split_beta retire_now_steady sd_chain split: option.split)

lemma forget_steady: "steady c s u \<Longrightarrow> sc_sessions u' = sc_sessions u \<Longrightarrow> steady c s (u\<lparr>sc_sessions := js_delete (sc_sessions u') d\<rparr>)"
  by (auto simp: steady_def currentAdmissionGeneration_def getSession_def)

lemma terminate_steady:
  "steady c s (terminate_begins d s)" "steady c s (terminate_releases d b s)"
  "steady c s (terminate_forgets d b s)" "steady c s (terminate_ends q d b s)"
  by (simp_all add: terminate_begins_def terminate_releases_def terminate_forgets_def terminate_ends_def Let_def sd_chain
      forget_steady tell_sessions split: option.split)

lemma shutdown_steady:
  "steady c s (shutdown_begins s)" "steady c s (shutdown_routes r s)" "steady c s (shutdown_ends b s)"
proof -
  have 1: "steady c s (foldl (\<lambda>s x. invalidateDeliveryAdmission (se_chatId x) s) u xs)" if "steady c s u"
    for u and xs :: "sched_session list"
    using that by (induction xs arbitrary: u) (simp_all add: sd_chain)
  have 2: "steady c s (foldl (\<lambda>s x. invalidate_route x r s) u xs)" if "steady c s u" for u xs
    using that by (induction xs arbitrary: u) (simp_all add: sd_chain)
  have 3: "steady c s (foldl (\<lambda>s (c, x). tell (NotifyState c SSuspended) (tell (ClearActiveRuntime c) s)) u xs)"
    if "steady c s u" for u and xs :: "(string \<times> sched_session) list"
    using that by (induction xs arbitrary: u) (simp_all add: sd_chain split_beta)
  have 4: "steady c s (u\<lparr>sc_sessions := []\<rparr>)" if "steady c s u" for u
    using that by (auto simp: steady_def currentAdmissionGeneration_def getSession_def)
  show "steady c s (shutdown_begins s)" "steady c s (shutdown_routes r s)" "steady c s (shutdown_ends b s)"
    by (simp_all add: shutdown_begins_def shutdown_routes_def shutdown_ends_def Let_def sd_chain cancel_all_steady 1 2 3 4)
qed

lemma end_steady:
  "steady c s u \<Longrightarrow> steady c s (failSessionForRecovery q d r sid k u)"
  "steady c s u \<Longrightarrow> steady c s (fenceSessionForRuntimeSessionProofRecovery q d code u)" "steady c s u \<Longrightarrow> steady c s (abortUnownedRoute q d r u)"
  "steady c s u \<Longrightarrow> steady c s (teardown_ends q x u)"
  by (simp_all add: failSessionForRecovery_def fenceSessionForRuntimeSessionProofRecovery_def retire_steady
      abortUnownedRoute_def teardown_ends_def Let_def sd_chain split: option.split)

lemma failure_steady:
  assumes "steady c s u"
  shows "steady c s (snd (handleSessionFailure q x cls p m raw (invalidate_route x r u)))"
proof (cases "c = se_chatId x")
  case True
  have "moved (se_chatId x) s (snd (handleSessionFailure q x cls p m raw (invalidate_route x r u)))"
    using assms True by (simp add: handleSessionFailure_def Let_def sd_moved split: retry_decision.split)
  with True show ?thesis by (simp add: moved_steady)
next
  case False
  with assms show ?thesis
    by (simp add: handleSessionFailure_def Let_def sd_chain split: retry_decision.split)
qed

lemma sessionId_steady: "steady c s u \<Longrightarrow> steady c s (upd_session d (\<lambda>y. y\<lparr>se_sessionId := sid\<rparr>) u)"
  by (erule steady_step [rotated]) (rule steady_upd_session, simp)

section \<open>Operations that leave the flights alone\<close>

named_theorems sd_flights \<open>operations that leave the flights alone\<close>

lemma flights_fields [sd_flights]:
  "sc_flights (tell x u) = sc_flights u" "sc_flights (queueForSlot d m k r u) = sc_flights u"
  "sc_flights (clearPendingQueueForChat d u) = sc_flights u" "sc_flights (begin_route e h p u) = sc_flights u"
  "sc_flights (dispatch_failed pm u) = sc_flights u" "sc_flights (stopIdleEviction u) = sc_flights u"
  "sc_flights (upd_slot e g u) = sc_flights u" "sc_flights (clearTimeout i u) = sc_flights u"
  "sc_flights (arm_timer q d e n u) = sc_flights u" "sc_flights (cancelRetryTimer e u) = sc_flights u"
  "sc_flights (clearRetryAttemptState e u) = sc_flights u" "sc_flights (clearDeferredMessages e u) = sc_flights u"
  "sc_flights (deferMessage e msg u) = sc_flights u" "sc_flights (snd (takeDeferredMessages e u)) = sc_flights u"
  "sc_flights (attachLiveSlot e r' u) = sc_flights u" "sc_flights (clearRetryState e u) = sc_flights u"
  "sc_flights (scheduleTransientRetry q y m a why cat sc raw n u) = sc_flights u"
  "sc_flights (rearmRetryTimer q d e n u) = sc_flights u" "sc_flights (snd (releaseActiveSlot e u)) = sc_flights u"
  "sc_flights (claimActiveSlot e u) = sc_flights u" "sc_flights (invalidateDeliveryAdmission d u) = sc_flights u"
  "sc_flights (invalidate_route y r u) = sc_flights u" "sc_flights (drop_session d u) = sc_flights u"
  "sc_flights (upd_session d f u) = sc_flights u" "sc_flights (resetActiveCount u) = sc_flights u"
  "sc_flights (snd (deferProviderRetirement q y act u)) = sc_flights u" "sc_flights (set_terminating d t tp u) = sc_flights u"
  "sc_flights (terminate_fails d u) = sc_flights u"
  by (simp_all add: tell_def queueForSlot_def clearPendingQueueForChat_def begin_route_def dispatch_failed_def
      stopIdleEviction_def upd_slot_def clearTimeout_def arm_timer_def setTimeout_def cancelRetryTimer_def
      clearRetryAttemptState_def clearDeferredMessages_def deferMessage_def takeDeferredMessages_def
      attachLiveSlot_def clearRetryState_def scheduleTransientRetry_def rearmRetryTimer_def releaseActiveSlot_def
      claimActiveSlot_def invalidateDeliveryAdmission_def invalidate_route_def drop_session_def upd_session_def
      resetActiveCount_def deferProviderRetirement_def set_terminating_def terminate_fails_def Let_def
      split: option.split)

lemma flights_drain [sd_flights]: "sc_flights (drainPendingQueue q u) = sc_flights u"
proof (induction q u rule: drainPendingQueue.induct)
  case (1 q s)
  show ?case using 1 by (subst drainPendingQueue.simps) (auto simp: Let_def sd_flights split: option.split)
qed

lemma flights_suspend [sd_flights]: "sc_flights (suspend_session q x r a d s) = sc_flights s"
  by (simp add: suspend_session_def Let_def sd_flights split: option.split route_phase.split)

lemma flights_acquire [sd_flights]: "sc_flights (snd (acquireActiveSlot q d m k b s)) = sc_flights s"
  by (auto simp: acquireActiveSlot_def sd_flights split: option.split victim_kind.split)

lemma flights_evict [sd_flights]:
  "sc_flights (evict_session x s) = sc_flights s" "sc_flights (snd (evictIfNeeded q r k s)) = sc_flights s"
  by (auto simp: evict_session_def evictIfNeeded_def Let_def sd_flights split: option.split)

lemma flights_idle [sd_flights]: "sc_flights (evictIdle q s) = sc_flights s"
proof -
  have one: "sc_flights (evict_idle_one q s d) = sc_flights s" for s d
    by (simp add: evict_idle_one_def Let_def sd_flights split: option.split)
  have "sc_flights (foldl (evict_idle_one q) s cs) = sc_flights s" for cs
    by (induction cs arbitrary: s) (simp_all add: one)
  then show ?thesis by (simp add: evictIdle_def)
qed

lemma flights_cancel_all [sd_flights]: "sc_flights (cancelAllRetryTimers s) = sc_flights s"
proof -
  have "sc_flights (foldl (\<lambda>s x. cancelRetryTimer (se_id (snd x)) s) s xs) = sc_flights s" for xs :: "(string \<times> sched_session) list"
    by (induction xs arbitrary: s) (simp_all add: sd_flights)
  then show ?thesis by (simp add: cancelAllRetryTimers_def)
qed

lemma flights_retire_now [sd_flights]: "sc_flights (retire_now q d act s) = sc_flights s"
  by (simp add: retire_now_def failSessionForRecoveryNow_def fenceSessionForRuntimeSessionProofRecoveryNow_def Let_def sd_flights
      del: append_Cons append.simps split: option.split retire_action.split)

lemma flights_retire [sd_flights]:
  "sc_flights (retire_session q d act s) = sc_flights s" "sc_flights (retirement_settles q d s) = sc_flights s"
  by (simp_all add: retire_session_def retirement_settles_def Let_def split_beta sd_flights split: option.split)

lemma flights_terminate [sd_flights]:
  "sc_flights (terminate_begins d s) = sc_flights s" "sc_flights (terminate_releases d b s) = sc_flights s"
  "sc_flights (terminate_forgets d b s) = sc_flights s" "sc_flights (terminate_ends q d b s) = sc_flights s"
  by (simp_all add: terminate_begins_def terminate_releases_def terminate_forgets_def terminate_ends_def Let_def sd_flights
      split: option.split)

lemma flights_shutdown [sd_flights]:
  "sc_flights (shutdown_begins s) = sc_flights s" "sc_flights (shutdown_routes r s) = sc_flights s"
  "sc_flights (shutdown_ends b s) = sc_flights s"
proof -
  have 1: "sc_flights (foldl (\<lambda>s x. invalidateDeliveryAdmission (se_chatId x) s) u xs) = sc_flights u"
    for u and xs :: "sched_session list"
    by (induction xs arbitrary: u) (simp_all add: sd_flights)
  have 2: "sc_flights (foldl (\<lambda>s x. invalidate_route x r s) u xs) = sc_flights u" for u xs
    by (induction xs arbitrary: u) (simp_all add: sd_flights)
  have 3: "sc_flights (foldl (\<lambda>s (c, x). tell (NotifyState c SSuspended) (tell (ClearActiveRuntime c) s)) u xs) = sc_flights u"
    for u and xs :: "(string \<times> sched_session) list"
    by (induction xs arbitrary: u) (simp_all add: sd_flights split_beta)
  show "sc_flights (shutdown_begins s) = sc_flights s" "sc_flights (shutdown_routes r s) = sc_flights s"
    "sc_flights (shutdown_ends b s) = sc_flights s"
    by (simp_all add: shutdown_begins_def shutdown_routes_def shutdown_ends_def Let_def sd_flights 1 2 3)
qed

lemma flights_sessions [sd_flights]:
  "sc_flights (startNewSession q d e h r m k s) = sc_flights s" "sc_flights (resumeSession q d m' k h s) = sc_flights s"
  "sc_flights (failSessionForRecovery q d why sid con s) = sc_flights s"
  "sc_flights (fenceSessionForRuntimeSessionProofRecovery q d code s) = sc_flights s" "sc_flights (abortUnownedRoute q d why s) = sc_flights s"
  "sc_flights (teardown_ends q x s) = sc_flights s" "sc_flights (snd (handleSessionFailure q x cls p m' raw s)) = sc_flights s"
  by (simp_all add: startNewSession_def resumeSession_def failSessionForRecovery_def
      fenceSessionForRuntimeSessionProofRecovery_def abortUnownedRoute_def teardown_ends_def
      handleSessionFailure_def Let_def split_beta sd_flights split: option.split retry_decision.split)

lemma flights_returned [sd_flights]: "sc_flights (retry_returned q d f e b1 sid con b2 b3 s) = sc_flights s"
  by (simp add: retry_returned_def preserveStaleProviderContinuation_def Let_def sd_flights split: option.split)


section \<open>The phases of a flight\<close>

text \<open>How many answers a flight can still take.\<close>

fun phase_rank :: "retry_phase \<Rightarrow> nat" where
  "phase_rank PhSettle = 8"
| "phase_rank PhImages = 7"
| "phase_rank PhStop = 6"
| "phase_rank PhAuthorize = 5"
| "phase_rank (PhRoute h) = 4"
| "phase_rank PhConfirm = 3"
| "phase_rank (PhTeardown (Some d)) = 2"
| "phase_rank (PhTeardown None) = 1"
| "phase_rank (PhRecover p) = 1"
| "phase_rank PhDone = 0"

fun fits :: "retry_phase \<Rightarrow> flight_answer \<Rightarrow> bool" where
  "fits (PhRecover p) FaDone = True"
| "fits PhSettle (FaSettled ok) = True"
| "fits PhImages FaDone = True"
| "fits PhStop (FaStopped ok) = True"
| "fits PhAuthorize (FaAuthorized ok h) = True"
| "fits (PhRoute h) (FaRouted r) = True"
| "fits PhConfirm (FaConfirmed p) = True"
| "fits (PhTeardown d) FaDone = True"
| "fits _ _ = False"

lemma flight_of_set: "flight_of (set_flight c f s) c' = (if c' = c then Some f else flight_of s c')"
  by (simp add: flight_of_def set_flight_def)

lemma flight_of_phase: "flight_of (set_phase c f ph s) c' = (if c' = c then Some (f\<lparr>fl_phase := ph\<rparr>) else flight_of s c')"
  by (simp add: set_phase_def flight_of_set)

lemma flight_of_cong: "sc_flights s' = sc_flights s \<Longrightarrow> flight_of s' c = flight_of s c"
  by (simp add: flight_of_def)

lemmas sd_flight_of = sd_flights [THEN flight_of_cong]

text \<open>A step of a flight takes it to a lower rank and keeps what it was started with.\<close>

definition goes_on :: "string \<Rightarrow> retry_flight \<Rightarrow> sched \<Rightarrow> sched \<Rightarrow> bool" where
  "goes_on c f s s' \<longleftrightarrow>
     (\<exists>f'. flight_of s' c = Some f' \<and> phase_rank (fl_phase f') < phase_rank (fl_phase f) \<and>
        fl_entry f' = fl_entry f \<and> fl_generation f' = fl_generation f) \<and>
     (\<forall>d. d \<noteq> c \<longrightarrow> flight_of s' d = flight_of s d)"

lemma goes_on_set:
  "\<lbrakk>\<And>d. flight_of u d = flight_of s d; phase_rank ph < phase_rank (fl_phase f)\<rbrakk> \<Longrightarrow> goes_on c f s (set_phase c f ph u)"
  by (auto simp: goes_on_def flight_of_phase)

lemma goes_on_set':
  "\<lbrakk>\<And>d. flight_of u d = flight_of s d; phase_rank (fl_phase f') < phase_rank (fl_phase f);
    fl_entry f' = fl_entry f; fl_generation f' = fl_generation f\<rbrakk> \<Longrightarrow> goes_on c f s (set_flight c f' u)"
  by (auto simp: goes_on_def flight_of_set)

lemma flight_goes_on:
  assumes "flight_of s c = Some f" and "fits (fl_phase f) a"
  shows "goes_on c f s (flight_step q c a s)"
proof -
  have rearm: "goes_on c f s (rearm_and_end q c f s)" if "fl_phase f \<noteq> PhDone" "0 < phase_rank (fl_phase f)"
    using that by (auto simp: rearm_and_end_def sd_flight_of intro!: goes_on_set split: option.split)
  have replaces: "goes_on c f s (retry_replaces q c f s)" if "6 < phase_rank (fl_phase f)"
    using that by (auto simp: retry_replaces_def sd_flight_of intro!: goes_on_set goes_on_set' split: option.split)
  show ?thesis
  proof (cases "fl_phase f")
    case PhSettle
    with assms rearm replaces show ?thesis
      by (cases a) (auto simp: flight_step_def retry_settled_def sd_flight_of intro!: goes_on_set split: option.split)
  next
    case PhImages
    with assms replaces show ?thesis by (cases a) (auto simp: flight_step_def)
  next
    case PhStop
    with assms rearm show ?thesis
      by (cases a) (auto simp: flight_step_def retry_stopped_def Let_def sd_flight_of intro!: goes_on_set split: option.split)
  next
    case PhAuthorize
    have "goes_on c f s (retry_installs q c f x h u)" if "\<And>d. flight_of u d = flight_of s d" for x h u
      using PhAuthorize that
      by (auto simp: retry_installs_def Let_def sd_flight_of intro!: goes_on_set split: option.split retry_route.split)
    moreover have "flight_of (snd (acquireActiveSlot q c m k b s)) d = flight_of s d" for m k b d
      by (simp add: sd_flight_of)
    moreover have "goes_on c f s (rearm_and_end q c f u)" if "\<And>d. flight_of u d = flight_of s d" for u
      using that PhAuthorize by (auto simp: rearm_and_end_def sd_flight_of intro!: goes_on_set split: option.split)
    ultimately show ?thesis using assms rearm PhAuthorize
      by (cases a) (auto simp: flight_step_def retry_authorized_def Let_def split_beta intro!: goes_on_set split: option.split)
  next
    case (PhRoute h)
    with assms show ?thesis
      by (cases a) (auto simp: flight_step_def retry_routed_def retry_threw_def Let_def split_beta sd_flight_of
          intro!: goes_on_set split: option.split route_answer.split)
  next
    case PhConfirm
    with assms show ?thesis
      by (cases a) (auto simp: flight_step_def retry_confirmed_def Let_def sd_flight_of intro!: goes_on_set split: option.split)
  next
    case (PhTeardown d)
    with assms show ?thesis
      by (cases a; cases d) (auto simp: flight_step_def retry_torn_down_def sd_flight_of intro!: goes_on_set split: option.split)
  next
    case (PhRecover p)
    with assms show ?thesis
      by (cases a) (auto simp: flight_step_def retry_recovered_def sd_flight_of intro!: goes_on_set)
  qed (use assms in auto)
qed

lemma unfit_step: "flight_of s c = Some f \<Longrightarrow> \<not> fits (fl_phase f) a \<Longrightarrow> flight_step q c a s = s"
  by (cases "fl_phase f"; cases a) (simp_all add: flight_step_def)

lemma begins_other: "c \<noteq> d \<Longrightarrow> flight_of (retry_begins q d s) c = flight_of s c"
  by (auto simp: retry_begins_def Let_def flight_of_set flight_of_phase sd_flight_of split: option.split)

lemma runs_kept: "flight_of s c = Some f \<Longrightarrow> flight_of (runRetry q d s) c = Some f"
  by (cases "c = d") (simp_all add: runRetry_def begins_other)

lemma on_session_flight: "flight_of s c = Some f \<Longrightarrow> (\<And>x. flight_of (g x) c = Some f) \<Longrightarrow> flight_of (on_session s d g) c = Some f"
  by (simp add: on_session_def split: option.split)

lemma flight_of_idle [simp]: "flight_of (s\<lparr>sc_transitions := t\<rparr>) c = flight_of s c"
  by (simp add: flight_of_def)

lemma flight_kept:
  assumes f: "flight_of s c = Some f" and "\<And>a. ev = SdFlight c a \<Longrightarrow> \<not> fits (fl_phase f) a" and "ev \<noteq> SdFlightEnds c"
  shows "flight_of (sched_step s (q, ev)) c = Some f"
proof (cases ev)
  case (SdFlight d a)
  show ?thesis
  proof (cases "d = c")
    case True
    with SdFlight assms show ?thesis by (simp add: unfit_step)
  next
    case False
    show ?thesis
    proof (cases "flight_of s d")
      case (Some g)
      with False SdFlight f flight_goes_on [OF Some, of a q] show ?thesis
        by (cases "fits (fl_phase g) a") (auto simp: goes_on_def unfit_step)
    qed (use SdFlight f in \<open>simp add: flight_step_def\<close>)
  qed
next
  case (SdFlightEnds d)
  with assms show ?thesis by (auto simp: flight_ends_def flight_of_def split: option.split)
next
  case (SdTimer i)
  have "flight_of (upd_slot e g (s\<lparr>sc_timers := ts\<rparr>)) c = Some f" for e g ts
    using f by (simp add: sd_flight_of) (simp add: flight_of_def)
  with SdTimer f show ?thesis by (auto simp: retry_timer_fires_def Let_def intro: runs_kept split: list.split)
next
  case (SdTrigger d)
  have "flight_of (cancelRetryTimer e s) c = Some f" for e using f by (simp add: sd_flight_of)
  with SdTrigger f show ?thesis by (auto simp: triggerImmediateRetry_def intro: runs_kept split: option.split)
qed (use f in \<open>auto intro!: on_session_flight simp: sd_flight_of\<close>)

fun answers_taken :: "string \<Rightarrow> sched \<Rightarrow> (sched_env \<times> sched_event) list \<Rightarrow> nat" where
  "answers_taken c s [] = 0"
| "answers_taken c s (qe # es) =
     (case (snd qe, flight_of s c) of
        (SdFlight d a, Some f) \<Rightarrow> (if d = c \<and> fits (fl_phase f) a then 1 else 0)
      | _ \<Rightarrow> 0) + answers_taken c (sched_step s qe) es"

lemma answers_bounded:
  assumes "flight_of s c = Some f" and "\<forall>qe \<in> set es. snd qe \<noteq> SdFlightEnds c"
  shows "\<exists>f'. flight_of (sched_run s es) c = Some f' \<and>
     answers_taken c s es + phase_rank (fl_phase f') \<le> phase_rank (fl_phase f)"
  using assms
proof (induction es arbitrary: s f)
  case Nil
  then show ?case by (simp add: sched_run_def)
next
  case (Cons qe es)
  obtain q ev where qe: "qe = (q, ev)" by (cases qe)
  have run: "sched_run s (qe # es) = sched_run (sched_step s qe) es" by (simp add: sched_run_def)
  have rest: "\<forall>qe \<in> set es. snd qe \<noteq> SdFlightEnds c" using Cons.prems(2) by simp
  show ?case
  proof (cases "\<exists>a. ev = SdFlight c a \<and> fits (fl_phase f) a")
    case True
    then obtain a where a: "ev = SdFlight c a" "fits (fl_phase f) a" by blast
    with flight_goes_on [OF Cons.prems(1) a(2), of q] obtain g where g: "flight_of (sched_step s qe) c = Some g"
      "phase_rank (fl_phase g) < phase_rank (fl_phase f)" by (auto simp: goes_on_def qe)
    have one: "answers_taken c s (qe # es) = Suc (answers_taken c (sched_step s qe) es)"
      using a Cons.prems(1) by (simp add: qe)
    from Cons.IH [OF g(1) rest] obtain f' where "flight_of (sched_run s (qe # es)) c = Some f'"
      "answers_taken c (sched_step s qe) es + phase_rank (fl_phase f') \<le> phase_rank (fl_phase g)" unfolding run by blast
    with one g(2) show ?thesis by auto
  next
    case False
    with Cons.prems have "flight_of (sched_step s qe) c = Some f" unfolding qe by (intro flight_kept) auto
    moreover have "answers_taken c s (qe # es) = answers_taken c (sched_step s qe) es"
      using False Cons.prems(1) by (cases ev) (auto simp: qe)
    ultimately show ?thesis using Cons.IH [OF _ rest] unfolding run by auto
  qed
qed

lemma awaits_answer: "fl_phase f \<noteq> PhDone \<Longrightarrow> \<exists>a. fits (fl_phase f) a"
proof (cases "fl_phase f")
  case (PhAuthorize)
  then have "fits (fl_phase f) (FaAuthorized False 0)" by simp
  then show ?thesis by blast
next
  case (PhRoute h)
  then have "fits (fl_phase f) (FaRouted (RouteReturned False '''' None False False))" by simp
  then show ?thesis by blast
next
  case PhConfirm
  then have "fits (fl_phase f) (FaConfirmed False)" by simp
  then show ?thesis by blast
next
  case PhSettle
  then have "fits (fl_phase f) (FaSettled False)" by simp
  then show ?thesis by blast
next
  case PhStop
  then have "fits (fl_phase f) (FaStopped False)" by simp
  then show ?thesis by blast
qed (force intro: exI [of _ FaDone])+

lemma phase_rank_bound: "phase_rank p \<le> 8"
  by (induction p rule: phase_rank.induct) simp_all

section \<open>Every step is steady\<close>

lemma rearm_steady: "steady c s u \<Longrightarrow> steady c s (rearm_and_end q d f u)"
  by (simp add: rearm_and_end_def sd_chain split: option.split)

lemma begins_steady: "steady c s u \<Longrightarrow> steady c s (retry_begins q d u)"
  by (auto simp: retry_begins_def Let_def sd_chain end_steady split: option.split)

lemma run_steady: "steady c s u \<Longrightarrow> steady c s (runRetry q d u)"
  by (simp add: runRetry_def begins_steady)

lemma retry_step_steady:
  "steady c s (retry_recovered d f b s)" "steady c s (retry_replaces q d f s)" "steady c s (retry_settled q d f b s)"
  "steady c s (retry_stopped q d f b s)" "steady c s (retry_confirmed q d f b s)" "steady c s (retry_torn_down q d f t s)"
  by (auto simp: retry_recovered_def retry_replaces_def retry_settled_def retry_stopped_def retry_confirmed_def
      retry_torn_down_def Let_def sd_chain rearm_steady end_steady split: option.split)

lemma authorized_steady: "steady c s (retry_authorized q d f b h s)"
proof -
  have installs: "steady c s (retry_installs q d f x h u)" if "steady c s u" for x u
    using that by (auto simp: retry_installs_def Let_def sd_chain end_steady split: option.split retry_route.split)
  show ?thesis using acquire_steady [of c s q d "fl_head f" DkRecovery False]
    by (auto simp: retry_authorized_def Let_def split_beta sd_chain rearm_steady installs split: option.split)
qed

lemma routed_steady: "steady c s (retry_routed q d f r s)"
proof -
  have returned: "steady c s (retry_returned q d f e b1 sid k b2 b3 s)" for e b1 sid k b2 b3
    by (auto simp: retry_returned_def preserveStaleProviderContinuation_def Let_def sd_chain sessionId_steady end_steady
        split: option.split)
  have threw: "steady c s (retry_threw q d f x b cls raw s)" for x b cls raw
    by (auto simp: retry_threw_def Let_def split_beta sd_chain end_steady failure_steady)
  show ?thesis by (auto simp: retry_routed_def sd_chain returned threw split: option.split route_answer.split)
qed

lemma flight_step_steady: "steady c s (flight_step q d a s)"
proof (cases "flight_of s d")
  case (Some f)
  then show ?thesis
    by (cases "fl_phase f") (cases a; simp add: flight_step_def retry_step_steady authorized_steady routed_steady)+
qed (simp add: flight_step_def)

lemma steady_on_session: "(\<And>x. steady c s (g x)) \<Longrightarrow> steady c s (on_session s d g)"
  by (simp add: on_session_def split: option.split)

lemma sched_step_steady: "steady c s (sched_step s (q, ev))"
proof (cases ev)
  case (SdTimer i)
  have "steady c s (upd_slot e g (s\<lparr>sc_timers := ts\<rparr>))" for e g ts by (simp add: sd_chain)
  with SdTimer show ?thesis by (auto simp: retry_timer_fires_def Let_def intro: run_steady split: list.split)
next
  case (SdTrigger d)
  have "steady c s (cancelRetryTimer e s)" for e by (simp add: sd_chain)
  with SdTrigger show ?thesis by (auto simp: triggerImmediateRetry_def intro: run_steady split: option.split)
qed (auto intro!: steady_on_session simp: sd_chain suspend_steady start_steady resume_steady end_steady failure_steady
    evict_steady idle_steady retire_steady terminate_steady shutdown_steady flight_step_steady)


section \<open>What a flight knows about the handler it replaces\<close>

definition flight_good :: "string \<Rightarrow> retry_flight \<Rightarrow> sched \<Rightarrow> bool" where
  "flight_good c f s \<longleftrightarrow>
     fl_generation f \<le> currentAdmissionGeneration s c \<and>
     (fl_phase f = PhStop \<or> fl_phase f = PhAuthorize \<longrightarrow>
        (\<exists>h. fl_replaced f = Some h \<and>
           (fl_generation f = currentAdmissionGeneration s c \<longrightarrow>
              (\<forall>x. getSession s c = Some x \<longrightarrow> fl_entry f = Some (se_id x) \<longrightarrow> se_handler x = h \<or> se_status x = SActive)) \<and>
           (fl_phase f = PhAuthorize \<longrightarrow> DropDebt c h \<in> set (sc_calls s))))"

definition flights_inv :: "sched \<Rightarrow> bool" where
  "flights_inv s \<longleftrightarrow> (\<forall>c f. flight_of s c = Some f \<longrightarrow> flight_good c f s)"

lemma good_steady:
  assumes "flight_good c f s" and "steady c s s'"
  shows "flight_good c f s'"
proof -
  have le: "fl_generation f \<le> currentAdmissionGeneration s c" "currentAdmissionGeneration s c \<le> currentAdmissionGeneration s' c"
    and calls: "set (sc_calls s) \<subseteq> set (sc_calls s')" using assms by (simp_all add: flight_good_def steady_def)
  show ?thesis
  proof (cases "fl_phase f = PhStop \<or> fl_phase f = PhAuthorize")
    case True
    with assms(1) obtain h where h: "fl_replaced f = Some h" "fl_phase f = PhAuthorize \<longrightarrow> DropDebt c h \<in> set (sc_calls s)"
      and x: "fl_generation f = currentAdmissionGeneration s c \<Longrightarrow> getSession s c = Some x \<Longrightarrow> fl_entry f = Some (se_id x) \<Longrightarrow>
         se_handler x = h \<or> se_status x = SActive" for x
      unfolding flight_good_def by blast
    have "se_handler y = h \<or> se_status y = SActive"
      if "fl_generation f = currentAdmissionGeneration s' c" "getSession s' c = Some y" "fl_entry f = Some (se_id y)" for y
    proof (rule ccontr)
      assume no: "\<not> (se_handler y = h \<or> se_status y = SActive)"
      from that(1) le have g: "currentAdmissionGeneration s' c = currentAdmissionGeneration s c"
        "fl_generation f = currentAdmissionGeneration s c" by simp_all
      with assms(2) that(2) no obtain z where "getSession s c = Some z" "se_status z \<noteq> SActive"
        "se_handler z = se_handler y" "se_id z = se_id y" unfolding steady_def by blast
      with x [OF g(2), of z] that(3) no show False by simp
    qed
    with h le calls show ?thesis by (auto simp: flight_good_def)
  qed (use le in \<open>simp add: flight_good_def\<close>)
qed

lemma good_other_phase:
  "\<lbrakk>flight_good c f s; steady c s s'; fl_generation f' = fl_generation f; fl_phase f' \<noteq> PhStop; fl_phase f' \<noteq> PhAuthorize\<rbrakk>
     \<Longrightarrow> flight_good c f' s'"
  by (auto simp: flight_good_def steady_def)

lemma flight_fields:
  "currentAdmissionGeneration (set_flight d f u) c = currentAdmissionGeneration u c"
  "currentAdmissionGeneration (set_phase d f ph u) c = currentAdmissionGeneration u c"
  "currentAdmissionGeneration (tell z u) c = currentAdmissionGeneration u c"
  "getSession (set_flight d f u) c = getSession u c" "getSession (set_phase d f ph u) c = getSession u c"
  "getSession (tell z u) c = getSession u c"
  "sc_calls (set_flight d f u) = sc_calls u" "sc_calls (set_phase d f ph u) = sc_calls u"
  "sc_calls (tell z u) = sc_calls u @ [z]"
  by (simp_all add: set_flight_def set_phase_def tell_def currentAdmissionGeneration_def getSession_def)

lemma replaces_good:
  assumes good: "flight_good c f s" and f': "flight_of (retry_replaces q c f s) c = Some f'"
  shows "flight_good c f' (retry_replaces q c f s)"
proof (cases "\<exists>x. getSession s c = Some x \<and> retry_open q c f s")
  case True
  then obtain x where x: "getSession s c = Some x" "retry_open q c f s" by blast
  let ?f = "f\<lparr>fl_replaced := Some (se_handler x), fl_phase := PhStop\<rparr>"
  have s': "retry_replaces q c f s = set_flight c ?f (tell (StopHandler (se_handler x) ''session_retry_replace'')
     (tell (RegisterDebt c (se_handler x)) s))" using x by (simp add: retry_replaces_def)
  with f' have "f' = ?f" by (simp add: flight_of_set)
  with good x(1) show ?thesis unfolding s' by (simp add: flight_good_def flight_fields)
next
  case False
  then have "retry_replaces q c f s = set_phase c f PhDone s" by (auto simp: retry_replaces_def split: option.split)
  with f' have "f' = f\<lparr>fl_phase := PhDone\<rparr>" by (simp add: flight_of_phase)
  then show ?thesis by (intro good_other_phase [OF good retry_step_steady(2)]) simp_all
qed

lemma retry_open_Some:
  assumes "retry_open q c f s"
  obtains x where "getSession s c = Some x" "fl_entry f = Some (se_id x)" "se_status x = SSuspended"
    "fl_generation f = currentAdmissionGeneration s c"
  using assms
  by (auto simp: retry_open_def isRetryAdmissionOpen_def isRetryEligible_def split: option.splits)

lemma retry_open_tell: "retry_open q c f (tell z s) = retry_open q c f s"
  by (simp add: retry_open_def isRetryAdmissionOpen_def isRetryEligible_def tell_def currentAdmissionGeneration_def
      getSession_def peekSlot_def cong: option.case_cong)

lemma stopped_good:
  assumes good: "flight_good c f s" and "fl_phase f = PhStop" and f': "flight_of (retry_stopped q c f ok s) c = Some f'"
    and phase: "fl_phase f' = PhAuthorize"
  shows "flight_good c f' (retry_stopped q c f ok s)"
proof -
  let ?cur = "case getSession s c of Some x \<Rightarrow> if Some (se_id x) = fl_entry f then Some (se_handler x) else fl_replaced f
      | None \<Rightarrow> fl_replaced f"
  let ?s = "case ?cur of Some h \<Rightarrow> tell (DropDebt c h) s | None \<Rightarrow> s"
  have r: "ok \<and> retry_open q c f ?s" using f' phase
    by (auto simp: retry_stopped_def rearm_and_end_def Let_def flight_of_phase split: if_splits)
  then have "retry_open q c f s" by (simp add: retry_open_tell split: option.splits)
  then obtain x where x: "getSession s c = Some x" "fl_entry f = Some (se_id x)" "se_status x = SSuspended"
    "fl_generation f = currentAdmissionGeneration s c" by (rule retry_open_Some)
  from good assms(2) x obtain h where h: "fl_replaced f = Some h" "se_handler x = h" by (auto simp: flight_good_def)
  from r x h have s': "retry_stopped q c f ok s = set_phase c f PhAuthorize (tell (AuthorizeSource c) (tell (DropDebt c h) s))"
    by (simp add: retry_stopped_def Let_def)
  from f' s' have "f' = f\<lparr>fl_phase := PhAuthorize\<rparr>" by (simp add: flight_of_phase)
  with x h show ?thesis unfolding s'
    by (auto simp: flight_good_def flight_fields)
qed

lemma flight_answer_good:
  assumes f: "flight_of s c = Some f" and fit: "fits (fl_phase f) a" and good: "flight_good c f s"
    and f': "flight_of (flight_step q c a s) c = Some f'"
  shows "flight_good c f' (flight_step q c a s)"
proof -
  have gen: "fl_generation f' = fl_generation f" using flight_goes_on [OF f fit, of q] f' by (auto simp: goes_on_def)
  note other = good_other_phase [OF good flight_step_steady gen]
  have low: "flight_good c f' (flight_step q c a s)" if "phase_rank (fl_phase f) \<le> 5"
  proof (rule other)
    have "phase_rank (fl_phase f') < 5" using flight_goes_on [OF f fit, of q] f' that by (auto simp: goes_on_def)
    then show "fl_phase f' \<noteq> PhStop" "fl_phase f' \<noteq> PhAuthorize" by auto
  qed
  show ?thesis
  proof (cases "fl_phase f")
    case PhSettle
    with fit obtain ok where a: "a = FaSettled ok" by (cases a) auto
    have s': "flight_step q c a s = retry_settled q c f ok s" using PhSettle a f by (simp add: flight_step_def)
    show ?thesis
    proof (cases "ok \<and> retry_open q c f s \<and> fl_head f = None")
      case True
      then have "flight_step q c a s = retry_replaces q c f s" by (simp add: s' retry_settled_def)
      with replaces_good [OF good] f' show ?thesis by metis
    next
      case False
      have "fl_phase f' \<noteq> PhStop \<and> fl_phase f' \<noteq> PhAuthorize"
        using False f' unfolding s' by (auto simp: retry_settled_def rearm_and_end_def flight_of_phase split: option.splits if_splits)
      then show ?thesis by (intro other) simp_all
    qed
  next
    case PhImages
    with fit have "flight_step q c a s = retry_replaces q c f s" using f by (cases a) (simp_all add: flight_step_def)
    with replaces_good [OF good] f' show ?thesis by metis
  next
    case PhStop
    with fit obtain ok where a: "a = FaStopped ok" by (cases a) auto
    have s': "flight_step q c a s = retry_stopped q c f ok s" using PhStop a f by (simp add: flight_step_def)
    show ?thesis
    proof (cases "fl_phase f' = PhAuthorize")
      case True
      with stopped_good [OF good PhStop] f' show ?thesis unfolding s' by blast
    next
      case False
      have "fl_phase f' \<noteq> PhStop" using flight_goes_on [OF f fit, of q] f' PhStop by (auto simp: goes_on_def)
      with False show ?thesis by (intro other)
    qed
  next
    case (PhTeardown d)
    then show ?thesis by (intro low) (cases d; simp)
  qed (rule low, simp)+
qed

section \<open>Flights that start\<close>

lemma begins_new: "flight_of (retry_begins q c u) c = Some f \<Longrightarrow> flight_good c f (retry_begins q c u)"
proof -
  assume f: "flight_of (retry_begins q c u) c = Some f"
  then have "fl_generation f = currentAdmissionGeneration u c \<and> fl_phase f \<noteq> PhStop \<and> fl_phase f \<noteq> PhAuthorize"
    by (auto simp: retry_begins_def Let_def flight_of_set flight_of_phase split: option.splits if_splits)
  with begins_steady [OF steady_self, of c u q c] show ?thesis by (auto simp: flight_good_def steady_def)
qed

lemma run_new:
  assumes "flight_of u c = None" and f: "flight_of (runRetry q d u) c = Some f"
  shows "flight_good c f (runRetry q d u)"
proof (cases "flight_of u d = None \<and> d = c")
  case True
  with f show ?thesis by (auto simp: runRetry_def intro: begins_new)
next
  case False
  with assms show ?thesis by (cases "d = c") (auto simp: runRetry_def begins_other split: if_splits)
qed

lemma on_session_none: "flight_of s c = None \<Longrightarrow> (\<And>x. flight_of (g x) c = None) \<Longrightarrow> flight_of (on_session s d g) c = None"
  by (simp add: on_session_def split: option.split)

lemma new_good:
  assumes none: "flight_of s c = None" and f: "flight_of (sched_step s (q, ev)) c = Some f"
  shows "flight_good c f (sched_step s (q, ev))"
proof -
  have rest: "flight_of (sched_step s (q, ev)) c = None"
    if "\<And>i. ev \<noteq> SdTimer i" "\<And>d. ev \<noteq> SdTrigger d" "\<And>d a. ev \<noteq> SdFlight d a" "\<And>d. ev \<noteq> SdFlightEnds d"
    using that none by (cases ev) (auto intro!: on_session_none simp: sd_flight_of)
  show ?thesis
  proof (cases ev)
    case (SdTimer i)
    have "flight_of (upd_slot e g (s\<lparr>sc_timers := ts\<rparr>)) c = None" for e g ts
      using none by (simp add: sd_flight_of) (simp add: flight_of_def)
    with SdTimer f none show ?thesis by (auto simp: retry_timer_fires_def Let_def intro: run_new split: list.splits)
  next
    case (SdTrigger d)
    have "flight_of (cancelRetryTimer e s) c = None" for e using none by (simp add: sd_flight_of)
    with SdTrigger f none show ?thesis
      by (auto simp: triggerImmediateRetry_def intro: run_new split: option.splits if_splits)
  next
    case (SdFlight d a)
    show ?thesis
    proof (cases "flight_of s d")
      case (Some g)
      with none have "d \<noteq> c" by auto
      with Some SdFlight f none flight_goes_on [OF Some, of a q] show ?thesis
        by (cases "fits (fl_phase g) a") (auto simp: goes_on_def unfit_step)
    qed (use SdFlight f none in \<open>simp add: flight_step_def\<close>)
  next
    case (SdFlightEnds d)
    with f none show ?thesis by (auto simp: flight_ends_def flight_of_def split: option.splits if_splits)
  qed (use f none rest in simp_all)
qed

lemma sched_step_flights:
  assumes "flights_inv s"
  shows "flights_inv (sched_step s qe)"
proof -
  obtain q ev where qe: "qe = (q, ev)" by (cases qe)
  have "flight_good c f' (sched_step s (q, ev))" if f': "flight_of (sched_step s (q, ev)) c = Some f'" for c f'
  proof (cases "flight_of s c")
    case None
    then show ?thesis using f' by (rule new_good)
  next
    case (Some f)
    then have good: "flight_good c f s" using assms by (simp add: flights_inv_def)
    have kept: ?thesis if "flight_of (sched_step s (q, ev)) c = Some f"
      using that f' good_steady [OF good sched_step_steady] by simp
    show ?thesis
    proof (cases "ev = SdFlightEnds c \<or> (\<exists>a. ev = SdFlight c a \<and> fits (fl_phase f) a)")
      case False
      then show ?thesis by (intro kept flight_kept [OF Some]) auto
    next
      case True
      then show ?thesis
      proof (elim disjE exE conjE)
        assume e: "ev = SdFlightEnds c"
        then have "flight_of (sched_step s (q, ev)) c = Some f"
          using f' Some by (auto simp: flight_ends_def flight_of_def split: if_splits)
        then show ?thesis by (rule kept)
      next
        fix a assume "ev = SdFlight c a" "fits (fl_phase f) a"
        with Some good f' show ?thesis by (auto intro: flight_answer_good)
      qed
    qed
  qed
  then show ?thesis by (simp add: flights_inv_def qe)
qed

end
