(* ===== verification/SlotProperties.thy ===== *)
theory SlotProperties
  imports SlotFlights "HOL-Library.Multiset"
begin

text \<open>
  What the slot scheduler promises: the concurrency limit, who may be pushed out of a slot, the drain of
  the queue, the timers of retries, and the steps of one retry.
\<close>

section \<open>Runs\<close>

inductive sched_start :: "sched \<Rightarrow> bool" where
  "sched_start new_sched"

inductive sched_move :: "nat \<Rightarrow> sched \<Rightarrow> sched \<Rightarrow> bool" for N where
  "ev_concurrency q = N \<Longrightarrow> sched_move N s (sched_step s (q, ev))"

definition sched_inv :: "nat \<Rightarrow> sched \<Rightarrow> bool" where
  "sched_inv N s \<longleftrightarrow> sessions_ok (view s) \<and> timers_ok s \<and> flights_inv s"

definition slots_of :: "nat \<Rightarrow> slot_budget" where
  "slots_of N = \<lparr>bg_counts = True, bg_limit = N, bg_ended = 0, bg_chats = {}\<rparr>"

definition uncounted :: "nat \<Rightarrow> slot_budget" where
  "uncounted N = (slots_of N)\<lparr>bg_counts := False\<rparr>"

lemma uncounted_ok: "slots_ok (uncounted N) v = sessions_ok v"
  by (simp add: slots_ok_def uncounted_def)

lemma new_sched_slots: "slots_ok (slots_of N) (view new_sched)"
  unfolding slots_ok_def sessions_ok_iff count_ok_iff
  by (simp add: new_sched_def heldset_def isActiveSlotHeld_def peekSlot_def getSession_def termination_of_def running_def)

lemma new_sched_inv: "sched_inv N new_sched"
proof -
  have "timers_ok new_sched" "flights_inv new_sched"
    by (simp_all add: timers_ok_def flights_inv_def new_sched_def peekSlot_def timer_of_def flight_of_def)
  then show ?thesis using new_sched_slots [of N] by (simp add: sched_inv_def slots_ok_def)
qed

lemma sessions_step:
  assumes "sessions_ok (view s)"
  shows "sessions_ok (view (sched_step s qe))"
proof -
  have "slots_ok (uncounted (ev_concurrency (fst qe))) (view s)" using assms by (simp add: uncounted_ok)
  from sched_step_slots [OF this, of qe] show ?thesis by (simp add: slots_ok_def uncounted_def slots_of_def)
qed

interpretation sd: invariant_system sched_start "sched_move N" "sched_inv N" for N
proof unfold_locales
  show "sched_inv N s" if "sched_start s" for s
    using that by cases (simp add: new_sched_inv)
  show "sched_inv N t" if "sched_move N s t" and "sched_inv N s" for s t
    using that(1)
  proof cases
    case (1 q ev)
    with that(2) show ?thesis by (simp add: sched_inv_def sessions_step sched_step_timers sched_step_flights)
  qed
qed

lemma sched_run_reaches:
  "\<forall>qe \<in> set es. ev_concurrency (fst qe) = N \<Longrightarrow> reaches sched_start (sched_move N) (sched_run new_sched es)"
proof (induction es rule: rev_induct)
  case Nil
  then show ?case by (simp add: sched_run_def reaches.begins sched_start.intros)
next
  case (snoc qe es)
  then have "sched_move N (sched_run new_sched es) (sched_step (sched_run new_sched es) qe)"
    by (cases qe) (auto intro: sched_move.intros)
  with snoc show ?case by (auto simp: sched_run_def intro: reaches.moves)
qed

lemmas sched_run_inv = sd.always [OF sched_run_reaches]

lemma sched_run_timers: "timers_ok (sched_run new_sched es)"
proof (induction es rule: rev_induct)
  case Nil
  then show ?case using new_sched_inv [of 0] by (simp add: sched_run_def sched_inv_def)
next
  case (snoc qe es)
  then show ?case by (simp add: sched_run_def sched_step_timers)
qed

text \<open>The chats whose termination has released the slot of their session, in order.\<close>

fun released_by :: "sched_event \<Rightarrow> string option" where
  "released_by (SdTerminateReleases c True) = Some c"
| "released_by _ = None"

definition terminated_chats :: "(sched_env \<times> sched_event) list \<Rightarrow> string list" where
  "terminated_chats es = List.map_filter (\<lambda>qe. released_by (snd qe)) es"

lemma charged_released:
  "(\<And>b. ev \<noteq> SdShutdownEnds b) \<Longrightarrow> charged ev w =
     (case released_by ev of None \<Rightarrow> w
      | Some c \<Rightarrow> w\<lparr>bg_ended := Suc (bg_ended w), bg_chats := insert c (bg_chats w)\<rparr>)"
  by (cases "(ev, w)" rule: charged.cases) auto

lemma run_charged:
  assumes "slots_ok w (view s)" and "\<forall>qe \<in> set es. ev_concurrency (fst qe) = bg_limit w"
    and "\<forall>qe \<in> set es. \<forall>b. snd qe \<noteq> SdShutdownEnds b"
  shows "slots_ok (w\<lparr>bg_ended := bg_ended w + length (terminated_chats es),
                    bg_chats := bg_chats w \<union> set (terminated_chats es)\<rparr>) (view (sched_run s es))"
  using assms
proof (induction es arbitrary: s w)
  case Nil
  then show ?case by (simp add: terminated_chats_def map_filter_simps sched_run_def)
next
  case (Cons qe es)
  let ?w = "charged (snd qe) w"
  have w: "?w = (case released_by (snd qe) of None \<Rightarrow> w
      | Some c \<Rightarrow> w\<lparr>bg_ended := Suc (bg_ended w), bg_chats := insert c (bg_chats w)\<rparr>)"
    using Cons.prems(3) by (intro charged_released) simp
  then have limit: "bg_limit ?w = bg_limit w" by (simp split: option.split)
  have "slots_ok ?w (view (sched_step s qe))" using Cons.prems by (intro sched_step_slots) simp_all
  from Cons.IH [OF this] Cons.prems(2,3) w limit show ?case
    by (auto simp: terminated_chats_def map_filter_simps sched_run_def split: option.splits)
qed

lemma running_chats:
  assumes "sessions_ok (view s)"
  shows "card {c. \<exists>x. getSession s c = Some x \<and> se_status x = SActive} = card (running s)"
proof -
  let ?A = "{c. \<exists>x. getSession s c = Some x \<and> se_status x = SActive}"
  let ?id = "\<lambda>c. se_id (the (getSession s c))"
  have inj: "inj_on ?id ?A"
  proof (rule inj_onI)
    fix c d assume "c \<in> ?A" "d \<in> ?A" and same: "?id c = ?id d"
    then obtain x y where "getSession s c = Some x" "getSession s d = Some y" by blast
    with same assms show "c = d" unfolding sessions_ok_iff by simp
  qed
  have "?id ` ?A = running s" by (force simp: running_def)
  with card_image [OF inj] show ?thesis by simp
qed


section \<open>Concurrency\<close>

text \<open>
  C28. Take a point of a run where the active count is within the concurrency and every active session
  holds the slot of its entry, such as the start, and go on with any events, whatever the provider, the
  server and the other authorities answer, short of the end of the shutdown. The active count stays the
  number of the entries that hold a slot. An active session without one belongs to a chat whose
  termination has released its slot since. The active count and the number of chats with an active session
  exceed the concurrency by at most the number of such releases: without a termination both stay within
  it. The end of the shutdown leaves no session and an active count of zero.
\<close>

theorem slot_overdraft_is_bounded:
  assumes "\<forall>qe \<in> set (es0 @ es). ev_concurrency (fst qe) = N \<and> (\<forall>b. snd qe \<noteq> SdShutdownEnds b)"
    and "s0 = sched_run new_sched es0" and "s = sched_run s0 es"
    and "getActiveCount s0 \<le> N"
    and "\<forall>c x. getSession s0 c = Some x \<longrightarrow> se_status x = SActive \<longrightarrow> isActiveSlotHeld s0 (se_id x)"
  shows "getActiveCount s = card {e. isActiveSlotHeld s e} \<and>
    (\<forall>c x. getSession s c = Some x \<longrightarrow> se_status x = SActive \<longrightarrow>
       isActiveSlotHeld s (se_id x) \<or> c \<in> set (terminated_chats es)) \<and>
    getActiveCount s \<le> N + length (terminated_chats es) \<and>
    card {c. \<exists>x. getSession s c = Some x \<and> se_status x = SActive} \<le> N + length (terminated_chats es) \<and>
    getActiveCount (sched_step s (q, SdShutdownEnds b)) = 0 \<and> sc_sessions (sched_step s (q, SdShutdownEnds b)) = []"
proof -
  let ?k = "length (terminated_chats es)"
  have "slots_ok ((slots_of N)\<lparr>bg_ended := length (terminated_chats es0), bg_chats := set (terminated_chats es0)\<rparr>) (view s0)"
    using run_charged [OF new_sched_slots [of N], of es0] assms(1,2) by (simp add: slots_of_def)
  then have S: "sessions_ok (view s0)" and C: "finite (heldset s0)" "sc_active s0 = card (heldset s0)"
    by (simp_all add: slots_ok_def count_ok_iff slots_of_def)
  have sub: "running s0 \<subseteq> heldset s0" using assms(5) by (auto simp: running_def heldset_def)
  then have "running s0 - heldset s0 = {}" and un: "heldset s0 \<union> running s0 = heldset s0" by blast+
  then have "card (running s0 - heldset s0) = 0" by (simp only: card.empty)
  moreover note un
  moreover have "card (heldset s0) \<le> N" using C(2) assms(4) by (simp add: getActiveCount_def)
  moreover have "\<forall>c x. getSession s0 c = Some x \<longrightarrow> se_status x = SActive \<longrightarrow> se_id x \<in> heldset s0"
    using assms(5) by (simp add: heldset_def)
  ultimately have "count_ok (slots_of N) (view s0)"
    unfolding count_ok_iff using C by (simp add: slots_of_def)
  with S have "slots_ok (slots_of N) (view s0)" by (simp add: slots_ok_def)
  from run_charged [OF this, of es] assms(1,3)
  have ok: "slots_ok ((slots_of N)\<lparr>bg_ended := ?k, bg_chats := set (terminated_chats es)\<rparr>) (view s)" by (simp add: slots_of_def)
  then have S: "sessions_ok (view s)" and C: "finite (heldset s)" "sc_active s = card (heldset s)"
    "\<forall>c x. getSession s c = Some x \<longrightarrow> se_status x = SActive \<longrightarrow> se_id x \<in> heldset s \<or> c \<in> set (terminated_chats es)"
    "card (heldset s \<union> running s) \<le> N + ?k"
    by (simp_all add: slots_ok_def count_ok_iff slots_of_def)
  have "card (heldset s) \<le> card (heldset s \<union> running s)" "card (running s) \<le> card (heldset s \<union> running s)"
    using C(1) finite_running by (auto intro: card_mono)
  with C running_chats [OF S] show ?thesis
    by (auto simp: getActiveCount_def heldset_def shutdown_ends_def resetActiveCount_def Let_def)
qed

text \<open>
  In every reachable state every timer that can still fire is the one its entry remembers, an
  entry has at most one, and a timer that an entry remembers can still fire. A second timer is never armed
  over a first.
\<close>

theorem retry_timers_are_tracked:
  "(\<forall>t \<in> set (sc_timers (sched_run new_sched es)).
      timer_of (sched_run new_sched es) (lt_entry t) = Some (lt_id t)) \<and>
   distinct (map lt_entry (sc_timers (sched_run new_sched es))) \<and>
   (\<forall>e. hasArmedRetryTimer (sched_run new_sched es) e = (e \<in> lt_entry ` set (sc_timers (sched_run new_sched es))))"
proof -
  let ?s = "sched_run new_sched es"
  note D = timers_okD [OF sched_run_timers [of es]]
  have "inj_on lt_entry (set (sc_timers ?s))"
  proof (rule inj_onI)
    fix t u assume tu: "t \<in> set (sc_timers ?s)" "u \<in> set (sc_timers ?s)" "lt_entry t = lt_entry u"
    from D(1) [OF tu(1)] D(1) [OF tu(2)] tu(3) have "lt_id t = lt_id u" by simp
    with tu D(4) show "t = u" by (auto simp: distinct_map dest: inj_onD)
  qed
  with D(4) have "distinct (map lt_entry (sc_timers ?s))" by (simp add: distinct_map)
  moreover have "hasArmedRetryTimer ?s e = (e \<in> lt_entry ` set (sc_timers ?s))" for e
  proof -
    have "hasArmedRetryTimer ?s e = (timer_of ?s e \<noteq> None)"
      by (simp add: hasArmedRetryTimer_def timer_of_def split: option.split)
    also have "\<dots> = (e \<in> lt_entry ` set (sc_timers ?s))" using D(1) D(3) [of e] by (auto simp: image_iff)
    finally show ?thesis .
  qed
  ultimately show ?thesis using D(1) by blast
qed

section \<open>Who is pushed out\<close>

lemma oldest_active_None: "oldest_active ok best xs = None \<longleftrightarrow> best = None \<and> (\<forall>x \<in> set xs. \<not> (se_status x = SActive \<and> ok x))"
  by (induction xs arbitrary: best) (auto split: option.splits)

lemma findOldest_None:
  "findOldestActiveSession ok s = None \<longleftrightarrow> (\<forall>x \<in> snd ` set (sc_sessions s). se_status x = SActive \<longrightarrow> \<not> ok x)"
  unfolding findOldestActiveSession_def oldest_active_None by auto

definition may_yield :: "sched_env \<Rightarrow> string \<Rightarrow> delivery_kind \<Rightarrow> sched_session \<Rightarrow> bool" where
  "may_yield q c k x \<longleftrightarrow> se_status x = SActive \<and> se_chatId x \<noteq> c \<and> \<not> isProviderTurnActive q x \<and>
     (k = DkFresh \<or> \<not> ev_processing q (se_chatId x))"

definition protected_by :: "sched_env \<Rightarrow> bool \<Rightarrow> sched_session \<Rightarrow> bool" where
  "protected_by q p x \<longleftrightarrow> p \<and> hasLiveSubprocess q (se_chatId x)"

lemma choose_victim_None:
  "choose_victim q c k p s = None \<longleftrightarrow> (\<forall>x \<in> snd ` set (sc_sessions s). may_yield q c k x \<longrightarrow> protected_by q p x)"
proof -
  let ?idle = "\<lambda>x. se_chatId x \<noteq> c \<and> \<not> isProviderTurnActive q x \<and>
      \<not> ev_processing q (se_chatId x) \<and> (\<not> p \<or> \<not> hasLiveSubprocess q (se_chatId x))"
  let ?any = "\<lambda>x. se_chatId x \<noteq> c \<and> \<not> isProviderTurnActive q x \<and> (\<not> p \<or> \<not> hasLiveSubprocess q (se_chatId x))"
  have "choose_victim q c k p s = None \<longleftrightarrow>
      findOldestActiveSession ?idle s = None \<and> (k = DkFresh \<longrightarrow> findOldestActiveSession ?any s = None)"
    by (simp add: choose_victim_def split: option.split)
  then show ?thesis unfolding findOldest_None may_yield_def protected_by_def by blast
qed

lemma choose_victim_Some:
  assumes "choose_victim q c k p s = Some (v, how)"
  shows "v \<in> snd ` set (sc_sessions s) \<and> may_yield q c k v \<and> \<not> protected_by q p v \<and>
    (how = VictimWorking \<longrightarrow> (\<forall>x \<in> snd ` set (sc_sessions s). may_yield q c k x \<longrightarrow> \<not> protected_by q p x \<longrightarrow>
        ev_processing q (se_chatId x)))"
proof (cases "findOldestActiveSession (\<lambda>x. se_chatId x \<noteq> c \<and> \<not> isProviderTurnActive q x \<and>
    \<not> ev_processing q (se_chatId x) \<and> (\<not> p \<or> \<not> hasLiveSubprocess q (se_chatId x))) s")
  case None
  then have "\<forall>x \<in> snd ` set (sc_sessions s). may_yield q c k x \<longrightarrow> \<not> protected_by q p x \<longrightarrow> ev_processing q (se_chatId x)"
    unfolding findOldest_None may_yield_def protected_by_def by auto
  moreover obtain "k = DkFresh" "findOldestActiveSession (\<lambda>x. se_chatId x \<noteq> c \<and> \<not> isProviderTurnActive q x \<and>
      (\<not> p \<or> \<not> hasLiveSubprocess q (se_chatId x))) s = Some v"
    using assms None by (auto simp: choose_victim_def split: if_splits)
  ultimately show ?thesis using findOldest_Some by (auto simp: may_yield_def protected_by_def)
next
  case (Some x)
  with assms have "x = v" "how = VictimIdle" by (simp_all add: choose_victim_def)
  with findOldest_Some [OF Some] show ?thesis by (simp add: may_yield_def protected_by_def)
qed

lemma queue_and_calls:
  "sc_queue (upd_slot e f s) = sc_queue s" "sc_calls (upd_slot e f s) = sc_calls s"
  "sc_queue (clearTimeout i s) = sc_queue s" "sc_queue (upd_session c g s) = sc_queue s" "sc_calls (upd_session c g s) = sc_calls s"
  "sc_queue (tell x s) = sc_queue s" "sc_calls (tell x s) = sc_calls s @ [x]" "sc_queue (invalidate_route y r s) = sc_queue s"
  by (simp_all add: upd_slot_def clearTimeout_def upd_session_def tell_def invalidate_route_def invalidateDeliveryAdmission_def
      Let_def split: option.split)

lemma custody_queue_and_calls:
  "sc_queue (snd (releaseActiveSlot e s)) = sc_queue s" "sc_calls (snd (releaseActiveSlot e s)) = sc_calls s"
  "sc_queue (clearDeferredMessages e s) = sc_queue s" "sc_queue (clearRetryState e s) = sc_queue s"
  by (simp_all add: releaseActiveSlot_def clearDeferredMessages_def clearRetryState_def clearRetryAttemptState_def queue_and_calls)

lemma suspend_queue: "sc_queue (suspend_session q x r a False s) = sc_queue s"
  by (simp add: suspend_session_def Let_def queue_and_calls custody_queue_and_calls split: option.split route_phase.split)

lemma suspend_calls: "{if a then PrepareSuspend (se_chatId x) r else PrepareEvict (se_chatId x) r, NotifyState (se_chatId x) SSuspended}
    \<subseteq> set (sc_calls (suspend_session q x r a False s))"
  by (simp add: suspend_session_def Let_def queue_and_calls custody_queue_and_calls)

text \<open>The session is suspended and its slot is free; the other sessions and slots stay as they are.\<close>

definition yields :: "sched_session \<Rightarrow> sched \<Rightarrow> sched \<Rightarrow> bool" where
  "yields v s s' \<longleftrightarrow>
     (\<forall>d. getSession s' d = (if d = se_chatId v then map_option (\<lambda>y. y\<lparr>se_status := SSuspended\<rparr>) (getSession s d) else getSession s d)) \<and>
     (\<forall>e. isActiveSlotHeld s' e \<longleftrightarrow> isActiveSlotHeld s e \<and> e \<noteq> se_id v) \<and>
     getActiveCount s' = (if isActiveSlotHeld s (se_id v) then getActiveCount s - 1 else getActiveCount s) \<and>
     sc_queue s' = sc_queue s \<and> NotifyState (se_chatId v) SSuspended \<in> set (sc_calls s')"

lemma suspend_yields:
  assumes "view u = view s" and "sc_queue u = sc_queue s"
  shows "yields v s (suspend_session q v r a False u)"
  using suspend_fields [of q v r a False u] suspend_queue [of q v r a u] suspend_calls [of a v r q u] view_same [OF assms(1)] assms(2)
  by (auto simp: yields_def getActiveCount_def heldset_def)

text \<open>
  C31. When every slot is taken, a request gets a slot exactly when some active session of another chat
  may yield: its provider turn is not running, and it has no delivery in processing unless the request is
  a fresh message. If none may, the request is refused, the sessions and slots stay as they are, and the
  request is queued if its caller asked for that. Otherwise one session that may yield does: it is
  suspended and its slot released, its deliveries are handed back with the consumed prefix acknowledged if
  it was idle and as preempted if it was working, and every other session and slot stays as it is. A
  session with a live background process yields only when all that may yield have one, and one in the
  middle of its work only when those of its rank all are.
\<close>

theorem only_idle_sessions_yield:
  assumes "ev_concurrency q \<le> getActiveCount s" and "acquireActiveSlot q c m k b s = (granted, s')"
  shows "granted = (\<exists>x \<in> snd ` set (sc_sessions s). may_yield q c k x) \<and>
    (case chosen_victim q c k s of
       None \<Rightarrow> \<not> granted \<and> sc_sessions s' = sc_sessions s \<and> sc_slots s' = sc_slots s \<and> getActiveCount s' = getActiveCount s \<and>
         sc_queue s' = sc_queue s @ (if b then [\<lparr>pm_message = m, pm_chatId = c, pm_kind = k\<rparr>] else [])
     | Some (v, how) \<Rightarrow>
         granted \<and> v \<in> snd ` set (sc_sessions s) \<and> may_yield q c k v \<and> yields v s s' \<and>
         (if how = VictimIdle then PrepareSuspend (se_chatId v) ''concurrency_idle_yield''
          else PrepareEvict (se_chatId v) ''concurrency_preempted'') \<in> set (sc_calls s') \<and>
         (how = VictimIdle \<longleftrightarrow> \<not> ev_processing q (se_chatId v)) \<and>
         (hasLiveSubprocess q (se_chatId v) \<longrightarrow>
            (\<forall>x \<in> snd ` set (sc_sessions s). may_yield q c k x \<longrightarrow> hasLiveSubprocess q (se_chatId x))) \<and>
         (how = VictimWorking \<longrightarrow>
            (\<forall>x \<in> snd ` set (sc_sessions s). may_yield q c k x \<longrightarrow>
               hasLiveSubprocess q (se_chatId v) \<or> \<not> hasLiveSubprocess q (se_chatId x) \<longrightarrow> ev_processing q (se_chatId x))))"
proof -
  have full: "\<not> sc_active s < ev_concurrency q" using assms(1) by (simp add: getActiveCount_def)
  have some: "(\<exists>x \<in> snd ` set (sc_sessions s). may_yield q c k x) = (chosen_victim q c k s \<noteq> None)"
    using choose_victim_None [of q c k False s] choose_victim_None [of q c k True s]
    by (auto simp: chosen_victim_def protected_by_def split: option.split)
  show ?thesis
  proof (cases "chosen_victim q c k s")
    case None
    with full assms(2) have "\<not> granted" "s' = (if b then queueForSlot c m k ''concurrency_limit'' s else s)"
      by (auto simp: acquireActiveSlot_def)
    with None some show ?thesis by (simp add: queueForSlot_def tell_def getActiveCount_def)
  next
    case (Some z)
    obtain v how where z: "z = (v, how)" by (cases z)
    from Some z have v: "choose_victim q c k True s = Some (v, how) \<or>
        choose_victim q c k True s = None \<and> choose_victim q c k False s = Some (v, how)"
      by (auto simp: chosen_victim_def split: option.splits)
    then have in_may: "v \<in> snd ` set (sc_sessions s)" "may_yield q c k v" using choose_victim_Some by blast+
    have live: "\<forall>x \<in> snd ` set (sc_sessions s). may_yield q c k x \<longrightarrow> hasLiveSubprocess q (se_chatId x)"
      if "hasLiveSubprocess q (se_chatId v)"
      using v choose_victim_Some [of q c k True s v how] choose_victim_None [of q c k True s] that
      by (auto simp: protected_by_def)
    have busy: "\<forall>x \<in> snd ` set (sc_sessions s). may_yield q c k x \<longrightarrow>
        hasLiveSubprocess q (se_chatId v) \<or> \<not> hasLiveSubprocess q (se_chatId x) \<longrightarrow> ev_processing q (se_chatId x)"
      if "how = VictimWorking"
      using v choose_victim_Some [of q c k True s v how] choose_victim_Some [of q c k False s v how]
        choose_victim_None [of q c k True s] that
      by (auto simp: protected_by_def)
    have idle: "how = VictimIdle \<longleftrightarrow> \<not> ev_processing q (se_chatId v)"
      using chosen_victim_Some(5) [OF Some [unfolded z]] busy in_may by (cases how) auto
    let ?u = "tell (Resilience (se_chatId v) ''resilience.session.preempted'' ''concurrency_preempted'') s"
    have moved: "granted \<and> yields v s s' \<and>
        (if how = VictimIdle then PrepareSuspend (se_chatId v) ''concurrency_idle_yield''
         else PrepareEvict (se_chatId v) ''concurrency_preempted'') \<in> set (sc_calls s')"
    proof (cases how)
      case VictimIdle
      with full Some z assms(2) have s': "granted" "s' = suspend_session q v ''concurrency_idle_yield'' True False s"
        by (auto simp: acquireActiveSlot_def)
      with VictimIdle suspend_calls [of True v "''concurrency_idle_yield''" q s] show ?thesis by (simp add: suspend_yields)
    next
      case VictimWorking
      with full Some z assms(2) have s': "granted" "s' = suspend_session q v ''concurrency_preempted'' False False ?u"
        by (auto simp: acquireActiveSlot_def)
      moreover have "yields v s s'" unfolding s'(2) by (rule suspend_yields) (simp_all add: sd_view, simp add: tell_def)
      ultimately show ?thesis using VictimWorking suspend_calls [of False v "''concurrency_preempted''" q ?u] by simp
    qed
    from some Some z in_may live busy idle moved show ?thesis by simp
  qed
qed

section \<open>Idle sessions\<close>

definition idle_expired :: "sched_env \<Rightarrow> sched_session \<Rightarrow> bool" where
  "idle_expired q x \<longleftrightarrow>
     (let idle = ev_now q - se_lastActivity x; limit = ev_idleTimeoutSec q * 1000
      in se_status x = SActive \<and> limit < idle \<and> \<not> isProviderTurnActive q x \<and>
         (ev_processing q (se_chatId x) \<or> hasLiveSubprocess q (se_chatId x) \<longrightarrow>
            limit + ev_workingGraceSec q * 1000 \<le> idle))"

definition suspend_expired :: "sched_env \<Rightarrow> sched_session \<Rightarrow> sched_session" where
  "suspend_expired q x = (if idle_expired q x then x\<lparr>se_status := SSuspended\<rparr> else x)"

lemma evict_idle_one_session:
  assumes "\<forall>d x. getSession s d = Some x \<longrightarrow> se_chatId x = d"
  shows "getSession (evict_idle_one q s d) c = (if c = d then map_option (suspend_expired q) (getSession s c) else getSession s c)"
proof (cases "getSession s d")
  case (Some x)
  then have x: "se_chatId x = d" using assms by simp
  have "evict_idle_one q s d = (if idle_expired q x then suspend_session q x ''session_suspended'' True True s else s)"
    using Some by (auto simp: evict_idle_one_def idle_expired_def Let_def)
  then show ?thesis using Some x by (auto simp: suspend_fields suspend_expired_def)
qed (auto simp: evict_idle_one_def)

lemma evict_idle_session:
  assumes "\<forall>d x. getSession s d = Some x \<longrightarrow> se_chatId x = d" and "distinct ds"
  shows "getSession (foldl (evict_idle_one q) s ds) c =
    (if c \<in> set ds then map_option (suspend_expired q) (getSession s c) else getSession s c)"
  using assms
proof (induction ds arbitrary: s)
  case (Cons d ds)
  have "\<forall>c x. getSession (evict_idle_one q s d) c = Some x \<longrightarrow> se_chatId x = c"
    using Cons.prems(1) by (auto simp: evict_idle_one_session suspend_expired_def)
  with Cons show ?case by (auto simp: evict_idle_one_session)
qed simp

text \<open>
  One sweep of the idle timer suspends exactly the active sessions that have been inactive for
  longer than the idle timeout, have no provider turn running and, when they have work or a background
  process, have also used up the working grace. All other sessions stay as they are.
\<close>

theorem idle_sweep_is_exact:
  assumes "\<forall>qe \<in> set es. ev_concurrency (fst qe) = N" and "s = sched_run new_sched es"
  shows "getSession (evictIdle q s) c =
    map_option (\<lambda>x. if idle_expired q x then x\<lparr>se_status := SSuspended\<rparr> else x) (getSession s c)"
proof -
  have ok: "slots_ok (uncounted N) (view s)" using sched_run_inv [OF assms(1)] assms(2) by (simp add: sched_inv_def uncounted_ok)
  have "getSession s c = None" if "c \<notin> fst ` set (sc_sessions s)"
    using that by (simp add: getSession_def map_of_eq_None_iff)
  then show ?thesis
    using slots_okD(1,2) [OF ok] evict_idle_session [of s "map fst (sc_sessions s)" q c]
    by (auto simp: evictIdle_def suspend_expired_def [abs_def])
qed

section \<open>The drain of the queue\<close>

text \<open>What a drain did to the queue: what stays, in order, what it dropped, and what it asked for.\<close>

definition drained :: "sched_env \<Rightarrow> sched \<Rightarrow> sched \<Rightarrow> bool" where
  "drained q s s' \<longleftrightarrow>
     (\<exists>ds gone. sc_calls s' = sc_calls s @ ds \<and> length ds \<le> 1 \<and>
        subseq (sc_queue s') (sc_queue s) \<and> mset (sc_queue s) = mset (sc_queue s') + mset gone \<and>
        (\<forall>p \<in> set gone. queuedMessageStillOwned q p \<longrightarrow> pm_message p = None \<or> ds = [RouteMessage p]) \<and>
        length (filter (\<lambda>p. queuedMessageStillOwned q p \<and> pm_message p \<noteq> None) gone) \<le> length ds \<and>
        (\<forall>p. RouteMessage p \<in> set ds \<longrightarrow> pm_message p \<noteq> None \<and> \<not> ev_recoveryDebt q (pm_chatId p) \<and>
           (\<exists>before after. filter (queuedMessageStillOwned q) (sc_queue s) = before @ p # after \<and>
              (\<forall>r \<in> set before. ev_recoveryDebt q (pm_chatId r) \<or> pm_message r = None))))"

lemma mset_filter_split: "mset xs = mset (filter P xs) + mset (filter (\<lambda>x. \<not> P x) xs)"
  by (induction xs) auto

lemma next_dispatchable_first:
  assumes "next_dispatchable q ps = Some i" and "j < i" and "queuedMessageStillOwned q (ps ! j)"
  shows "ev_recoveryDebt q (pm_chatId (ps ! j))"
proof (rule ccontr)
  let ?ok = "\<lambda>i. queuedMessageStillOwned q (ps ! i) \<and> \<not> ev_recoveryDebt q (pm_chatId (ps ! i))"
  assume "\<not> ev_recoveryDebt q (pm_chatId (ps ! j))"
  with assms(3) have ok: "?ok j" by simp
  from assms(1) obtain rest where f: "filter ?ok [0..<length ps] = i # rest"
    by (auto simp: next_dispatchable_def split: list.splits)
  have "j < length ps" using next_dispatchable_Some [OF assms(1)] assms(2) by simp
  with ok have "j \<in> set (filter ?ok [0..<length ps])" by simp
  moreover have "sorted (filter ?ok [0..<length ps])" by (simp add: sorted_wrt_filter)
  ultimately show False unfolding f using assms(2) by auto
qed

lemma remove_at_append: "length us = i \<Longrightarrow> remove_at i (us @ p # vs) = us @ vs"
  by (auto simp: remove_at_def)

lemma split_at: "i < length xs \<Longrightarrow> \<exists>us vs. xs = us @ xs ! i # vs \<and> length us = i"
  by (metis id_take_nth_drop length_take min.absorb2 less_imp_le)

lemma remove_at_split:
  assumes "i < length xs"
  shows "mset xs = mset (remove_at i xs) + {#xs ! i#} \<and> subseq (remove_at i xs) xs"
proof -
  obtain us p vs where xs: "xs = us @ p # vs" and i: "length us = i" using split_at [OF assms] by blast
  have "subseq (us @ vs) (us @ p # vs)" by (intro list_emb_append_mono) (simp_all add: list_emb_Cons)
  then show ?thesis unfolding xs remove_at_append [OF i] using i by (auto simp: nth_append)
qed

lemma remove_at_before:
  assumes "i < length xs" and "remove_at i xs = before @ r # after"
  shows "\<exists>before' after'. xs = before' @ r # after' \<and> set before' \<subseteq> insert (xs ! i) (set before)"
proof -
  obtain us p vs where xs: "xs = us @ p # vs" and i: "length us = i" using split_at [OF assms(1)] by blast
  have p: "xs ! i = p" using xs i by (auto simp: nth_append)
  from assms(2) have "us @ vs = before @ r # after" unfolding xs remove_at_append [OF i] .
  then consider ws where "us = before @ ws" "ws @ vs = r # after" | ws where "before = us @ ws" "vs = ws @ r # after"
    by (auto simp: append_eq_append_conv2)
  then show ?thesis
  proof cases
    case (1 ws)
    show ?thesis
    proof (cases ws)
      case Nil
      with 1 xs have "xs = (before @ [p]) @ r # after" by simp
      with p show ?thesis by (intro exI conjI) (assumption, simp)
    next
      case (Cons u ws')
      with 1 xs have "xs = before @ r # (ws' @ p # vs)" by simp
      then show ?thesis by blast
    qed
  next
    case (2 ws)
    with xs have "xs = (us @ p # ws) @ r # after" by simp
    with 2 p show ?thesis by (intro exI conjI) (assumption, auto)
  qed
qed

lemma drained_stops:
  assumes "sc_calls s' = sc_calls s" and "sc_queue s' = filter (queuedMessageStillOwned q) (sc_queue s)"
  shows "drained q s s'"
  unfolding drained_def
  by (rule exI [of _ "[]"], rule exI [of _ "filter (\<lambda>p. \<not> queuedMessageStillOwned q p) (sc_queue s)"])
    (use assms mset_filter_split [of "sc_queue s" "queuedMessageStillOwned q"] in \<open>auto simp: filter_empty_conv\<close>)

text \<open>The request at the head of the dispatchable ones is taken; \<open>ds\<close> is what is asked for it.\<close>

lemma drained_takes:
  assumes i: "next_dispatchable q xs = Some i" and xs: "xs = filter (queuedMessageStillOwned q) (sc_queue s)"
    and "sc_calls s' = sc_calls s @ ds" and "sc_queue s' = remove_at i xs" and "length ds \<le> 1"
    and head: "pm_message (xs ! i) \<noteq> None \<longleftrightarrow> ds = [RouteMessage (xs ! i)]" "\<forall>p. RouteMessage p \<in> set ds \<longrightarrow> p = xs ! i"
  shows "drained q s s'"
proof -
  let ?p = "xs ! i" and ?lost = "filter (\<lambda>p. \<not> queuedMessageStillOwned q p) (sc_queue s)"
  have p: "i < length xs" "\<not> ev_recoveryDebt q (pm_chatId ?p)" using next_dispatchable_Some [OF i] by simp_all
  note split = remove_at_split [OF p(1)]
  have sub: "subseq (remove_at i xs) (sc_queue s)" using split unfolding xs by (blast intro: subseq_order.trans subseq_filter_left)
  have "mset (sc_queue s) = mset xs + mset ?lost" unfolding xs by (rule mset_filter_split)
  then have ms: "mset (sc_queue s) = mset (remove_at i xs) + mset (?p # ?lost)" using split by simp
  have first: "\<exists>before after. xs = before @ ?p # after \<and> (\<forall>r \<in> set before. ev_recoveryDebt q (pm_chatId r))"
  proof (intro exI conjI ballI)
    show "xs = take i xs @ ?p # drop (Suc i) xs" by (rule id_take_nth_drop [OF p(1)])
    fix r assume "r \<in> set (take i xs)"
    then obtain j where j: "j < i" "j < length xs" "r = xs ! j" by (auto simp: in_set_conv_nth)
    then have "r \<in> set (filter (queuedMessageStillOwned q) (sc_queue s))" unfolding xs [symmetric] by simp
    then have "queuedMessageStillOwned q (xs ! j)" using j(3) by simp
    with next_dispatchable_first [OF i j(1)] j(3) show "ev_recoveryDebt q (pm_chatId r)" by simp
  qed
  have none: "filter (\<lambda>p. queuedMessageStillOwned q p \<and> pm_message p \<noteq> None) ?lost = []" by (simp add: filter_empty_conv)
  show ?thesis unfolding drained_def
  proof (rule exI [of _ ds], rule exI [of _ "?p # ?lost"], intro conjI)
    show "sc_calls s' = sc_calls s @ ds" "length ds \<le> 1" using assms by simp_all
    show "subseq (sc_queue s') (sc_queue s)" "mset (sc_queue s) = mset (sc_queue s') + mset (?p # ?lost)"
      using assms(4) sub ms by simp_all
    show "\<forall>p \<in> set (?p # ?lost). queuedMessageStillOwned q p \<longrightarrow> pm_message p = None \<or> ds = [RouteMessage p]"
      using head(1) by auto
    show "length (filter (\<lambda>p. queuedMessageStillOwned q p \<and> pm_message p \<noteq> None) (?p # ?lost)) \<le> length ds"
      using head(1) none by auto
    show "\<forall>p. RouteMessage p \<in> set ds \<longrightarrow> pm_message p \<noteq> None \<and> \<not> ev_recoveryDebt q (pm_chatId p) \<and>
        (\<exists>before after. filter (queuedMessageStillOwned q) (sc_queue s) = before @ p # after \<and>
           (\<forall>r \<in> set before. ev_recoveryDebt q (pm_chatId r) \<or> pm_message r = None))"
    proof (intro allI impI)
      fix p assume told: "RouteMessage p \<in> set ds"
      with head(2) have eq: "p = ?p" by simp
      have "ds = [RouteMessage ?p]" using told eq \<open>length ds \<le> 1\<close> by (cases ds) auto
      with head(1) p(2) first eq show "pm_message p \<noteq> None \<and> \<not> ev_recoveryDebt q (pm_chatId p) \<and>
        (\<exists>before after. filter (queuedMessageStillOwned q) (sc_queue s) = before @ p # after \<and>
           (\<forall>r \<in> set before. ev_recoveryDebt q (pm_chatId r) \<or> pm_message r = None))"
        unfolding xs [symmetric] by blast
    qed
  qed
qed

lemma drained_again:
  assumes i: "next_dispatchable q xs = Some i" and xs: "xs = filter (queuedMessageStillOwned q) (sc_queue s)"
    and control: "pm_message (xs ! i) = None" and again: "drained q (s\<lparr>sc_queue := remove_at i xs\<rparr>) s'"
  shows "drained q s s'"
proof -
  let ?p = "xs ! i" and ?ys = "remove_at i xs" and ?lost = "filter (\<lambda>p. \<not> queuedMessageStillOwned q p) (sc_queue s)"
  have p: "i < length xs" using next_dispatchable_Some [OF i] by simp
  note split = remove_at_split [OF p]
  from again obtain ds gone where ds: "sc_calls s' = sc_calls s @ ds" "length ds \<le> 1"
    and q: "subseq (sc_queue s') ?ys" "mset ?ys = mset (sc_queue s') + mset gone"
    and g: "\<forall>p \<in> set gone. queuedMessageStillOwned q p \<longrightarrow> pm_message p = None \<or> ds = [RouteMessage p]"
      "length (filter (\<lambda>p. queuedMessageStillOwned q p \<and> pm_message p \<noteq> None) gone) \<le> length ds"
    and head: "\<And>p. RouteMessage p \<in> set ds \<Longrightarrow> pm_message p \<noteq> None \<and> \<not> ev_recoveryDebt q (pm_chatId p) \<and>
       (\<exists>before after. filter (queuedMessageStillOwned q) ?ys = before @ p # after \<and>
          (\<forall>r \<in> set before. ev_recoveryDebt q (pm_chatId r) \<or> pm_message r = None))"
    unfolding drained_def by auto
  have "set ?ys \<subseteq> set xs" using split by (metis set_mset_mset set_mset_union Un_upper1)
  then have owned: "filter (queuedMessageStillOwned q) ?ys = ?ys" unfolding xs by (auto simp: filter_id_conv)
  have sub: "subseq (sc_queue s') (sc_queue s)"
    using q(1) split unfolding xs by (blast intro: subseq_order.trans subseq_filter_left)
  have "mset (sc_queue s) = mset xs + mset ?lost" unfolding xs by (rule mset_filter_split)
  then have ms: "mset (sc_queue s) = mset (sc_queue s') + mset (?p # gone @ ?lost)"
    using split q(2) by (simp add: union_assoc)
  have none: "filter (\<lambda>p. queuedMessageStillOwned q p \<and> pm_message p \<noteq> None) ?lost = []" by (simp add: filter_empty_conv)
  show ?thesis unfolding drained_def
  proof (rule exI [of _ ds], rule exI [of _ "?p # gone @ ?lost"], intro conjI)
    show "sc_calls s' = sc_calls s @ ds" "length ds \<le> 1" "subseq (sc_queue s') (sc_queue s)"
      "mset (sc_queue s) = mset (sc_queue s') + mset (?p # gone @ ?lost)" using ds sub ms by simp_all
    show "\<forall>p \<in> set (?p # gone @ ?lost). queuedMessageStillOwned q p \<longrightarrow> pm_message p = None \<or> ds = [RouteMessage p]"
      using g(1) control by auto
    show "length (filter (\<lambda>p. queuedMessageStillOwned q p \<and> pm_message p \<noteq> None) (?p # gone @ ?lost)) \<le> length ds"
      using g(2) control none by simp
    show "\<forall>p. RouteMessage p \<in> set ds \<longrightarrow> pm_message p \<noteq> None \<and> \<not> ev_recoveryDebt q (pm_chatId p) \<and>
        (\<exists>before after. filter (queuedMessageStillOwned q) (sc_queue s) = before @ p # after \<and>
           (\<forall>r \<in> set before. ev_recoveryDebt q (pm_chatId r) \<or> pm_message r = None))"
    proof (intro allI impI)
      fix p assume "RouteMessage p \<in> set ds"
      from head [OF this] obtain before after where h: "pm_message p \<noteq> None" "\<not> ev_recoveryDebt q (pm_chatId p)"
        "?ys = before @ p # after" "\<forall>r \<in> set before. ev_recoveryDebt q (pm_chatId r) \<or> pm_message r = None"
        unfolding owned by blast
      from remove_at_before [OF p h(3)] obtain before' after' where b: "xs = before' @ p # after'"
        "set before' \<subseteq> insert ?p (set before)" by blast
      have "\<forall>r \<in> set before'. ev_recoveryDebt q (pm_chatId r) \<or> pm_message r = None"
      proof
        fix r assume "r \<in> set before'"
        with b(2) have "r = ?p \<or> r \<in> set before" by blast
        with h(4) control show "ev_recoveryDebt q (pm_chatId r) \<or> pm_message r = None" by (elim disjE) simp_all
      qed
      with b(1) h(1,2) show "pm_message p \<noteq> None \<and> \<not> ev_recoveryDebt q (pm_chatId p) \<and>
        (\<exists>before after. filter (queuedMessageStillOwned q) (sc_queue s) = before @ p # after \<and>
           (\<forall>r \<in> set before. ev_recoveryDebt q (pm_chatId r) \<or> pm_message r = None))"
        unfolding xs [symmetric] by (intro conjI exI)
    qed
  qed
qed

text \<open>
  A drain of the queue, for every state and environment, keeps the order of what stays and
  asks for at most one dispatch. What it drops is a delivery that is no longer in custody, a control
  request, or the delivery it dispatches; no other message is lost. The dispatched delivery is in custody,
  its chat has no recovery debt, and everything queued before it waits for a recovery or was a control
  request.
\<close>

theorem drain_dispatches_the_first: "drained q s (drainPendingQueue q s)"
proof (induction q s rule: drainPendingQueue.induct)
  case (1 q s)
  let ?xs = "filter (queuedMessageStillOwned q) (sc_queue s)"
  show ?case
  proof (cases "next_dispatchable q ?xs")
    case None
    then show ?thesis by (subst drainPendingQueue.simps) (simp add: drained_stops)
  next
    case (Some i)
    let ?p = "?xs ! i" and ?s = "s\<lparr>sc_queue := remove_at i ?xs\<rparr>"
    let ?active = "case getSession s (pm_chatId ?p) of None \<Rightarrow> False | Some x \<Rightarrow> se_status x = SActive"
    let ?s1 = "s\<lparr>sc_queue := ?xs\<rparr>"
    have get: "getSession ?s1 = getSession s" "getSession ?s = getSession s" by (simp_all add: getSession_def fun_eq_iff)
    note takes = drained_takes [OF Some refl]
    have told: "sc_calls (tell z ?s) = sc_calls s @ [z]" "sc_queue (tell z ?s) = remove_at i ?xs" for z
      by (simp_all add: tell_def)
    show ?thesis
    proof (cases "pm_message ?p")
      case None: None
      show ?thesis
      proof (cases ?active)
        case True
        have "drained q ?s (drainPendingQueue q ?s)"
          using 1 [of ?s1 i ?p ?s] Some None True by (simp add: get)
        from drained_again [OF Some refl None this] show ?thesis
          using Some None True by (subst drainPendingQueue.simps) (simp add: get Let_def)
      next
        case False
        have stop: "drained q s ?s1" by (rule drained_stops) simp_all
        have drop: "drained q s ?s" by (rule takes [where ds = "[]"]) (simp_all add: None)
        have resume: "drained q s (tell (ResumeSession (pm_chatId ?p) (pm_kind ?p)) ?s)"
          by (rule takes [where ds = "[ResumeSession (pm_chatId ?p) (pm_kind ?p)]"]) (simp_all add: told None)
        show ?thesis using Some None False stop drop resume
          by (subst drainPendingQueue.simps) (simp add: get Let_def split: option.split)
      qed
    next
      case message: (Some m)
      have go: "drained q s (tell (RouteMessage ?p) ?s)"
        by (rule takes [where ds = "[RouteMessage ?p]"]) (simp_all add: told message)
      show ?thesis using Some message go
        by (subst drainPendingQueue.simps) (auto simp: get Let_def drained_stops split: option.split)
    qed
  qed
qed

section \<open>Retries\<close>

text \<open>
  C30. A retry takes at most eight answers of the provider, the server and the other authorities, whatever
  they are and whatever happens in between, and it is never stuck: until it is done it awaits an answer
  of a known kind, and once it is done its end frees the chat for the next retry.
\<close>

theorem retry_flight_ends:
  assumes "flight_of s c = Some f" and "\<forall>qe \<in> set es. snd qe \<noteq> SdFlightEnds c"
  shows "answers_taken c s es \<le> 8 \<and>
    (\<exists>f'. flight_of (sched_run s es) c = Some f' \<and>
       (if fl_phase f' = PhDone then flight_of (sched_step (sched_run s es) (q, SdFlightEnds c)) c = None
        else \<exists>a. fits (fl_phase f') a))"
proof -
  from answers_bounded [OF assms] obtain f' where f': "flight_of (sched_run s es) c = Some f'"
    "answers_taken c s es + phase_rank (fl_phase f') \<le> phase_rank (fl_phase f)" by blast
  with phase_rank_bound [of "fl_phase f"] have "answers_taken c s es \<le> 8" by simp
  moreover have "flight_of (sched_step (sched_run s es) (q, SdFlightEnds c)) c = None" if "fl_phase f' = PhDone"
    using f'(1) that by (simp add: flight_ends_def flight_of_def)
  ultimately show ?thesis using f'(1) awaits_answer [of f'] by auto
qed

lemma authorized_route:
  assumes f: "flight_of s c = Some f" "fl_phase f = PhAuthorize"
    and f': "flight_of (retry_authorized q c f ok h s) c = Some f'" "fl_phase f' = PhRoute h'"
  shows "ok \<and> h' = h \<and> retry_open q c f s \<and> (\<exists>x u. getSession s c = Some x \<and>
    acquireActiveSlot q c (fl_head f) DkRecovery False s = (True, u) \<and> retry_authorized q c f ok h s = retry_installs q c f x h u)"
proof -
  have no: "fl_phase g \<noteq> PhRoute h'" if "flight_of (set_phase c f PhDone u) c = Some g" for g u
    using that by (auto simp: flight_of_phase)
  have ok: "ok \<and> retry_open q c f s"
    using f' no by (auto simp: retry_authorized_def rearm_and_end_def split: if_splits)
  from ok f' no obtain x where x: "getSession s c = Some x"
    by (cases "getSession s c") (auto simp: retry_authorized_def)
  obtain a u where u: "acquireActiveSlot q c (fl_head f) DkRecovery False s = (a, u)" by fastforce
  have a: "a" using ok x u f' no by (auto simp: retry_authorized_def rearm_and_end_def split: if_splits option.splits)
  have eq: "retry_authorized q c f ok h s = retry_installs q c f x h u"
    using ok x u a by (simp add: retry_authorized_def)
  have "h' = h" using f' no unfolding eq
    by (auto simp: retry_installs_def Let_def flight_of_phase split: option.splits retry_route.splits if_splits)
  with ok x u a eq show ?thesis by auto
qed

lemma installed_session:
  assumes "getSession u c = Some x" and "flight_of (retry_installs q c f x h u) c = Some f'" and "fl_phase f' = PhRoute h"
  shows "\<exists>y. getSession (retry_installs q c f x h u) c = Some y \<and> se_id y = se_id x \<and> se_handler y = h \<and> se_status y = SActive"
proof -
  have claim: "getSession (claimActiveSlot e v) c = getSession v c" for e v
    by (simp add: getSession_def claimActiveSlot_def upd_slot_def split: option.split)
  show ?thesis
    using assms by (auto simp: retry_installs_def Let_def flight_fields flight_of_phase begin_route_def claim upd_session_fields
        getSession_def [of "sc_transitions_update _ _"] getSession_def [symmetric] split: option.splits retry_route.splits if_splits)
qed

lemma installed_held:
  assumes "se_id x \<in> known u" and "flight_of (retry_installs q c f x h u) c = Some f'" and "fl_phase f' = PhRoute h"
  shows "isActiveSlotHeld (retry_installs q c f x h u) (se_id x)"
proof -
  let ?u = "upd_session c (\<lambda>y. y\<lparr>se_handler := h, se_status := SActive, se_lastActivity := ev_now q\<rparr>) (tell (CreateHandler c h) u)"
  have "se_id x \<in> known ?u" using assms(1) by (simp add: upd_session_fields sd_same)
  then have "se_id x \<in> heldset (claimActiveSlot (se_id x) ?u)" by (simp add: claim_fields)
  then have "se_id x \<in> heldset (retry_installs q c f x h u)"
    using assms(2,3) by (auto simp: retry_installs_def Let_def sd_same flight_of_phase split: option.splits retry_route.splits if_splits)
  then show ?thesis by (simp add: heldset_def)
qed

lemma route_only_authorized:
  assumes f: "flight_of s c = Some f" and "fits (fl_phase f) a" and f': "flight_of (flight_step q c a s) c = Some f'"
    and "fl_phase f \<noteq> PhAuthorize" and "fl_phase f' = PhRoute h"
  shows "fl_phase f = PhRoute h"
proof -
  have rank: "phase_rank (fl_phase f') < phase_rank (fl_phase f)"
    using flight_goes_on [OF f assms(2), of q] f' by (auto simp: goes_on_def)
  with assms(5) have high: "4 < phase_rank (fl_phase f)" by simp
  have no: "fl_phase g \<noteq> PhRoute h" if "flight_of (retry_replaces q c f s) c = Some g" for g
    using that by (auto simp: retry_replaces_def flight_of_phase flight_of_set split: option.splits if_splits)
  show ?thesis
  proof (cases "fl_phase f")
    case PhSettle
    with f f' assms(2,5) no show ?thesis
      by (cases a) (auto simp: flight_step_def retry_settled_def rearm_and_end_def flight_of_phase split: option.splits if_splits)
  next
    case PhImages
    with f f' assms(2,5) no show ?thesis by (cases a) (auto simp: flight_step_def)
  next
    case PhStop
    with f f' assms(2,5) show ?thesis
      by (cases a) (auto simp: flight_step_def retry_stopped_def rearm_and_end_def Let_def flight_of_phase split: option.splits if_splits)
  next
    case (PhTeardown d)
    with high show ?thesis by (cases d) simp_all
  qed (use high assms(4) in simp_all)
qed

text \<open>
  C29. A retry that gets to its provider call was authorized at that moment: the chat is not fenced,
  its admission generation is the one the retry began under, and its entry is still the suspended one
  that holds no slot and has no route under way. The handler it replaces is the one whose stop was
  confirmed. Afterwards the session runs with the new handler and holds a slot.
\<close>

theorem retry_install_is_exclusive:
  assumes runs: "\<forall>qe \<in> set es. ev_concurrency (fst qe) = N" "ev_concurrency q = N" "s = sched_run new_sched es"
    and f: "flight_of s c = Some f" "\<And>h. fl_phase f \<noteq> PhRoute h"
    and f': "flight_of (sched_step s (q, SdFlight c a)) c = Some f'" "fl_phase f' = PhRoute h"
  shows "\<exists>x. getSession s c = Some x \<and> isRetryAdmissionOpen q c (se_id x) (Some (fl_generation f)) s \<and>
      fl_replaced f = Some (se_handler x) \<and> DropDebt c (se_handler x) \<in> set (sc_calls s) \<and> a = FaAuthorized True h \<and>
      (\<exists>y. getSession (sched_step s (q, SdFlight c a)) c = Some y \<and> se_id y = se_id x \<and> se_handler y = h \<and>
         se_status y = SActive \<and> isActiveSlotHeld (sched_step s (q, SdFlight c a)) (se_id y))"
proof -
  have inv: "sched_inv N s" using sched_run_inv [OF runs(1)] runs(3) by simp
  then have ok: "slots_ok (uncounted N) (view s)" and good: "flight_good c f s"
    using f(1) by (simp_all add: sched_inv_def uncounted_ok flights_inv_def)
  have N: "ev_concurrency q = bg_limit (uncounted N)" using runs(2) by (simp add: uncounted_def slots_of_def)
  have fits: "fits (fl_phase f) a"
    using f(1) f(2) [of h] f' by (cases "fits (fl_phase f) a") (auto simp: unfit_step)
  have "phase_rank (fl_phase f') < phase_rank (fl_phase f)" using flight_goes_on [OF f(1) fits, of q] f' by (auto simp: goes_on_def)
  have auth: "fl_phase f = PhAuthorize"
  proof (rule ccontr)
    assume "fl_phase f \<noteq> PhAuthorize"
    with route_only_authorized [OF f(1) fits, of q f' h] f(2) [of h] f' show False by simp
  qed
  then obtain b k where a: "a = FaAuthorized b k" using fits by (cases a) simp_all
  have st: "sched_step s (q, SdFlight c a) = retry_authorized q c f b k s" using f(1) auth a by (simp add: flight_step_def)
  from authorized_route [OF f(1) auth f'(1)[unfolded st] f'(2)] obtain x u where b: "b" "h = k" "retry_open q c f s"
    and x: "getSession s c = Some x" and u: "acquireActiveSlot q c (fl_head f) DkRecovery False s = (True, u)"
    and r: "retry_authorized q c f b k s = retry_installs q c f x k u" by blast
  from b(3) x have e: "fl_entry f = Some (se_id x)" "isRetryAdmissionOpen q c (se_id x) (Some (fl_generation f)) s"
    "se_status x = SSuspended" "fl_generation f = currentAdmissionGeneration s c"
    by (auto simp: retry_open_def isRetryAdmissionOpen_def isRetryEligible_def split: option.splits)
  from good auth e x obtain h' where h': "fl_replaced f = Some h'" "se_handler x = h'" "DropDebt c h' \<in> set (sc_calls s)"
    by (auto simp: flight_good_def)
  have xu: "getSession u c = Some x" using acquire_ok(4) [OF ok u N] x by simp
  from installed_session [OF xu, of q f k f'] f' b r st obtain y where
    y: "getSession (sched_step s (q, SdFlight c a)) c = Some y" "se_id y = se_id x" "se_handler y = h" "se_status y = SActive"
    by auto
  have "se_id x \<in> known u" using acquire_ok(3) [OF ok u N] slots_okD(3) [OF ok x] by simp
  then have "isActiveSlotHeld (sched_step s (q, SdFlight c a)) (se_id y)"
    using installed_held [of x u q c f k f'] f' y(2) b(2) unfolding sched_step.simps st [unfolded sched_step.simps] r by simp
  with x e h' y a b show ?thesis by blast
qed

lemma scheduled_timer:
  assumes "peekSlot u (se_id x) \<noteq> None"
  shows "\<exists>t y. t \<in> set (sc_timers (scheduleTransientRetry q x m att why cat sc raw d u)) \<and>
     lt_entry t = se_id x \<and> lt_delay t = timer_delay d \<and>
     peekSlot (scheduleTransientRetry q x m att why cat sc raw d u) (se_id x) = Some y \<and>
     sl_timer y = Some (lt_id t) \<and> sl_nextAt y = Some (ev_now q + d)"
proof -
  obtain y where "js_get (sc_slots u) (se_id x) = Some y" using assms by (auto simp: peekSlot_def)
  then show ?thesis
    by (intro exI [of _ "\<lparr>lt_id = sc_nextTimer u, lt_entry = se_id x, lt_chat = se_chatId x, lt_delay = timer_delay d\<rparr>"])
      (simp add: scheduleTransientRetry_def arm_timer_def setTimeout_def clearTimeout_def upd_slot_def peekSlot_def timer_of_def
        Let_def split: option.split)
qed

text \<open>
  A provider that asks for a wait beyond the 31 bits of a timer is retried after one
  millisecond: the entry records the time that was asked for, its timer runs at once.
\<close>

theorem long_wait_retries_at_once:
  assumes "peekSlot s (se_id x) \<noteq> None" and "fc_category cls = ProviderCapacity" and "fc_retryAfterMs cls = Some r"
    and "TIMEOUT_MAX < r"
  shows "\<exists>t y. t \<in> set (sc_timers (snd (handleSessionFailure q x cls phase m raw s))) \<and>
     lt_entry t = se_id x \<and> lt_delay t = 1 \<and>
     peekSlot (snd (handleSessionFailure q x cls phase m raw s)) (se_id x) = Some y \<and>
     sl_timer y = Some (lt_id t) \<and> sl_nextAt y = Some (ev_now q + r)"
proof -
  have known: "peekSlot (tell z u) e = peekSlot u e" "peekSlot (upd_session c g u) e = peekSlot u e"
    "peekSlot u e \<noteq> None \<Longrightarrow> peekSlot (snd (releaseActiveSlot e u)) e \<noteq> None" for z u c g e
    by (auto simp: tell_def upd_session_def releaseActiveSlot_def upd_slot_def peekSlot_def split: option.split)
  have delay: "timer_delay r = 1" using assms(4) by (simp add: timer_delay_def)
  obtain why att mx mode sf sv where d: "decideProviderRetry cls (if phase = PhaseStart then SessionStart else SessionResume)
      (clampRetryAttempt (currentRetryAttempt s (se_id x) + 1)) None PreProvider = RetryDecision r why att mx mode sf sv"
    using assms(2,3) by (auto simp: decideProviderRetry_def decideByCategory_def decideSessionCapacity_def Let_def or_else_def)
  show ?thesis unfolding handleSessionFailure_def Let_def d retry_decision.case snd_conv
    by (rule scheduled_timer [where d = r, unfolded delay]) (simp add: known assms(1))
qed

section \<open>Concrete runs\<close>

definition run_env :: "int \<Rightarrow> nat \<Rightarrow> sched_env" where
  "run_env now mx = \<lparr>ev_shuttingDown = False, ev_concurrency = 1, ev_maxSessions = mx, ev_idleTimeoutSec = 60,
     ev_workingGraceSec = 60, ev_now = now, ev_provider = Codex, ev_subprocess = (\<lambda>_. False), ev_fenced = (\<lambda>_. False),
     ev_recoveryDebt = (\<lambda>_. False), ev_processing = (\<lambda>_. False), ev_hasEntry = (\<lambda>_ _ _. True),
     ev_turnActive = (\<lambda>_. Some False), ev_pendingTeardown = (\<lambda>_. False),
     ev_settleWaiter = (\<lambda>_. True)\<rparr>"

definition run_message :: "string \<Rightarrow> session_message" where
  "run_message c = \<lparr>m_inboxEntryId = Some 7, m_id = ''m'', m_chatId = c, m_senderId = ''u''\<rparr>"

definition run_capacity :: failure_classification where
  "run_capacity = \<lparr>fc_category = ProviderCapacity, fc_reasonCode = ''provider_capacity'', fc_message = ''busy'',
     fc_retryAfterMs = None, fc_sourceKind = Transient\<rparr>"

text \<open>A session of the chat starts under the entry and its start fails for lack of capacity.\<close>

definition failed_start :: "string \<Rightarrow> entry_id \<Rightarrow> handler \<Rightarrow> int \<Rightarrow> (sched_env \<times> sched_event) list" where
  "failed_start c e h now =
     [(run_env now 2, SdStart c e h None (run_message c) DkFresh),
      (run_env now 2, SdRouteFailed c PhaseStart run_capacity (Some (run_message c)) None)]"

text \<open>
  The eviction of a session in backoff leaves the timer of its retry running: no shutdown clears
  it, and when the chat has a new session in backoff of its own, the old timer starts a retry of the new
  one while the timer of the new entry is still armed.
\<close>

theorem evicted_timer_survives:
  "(let s = sched_run new_sched (failed_start ''c'' 1 1 0 @ [(run_env 10 1, SdEvict), (run_env 20 1, SdShutdown)])
    in sc_sessions s = [] \<and> map lt_entry (sc_timers s) = [1]) \<and>
   (let s = sched_run new_sched (failed_start ''c'' 1 1 0 @ [(run_env 10 1, SdEvict)] @ failed_start ''c'' 2 2 900 @
              [(run_env 1000 2, SdTimer 0)])
    in hasArmedRetryTimer s 2 \<and> map_option fl_entry (flight_of s ''c'') = Some (Some 2) \<and>
       map_option fl_phase (flight_of s ''c'') = Some PhSettle)"
  by code_simp

definition busy_env :: sched_env where
  "busy_env = (run_env 100 5)\<lparr>ev_turnActive := (\<lambda>_. Some True)\<rparr>"

definition numbered_message :: "int \<Rightarrow> session_message" where
  "numbered_message i = (run_message ''a'')\<lparr>m_inboxEntryId := Some i\<rparr>"

text \<open>
  Two messages of a chat wait for a slot that a session with a running provider turn holds. A
  drain takes the first of them, because its capacity check does not ask for running turns as the
  acquisition does; the acquisition refuses, and the message goes back behind the second one.
\<close>

theorem requeue_loses_order:
  "(let waiting = sched_run new_sched
        [(run_env 0 5, SdStart ''b'' 1 1 None (run_message ''b'') DkFresh),
         (busy_env, SdStart ''a'' 2 2 None (numbered_message 1) DkFresh),
         (busy_env, SdStart ''a'' 2 2 None (numbered_message 2) DkFresh)];
        after = sched_run waiting [(busy_env, SdDrain), (busy_env, SdStart ''a'' 2 2 None (numbered_message 1) DkFresh)]
    in map pm_message (sc_queue waiting) = map (Some \<circ> numbered_message) [1, 2] \<and>
       map pm_message (sc_queue after) = map (Some \<circ> numbered_message) [2, 1] \<and> sc_sessions after = sc_sessions waiting)"
  by code_simp


section \<open>Witnesses\<close>

text \<open>
  The concurrency is 1. While the termination of a chat stops its handler, another chat takes the slot it
  released; a third one then pushes out the session under termination, which holds none, and the two run
  at once.
\<close>

definition overlapping_termination :: "(sched_env \<times> sched_event) list" where
  "overlapping_termination =
     [(run_env 0 5, SdStart ''b'' 1 1 None (run_message ''b'') DkFresh), (run_env 1 5, SdTerminate ''b''),
      (run_env 2 5, SdTerminateReleases ''b'' True), (run_env 3 5, SdStart ''a'' 2 2 None (run_message ''a'') DkFresh),
      (run_env 4 5, SdStart ''c'' 3 3 None (run_message ''c'') DkFresh)]"

theorem slot_overdraft_is_bounded_witness:
  "getActiveCount (sched_run new_sched overlapping_termination) \<le> 1 + 1 \<and>
   getActiveCount (sched_run new_sched overlapping_termination) = 2 \<and>
   map_option se_status (getSession (sched_run new_sched overlapping_termination) ''a'') = Some SActive \<and>
   map_option se_status (getSession (sched_run new_sched overlapping_termination) ''c'') = Some SActive"
proof -
  have one: "length (terminated_chats overlapping_termination) = 1" by code_simp
  have "getActiveCount (sched_run new_sched overlapping_termination) \<le> 1 + length (terminated_chats overlapping_termination)"
  proof -
    have start: "sched_run new_sched [] = new_sched" "getActiveCount new_sched \<le> 1" "\<And>c. getSession new_sched c = None"
      by (simp_all add: sched_run_def new_sched_def getActiveCount_def getSession_def)
    have "\<forall>qe \<in> set ([] @ overlapping_termination). ev_concurrency (fst qe) = 1 \<and> (\<forall>b. snd qe \<noteq> SdShutdownEnds b)"
      by (simp add: overlapping_termination_def run_env_def)
    moreover have "\<forall>c x. getSession new_sched c = Some x \<longrightarrow> se_status x = SActive \<longrightarrow> isActiveSlotHeld new_sched (se_id x)"
      by (simp add: start(3))
    ultimately show ?thesis
      using slot_overdraft_is_bounded [OF _ start(1) [symmetric] refl start(2), THEN conjunct2, THEN conjunct2, THEN conjunct1]
      by blast
  qed
  moreover have "getActiveCount (sched_run new_sched overlapping_termination) = 2"
    "map_option se_status (getSession (sched_run new_sched overlapping_termination) ''a'') = Some SActive"
    "map_option se_status (getSession (sched_run new_sched overlapping_termination) ''c'') = Some SActive" by code_simp+
  ultimately show ?thesis by (simp add: one)
qed

definition one_active :: sched where
  "one_active = sched_run new_sched [(run_env 0 2, SdStart ''c'' 1 1 None (run_message ''c'') DkFresh)]"

theorem only_idle_sessions_yield_witness:
  "\<exists>v s'. acquireActiveSlot (run_env 5 2) ''d'' None DkFresh True one_active = (True, s') \<and> se_chatId v = ''c'' \<and> yields v one_active s'"
proof -
  let ?a = "acquireActiveSlot (run_env 5 2) ''d'' None DkFresh True one_active"
  have full: "ev_concurrency (run_env 5 2) \<le> getActiveCount one_active" by code_simp
  have v: "map_option (\<lambda>(v, how). (se_chatId v, how)) (chosen_victim (run_env 5 2) ''d'' DkFresh one_active) = Some (''c'', VictimIdle)"
    by code_simp
  then obtain v where "chosen_victim (run_env 5 2) ''d'' DkFresh one_active = Some (v, VictimIdle)" "se_chatId v = ''c''" by auto
  with only_idle_sessions_yield [OF full, of "''d''" None DkFresh True "fst ?a" "snd ?a", THEN conjunct2]
  have "fst ?a \<and> yields v one_active (snd ?a)" by simp
  with \<open>se_chatId v = ''c''\<close> show ?thesis by (metis prod.collapse)
qed

theorem idle_sweep_is_exact_witness:
  "map_option se_status (getSession (evictIdle (run_env 90000 2) one_active) ''c'') = Some SSuspended"
proof -
  have "map_option (\<lambda>x. idle_expired (run_env 90000 2) x) (getSession one_active ''c'') = Some True" by code_simp
  moreover have "getSession (evictIdle (run_env 90000 2) one_active) ''c'' =
      map_option (\<lambda>x. if idle_expired (run_env 90000 2) x then x\<lparr>se_status := SSuspended\<rparr> else x) (getSession one_active ''c'')"
    by (rule idle_sweep_is_exact [OF _ one_active_def, of 1]) (simp add: run_env_def)
  ultimately show ?thesis by auto
qed

theorem retry_timers_are_tracked_witness:
  "timer_of (sched_run new_sched (failed_start ''c'' 1 1 0)) 1 = Some 0"
proof -
  have "map (\<lambda>t. (lt_entry t, lt_id t)) (sc_timers (sched_run new_sched (failed_start ''c'' 1 1 0))) = [(1, 0)]" by code_simp
  then show ?thesis using retry_timers_are_tracked [of "failed_start ''c'' 1 1 0"] by auto
qed

definition run_answers :: "(sched_env \<times> sched_event) list" where
  "run_answers = map (\<lambda>a. (run_env 2000 2, SdFlight ''c'' a)) [FaSettled True, FaDone, FaStopped True]"

definition retrying :: sched where
  "retrying = sched_run new_sched (failed_start ''c'' 1 1 0 @ [(run_env 2000 2, SdTimer 0)])"

theorem retry_flight_ends_witness:
  "answers_taken ''c'' retrying run_answers \<le> 8 \<and> answers_taken ''c'' retrying run_answers = 3"
proof -
  have "flight_of retrying ''c'' \<noteq> None" by code_simp
  then obtain f where "flight_of retrying ''c'' = Some f" by blast
  from retry_flight_ends [OF this, of run_answers] have "answers_taken ''c'' retrying run_answers \<le> 8" by (simp add: run_answers_def)
  moreover have "answers_taken ''c'' retrying run_answers = 3" by code_simp
  ultimately show ?thesis by simp
qed

definition authorizing :: sched where
  "authorizing = sched_run new_sched (failed_start ''c'' 1 1 0 @ [(run_env 2000 2, SdTimer 0)] @ run_answers)"

theorem retry_install_is_exclusive_witness:
  "map_option fl_replaced (flight_of authorizing ''c'') = Some (Some 1) \<and>
   map_option se_handler (getSession (sched_step authorizing (run_env 3000 2, SdFlight ''c'' (FaAuthorized True 9))) ''c'') = Some 9"
proof -
  let ?s' = "sched_step authorizing (run_env 3000 2, SdFlight ''c'' (FaAuthorized True 9))"
  have e: "map_option fl_phase (flight_of authorizing ''c'') = Some PhAuthorize" by code_simp
  have e': "map_option fl_phase (flight_of ?s' ''c'') = Some (PhRoute 9)" by code_simp
  have h: "map_option se_handler (getSession authorizing ''c'') = Some 1" by code_simp
  from e obtain f where f: "flight_of authorizing ''c'' = Some f" "fl_phase f = PhAuthorize" by auto
  from e' obtain f' where f': "flight_of ?s' ''c'' = Some f'" "fl_phase f' = PhRoute 9" by auto
  have "\<forall>qe \<in> set (failed_start ''c'' 1 1 0 @ [(run_env 2000 2, SdTimer 0)] @ run_answers). ev_concurrency (fst qe) = 1"
    by (auto simp: failed_start_def run_answers_def run_env_def)
  from retry_install_is_exclusive [OF this _ authorizing_def f(1) _ f'] f(2) h f(1)
  show ?thesis by (auto simp: run_env_def)
qed

theorem long_wait_retries_at_once_witness:
  "\<exists>t. t \<in> set (sc_timers (snd (handleSessionFailure (run_env 5 2) (the (getSession one_active ''c''))
      (run_capacity\<lparr>fc_retryAfterMs := Some 2592000000\<rparr>) PhaseResume None None one_active))) \<and> lt_delay t = 1"
proof -
  have "peekSlot one_active (se_id (the (getSession one_active ''c''))) \<noteq> None" by code_simp
  from long_wait_retries_at_once [OF this, of "run_capacity\<lparr>fc_retryAfterMs := Some 2592000000\<rparr>" 2592000000 "run_env 5 2" PhaseResume None None]
  show ?thesis by (auto simp: run_capacity_def TIMEOUT_MAX_def)
qed

end
