(* ===== verification/ResetReplay.thy ===== *)
theory ResetReplay
  imports ReplayFence SessionRegistry RuntimeTypes
begin

text \<open>
  The model of \<open>runtime/reset-replay-authority.ts\<close>: the fence that a Reset puts on the admission of a
  chat until the server has confirmed it, and the reconciliation of the replay fences with what the
  server has settled. An awaited probe is a round (\<open>rr_rounds\<close>) that goes on with its answer; timers are
  numbers that are live from \<open>setTimeout\<close> until they fire or are cleared. The answers of the host at
  the time of a call are \<open>reset_env\<close>; what is asked of the host, the server and the inbox is recorded in
  \<open>rr_calls\<close>. The registry that a Reset flushes, and its disk, are kept beside the state.
\<close>

section \<open>State\<close>

definition REPLAY_FENCE_RECONCILE_INTERVAL_MS :: int where "REPLAY_FENCE_RECONCILE_INTERVAL_MS = 30000"

definition INBOX_FENCE_PROBE_MAX_IDS :: nat where "INBOX_FENCE_PROBE_MAX_IDS = 50"

datatype reset_verdict = VerdictAccepted | VerdictIdempotent | VerdictStale

text \<open>\<open>re_io\<close> says which file system calls fail while the fence of a message is cleared.\<close>

record reset_env =
  re_shuttingDown :: bool
  re_quarantined :: "string \<Rightarrow> bool"
  re_recoveryDebt :: "string \<Rightarrow> bool"
  re_unsettled :: "string \<Rightarrow> bool"
  re_canRecover :: bool
  re_canProbe :: bool
  re_io :: "string \<Rightarrow> io"

datatype reset_call =
    RcPark string "string list" string
  | RcRecoverIfNeeded string string
  | RcMarkSettled string "string list"
  | RcSettle string "string list"
  | RcRecoverChat string
  | RcProject string
  | RcRuntimeError string
  | RcProbe string "string list"

record reset_generation =
  gn_refs :: "string list"
  gn_released :: bool

datatype reset_timer = ReconcileTimer string | RecoveryTimer string

text \<open>What follows a round: nothing, the tail of the timer loop, or the chats that the start goes over.\<close>

datatype round_then = ThenNothing | ThenLoop | ThenChats "string list"

record probe_round =
  pr_chat :: string
  pr_asked :: "string list"
  pr_chunk :: "string list"
  pr_rest :: "string list"
  pr_settled :: "string list"
  pr_then :: round_then

record reset_replay =
  rr_terminating :: "(string, nat) jsmap"
  rr_nextFlight :: nat
  rr_persistFailures :: "string list"
  rr_awaiting :: "string list"
  rr_generations :: "(string, reset_generation) jsmap"
  rr_scheduled :: "string list"
  rr_store :: "fence_store option"
  rr_disk :: disk
  rr_unavailable :: bool
  rr_proven :: "(string, string list) jsmap"
  rr_retryTimers :: "(string, nat) jsmap"
  rr_debt :: "string list"
  rr_recoveryTimers :: "(string, nat) jsmap"
  rr_inFlight :: "string list"
  rr_live :: "(nat \<times> reset_timer) list"
  rr_nextTimer :: nat
  rr_rounds :: "(nat, probe_round) jsmap"
  rr_nextRound :: nat
  rr_calls :: "reset_call list"
  rr_registry :: registry
  rr_registryDisk :: disk

text \<open>The constructor: without a path there is no store; a store that fails to load is kept but not trusted.\<close>

definition new_reset :: "disk option \<Rightarrow> registry \<Rightarrow> disk \<Rightarrow> reset_replay" where
  "new_reset path reg regDisk =
     (let base = \<lparr>rr_terminating = [], rr_nextFlight = 0, rr_persistFailures = [], rr_awaiting = [], rr_generations = [],
            rr_scheduled = [], rr_store = None, rr_disk = (case path of Some d \<Rightarrow> d | None \<Rightarrow> regDisk), rr_unavailable = False,
            rr_proven = [], rr_retryTimers = [], rr_debt = [], rr_recoveryTimers = [], rr_inFlight = [], rr_live = [],
            rr_nextTimer = 0, rr_rounds = [], rr_nextRound = 0, rr_calls = [], rr_registry = reg, rr_registryDisk = regDisk\<rparr>
      in case path of
           None \<Rightarrow> base
         | Some d \<Rightarrow>
             (case load_store d new_fence_store of
                (Inr _, st) \<Rightarrow> base\<lparr>rr_store := Some st\<rparr>
              | (Inl _, st) \<Rightarrow> base\<lparr>rr_store := Some st, rr_unavailable := True\<rparr>))"

definition ask :: "reset_call \<Rightarrow> reset_replay \<Rightarrow> reset_replay" where
  "ask x s = s\<lparr>rr_calls := rr_calls s @ [x]\<rparr>"


section \<open>The admission fence of a Reset\<close>

definition hasTerminatingChat :: "reset_replay \<Rightarrow> string \<Rightarrow> bool" where
  "hasTerminatingChat s c = js_has (rr_terminating s) c"

definition terminatingChatIds :: "reset_replay \<Rightarrow> string list" where
  "terminatingChatIds s = js_keys (rr_terminating s)"

definition joinInFlightTermination :: "reset_replay \<Rightarrow> string \<Rightarrow> nat option" where
  "joinInFlightTermination s c = js_get (rr_terminating s) c"

text \<open>The result is the flight that is joined or started.\<close>

definition runOrJoinTermination :: "string \<Rightarrow> reset_replay \<Rightarrow> nat \<times> reset_replay" where
  "runOrJoinTermination c s =
     (case js_get (rr_terminating s) c of
        Some i \<Rightarrow> (i, s)
      | None \<Rightarrow> (rr_nextFlight s, s\<lparr>rr_terminating := js_set (rr_terminating s) c (rr_nextFlight s),
                                    rr_nextFlight := Suc (rr_nextFlight s)\<rparr>))"

definition termination_ends :: "string \<Rightarrow> nat \<Rightarrow> reset_replay \<Rightarrow> reset_replay" where
  "termination_ends c i s =
     (if js_get (rr_terminating s) c = Some i then s\<lparr>rr_terminating := js_delete (rr_terminating s) c\<rparr> else s)"

definition hasArmedResetGeneration :: "reset_replay \<Rightarrow> string \<Rightarrow> bool" where
  "hasArmedResetGeneration s c = (case js_get (rr_generations s) c of None \<Rightarrow> False | Some g \<Rightarrow> \<not> gn_released g)"

definition armedResetGenerationChatIds :: "reset_replay \<Rightarrow> string list" where
  "armedResetGenerationChatIds s = filter (hasArmedResetGeneration s) (js_keys (rr_generations s))"

definition isProviderRouteAdmissionFenced :: "reset_env \<Rightarrow> reset_replay \<Rightarrow> string \<Rightarrow> bool" where
  "isProviderRouteAdmissionFenced q s c =
     (hasTerminatingChat s c \<or> c \<in> set (rr_persistFailures s) \<or> c \<in> set (rr_awaiting s) \<or>
      hasArmedResetGeneration s c \<or> re_quarantined q c)"

definition parkDeliveryBehindResetAdmissionFence :: "string \<Rightarrow> string list \<Rightarrow> reset_replay \<Rightarrow> reset_replay" where
  "parkDeliveryBehindResetAdmissionFence c ids s =
     ask (RcPark c ids ''reset_admission_fence'') (s\<lparr>rr_awaiting := set_add (rr_awaiting s) c\<rparr>)"

definition armParkedResetFenceRelease :: "reset_env \<Rightarrow> string \<Rightarrow> string option \<Rightarrow> bool \<Rightarrow> reset_replay \<Rightarrow> reset_replay" where
  "armParkedResetFenceRelease q c ref join s =
     (let awaiting = s\<lparr>rr_awaiting := set_add (rr_awaiting s) c\<rparr> in
      case ref of
        Some r \<Rightarrow>
          awaiting\<lparr>rr_generations := js_set (rr_generations s) c
             (case js_get (rr_generations s) c of
                Some g \<Rightarrow> if join \<and> \<not> gn_released g then g\<lparr>gn_refs := set_add (gn_refs g) r\<rparr>
                          else \<lparr>gn_refs = [r], gn_released = False\<rparr>
              | None \<Rightarrow> \<lparr>gn_refs = [r], gn_released = False\<rparr>)\<rparr>
      | None \<Rightarrow>
          if hasArmedResetGeneration s c \<or> c \<in> set (rr_persistFailures s) then s
          else if \<not> re_recoveryDebt q c \<and> \<not> re_unsettled q c then s\<lparr>rr_awaiting := set_remove (rr_awaiting s) c\<rparr>
          else awaiting)"

definition runParkedResetFenceRecovery :: "reset_env \<Rightarrow> string \<Rightarrow> reset_replay \<Rightarrow> bool \<times> reset_replay" where
  "runParkedResetFenceRecovery q c s =
     (if hasTerminatingChat s c \<or> c \<in> set (rr_persistFailures s) then (False, s)
      else if c \<in> set (rr_scheduled s) then (True, s)
      else
        let s = s\<lparr>rr_scheduled := set_add (rr_scheduled s) c, rr_awaiting := set_remove (rr_awaiting s) c\<rparr>;
            s = (if re_recoveryDebt q c \<or> re_unsettled q c
                 then ask (RcRecoverIfNeeded c ''reset_admission_fence_cleared'') s else s)
        in (True, s\<lparr>rr_scheduled := set_remove (rr_scheduled s) c\<rparr>))"

definition releaseParkedResetFenceRecovery ::
  "reset_env \<Rightarrow> string \<Rightarrow> string option \<Rightarrow> reset_replay \<Rightarrow> reset_verdict \<times> reset_replay" where
  "releaseParkedResetFenceRecovery q c ref s =
     (case ref of
        None \<Rightarrow>
          if hasArmedResetGeneration s c then (VerdictStale, s)
          else (case runParkedResetFenceRecovery q c s of (lifted, s) \<Rightarrow> (if lifted then VerdictAccepted else VerdictStale, s))
      | Some r \<Rightarrow>
          (case js_get (rr_generations s) c of
             None \<Rightarrow> (VerdictStale, s)
           | Some g \<Rightarrow>
               if r \<notin> set (gn_refs g) then (VerdictStale, s)
               else if gn_released g then (VerdictIdempotent, s)
               else (case runParkedResetFenceRecovery q c s of
                       (False, s) \<Rightarrow> (VerdictStale, s)
                     | (True, s) \<Rightarrow>
                         (VerdictAccepted, s\<lparr>rr_generations := js_set (rr_generations s) c (g\<lparr>gn_released := True\<rparr>)\<rparr>))))"

definition supersedeResetGeneration :: "reset_env \<Rightarrow> string \<Rightarrow> reset_replay \<Rightarrow> reset_verdict \<times> reset_replay" where
  "supersedeResetGeneration q c s =
     (case runParkedResetFenceRecovery q c (s\<lparr>rr_generations := js_delete (rr_generations s) c\<rparr>) of
        (lifted, s) \<Rightarrow> (if lifted then VerdictAccepted else VerdictStale, s))"

text \<open>\<open>uuid\<close> is the nonce a rotation would draw, \<open>entries\<close> the snapshot the projection persists.\<close>

definition flushTerminateRegistry ::
  "string \<Rightarrow> io \<Rightarrow> entry_map \<Rightarrow> string \<Rightarrow> reset_replay \<Rightarrow> (registry_error + unit) \<times> reset_replay" where
  "flushTerminateRegistry uuid i entries c s =
     (let (_, reg) = rotateFreshStartNonce uuid c (rr_registry s);
          (res, reg, d) = flushOrThrow i entries reg (rr_registryDisk s);
          s = s\<lparr>rr_registryDisk := d\<rparr>
      in case res of
           Inr _ \<Rightarrow> (Inr (), s\<lparr>rr_registry := markResetNonceDurable c reg,
                               rr_persistFailures := set_remove (rr_persistFailures s) c\<rparr>)
         | Inl e \<Rightarrow> (Inl e, s\<lparr>rr_registry := reg, rr_persistFailures := set_add (rr_persistFailures s) c\<rparr>))"

definition terminatePersistFailureIds :: "reset_replay \<Rightarrow> string list" where
  "terminatePersistFailureIds s = rr_persistFailures s"

definition awaitingResetFenceReleaseIds :: "reset_replay \<Rightarrow> string list" where
  "awaitingResetFenceReleaseIds s = rr_awaiting s"

definition hasPostFenceRecoveryDebt :: "reset_replay \<Rightarrow> string \<Rightarrow> bool" where
  "hasPostFenceRecoveryDebt s c = (c \<in> set (rr_debt s))"

section \<open>The replay fences\<close>

definition fences_of :: "reset_replay \<Rightarrow> fence_store" where
  "fences_of s = (case rr_store s of Some st \<Rightarrow> st | None \<Rightarrow> new_fence_store)"

definition isChatReplayFenced :: "reset_replay \<Rightarrow> string \<Rightarrow> bool" where
  "isChatReplayFenced s c =
     (rr_unavailable s \<or> (case rr_store s of None \<Rightarrow> False | Some st \<Rightarrow> hasFenceForChat st c))"

definition still_fenced :: "reset_replay \<Rightarrow> string \<Rightarrow> bool" where
  "still_fenced s c = (case rr_store s of None \<Rightarrow> False | Some st \<Rightarrow> hasFenceForChat st c)"

text \<open>The writer of a handler; without a store there is none.\<close>

definition writer_fence :: "io \<Rightarrow> replay_fence_entry \<Rightarrow> reset_replay \<Rightarrow> reset_replay" where
  "writer_fence i e s =
     (case rr_store s of
        None \<Rightarrow> s
      | Some st \<Rightarrow> (case fence i e st (rr_disk s) of (r, st, ds) \<Rightarrow> s\<lparr>rr_store := Some st, rr_disk := last ds\<rparr>))"

definition store_clear :: "io \<Rightarrow> string \<Rightarrow> string \<Rightarrow> reset_replay \<Rightarrow> bool \<times> reset_replay" where
  "store_clear i c m s =
     (case rr_store s of
        None \<Rightarrow> (False, s)
      | Some st \<Rightarrow>
          (case clear_fence i c m st (rr_disk s) of
             (r, st, ds) \<Rightarrow> ((case r of Inr _ \<Rightarrow> True | Inl _ \<Rightarrow> False), s\<lparr>rr_store := Some st, rr_disk := last ds\<rparr>)))"

definition writer_clear :: "io \<Rightarrow> string \<Rightarrow> string \<Rightarrow> reset_replay \<Rightarrow> reset_replay" where
  "writer_clear i c m s = snd (store_clear i c m s)"

definition new_timer :: "reset_timer \<Rightarrow> reset_replay \<Rightarrow> nat \<times> reset_replay" where
  "new_timer t s =
     (rr_nextTimer s, s\<lparr>rr_live := rr_live s @ [(rr_nextTimer s, t)], rr_nextTimer := Suc (rr_nextTimer s)\<rparr>)"

definition clear_timer :: "nat option \<Rightarrow> reset_replay \<Rightarrow> reset_replay" where
  "clear_timer t s = (case t of None \<Rightarrow> s | Some i \<Rightarrow> s\<lparr>rr_live := filter (\<lambda>x. fst x \<noteq> i) (rr_live s)\<rparr>)"

definition armReplayFenceRetryTimer :: "string \<Rightarrow> reset_replay \<Rightarrow> reset_replay" where
  "armReplayFenceRetryTimer c s =
     (let (i, s) = new_timer (ReconcileTimer c) s in s\<lparr>rr_retryTimers := js_set (rr_retryTimers s) c i\<rparr>)"

definition stopReplayFenceReconcileLoop :: "string \<Rightarrow> reset_replay \<Rightarrow> reset_replay" where
  "stopReplayFenceReconcileLoop c s =
     (clear_timer (js_get (rr_retryTimers s) c) s)
       \<lparr>rr_retryTimers := js_delete (rr_retryTimers s) c, rr_proven := js_delete (rr_proven s) c\<rparr>"

definition armPostFenceRecoveryTimer :: "reset_env \<Rightarrow> string \<Rightarrow> reset_replay \<Rightarrow> reset_replay" where
  "armPostFenceRecoveryTimer q c s =
     (if re_shuttingDown q then s
      else let (i, s) = new_timer (RecoveryTimer c) s in s\<lparr>rr_recoveryTimers := js_set (rr_recoveryTimers s) c i\<rparr>)"

definition beginPostFenceRecovery :: "reset_env \<Rightarrow> string \<Rightarrow> reset_replay \<Rightarrow> reset_replay" where
  "beginPostFenceRecovery q c s =
     (if re_shuttingDown q \<or> \<not> re_canRecover q then s
      else if c \<in> set (rr_inFlight s) \<or> js_has (rr_recoveryTimers s) c then s
      else ask (RcRecoverChat c) (s\<lparr>rr_debt := set_add (rr_debt s) c, rr_inFlight := set_add (rr_inFlight s) c\<rparr>))"

text \<open>The server accepted the recovery or refused it.\<close>

definition recovery_answers :: "reset_env \<Rightarrow> string \<Rightarrow> bool \<Rightarrow> reset_replay \<Rightarrow> reset_replay" where
  "recovery_answers q c accepted s =
     (if c \<notin> set (rr_inFlight s) then s
      else
        let s = (if accepted then s\<lparr>rr_debt := set_remove (rr_debt s) c\<rparr> else armPostFenceRecoveryTimer q c s)
        in ask (RcProject c) (s\<lparr>rr_inFlight := set_remove (rr_inFlight s) c\<rparr>))"

definition onChatFencesCleared :: "reset_env \<Rightarrow> string \<Rightarrow> reset_replay \<Rightarrow> reset_replay" where
  "onChatFencesCleared q c s =
     (let s = stopReplayFenceReconcileLoop c s
      in if re_canRecover q \<and> re_unsettled q c then beginPostFenceRecovery q c s else ask (RcProject c) s)"

definition proven_of :: "reset_replay \<Rightarrow> string \<Rightarrow> string list" where
  "proven_of s c = (case js_get (rr_proven s) c of Some ids \<Rightarrow> ids | None \<Rightarrow> [])"

text \<open>One after the other the proven fences of a chat are cleared; what was cleared comes back in order.\<close>

fun clear_each :: "reset_env \<Rightarrow> string \<Rightarrow> string list \<Rightarrow> string list \<Rightarrow> reset_replay \<Rightarrow> string list \<times> reset_replay" where
  "clear_each q c [] cleared s = (cleared, s)"
| "clear_each q c (m # ms) cleared s =
     (case store_clear (re_io q m) c m s of
        (True, s) \<Rightarrow> clear_each q c ms (cleared @ [m])
                      (s\<lparr>rr_proven := js_set (rr_proven s) c (set_remove (proven_of s c) m)\<rparr>)
      | (False, s) \<Rightarrow> clear_each q c ms cleared (ask (RcRuntimeError c) s))"

definition clearProvenSettledFences :: "reset_env \<Rightarrow> string \<Rightarrow> reset_replay \<Rightarrow> reset_replay" where
  "clearProvenSettledFences q c s =
     (if rr_store s = None \<or> js_get (rr_proven s) c = None then s
      else
        let (cleared, s) = clear_each q c (proven_of s c) [] s;
            s = (if proven_of s c = [] then s\<lparr>rr_proven := js_delete (rr_proven s) c\<rparr> else s);
            s = (if cleared \<noteq> [] then ask (RcSettle c cleared) s else s)
        in if still_fenced s c then s else onChatFencesCleared q c s)"

definition loop_tail :: "reset_env \<Rightarrow> string \<Rightarrow> reset_replay \<Rightarrow> reset_replay" where
  "loop_tail q c s = (if \<not> re_shuttingDown q \<and> still_fenced s c then armReplayFenceRetryTimer c s else s)"


section \<open>Rounds of probes\<close>

text \<open>The ids a reconciliation of the chat asks about; none when it returns at once.\<close>

definition probe_ids :: "reset_env \<Rightarrow> string \<Rightarrow> reset_replay \<Rightarrow> string list" where
  "probe_ids q c s =
     (if rr_store s = None \<or> rr_unavailable s \<or> \<not> re_canProbe q then []
      else foldl set_add [] (map rf_messageId (filter (\<lambda>e. rf_chatId e = c) (fence_snapshot (fences_of s)))))"

definition start_round :: "string \<Rightarrow> string list \<Rightarrow> round_then \<Rightarrow> reset_replay \<Rightarrow> reset_replay" where
  "start_round c ids k s =
     ask (RcProbe c (take INBOX_FENCE_PROBE_MAX_IDS ids))
       (s\<lparr>rr_rounds := js_set (rr_rounds s) (rr_nextRound s)
            \<lparr>pr_chat = c, pr_asked = ids, pr_chunk = take INBOX_FENCE_PROBE_MAX_IDS ids,
             pr_rest = drop INBOX_FENCE_PROBE_MAX_IDS ids, pr_settled = [], pr_then = k\<rparr>,
          rr_nextRound := Suc (rr_nextRound s)\<rparr>)"

text \<open>\<open>ensureReplayFenceReconcileLoop\<close>; \<open>immediate\<close> also starts a reconciliation of its own.\<close>

definition ensureReplayFenceReconcileLoop :: "reset_env \<Rightarrow> string \<Rightarrow> bool \<Rightarrow> reset_replay \<Rightarrow> reset_replay" where
  "ensureReplayFenceReconcileLoop q c immediate s =
     (if re_shuttingDown q \<or> js_has (rr_retryTimers s) c then s
      else
        let ids = probe_ids q c s;
            s = (if immediate \<and> ids \<noteq> [] then start_round c ids ThenNothing s else s)
        in armReplayFenceRetryTimer c s)"

fun reconcile_chats :: "reset_env \<Rightarrow> string list \<Rightarrow> reset_replay \<Rightarrow> reset_replay" where
  "reconcile_chats q [] s = s"
| "reconcile_chats q (c # cs) s =
     (let ids = probe_ids q c s in
      if ids = [] then reconcile_chats q cs (ensureReplayFenceReconcileLoop q c False s)
      else start_round c ids (ThenChats cs) s)"

definition reconcileReplayFencesWithServer :: "reset_env \<Rightarrow> reset_replay \<Rightarrow> reset_replay" where
  "reconcileReplayFencesWithServer q s =
     (if rr_store s = None \<or> rr_unavailable s then s
      else reconcile_chats q (foldl set_add [] (map rf_chatId (fence_snapshot (fences_of s)))) s)"

definition round_done :: "reset_env \<Rightarrow> string \<Rightarrow> round_then \<Rightarrow> reset_replay \<Rightarrow> reset_replay" where
  "round_done q c k s =
     (case k of
        ThenNothing \<Rightarrow> s
      | ThenLoop \<Rightarrow> loop_tail q c s
      | ThenChats cs \<Rightarrow> reconcile_chats q cs (ensureReplayFenceReconcileLoop q c False s))"

definition round_proves :: "reset_env \<Rightarrow> probe_round \<Rightarrow> string list \<Rightarrow> reset_replay \<Rightarrow> reset_replay" where
  "round_proves q r settled s =
     (let proven = foldl set_add (proven_of s (pr_chat r)) (filter (\<lambda>m. m \<in> set settled) (pr_asked r))
      in if proven = [] then s
         else clearProvenSettledFences q (pr_chat r) (s\<lparr>rr_proven := js_set (rr_proven s) (pr_chat r) proven\<rparr>))"

text \<open>The answer to the probe of a round: the settled ids, or a failure that discards the round.\<close>

definition probe_answers :: "reset_env \<Rightarrow> nat \<Rightarrow> string list option \<Rightarrow> reset_replay \<Rightarrow> reset_replay" where
  "probe_answers q i answer s =
     (case js_get (rr_rounds s) i of
        None \<Rightarrow> s
      | Some r \<Rightarrow>
          (let gone = s\<lparr>rr_rounds := js_delete (rr_rounds s) i\<rparr> in
           case answer of
             None \<Rightarrow> round_done q (pr_chat r) (pr_then r) gone
           | Some xs \<Rightarrow>
               (let settled = foldl set_add (pr_settled r) (filter (\<lambda>m. m \<in> set (pr_chunk r)) xs)
                in if pr_rest r = []
                   then round_done q (pr_chat r) (pr_then r) (round_proves q r settled gone)
                   else ask (RcProbe (pr_chat r) (take INBOX_FENCE_PROBE_MAX_IDS (pr_rest r)))
                     (s\<lparr>rr_rounds := js_set (rr_rounds s) i
                        (r\<lparr>pr_chunk := take INBOX_FENCE_PROBE_MAX_IDS (pr_rest r),
                           pr_rest := drop INBOX_FENCE_PROBE_MAX_IDS (pr_rest r), pr_settled := settled\<rparr>)\<rparr>))))"
definition reconcileReplayFenceForChat :: "reset_env \<Rightarrow> string \<Rightarrow> round_then \<Rightarrow> reset_replay \<Rightarrow> reset_replay" where
  "reconcileReplayFenceForChat q c k s =
     (let ids = probe_ids q c s in if ids = [] then round_done q c k s else start_round c ids k s)"

definition runReplayFenceReconcileLoop :: "reset_env \<Rightarrow> string \<Rightarrow> reset_replay \<Rightarrow> reset_replay" where
  "runReplayFenceReconcileLoop q c s =
     (if re_shuttingDown q \<or> rr_store s = None then s
      else if proven_of s c \<noteq> [] then loop_tail q c (clearProvenSettledFences q c s)
      else reconcileReplayFenceForChat q c ThenLoop s)"

definition reset_timer_fires :: "reset_env \<Rightarrow> nat \<Rightarrow> reset_replay \<Rightarrow> reset_replay" where
  "reset_timer_fires q i s =
     (case js_get (rr_live s) i of
        None \<Rightarrow> s
      | Some t \<Rightarrow>
          (let s = s\<lparr>rr_live := filter (\<lambda>x. fst x \<noteq> i) (rr_live s)\<rparr> in
           case t of
             ReconcileTimer c \<Rightarrow>
               runReplayFenceReconcileLoop q c (s\<lparr>rr_retryTimers := js_delete (rr_retryTimers s) c\<rparr>)
           | RecoveryTimer c \<Rightarrow>
               beginPostFenceRecovery q c (s\<lparr>rr_recoveryTimers := js_delete (rr_recoveryTimers s) c\<rparr>)))"


section \<open>Fences of acknowledged deliveries\<close>

text \<open>The result says whether some delivery of the list was fenced.\<close>

fun clear_acked :: "reset_env \<Rightarrow> string \<Rightarrow> string list \<Rightarrow> bool \<Rightarrow> reset_replay \<Rightarrow> bool \<times> reset_replay" where
  "clear_acked q c [] transitioned s = (transitioned, s)"
| "clear_acked q c (m # ms) transitioned s =
     (if \<not> isFenced (fences_of s) c m then clear_acked q c ms transitioned s
      else case store_clear (re_io q m) c m s of
        (True, s) \<Rightarrow> clear_acked q c ms True s
      | (False, s) \<Rightarrow>
          clear_acked q c ms True (ask (RcRuntimeError c)
            (ensureReplayFenceReconcileLoop q c False
              (s\<lparr>rr_proven := js_set (rr_proven s) c (set_add (proven_of s c) m)\<rparr>))))"

definition reconcileReplayFences :: "reset_env \<Rightarrow> string \<Rightarrow> string list \<Rightarrow> reset_replay \<Rightarrow> reset_replay" where
  "reconcileReplayFences q c ids s =
     (if rr_store s = None then s
      else
        let fenced = filter (isFenced (fences_of s) c) ids;
            s = (if fenced \<noteq> [] then ask (RcMarkSettled c fenced) s else s);
            (transitioned, s) = clear_acked q c ids False s
        in if transitioned \<and> \<not> still_fenced s c then onChatFencesCleared q c s else s)"

definition clearTimersOnShutdown :: "reset_replay \<Rightarrow> reset_replay" where
  "clearTimersOnShutdown s =
     (let tracked = map snd (rr_retryTimers s) @ map snd (rr_recoveryTimers s)
      in s\<lparr>rr_live := filter (\<lambda>x. fst x \<notin> set tracked) (rr_live s), rr_retryTimers := [], rr_recoveryTimers := []\<rparr>)"

definition clearResetLedgersOnShutdown :: "reset_replay \<Rightarrow> reset_replay" where
  "clearResetLedgersOnShutdown s = s\<lparr>rr_awaiting := [], rr_generations := [], rr_scheduled := []\<rparr>"

definition clearOnShutdown :: "reset_replay \<Rightarrow> reset_replay" where
  "clearOnShutdown s = clearResetLedgersOnShutdown (clearTimersOnShutdown s)"


section \<open>Runs\<close>

datatype reset_event =
    RvTerminate string
  | RvTerminateEnds string nat
  | RvFlush string io entry_map string
  | RvPark string "string list"
  | RvArm string "string option" bool
  | RvRelease string "string option"
  | RvSupersede string
  | RvFence io replay_fence_entry
  | RvClear io string string
  | RvReconcileAll
  | RvEnsure string
  | RvProbe nat "string list option"
  | RvRecovered string bool
  | RvTimer nat
  | RvAcked string "string list"
  | RvShutdownTimers
  | RvShutdownLedgers

fun reset_step :: "reset_replay \<Rightarrow> reset_env \<times> reset_event \<Rightarrow> reset_replay" where
  "reset_step s (q, RvTerminate c) = snd (runOrJoinTermination c s)"
| "reset_step s (q, RvTerminateEnds c i) = termination_ends c i s"
| "reset_step s (q, RvFlush uuid i entries c) = snd (flushTerminateRegistry uuid i entries c s)"
| "reset_step s (q, RvPark c ids) = parkDeliveryBehindResetAdmissionFence c ids s"
| "reset_step s (q, RvArm c ref join) = armParkedResetFenceRelease q c ref join s"
| "reset_step s (q, RvRelease c ref) = snd (releaseParkedResetFenceRecovery q c ref s)"
| "reset_step s (q, RvSupersede c) = snd (supersedeResetGeneration q c s)"
| "reset_step s (q, RvFence i e) = writer_fence i e s"
| "reset_step s (q, RvClear i c m) = writer_clear i c m s"
| "reset_step s (q, RvReconcileAll) = reconcileReplayFencesWithServer q s"
| "reset_step s (q, RvEnsure c) = ensureReplayFenceReconcileLoop q c True s"
| "reset_step s (q, RvProbe i answer) = probe_answers q i answer s"
| "reset_step s (q, RvRecovered c accepted) = recovery_answers q c accepted s"
| "reset_step s (q, RvTimer i) = reset_timer_fires q i s"
| "reset_step s (q, RvAcked c ids) = reconcileReplayFences q c ids s"
| "reset_step s (q, RvShutdownTimers) = clearTimersOnShutdown s"
| "reset_step s (q, RvShutdownLedgers) = clearResetLedgersOnShutdown s"

definition reset_run :: "reset_replay \<Rightarrow> (reset_env \<times> reset_event) list \<Rightarrow> reset_replay" where
  "reset_run s es = foldl reset_step s es"

end
