(* ===== verification/ResetProperties.thy ===== *)
theory ResetProperties
  imports ResetReplay FenceProperties Reachability
begin

text \<open>
  What the Reset and replay authority promises: a Reset keeps the admission of its chat closed until
  its own release is accepted, its verdicts say what happened, a replay fence is given up only for a
  settlement, and the recovery that a cleared fence owes is worked on until the server accepts it.
\<close>

section \<open>What the replay part leaves alone\<close>

definition admission :: "reset_replay \<Rightarrow> (string, nat) jsmap \<times> string list \<times> string list \<times> (string, reset_generation) jsmap \<times>
    string list \<times> registry" where
  "admission s = (rr_terminating s, rr_persistFailures s, rr_awaiting s, rr_generations s, rr_scheduled s, rr_registry s)"

named_theorems rs_admission \<open>operations that leave the Reset fences alone\<close>

lemma admission_fields [rs_admission]:
  "admission (ask x s) = admission s" "admission (s\<lparr>rr_live := l\<rparr>) = admission s"
  "admission (s\<lparr>rr_retryTimers := rt\<rparr>) = admission s" "admission (s\<lparr>rr_recoveryTimers := pt\<rparr>) = admission s"
  "admission (s\<lparr>rr_proven := pv\<rparr>) = admission s" "admission (s\<lparr>rr_debt := db\<rparr>) = admission s"
  "admission (s\<lparr>rr_rounds := rd\<rparr>) = admission s" "admission (s\<lparr>rr_inFlight := fl\<rparr>) = admission s"
  "admission (snd (new_timer t s)) = admission s" "admission (clear_timer i s) = admission s"
  "admission (writer_fence io e s) = admission s" "admission (snd (store_clear io c m s)) = admission s"
  "admission (start_round c ids k s) = admission s"
  by (simp_all add: admission_def ask_def new_timer_def clear_timer_def writer_fence_def store_clear_def start_round_def
      split: option.split prod.split)

lemma admission_timers [rs_admission]:
  "admission (armReplayFenceRetryTimer c s) = admission s" "admission (stopReplayFenceReconcileLoop c s) = admission s"
  "admission (armPostFenceRecoveryTimer q c s) = admission s" "admission (beginPostFenceRecovery q c s) = admission s"
  "admission (recovery_answers q c b s) = admission s" "admission (loop_tail q c s) = admission s"
  by (simp_all add: armReplayFenceRetryTimer_def stopReplayFenceReconcileLoop_def armPostFenceRecoveryTimer_def
      beginPostFenceRecovery_def recovery_answers_def loop_tail_def new_timer_def admission_def ask_def clear_timer_def Let_def
      split: option.split)

lemma admission_cleared [rs_admission]: "admission (onChatFencesCleared q c s) = admission s"
  by (simp add: onChatFencesCleared_def Let_def rs_admission)

lemma admission_each [rs_admission]: "admission (snd (clear_each q c ms cl s)) = admission s"
proof (induction ms arbitrary: cl s)
  case (Cons m ms)
  obtain b s' where b: "store_clear (re_io q m) c m s = (b, s')" by fastforce
  then have "admission s' = admission s" using rs_admission(12) [of "re_io q m" c m s] by simp
  with Cons.IH b show ?case by (cases b) (simp_all add: rs_admission)
qed simp

lemma admission_proven [rs_admission]: "admission (clearProvenSettledFences q c s) = admission s"
proof -
  obtain cl s' where e: "clear_each q c (proven_of s c) [] s = (cl, s')" by fastforce
  then have "admission s' = admission s" using admission_each [of q c "proven_of s c" "[]" s] by simp
  with e show ?thesis by (simp add: clearProvenSettledFences_def Let_def rs_admission)
qed

lemma admission_ensure [rs_admission]: "admission (ensureReplayFenceReconcileLoop q c b s) = admission s"
  by (simp add: ensureReplayFenceReconcileLoop_def Let_def rs_admission)

lemma admission_chats [rs_admission]: "admission (reconcile_chats q cs s) = admission s"
  by (induction cs arbitrary: s) (simp_all add: Let_def rs_admission)

lemma admission_rounds [rs_admission]:
  "admission (round_done q c k s) = admission s" "admission (round_proves q r st s) = admission s"
  "admission (reconcileReplayFencesWithServer q s) = admission s" "admission (reconcileReplayFenceForChat q c k s) = admission s"
  by (simp_all add: round_done_def round_proves_def reconcileReplayFencesWithServer_def reconcileReplayFenceForChat_def Let_def
      rs_admission split: round_then.split)

lemma admission_probe [rs_admission]: "admission (probe_answers q i a s) = admission s"
  by (simp add: probe_answers_def Let_def rs_admission split: option.split)

lemma admission_loop [rs_admission]: "admission (runReplayFenceReconcileLoop q c s) = admission s"
  by (simp add: runReplayFenceReconcileLoop_def rs_admission)

lemma admission_fires [rs_admission]: "admission (reset_timer_fires q i s) = admission s"
  by (simp add: reset_timer_fires_def Let_def rs_admission split: option.split reset_timer.split)

lemma admission_acked_each [rs_admission]: "admission (snd (clear_acked q c ms t s)) = admission s"
proof (induction ms arbitrary: t s)
  case (Cons m ms)
  obtain b s' where b: "store_clear (re_io q m) c m s = (b, s')" by fastforce
  then have "admission s' = admission s" using rs_admission(12) [of "re_io q m" c m s] by simp
  with Cons.IH b show ?case by (cases b) (simp_all add: rs_admission)
qed simp

lemma admission_acked [rs_admission]: "admission (reconcileReplayFences q c ids s) = admission s"
proof -
  let ?s = "if filter (isFenced (fences_of s) c) ids \<noteq> []
    then ask (RcMarkSettled c (filter (isFenced (fences_of s) c) ids)) s else s"
  obtain t s' where e: "clear_acked q c ids False ?s = (t, s')" by fastforce
  have "admission s' = admission ?s" using admission_acked_each [of q c ids False ?s] e by simp
  also have "\<dots> = admission s" by (simp add: rs_admission)
  finally show ?thesis using e by (simp add: reconcileReplayFences_def Let_def rs_admission)
qed

lemma admission_eq:
  "admission s' = admission s \<Longrightarrow> rr_terminating s' = rr_terminating s" "admission s' = admission s \<Longrightarrow> rr_persistFailures s' = rr_persistFailures s"
  "admission s' = admission s \<Longrightarrow> rr_awaiting s' = rr_awaiting s" "admission s' = admission s \<Longrightarrow> rr_generations s' = rr_generations s"
  "admission s' = admission s \<Longrightarrow> rr_scheduled s' = rr_scheduled s" "admission s' = admission s \<Longrightarrow> rr_registry s' = rr_registry s"
  by (simp_all add: admission_def)

section \<open>The fence of a Reset\<close>

lemma armed_cong: "admission s' = admission s \<Longrightarrow> hasArmedResetGeneration s' c = hasArmedResetGeneration s c"
  by (simp add: hasArmedResetGeneration_def admission_def)

lemmas armed_same = rs_admission [THEN armed_cong]

lemma run_parked_generations:
  "rr_generations (snd (runParkedResetFenceRecovery q c s)) = rr_generations s"
  by (simp add: runParkedResetFenceRecovery_def Let_def ask_def)

lemma flush_generations: "rr_generations (snd (flushTerminateRegistry u i en c s)) = rr_generations s"
  by (simp add: flushTerminateRegistry_def Let_def split: prod.split sum.split)

definition release_accepted :: "reset_env \<Rightarrow> string \<Rightarrow> string \<Rightarrow> reset_replay \<Rightarrow> bool" where
  "release_accepted q c r s \<longleftrightarrow>
     (\<exists>g. js_get (rr_generations s) c = Some g \<and> r \<in> set (gn_refs g) \<and> \<not> gn_released g) \<and>
     fst (releaseParkedResetFenceRecovery q c (Some r) s) = VerdictAccepted"

definition lifts_fence :: "string \<Rightarrow> reset_replay \<Rightarrow> reset_env \<times> reset_event \<Rightarrow> bool" where
  "lifts_fence c s qe \<longleftrightarrow> snd qe = RvSupersede c \<or> snd qe = RvShutdownLedgers \<or>
     (\<exists>r. snd qe = RvRelease c (Some r) \<and> release_accepted (fst qe) c r s)"

lemma release_keeps:
  assumes "hasArmedResetGeneration s c" and "\<not> hasArmedResetGeneration (snd (releaseParkedResetFenceRecovery q d ref s)) c"
  shows "d = c \<and> (\<exists>r. ref = Some r \<and> release_accepted q c r s)"
proof -
  have run: "rr_generations u = rr_generations s" if "runParkedResetFenceRecovery q d s = (b, u)" for b u
    using run_parked_generations [of q d s] that by simp
  show ?thesis using assms
    by (auto simp: releaseParkedResetFenceRecovery_def release_accepted_def hasArmedResetGeneration_def
        split: option.splits if_splits prod.splits bool.splits dest: run)
qed

lemma armed_step:
  assumes "hasArmedResetGeneration s c" and "\<not> hasArmedResetGeneration (reset_step s (q, ev)) c"
  shows "lifts_fence c s (q, ev)"
proof (cases ev)
  case (RvRelease d ref)
  with release_keeps [OF assms(1), of q d ref] assms(2) show ?thesis by (auto simp: lifts_fence_def)
next
  case (RvSupersede d)
  with assms show ?thesis
    by (auto simp: lifts_fence_def supersedeResetGeneration_def hasArmedResetGeneration_def run_parked_generations split_beta
        split: if_splits)
next
  case (RvArm d ref j)
  with assms show ?thesis
    by (auto simp: armParkedResetFenceRelease_def Let_def hasArmedResetGeneration_def split: option.splits if_splits)
next
  case (RvFlush u i en d)
  with assms show ?thesis by (simp add: hasArmedResetGeneration_def flush_generations)
next
  case (RvTerminate d)
  with assms show ?thesis by (simp add: hasArmedResetGeneration_def runOrJoinTermination_def split: option.splits)
next
  case (RvTerminateEnds d i)
  with assms show ?thesis by (simp add: hasArmedResetGeneration_def termination_ends_def split: if_splits)
next
  case (RvPark d ids)
  with assms show ?thesis by (simp add: hasArmedResetGeneration_def parkDeliveryBehindResetAdmissionFence_def ask_def)
next
  case RvShutdownTimers
  with assms show ?thesis by (simp add: hasArmedResetGeneration_def clearTimersOnShutdown_def Let_def)
next
  case RvShutdownLedgers
  then show ?thesis by (simp add: lifts_fence_def)
next
  case (RvClear i d m)
  with assms show ?thesis by (simp add: armed_same writer_clear_def)
qed (use assms in \<open>simp_all add: armed_same\<close>)

text \<open>
  C23. An armed Reset closes the admission of its chat until an event lifts it, and only three
  do: the accepted release of a reference that the armed generation itself carries, a supersession, or the
  shutdown of the manager. Any sequence of other events leaves the chat fenced, whatever else is parked,
  flushed, terminated, released or reconciled.
\<close>

theorem reset_fence_needs_its_release:
  assumes "hasArmedResetGeneration s c" and "\<not> isProviderRouteAdmissionFenced q (reset_run s es) c"
  shows "\<exists>before e after. es = before @ e # after \<and> hasArmedResetGeneration (reset_run s before) c \<and>
    lifts_fence c (reset_run s before) e"
proof -
  have "\<not> hasArmedResetGeneration (reset_run s es) c" using assms(2) by (simp add: isProviderRouteAdmissionFenced_def)
  with assms(1) show ?thesis
  proof (induction es arbitrary: s)
    case (Cons e es)
    show ?case
    proof (cases "hasArmedResetGeneration (reset_step s e) c")
      case True
      have "\<not> hasArmedResetGeneration (reset_run (reset_step s e) es) c" using Cons.prems(2) by (simp add: reset_run_def)
      from Cons.IH [OF True this] obtain before e' after where "es = before @ e' # after"
        "hasArmedResetGeneration (reset_run (reset_step s e) before) c" "lifts_fence c (reset_run (reset_step s e) before) e'"
        by blast
      then show ?thesis by (intro exI [of _ "e # before"]) (auto simp: reset_run_def)
    next
      case False
      with Cons.prems(1) armed_step [of s c "fst e" "snd e"] show ?thesis
        by (intro exI [of _ "[]"]) (auto simp: reset_run_def)
    qed
  qed (simp add: reset_run_def)
qed

lemma scheduled_step: "rr_scheduled s = [] \<Longrightarrow> rr_scheduled (reset_step s (q, ev)) = []"
proof -
  assume a: "rr_scheduled s = []"
  have park: "rr_scheduled (snd (runParkedResetFenceRecovery q c u)) = []" if "rr_scheduled u = []" for c u
    using that by (simp add: runParkedResetFenceRecovery_def Let_def ask_def set_add_def set_remove_def)
  show ?thesis
  proof (cases ev)
    case (RvRelease c ref)
    then show ?thesis using a park [of s c]
      by (auto simp: releaseParkedResetFenceRecovery_def split: option.split prod.split bool.split)
  next
    case (RvSupersede c)
    then show ?thesis using a park [of "s\<lparr>rr_generations := js_delete (rr_generations s) c\<rparr>" c]
      by (auto simp: supersedeResetGeneration_def split: prod.split)
  next
    case (RvClear i d m)
    then show ?thesis using a by (simp add: writer_clear_def rs_admission [THEN admission_eq(5)])
  qed (use a in \<open>auto simp: rs_admission [THEN admission_eq(5)] armParkedResetFenceRelease_def flushTerminateRegistry_def
        runOrJoinTermination_def termination_ends_def parkDeliveryBehindResetAdmissionFence_def ask_def Let_def
        clearTimersOnShutdown_def clearResetLedgersOnShutdown_def split: option.split prod.split sum.split\<close>)
qed

lemma scheduled_run: "rr_scheduled (reset_run (new_reset path reg d) es) = []"
proof (induction es rule: rev_induct)
  case Nil
  then show ?case by (simp add: reset_run_def new_reset_def Let_def split: option.split sum.split prod.split)
next
  case (snoc e es)
  then show ?case using scheduled_step [of "reset_run (new_reset path reg d) es" "fst e" "snd e"] by (simp add: reset_run_def)
qed

text \<open>
  C25. The verdict on a release says what happened. Accepted: nothing of a Reset fences the chat
  any more, a release by reference was for the generation that was armed, and exactly one recovery was asked
  for when anything is parked or unsettled. Idempotent: that very generation had been released before, and
  nothing changed. Stale: nothing changed.
\<close>

theorem reset_verdicts_are_truthful:
  assumes "s = reset_run (new_reset path reg d) es" and "releaseParkedResetFenceRecovery q c ref s = (v, s')"
  shows "(case v of
      VerdictAccepted \<Rightarrow>
        (\<forall>q'. isProviderRouteAdmissionFenced q' s' c = re_quarantined q' c) \<and>
        (hasArmedResetGeneration s c \<longrightarrow> (\<exists>r g. ref = Some r \<and> js_get (rr_generations s) c = Some g \<and> r \<in> set (gn_refs g))) \<and>
        rr_calls s' = rr_calls s @ (if re_recoveryDebt q c \<or> re_unsettled q c
          then [RcRecoverIfNeeded c ''reset_admission_fence_cleared''] else [])
    | VerdictIdempotent \<Rightarrow>
        s' = s \<and> (\<exists>r g. ref = Some r \<and> js_get (rr_generations s) c = Some g \<and> r \<in> set (gn_refs g) \<and> gn_released g)
    | VerdictStale \<Rightarrow> s' = s)"
proof -
  have sch: "rr_scheduled s = []" unfolding assms(1) by (rule scheduled_run)
  have run: "b = (\<not> (hasTerminatingChat s c \<or> c \<in> set (rr_persistFailures s))) \<and> (\<not> b \<longrightarrow> u = s) \<and>
      (b \<longrightarrow> c \<notin> set (rr_awaiting u) \<and> rr_terminating u = rr_terminating s \<and> rr_persistFailures u = rr_persistFailures s \<and>
         rr_generations u = rr_generations s \<and> rr_calls u = rr_calls s @ (if re_recoveryDebt q c \<or> re_unsettled q c
          then [RcRecoverIfNeeded c ''reset_admission_fence_cleared''] else []))"
    if "runParkedResetFenceRecovery q c s = (b, u)" for b u
    using that sch unfolding runParkedResetFenceRecovery_def Let_def
    by (cases "hasTerminatingChat s c \<or> c \<in> set (rr_persistFailures s)") (auto simp: ask_def)
  note dest = run
  show ?thesis using assms(2)
    by (auto simp: releaseParkedResetFenceRecovery_def isProviderRouteAdmissionFenced_def hasArmedResetGeneration_def
        hasTerminatingChat_def split: option.splits if_splits prod.splits bool.splits dest!: dest)
qed

lemma unflushed_step:
  assumes "c \<in> set (rr_persistFailures s)" and "\<And>u i en. ev \<noteq> RvFlush u i en c"
  shows "c \<in> set (rr_persistFailures (reset_step s (q, ev))) \<and>
    js_get (rg_rotations (rr_registry (reset_step s (q, ev)))) c = js_get (rg_rotations (rr_registry s)) c"
proof (cases ev)
  case (RvFlush u i en d)
  with assms(2) have "d \<noteq> c" by auto
  with RvFlush assms(1) show ?thesis
    by (auto simp: flushTerminateRegistry_def rotateFreshStartNonce_def flushOrThrow_def clearPendingWrite_def
        markResetNonceDurable_def Let_def split: prod.splits sum.splits option.splits list.splits)
next
  case (RvRelease d ref)
  have run: "rr_persistFailures u = rr_persistFailures s \<and> rr_registry u = rr_registry s"
    if "runParkedResetFenceRecovery q d s = (b, u)" for b u
    using that by (auto simp: runParkedResetFenceRecovery_def Let_def ask_def split: if_splits)
  show ?thesis using assms(1) RvRelease
    by (auto simp: releaseParkedResetFenceRecovery_def dest: run split: option.splits prod.splits bool.splits)
next
  case (RvSupersede d)
  let ?s = "s\<lparr>rr_generations := js_delete (rr_generations s) d\<rparr>"
  have run: "rr_persistFailures u = rr_persistFailures s \<and> rr_registry u = rr_registry s"
    if "runParkedResetFenceRecovery q d ?s = (b, u)" for b u
    using that by (auto simp: runParkedResetFenceRecovery_def Let_def ask_def split: if_splits)
  show ?thesis using assms(1) RvSupersede by (auto simp: supersedeResetGeneration_def dest: run split: prod.splits)
next
  case (RvClear i d m)
  then show ?thesis using assms(1) by (simp add: writer_clear_def rs_admission [THEN admission_eq(2)] rs_admission [THEN admission_eq(6)])
qed (use assms(1) in \<open>auto simp: rs_admission [THEN admission_eq(2)] rs_admission [THEN admission_eq(6)]
      armParkedResetFenceRelease_def runOrJoinTermination_def termination_ends_def parkDeliveryBehindResetAdmissionFence_def
      ask_def Let_def clearTimersOnShutdown_def clearResetLedgersOnShutdown_def split: option.split\<close>)

text \<open>The registry flush of the chat that succeeds.\<close>

definition flush_succeeds :: "string \<Rightarrow> reset_replay \<Rightarrow> reset_env \<times> reset_event \<Rightarrow> bool" where
  "flush_succeeds c s qe \<longleftrightarrow>
     (\<exists>u i en. snd qe = RvFlush u i en c \<and> (\<exists>r. fst (flushTerminateRegistry u i en c s) = Inr r))"

definition flush_failed :: "string \<Rightarrow> string \<Rightarrow> reset_replay \<Rightarrow> bool" where
  "flush_failed c n s \<longleftrightarrow> c \<in> set (rr_persistFailures s) \<and> js_get (rg_rotations (rr_registry s)) c = Some n"

lemma failing_flush:
  assumes "flushTerminateRegistry u i en c s = (Inl e, s')" and "fst (rotateFreshStartNonce u c (rr_registry s)) = n" and "n \<noteq> []"
  shows "flush_failed c n s'"
  using assms
  by (auto simp: flush_failed_def flushTerminateRegistry_def rotateFreshStartNonce_def flushOrThrow_def clearPendingWrite_def
      Let_def split: prod.splits sum.splits option.splits list.splits if_splits)

lemma rotation_kept: "flush_failed c n s \<Longrightarrow> n \<noteq> [] \<Longrightarrow> fst (rotateFreshStartNonce u c (rr_registry s)) = n"
  by (cases n) (simp_all add: flush_failed_def rotateFreshStartNonce_def)

lemma unflushed_next:
  assumes "flush_failed c n s" and "n \<noteq> []" and "\<not> flush_succeeds c s qe"
  shows "flush_failed c n (reset_step s qe)"
proof (cases "\<exists>u i en. snd qe = RvFlush u i en c")
  case True
  then obtain q u i en where qe: "qe = (q, RvFlush u i en c)" by (cases qe) auto
  obtain r s' where f: "flushTerminateRegistry u i en c s = (r, s')" by fastforce
  from assms(3) qe f obtain e where "r = Inl e" by (cases r) (auto simp: flush_succeeds_def)
  with failing_flush [of u i en c s e s' n] rotation_kept [OF assms(1,2)] assms(2) f qe show ?thesis by simp
next
  case False
  with unflushed_step [of c s "snd qe" "fst qe"] assms(1) show ?thesis by (auto simp: flush_failed_def)
qed

lemma unflushed_run:
  assumes "flush_failed c n s" and "n \<noteq> []"
    and "\<forall>before qe after. es = before @ qe # after \<longrightarrow> \<not> flush_succeeds c (reset_run s before) qe"
  shows "flush_failed c n (reset_run s es)"
  using assms
proof (induction es arbitrary: s)
  case (Cons e es)
  have "\<not> flush_succeeds c (reset_run s []) e" using Cons.prems(3) by blast
  then have step: "flush_failed c n (reset_step s e)"
    using unflushed_next [OF Cons.prems(1,2)] by (simp add: reset_run_def)
  have "\<forall>before qe after. es = before @ qe # after \<longrightarrow> \<not> flush_succeeds c (reset_run (reset_step s e) before) qe"
  proof (intro allI impI)
    fix before qe after assume "es = before @ qe # after"
    with Cons.prems(3) [rule_format, of "e # before" qe after]
    show "\<not> flush_succeeds c (reset_run (reset_step s e) before) qe" by (simp add: reset_run_def)
  qed
  from Cons.IH [OF step Cons.prems(2) this] show ?case by (simp add: reset_run_def)
qed (simp add: reset_run_def)

text \<open>
  C26. A Reset whose registry flush throws keeps its chat closed until a flush of that chat succeeds, however
  many retries fail before: whatever else happens meanwhile, the admission stays fenced, every release and
  every supersession is refused, a release changes nothing, and a retried Reset uses the nonce of the first
  attempt, which is the one of an earlier rotation when one was still pending.
\<close>

theorem failed_flush_keeps_the_fence:
  assumes "u \<noteq> []" and "n = fst (rotateFreshStartNonce u c (rr_registry s))"
    and "flushTerminateRegistry u i entries c s = (Inl e, s1)"
    and "\<forall>before qe after. es = before @ qe # after \<longrightarrow> \<not> flush_succeeds c (reset_run s1 before) qe"
    and "s' = reset_run s1 es"
  shows "isProviderRouteAdmissionFenced q s' c \<and> fst (releaseParkedResetFenceRecovery q c ref s') \<noteq> VerdictAccepted \<and>
    snd (releaseParkedResetFenceRecovery q c ref s') = s' \<and> fst (supersedeResetGeneration q c s') = VerdictStale \<and>
    fst (rotateFreshStartNonce u' c (rr_registry s')) = n"
proof -
  have n: "n \<noteq> []" using assms(1,2) by (auto simp: rotateFreshStartNonce_def Let_def split: option.splits list.splits if_splits)
  have "flush_failed c n s1" by (rule failing_flush [OF assms(3) assms(2) [symmetric] n])
  from unflushed_run [OF this n assms(4)] have s': "flush_failed c n s'" by (simp add: assms(5))
  then have "c \<in> set (rr_persistFailures s')" by (simp add: flush_failed_def)
  with rotation_kept [OF s' n] show ?thesis
    by (auto simp: isProviderRouteAdmissionFenced_def releaseParkedResetFenceRecovery_def supersedeResetGeneration_def
        runParkedResetFenceRecovery_def hasTerminatingChat_def split: option.split)
qed


section \<open>What may clear a replay fence\<close>

definition unproven :: "reset_replay \<Rightarrow> string \<times> string \<Rightarrow> bool" where
  "unproven s f \<longleftrightarrow> isFenced (fences_of s) (fst f) (snd f) \<and> snd f \<notin> set (proven_of s (fst f)) \<and>
     (\<forall>i r. js_get (rr_rounds s) i = Some r \<longrightarrow> pr_chat r = fst f \<longrightarrow> snd f \<notin> set (pr_settled r))"

text \<open>The store is what its file holds, unless it was never loaded.\<close>

definition store_sound :: "reset_replay \<Rightarrow> bool" where
  "store_sound s \<longleftrightarrow> (case rr_store s of None \<Rightarrow> True | Some st \<Rightarrow> rr_unavailable s \<or> in_sync st (rr_disk s))"

definition fencing :: "reset_replay \<Rightarrow> fence_store option \<times> disk \<times> bool \<times> (string, string list) jsmap \<times> (nat, probe_round) jsmap" where
  "fencing s = (rr_store s, rr_disk s, rr_unavailable s, rr_proven s, rr_rounds s)"

named_theorems rs_fencing \<open>operations that leave the replay fences alone\<close>

lemma unproven_cong: "fencing s' = fencing s \<Longrightarrow> unproven s' f = unproven s f"
  by (simp add: unproven_def fencing_def fences_of_def proven_of_def)

lemma sound_cong: "fencing s' = fencing s \<Longrightarrow> store_sound s' = store_sound s"
  by (simp add: store_sound_def fencing_def split: option.split)

lemma fencing_fields [rs_fencing]:
  "fencing (ask x s) = fencing s" "fencing (s\<lparr>rr_live := l\<rparr>) = fencing s"
  "fencing (s\<lparr>rr_retryTimers := rt\<rparr>) = fencing s" "fencing (s\<lparr>rr_recoveryTimers := pt\<rparr>) = fencing s"
  "fencing (s\<lparr>rr_debt := db\<rparr>) = fencing s" "fencing (s\<lparr>rr_inFlight := fl\<rparr>) = fencing s"
  "fencing (armReplayFenceRetryTimer c s) = fencing s" "fencing (armPostFenceRecoveryTimer q c s) = fencing s"
  "fencing (beginPostFenceRecovery q c s) = fencing s" "fencing (recovery_answers q c b s) = fencing s"
  "fencing (loop_tail q c s) = fencing s"
  by (simp_all add: fencing_def ask_def armReplayFenceRetryTimer_def armPostFenceRecoveryTimer_def beginPostFenceRecovery_def
      recovery_answers_def loop_tail_def new_timer_def Let_def)

lemma fencing_admission [rs_fencing]:
  "fencing (snd (runOrJoinTermination c s)) = fencing s" "fencing (termination_ends c i s) = fencing s"
  "fencing (snd (flushTerminateRegistry u io en c s)) = fencing s"
  "fencing (parkDeliveryBehindResetAdmissionFence c ids s) = fencing s"
  "fencing (armParkedResetFenceRelease q c ref j s) = fencing s"
  "fencing (snd (runParkedResetFenceRecovery q c s)) = fencing s"
  "fencing (clearTimersOnShutdown s) = fencing s" "fencing (clearResetLedgersOnShutdown s) = fencing s"
  "fencing (s\<lparr>rr_generations := gs\<rparr>) = fencing s"
  by (simp_all add: fencing_def runOrJoinTermination_def termination_ends_def flushTerminateRegistry_def
      parkDeliveryBehindResetAdmissionFence_def armParkedResetFenceRelease_def runParkedResetFenceRecovery_def ask_def
      clearTimersOnShutdown_def clearResetLedgersOnShutdown_def Let_def split: option.split prod.split sum.split)

lemma fencing_release [rs_fencing]:
  "fencing (snd (releaseParkedResetFenceRecovery q c ref s)) = fencing s"
  "fencing (snd (supersedeResetGeneration q c s)) = fencing s"
proof -
  have run: "fencing u = fencing t" if "runParkedResetFenceRecovery q c t = (b, u)" for t b u
    using rs_fencing(17) [of q c t] that by simp
  show "fencing (snd (releaseParkedResetFenceRecovery q c ref s)) = fencing s"
    by (auto simp: releaseParkedResetFenceRecovery_def rs_fencing dest: run split: option.split prod.split bool.split)
  show "fencing (snd (supersedeResetGeneration q c s)) = fencing s"
    by (auto simp: supersedeResetGeneration_def rs_fencing dest: run split: prod.split)
qed

lemmas rs_unproven = rs_fencing [THEN unproven_cong] and rs_sound = rs_fencing [THEN sound_cong]

lemma stop_unproven: "unproven s f \<Longrightarrow> unproven (stopReplayFenceReconcileLoop c s) f"
  by (auto simp: unproven_def stopReplayFenceReconcileLoop_def clear_timer_def fences_of_def proven_of_def split: option.splits)

lemma cleared_unproven: "unproven s f \<Longrightarrow> unproven (onChatFencesCleared q c s) f"
  by (simp add: onChatFencesCleared_def Let_def rs_unproven stop_unproven)

lemma fewer_proven: "unproven s (c', m') \<Longrightarrow> set ids \<subseteq> set (proven_of s c) \<Longrightarrow> unproven (s\<lparr>rr_proven := js_set (rr_proven s) c ids\<rparr>) (c', m')"
  by (auto simp: unproven_def fences_of_def proven_of_def split: option.splits)

lemma more_proven: "unproven s (c', m') \<Longrightarrow> (c = c' \<Longrightarrow> m' \<notin> set ids) \<Longrightarrow> unproven (s\<lparr>rr_proven := js_set (rr_proven s) c ids\<rparr>) (c', m')"
  by (auto simp: unproven_def fences_of_def proven_of_def)

lemma no_proven: "unproven s f \<Longrightarrow> unproven (s\<lparr>rr_proven := js_delete (rr_proven s) c\<rparr>) f"
  by (auto simp: unproven_def fences_of_def proven_of_def split: option.splits)

lemma clear_fence_others:
  assumes "(c', m') \<noteq> (c, m)" and "clear_fence i c m st d = (r, st', ds)"
  shows "isFenced st' c' m' = isFenced st c' m'"
  using assms by (auto simp: clear_fence_def isFenced_def Let_def split: option.splits prod.splits sum.splits dest: keyOf_inj')

lemma store_clear_unproven:
  assumes "unproven s (c', m')" and "(c', m') \<noteq> (c, m)" and "store_clear i c m s = (b, s')"
  shows "unproven s' (c', m')"
  using assms clear_fence_others [OF assms(2)]
  by (auto simp: store_clear_def unproven_def fences_of_def proven_of_def split: option.splits prod.splits)

lemma store_clear_proven: "store_clear i c m s = (b, s') \<Longrightarrow> proven_of s' c' = proven_of s c'"
  by (auto simp: store_clear_def proven_of_def split: option.splits prod.splits)

lemma each_unproven:
  assumes "unproven s (c', m')" and "c = c' \<Longrightarrow> m' \<notin> set ms" and "clear_each q c ms cl s = (x, s')"
  shows "unproven s' (c', m')"
  using assms
proof (induction ms arbitrary: cl s)
  case (Cons m ms)
  obtain b t where b: "store_clear (re_io q m) c m s = (b, t)" by fastforce
  from Cons.prems(2) have ne: "(c', m') \<noteq> (c, m)" by auto
  note t = store_clear_unproven [OF Cons.prems(1) ne b]
  have ids: "set (set_remove (proven_of t c) m) \<subseteq> set (proven_of t c)" by auto
  have rest: "c = c' \<Longrightarrow> m' \<notin> set ms" using Cons.prems(2) by simp
  show ?case
  proof (cases b)
    case True
    with Cons.prems(3) b have "clear_each q c ms (cl @ [m]) (t\<lparr>rr_proven := js_set (rr_proven t) c (set_remove (proven_of t c) m)\<rparr>) = (x, s')"
      by simp
    with Cons.IH [OF fewer_proven [OF t ids] rest] show ?thesis by blast
  next
    case False
    with Cons.prems(3) b have e: "clear_each q c ms cl (ask (RcRuntimeError c) t) = (x, s')" by simp
    have "unproven (ask (RcRuntimeError c) t) (c', m')" using t by (simp add: rs_unproven)
    from Cons.IH [OF this rest e] show ?thesis .
  qed
qed simp

lemma clear_proven_unproven: "unproven s (c', m') \<Longrightarrow> unproven (clearProvenSettledFences q c s) (c', m')"
proof -
  assume u: "unproven s (c', m')"
  obtain x t where e: "clear_each q c (proven_of s c) [] s = (x, t)" by fastforce
  have "c = c' \<Longrightarrow> m' \<notin> set (proven_of s c)" using u by (simp add: unproven_def)
  from each_unproven [OF u this e] have t: "unproven t (c', m')" .
  show ?thesis using u t e
    by (auto simp: clearProvenSettledFences_def Let_def rs_unproven no_proven intro!: cleared_unproven)
qed
lemma start_unproven: "unproven s f \<Longrightarrow> unproven (start_round c ids k s) f"
  by (auto simp: unproven_def start_round_def ask_def fences_of_def proven_of_def)

lemma ensure_unproven: "unproven s f \<Longrightarrow> unproven (ensureReplayFenceReconcileLoop q c b s) f"
  by (simp add: ensureReplayFenceReconcileLoop_def Let_def rs_unproven start_unproven)

lemma chats_unproven: "unproven s f \<Longrightarrow> unproven (reconcile_chats q cs s) f"
  by (induction cs arbitrary: s) (simp_all add: Let_def ensure_unproven start_unproven)

lemma done_unproven: "unproven s f \<Longrightarrow> unproven (round_done q c k s) f"
  by (simp add: round_done_def rs_unproven chats_unproven ensure_unproven split: round_then.split)

lemma proves_unproven:
  assumes "unproven s (c', m')" and "pr_chat r = c' \<Longrightarrow> m' \<notin> set settled"
  shows "unproven (round_proves q r settled s) (c', m')"
proof -
  let ?proven = "foldl set_add (proven_of s (pr_chat r)) (filter (\<lambda>m. m \<in> set settled) (pr_asked r))"
  have "unproven (s\<lparr>rr_proven := js_set (rr_proven s) (pr_chat r) ?proven\<rparr>) (c', m')"
    using assms by (intro more_proven) (auto simp: unproven_def)
  then show ?thesis using assms(1) by (simp add: round_proves_def Let_def clear_proven_unproven)
qed

lemma probe_unproven:
  assumes "unproven s (c', m')" and "\<And>xs. answer = Some xs \<Longrightarrow> m' \<notin> set xs"
  shows "unproven (probe_answers q i answer s) (c', m')"
proof (cases "js_get (rr_rounds s) i")
  case (Some r)
  have gone: "unproven (s\<lparr>rr_rounds := js_delete (rr_rounds s) i\<rparr>) (c', m')"
    using assms(1) by (auto simp: unproven_def fences_of_def proven_of_def)
  have settled: "m' \<notin> set (foldl set_add (pr_settled r) (filter (\<lambda>m. m \<in> set (pr_chunk r)) xs))"
    if "answer = Some xs" "pr_chat r = c'" for xs
    using that assms Some by (auto simp: unproven_def)
  show ?thesis
  proof (cases answer)
    case None
    with Some gone show ?thesis by (simp add: probe_answers_def Let_def done_unproven)
  next
    case (Some xs)
    note r = \<open>js_get (rr_rounds s) i = Some r\<close>
    have going: "unproven (s\<lparr>rr_rounds := js_set (rr_rounds s) i
        (r\<lparr>pr_chunk := ch, pr_rest := rest, pr_settled := foldl set_add (pr_settled r) (filter (\<lambda>m. m \<in> set (pr_chunk r)) xs)\<rparr>)\<rparr>) (c', m')"
      for ch rest
      using assms(1) settled [OF Some] r by (auto simp: unproven_def fences_of_def proven_of_def simp del: set_fold_set_add)
    show ?thesis using Some r going proves_unproven [OF gone settled [OF Some]]
      by (simp add: probe_answers_def Let_def done_unproven rs_unproven)
  qed
qed (use assms(1) in \<open>simp add: probe_answers_def\<close>)

lemma fires_unproven: "unproven s (c', m') \<Longrightarrow> unproven (reset_timer_fires q i s) (c', m')"
  by (simp add: reset_timer_fires_def runReplayFenceReconcileLoop_def reconcileReplayFenceForChat_def Let_def rs_unproven
      clear_proven_unproven start_unproven done_unproven split: option.split reset_timer.split)

lemma acked_each_unproven:
  assumes "unproven s (c', m')" and "c = c' \<Longrightarrow> m' \<notin> set ms" and "clear_acked q c ms t s = (x, s')"
  shows "unproven s' (c', m')"
  using assms
proof (induction ms arbitrary: t s)
  case (Cons m ms)
  have rest: "c = c' \<Longrightarrow> m' \<notin> set ms" using Cons.prems(2) by simp
  show ?case
  proof (cases "isFenced (fences_of s) c m")
    case False
    with Cons.prems(3) have "clear_acked q c ms t s = (x, s')" by simp
    from Cons.IH [OF Cons.prems(1) rest this] show ?thesis .
  next
    case True
    obtain b u where b: "store_clear (re_io q m) c m s = (b, u)" by fastforce
    from Cons.prems(2) have ne: "(c', m') \<noteq> (c, m)" by auto
    note u = store_clear_unproven [OF Cons.prems(1) ne b]
    let ?u = "if b then u else ask (RcRuntimeError c) (ensureReplayFenceReconcileLoop q c False
        (u\<lparr>rr_proven := js_set (rr_proven u) c (set_add (proven_of u c) m)\<rparr>))"
    have "unproven (u\<lparr>rr_proven := js_set (rr_proven u) c (set_add (proven_of u c) m)\<rparr>) (c', m')"
      using u ne by (intro more_proven) (auto simp: unproven_def)
    then have "unproven ?u (c', m')" using u by (simp add: rs_unproven ensure_unproven)
    moreover have "clear_acked q c ms True ?u = (x, s')" using Cons.prems(3) True b by (cases b) simp_all
    ultimately show ?thesis using Cons.IH [OF _ rest] by blast
  qed
qed simp

fun settles :: "reset_env \<times> reset_event \<Rightarrow> string \<times> string \<Rightarrow> bool" where
  "settles (q, RvClear i c m) f = (f = (c, m))"
| "settles (q, RvAcked c ids) f = (fst f = c \<and> snd f \<in> set ids)"
| "settles (q, RvProbe i (Some xs)) f = (snd f \<in> set xs)"
| "settles _ f = False"

lemma step_unproven:
  assumes "unproven s f" and "\<not> settles e f"
  shows "unproven (reset_step s e) f"
proof -
  obtain q ev where e: "e = (q, ev)" by (cases e)
  obtain c' m' where f: "f = (c', m')" by (cases f)
  have u: "unproven s (c', m')" using assms(1) f by simp
  show ?thesis unfolding e f
  proof (cases ev)
    case (RvFence i en)
    show "unproven (reset_step s (q, ev)) (c', m')"
    proof (cases "rr_store s")
      case (Some st)
      obtain r st' ds where w: "fence i en st (rr_disk s) = (r, st', ds)" by (metis prod_cases3)
      have "isFenced st' c' m'" if "isFenced st c' m'"
        using that w by (auto simp: fence_def isFenced_def Let_def split: if_splits prod.splits sum.splits)
      with u Some w show ?thesis by (auto simp: RvFence writer_fence_def unproven_def fences_of_def proven_of_def)
    qed (use u in \<open>simp add: RvFence writer_fence_def\<close>)
  next
    case (RvClear i c m)
    obtain b t where b: "store_clear i c m s = (b, t)" by fastforce
    with store_clear_unproven [OF u _ b] assms(2) show "unproven (reset_step s (q, ev)) (c', m')"
      by (simp add: RvClear e f writer_clear_def)
  next
    case RvReconcileAll
    show "unproven (reset_step s (q, ev)) (c', m')"
      using u by (simp add: RvReconcileAll reconcileReplayFencesWithServer_def chats_unproven)
  next
    case (RvProbe i answer)
    have "m' \<notin> set xs" if "answer = Some xs" for xs using that assms(2) by (simp add: RvProbe e f)
    with u show "unproven (reset_step s (q, ev)) (c', m')" by (simp add: RvProbe probe_unproven)
  next
    case (RvAcked c ids)
    let ?s = "if filter (isFenced (fences_of s) c) ids \<noteq> []
      then ask (RcMarkSettled c (filter (isFenced (fences_of s) c) ids)) s else s"
    obtain t v where t: "clear_acked q c ids False ?s = (t, v)" by fastforce
    have "unproven ?s (c', m')" using u by (simp add: rs_unproven)
    then have "unproven v (c', m')" using acked_each_unproven [OF _ _ t] assms(2) by (auto simp: RvAcked e f)
    with t u show "unproven (reset_step s (q, ev)) (c', m')"
      by (simp add: RvAcked reconcileReplayFences_def Let_def cleared_unproven)
  qed (use u in \<open>simp_all add: rs_unproven fires_unproven ensure_unproven\<close>)
qed

section \<open>Invariants of the replay part\<close>

fun is_probe :: "reset_call \<Rightarrow> bool" where
  "is_probe (RcProbe c ids) = True"
| "is_probe _ = False"

definition replaying :: "reset_replay \<Rightarrow> _" where
  "replaying s = (fencing s, (rr_retryTimers s, rr_debt s, rr_recoveryTimers s, rr_inFlight s, rr_live s, rr_nextTimer s),
     filter is_probe (rr_calls s))"

text \<open>
  What an invariant of the replay part owes for each operation that changes that part, in environments
  that satisfy \<open>ok\<close>, and what it gets: every event but the shutdown of the timers keeps it.
\<close>

locale replay_invariant =
  fixes P :: "reset_replay \<Rightarrow> bool" and ok :: "reset_env \<Rightarrow> bool"
  assumes same: "P s \<Longrightarrow> replaying s' = replaying s \<Longrightarrow> P s'"
    and proven: "P s \<Longrightarrow> P (s\<lparr>rr_proven := pv\<rparr>)"
    and round_drop: "P s \<Longrightarrow> P (s\<lparr>rr_rounds := js_delete (rr_rounds s) i\<rparr>)"
    and round_start: "P s \<Longrightarrow> ids \<noteq> [] \<Longrightarrow> distinct ids \<Longrightarrow> P (start_round c ids k s)"
    and round_next: "P s \<Longrightarrow> js_get (rr_rounds s) i = Some r \<Longrightarrow> pr_rest r \<noteq> [] \<Longrightarrow>
      P (ask (RcProbe (pr_chat r) (take INBOX_FENCE_PROBE_MAX_IDS (pr_rest r)))
        (s\<lparr>rr_rounds := js_set (rr_rounds s) i (r\<lparr>pr_chunk := take INBOX_FENCE_PROBE_MAX_IDS (pr_rest r),
             pr_rest := drop INBOX_FENCE_PROBE_MAX_IDS (pr_rest r), pr_settled := st\<rparr>)\<rparr>))"
    and cleared: "P s \<Longrightarrow> store_clear io c m s = (b, s') \<Longrightarrow> P s'"
    and fenced: "P s \<Longrightarrow> P (writer_fence io e s)"
    and armed: "P s \<Longrightarrow> P (armReplayFenceRetryTimer c s)"
    and stopped: "P s \<Longrightarrow> P (stopReplayFenceReconcileLoop c s)"
    and begun: "P s \<Longrightarrow> ok q \<Longrightarrow> P (beginPostFenceRecovery q c s)"
    and answered: "P s \<Longrightarrow> ok q \<Longrightarrow> P (recovery_answers q c acc s)"
    and reconcile_fired: "P s \<Longrightarrow> js_get (rr_live s) i = Some (ReconcileTimer c) \<Longrightarrow>
      P (s\<lparr>rr_live := filter (\<lambda>x. fst x \<noteq> i) (rr_live s), rr_retryTimers := js_delete (rr_retryTimers s) c\<rparr>)"
    and recovery_fired: "P s \<Longrightarrow> ok q \<Longrightarrow> js_get (rr_live s) i = Some (RecoveryTimer c) \<Longrightarrow>
      P (beginPostFenceRecovery q c
        (s\<lparr>rr_live := filter (\<lambda>x. fst x \<noteq> i) (rr_live s), rr_recoveryTimers := js_delete (rr_recoveryTimers s) c\<rparr>))"
begin

lemma asked: "P s \<Longrightarrow> \<not> is_probe x \<Longrightarrow> P (ask x s)"
  by (erule same) (simp add: replaying_def fencing_def ask_def)

lemma chat_cleared: "P s \<Longrightarrow> ok q \<Longrightarrow> P (onChatFencesCleared q c s)"
  by (simp add: onChatFencesCleared_def Let_def stopped begun asked)

lemma each: "P s \<Longrightarrow> clear_each q c ms cl s = (x, s') \<Longrightarrow> P s'"
proof (induction ms arbitrary: cl s)
  case (Cons m ms)
  obtain b t where b: "store_clear (re_io q m) c m s = (b, t)" by fastforce
  have t: "P t" by (rule cleared [OF Cons.prems(1) b])
  have f: "P (ask (RcRuntimeError c) t)" using t by (simp add: asked)
  show ?case using Cons.prems(2) b Cons.IH [OF proven [OF t]] Cons.IH [OF f] by (cases b) simp_all
qed simp

lemma proven_cleared: "P s \<Longrightarrow> ok q \<Longrightarrow> P (clearProvenSettledFences q c s)"
proof -
  assume s: "P s" "ok q"
  obtain x t where e: "clear_each q c (proven_of s c) [] s = (x, t)" by fastforce
  from each [OF s(1) e] have "P t" .
  with s e show ?thesis by (auto simp: clearProvenSettledFences_def Let_def asked proven intro!: chat_cleared)
qed

lemma tail: "P s \<Longrightarrow> P (loop_tail q c s)"
  by (simp add: loop_tail_def armed)

lemma probe_distinct: "distinct (probe_ids q c s)"
  by (auto simp: probe_ids_def)

lemma ensured: "P s \<Longrightarrow> P (ensureReplayFenceReconcileLoop q c b s)"
  using probe_distinct by (simp add: ensureReplayFenceReconcileLoop_def Let_def armed round_start)

lemma chats: "P s \<Longrightarrow> P (reconcile_chats q cs s)"
  using probe_distinct by (induction cs arbitrary: s) (simp_all add: Let_def ensured round_start)

lemma done_round: "P s \<Longrightarrow> P (round_done q c k s)"
  by (simp add: round_done_def chats ensured tail split: round_then.split)

lemma probed: "P s \<Longrightarrow> ok q \<Longrightarrow> P (probe_answers q i a s)"
  by (simp add: probe_answers_def round_proves_def Let_def round_drop round_next proven proven_cleared done_round split: option.split)

lemma fired:
  assumes "P s" and "ok q"
  shows "P (reset_timer_fires q i s)"
proof (cases "js_get (rr_live s) i")
  case (Some t)
  show ?thesis
  proof (cases t)
    case (ReconcileTimer c)
    from reconcile_fired [OF assms(1)] Some ReconcileTimer assms(2) probe_distinct show ?thesis
      by (simp add: reset_timer_fires_def runReplayFenceReconcileLoop_def reconcileReplayFenceForChat_def Let_def
          proven_cleared tail done_round round_start)
  next
    case (RecoveryTimer c)
    with Some recovery_fired [OF assms] show ?thesis by (simp add: reset_timer_fires_def Let_def)
  qed
qed (simp add: reset_timer_fires_def assms(1))

lemma acked_each: "P s \<Longrightarrow> clear_acked q c ms t s = (x, s') \<Longrightarrow> P s'"
proof (induction ms arbitrary: t s)
  case (Cons m ms)
  obtain b u where b: "store_clear (re_io q m) c m s = (b, u)" by fastforce
  have u: "P u" by (rule cleared [OF Cons.prems(1) b])
  have f: "P (ask (RcRuntimeError c) (ensureReplayFenceReconcileLoop q c False
      (u\<lparr>rr_proven := js_set (rr_proven u) c (set_add (proven_of u c) m)\<rparr>)))"
    using u by (simp add: asked ensured proven)
  show ?case
    using Cons.prems b Cons.IH [OF Cons.prems(1)] Cons.IH [OF u] Cons.IH [OF f]
    by (cases "isFenced (fences_of s) c m"; cases b) simp_all
qed simp

lemma acked:
  assumes "P s" and "ok q"
  shows "P (reconcileReplayFences q c ids s)"
proof -
  let ?s = "if filter (isFenced (fences_of s) c) ids \<noteq> []
    then ask (RcMarkSettled c (filter (isFenced (fences_of s) c) ids)) s else s"
  obtain t v where t: "clear_acked q c ids False ?s = (t, v)" by fastforce
  have "P ?s" using assms(1) by (simp add: asked)
  from acked_each [OF this t] t assms show ?thesis
    by (simp add: reconcileReplayFences_def Let_def chat_cleared)
qed

lemma released: "P s \<Longrightarrow> P (snd (releaseParkedResetFenceRecovery q c ref s))" "P s \<Longrightarrow> P (snd (supersedeResetGeneration q c s))"
proof -
  have run: "replaying (snd (runParkedResetFenceRecovery q c t)) = replaying t" for t
    by (simp add: runParkedResetFenceRecovery_def replaying_def fencing_def ask_def Let_def)
  have gens: "replaying (t\<lparr>rr_generations := g\<rparr>) = replaying t" for t g by (simp add: replaying_def fencing_def)
  have "replaying (snd (releaseParkedResetFenceRecovery q c ref s)) = replaying s"
  proof -
    obtain b u where u: "runParkedResetFenceRecovery q c s = (b, u)" by fastforce
    then have "replaying u = replaying s" using run [of s] by simp
    with u show ?thesis
      by (cases b) (simp_all add: releaseParkedResetFenceRecovery_def gens split: option.split)
  qed
  then show "P s \<Longrightarrow> P (snd (releaseParkedResetFenceRecovery q c ref s))" by (rule same [rotated])
  have "replaying (snd (supersedeResetGeneration q c s)) = replaying s"
    using run [of "s\<lparr>rr_generations := js_delete (rr_generations s) c\<rparr>"] gens
    by (simp add: supersedeResetGeneration_def split_beta)
  then show "P s \<Longrightarrow> P (snd (supersedeResetGeneration q c s))" by (rule same [rotated])
qed

lemma other_part:
  "P s \<Longrightarrow> P (snd (runOrJoinTermination c s))" "P s \<Longrightarrow> P (termination_ends c i s)"
  "P s \<Longrightarrow> P (snd (flushTerminateRegistry u io en c s))" "P s \<Longrightarrow> P (parkDeliveryBehindResetAdmissionFence c ids s)"
  "P s \<Longrightarrow> P (armParkedResetFenceRelease q c ref j s)" "P s \<Longrightarrow> P (clearResetLedgersOnShutdown s)"
  by (erule same, simp add: replaying_def fencing_def runOrJoinTermination_def termination_ends_def flushTerminateRegistry_def
      parkDeliveryBehindResetAdmissionFence_def armParkedResetFenceRelease_def clearResetLedgersOnShutdown_def ask_def Let_def
      split: option.split prod.split sum.split)+

lemma kept:
  assumes "P s" and "ok q" and "ev \<noteq> RvShutdownTimers"
  shows "P (reset_step s (q, ev))"
proof (cases ev)
  case (RvClear i c m)
  with assms show ?thesis by (cases "store_clear i c m s") (auto simp: writer_clear_def intro: cleared)
next
  case RvReconcileAll
  with assms show ?thesis by (simp add: reconcileReplayFencesWithServer_def chats)
qed (use assms in \<open>simp_all add: released other_part fenced ensured probed answered fired acked\<close>)

end


section \<open>The store and its file\<close>

lemma sound_same: "rr_store s' = rr_store s \<Longrightarrow> rr_disk s' = rr_disk s \<Longrightarrow> rr_unavailable s' = rr_unavailable s \<Longrightarrow>
    store_sound s \<Longrightarrow> store_sound s'"
  by (simp add: store_sound_def cong: option.case_cong)

interpretation sound_fences: replay_invariant store_sound "\<lambda>q. True"
proof unfold_locales
  show "store_sound s'" if "store_sound s" "store_clear io c m s = (b, s')" for s io c m b s'
    using that by (auto simp: store_clear_def store_sound_def split: option.splits prod.splits dest: clear_outcome)
  show "store_sound (writer_fence io e s)" if "store_sound s" for io e s
    using that by (auto simp: writer_fence_def store_sound_def split: option.splits prod.splits dest: fence_outcome)
qed (auto elim!: sound_same [rotated 3] simp: replaying_def fencing_def start_round_def ask_def stopReplayFenceReconcileLoop_def
    clear_timer_def armReplayFenceRetryTimer_def new_timer_def beginPostFenceRecovery_def recovery_answers_def
    armPostFenceRecoveryTimer_def Let_def split: option.split)

lemma step_sound: "store_sound s \<Longrightarrow> store_sound (reset_step s e)"
proof -
  assume s: "store_sound s"
  obtain q ev where e: "e = (q, ev)" by (cases e)
  show ?thesis
  proof (cases "ev = RvShutdownTimers")
    case True
    then show ?thesis using e s
      by (auto elim!: sound_same [rotated 3] simp: clearTimersOnShutdown_def Let_def)
  next
    case False
    with sound_fences.kept [OF s] e show ?thesis by simp
  qed
qed

interpretation reset_fences: held_facts store_sound unproven reset_step settles
  by unfold_locales (auto intro: step_sound step_unproven)

lemma fenced_chat:
  assumes "store_sound s" and "isFenced (fences_of s) c m"
  shows "isChatReplayFenced s c"
proof (cases "rr_store s")
  case None
  with assms(2) show ?thesis by (simp add: fences_of_def isFenced_def new_fence_store_def js_has_def)
next
  case (Some st)
  show ?thesis
  proof (cases "rr_unavailable s")
    case False
    with assms(1) Some have wf: "store_wf (fs_entries st)" by (simp add: store_sound_def in_sync_def)
    from assms(2) Some obtain e where e: "js_get (fs_entries st) (keyOf c m) = Some e"
      by (auto simp: fences_of_def isFenced_def js_has_def)
    have "c = rf_chatId e" using store_wf_get [OF wf e] keyOf_inj' by blast
    with e Some show ?thesis
      by (auto simp: isChatReplayFenced_def hasFenceForChat_def list_ex_iff dest!: map_of_SomeD)
  qed (simp add: isChatReplayFenced_def)
qed

text \<open>
  C22. A fenced delivery that nothing has proven settled keeps its fence, in memory and on
  disk, and its whole chat stays withheld, through any events, answers, timers, failures of the file system
  and shutdowns, until a probe of the server names it, its acknowledgement commits, or the handler that took the
  fence clears it. A probe that fails proves nothing, whatever its round had collected before.
\<close>

theorem replay_fence_needs_a_settlement:
  assumes "store_sound s" and "unproven s (c, m)" and "\<forall>e \<in> set es. \<not> settles e (c, m)"
  shows "isFenced (fences_of (reset_run s es)) c m \<and> isChatReplayFenced (reset_run s es) c \<and>
    store_sound (reset_run s es)"
proof -
  have sound: "store_sound (reset_run s es)" using reset_fences.sound_all [OF assms(1)] by (simp add: reset_run_def)
  have "unproven (reset_run s es) (c, m)" using reset_fences.holds_all [OF assms] by (simp add: reset_run_def)
  then have "isFenced (fences_of (reset_run s es)) c m" by (simp add: unproven_def)
  with fenced_chat [OF sound] sound show ?thesis by blast
qed


section \<open>Concrete runs\<close>

definition demo_env :: reset_env where
  "demo_env = \<lparr>re_shuttingDown = False, re_quarantined = (\<lambda>c. False), re_recoveryDebt = (\<lambda>c. False), re_unsettled = (\<lambda>c. True),
     re_canRecover = True, re_canProbe = True, re_io = (\<lambda>m. demo_io)\<rparr>"

definition demo_reset :: reset_replay where
  "demo_reset = new_reset (Some empty_disk) new_registry empty_disk"

theorem reset_fence_needs_its_release_witness:
  "let s = reset_run demo_reset [(demo_env, RvArm ''a'' (Some ''r'') False)];
       es = map (Pair demo_env) [RvRelease ''a'' None, RvRelease ''a'' (Some ''x''), RvAcked ''a'' [], RvRelease ''a'' (Some ''r'')]
   in \<exists>before e after. es = before @ e # after \<and> lifts_fence ''a'' (reset_run s before) e"
proof -
  let ?s = "reset_run demo_reset [(demo_env, RvArm ''a'' (Some ''r'') False)]"
  let ?es = "map (Pair demo_env) [RvRelease ''a'' None, RvRelease ''a'' (Some ''x''), RvAcked ''a'' [], RvRelease ''a'' (Some ''r'')]"
  have "hasArmedResetGeneration ?s ''a''" "\<not> isProviderRouteAdmissionFenced demo_env (reset_run ?s ?es) ''a''" by code_simp+
  from reset_fence_needs_its_release [OF this] show ?thesis unfolding Let_def by blast
qed

theorem reset_verdicts_are_truthful_witness:
  "let s = reset_run demo_reset [(demo_env, RvArm ''a'' (Some ''r'') False)];
       s' = snd (releaseParkedResetFenceRecovery demo_env ''a'' (Some ''r'') s)
   in \<not> isProviderRouteAdmissionFenced demo_env s' ''a'' \<and> rr_calls s' = [RcRecoverIfNeeded ''a'' ''reset_admission_fence_cleared'']"
proof -
  let ?es = "[(demo_env, RvArm ''a'' (Some ''r'') False)]"
  let ?s = "reset_run demo_reset ?es"
  obtain v s' where r: "releaseParkedResetFenceRecovery demo_env ''a'' (Some ''r'') ?s = (v, s')" by fastforce
  have "fst (releaseParkedResetFenceRecovery demo_env ''a'' (Some ''r'') ?s) = VerdictAccepted" "rr_calls ?s = []"
    "\<not> re_quarantined demo_env ''a''" "re_unsettled demo_env ''a''" by code_simp+
  with reset_verdicts_are_truthful [of ?s "Some empty_disk" new_registry empty_disk ?es, OF _ r] r show ?thesis
    by (simp add: demo_reset_def)
qed

theorem failed_flush_keeps_the_fence_witness:
  "let s1 = snd (flushTerminateRegistry ''u1'' broken_io [] ''a'' demo_reset);
       s' = reset_run s1 (map (Pair demo_env) [RvFlush ''u2'' broken_io [] ''a'', RvRelease ''a'' None, RvFlush ''u2'' demo_io [] ''b''])
   in isProviderRouteAdmissionFenced demo_env s' ''a'' \<and> fst (rotateFreshStartNonce ''u3'' ''a'' (rr_registry s')) = ''u1''"
proof -
  let ?es = "map (Pair demo_env) [RvFlush ''u2'' broken_io [] ''a'', RvRelease ''a'' None, RvFlush ''u2'' demo_io [] ''b'']"
  obtain r s1 where f: "flushTerminateRegistry ''u1'' broken_io [] ''a'' demo_reset = (r, s1)" by fastforce
  have "(case fst (flushTerminateRegistry ''u1'' broken_io [] ''a'' demo_reset) of Inl e \<Rightarrow> True | Inr y \<Rightarrow> False)" by code_simp
  with f obtain e where e: "flushTerminateRegistry ''u1'' broken_io [] ''a'' demo_reset = (Inl e, s1)" by (cases r) auto
  have n: "''u1'' = fst (rotateFreshStartNonce ''u1'' ''a'' (rr_registry demo_reset))" by code_simp
  have "(case fst (flushTerminateRegistry ''u2'' broken_io [] ''a'' (snd (flushTerminateRegistry ''u1'' broken_io [] ''a'' demo_reset))) of
      Inl e \<Rightarrow> True | Inr y \<Rightarrow> False)" by code_simp
  then have "\<not> flush_succeeds ''a'' s1 (demo_env, RvFlush ''u2'' broken_io [] ''a'')"
    using f by (auto simp: flush_succeeds_def)
  moreover have "\<not> flush_succeeds ''a'' s (demo_env, RvRelease ''a'' None)" "\<not> flush_succeeds ''a'' s (demo_env, RvFlush ''u2'' demo_io [] ''b'')" for s
    by (simp_all add: flush_succeeds_def)
  ultimately have "\<forall>before qe after. ?es = before @ qe # after \<longrightarrow> \<not> flush_succeeds ''a'' (reset_run s1 before) qe"
    by (auto simp: Cons_eq_append_conv reset_run_def)
  from failed_flush_keeps_the_fence [OF _ n e this refl, of demo_env None "''u3''"] f show ?thesis by simp
qed

theorem replay_fence_needs_a_settlement_witness:
  "let s = reset_run demo_reset [(demo_env, RvFence demo_io demo_fence)];
       s' = reset_run s (map (Pair demo_env) [RvEnsure ''a'', RvProbe 0 (Some [''other'']), RvTimer 0, RvProbe 1 None, RvShutdownTimers])
   in isFenced (fences_of s') ''a'' ''1b'' \<and> isChatReplayFenced s' ''a''"
proof -
  let ?s = "reset_run demo_reset [(demo_env, RvFence demo_io demo_fence)]"
  let ?es = "map (Pair demo_env) [RvEnsure ''a'', RvProbe 0 (Some [''other'']), RvTimer 0, RvProbe 1 None, RvShutdownTimers]"
  have "load_store empty_disk new_fence_store = (Inr (), new_fence_store\<lparr>fs_loaded := True\<rparr>)" by code_simp
  then have "store_sound demo_reset"
    using demo_in_sync by (simp add: demo_reset_def new_reset_def store_sound_def in_sync_def Let_def)
  then have sound: "store_sound ?s" unfolding reset_run_def foldl.simps by (rule step_sound)
  have "isFenced (fences_of ?s) ''a'' ''1b''" "proven_of ?s ''a'' = []" "rr_rounds ?s = []" by code_simp+
  then have "unproven ?s (''a'', ''1b'')" by (simp add: unproven_def)
  moreover have "\<forall>e \<in> set ?es. \<not> settles e (''a'', ''1b'')" by simp
  ultimately show ?thesis using replay_fence_needs_a_settlement [OF sound] unfolding Let_def by blast
qed

end
