(* ===== verification/ResetTimers.thy ===== *)
theory ResetTimers
  imports ResetProperties
begin

text \<open>
  The timers and probes of the Reset and replay authority: the recovery that a cleared fence owes is
  always in flight or on a timer, the probes respect the limit of the server, and the loop that
  reconciles a chat can be doubled.
\<close>

section \<open>The recovery that is owed\<close>

text \<open>Every timer of a map is live under its own number; a recovery timer is live only when the map has it.\<close>

definition recovery_ok :: "reset_replay \<Rightarrow> bool" where
  "recovery_ok s \<longleftrightarrow>
     (\<forall>i t. js_get (rr_live s) i = Some t \<longrightarrow> i < rr_nextTimer s) \<and>
     (\<forall>c i. js_get (rr_recoveryTimers s) c = Some i \<longleftrightarrow> js_get (rr_live s) i = Some (RecoveryTimer c)) \<and>
     (\<forall>c i. js_get (rr_retryTimers s) c = Some i \<longrightarrow> js_get (rr_live s) i = Some (ReconcileTimer c)) \<and>
     (\<forall>c. c \<in> set (rr_debt s) \<longleftrightarrow> c \<in> set (rr_inFlight s) \<or> (\<exists>i. js_get (rr_live s) i = Some (RecoveryTimer c))) \<and>
     (\<forall>c i. c \<in> set (rr_inFlight s) \<longrightarrow> js_get (rr_live s) i \<noteq> Some (RecoveryTimer c))"

lemma recovery_okD:
  assumes "recovery_ok s"
  shows "js_get (rr_live s) i = Some t \<Longrightarrow> i < rr_nextTimer s"
    and "js_get (rr_recoveryTimers s) c = Some i \<longleftrightarrow> js_get (rr_live s) i = Some (RecoveryTimer c)"
    and "js_get (rr_retryTimers s) c = Some i \<Longrightarrow> js_get (rr_live s) i = Some (ReconcileTimer c)"
    and "c \<in> set (rr_debt s) \<longleftrightarrow> c \<in> set (rr_inFlight s) \<or> (\<exists>i. js_get (rr_live s) i = Some (RecoveryTimer c))"
    and "c \<in> set (rr_inFlight s) \<Longrightarrow> js_get (rr_live s) i \<noteq> Some (RecoveryTimer c)"
  using assms unfolding recovery_ok_def by blast+

lemma js_get_live: "js_get (filter (\<lambda>x. fst x \<noteq> i) l) j = (if j = i then None else js_get l j)"
  by (induction l) auto

lemma fresh_timer: "recovery_ok s \<Longrightarrow> js_get (rr_live s) (rr_nextTimer s) = None"
  using recovery_okD(1) [of s "rr_nextTimer s"] by (cases "js_get (rr_live s) (rr_nextTimer s)") auto

lemma live_snoc: "recovery_ok s \<Longrightarrow>
    js_get (rr_live s @ [(rr_nextTimer s, t)]) j = (if j = rr_nextTimer s then Some t else js_get (rr_live s) j)"
  using fresh_timer [of s] by (simp add: map_add_def split: option.split)

lemma no_recovery_timer: "recovery_ok s \<Longrightarrow> js_has (rr_recoveryTimers s) c \<longleftrightarrow> (\<exists>i. js_get (rr_live s) i = Some (RecoveryTimer c))"
  using recovery_okD(2) [of s c] by (auto simp: js_has_def)

lemma retry_armed: "recovery_ok s \<Longrightarrow> recovery_ok (armReplayFenceRetryTimer c s)"
proof -
  assume s: "recovery_ok s"
  note d = recovery_okD [OF s] and n = fresh_timer [OF s]
  have "j < Suc (rr_nextTimer s)" if "js_get (rr_live s) j = Some t" for j t using d(1) [OF that] by simp
  moreover have "j \<noteq> rr_nextTimer s" if "js_get (rr_live s) j = Some t" for j t using that n by auto
  ultimately show ?thesis using d(2-5) n
    by (auto simp: armReplayFenceRetryTimer_def new_timer_def recovery_ok_def live_snoc [OF s] simp del: map_of_append) blast
qed

lemma retry_dropped:
  assumes "recovery_ok s" and "js_get (rr_live s) i = Some (ReconcileTimer c)"
  shows "recovery_ok (s\<lparr>rr_live := filter (\<lambda>x. fst x \<noteq> i) (rr_live s), rr_retryTimers := js_delete (rr_retryTimers s) c\<rparr>)"
proof -
  let ?s = "s\<lparr>rr_live := filter (\<lambda>x. fst x \<noteq> i) (rr_live s), rr_retryTimers := js_delete (rr_retryTimers s) c\<rparr>"
  note d = recovery_okD [OF assms(1)]
  have same: "js_get (rr_live ?s) j = Some (RecoveryTimer d) \<longleftrightarrow> js_get (rr_live s) j = Some (RecoveryTimer d)" for j d
    using assms(2) by (auto simp: js_get_live)
  have "js_get (rr_live ?s) j = Some (ReconcileTimer d)" if "js_get (rr_retryTimers ?s) d = Some j" for d j
    using that d(3) [of d j] assms(2) by (auto simp: js_get_live split: if_splits)
  moreover have "j < rr_nextTimer s" if "js_get (rr_live ?s) j = Some t" for j t
    using that d(1) by (simp add: js_get_live split: if_splits)
  ultimately show ?thesis using d(2,4,5) unfolding recovery_ok_def same by simp
qed

lemma retry_stopped: "recovery_ok s \<Longrightarrow> recovery_ok (stopReplayFenceReconcileLoop c s)"
proof (cases "js_get (rr_retryTimers s) c")
  case (Some i)
  assume s: "recovery_ok s"
  with retry_dropped [OF s recovery_okD(3) [OF s Some]] show ?thesis
    by (simp add: stopReplayFenceReconcileLoop_def clear_timer_def Some recovery_ok_def)
qed (auto simp: stopReplayFenceReconcileLoop_def clear_timer_def recovery_ok_def)

lemma recovery_begun:
  "recovery_ok s \<Longrightarrow> \<not> re_shuttingDown q \<and> re_canRecover q \<Longrightarrow> recovery_ok (beginPostFenceRecovery q c s)"
  using no_recovery_timer [of s c] by (auto simp: beginPostFenceRecovery_def recovery_ok_def ask_def)

lemma recovery_answered:
  assumes "recovery_ok s" and "\<not> re_shuttingDown q \<and> re_canRecover q"
  shows "recovery_ok (recovery_answers q c acc s)"
proof (cases "c \<in> set (rr_inFlight s)")
  case True
  note d = recovery_okD [OF assms(1)] and n = fresh_timer [OF assms(1)]
  have less: "j < Suc (rr_nextTimer s)" if "js_get (rr_live s) j = Some t" for j t using d(1) [OF that] by simp
  have old: "j \<noteq> rr_nextTimer s" if "js_get (rr_live s) j = Some t" for j t using that n by auto
  have none: "js_get (rr_live s) j \<noteq> Some (RecoveryTimer c)" for j using d(5) [OF True] .
  show ?thesis
  proof (cases acc)
    case True
    with \<open>c \<in> set (rr_inFlight s)\<close> none d show ?thesis by (auto simp: recovery_answers_def recovery_ok_def ask_def)
  next
    case False
    with \<open>c \<in> set (rr_inFlight s)\<close> none less old d(2-5) n assms(2) show ?thesis
      by (auto simp: recovery_answers_def armPostFenceRecoveryTimer_def new_timer_def recovery_ok_def ask_def
          live_snoc [OF assms(1)] simp del: map_of_append) blast
  qed
qed (use assms in \<open>simp add: recovery_answers_def\<close>)

lemma recovery_refired:
  assumes "recovery_ok s" and "\<not> re_shuttingDown q \<and> re_canRecover q" and "js_get (rr_live s) i = Some (RecoveryTimer c)"
  shows "recovery_ok (beginPostFenceRecovery q c
    (s\<lparr>rr_live := filter (\<lambda>x. fst x \<noteq> i) (rr_live s), rr_recoveryTimers := js_delete (rr_recoveryTimers s) c\<rparr>))"
proof -
  note d = recovery_okD [OF assms(1)]
  have c: "c \<notin> set (rr_inFlight s)" using d(5) [of c i] assms(3) by blast
  have one: "j = i" if "js_get (rr_live s) j = Some (RecoveryTimer c)" for j
    using that assms(3) d(2) [of c i] d(2) [of c j] by simp
  let ?s = "s\<lparr>rr_live := filter (\<lambda>x. fst x \<noteq> i) (rr_live s), rr_recoveryTimers := js_delete (rr_recoveryTimers s) c,
    rr_debt := set_add (rr_debt s) c, rr_inFlight := set_add (rr_inFlight s) c\<rparr>"
  have debt: "d \<in> set (rr_debt s) \<longleftrightarrow> d \<in> set (rr_inFlight s) \<or> (\<exists>j. j \<noteq> i \<and> js_get (rr_live s) j = Some (RecoveryTimer d))"
    if "d \<noteq> c" for d using d(4) [of d] assms(3) that by (metis option.inject reset_timer.inject(2))
  have "recovery_ok ?s" unfolding recovery_ok_def
  proof (intro conjI allI impI iffI)
    fix d j assume "js_get (rr_live ?s) j = Some (RecoveryTimer d)"
    then have "js_get (rr_live s) j = Some (RecoveryTimer d)" "j \<noteq> i" by (simp_all add: js_get_live split: if_splits)
    with one d(2) [of d j] show "js_get (rr_recoveryTimers ?s) d = Some j" by auto
  next
    fix d j assume "js_get (rr_recoveryTimers ?s) d = Some j"
    then show "js_get (rr_live ?s) j = Some (RecoveryTimer d)"
      using d(2) [of d j] assms(3) by (auto simp: js_get_live split: if_splits)
  next
    fix d j assume "js_get (rr_retryTimers ?s) d = Some j"
    then show "js_get (rr_live ?s) j = Some (ReconcileTimer d)"
      using d(3) [of d j] assms(3) by (auto simp: js_get_live)
  next
    fix d j assume "d \<in> set (rr_inFlight ?s)"
    then show "js_get (rr_live ?s) j \<noteq> Some (RecoveryTimer d)"
      using d(5) [of d j] one [of j] by (auto simp: js_get_live)
  qed (use d(1) debt in \<open>auto simp: js_get_live split: if_splits\<close>)
  with assms(2) c show ?thesis
    by (simp add: beginPostFenceRecovery_def ask_def js_has_def recovery_ok_def)
qed

lemma owed_same: "recovery_ok s \<Longrightarrow> replaying s' = replaying s \<Longrightarrow> recovery_ok s'"
  by (simp add: replaying_def recovery_ok_def)

lemma owed_elsewhere:
  "recovery_ok (ask x s) = recovery_ok s" "recovery_ok (s\<lparr>rr_proven := pv\<rparr>) = recovery_ok s"
  "recovery_ok (s\<lparr>rr_rounds := rd\<rparr>) = recovery_ok s" "recovery_ok (start_round c ids k s) = recovery_ok s"
  by (simp_all add: recovery_ok_def ask_def start_round_def)

interpretation recoveries: replay_invariant recovery_ok "\<lambda>q. \<not> re_shuttingDown q \<and> re_canRecover q"
proof unfold_locales
  show "recovery_ok s'" if "recovery_ok s" "store_clear io c m s = (b, s')" for s io c m b s'
    using that by (auto simp: store_clear_def recovery_ok_def split: option.splits prod.splits)
  show "recovery_ok (writer_fence io e s)" if "recovery_ok s" for s io e
    using that by (auto simp: writer_fence_def recovery_ok_def split: option.splits prod.splits)
qed (auto intro: owed_same retry_armed retry_stopped recovery_begun recovery_answered retry_dropped recovery_refired
    simp: owed_elsewhere)

definition steady :: "reset_env \<times> reset_event \<Rightarrow> bool" where
  "steady qe \<longleftrightarrow> \<not> re_shuttingDown (fst qe) \<and> re_canRecover (fst qe) \<and> snd qe \<noteq> RvShutdownTimers"

lemma recovery_run: "\<forall>qe \<in> set es. steady qe \<Longrightarrow> recovery_ok (reset_run (new_reset path reg d) es)"
proof (induction es rule: rev_induct)
  case Nil
  show ?case by (simp add: reset_run_def new_reset_def recovery_ok_def Let_def split: option.split sum.split prod.split)
next
  case (snoc e es)
  then have "recovery_ok (reset_step (reset_run (new_reset path reg d) es) (fst e, snd e))"
    by (intro recoveries.kept) (auto simp: steady_def)
  then show ?case by (simp add: reset_run_def)
qed

text \<open>
  C27. While the manager runs, a chat owes a recovery exactly when one is in flight or the one
  timer that retries it is live. A refusal by the server keeps the debt and leaves such a timer, that timer
  puts the recovery in flight again, and the first recovery that the server accepts pays the debt.
\<close>

theorem post_fence_debt_is_worked_on:
  assumes "s = reset_run (new_reset path reg d) es" and "\<forall>qe \<in> set es. steady qe" and "steady (q, RvRecovered c b)"
  shows "(hasPostFenceRecoveryDebt s c \<longleftrightarrow> c \<in> set (rr_inFlight s) \<or> (\<exists>i. js_get (rr_live s) i = Some (RecoveryTimer c))) \<and>
    (c \<in> set (rr_inFlight s) \<longrightarrow>
       \<not> hasPostFenceRecoveryDebt (recovery_answers q c True s) c \<and>
       hasPostFenceRecoveryDebt (recovery_answers q c False s) c \<and>
       (\<exists>i. js_get (rr_recoveryTimers (recovery_answers q c False s)) c = Some i \<and>
          js_get (rr_live (recovery_answers q c False s)) i = Some (RecoveryTimer c))) \<and>
    (\<forall>i. js_get (rr_live s) i = Some (RecoveryTimer c) \<longrightarrow>
       js_get (rr_recoveryTimers s) c = Some i \<and> c \<in> set (rr_inFlight (reset_timer_fires q i s)) \<and>
       rr_calls (reset_timer_fires q i s) = rr_calls s @ [RcRecoverChat c] \<and>
       \<not> hasPostFenceRecoveryDebt (reset_run s [(q, RvTimer i), (q, RvRecovered c True)]) c)"
proof -
  have ok: "recovery_ok s" unfolding assms(1) by (rule recovery_run [OF assms(2)])
  note d = recovery_okD [OF ok]
  have q: "\<not> re_shuttingDown q" "re_canRecover q" using assms(3) by (simp_all add: steady_def)
  have owed: "hasPostFenceRecoveryDebt s c \<longleftrightarrow> c \<in> set (rr_inFlight s) \<or> (\<exists>i. js_get (rr_live s) i = Some (RecoveryTimer c))"
    using d(4) by (simp add: hasPostFenceRecoveryDebt_def)
  have refused: "\<exists>i. js_get (rr_recoveryTimers (recovery_answers q c False s)) c = Some i \<and>
      js_get (rr_live (recovery_answers q c False s)) i = Some (RecoveryTimer c)" if "c \<in> set (rr_inFlight s)"
    using that q by (auto simp: recovery_answers_def armPostFenceRecoveryTimer_def new_timer_def ask_def live_snoc [OF ok]
        simp del: map_of_append)
  have debt: "hasPostFenceRecoveryDebt (recovery_answers q c False s) c \<and> \<not> hasPostFenceRecoveryDebt (recovery_answers q c True s) c"
    if "c \<in> set (rr_inFlight s)"
    using that q d(4) [of c] by (simp add: hasPostFenceRecoveryDebt_def recovery_answers_def armPostFenceRecoveryTimer_def
        new_timer_def ask_def)
  have fired: "js_get (rr_recoveryTimers s) c = Some i \<and> c \<in> set (rr_inFlight (reset_timer_fires q i s)) \<and>
       rr_calls (reset_timer_fires q i s) = rr_calls s @ [RcRecoverChat c] \<and>
       \<not> hasPostFenceRecoveryDebt (reset_run s [(q, RvTimer i), (q, RvRecovered c True)]) c"
    if i: "js_get (rr_live s) i = Some (RecoveryTimer c)" for i
  proof -
    have "c \<notin> set (rr_inFlight s)" using d(5) [of c i] i by blast
    with i q d(2) show ?thesis
      by (simp add: reset_timer_fires_def beginPostFenceRecovery_def ask_def js_has_def reset_run_def recovery_answers_def
          hasPostFenceRecoveryDebt_def)
  qed
  from owed refused debt fired show ?thesis by blast
qed


section \<open>Probes\<close>

text \<open>What the server takes in one probe; what an open round has still to ask.\<close>

fun fits_wire :: "reset_call \<Rightarrow> bool" where
  "fits_wire (RcProbe c ids) = (ids \<noteq> [] \<and> length ids \<le> 50 \<and> distinct ids)"
| "fits_wire _ = True"

definition probes_ok :: "reset_replay \<Rightarrow> bool" where
  "probes_ok s \<longleftrightarrow> (\<forall>x \<in> set (filter is_probe (rr_calls s)). fits_wire x) \<and>
     (\<forall>i r. js_get (rr_rounds s) i = Some r \<longrightarrow> distinct (pr_rest r))"

lemma probes_cong: "rr_calls s' = rr_calls s \<Longrightarrow> rr_rounds s' = rr_rounds s \<Longrightarrow> probes_ok s \<Longrightarrow> probes_ok s'"
  by (simp add: probes_ok_def)

lemma probe_fits: "ids \<noteq> [] \<Longrightarrow> distinct ids \<Longrightarrow> fits_wire (RcProbe c (take INBOX_FENCE_PROBE_MAX_IDS ids))"
  by (simp add: INBOX_FENCE_PROBE_MAX_IDS_def)

interpretation probes: replay_invariant probes_ok "\<lambda>q. True"
proof unfold_locales
  show "probes_ok s'" if "probes_ok s" "replaying s' = replaying s" for s s'
    using that by (simp add: probes_ok_def replaying_def fencing_def)
  show "probes_ok s'" if "probes_ok s" "store_clear io c m s = (b, s')" for s io c m b s'
    using that by (auto simp: store_clear_def probes_ok_def split: option.splits prod.splits)
  show "probes_ok (writer_fence io e s)" if "probes_ok s" for s io e
    using that by (auto simp: writer_fence_def probes_ok_def split: option.splits prod.splits)
  show "probes_ok (start_round c ids k s)" if "probes_ok s" "ids \<noteq> []" "distinct ids" for s ids c k
    using that probe_fits by (auto simp: start_round_def probes_ok_def ask_def)
  show "probes_ok (ask (RcProbe (pr_chat r) (take INBOX_FENCE_PROBE_MAX_IDS (pr_rest r)))
      (s\<lparr>rr_rounds := js_set (rr_rounds s) i (r\<lparr>pr_chunk := take INBOX_FENCE_PROBE_MAX_IDS (pr_rest r),
           pr_rest := drop INBOX_FENCE_PROBE_MAX_IDS (pr_rest r), pr_settled := st\<rparr>)\<rparr>))"
    if "probes_ok s" "js_get (rr_rounds s) i = Some r" "pr_rest r \<noteq> []" for s i r st
    using that probe_fits by (auto simp: probes_ok_def ask_def)
qed (auto simp: probes_ok_def stopReplayFenceReconcileLoop_def clear_timer_def armReplayFenceRetryTimer_def new_timer_def
    beginPostFenceRecovery_def recovery_answers_def armPostFenceRecoveryTimer_def ask_def Let_def split: option.split)

lemma probes_run: "probes_ok (reset_run (new_reset path reg d) es)"
proof (induction es rule: rev_induct)
  case Nil
  show ?case by (simp add: reset_run_def new_reset_def probes_ok_def Let_def split: option.split sum.split prod.split)
next
  case (snoc e es)
  show ?case
  proof (cases "snd e = RvShutdownTimers")
    case True
    with snoc probes_cong show ?thesis by (cases e) (simp add: reset_run_def clearTimersOnShutdown_def Let_def probes_ok_def)
  next
    case False
    with probes.kept [OF snoc, of "snd e" "fst e"] show ?thesis by (simp add: reset_run_def)
  qed
qed

text \<open>
  Every probe the authority sends asks about at least one and at most fifty deliveries of the chat,
  each once, however many fences the chat has and however its rounds interleave.
\<close>

theorem probes_fit_the_wire:
  assumes "s = reset_run (new_reset path reg d) es" and "RcProbe c ids \<in> set (rr_calls s)"
  shows "ids \<noteq> [] \<and> length ids \<le> 50 \<and> distinct ids"
proof -
  have "RcProbe c ids \<in> set (filter is_probe (rr_calls s))" using assms(2) by simp
  with probes_run [of path reg d es] assms(1) have "fits_wire (RcProbe c ids)" unfolding probes_ok_def by blast
  then show ?thesis by simp
qed


section \<open>The doubled loop\<close>

text \<open>
  A delivery of \<open>''a''\<close> is fenced and its loop started; the timer of the loop fires, and while its probe is
  awaited the next withheld delivery starts the loop again; then the probe fails.
\<close>

definition doubled :: "(reset_env \<times> reset_event) list" where
  "doubled = map (Pair demo_env) [RvFence demo_io demo_fence, RvEnsure ''a'', RvTimer 0, RvEnsure ''a'', RvProbe 1 None]"

text \<open>
  The tail of the reconcile loop arms its next timer without looking whether one is armed, so a
  withheld delivery that starts the loop while a probe is awaited leaves the chat with two loops: two timers are
  live, the map knows only the later one, the shutdown leaves the other running, and with the manager up each of
  the two goes on probing.
\<close>

theorem reconcile_timers_can_double:
  "let s = reset_run demo_reset doubled;
       later = reset_run s (map (Pair demo_env) [RvTimer 1, RvTimer 2, RvProbe 3 None, RvProbe 4 None])
   in rr_live s = [(1, ReconcileTimer ''a''), (2, ReconcileTimer ''a'')] \<and> js_get (rr_retryTimers s) ''a'' = Some 2 \<and>
      rr_live (clearOnShutdown s) = [(1, ReconcileTimer ''a'')] \<and>
      rr_live later = [(3, ReconcileTimer ''a''), (4, ReconcileTimer ''a'')] \<and>
      drop (length (rr_calls s)) (rr_calls later) = [RcProbe ''a'' [''1b''], RcProbe ''a'' [''1b'']]"
  by code_simp


section \<open>Concrete runs\<close>

theorem post_fence_debt_is_worked_on_witness:
  "let s = reset_run demo_reset (map (Pair demo_env) [RvFence demo_io demo_fence, RvAcked ''a'' [''1b''], RvRecovered ''a'' False])
   in hasPostFenceRecoveryDebt s ''a'' \<and> js_get (rr_recoveryTimers s) ''a'' = Some 0 \<and>
      \<not> hasPostFenceRecoveryDebt (reset_run s [(demo_env, RvTimer 0), (demo_env, RvRecovered ''a'' True)]) ''a''"
proof -
  let ?es = "map (Pair demo_env) [RvFence demo_io demo_fence, RvAcked ''a'' [''1b''], RvRecovered ''a'' False]"
  let ?s = "reset_run demo_reset ?es"
  have run: "?s = reset_run (new_reset (Some empty_disk) new_registry empty_disk) ?es" by (simp add: demo_reset_def)
  have steady: "\<forall>qe \<in> set ?es. steady qe" "steady (demo_env, RvRecovered ''a'' True)" by (simp_all add: steady_def demo_env_def)
  have "js_get (rr_live ?s) 0 = Some (RecoveryTimer ''a'')" by code_simp
  with post_fence_debt_is_worked_on [OF run steady] show ?thesis unfolding Let_def by blast
qed

theorem probes_fit_the_wire_witness:
  "length [''1b''] \<le> (50 :: nat) \<and> RcProbe ''a'' [''1b''] \<in> set (rr_calls (reset_run demo_reset doubled))"
proof -
  have "RcProbe ''a'' [''1b''] \<in> set (rr_calls (reset_run demo_reset doubled))" by code_simp
  with probes_fit_the_wire [of "reset_run demo_reset doubled" "Some empty_disk" new_registry empty_disk doubled "''a''" "[''1b'']"]
  show ?thesis unfolding demo_reset_def by blast
qed

end
