(* ===== verification/InboxTable.thy ===== *)
theory InboxTable
  imports Disk "HOL-Library.Product_Lexorder"
begin

text \<open>
  The model of the server's inbox: \<open>services/chat/inbox.ts\<close> over the table of
  \<open>db/schema/inbox-entries.ts\<close>, the payloads of \<open>services/chat/message-dispatcher.ts\<close> and the fan-out of
  \<open>services/chat/message.ts\<close>. Each function is one transaction on the table. \<open>SKIP LOCKED\<close> is the argument
  \<open>busy\<close>: the rows that other transactions hold at that moment. Times are milliseconds; the time of a
  statement is an argument. A transaction that throws leaves the table as it was.
\<close>

section \<open>The table\<close>

datatype inbox_status = StPending | StDelivered | StAcked

record inbox_row =
  row_id :: int
  row_inboxId :: string
  row_messageId :: string
  row_chatId :: "string option"
  row_status :: inbox_status
  row_notify :: bool
  row_retryCount :: int
  row_createdAt :: int
  row_deliveredAt :: "int option"
  row_ackedAt :: "int option"

record message_row =
  ms_id :: string
  ms_chatId :: string
  ms_senderId :: string
  ms_senderKind :: string
  ms_senderProvider :: "string option"
  ms_format :: string
  ms_content :: json
  ms_metadata :: json
  ms_inReplyTo :: "string option"
  ms_source :: "string option"
  ms_createdAt :: int

text \<open>\<open>db_owners\<close> gives the agent that owns an inbox, \<open>db_versions\<close> the version of an agent's configuration.\<close>

record inbox_db =
  db_rows :: "inbox_row list"
  db_nextId :: int
  db_messages :: "message_row list"
  db_owners :: "(string, string) jsmap"
  db_versions :: "(string, int) jsmap"

datatype inbox_error = MessageNotFound string | NoInboxOwner string | UniqueViolation | ForbiddenInbox

definition by_id :: "inbox_row list \<Rightarrow> inbox_row list" where
  "by_id rows = sort_key row_id rows"

definition PRECEDING_CONTEXT_MAX_ENTRIES :: nat where "PRECEDING_CONTEXT_MAX_ENTRIES = 50"

definition PRECEDING_CONTEXT_WINDOW_SECONDS :: int where "PRECEDING_CONTEXT_WINDOW_SECONDS = 24 * 60 * 60"

definition SILENT_ROW_GC_MAX_AGE_SECONDS :: int where "SILENT_ROW_GC_MAX_AGE_SECONDS = 30 * 24 * 60 * 60"


section \<open>Writing rows\<close>

text \<open>The unique key of a row; an absent chat equals no other.\<close>

definition same_delivery :: "inbox_row \<Rightarrow> inbox_row \<Rightarrow> bool" where
  "same_delivery r r' =
     (row_inboxId r = row_inboxId r' \<and> row_messageId r = row_messageId r' \<and> row_chatId r = row_chatId r' \<and> row_chatId r \<noteq> None)"

definition new_row :: "int \<Rightarrow> int \<Rightarrow> string \<Rightarrow> string \<Rightarrow> string option \<Rightarrow> bool \<Rightarrow> inbox_row" where
  "new_row now i inboxId messageId chat notify =
     \<lparr>row_id = i, row_inboxId = inboxId, row_messageId = messageId, row_chatId = chat, row_status = StPending,
      row_notify = notify, row_retryCount = 0, row_createdAt = now, row_deliveredAt = None, row_ackedAt = None\<rparr>"

text \<open>\<open>INSERT ... ON CONFLICT DO NOTHING\<close>; the sequence gives out a number for a row that is not written, too.\<close>

definition insert_one :: "int \<Rightarrow> string \<times> string \<times> string option \<times> bool \<Rightarrow> inbox_db \<Rightarrow> inbox_db" where
  "insert_one now x d =
     (case x of (inboxId, messageId, chat, notify) \<Rightarrow>
        let r = new_row now (db_nextId d) inboxId messageId chat notify
        in d\<lparr>db_nextId := db_nextId d + 1,
             db_rows := (if list_ex (same_delivery r) (db_rows d) then db_rows d else db_rows d @ [r])\<rparr>)"

fun insert_new :: "int \<Rightarrow> (string \<times> string \<times> string option \<times> bool) list \<Rightarrow> inbox_db \<Rightarrow> inbox_db" where
  "insert_new now [] d = d"
| "insert_new now (x # xs) d = insert_new now xs (insert_one now x d)"

definition backfillSilentContextForNewParticipants :: "int \<Rightarrow> string \<Rightarrow> string list \<Rightarrow> inbox_db \<Rightarrow> inbox_db" where
  "backfillSilentContextForNewParticipants now chat inboxIds d =
     (let recent = take PRECEDING_CONTEXT_MAX_ENTRIES
        (sort_key (\<lambda>m. - ms_createdAt m) (filter (\<lambda>m. ms_chatId m = chat) (db_messages d)))
      in insert_new now (concat (map (\<lambda>p. map (\<lambda>m. (p, ms_id m, Some chat, False)) recent) inboxIds)) d)"

record participant =
  pt_agentId :: string
  pt_inboxId :: string
  pt_active :: bool

text \<open>The fan-out of \<open>sendMessage\<close>: a row for every other active participant, a waking one for those addressed.\<close>

definition fan_out :: "string \<Rightarrow> bool \<Rightarrow> string list \<Rightarrow> string list \<Rightarrow> participant list \<Rightarrow> (string \<times> bool) list" where
  "fan_out senderId forceSilent addressed mentions ps =
     map (\<lambda>p. (pt_inboxId p, \<not> forceSilent \<and> (pt_agentId p \<in> set addressed \<or> pt_agentId p \<in> set mentions)))
       (filter pt_active (filter (\<lambda>p. pt_agentId p \<noteq> senderId) ps))"

definition store_message ::
  "int \<Rightarrow> message_row \<Rightarrow> (string \<times> bool) list \<Rightarrow> inbox_db \<Rightarrow> (inbox_error + unit) \<times> inbox_db" where
  "store_message now m fs d =
     (if list_ex (\<lambda>m'. ms_id m' = ms_id m) (db_messages d) then (Inl UniqueViolation, d)
      else
        let d' = insert_new now (map (\<lambda>(inboxId, notify). (inboxId, ms_id m, Some (ms_chatId m), notify)) fs)
                   (d\<lparr>db_messages := db_messages d @ [m]\<rparr>)
        in if length (db_rows d') = length (db_rows d) + length fs then (Inr (), d') else (Inl UniqueViolation, d))"

text \<open>An Orientation bootstrap that nobody claimed hands its wake-up over to the human turn that continues it.\<close>

definition silence_pending_trigger :: "string \<Rightarrow> string \<Rightarrow> string list \<Rightarrow> inbox_db \<Rightarrow> inbox_db" where
  "silence_pending_trigger chat messageId inboxIds d =
     d\<lparr>db_rows := map (\<lambda>r. if row_chatId r = Some chat \<and> row_messageId r = messageId \<and> row_status r = StPending \<and>
                             row_notify r \<and> row_inboxId r \<in> set inboxIds
                          then r\<lparr>row_notify := False\<rparr> else r) (db_rows d)\<rparr>"

text \<open>A legacy kickoff wakes the bootstrap instead: its silent row is promoted, or a waking one is written.\<close>

definition promote_bootstrap :: "int \<Rightarrow> string \<Rightarrow> string \<Rightarrow> string \<Rightarrow> inbox_db \<Rightarrow> inbox_db" where
  "promote_bootstrap now inboxId messageId chat d =
     (case find (\<lambda>r. row_inboxId r = inboxId \<and> row_messageId r = messageId \<and> row_chatId r = Some chat) (db_rows d) of
        Some r \<Rightarrow>
          if row_notify r \<or> row_status r \<noteq> StPending then d
          else d\<lparr>db_rows := map (\<lambda>x. if row_id x = row_id r then x\<lparr>row_notify := True\<rparr> else x) (db_rows d)\<rparr>
      | None \<Rightarrow> insert_new now [(inboxId, messageId, Some chat, True)] d)"


section \<open>Payloads\<close>

definition json_field :: "json \<Rightarrow> string \<Rightarrow> json option" where
  "json_field j k = (case j of JObj fs \<Rightarrow> map_of fs k | _ \<Rightarrow> None)"

definition FIRST_CHAT_ORIENTATION_METADATA_KEY :: string where
  "FIRST_CHAT_ORIENTATION_METADATA_KEY = ''firstChatOrientation''"

definition FIRST_CHAT_ORIENTATION_CONTINUATION_METADATA_KEY :: string where
  "FIRST_CHAT_ORIENTATION_CONTINUATION_METADATA_KEY = ''firstChatOrientationContinuation''"

definition TEAM_SKILL_INVOCATION_METADATA_KEY :: string where
  "TEAM_SKILL_INVOCATION_METADATA_KEY = ''teamSkillInvocation''"

text \<open>\<open>metadata -> key ->> 'version' = '1'\<close>, with false for null.\<close>

definition orientationBootstrap :: "message_row \<Rightarrow> bool" where
  "orientationBootstrap m =
     (case json_field (ms_metadata m) FIRST_CHAT_ORIENTATION_METADATA_KEY of
        None \<Rightarrow> False
      | Some v \<Rightarrow> (case json_field v ''version'' of Some (JNum n) \<Rightarrow> n = 1 | Some (JStr t) \<Rightarrow> t = ''1'' | _ \<Rightarrow> False))"

definition readFirstChatOrientationContinuationMessageMetadata :: "json \<Rightarrow> string option" where
  "readFirstChatOrientationContinuationMessageMetadata md =
     (case json_field md FIRST_CHAT_ORIENTATION_CONTINUATION_METADATA_KEY of
        None \<Rightarrow> None
      | Some v \<Rightarrow>
          (case (json_field v ''version'', json_field v ''targetAgentId'') of
             (Some (JNum n), Some (JStr t)) \<Rightarrow> if n = 1 \<and> t \<noteq> [] then Some t else None
           | _ \<Rightarrow> None))"

definition hasTeamSkillInvocationMarker :: "json \<Rightarrow> bool" where
  "hasTeamSkillInvocationMarker md = (json_field md TEAM_SKILL_INVOCATION_METADATA_KEY \<noteq> None)"

definition TEAM_SKILL_INVOCATION_UNSUPPORTED_CLIENT_NOTICE :: string where
  "TEAM_SKILL_INVOCATION_UNSUPPORTED_CLIENT_NOTICE =
     ''[First Tree] The user invoked a configured Team Skill command, but the currently connected agent client '' @
     ''is too old to run it safely, so the command was not run. Do NOT invoke any slash command or a same-named '' @
     ''local Skill on their behalf. Briefly explain to the user that the command could not run on the current '' @
     ''client and ask them to send it again once the agent's client is up to date.''"

definition SUPPORTED_IMAGE_MIMES :: "string list" where
  "SUPPORTED_IMAGE_MIMES = [''image/png'', ''image/jpeg'', ''image/gif'', ''image/webp'']"

definition is_json_string :: "json option \<Rightarrow> bool" where
  "is_json_string j = (case j of Some (JStr t) \<Rightarrow> True | _ \<Rightarrow> False)"

definition isImageRefContent :: "json \<Rightarrow> bool" where
  "isImageRefContent c =
     (is_json_string (json_field c ''imageId'') \<and>
      (case json_field c ''mimeType'' of Some (JStr t) \<Rightarrow> t \<in> set SUPPORTED_IMAGE_MIMES | _ \<Rightarrow> False) \<and>
      is_json_string (json_field c ''filename''))"

definition isImageBatchRefContent :: "json \<Rightarrow> bool" where
  "isImageBatchRefContent c =
     (case json_field c ''attachments'' of Some (JArr as) \<Rightarrow> as \<noteq> [] \<and> list_all isImageRefContent as | _ \<Rightarrow> False)"

definition contentForUnsupportedMarkerClient :: "json \<Rightarrow> json" where
  "contentForUnsupportedMarkerClient c =
     (case c of
        JStr t \<Rightarrow> JStr TEAM_SKILL_INVOCATION_UNSUPPORTED_CLIENT_NOTICE
      | JObj fs \<Rightarrow>
          if isImageBatchRefContent c \<and> is_json_string (json_field c ''caption'')
          then JObj (js_set fs ''caption'' (JStr TEAM_SKILL_INVOCATION_UNSUPPORTED_CLIENT_NOTICE)) else c
      | _ \<Rightarrow> c)"

definition normaliseSource :: "string option \<Rightarrow> string option" where
  "normaliseSource src =
     (case src of
        None \<Rightarrow> None
      | Some t \<Rightarrow> if t \<in> set [''web'', ''cli'', ''github'', ''gitlab'', ''api'', ''feishu''] then Some t else None)"

record preceding_message =
  pc_id :: string
  pc_senderId :: string
  pc_senderKind :: string
  pc_senderProvider :: "string option"
  pc_format :: string
  pc_content :: json
  pc_metadata :: json
  pc_source :: "string option"
  pc_createdAt :: int

record client_message =
  cm_id :: string
  cm_chatId :: string
  cm_senderId :: string
  cm_senderKind :: string
  cm_senderProvider :: "string option"
  cm_format :: string
  cm_content :: json
  cm_metadata :: json
  cm_inReplyTo :: "string option"
  cm_source :: "string option"
  cm_createdAt :: int
  cm_configVersion :: int
  cm_recipientMode :: string
  cm_precedingMessages :: "preceding_message list"

record inbox_delivery =
  fr_id :: int
  fr_inboxId :: string
  fr_messageId :: string
  fr_chatId :: "string option"
  fr_status :: inbox_status
  fr_retryCount :: int
  fr_createdAt :: int
  fr_deliveredAt :: "int option"
  fr_ackedAt :: "int option"
  fr_message :: client_message

definition sender_kind :: "string \<Rightarrow> string" where
  "sender_kind k = (if k = ''integration'' then ''integration'' else ''member'')"

definition sender_provider :: "string option \<Rightarrow> string option" where
  "sender_provider p = (if p = Some ''feishu'' then p else None)"

definition preceding_of_message :: "message_row \<Rightarrow> preceding_message" where
  "preceding_of_message m =
     \<lparr>pc_id = ms_id m, pc_senderId = ms_senderId m, pc_senderKind = sender_kind (ms_senderKind m),
      pc_senderProvider = sender_provider (ms_senderProvider m), pc_format = ms_format m, pc_content = ms_content m,
      pc_metadata = (if ms_metadata m = JNull then JObj [] else ms_metadata m), pc_source = normaliseSource (ms_source m),
      pc_createdAt = ms_createdAt m\<rparr>"

definition resolveInboxAgentId :: "inbox_db \<Rightarrow> string \<Rightarrow> inbox_error + string" where
  "resolveInboxAgentId d inboxId =
     (case map_of (db_owners d) inboxId of Some a \<Rightarrow> Inr a | None \<Rightarrow> Inl (NoInboxOwner inboxId))"

text \<open>\<open>supported\<close>: the client on the agent's current route understands the Team Skill marker.\<close>

definition client_payload :: "bool \<Rightarrow> int \<Rightarrow> message_row \<Rightarrow> preceding_message list \<Rightarrow> client_message" where
  "client_payload supported version m preceding =
     \<lparr>cm_id = ms_id m, cm_chatId = ms_chatId m, cm_senderId = ms_senderId m, cm_senderKind = sender_kind (ms_senderKind m),
      cm_senderProvider = sender_provider (ms_senderProvider m), cm_format = ms_format m,
      cm_content = (if hasTeamSkillInvocationMarker (ms_metadata m) \<and> \<not> supported
                    then contentForUnsupportedMarkerClient (ms_content m) else ms_content m),
      cm_metadata = ms_metadata m, cm_inReplyTo = ms_inReplyTo m, cm_source = normaliseSource (ms_source m),
      cm_createdAt = ms_createdAt m, cm_configVersion = version, cm_recipientMode = ''mention_only'',
      cm_precedingMessages = preceding\<rparr>"

definition config_version :: "inbox_db \<Rightarrow> string \<Rightarrow> int" where
  "config_version d agentId = (case map_of (db_versions d) agentId of Some v \<Rightarrow> v | None \<Rightarrow> 1)"


section \<open>Claiming deliveries\<close>

text \<open>
  The silent rows that a trigger carries: those of its chat between the previous trigger and it that are
  recent, and for the continuation of an Orientation its bootstrap; of these the newest, oldest first.
\<close>

definition context_candidate ::
  "(int \<Rightarrow> bool) \<Rightarrow> string \<Rightarrow> string \<Rightarrow> int option \<Rightarrow> bool \<Rightarrow> inbox_row \<Rightarrow> inbox_row \<Rightarrow> message_row \<Rightarrow> bool" where
  "context_candidate busy inboxId chat previous continuation t e m =
     (row_inboxId e = inboxId \<and> row_chatId e = Some chat \<and> row_status e = StPending \<and> \<not> row_notify e \<and>
      row_id e < row_id t \<and> (case previous of None \<Rightarrow> True | Some p \<Rightarrow> p < row_id e) \<and> ms_id m = row_messageId e \<and>
      ((row_createdAt t - PRECEDING_CONTEXT_WINDOW_SECONDS * 1000 < row_createdAt e \<and> \<not> orientationBootstrap m) \<or>
       (continuation \<and> orientationBootstrap m)) \<and>
      \<not> busy (row_id e))"

definition context_rows ::
  "(int \<Rightarrow> bool) \<Rightarrow> inbox_db \<Rightarrow> string \<Rightarrow> string \<Rightarrow> int option \<Rightarrow> bool \<Rightarrow> inbox_row \<Rightarrow> (inbox_row \<times> message_row) list" where
  "context_rows busy d inboxId chat previous continuation t =
     rev (take PRECEDING_CONTEXT_MAX_ENTRIES (sort_key (\<lambda>(e, m). - ms_createdAt m)
       (filter (\<lambda>(e, m). context_candidate busy inboxId chat previous continuation t e m)
          (List.product (db_rows d) (db_messages d)))))"

fun chat_context ::
  "(int \<Rightarrow> bool) \<Rightarrow> inbox_db \<Rightarrow> string \<Rightarrow> string list \<Rightarrow> string \<Rightarrow> int option \<Rightarrow> inbox_row list \<Rightarrow>
   (int \<times> (inbox_row \<times> message_row) list) list" where
  "chat_context busy d inboxId orient chat previous [] = []"
| "chat_context busy d inboxId orient chat previous (t # ts) =
     (row_id t, context_rows busy d inboxId chat previous (row_messageId t \<in> set orient) t) #
     chat_context busy d inboxId orient chat (Some (row_id t)) ts"

definition previous_notify :: "inbox_db \<Rightarrow> string \<Rightarrow> string \<Rightarrow> inbox_row \<Rightarrow> int option" where
  "previous_notify d inboxId chat t =
     (let ids = map row_id (filter (\<lambda>r. row_inboxId r = inboxId \<and> row_chatId r = Some chat \<and> row_notify r \<and>
                  row_id r < row_id t) (db_rows d))
      in if ids = [] then None else Some (foldr max ids (hd ids)))"

definition collectPrecedingContext ::
  "(int \<Rightarrow> bool) \<Rightarrow> inbox_db \<Rightarrow> string \<Rightarrow> string list \<Rightarrow> inbox_row list \<Rightarrow> (int \<times> (inbox_row \<times> message_row) list) list" where
  "collectPrecedingContext busy d inboxId orient triggers =
     concat (map (\<lambda>chat. let ts = by_id (filter (\<lambda>t. row_chatId t = Some chat) triggers)
                         in chat_context busy d inboxId orient chat (previous_notify d inboxId chat (hd ts)) ts)
       (remdups (List.map_filter row_chatId triggers)))"

fun build_deliveries ::
  "bool \<Rightarrow> inbox_db \<Rightarrow> int \<Rightarrow> (int \<times> (inbox_row \<times> message_row) list) list \<Rightarrow> inbox_row list \<Rightarrow>
   inbox_error + inbox_delivery list" where
  "build_deliveries supported d version ctx [] = Inr []"
| "build_deliveries supported d version ctx (e # es) =
     (case find (\<lambda>m. ms_id m = row_messageId e) (db_messages d) of
        None \<Rightarrow> Inl (MessageNotFound (row_messageId e))
      | Some m \<Rightarrow>
          (case build_deliveries supported d version ctx es of
             Inl x \<Rightarrow> Inl x
           | Inr fs \<Rightarrow>
               Inr (\<lparr>fr_id = row_id e, fr_inboxId = row_inboxId e, fr_messageId = row_messageId e, fr_chatId = row_chatId e,
                     fr_status = row_status e, fr_retryCount = row_retryCount e, fr_createdAt = row_createdAt e,
                     fr_deliveredAt = row_deliveredAt e, fr_ackedAt = row_ackedAt e,
                     fr_message = client_payload supported version m
                       (map (preceding_of_message \<circ> snd) (case map_of ctx (row_id e) of Some xs \<Rightarrow> xs | None \<Rightarrow> []))\<rparr> # fs)))"

definition bundleDeliveryWithSilentContext ::
  "(int \<Rightarrow> bool) \<Rightarrow> bool \<Rightarrow> inbox_db \<Rightarrow> string \<Rightarrow> inbox_row list \<Rightarrow> inbox_error + inbox_delivery list" where
  "bundleDeliveryWithSilentContext busy supported d inboxId claimed =
     (if claimed = [] then Inr []
      else
        let claimed = by_id claimed in
        case resolveInboxAgentId d inboxId of
          Inl e \<Rightarrow> Inl e
        | Inr agent \<Rightarrow>
            let orient = map ms_id (filter (\<lambda>m. ms_id m \<in> set (map row_messageId claimed) \<and>
                           readFirstChatOrientationContinuationMessageMetadata (ms_metadata m) = Some agent) (db_messages d))
            in build_deliveries supported d (config_version d agent)
                 (collectPrecedingContext busy d inboxId orient claimed) claimed)"

definition mark_delivered :: "int \<Rightarrow> int list \<Rightarrow> inbox_db \<Rightarrow> inbox_db" where
  "mark_delivered now ids d =
     d\<lparr>db_rows := map (\<lambda>r. if row_id r \<in> set ids then r\<lparr>row_status := StDelivered, row_deliveredAt := Some now\<rparr> else r)
        (db_rows d)\<rparr>"

text \<open>Every claim ends alike: the rows become delivered and are bundled, or the transaction rolls back.\<close>

definition claim_rows ::
  "(int \<Rightarrow> bool) \<Rightarrow> bool \<Rightarrow> int \<Rightarrow> string \<Rightarrow> int list \<Rightarrow> inbox_db \<Rightarrow> (inbox_error + inbox_delivery list) \<times> inbox_db" where
  "claim_rows busy supported now inboxId ids d =
     (let d' = mark_delivered now ids d
      in case bundleDeliveryWithSilentContext busy supported d' inboxId (filter (\<lambda>r. row_id r \<in> set ids) (db_rows d')) of
           Inl e \<Rightarrow> (Inl e, d)
         | Inr fs \<Rightarrow> (Inr fs, d'))"

definition claimable :: "string \<Rightarrow> inbox_row \<Rightarrow> bool" where
  "claimable inboxId r = (row_inboxId r = inboxId \<and> row_status r = StPending \<and> row_notify r)"

definition poll_ids :: "(int \<Rightarrow> bool) \<Rightarrow> string \<Rightarrow> nat \<Rightarrow> string option \<Rightarrow> inbox_db \<Rightarrow> int list" where
  "poll_ids busy inboxId limit chat d =
     take limit (map row_id (by_id (filter (\<lambda>r. claimable inboxId r \<and>
       (case chat of None \<Rightarrow> True | Some c \<Rightarrow> row_chatId r = Some c) \<and> \<not> busy (row_id r)) (db_rows d))))"

definition pollInboxInner ::
  "(int \<Rightarrow> bool) \<Rightarrow> bool \<Rightarrow> int \<Rightarrow> string \<Rightarrow> nat \<Rightarrow> string option \<Rightarrow> inbox_db \<Rightarrow>
   (inbox_error + inbox_delivery list) \<times> inbox_db" where
  "pollInboxInner busy supported now inboxId limit chat d =
     claim_rows busy supported now inboxId (poll_ids busy inboxId limit chat d) d"

definition claimBacklogForPushForChat ::
  "(int \<Rightarrow> bool) \<Rightarrow> bool \<Rightarrow> int \<Rightarrow> string \<Rightarrow> string \<Rightarrow> nat \<Rightarrow> inbox_db \<Rightarrow> (inbox_error + inbox_delivery list) \<times> inbox_db" where
  "claimBacklogForPushForChat busy supported now inboxId chat limit d =
     pollInboxInner busy supported now inboxId limit (Some chat) d"

text \<open>The claim of one message takes everything before it in its chat along. Its locks wait, so nothing is skipped.\<close>

definition claimAndBuildForPush ::
  "(int \<Rightarrow> bool) \<Rightarrow> bool \<Rightarrow> int \<Rightarrow> string \<Rightarrow> string \<Rightarrow> inbox_db \<Rightarrow> (inbox_error + inbox_delivery list) \<times> inbox_db" where
  "claimAndBuildForPush busy supported now inboxId messageId d =
     (case by_id (filter (\<lambda>r. claimable inboxId r \<and> row_messageId r = messageId) (db_rows d)) of
        [] \<Rightarrow> (Inr [], d)
      | t # _ \<Rightarrow>
          claim_rows busy supported now inboxId
            (map row_id (by_id (filter (\<lambda>r. claimable inboxId r \<and> row_chatId r = row_chatId t \<and> row_id r \<le> row_id t) (db_rows d)))) d)"

definition chat_rank :: "inbox_row list \<Rightarrow> inbox_row \<Rightarrow> nat" where
  "chat_rank rows r = length (filter (\<lambda>x. row_chatId x = row_chatId r \<and> row_id x \<le> row_id r) rows)"

text \<open>The budget that is normalized last for a chat is the one that counts.\<close>

definition chat_budget :: "nat \<Rightarrow> (string option \<times> int) list \<Rightarrow> string option \<Rightarrow> nat" where
  "chat_budget perChat budgets chat =
     (case map_of (rev budgets) chat of Some n \<Rightarrow> nat n | None \<Rightarrow> perChat)"

definition fair_ids :: "(int \<Rightarrow> bool) \<Rightarrow> string \<Rightarrow> nat \<Rightarrow> nat \<Rightarrow> (string option \<times> int) list \<Rightarrow> inbox_db \<Rightarrow> int list" where
  "fair_ids busy inboxId limit perChat budgets d =
     (let ranked = filter (claimable inboxId) (db_rows d);
          eligible = take limit (sort_key (\<lambda>r. (chat_rank ranked r, row_id r))
            (filter (\<lambda>r. chat_rank ranked r \<le> chat_budget perChat budgets (row_chatId r)) ranked))
      in map row_id (filter (\<lambda>r. \<not> busy (row_id r)) eligible))"

definition claimBacklogForPushFair ::
  "(int \<Rightarrow> bool) \<Rightarrow> bool \<Rightarrow> int \<Rightarrow> string \<Rightarrow> int \<Rightarrow> int \<Rightarrow> (string option \<times> int) list \<Rightarrow> inbox_db \<Rightarrow>
   (inbox_error + inbox_delivery list) \<times> inbox_db" where
  "claimBacklogForPushFair busy supported now inboxId limit perChat budgets d =
     (if limit \<le> 0 \<or> perChat \<le> 0 then (Inr [], d)
      else claim_rows busy supported now inboxId (fair_ids busy inboxId (nat limit) (nat perChat) budgets d) d)"


section \<open>Settling deliveries\<close>

datatype ack_disposition = DispAcked | DispAlreadyAcked | DispAcceptedFromPending

datatype ack_refusal = NotFoundOrNotBound | NonNotify | PrefixGap

datatype ack_result = AckOk inbox_row ack_disposition "int list" | AckRefused ack_refusal

definition isResetDeliveredRow :: "inbox_row \<Rightarrow> bool" where
  "isResetDeliveredRow r = (row_status r = StPending \<and> row_deliveredAt r \<noteq> None)"

definition mark_acked :: "int \<Rightarrow> (inbox_row \<Rightarrow> bool) \<Rightarrow> inbox_db \<Rightarrow> inbox_db" where
  "mark_acked now p d =
     d\<lparr>db_rows := map (\<lambda>r. if p r then r\<lparr>row_status := StAcked, row_ackedAt := Some now\<rparr> else r) (db_rows d)\<rparr>"

definition same_partition :: "inbox_row \<Rightarrow> inbox_row \<Rightarrow> bool" where
  "same_partition e r = (row_inboxId r = row_inboxId e \<and> row_chatId r = row_chatId e)"

text \<open>The rows of the partition up to the cursor; those of them that an acknowledgement would settle.\<close>

definition prefix_rows :: "inbox_row \<Rightarrow> inbox_db \<Rightarrow> inbox_row list" where
  "prefix_rows e d = by_id (filter (\<lambda>r. same_partition e r \<and> row_notify r \<and> row_id r \<le> row_id e) (db_rows d))"

definition committable_ids :: "inbox_row list \<Rightarrow> int list" where
  "committable_ids rows =
     map row_id (filter (\<lambda>r. row_status r = StDelivered) rows) @ map row_id (filter isResetDeliveredRow rows)"

text \<open>The update of the rows and, with them, of the silent rows before the cursor.\<close>

definition commit_prefix :: "int \<Rightarrow> inbox_row \<Rightarrow> int list \<Rightarrow> inbox_db \<Rightarrow> inbox_row \<times> int list \<times> inbox_db" where
  "commit_prefix now e ids d =
     (let updates = (\<lambda>r. row_id r \<in> set ids \<and> row_status r \<noteq> StAcked);
          updated = map row_id (filter updates (db_rows d));
          d = mark_acked now updates d;
          through = (case find (\<lambda>r. row_id r = row_id e \<and> row_id e \<in> set updated) (db_rows d) of Some r \<Rightarrow> r | None \<Rightarrow> e)
      in (through, updated,
          mark_acked now (\<lambda>r. same_partition e r \<and> row_status r = StPending \<and> \<not> row_notify r \<and> row_id r \<le> row_id e) d))"

definition ackThroughEntryIdForBoundAgents ::
  "int \<Rightarrow> int \<Rightarrow> string list \<Rightarrow> int list \<Rightarrow> inbox_db \<Rightarrow> ack_result \<times> inbox_db" where
  "ackThroughEntryIdForBoundAgents now entryId inboxIds current d =
     (if inboxIds = [] then (AckRefused NotFoundOrNotBound, d)
      else
        case find (\<lambda>r. row_id r = entryId \<and> row_inboxId r \<in> set inboxIds) (db_rows d) of
          None \<Rightarrow> (AckRefused NotFoundOrNotBound, d)
        | Some e \<Rightarrow>
            if \<not> row_notify e then (AckRefused NonNotify, d)
            else if list_ex (\<lambda>r. row_status r \<noteq> StAcked \<and> row_status r \<noteq> StDelivered \<and> \<not> isResetDeliveredRow r) (prefix_rows e d)
            then (AckRefused PrefixGap, d)
            else
              let committableIds = committable_ids (prefix_rows e d) in
              if committableIds = [] then (AckOk e DispAlreadyAcked [], d)
              else if list_ex (\<lambda>i. i \<notin> set current) committableIds then (AckRefused NotFoundOrNotBound, d)
              else
                case commit_prefix now e committableIds d of
                  (through, updated, d') \<Rightarrow>
                    (AckOk through (if list_ex isResetDeliveredRow (prefix_rows e d) then DispAcceptedFromPending else DispAcked) updated, d'))"

definition in_scope :: "string \<Rightarrow> string option \<Rightarrow> inbox_row \<Rightarrow> bool" where
  "in_scope inboxId chat r =
     (row_inboxId r = inboxId \<and> row_notify r \<and> (case chat of None \<Rightarrow> True | Some c \<Rightarrow> row_chatId r = Some c))"

definition countUnackedForScope :: "string \<Rightarrow> string option \<Rightarrow> inbox_db \<Rightarrow> nat" where
  "countUnackedForScope inboxId chat d =
     length (filter (\<lambda>r. in_scope inboxId chat r \<and> row_status r \<noteq> StAcked) (db_rows d))"

definition listSettledMessageIdsForScope :: "string \<Rightarrow> string \<Rightarrow> string list \<Rightarrow> inbox_db \<Rightarrow> string list" where
  "listSettledMessageIdsForScope inboxId chat messageIds d =
     (let uniqueIds = foldl set_add [] messageIds;
          rows = filter (\<lambda>r. in_scope inboxId (Some chat) r \<and> row_messageId r \<in> set uniqueIds) (db_rows d);
          known = map row_messageId rows;
          unacked = map row_messageId (filter (\<lambda>r. row_status r \<noteq> StAcked) rows)
      in filter (\<lambda>m. m \<in> set known \<and> m \<notin> set unacked) uniqueIds)"

definition reset_rows :: "(inbox_row \<Rightarrow> bool) \<Rightarrow> inbox_db \<Rightarrow> int list \<times> inbox_db" where
  "reset_rows p d =
     (map row_id (filter p (db_rows d)),
      d\<lparr>db_rows := map (\<lambda>r. if p r then r\<lparr>row_status := StPending\<rparr> else r) (db_rows d)\<rparr>)"

definition recoverUnackedForScope :: "string \<Rightarrow> string option \<Rightarrow> inbox_db \<Rightarrow> int list \<times> inbox_db" where
  "recoverUnackedForScope inboxId chat d =
     reset_rows (\<lambda>r. in_scope inboxId chat r \<and> row_status r = StDelivered) d"

definition resetDeliveredForInboxes :: "string list \<Rightarrow> inbox_db \<Rightarrow> nat \<times> inbox_db" where
  "resetDeliveredForInboxes inboxIds d =
     (if inboxIds = [] then (0, d)
      else case reset_rows (\<lambda>r. row_inboxId r \<in> set inboxIds \<and> row_status r = StDelivered) d of (ids, d) \<Rightarrow> (length ids, d))"

definition pruneStaleSilentEntries :: "int \<Rightarrow> int \<Rightarrow> inbox_db \<Rightarrow> (nat \<times> nat) \<times> inbox_db" where
  "pruneStaleSilentEntries now maxAgeSeconds d =
     (let acked = (\<lambda>r. \<not> row_notify r \<and> row_status r = StAcked);
          stale = (\<lambda>r. \<not> row_notify r \<and> row_status r = StPending \<and> row_createdAt r < now - maxAgeSeconds * 1000);
          kept = filter (\<lambda>r. \<not> acked r) (db_rows d)
      in ((length (filter acked (db_rows d)), length (filter stale kept)),
          d\<lparr>db_rows := filter (\<lambda>r. \<not> stale r) kept\<rparr>))"

definition assertInboxOwner :: "string \<Rightarrow> string \<Rightarrow> inbox_error + unit" where
  "assertInboxOwner inboxId agentInboxId = (if inboxId \<noteq> agentInboxId then Inl ForbiddenInbox else Inr ())"


section \<open>Runs of the table\<close>

datatype inbox_event =
    EvSend int message_row string bool "string list" "string list" "participant list"
  | EvBackfill int string "string list"
  | EvPoll "int \<Rightarrow> bool" bool int string nat "string option"
  | EvFair "int \<Rightarrow> bool" bool int string int int "(string option \<times> int) list"
  | EvExact "int \<Rightarrow> bool" bool int string string
  | EvAck int int "string list" "int list"
  | EvRecover string "string option"
  | EvReset "string list"
  | EvPrune int int
  | EvSilence string string "string list"
  | EvPromote int string string string

fun inbox_step :: "inbox_db \<Rightarrow> inbox_event \<Rightarrow> inbox_db" where
  "inbox_step d (EvSend now m sender silent addressed mentions ps) =
     snd (store_message now m (fan_out sender silent addressed mentions ps) d)"
| "inbox_step d (EvBackfill now chat ps) = backfillSilentContextForNewParticipants now chat ps d"
| "inbox_step d (EvPoll busy supported now inboxId limit chat) = snd (pollInboxInner busy supported now inboxId limit chat d)"
| "inbox_step d (EvFair busy supported now inboxId limit perChat budgets) =
     snd (claimBacklogForPushFair busy supported now inboxId limit perChat budgets d)"
| "inbox_step d (EvExact busy supported now inboxId m) = snd (claimAndBuildForPush busy supported now inboxId m d)"
| "inbox_step d (EvAck now i inboxIds current) = snd (ackThroughEntryIdForBoundAgents now i inboxIds current d)"
| "inbox_step d (EvRecover inboxId chat) = snd (recoverUnackedForScope inboxId chat d)"
| "inbox_step d (EvReset inboxIds) = snd (resetDeliveredForInboxes inboxIds d)"
| "inbox_step d (EvPrune now age) = snd (pruneStaleSilentEntries now age d)"
| "inbox_step d (EvSilence chat m inboxIds) = silence_pending_trigger chat m inboxIds d"
| "inbox_step d (EvPromote now inboxId m chat) = promote_bootstrap now inboxId m chat d"

definition inbox_run :: "inbox_db \<Rightarrow> inbox_event list \<Rightarrow> inbox_db" where
  "inbox_run d es = foldl inbox_step d es"

definition new_inbox :: "(string, string) jsmap \<Rightarrow> (string, int) jsmap \<Rightarrow> inbox_db" where
  "new_inbox owners versions = \<lparr>db_rows = [], db_nextId = 1, db_messages = [], db_owners = owners, db_versions = versions\<rparr>"

end
