(* ===== verification/SocketDelivery.thy ===== *)
theory SocketDelivery
  imports InboxTable
begin

text \<open>
  The model of \<open>api/agent/ws-client/inbox-delivery.ts\<close>: what one socket has in flight, and its operations
  on the inbox. The operations of the socket run one at a time; a drain waits for its claim, so it is two
  steps, and what is not queued (bind, unbind, close) may fall between them. The parts of
  \<open>connection-context.ts\<close> and \<open>agent-frames.ts\<close> that change this state are here, too.
\<close>

section \<open>State of a socket\<close>

definition INBOX_BACKLOG_BATCH_LIMIT :: int where "INBOX_BACKLOG_BATCH_LIMIT = 50"

definition INBOX_BACKLOG_REPAIR_INTERVAL_MS :: int where "INBOX_BACKLOG_REPAIR_INTERVAL_MS = 30000"

definition INBOX_RECOVER_NO_PROGRESS_LIMIT :: int where "INBOX_RECOVER_NO_PROGRESS_LIMIT = 2"

record InboxInFlightChatBucket =
  ib_chatId :: "string option"
  ib_entryIds :: "int list"

record InboxInFlightOwner =
  io_agentId :: string
  io_chatKey :: string

record InboxRecoverProgress =
  rp_resetSignature :: string
  rp_consecutiveResets :: int
  rp_open :: bool

datatype drain_trigger = TrNotify string | TrBind | TrAck | TrRepair | TrRecover string

text \<open>The operation at the head of the queue: none, a drain that starts, or a claim whose entries are to be sent.\<close>

datatype socket_job = JIdle | JDrain string string drain_trigger | JPush string "inbox_delivery list"

record socket_state =
  sk_maxInFlightPerAgent :: int
  sk_maxInFlightPerAgentChat :: int
  sk_inFlightByAgent :: "(string, (string, InboxInFlightChatBucket) jsmap) jsmap"
  sk_owners :: "(int, InboxInFlightOwner) jsmap"
  sk_lastRepair :: "(string, int) jsmap"
  sk_recoverProgress :: "(string, InboxRecoverProgress) jsmap"
  sk_boundAgents :: "(string, string) jsmap"
  sk_open :: bool
  sk_job :: socket_job

datatype socket_frame =
    FrDeliver inbox_delivery
  | FrAckRejected int string ack_refusal
  | FrAckAccepted int string ack_disposition nat
  | FrRecoverRejected string string string string
  | FrRecoverAccepted string string string nat nat
  | FrProbeRejected string string string string
  | FrProbeAccepted string string string "string list"
  | FrBound string
  | FrUnbound string
  | FrError string

text \<open>The frames that reach a socket: a closed one takes none.\<close>

definition send :: "socket_state \<Rightarrow> socket_frame \<Rightarrow> socket_frame list" where
  "send s f = (if sk_open s then [f] else [])"


section \<open>Recovery without progress\<close>

definition inboxRecoverProgressKey :: "string \<Rightarrow> string \<Rightarrow> string" where
  "inboxRecoverProgressKey agentId chatId = agentId @ [CHR 0x00] @ chatId"

definition clearInboxRecoverProgress :: "string \<Rightarrow> string option \<Rightarrow> socket_state \<Rightarrow> socket_state" where
  "clearInboxRecoverProgress agentId chatId s =
     (case chatId of
        Some c \<Rightarrow> s\<lparr>sk_recoverProgress := js_delete (sk_recoverProgress s) (inboxRecoverProgressKey agentId c)\<rparr>
      | None \<Rightarrow> s\<lparr>sk_recoverProgress := filter (\<lambda>(k, p). \<not> starts_with (agentId @ [CHR 0x00]) k) (sk_recoverProgress s)\<rparr>)"

fun join_ids :: "int list \<Rightarrow> string" where
  "join_ids [] = ''''"
| "join_ids [i] = int_str i"
| "join_ids (i # is) = int_str i @ '','' @ join_ids is"


section \<open>What is in flight\<close>

definition inboxInFlightCount :: "socket_state \<Rightarrow> string \<Rightarrow> nat" where
  "inboxInFlightCount s agentId =
     (case js_get (sk_inFlightByAgent s) agentId of
        None \<Rightarrow> 0
      | Some byChat \<Rightarrow> sum_list (map (\<lambda>(k, bucket). length (ib_entryIds bucket)) byChat))"

definition inboxChatKey :: "string option \<Rightarrow> string" where
  "inboxChatKey chatId = (case chatId of None \<Rightarrow> ''null'' | Some c \<Rightarrow> ''chat:'' @ c)"

definition inboxInFlightCountForChat :: "socket_state \<Rightarrow> string \<Rightarrow> string option \<Rightarrow> nat" where
  "inboxInFlightCountForChat s agentId chatId =
     (case js_get (sk_inFlightByAgent s) agentId of
        None \<Rightarrow> 0
      | Some byChat \<Rightarrow>
          (case js_get byChat (inboxChatKey chatId) of None \<Rightarrow> 0 | Some bucket \<Rightarrow> length (ib_entryIds bucket)))"

definition bucket_budgets ::
  "int \<Rightarrow> (string, InboxInFlightChatBucket) jsmap \<Rightarrow> (string, string option \<times> int) jsmap" where
  "bucket_budgets chatCap byChat =
     foldl (\<lambda>budgets (k, bucket). js_set budgets (inboxChatKey (ib_chatId bucket))
       (ib_chatId bucket, max 0 (chatCap - int (length (ib_entryIds bucket))))) [] byChat"

definition circuit_budgets ::
  "string \<Rightarrow> (string, InboxRecoverProgress) jsmap \<Rightarrow> (string, string option \<times> int) jsmap \<Rightarrow>
   (string, string option \<times> int) jsmap" where
  "circuit_budgets agentId progress budgets =
     (let circuitPrefix = agentId @ [CHR 0x00]
      in foldl (\<lambda>budgets (key, p).
           if \<not> rp_open p \<or> \<not> starts_with circuitPrefix key then budgets
           else let chatId = drop (length circuitPrefix) key in js_set budgets (inboxChatKey (Some chatId)) (Some chatId, 0))
         budgets progress)"

definition inboxInFlightChatBudgets :: "socket_state \<Rightarrow> string \<Rightarrow> (string option \<times> int) list" where
  "inboxInFlightChatBudgets s agentId =
     map snd (circuit_budgets agentId (sk_recoverProgress s)
       (case js_get (sk_inFlightByAgent s) agentId of
          None \<Rightarrow> [] | Some byChat \<Rightarrow> bucket_budgets (sk_maxInFlightPerAgentChat s) byChat))"

definition remove_one :: "int \<Rightarrow> socket_state \<Rightarrow> socket_state" where
  "remove_one entryId s =
     (case js_get (sk_owners s) entryId of
        None \<Rightarrow> s
      | Some owner \<Rightarrow>
          let s = s\<lparr>sk_owners := js_delete (sk_owners s) entryId\<rparr> in
          case js_get (sk_inFlightByAgent s) (io_agentId owner) of
            None \<Rightarrow> s
          | Some byChat \<Rightarrow>
              let byChat =
                    (case js_get byChat (io_chatKey owner) of
                       None \<Rightarrow> byChat
                     | Some bucket \<Rightarrow>
                         let bucket = bucket\<lparr>ib_entryIds := set_remove (ib_entryIds bucket) entryId\<rparr>
                         in if ib_entryIds bucket = [] then js_delete byChat (io_chatKey owner)
                            else js_set byChat (io_chatKey owner) bucket)
              in s\<lparr>sk_inFlightByAgent :=
                     (if byChat = [] then js_delete (sk_inFlightByAgent s) (io_agentId owner)
                      else js_set (sk_inFlightByAgent s) (io_agentId owner) byChat)\<rparr>)"

definition removeInboxInFlight :: "int list \<Rightarrow> socket_state \<Rightarrow> socket_state" where
  "removeInboxInFlight entryIds s = foldl (\<lambda>s i. remove_one i s) s entryIds"

definition snapshotCurrentSocketDeliverySet :: "socket_state \<Rightarrow> int \<Rightarrow> int list" where
  "snapshotCurrentSocketDeliverySet s entryId =
     (case js_get (sk_owners s) entryId of
        None \<Rightarrow> []
      | Some owner \<Rightarrow>
          (case js_get (sk_inFlightByAgent s) (io_agentId owner) of
             None \<Rightarrow> []
           | Some byChat \<Rightarrow>
               (case js_get byChat (io_chatKey owner) of None \<Rightarrow> [] | Some bucket \<Rightarrow> sort (ib_entryIds bucket))))"

definition addInboxInFlight :: "string \<Rightarrow> string option \<Rightarrow> int \<Rightarrow> socket_state \<Rightarrow> socket_state" where
  "addInboxInFlight agentId chatId entryId s =
     (let s = removeInboxInFlight [entryId] s;
          chatKey = inboxChatKey chatId;
          byChat = (case js_get (sk_inFlightByAgent s) agentId of Some m \<Rightarrow> m | None \<Rightarrow> []);
          bucket = (case js_get byChat chatKey of Some b \<Rightarrow> b | None \<Rightarrow> \<lparr>ib_chatId = chatId, ib_entryIds = []\<rparr>);
          bucket = bucket\<lparr>ib_entryIds := set_add (ib_entryIds bucket) entryId\<rparr>
      in s\<lparr>sk_inFlightByAgent := js_set (sk_inFlightByAgent s) agentId (js_set byChat chatKey bucket),
           sk_owners := js_set (sk_owners s) entryId \<lparr>io_agentId = agentId, io_chatKey = chatKey\<rparr>\<rparr>)"

definition clearInboxInFlightForAgent :: "string \<Rightarrow> socket_state \<Rightarrow> socket_state" where
  "clearInboxInFlightForAgent agentId s =
     (case js_get (sk_inFlightByAgent s) agentId of
        None \<Rightarrow> s
      | Some byChat \<Rightarrow>
          s\<lparr>sk_owners := foldl js_delete (sk_owners s) (concat (map (ib_entryIds \<circ> snd) byChat)),
            sk_inFlightByAgent := js_delete (sk_inFlightByAgent s) agentId\<rparr>)"

definition clearAgent :: "string \<Rightarrow> socket_state \<Rightarrow> socket_state" where
  "clearAgent agentId s =
     clearInboxInFlightForAgent agentId
       (clearInboxRecoverProgress agentId None (s\<lparr>sk_lastRepair := js_delete (sk_lastRepair s) agentId\<rparr>))"

definition clearAfterUnbind :: "string \<Rightarrow> socket_state \<Rightarrow> socket_state" where
  "clearAfterUnbind agentId s =
     clearInboxInFlightForAgent agentId (s\<lparr>sk_lastRepair := js_delete (sk_lastRepair s) agentId\<rparr>)"

definition clearState :: "socket_state \<Rightarrow> socket_state" where
  "clearState s = s\<lparr>sk_lastRepair := [], sk_recoverProgress := [], sk_inFlightByAgent := [], sk_owners := []\<rparr>"


section \<open>Routes\<close>

text \<open>What the connection and the table of agents say about the route of an agent.\<close>

datatype agent_route = NotRoutedHere | RoutedHere | RuntimeSwitching | RouteChanged

definition dropLocalAgentBinding :: "string \<Rightarrow> socket_state \<Rightarrow> socket_state" where
  "dropLocalAgentBinding agentId s = clearAgent agentId (s\<lparr>sk_boundAgents := js_delete (sk_boundAgents s) agentId\<rparr>)"

definition ensureAgentStillRoutedHere :: "agent_route \<Rightarrow> string \<Rightarrow> socket_state \<Rightarrow> bool \<times> socket_state" where
  "ensureAgentStillRoutedHere answer agentId s =
     (if \<not> js_has (sk_boundAgents s) agentId then (False, s)
      else
        case answer of
          NotRoutedHere \<Rightarrow> (False, s)
        | RoutedHere \<Rightarrow> (True, s)
        | RuntimeSwitching \<Rightarrow> (False, s)
        | RouteChanged \<Rightarrow> (False, dropLocalAgentBinding agentId s))"

text \<open>What an operation meets: locked rows, the client's version, the time, routes, and statements that fail.\<close>

datatype db_call = CallAck | CallRecover | CallCount | CallClaim | CallProbe | CallReset

record op_env =
  oe_busy :: "int \<Rightarrow> bool"
  oe_supported :: bool
  oe_now :: int
  oe_route :: "string \<Rightarrow> agent_route"
  oe_fails :: "db_call \<Rightarrow> bool"


section \<open>Draining\<close>

definition drain_limit :: "socket_state \<Rightarrow> string \<Rightarrow> drain_trigger \<Rightarrow> int" where
  "drain_limit s agentId trigger =
     (let globalSlotsFree = sk_maxInFlightPerAgent s - int (inboxInFlightCount s agentId)
      in case trigger of
           TrRecover c \<Rightarrow>
             min globalSlotsFree
               (min (max 0 (sk_maxInFlightPerAgentChat s - int (inboxInFlightCountForChat s agentId (Some c))))
                  INBOX_BACKLOG_BATCH_LIMIT)
         | _ \<Rightarrow> min globalSlotsFree INBOX_BACKLOG_BATCH_LIMIT)"

definition drain_claim ::
  "op_env \<Rightarrow> string \<Rightarrow> string \<Rightarrow> drain_trigger \<Rightarrow> socket_state \<Rightarrow> inbox_db \<Rightarrow> socket_state \<times> inbox_db" where
  "drain_claim env agentId inboxId trigger s d =
     (let s = s\<lparr>sk_job := JIdle\<rparr> in
      if \<not> sk_open s then (s, d)
      else
        case ensureAgentStillRoutedHere (oe_route env agentId) agentId s of
          (False, s) \<Rightarrow> (s, d)
        | (True, s) \<Rightarrow>
            let limit = drain_limit s agentId trigger in
            if limit \<le> 0 \<or> oe_fails env CallClaim then (s, d)
            else
              case (case trigger of
                      TrRecover c \<Rightarrow>
                        claimBacklogForPushForChat (oe_busy env) (oe_supported env) (oe_now env) inboxId c (nat limit) d
                    | _ \<Rightarrow>
                        claimBacklogForPushFair (oe_busy env) (oe_supported env) (oe_now env) inboxId limit
                          (sk_maxInFlightPerAgentChat s) (inboxInFlightChatBudgets s agentId) d) of
                (Inl e, d) \<Rightarrow> (s, d)
              | (Inr entries, d) \<Rightarrow> (s\<lparr>sk_job := JPush agentId entries\<rparr>, d))"

fun push_entries :: "string \<Rightarrow> inbox_delivery list \<Rightarrow> socket_state \<Rightarrow> socket_frame list \<times> socket_state" where
  "push_entries agentId [] s = ([], s)"
| "push_entries agentId (e # es) s =
     (let s = addInboxInFlight agentId (fr_chatId e) (fr_id e) s in
      if \<not> sk_open s then ([], removeInboxInFlight [fr_id e] s)
      else case push_entries agentId es s of (fs, s) \<Rightarrow> (FrDeliver e # fs, s))"

definition maybeRepairInboxBacklog :: "int \<Rightarrow> bool \<Rightarrow> string \<Rightarrow> socket_state \<Rightarrow> bool \<times> socket_state" where
  "maybeRepairInboxBacklog now here agentId s =
     (if \<not> sk_open s \<or> \<not> (js_has (sk_boundAgents s) agentId \<and> here) then (False, s)
      else
        let lastRepairAt = (case js_get (sk_lastRepair s) agentId of Some t \<Rightarrow> t | None \<Rightarrow> 0) in
        if now - lastRepairAt < INBOX_BACKLOG_REPAIR_INTERVAL_MS then (False, s)
        else (True, s\<lparr>sk_lastRepair := js_set (sk_lastRepair s) agentId now\<rparr>))"


section \<open>Frames of the client\<close>

fun routed_agents ::
  "(string \<Rightarrow> agent_route) \<Rightarrow> (string \<times> string) list \<Rightarrow> socket_state \<Rightarrow> (string \<times> string) list \<times> socket_state" where
  "routed_agents route [] s = ([], s)"
| "routed_agents route ((a, i) # as) s =
     (case ensureAgentStillRoutedHere (route a) a s of
        (ok, s) \<Rightarrow> (case routed_agents route as s of (rs, s) \<Rightarrow> (if ok then (a, i) # rs else rs, s)))"

definition ack_frame ::
  "op_env \<Rightarrow> int \<Rightarrow> string option \<Rightarrow> socket_state \<Rightarrow> inbox_db \<Rightarrow> socket_frame list \<times> socket_state \<times> inbox_db" where
  "ack_frame env entryId ref s d =
     (case routed_agents (oe_route env) (sk_boundAgents s) s of
        (routed, s) \<Rightarrow>
          if oe_fails env CallAck then ([], s, d)
          else
            case ackThroughEntryIdForBoundAgents (oe_now env) entryId (map snd routed)
                   (snapshotCurrentSocketDeliverySet s entryId) d of
              (AckRefused why, d) \<Rightarrow>
                (case ref of Some r \<Rightarrow> send s (FrAckRejected entryId r why) | None \<Rightarrow> [], s, d)
            | (AckOk e disp ids, d) \<Rightarrow>
                let fs = (case ref of Some r \<Rightarrow> send s (FrAckAccepted entryId r disp (length ids)) | None \<Rightarrow> []) in
                case find (\<lambda>(a, i). i = row_inboxId e) routed of
                  None \<Rightarrow> (fs, s, d)
                | Some (a, i) \<Rightarrow>
                    if ids = [] then (fs, s, d)
                    else
                      let s = (case row_chatId e of Some c \<Rightarrow> clearInboxRecoverProgress a (Some c) s | None \<Rightarrow> s)
                      in (fs, (removeInboxInFlight ids s)\<lparr>sk_job := JDrain a i TrAck\<rparr>, d))"

definition note_reset :: "string \<Rightarrow> int list \<Rightarrow> socket_state \<Rightarrow> bool \<times> socket_state" where
  "note_reset progressKey resetIds s =
     (let prior = js_get (sk_recoverProgress s) progressKey;
          s = removeInboxInFlight resetIds s in
      if resetIds = [] then (True, s\<lparr>sk_recoverProgress := js_delete (sk_recoverProgress s) progressKey\<rparr>)
      else
        let resetSignature = join_ids (sort resetIds);
            consecutiveResets =
              (case prior of
                 Some p \<Rightarrow> if rp_resetSignature p = resetSignature then rp_consecutiveResets p + 1 else 1
               | None \<Rightarrow> 1);
            blocked = INBOX_RECOVER_NO_PROGRESS_LIMIT < consecutiveResets
        in (\<not> blocked, s\<lparr>sk_recoverProgress := js_set (sk_recoverProgress s) progressKey
              \<lparr>rp_resetSignature = resetSignature, rp_consecutiveResets = consecutiveResets, rp_open = blocked\<rparr>\<rparr>))"

definition recover_frame ::
  "op_env \<Rightarrow> string \<Rightarrow> string \<Rightarrow> string \<Rightarrow> socket_state \<Rightarrow> inbox_db \<Rightarrow>
   socket_frame list \<times> socket_state \<times> inbox_db" where
  "recover_frame env ref agentId chatId s d =
     (case js_get (sk_boundAgents s) agentId of
        None \<Rightarrow> (send s (FrRecoverRejected ref agentId chatId ''agent_not_bound''), s, d)
      | Some inboxId \<Rightarrow>
          (case ensureAgentStillRoutedHere (oe_route env agentId) agentId s of
             (False, s) \<Rightarrow> (send s (FrRecoverRejected ref agentId chatId ''agent_not_bound''), s, d)
           | (True, s) \<Rightarrow>
               let progressKey = inboxRecoverProgressKey agentId chatId;
                   failed = send s (FrRecoverRejected ref agentId chatId ''recover_failed'') in
               if (case js_get (sk_recoverProgress s) progressKey of Some p \<Rightarrow> rp_open p | None \<Rightarrow> False) then (failed, s, d)
               else if oe_fails env CallRecover then (failed, s, d)
               else
                 case recoverUnackedForScope inboxId (Some chatId) d of
                   (resetIds, d) \<Rightarrow>
                     (case note_reset progressKey resetIds s of
                        (False, s) \<Rightarrow> (failed, s, d)
                      | (True, s) \<Rightarrow>
                          if oe_fails env CallCount then (failed, s, d)
                          else
                            (send s (FrRecoverAccepted ref agentId chatId (length resetIds)
                               (countUnackedForScope inboxId (Some chatId) d)),
                             s\<lparr>sk_job := JDrain agentId inboxId (TrRecover chatId)\<rparr>, d))))"

definition probe_frame ::
  "op_env \<Rightarrow> string \<Rightarrow> string \<Rightarrow> string \<Rightarrow> string list \<Rightarrow> socket_state \<Rightarrow> inbox_db \<Rightarrow>
   socket_frame list \<times> socket_state \<times> inbox_db" where
  "probe_frame env ref agentId chatId messageIds s d =
     (case js_get (sk_boundAgents s) agentId of
        None \<Rightarrow> (send s (FrProbeRejected ref agentId chatId ''agent_not_bound''), s, d)
      | Some inboxId \<Rightarrow>
          (case ensureAgentStillRoutedHere (oe_route env agentId) agentId s of
             (False, s) \<Rightarrow> (send s (FrProbeRejected ref agentId chatId ''agent_not_bound''), s, d)
           | (True, s) \<Rightarrow>
               if oe_fails env CallProbe then (send s (FrProbeRejected ref agentId chatId ''recover_failed''), s, d)
               else
                 (send s (FrProbeAccepted ref agentId chatId
                    (listSettledMessageIdsForScope inboxId chatId messageIds d)), s, d)))"

text \<open>The end of \<open>agent:bind\<close>, once the server has accepted it: it registers the agent and resets its rows.\<close>

definition bind_accept :: "string \<Rightarrow> string \<Rightarrow> socket_state \<Rightarrow> socket_state" where
  "bind_accept agentId inboxId s =
     (clearInboxRecoverProgress agentId None s)\<lparr>sk_boundAgents := js_set (sk_boundAgents s) agentId inboxId\<rparr>"

definition bind_reset ::
  "op_env \<Rightarrow> string \<Rightarrow> string \<Rightarrow> socket_state \<Rightarrow> inbox_db \<Rightarrow> socket_frame list \<times> socket_state \<times> inbox_db" where
  "bind_reset env agentId inboxId s d =
     (send s (FrBound agentId), s, if oe_fails env CallReset then d else snd (resetDeliveredForInboxes [inboxId] d))"

definition unbind_frame :: "op_env \<Rightarrow> string \<Rightarrow> socket_state \<Rightarrow> socket_frame list \<times> socket_state" where
  "unbind_frame env agentId s =
     (if \<not> js_has (sk_boundAgents s) agentId then (send s (FrError ''Agent not bound''), s)
      else
        case ensureAgentStillRoutedHere (oe_route env agentId) agentId s of
          (stillRoutedHere, s) \<Rightarrow>
            let s = clearAfterUnbind agentId (s\<lparr>sk_boundAgents := js_delete (sk_boundAgents s) agentId\<rparr>)
            in (send s (FrUnbound agentId), s))"

definition close_socket :: "socket_state \<Rightarrow> socket_state" where
  "close_socket s = clearState (s\<lparr>sk_boundAgents := [], sk_open := False\<rparr>)"


section \<open>Runs of a socket\<close>

datatype socket_event =
    SoAck op_env int "string option"
  | SoRecover op_env string string string
  | SoProbe op_env string string string "string list"
  | SoDrain string string drain_trigger
  | SoRun op_env
  | SoBind string string
  | SoReset op_env string string
  | SoUnbind op_env string
  | SoRepair int bool string
  | SoCheck op_env string
  | SoClosing
  | SoClose
  | SoDb inbox_event

record socket_world =
  sw_frames :: "socket_frame list"
  sw_socket :: socket_state
  sw_db :: inbox_db

text \<open>An operation starts when none is running; one that comes earlier is a later event of the run.\<close>

definition run_job :: "op_env \<Rightarrow> socket_state \<Rightarrow> inbox_db \<Rightarrow> socket_frame list \<times> socket_state \<times> inbox_db" where
  "run_job env s d =
     (case sk_job s of
        JIdle \<Rightarrow> ([], s, d)
      | JDrain a i trigger \<Rightarrow> ([], drain_claim env a i trigger s d)
      | JPush a entries \<Rightarrow> (case push_entries a entries (s\<lparr>sk_job := JIdle\<rparr>) of (fs, s) \<Rightarrow> (fs, s, d)))"

fun socket_op :: "socket_event \<Rightarrow> socket_state \<Rightarrow> inbox_db \<Rightarrow> socket_frame list \<times> socket_state \<times> inbox_db" where
  "socket_op (SoAck env entryId ref) s d = (if sk_job s = JIdle then ack_frame env entryId ref s d else ([], s, d))"
| "socket_op (SoRecover env ref a c) s d = (if sk_job s = JIdle then recover_frame env ref a c s d else ([], s, d))"
| "socket_op (SoProbe env ref a c ms) s d = (if sk_job s = JIdle then probe_frame env ref a c ms s d else ([], s, d))"
| "socket_op (SoDrain a i trigger) s d = ([], if sk_job s = JIdle then s\<lparr>sk_job := JDrain a i trigger\<rparr> else s, d)"
| "socket_op (SoRun env) s d = run_job env s d"
| "socket_op (SoBind a i) s d = ([], bind_accept a i s, d)"
| "socket_op (SoReset env a i) s d = bind_reset env a i s d"
| "socket_op (SoUnbind env a) s d = (case unbind_frame env a s of (fs, s) \<Rightarrow> (fs, s, d))"
| "socket_op (SoRepair now here a) s d = ([], snd (maybeRepairInboxBacklog now here a s), d)"
| "socket_op (SoCheck env a) s d = ([], snd (ensureAgentStillRoutedHere (oe_route env a) a s), d)"
| "socket_op SoClosing s d = ([], s\<lparr>sk_open := False\<rparr>, d)"
| "socket_op SoClose s d = ([], close_socket s, d)"
| "socket_op (SoDb e) s d = ([], s, inbox_step d e)"

definition socket_step :: "socket_world \<Rightarrow> socket_event \<Rightarrow> socket_world" where
  "socket_step w e =
     (case socket_op e (sw_socket w) (sw_db w) of
        (fs, s, d) \<Rightarrow> \<lparr>sw_frames = sw_frames w @ fs, sw_socket = s, sw_db = d\<rparr>)"

definition socket_run :: "socket_world \<Rightarrow> socket_event list \<Rightarrow> socket_world" where
  "socket_run w es = foldl socket_step w es"

definition new_socket :: "int \<Rightarrow> int \<Rightarrow> socket_state" where
  "new_socket cap chatCap =
     \<lparr>sk_maxInFlightPerAgent = cap, sk_maxInFlightPerAgentChat = chatCap, sk_inFlightByAgent = [], sk_owners = [],
      sk_lastRepair = [], sk_recoverProgress = [], sk_boundAgents = [], sk_open = True, sk_job = JIdle\<rparr>"

end
