(* ===== verification/TableProperties.thy ===== *)
theory TableProperties
  imports InboxTable HeldFacts
begin

text \<open>
  What the server's inbox promises: a delivery that is owed stays in the table until an acknowledgement
  settles it, a settled delivery stays settled, claims are fair and in order, an acknowledgement commits
  a prefix, and the silent context of a trigger is its own.
\<close>

section \<open>Well-formed tables\<close>

definition row_key :: "inbox_row \<Rightarrow> int \<times> string \<times> string \<times> string option" where
  "row_key r = (row_id r, row_inboxId r, row_messageId r, row_chatId r)"

definition row_ok :: "inbox_row \<Rightarrow> bool" where
  "row_ok r \<longleftrightarrow> (row_status r = StDelivered \<longrightarrow> row_deliveredAt r \<noteq> None \<and> row_notify r) \<and>
     (row_status r = StAcked \<and> row_notify r \<longrightarrow> row_deliveredAt r \<noteq> None)"

definition table_wf :: "inbox_db \<Rightarrow> bool" where
  "table_wf d \<longleftrightarrow> distinct (map row_id (db_rows d)) \<and> (\<forall>r \<in> set (db_rows d). row_id r < db_nextId d \<and> row_ok r) \<and>
     (\<forall>r \<in> set (db_rows d). \<forall>r' \<in> set (db_rows d). same_delivery r r' \<longrightarrow> r = r')"

lemma table_wfD:
  assumes "table_wf d"
  shows "distinct (map row_id (db_rows d))" and "r \<in> set (db_rows d) \<Longrightarrow> row_id r < db_nextId d"
    and "r \<in> set (db_rows d) \<Longrightarrow> row_ok r"
    and "r \<in> set (db_rows d) \<Longrightarrow> r' \<in> set (db_rows d) \<Longrightarrow> same_delivery r r' \<Longrightarrow> r = r'"
  using assms by (auto simp: table_wf_def)

lemma row_unique:
  "table_wf d \<Longrightarrow> r \<in> set (db_rows d) \<Longrightarrow> r' \<in> set (db_rows d) \<Longrightarrow> row_id r = row_id r' \<Longrightarrow> r = r'"
  using table_wfD(1) [of d] by (auto simp: distinct_map inj_on_def)

lemma same_delivery_key: "row_key r = row_key s \<Longrightarrow> row_key r' = row_key s' \<Longrightarrow> same_delivery r r' = same_delivery s s'"
  by (simp add: same_delivery_def row_key_def)

lemma insert_one_wf:
  assumes "table_wf d"
  shows "table_wf (insert_one now x d)"
proof -
  obtain i m c n where x: "x = (i, m, c, n)" by (cases x) auto
  let ?r = "new_row now (db_nextId d) i m c n"
  have r: "row_ok ?r" "row_id ?r = db_nextId d" by (simp_all add: new_row_def row_ok_def)
  have less: "row_id r' < db_nextId d" if "r' \<in> set (db_rows d)" for r' using table_wfD(2) [OF assms that] .
  then have grown: "row_id r' < db_nextId d + 1" if "r' \<in> set (db_rows d)" for r' using that by force
  show ?thesis
  proof (cases "list_ex (same_delivery ?r) (db_rows d)")
    case True
    with assms grown show ?thesis by (simp add: x insert_one_def table_wf_def)
  next
    case False
    then have "\<not> same_delivery r' ?r" "\<not> same_delivery ?r r'" if "r' \<in> set (db_rows d)" for r'
      using that by (auto simp: list_ex_iff same_delivery_def)
    with False assms grown less r show ?thesis by (fastforce simp: x insert_one_def table_wf_def)
  qed
qed

lemma insert_new_wf: "table_wf d \<Longrightarrow> table_wf (insert_new now xs d)"
  by (induction now xs d rule: insert_new.induct) (simp_all add: insert_one_wf)

lemma store_message_cases:
  obtains "snd (store_message now m fs d) = d"
  | "snd (store_message now m fs d) =
       insert_new now (map (\<lambda>(i, n). (i, ms_id m, Some (ms_chatId m), n)) fs) (d\<lparr>db_messages := db_messages d @ [m]\<rparr>)"
  by (cases "snd (store_message now m fs d) = d") (auto simp: store_message_def Let_def split: if_splits)

lemma claim_rows_cases:
  obtains "snd (claim_rows busy supported now inboxId ids d) = d"
  | "snd (claim_rows busy supported now inboxId ids d) = mark_delivered now ids d"
  by (cases "snd (claim_rows busy supported now inboxId ids d) = d") (auto simp: claim_rows_def Let_def split: sum.splits)

section \<open>What an event does to a row\<close>

fun acks :: "inbox_event \<Rightarrow> inbox_row \<Rightarrow> bool" where
  "acks (EvAck now i inboxIds current) r = (row_id r \<le> i \<and> row_id r \<in> set current \<and> row_inboxId r \<in> set inboxIds)"
| "acks _ r = False"

fun silences :: "inbox_event \<Rightarrow> inbox_row \<Rightarrow> bool" where
  "silences (EvSilence chat m inboxIds) r = (row_chatId r = Some chat \<and> row_messageId r = m \<and> row_inboxId r \<in> set inboxIds)"
| "silences _ r = False"

fun promotes :: "inbox_event \<Rightarrow> inbox_row \<Rightarrow> bool" where
  "promotes (EvPromote now inboxId m chat) r = (row_chatId r = Some chat \<and> row_messageId r = m \<and> row_inboxId r = inboxId)"
| "promotes _ r = False"

fun claims :: "inbox_event \<Rightarrow> string \<Rightarrow> bool" where
  "claims (EvPoll busy supported now inboxId limit chat) i = (i = inboxId)"
| "claims (EvFair busy supported now inboxId limit perChat budgets) i = (i = inboxId)"
| "claims (EvExact busy supported now inboxId m) i = (i = inboxId)"
| "claims _ i = False"

text \<open>Delivered, acknowledged, reset, silenced or promoted: nothing else happens to a row in place.\<close>

definition row_change :: "inbox_event \<Rightarrow> inbox_row \<Rightarrow> inbox_row \<Rightarrow> bool" where
  "row_change e r r' \<longleftrightarrow> r' = r \<or>
     row_status r = StPending \<and> row_notify r \<and> claims e (row_inboxId r) \<and> (\<exists>t. r' = r\<lparr>row_status := StDelivered, row_deliveredAt := Some t\<rparr>) \<or>
     row_status r \<noteq> StAcked \<and> (row_notify r \<longrightarrow> acks e r \<and> row_deliveredAt r \<noteq> None) \<and>
       (\<exists>t. r' = r\<lparr>row_status := StAcked, row_ackedAt := Some t\<rparr>) \<or>
     row_status r = StDelivered \<and> r' = r\<lparr>row_status := StPending\<rparr> \<or>
     row_status r = StPending \<and> silences e r \<and> r' = r\<lparr>row_notify := False\<rparr> \<or>
     row_status r = StPending \<and> \<not> row_notify r \<and> promotes e r \<and> r' = r\<lparr>row_notify := True\<rparr>"

definition fresh_row :: "inbox_db \<Rightarrow> inbox_row \<Rightarrow> bool" where
  "fresh_row d r \<longleftrightarrow> row_status r = StPending \<and> row_deliveredAt r = None \<and> db_nextId d \<le> row_id r"

text \<open>The shape of every event: rows change in place, silent rows may go, new rows come at the end.\<close>

definition shape :: "inbox_event \<Rightarrow> inbox_db \<Rightarrow> inbox_db \<Rightarrow> bool" where
  "shape e d d' \<longleftrightarrow> (\<exists>f p xs. db_rows d' = map f (filter p (db_rows d)) @ xs \<and>
     (\<forall>r \<in> set (db_rows d). row_change e r (f r) \<and> (\<not> p r \<longrightarrow> \<not> row_notify r)) \<and> (\<forall>r \<in> set xs. fresh_row d r) \<and>
     db_nextId d \<le> db_nextId d' \<and> (xs \<noteq> [] \<longrightarrow> table_wf d'))"

lemma change_refl [simp]: "row_change e r r"
  by (simp add: row_change_def)

lemma change_key: "row_change e r r' \<Longrightarrow> row_key r' = row_key r"
  by (auto simp: row_change_def row_key_def)

lemma change_ok: "row_change e r r' \<Longrightarrow> row_ok r \<Longrightarrow> row_ok r'"
  by (auto simp: row_change_def row_ok_def)

lemma shape_update:
  assumes "db_rows d' = map f (db_rows d)" and "\<And>r. r \<in> set (db_rows d) \<Longrightarrow> row_change e r (f r)" and "db_nextId d' = db_nextId d"
  shows "shape e d d'"
  unfolding shape_def using assms by (intro exI [of _ f] exI [of _ "\<lambda>r. True"] exI [of _ "[]"]) simp

lemma shape_same: "shape e d d"
  by (rule shape_update [of _ id]) simp_all

lemma insert_new_append:
  "\<exists>xs'. db_rows (insert_new now xs d) = db_rows d @ xs' \<and> (\<forall>r \<in> set xs'. fresh_row d r) \<and> db_nextId d \<le> db_nextId (insert_new now xs d)"
proof (induction now xs d rule: insert_new.induct)
  case (2 now x xs d)
  from "2.IH" obtain ys where ys: "db_rows (insert_new now xs (insert_one now x d)) = db_rows (insert_one now x d) @ ys"
    "\<forall>r \<in> set ys. fresh_row (insert_one now x d) r" "db_nextId (insert_one now x d) \<le> db_nextId (insert_new now xs (insert_one now x d))"
    by blast
  have one: "db_rows (insert_one now x d) = db_rows d \<or> (\<exists>r. fresh_row d r \<and> db_rows (insert_one now x d) = db_rows d @ [r])"
    "db_nextId (insert_one now x d) = db_nextId d + 1"
    by (auto simp: insert_one_def fresh_row_def new_row_def Let_def split: prod.split)
  then have "\<forall>r \<in> set ys. fresh_row d r" using ys(2) by (force simp: fresh_row_def)
  with one ys(1,3) show ?case by auto
qed simp

lemma shape_insert: "table_wf d \<Longrightarrow> db_rows d0 = db_rows d \<Longrightarrow> db_nextId d0 = db_nextId d \<Longrightarrow> shape e d (insert_new now xs d0)"
  using insert_new_append [of now xs d0] insert_new_wf [of d0 now xs] unfolding shape_def table_wf_def [of d] table_wf_def [of d0]
  by (intro exI [of _ id] exI [of _ "\<lambda>r. True"]) (auto simp: fresh_row_def)

lemma claimed_row:
  assumes "table_wf d" and "\<And>i. i \<in> set ids \<Longrightarrow> \<exists>r \<in> set (db_rows d). row_id r = i \<and> claimable inboxId r"
    and "r \<in> set (db_rows d)" and "row_id r \<in> set ids"
  shows "claimable inboxId r"
proof -
  obtain r' where "r' \<in> set (db_rows d)" "row_id r' = row_id r" "claimable inboxId r'" using assms(2) [OF assms(4)] by blast
  with row_unique [OF assms(1,3)] show ?thesis by metis
qed

lemma shape_claim:
  assumes "table_wf d" and "\<And>i. i \<in> set ids \<Longrightarrow> \<exists>r \<in> set (db_rows d). row_id r = i \<and> claimable inboxId r"
    and "claims e inboxId"
  shows "shape e d (snd (claim_rows busy supported now inboxId ids d))"
proof (rule claim_rows_cases [of busy supported now inboxId ids d])
  assume "snd (claim_rows busy supported now inboxId ids d) = mark_delivered now ids d"
  moreover have "row_change e r (if row_id r \<in> set ids then r\<lparr>row_status := StDelivered, row_deliveredAt := Some now\<rparr> else r)"
    if "r \<in> set (db_rows d)" for r
    using claimed_row [OF assms(1,2) that] assms(3) by (auto simp: row_change_def claimable_def)
  then have "shape e d (mark_delivered now ids d)"
    by (intro shape_update [of _ "\<lambda>r. if row_id r \<in> set ids then r\<lparr>row_status := StDelivered, row_deliveredAt := Some now\<rparr> else r"])
      (simp_all add: mark_delivered_def)
  ultimately show ?thesis by simp
qed (simp add: shape_same)

lemma set_by_id [simp]: "set (by_id rows) = set rows"
  by (simp add: by_id_def)

lemma poll_ids_claimable:
  "i \<in> set (poll_ids busy inboxId limit chat d) \<Longrightarrow> \<exists>r \<in> set (db_rows d). row_id r = i \<and> claimable inboxId r"
  unfolding poll_ids_def by (auto dest!: in_set_takeD)

lemma fair_ids_claimable:
  "i \<in> set (fair_ids busy inboxId limit perChat budgets d) \<Longrightarrow> \<exists>r \<in> set (db_rows d). row_id r = i \<and> claimable inboxId r"
  unfolding fair_ids_def Let_def by (auto dest!: in_set_takeD)

lemma exact_cases:
  obtains "claimAndBuildForPush busy supported now inboxId m d = (Inr [], d)"
  | ids where "claimAndBuildForPush busy supported now inboxId m d = claim_rows busy supported now inboxId ids d"
      "\<And>i. i \<in> set ids \<Longrightarrow> \<exists>r \<in> set (db_rows d). row_id r = i \<and> claimable inboxId r"
proof (cases "by_id (filter (\<lambda>r. claimable inboxId r \<and> row_messageId r = m) (db_rows d))")
  case (Cons t ts)
  let ?ids = "map row_id (by_id (filter (\<lambda>r. claimable inboxId r \<and> row_chatId r = row_chatId t \<and> row_id r \<le> row_id t) (db_rows d)))"
  have "\<exists>r \<in> set (db_rows d). row_id r = i \<and> claimable inboxId r" if "i \<in> set ?ids" for i using that by auto
  with Cons that(2) [of ?ids] show ?thesis by (simp add: claimAndBuildForPush_def)
qed (use that(1) in \<open>simp add: claimAndBuildForPush_def\<close>)

text \<open>What an accepted acknowledgement leaves behind.\<close>

definition acked_through :: "int \<Rightarrow> inbox_row \<Rightarrow> int \<Rightarrow> inbox_row \<Rightarrow> inbox_row" where
  "acked_through now e i r =
     (if same_partition e r \<and> row_id r \<le> i \<and> (if row_notify r then row_status r \<noteq> StAcked else row_status r = StPending)
      then r\<lparr>row_status := StAcked, row_ackedAt := Some now\<rparr> else r)"

definition ack_effect :: "int \<Rightarrow> int \<Rightarrow> string list \<Rightarrow> int list \<Rightarrow> inbox_db \<Rightarrow> inbox_row \<Rightarrow> ack_disposition \<Rightarrow> int list \<Rightarrow> inbox_db \<Rightarrow> bool" where
  "ack_effect now i inboxIds current d e disp ids d' \<longleftrightarrow>
     row_id e = i \<and> row_notify e \<and> row_inboxId e \<in> set inboxIds \<and> row_key e \<in> row_key ` set (db_rows d) \<and>
     set ids = row_id ` {r \<in> set (db_rows d). same_partition e r \<and> row_notify r \<and> row_id r \<le> i \<and> row_status r \<noteq> StAcked} \<and>
     set ids \<subseteq> set current \<and> (\<forall>r \<in> set (db_rows d). row_id r \<in> set ids \<longrightarrow> row_deliveredAt r \<noteq> None) \<and>
     (disp = DispAlreadyAcked \<longleftrightarrow> ids = []) \<and>
     d' = (if ids = [] then d else d\<lparr>db_rows := map (acked_through now e i) (db_rows d)\<rparr>)"

lemma prefix_committable:
  assumes wf: "table_wf d" and e: "e \<in> set (db_rows d)"
    and gap: "\<not> list_ex (\<lambda>r. row_status r \<noteq> StAcked \<and> row_status r \<noteq> StDelivered \<and> \<not> isResetDeliveredRow r) (prefix_rows e d)"
    and x: "x \<in> set (db_rows d)"
  shows "row_id x \<in> set (committable_ids (prefix_rows e d)) \<longleftrightarrow>
      same_partition e x \<and> row_notify x \<and> row_id x \<le> row_id e \<and> row_status x \<noteq> StAcked" (is "?l = ?r")
    and "row_id x \<in> set (committable_ids (prefix_rows e d)) \<Longrightarrow> row_deliveredAt x \<noteq> None"
proof -
  have left: "?r \<and> row_deliveredAt x \<noteq> None" if l: "?l"
  proof -
    from l obtain y where y: "y \<in> set (prefix_rows e d)" "row_id y = row_id x" "row_status y = StDelivered \<or> isResetDeliveredRow y"
      by (auto simp: committable_ids_def)
    with row_unique [OF wf x, of y] have "y = x" by (auto simp: prefix_rows_def)
    with y table_wfD(3) [OF wf x] show ?thesis by (auto simp: prefix_rows_def isResetDeliveredRow_def row_ok_def)
  qed
  moreover have "?l" if "?r" using that x gap by (auto simp: prefix_rows_def committable_ids_def list_ex_iff)
  ultimately show "?l = ?r" by blast
  show "row_id x \<in> set (committable_ids (prefix_rows e d)) \<Longrightarrow> row_deliveredAt x \<noteq> None" using left by blast
qed

lemma commit_prefix_outcome:
  assumes wf: "table_wf d" and e: "e \<in> set (db_rows d)"
    and ids: "\<And>x. x \<in> set (db_rows d) \<Longrightarrow> row_id x \<in> set ids \<longleftrightarrow>
      same_partition e x \<and> row_notify x \<and> row_id x \<le> row_id e \<and> row_status x \<noteq> StAcked"
    and c: "commit_prefix now e ids d = (through, updated, d')"
  shows "row_key through = row_key e \<and> row_notify through = row_notify e" and
    "updated = map row_id (filter (\<lambda>r. same_partition e r \<and> row_notify r \<and> row_id r \<le> row_id e \<and> row_status r \<noteq> StAcked) (db_rows d))" and
    "d' = d\<lparr>db_rows := map (acked_through now e (row_id e)) (db_rows d)\<rparr>"
proof -
  let ?u = "\<lambda>r. row_id r \<in> set ids \<and> row_status r \<noteq> StAcked"
  have u: "?u x \<longleftrightarrow> same_partition e x \<and> row_notify x \<and> row_id x \<le> row_id e \<and> row_status x \<noteq> StAcked"
    if "x \<in> set (db_rows d)" for x using ids [OF that] by blast
  have same: "filter ?u (db_rows d) =
    filter (\<lambda>r. same_partition e r \<and> row_notify r \<and> row_id r \<le> row_id e \<and> row_status r \<noteq> StAcked) (db_rows d)"
    by (rule filter_cong [OF refl]) (rule u)
  from c same show "updated = map row_id (filter (\<lambda>r. same_partition e r \<and> row_notify r \<and> row_id r \<le> row_id e \<and> row_status r \<noteq> StAcked) (db_rows d))"
    by (simp add: commit_prefix_def Let_def)
  let ?s = "\<lambda>r. same_partition e r \<and> row_status r = StPending \<and> \<not> row_notify r \<and> row_id r \<le> row_id e"
  let ?g = "\<lambda>x. if ?u x then x\<lparr>row_status := StAcked, row_ackedAt := Some now\<rparr> else x"
  have "(if ?s (?g x) then (?g x)\<lparr>row_status := StAcked, row_ackedAt := Some now\<rparr> else ?g x) = acked_through now e (row_id e) x"
    if "x \<in> set (db_rows d)" for x unfolding u [OF that] by (auto simp: acked_through_def)
  with c show "d' = d\<lparr>db_rows := map (acked_through now e (row_id e)) (db_rows d)\<rparr>"
    by (auto simp: commit_prefix_def Let_def mark_acked_def)
  from c have t: "through = (case find (\<lambda>r. row_id r = row_id e \<and> row_id e \<in> set updated) (map ?g (db_rows d)) of Some r \<Rightarrow> r | None \<Rightarrow> e)"
    by (auto simp: commit_prefix_def Let_def mark_acked_def)
  show "row_key through = row_key e \<and> row_notify through = row_notify e"
  proof (cases "find (\<lambda>r. row_id r = row_id e \<and> row_id e \<in> set updated) (map ?g (db_rows d))")
    case (Some x)
    then have "x \<in> set (map ?g (db_rows d))" "row_id x = row_id e" by (auto simp: find_Some_iff)
    then obtain y where y: "y \<in> set (db_rows d)" "x = ?g y" "row_id x = row_id e" by auto
    then have "row_id y = row_id e" by (simp split: if_splits)
    with row_unique [OF wf y(1) e] have "y = e" by simp
    with t Some y(2) show ?thesis by (simp add: row_key_def)
  qed (simp add: t)
qed

lemma ack_outcome:
  assumes wf: "table_wf d" and r: "ackThroughEntryIdForBoundAgents now i inboxIds current d = (res, d')"
  shows "case res of AckRefused why \<Rightarrow> d' = d | AckOk e disp ids \<Rightarrow> ack_effect now i inboxIds current d e disp ids d'"
proof (cases res)
  case (AckRefused why)
  with r show ?thesis
    by (auto simp: ackThroughEntryIdForBoundAgents_def Let_def split: if_splits option.splits prod.splits)
next
  case (AckOk e' disp ids)
  then obtain e where e: "find (\<lambda>r. row_id r = i \<and> row_inboxId r \<in> set inboxIds) (db_rows d) = Some e" "row_notify e"
    using r by (cases "find (\<lambda>r. row_id r = i \<and> row_inboxId r \<in> set inboxIds) (db_rows d)")
      (auto simp: ackThroughEntryIdForBoundAgents_def split: if_splits)
  from e(1) have ib: "e \<in> set (db_rows d)" "row_id e = i" "row_inboxId e \<in> set inboxIds" by (auto simp: find_Some_iff)
  from r e AckOk have gap: "\<not> list_ex (\<lambda>r. row_status r \<noteq> StAcked \<and> row_status r \<noteq> StDelivered \<and> \<not> isResetDeliveredRow r) (prefix_rows e d)"
    by (auto simp: ackThroughEntryIdForBoundAgents_def Let_def split: if_splits)
  note commit = prefix_committable [OF wf ib(1) gap]
  let ?c = "committable_ids (prefix_rows e d)"
  let ?new = "filter (\<lambda>r. same_partition e r \<and> row_notify r \<and> row_id r \<le> i \<and> row_status r \<noteq> StAcked) (db_rows d)"
  have covers: "set ?c = row_id ` set ?new"
  proof -
    have "\<exists>x \<in> set (db_rows d). row_id x = j" if "j \<in> set ?c" for j
      using that by (auto simp: committable_ids_def prefix_rows_def)
    with commit(1) ib(2) show ?thesis by fastforce
  qed
  show ?thesis
  proof (cases "?c = []")
    case True
    with r e gap AckOk have "e' = e" "disp = DispAlreadyAcked" "ids = []" "d' = d"
      by (auto simp: ackThroughEntryIdForBoundAgents_def Let_def split: if_splits)
    with AckOk e(2) ib covers True show ?thesis by (auto simp: ack_effect_def)
  next
    case False
    obtain t u d0 where c: "commit_prefix now e ?c d = (t, u, d0)" by (metis prod_cases3)
    note out = commit_prefix_outcome [OF wf ib(1) commit(1) c, unfolded ib(2)]
    from r e gap AckOk False c have cur: "set ?c \<subseteq> set current" and outs: "e' = t" "ids = u" "d' = d0" "disp \<noteq> DispAlreadyAcked"
      by (auto simp: ackThroughEntryIdForBoundAgents_def Let_def list_ex_iff split: if_splits)
    have same: "same_partition t = same_partition e" "acked_through now t i = acked_through now e i"
      using out(1) by (auto simp: same_partition_def acked_through_def row_key_def)
    have u: "set u = set ?c" using arg_cong [OF out(2), of set] covers by simp
    have "u \<noteq> []" using u False by (metis set_empty)
    moreover have "row_deliveredAt x \<noteq> None" if "x \<in> set (db_rows d)" "row_id x \<in> set u" for x
      using commit(2) [OF that(1)] that(2) u by blast
    ultimately show ?thesis using AckOk outs e(2) ib out same cur u covers
      by (auto simp: ack_effect_def row_key_def)
  qed
qed

lemma ack_acks:
  assumes "table_wf d" and "ackThroughEntryIdForBoundAgents now i inboxIds current d = (res, d')"
  shows "shape (EvAck now i inboxIds current) d d'"
proof (cases res)
  case (AckRefused why)
  with ack_outcome [OF assms] show ?thesis by (simp add: shape_same)
next
  case (AckOk e disp ids)
  with ack_outcome [OF assms] have a: "ack_effect now i inboxIds current d e disp ids d'" by simp
  have change: "row_change (EvAck now i inboxIds current) x (acked_through now e i x)" if x: "x \<in> set (db_rows d)" for x
  proof (cases "row_notify x \<and> acked_through now e i x \<noteq> x")
    case True
    then have c: "same_partition e x" "row_id x \<le> i" "row_status x \<noteq> StAcked" by (auto simp: acked_through_def split: if_splits)
    with True x a have "row_id x \<in> set ids" by (auto simp: ack_effect_def)
    with a x c True show ?thesis by (auto simp: ack_effect_def row_change_def acked_through_def same_partition_def)
  qed (auto simp: row_change_def acked_through_def)
  show ?thesis
  proof (cases "ids = []")
    case False
    with a have "db_rows d' = map (acked_through now e i) (db_rows d)" "db_nextId d' = db_nextId d" by (simp_all add: ack_effect_def)
    with change show ?thesis by (intro shape_update [of _ "acked_through now e i"])
  qed (use a in \<open>simp add: ack_effect_def shape_same\<close>)
qed

lemma shape_ack: "table_wf d \<Longrightarrow> shape (EvAck now i inboxIds current) d (snd (ackThroughEntryIdForBoundAgents now i inboxIds current d))"
  by (rule ack_acks [OF _ prod.collapse [symmetric]])

lemma shape_reset: "shape e d (snd (reset_rows (\<lambda>r. p r \<and> row_status r = StDelivered) d))"
  by (rule shape_update [of _ "\<lambda>r. if p r \<and> row_status r = StDelivered then r\<lparr>row_status := StPending\<rparr> else r"])
    (auto simp: reset_rows_def row_change_def)

lemma shape_prune: "shape e d (snd (pruneStaleSilentEntries now age d))"
  unfolding shape_def
  by (intro exI [of _ id] exI [of _ "\<lambda>r. row_notify r \<or> (row_status r \<noteq> StAcked \<and>
        \<not> (row_status r = StPending \<and> row_createdAt r < now - age * 1000))"] exI [of _ "[]"])
    (auto simp: pruneStaleSilentEntries_def Let_def intro: filter_cong)

lemma shape_silence: "shape (EvSilence chat m inboxIds) d (silence_pending_trigger chat m inboxIds d)"
  by (rule shape_update [of _ "\<lambda>r. if row_chatId r = Some chat \<and> row_messageId r = m \<and> row_status r = StPending \<and>
        row_notify r \<and> row_inboxId r \<in> set inboxIds then r\<lparr>row_notify := False\<rparr> else r"])
    (auto simp: silence_pending_trigger_def row_change_def)

lemma shape_promote: "table_wf d \<Longrightarrow> shape (EvPromote now inboxId m chat) d (promote_bootstrap now inboxId m chat d)"
proof -
  assume wf: "table_wf d"
  show ?thesis
  proof (cases "find (\<lambda>r. row_inboxId r = inboxId \<and> row_messageId r = m \<and> row_chatId r = Some chat) (db_rows d)")
    case None
    with wf show ?thesis by (simp add: promote_bootstrap_def shape_insert del: insert_new.simps)
  next
    case (Some r)
    from Some have r: "r \<in> set (db_rows d)" "row_inboxId r = inboxId" "row_messageId r = m" "row_chatId r = Some chat"
      by (auto simp: find_Some_iff)
    show ?thesis
    proof (cases "row_notify r \<or> row_status r \<noteq> StPending")
      case False
      have "x = r" if "x \<in> set (db_rows d)" "row_id x = row_id r" for x using row_unique [OF wf that(1) r(1) that(2)] .
      with False r show ?thesis
        by (intro shape_update [of _ "\<lambda>x. if row_id x = row_id r then x\<lparr>row_notify := True\<rparr> else x"])
          (auto simp: promote_bootstrap_def Some row_change_def)
    qed (simp add: promote_bootstrap_def Some shape_same)
  qed
qed

lemma step_shape: "table_wf d \<Longrightarrow> shape e d (inbox_step d e)"
proof (cases e)
  case (EvSend now m sender silent addressed mentions ps)
  assume wf: "table_wf d"
  show ?thesis unfolding EvSend inbox_step.simps
    by (rule store_message_cases [of now m "fan_out sender silent addressed mentions ps" d])
      (simp_all add: shape_same shape_insert [OF wf])
next
  case (EvExact busy supported now inboxId m)
  assume wf: "table_wf d"
  show ?thesis unfolding EvExact inbox_step.simps
    by (rule exact_cases [of busy supported now inboxId m d]) (simp_all add: shape_same shape_claim [OF wf])
qed (simp_all add: shape_insert backfillSilentContextForNewParticipants_def Let_def pollInboxInner_def claimBacklogForPushFair_def
    shape_claim poll_ids_claimable fair_ids_claimable shape_same shape_ack recoverUnackedForScope_def shape_reset
    resetDeliveredForInboxes_def shape_prune shape_silence shape_promote split_beta)

lemma shape_wf:
  assumes "table_wf d" and "shape e d d'"
  shows "table_wf d'"
proof -
  from assms(2) obtain f p xs where s: "db_rows d' = map f (filter p (db_rows d)) @ xs"
    "\<forall>r \<in> set (db_rows d). row_change e r (f r)" "db_nextId d \<le> db_nextId d'" "xs \<noteq> [] \<longrightarrow> table_wf d'"
    unfolding shape_def by blast
  show ?thesis
  proof (cases "xs = []")
    case True
    have key: "row_key (f r) = row_key r" and ok: "row_ok (f r)" if "r \<in> set (db_rows d)" for r
      using that s(2) change_key change_ok table_wfD(3) [OF assms(1)] by blast+
    have "map row_id (db_rows d') = map row_id (filter p (db_rows d))" using key True s(1) by (auto simp: row_key_def)
    then have "distinct (map row_id (db_rows d'))" using table_wfD(1) [OF assms(1)] by (simp add: distinct_map_filter)
    moreover have "f r = f r'" if "r \<in> set (db_rows d)" "r' \<in> set (db_rows d)" "same_delivery (f r) (f r')" for r r'
      using table_wfD(4) [OF assms(1) that(1,2)] that(3) same_delivery_key [OF key [OF that(1)] key [OF that(2)]] by simp
    moreover have "row_id (f r) < db_nextId d'" if "r \<in> set (db_rows d)" for r
      using table_wfD(2) [OF assms(1) that] key [OF that] s(3) by (simp add: row_key_def)
    ultimately show ?thesis using True s(1) ok unfolding table_wf_def by auto
  qed (use s(4) in simp)
qed

lemma step_wf: "table_wf d \<Longrightarrow> table_wf (inbox_step d e)"
  by (rule shape_wf [OF _ step_shape])

lemma run_wf: "table_wf d \<Longrightarrow> table_wf (inbox_run d es)"
  unfolding inbox_run_def by (induction es arbitrary: d) (simp_all add: step_wf)

lemma new_inbox_wf: "table_wf (new_inbox owners versions)"
  by (simp add: table_wf_def new_inbox_def)

section \<open>Owed and settled deliveries\<close>

definition owed :: "inbox_db \<Rightarrow> inbox_row \<Rightarrow> bool" where
  "owed d k \<longleftrightarrow> (\<exists>r \<in> set (db_rows d). row_key r = row_key k \<and> row_notify r \<and> row_status r \<noteq> StAcked)"

definition settled_row :: "inbox_db \<Rightarrow> inbox_row \<Rightarrow> bool" where
  "settled_row d r \<longleftrightarrow> r \<in> set (db_rows d) \<and> row_notify r \<and> row_status r = StAcked"

lemma step_row:
  assumes "table_wf d" and "r \<in> set (db_rows d)" and "row_notify r"
  shows "\<exists>r' \<in> set (db_rows (inbox_step d e)). row_change e r r'"
  using step_shape [OF assms(1), of e] assms(2,3) unfolding shape_def by fastforce

lemma acks_key: "row_key r = row_key k \<Longrightarrow> acks e r = acks e k" "row_key r = row_key k \<Longrightarrow> silences e r = silences e k"
  by (cases e; simp add: row_key_def)+

interpretation owed_deliveries: held_facts table_wf owed inbox_step "\<lambda>e k. acks e k \<or> silences e k"
proof unfold_locales
  show "owed (inbox_step d e) k" if "table_wf d" "owed d k" "\<not> (acks e k \<or> silences e k)" for d k e
  proof -
    from that(2) obtain r where r: "r \<in> set (db_rows d)" "row_key r = row_key k" "row_notify r" "row_status r \<noteq> StAcked"
      unfolding owed_def by blast
    from step_row [OF that(1) r(1,3)] obtain r' where r': "r' \<in> set (db_rows (inbox_step d e))" "row_change e r r'" by blast
    from r'(2) r that(3) acks_key [OF r(2)] have "row_notify r' \<and> row_status r' \<noteq> StAcked"
      by (auto simp: row_change_def)
    with r' r(2) change_key show ?thesis unfolding owed_def by metis
  qed
qed (rule step_wf)

interpretation settled_deliveries: held_facts table_wf settled_row inbox_step "\<lambda>e k. False"
proof unfold_locales
  show "settled_row (inbox_step d e) r" if "table_wf d" "settled_row d r" for d r e
    using step_row [OF that(1), of r e] that(2) unfolding settled_row_def by (auto simp: row_change_def)
qed (rule step_wf)


lemma row_ids: "r \<in> set (db_rows d) \<Longrightarrow> table_wf d \<Longrightarrow> r' \<in> set (db_rows d) \<Longrightarrow> row_key r = row_key r' \<Longrightarrow> r = r'"
  using row_unique by (simp add: row_key_def)

lemma settled_iff:
  "m \<in> set (listSettledMessageIdsForScope inboxId c ids d) \<longleftrightarrow> m \<in> set ids \<and>
     (\<exists>r \<in> set (db_rows d). in_scope inboxId (Some c) r \<and> row_messageId r = m) \<and>
     (\<forall>r \<in> set (db_rows d). in_scope inboxId (Some c) r \<longrightarrow> row_messageId r = m \<longrightarrow> row_status r = StAcked)"
  unfolding listSettledMessageIdsForScope_def Let_def by (simp add: image_iff) metis

text \<open>A run for the witnesses: a waking message, a silent one and two more waking ones, all claimed.\<close>

definition demo_sent :: "string \<Rightarrow> int \<Rightarrow> message_row" where
  "demo_sent i now =
     \<lparr>ms_id = i, ms_chatId = ''c'', ms_senderId = ''a'', ms_senderKind = ''member'', ms_senderProvider = None, ms_format = ''text'',
      ms_content = JStr i, ms_metadata = JNull, ms_inReplyTo = None, ms_source = None, ms_createdAt = now\<rparr>"

definition demo_send :: "string \<Rightarrow> int \<Rightarrow> bool \<Rightarrow> inbox_event" where
  "demo_send i now silent =
     EvSend now (demo_sent i now) ''a'' silent [''b''] [] [\<lparr>pt_agentId = ''b'', pt_inboxId = ''ib'', pt_active = True\<rparr>]"

definition demo_poll :: "nat \<Rightarrow> inbox_event" where
  "demo_poll limit = EvPoll (\<lambda>i. False) True 9 ''ib'' limit None"

definition demo_events :: "inbox_event list" where
  "demo_events = [demo_send ''m1'' 1 False, demo_send ''m2'' 2 True, demo_send ''m3'' 3 False, demo_send ''m4'' 4 False]"

definition demo_inbox :: inbox_db where
  "demo_inbox = new_inbox [(''ib'', ''b'')] []"

definition demo_row :: "int \<Rightarrow> inbox_db \<Rightarrow> inbox_row" where
  "demo_row i d = the (find (\<lambda>r. row_id r = i) (db_rows d))"


text \<open>
  C4. A delivery that wakes its recipient and is not acknowledged stays in the inbox through every
  send, claim, recovery, reset and clean-up, is counted as outstanding and is never reported as settled, until an
  acknowledgement covers it whose socket had it in flight. The one other way out is that a message takes its
  wake-up over.
\<close>

theorem owed_delivery_is_never_lost:
  assumes "d = inbox_run (new_inbox owners versions) before" and "r \<in> set (db_rows d)" and "row_notify r" and "row_status r \<noteq> StAcked"
    and "\<forall>e \<in> set es. \<not> acks e r \<and> \<not> silences e r" and "d' = inbox_run d es"
  shows "(\<exists>r' \<in> set (db_rows d'). row_key r' = row_key r \<and> row_notify r' \<and> row_status r' \<noteq> StAcked) \<and>
    0 < countUnackedForScope (row_inboxId r) (row_chatId r) d' \<and>
    (\<forall>c ids. row_chatId r = Some c \<longrightarrow> row_messageId r \<notin> set (listSettledMessageIdsForScope (row_inboxId r) c ids d'))"
proof -
  have wf: "table_wf d" unfolding assms(1) by (rule run_wf [OF new_inbox_wf])
  have "owed d r" using assms(2-4) by (auto simp: owed_def)
  with owed_deliveries.holds_all [OF wf] assms(5,6) have "owed d' r" by (simp add: inbox_run_def)
  then obtain r' where r': "r' \<in> set (db_rows d')" "row_key r' = row_key r" "row_notify r'" "row_status r' \<noteq> StAcked"
    unfolding owed_def by blast
  then have scope: "in_scope (row_inboxId r) (row_chatId r) r'" "row_messageId r' = row_messageId r"
    by (auto simp: in_scope_def row_key_def split: option.split)
  then have "0 < countUnackedForScope (row_inboxId r) (row_chatId r) d'"
    unfolding countUnackedForScope_def length_greater_0_conv filter_empty_conv using r' by blast
  moreover have "row_messageId r \<notin> set (listSettledMessageIdsForScope (row_inboxId r) c ids d')" if "row_chatId r = Some c" for c ids
    using r' scope that unfolding settled_iff by metis
  ultimately show ?thesis using r' by blast
qed

theorem owed_delivery_is_never_lost_witness:
  "let es = [EvAck 9 1 [''ib''] [1, 3, 4], EvRecover ''ib'' (Some ''c''), demo_poll 1, EvPrune 9 0, EvReset [''ib'']];
       d = inbox_run demo_inbox (demo_events @ [demo_poll 9]); d' = inbox_run d es
   in 0 < countUnackedForScope ''ib'' (Some ''c'') d' \<and> ''m3'' \<notin> set (listSettledMessageIdsForScope ''ib'' ''c'' [''m3''] d')"
proof -
  let ?d = "inbox_run (new_inbox [(''ib'', ''b'')] []) (demo_events @ [demo_poll 9])"
  let ?r = "demo_row 3 ?d"
  let ?es = "[EvAck 9 1 [''ib''] [1, 3, 4], EvRecover ''ib'' (Some ''c''), demo_poll 1, EvPrune 9 0, EvReset [''ib'']]"
  have r: "?r \<in> set (db_rows ?d)" "row_notify ?r" "row_status ?r \<noteq> StAcked" "row_inboxId ?r = ''ib''"
    "row_chatId ?r = Some ''c''" "row_messageId ?r = ''m3''" "row_id ?r = 3" by code_simp+
  have "\<forall>e \<in> set ?es. \<not> acks e ?r \<and> \<not> silences e ?r" using r(7) by (simp add: demo_poll_def)
  from owed_delivery_is_never_lost [OF refl r(1-3) this refl] r(4-6) show ?thesis by (simp add: demo_inbox_def)
qed

text \<open>
  C5. What a probe reports as settled is settled for good: in every later state the same probe reports it
  again, and no claim hands the delivery out once more.
\<close>

theorem settled_is_final:
  assumes "d = inbox_run (new_inbox owners versions) before" and "m \<in> set (listSettledMessageIdsForScope inboxId c ids d)"
    and "d' = inbox_run d es"
  shows "m \<in> set (listSettledMessageIdsForScope inboxId c ids d') \<and>
    (\<forall>r \<in> set (db_rows d'). row_inboxId r = inboxId \<and> row_chatId r = Some c \<and> row_messageId r = m \<longrightarrow> \<not> claimable inboxId r)"
proof -
  have wf: "table_wf d" unfolding assms(1) by (rule run_wf [OF new_inbox_wf])
  have wf': "table_wf d'" unfolding assms(3) by (rule run_wf [OF wf])
  from assms(2) obtain r where r: "r \<in> set (db_rows d)" "in_scope inboxId (Some c) r" "row_messageId r = m" "row_status r = StAcked"
    "m \<in> set ids" unfolding settled_iff by blast
  then have "settled_row d r" by (simp add: settled_row_def in_scope_def)
  with settled_deliveries.holds_all [OF wf] assms(3) have "settled_row d' r" by (simp add: inbox_run_def)
  then have r': "r \<in> set (db_rows d')" by (simp add: settled_row_def)
  have one: "x = r" if "x \<in> set (db_rows d')" "row_inboxId x = inboxId" "row_chatId x = Some c" "row_messageId x = m" for x
    using table_wfD(4) [OF wf' that(1) r'] that r(2,3) by (simp add: same_delivery_def in_scope_def)
  have "row_status x = StAcked" if "x \<in> set (db_rows d')" "in_scope inboxId (Some c) x" "row_messageId x = m" for x
    using one [OF that(1)] that(2,3) r(4) by (simp add: in_scope_def)
  with r r' have "m \<in> set (listSettledMessageIdsForScope inboxId c ids d')" unfolding settled_iff by blast
  moreover have "\<not> claimable inboxId r" using r(4) by (simp add: claimable_def)
  ultimately show ?thesis using one by blast
qed

theorem settled_is_final_witness:
  "''m1'' \<in> set (listSettledMessageIdsForScope ''ib'' ''c'' [''m1'', ''m3'']
     (inbox_run (inbox_run demo_inbox (demo_events @ [demo_poll 9, EvAck 9 1 [''ib''] [1, 3, 4]])) [EvReset [''ib''], demo_poll 9]))"
proof -
  have "''m1'' \<in> set (listSettledMessageIdsForScope ''ib'' ''c'' [''m1'', ''m3'']
      (inbox_run (new_inbox [(''ib'', ''b'')] []) (demo_events @ [demo_poll 9, EvAck 9 1 [''ib''] [1, 3, 4]])))" by code_simp
  from settled_is_final [OF refl this refl] show ?thesis by (simp add: demo_inbox_def)
qed


text \<open>
  C6. An acknowledgement either changes nothing or commits a prefix: it settles exactly the deliveries of the
  inbox and chat of its entry, up to it, that are not settled yet; all of them were delivered before and are in flight
  on the socket that sends it; the silent rows before the entry go with them, and no other row changes.
\<close>

theorem ack_commits_the_prefix:
  assumes "d = inbox_run (new_inbox owners versions) es"
    and "ackThroughEntryIdForBoundAgents now i inboxIds current d = (res, d')"
  shows "case res of
      AckRefused why \<Rightarrow> d' = d
    | AckOk e disp ids \<Rightarrow> ack_effect now i inboxIds current d e disp ids d'"
proof -
  have "table_wf d" unfolding assms(1) by (rule run_wf [OF new_inbox_wf])
  from ack_outcome [OF this assms(2)] show ?thesis .
qed

theorem ack_commits_the_prefix_witness:
  "\<exists>e d'. ack_effect 9 3 [''ib''] [1, 3, 4] (inbox_run demo_inbox (demo_events @ [demo_poll 9])) e DispAcked [1, 3] d'"
proof -
  let ?d = "inbox_run (new_inbox [(''ib'', ''b'')] []) (demo_events @ [demo_poll 9])"
  obtain res d' where a: "ackThroughEntryIdForBoundAgents 9 3 [''ib''] [1, 3, 4] ?d = (res, d')" by (metis surj_pair)
  have "(case fst (ackThroughEntryIdForBoundAgents 9 3 [''ib''] [1, 3, 4] ?d) of AckOk e disp ids \<Rightarrow> disp = DispAcked \<and> ids = [1, 3]
      | AckRefused why \<Rightarrow> False)" by code_simp
  then obtain e where "res = AckOk e DispAcked [1, 3]" unfolding a by (simp split: ack_result.splits)
  with ack_commits_the_prefix [OF refl a] show ?thesis by (auto simp: demo_inbox_def)
qed


section \<open>Fair claims\<close>

lemma sorted_before:
  assumes "sorted (map f ys)" and "distinct (map f ys)" and "k < length ys"
  shows "length (filter (\<lambda>y. f y < f (ys ! k)) ys) = k"
proof -
  have less: "f (ys ! i) < f (ys ! j)" if "i < j" "j < length ys" for i j
    using that assms(1,2) sorted_nth_mono [of "map f ys" i j] nth_eq_iff_index_eq [of "map f ys" i j] by (simp add: less_le)
  have "filter (\<lambda>y. f y < f (ys ! k)) (take k ys) = take k ys"
    using assms(3) less by (auto simp: filter_id_conv in_set_conv_nth)
  moreover have "filter (\<lambda>y. f y < f (ys ! k)) (drop k ys) = []"
  proof -
    have "\<not> f (ys ! (k + j)) < f (ys ! k)" if "k + j < length ys" for j
      using that less [of k "k + j"] by (cases j) auto
    then show ?thesis by (auto simp: filter_empty_conv in_set_conv_nth add.commute)
  qed
  ultimately have "filter (\<lambda>y. f y < f (ys ! k)) ys = take k ys"
    using filter_append [of "\<lambda>y. f y < f (ys ! k)" "take k ys" "drop k ys"] by simp
  then show ?thesis using assms(3) by simp
qed

text \<open>Taking from the sorted list is counting what comes before.\<close>

lemma take_sort_key_iff:
  assumes "inj_on f (set xs)" and "distinct xs"
  shows "x \<in> set (take n (sort_key f xs)) \<longleftrightarrow> x \<in> set xs \<and> length (filter (\<lambda>y. f y < f x) xs) < n"
proof (cases "x \<in> set xs")
  case True
  let ?ys = "sort_key f xs"
  have ys: "sorted (map f ?ys)" "distinct (map f ?ys)" "distinct ?ys" using assms by (simp_all add: distinct_map)
  from True obtain k where k: "k < length ?ys" "?ys ! k = x" by (metis in_set_conv_nth set_sort)
  have "length (filter (\<lambda>y. f y < f x) xs) = length (filter (\<lambda>y. f y < f x) ?ys)"
    by (metis filter_sort length_sort)
  also have "\<dots> = k" using sorted_before [OF ys(1,2) k(1)] k(2) by simp
  finally have before: "length (filter (\<lambda>y. f y < f x) xs) = k" .
  have "x \<in> set (take n ?ys) \<longleftrightarrow> k < n"
  proof
    assume "x \<in> set (take n ?ys)"
    then obtain j where "j < n" "j < length ?ys" "?ys ! j = x" by (auto simp: in_set_conv_nth)
    with ys(3) k nth_eq_iff_index_eq show "k < n" by metis
  qed (use k in \<open>force simp: in_set_conv_nth\<close>)
  with True before show ?thesis by simp
qed (auto dest: in_set_takeD)

lemma rank_less:
  assumes "table_wf d" and "x \<in> set (filter p (db_rows d))" and "y \<in> set (filter p (db_rows d))" and "row_chatId x = row_chatId y"
    and "row_id x < row_id y"
  shows "chat_rank (filter p (db_rows d)) x < chat_rank (filter p (db_rows d)) y"
proof -
  let ?rows = "filter p (db_rows d)"
  have d: "distinct ?rows" using table_wfD(1) [OF assms(1)] by (simp add: distinct_map)
  have card: "chat_rank ?rows z = card {w \<in> set ?rows. row_chatId w = row_chatId z \<and> row_id w \<le> row_id z}" for z
    unfolding chat_rank_def by (simp only: distinct_card [OF distinct_filter [OF d], symmetric] set_filter)
  have "y \<in> {w \<in> set ?rows. row_chatId w = row_chatId y \<and> row_id w \<le> row_id y}"
    "y \<notin> {w \<in> set ?rows. row_chatId w = row_chatId x \<and> row_id w \<le> row_id x}" using assms(3,5) by auto
  moreover have "{w \<in> set ?rows. row_chatId w = row_chatId x \<and> row_id w \<le> row_id x} \<subseteq>
        {w \<in> set ?rows. row_chatId w = row_chatId y \<and> row_id w \<le> row_id y}" using assms(4,5) by auto
  ultimately have "{w \<in> set ?rows. row_chatId w = row_chatId x \<and> row_id w \<le> row_id x} \<subset>
        {w \<in> set ?rows. row_chatId w = row_chatId y \<and> row_id w \<le> row_id y}" by blast
  then show ?thesis unfolding card by (rule psubset_card_mono [rotated]) simp
qed

lemma rank_inj:
  assumes "table_wf d"
  shows "inj_on (\<lambda>r. (chat_rank rows r, row_id r)) (set (filter p (db_rows d)))"
  by (auto intro!: inj_onI dest: row_unique [OF assms])

definition within_budget :: "string \<Rightarrow> nat \<Rightarrow> (string option \<times> int) list \<Rightarrow> inbox_db \<Rightarrow> inbox_row \<Rightarrow> bool" where
  "within_budget inboxId perChat budgets d r \<longleftrightarrow> claimable inboxId r \<and>
     chat_rank (filter (claimable inboxId) (db_rows d)) r \<le> chat_budget perChat budgets (row_chatId r)"

definition sooner :: "string \<Rightarrow> inbox_db \<Rightarrow> inbox_row \<Rightarrow> inbox_row \<Rightarrow> bool" where
  "sooner inboxId d x y \<longleftrightarrow>
     (let rank = chat_rank (filter (claimable inboxId) (db_rows d)) in rank x < rank y \<or> rank x = rank y \<and> row_id x < row_id y)"

lemma image_filtered: "y \<in> f ` {z \<in> A. \<not> b (f z)} \<longleftrightarrow> \<not> b y \<and> (\<exists>z \<in> A. f z = y)"
  by auto

lemma fair_ids_iff:
  assumes "table_wf d" and "y \<in> set (db_rows d)"
  shows "row_id y \<in> set (fair_ids busy inboxId limit perChat budgets d) \<longleftrightarrow>
    within_budget inboxId perChat budgets d y \<and> \<not> busy (row_id y) \<and>
    length (filter (\<lambda>x. within_budget inboxId perChat budgets d x \<and> sooner inboxId d x y) (db_rows d)) < limit"
proof -
  let ?rows = "filter (claimable inboxId) (db_rows d)"
  let ?f = "\<lambda>r. (chat_rank ?rows r, row_id r)"
  let ?in = "filter (\<lambda>r. chat_rank ?rows r \<le> chat_budget perChat budgets (row_chatId r)) ?rows"
  have within: "?in = filter (within_budget inboxId perChat budgets d) (db_rows d)"
    by (auto simp: within_budget_def intro: filter_cong)
  have d: "distinct ?in" using table_wfD(1) [OF assms(1)] by (simp add: distinct_map)
  have inj: "inj_on ?f (set ?in)" unfolding within by (rule rank_inj [OF assms(1)])
  have sooner: "(?f x < ?f y) = sooner inboxId d x y" for x by (auto simp: sooner_def Let_def less_prod_def)
  have "row_id y \<in> set (fair_ids busy inboxId limit perChat budgets d) \<longleftrightarrow>
      \<not> busy (row_id y) \<and> (\<exists>z \<in> set (take limit (sort_key ?f ?in)). row_id z = row_id y)"
  proof -
    have "set (fair_ids busy inboxId limit perChat budgets d) = row_id ` {z \<in> set (take limit (sort_key ?f ?in)). \<not> busy (row_id z)}"
      by (simp only: fair_ids_def Let_def set_map set_filter)
    then show ?thesis by (simp only: image_filtered)
  qed
  also have "\<dots> \<longleftrightarrow> \<not> busy (row_id y) \<and> y \<in> set (take limit (sort_key ?f ?in))"
  proof -
    have "z = y" if "z \<in> set (take limit (sort_key ?f ?in))" "row_id z = row_id y" for z
      using row_unique [OF assms(1) _ assms(2) that(2)] in_set_takeD [OF that(1)] by simp
    then show ?thesis by blast
  qed
  also have "\<dots> \<longleftrightarrow> \<not> busy (row_id y) \<and> y \<in> set ?in \<and> length (filter (\<lambda>x. ?f x < ?f y) ?in) < limit"
    using take_sort_key_iff [OF inj d] by simp
  finally show ?thesis using assms(2) unfolding within sooner by (simp add: conj_ac)
qed

text \<open>
  C16. The fair claim takes a waiting delivery exactly when it is among the first of its chat that the budget of
  the chat admits, no other transaction holds it, and fewer than the limit of such deliveries come sooner. The rank
  within the chat counts first and the number of the entry second, so no chat gets its next delivery while another one
  waits for an earlier turn.
\<close>

theorem fair_claim_is_fair:
  assumes "d = inbox_run (new_inbox owners versions) es" and "y \<in> set (db_rows d)"
  shows "row_id y \<in> set (fair_ids busy inboxId limit perChat budgets d) \<longleftrightarrow>
    within_budget inboxId perChat budgets d y \<and> \<not> busy (row_id y) \<and>
    length (filter (\<lambda>x. within_budget inboxId perChat budgets d x \<and> sooner inboxId d x y) (db_rows d)) < limit"
proof -
  have "table_wf d" unfolding assms(1) by (rule run_wf [OF new_inbox_wf])
  from fair_ids_iff [OF this assms(2)] show ?thesis .
qed

theorem fair_claim_is_fair_witness:
  "let d = inbox_run demo_inbox demo_events in
     3 \<in> set (fair_ids (\<lambda>i. False) ''ib'' 2 5 [(Some ''c'', 2)] d) \<and> 4 \<notin> set (fair_ids (\<lambda>i. False) ''ib'' 2 5 [(Some ''c'', 2)] d)"
proof -
  let ?d = "inbox_run (new_inbox [(''ib'', ''b'')] []) demo_events"
  have r: "demo_row 3 ?d \<in> set (db_rows ?d)" "demo_row 4 ?d \<in> set (db_rows ?d)" "row_id (demo_row 3 ?d) = 3" "row_id (demo_row 4 ?d) = 4"
    by code_simp+
  have "within_budget ''ib'' 5 [(Some ''c'', 2)] ?d (demo_row 3 ?d) \<and>
    length (filter (\<lambda>x. within_budget ''ib'' 5 [(Some ''c'', 2)] ?d x \<and> sooner ''ib'' ?d x (demo_row 3 ?d)) (db_rows ?d)) < 2"
    and "\<not> within_budget ''ib'' 5 [(Some ''c'', 2)] ?d (demo_row 4 ?d)" by code_simp+
  with fair_claim_is_fair [OF refl r(1), where busy = "\<lambda>i. False"] fair_claim_is_fair [OF refl r(2), where busy = "\<lambda>i. False"] r(3,4)
  show ?thesis by (simp add: demo_inbox_def)
qed


section \<open>Order of delivery\<close>

fun level :: "inbox_status \<Rightarrow> nat" where
  "level StAcked = 0"
| "level StDelivered = 1"
| "level StPending = 2"

text \<open>In a partition the settled deliveries come first, then those on their way, then those that wait.\<close>

definition table_in_order :: "inbox_db \<Rightarrow> bool" where
  "table_in_order d \<longleftrightarrow> (\<forall>r \<in> set (db_rows d). \<forall>p \<in> set (db_rows d). row_notify r \<and> row_notify p \<and> same_partition r p \<and>
     level (row_status r) < level (row_status p) \<longrightarrow> row_id r < row_id p)"

text \<open>Nobody else holds rows during a claim, and no silent row is promoted.\<close>

fun undisturbed :: "inbox_event \<Rightarrow> bool" where
  "undisturbed (EvPoll busy supported now inboxId limit chat) = (\<forall>i. \<not> busy i)"
| "undisturbed (EvFair busy supported now inboxId limit perChat budgets) = (\<forall>i. \<not> busy i)"
| "undisturbed (EvPromote now inboxId m chat) = False"
| "undisturbed _ = True"

lemma table_in_orderD:
  "table_in_order d \<Longrightarrow> r \<in> set (db_rows d) \<Longrightarrow> p \<in> set (db_rows d) \<Longrightarrow> row_notify r \<Longrightarrow> row_notify p \<Longrightarrow> same_partition r p \<Longrightarrow>
   level (row_status r) < level (row_status p) \<Longrightarrow> row_id r < row_id p"
  unfolding table_in_order_def by blast

lemma level_pending: "level st \<le> 2"
  by (cases st) simp_all

lemma order_update:
  assumes "table_in_order d"
    and rows: "\<And>r. r \<in> set (db_rows d) \<Longrightarrow> row_key (f r) = row_key r \<and> (row_notify (f r) \<longrightarrow> row_notify r)"
    and new: "\<And>r p. r \<in> set (db_rows d) \<Longrightarrow> p \<in> set (db_rows d) \<Longrightarrow> row_notify r \<Longrightarrow> row_notify p \<Longrightarrow> same_partition r p \<Longrightarrow>
      level (row_status (f r)) < level (row_status (f p)) \<Longrightarrow> \<not> level (row_status r) < level (row_status p) \<Longrightarrow> row_id r < row_id p"
  shows "table_in_order (d\<lparr>db_rows := map f (db_rows d)\<rparr>)"
proof -
  have "row_id r < row_id p" if "r \<in> set (db_rows d)" "p \<in> set (db_rows d)" "row_notify (f r)" "row_notify (f p)"
    "same_partition (f r) (f p)" "level (row_status (f r)) < level (row_status (f p))" for r p
  proof -
    have n: "row_notify r" "row_notify p" and s: "same_partition r p"
      using rows [OF that(1)] rows [OF that(2)] that(3-5) by (auto simp: same_partition_def row_key_def)
    show ?thesis
      using table_in_orderD [OF assms(1) that(1,2) n s] new [OF that(1,2) n s that(6)] by blast
  qed
  with rows show ?thesis unfolding table_in_order_def by (auto simp: row_key_def)
qed

lemma order_claim:
  assumes "table_wf d" and "table_in_order d"
    and ids: "\<And>i. i \<in> set ids \<Longrightarrow> \<exists>r \<in> set (db_rows d). row_id r = i \<and> claimable inboxId r"
    and first: "\<And>x y. x \<in> set (db_rows d) \<Longrightarrow> y \<in> set (db_rows d) \<Longrightarrow> row_id x \<in> set ids \<Longrightarrow> claimable inboxId y \<Longrightarrow>
      row_chatId y = row_chatId x \<Longrightarrow> row_id y < row_id x \<Longrightarrow> row_id y \<in> set ids"
  shows "table_in_order (snd (claim_rows busy supported now inboxId ids d))"
proof (rule claim_rows_cases [of busy supported now inboxId ids d])
  assume c: "snd (claim_rows busy supported now inboxId ids d) = mark_delivered now ids d"
  have claimed: "claimable inboxId r" if "r \<in> set (db_rows d)" "row_id r \<in> set ids" for r
    using claimed_row [OF assms(1) ids that] .
  show ?thesis unfolding c mark_delivered_def
  proof (rule order_update [OF assms(2)], goal_cases)
    case (2 r p)
    have pnot: "row_id p \<notin> set ids"
    proof
      assume c: "row_id p \<in> set ids"
      with 2(6) have "row_id r \<notin> set ids \<and> level (row_status r) = 0" by (cases "row_status r") (auto split: if_splits)
      moreover have "row_status p = StPending" using claimed [OF 2(2) c] by (simp add: claimable_def)
      ultimately show False using 2(7) by simp
    qed
    moreover have rin: "row_id r \<in> set ids" using 2(6,7) pnot by (auto split: if_splits)
    moreover have "row_status p = StPending" using 2(6) pnot rin by (cases "row_status p") auto
    ultimately have p: "row_id p \<notin> set ids" "row_status p = StPending" "row_id r \<in> set ids" "claimable inboxId r"
      using claimed [OF 2(1)] by auto
    then have "claimable inboxId p" using 2 by (auto simp: claimable_def same_partition_def)
    with first [OF 2(1,2) p(3)] p(1) 2(5) have "\<not> row_id p < row_id r" by (auto simp: same_partition_def)
    moreover have "row_id p \<noteq> row_id r" using p by metis
    ultimately show ?case by simp
  qed (simp add: row_key_def)
qed (simp add: assms(2))


lemma length_filter_mono: "(\<And>x. x \<in> set xs \<Longrightarrow> P x \<Longrightarrow> Q x) \<Longrightarrow> length (filter P xs) \<le> length (filter Q xs)"
  by (induction xs) (auto intro: le_SucI)

lemma poll_ids_iff:
  assumes "table_wf d" and "y \<in> set (db_rows d)"
  shows "row_id y \<in> set (poll_ids busy inboxId limit chat d) \<longleftrightarrow>
    (claimable inboxId y \<and> (case chat of None \<Rightarrow> True | Some c \<Rightarrow> row_chatId y = Some c) \<and> \<not> busy (row_id y)) \<and>
    length (filter (\<lambda>x. row_id x < row_id y) (filter (\<lambda>r. claimable inboxId r \<and>
       (case chat of None \<Rightarrow> True | Some c \<Rightarrow> row_chatId r = Some c) \<and> \<not> busy (row_id r)) (db_rows d))) < limit"
proof -
  let ?in = "filter (\<lambda>r. claimable inboxId r \<and> (case chat of None \<Rightarrow> True | Some c \<Rightarrow> row_chatId r = Some c) \<and> \<not> busy (row_id r)) (db_rows d)"
  have d: "distinct ?in" using table_wfD(1) [OF assms(1)] by (simp add: distinct_map)
  have inj: "inj_on row_id (set ?in)" by (auto intro!: inj_onI dest: row_unique [OF assms(1)])
  define T where "T = set (take limit (sort_key row_id ?in))"
  have same: "set (poll_ids busy inboxId limit chat d) = row_id ` T"
    by (simp only: poll_ids_def by_id_def take_map set_map T_def)
  have "row_id y \<in> row_id ` T \<longleftrightarrow> y \<in> T"
  proof
    assume "row_id y \<in> row_id ` T"
    then obtain z where z: "z \<in> T" "row_id z = row_id y" by (metis imageE)
    from in_set_takeD [OF z(1) [unfolded T_def]] have "z \<in> set (db_rows d)" by simp
    with row_unique [OF assms(1) _ assms(2) z(2)] z(1) show "y \<in> T" by simp
  qed (rule imageI)
  moreover have "y \<in> T \<longleftrightarrow> y \<in> set ?in \<and> length (filter (\<lambda>x. row_id x < row_id y) ?in) < limit"
    unfolding T_def by (rule take_sort_key_iff [OF inj d])
  ultimately show ?thesis unfolding same using assms(2) by simp
qed

lemma poll_first:
  assumes "table_wf d" and "x \<in> set (db_rows d)" and "y \<in> set (db_rows d)" and "row_id x \<in> set (poll_ids busy inboxId limit chat d)"
    and "claimable inboxId y" and "row_chatId y = row_chatId x" and "row_id y < row_id x" and "\<not> busy (row_id y)"
  shows "row_id y \<in> set (poll_ids busy inboxId limit chat d)"
proof -
  let ?in = "filter (\<lambda>r. claimable inboxId r \<and> (case chat of None \<Rightarrow> True | Some c \<Rightarrow> row_chatId r = Some c) \<and> \<not> busy (row_id r)) (db_rows d)"
  have "length (filter (\<lambda>z. row_id z < row_id y) ?in) \<le> length (filter (\<lambda>z. row_id z < row_id x) ?in)"
    using assms(7) by (intro length_filter_mono) simp
  moreover have "length (filter (\<lambda>z. row_id z < row_id x) ?in) < limit" and
    "case chat of None \<Rightarrow> True | Some c \<Rightarrow> row_chatId x = Some c"
    using assms(4) unfolding poll_ids_iff [OF assms(1,2)] by blast+
  ultimately show ?thesis unfolding poll_ids_iff [OF assms(1,3)] using assms(5,6,8) by (cases chat) simp_all
qed

lemma fair_first:
  assumes "table_wf d" and "x \<in> set (db_rows d)" and "y \<in> set (db_rows d)" and "row_id x \<in> set (fair_ids busy inboxId limit perChat budgets d)"
    and "claimable inboxId y" and "row_chatId y = row_chatId x" and "row_id y < row_id x" and "\<not> busy (row_id y)"
  shows "row_id y \<in> set (fair_ids busy inboxId limit perChat budgets d)"
proof -
  have x: "within_budget inboxId perChat budgets d x"
    "length (filter (\<lambda>z. within_budget inboxId perChat budgets d z \<and> sooner inboxId d z x) (db_rows d)) < limit"
    using assms(4) fair_ids_iff [OF assms(1,2)] by simp_all
  have "chat_rank (filter (claimable inboxId) (db_rows d)) y < chat_rank (filter (claimable inboxId) (db_rows d)) x"
    using x(1) assms by (intro rank_less) (auto simp: within_budget_def)
  then have "within_budget inboxId perChat budgets d y" and "sooner inboxId d z y \<Longrightarrow> sooner inboxId d z x" for z
    using x(1) assms(5,6) by (auto simp: within_budget_def sooner_def Let_def)
  moreover from this(2) have "length (filter (\<lambda>z. within_budget inboxId perChat budgets d z \<and> sooner inboxId d z y) (db_rows d))
      \<le> length (filter (\<lambda>z. within_budget inboxId perChat budgets d z \<and> sooner inboxId d z x) (db_rows d))"
    by (intro length_filter_mono) blast
  ultimately show ?thesis using x(2) assms(8) fair_ids_iff [OF assms(1,3)] by simp
qed

lemma order_insert: "table_wf d \<Longrightarrow> table_in_order d \<Longrightarrow> db_rows d0 = db_rows d \<Longrightarrow> db_nextId d0 = db_nextId d \<Longrightarrow> table_in_order (insert_new now xs d0)"
proof -
  assume a: "table_wf d" "table_in_order d" "db_rows d0 = db_rows d" "db_nextId d0 = db_nextId d"
  obtain ys where ys: "db_rows (insert_new now xs d0) = db_rows d @ ys" "\<forall>r \<in> set ys. fresh_row d r"
    using insert_new_append [of now xs d0] a(3,4) by (auto simp: fresh_row_def)
  have "row_id r < row_id p" if "r \<in> set (db_rows d)" "p \<in> set ys" for r p
    using table_wfD(2) [OF a(1) that(1)] ys(2) that(2) by (force simp: fresh_row_def)
  moreover have "\<not> level (row_status r) < level (row_status p)" if "r \<in> set ys" for r p
    using ys(2) that level_pending [of "row_status p"] by (simp add: fresh_row_def)
  ultimately show ?thesis using a(2) unfolding table_in_order_def ys(1) by auto
qed

lemma order_reset:
  assumes "table_in_order d" and "\<And>r r'. same_partition r r' \<Longrightarrow> row_notify r \<Longrightarrow> row_notify r' \<Longrightarrow> p r = p r'"
  shows "table_in_order (snd (reset_rows (\<lambda>r. p r \<and> row_status r = StDelivered) d))"
proof -
  have "table_in_order (d\<lparr>db_rows := map (\<lambda>r. if p r \<and> row_status r = StDelivered then r\<lparr>row_status := StPending\<rparr> else r) (db_rows d)\<rparr>)"
  proof (rule order_update [OF assms(1)], goal_cases)
    case (2 r q)
    then show ?case using assms(2) [OF 2(5,3,4)]
      by (cases "row_status r"; cases "row_status q"; auto split: if_splits)
  qed (simp add: row_key_def)
  then show ?thesis by (simp add: reset_rows_def)
qed

lemma order_ack:
  assumes "table_wf d" and "table_in_order d" and "ackThroughEntryIdForBoundAgents now i inboxIds current d = (res, d')"
  shows "table_in_order d'"
proof (cases res)
  case (AckRefused why)
  with ack_outcome [OF assms(1,3)] assms(2) show ?thesis by simp
next
  case (AckOk e disp ids)
  with ack_outcome [OF assms(1,3)] have a: "d' = (if ids = [] then d else d\<lparr>db_rows := map (acked_through now e i) (db_rows d)\<rparr>)"
    by (simp add: ack_effect_def)
  have "table_in_order (d\<lparr>db_rows := map (acked_through now e i) (db_rows d)\<rparr>)"
  proof (rule order_update [OF assms(2)], goal_cases)
    case (2 r p)
    then have "same_partition e r \<longleftrightarrow> same_partition e p" by (auto simp: same_partition_def)
    with 2 show ?case
      by (cases "row_status r"; cases "row_status p"; auto simp: acked_through_def split: if_splits)
  qed (simp add: acked_through_def row_key_def)
  with a assms(2) show ?thesis by simp
qed

end
