(* ===== verification/TableOrder.thy ===== *)
theory TableOrder
  imports TableProperties
begin

text \<open>
  The order in which the server's inbox hands deliveries out, and the silent context that goes with them.
\<close>

section \<open>Order of delivery, kept\<close>

lemma order_prune: "table_in_order d \<Longrightarrow> table_in_order (snd (pruneStaleSilentEntries now age d))"
  by (simp add: pruneStaleSilentEntries_def table_in_order_def Let_def)

lemma order_silence: "table_in_order d \<Longrightarrow> table_in_order (silence_pending_trigger chat m inboxIds d)"
  unfolding silence_pending_trigger_def by (rule order_update) (auto simp: row_key_def split: if_splits)

lemma exact_first:
  assumes "table_wf d" and "table_in_order d"
  shows "table_in_order (snd (claimAndBuildForPush busy supported now inboxId m d))"
proof (cases "by_id (filter (\<lambda>r. claimable inboxId r \<and> row_messageId r = m) (db_rows d))")
  case (Cons t ts)
  let ?ids = "map row_id (by_id (filter (\<lambda>r. claimable inboxId r \<and> row_chatId r = row_chatId t \<and> row_id r \<le> row_id t) (db_rows d)))"
  have ids: "\<exists>r \<in> set (db_rows d). row_id r = i \<and> claimable inboxId r" if "i \<in> set ?ids" for i using that by auto
  have "row_id y \<in> set ?ids" if "x \<in> set (db_rows d)" "y \<in> set (db_rows d)" "row_id x \<in> set ?ids" "claimable inboxId y"
    "row_chatId y = row_chatId x" "row_id y < row_id x" for x y
  proof -
    from that(3) obtain z where z: "z \<in> set (db_rows d)" "row_id z = row_id x" "row_chatId z = row_chatId t" "row_id z \<le> row_id t" by auto
    with row_unique [OF assms(1) z(1) that(1)] that show ?thesis by auto
  qed
  from order_claim [OF assms ids this] Cons show ?thesis by (simp add: claimAndBuildForPush_def)
qed (simp add: claimAndBuildForPush_def assms(2))

lemma step_in_order:
  assumes "table_wf d" and "table_in_order d" and "undisturbed e"
  shows "table_in_order (inbox_step d e)"
proof (cases e)
  case (EvSend now m sender silent addressed mentions ps)
  show ?thesis unfolding EvSend inbox_step.simps
    by (rule store_message_cases [of now m "fan_out sender silent addressed mentions ps" d])
      (simp_all add: assms(2) order_insert [OF assms(1,2)])
next
  case (EvPoll busy supported now inboxId limit chat)
  have "table_in_order (snd (claim_rows busy supported now inboxId (poll_ids busy inboxId limit chat d) d))"
    by (rule order_claim [OF assms(1,2) poll_ids_claimable]) (use assms(3) EvPoll in \<open>auto intro: poll_first [OF assms(1)]\<close>)
  then show ?thesis by (simp add: EvPoll pollInboxInner_def)
next
  case (EvFair busy supported now inboxId limit perChat budgets)
  have "table_in_order (snd (claim_rows busy supported now inboxId (fair_ids busy inboxId (nat limit) (nat perChat) budgets d) d))"
    by (rule order_claim [OF assms(1,2) fair_ids_claimable]) (use assms(3) EvFair in \<open>auto intro: fair_first [OF assms(1)]\<close>)
  then show ?thesis by (simp add: EvFair claimBacklogForPushFair_def assms(2))
next
  case (EvAck now i inboxIds current)
  with order_ack [OF assms(1,2), of now i inboxIds current] show ?thesis by (simp add: prod_eq_iff)
next
  case (EvRecover inboxId chat)
  have "table_in_order (snd (reset_rows (\<lambda>r. in_scope inboxId chat r \<and> row_status r = StDelivered) d))"
    by (rule order_reset [OF assms(2)]) (auto simp: same_partition_def in_scope_def split: option.split)
  then show ?thesis by (simp add: EvRecover recoverUnackedForScope_def)
next
  case (EvReset inboxIds)
  have "table_in_order (snd (reset_rows (\<lambda>r. row_inboxId r \<in> set inboxIds \<and> row_status r = StDelivered) d))"
    by (rule order_reset [OF assms(2)]) (simp add: same_partition_def)
  then show ?thesis by (simp add: EvReset resetDeliveredForInboxes_def assms(2) split_beta)
qed (use assms in \<open>simp_all add: exact_first order_silence order_prune backfillSilentContextForNewParticipants_def Let_def order_insert\<close>)

lemma run_in_order:
  "\<forall>e \<in> set es. undisturbed e \<Longrightarrow> table_in_order (inbox_run (new_inbox owners versions) es)"
proof (induction es rule: rev_induct)
  case Nil
  show ?case by (simp add: inbox_run_def new_inbox_def table_in_order_def)
next
  case (snoc e es)
  then have "table_in_order (inbox_step (inbox_run (new_inbox owners versions) es) e)"
    by (intro step_in_order run_wf new_inbox_wf) auto
  then show ?case by (simp add: inbox_run_def)
qed

text \<open>
  C14. While nobody else holds rows during a claim and no silent row is promoted, the deliveries of a chat in
  an inbox are always settled from the front: every settled one is before every one that is owed, and every one on
  its way is before every one that waits. So a claim always goes on where the last one ended, and a recovery starts
  again behind what is settled.
\<close>

theorem inbox_stays_in_order:
  assumes "d = inbox_run (new_inbox owners versions) es" and "\<forall>e \<in> set es. undisturbed e"
    and "r \<in> set (db_rows d)" and "p \<in> set (db_rows d)" and "row_notify r" and "row_notify p"
    and "row_inboxId r = row_inboxId p" and "row_chatId r = row_chatId p"
    and "row_status r = StAcked \<and> row_status p \<noteq> StAcked \<or> row_status r = StDelivered \<and> row_status p = StPending"
  shows "row_id r < row_id p"
proof -
  have "table_in_order d" unfolding assms(1) by (rule run_in_order [OF assms(2)])
  moreover have "level (row_status r) < level (row_status p)" using assms(9) by (cases "row_status p") auto
  ultimately show ?thesis using assms(3-8) by (intro table_in_orderD) (auto simp: same_partition_def)
qed

theorem inbox_stays_in_order_witness:
  "row_id (demo_row 1 (inbox_run demo_inbox (demo_events @ [demo_poll 1]))) < row_id (demo_row 3 (inbox_run demo_inbox (demo_events @ [demo_poll 1])))"
proof -
  let ?es = "demo_events @ [demo_poll 1]"
  let ?d = "inbox_run (new_inbox [(''ib'', ''b'')] []) ?es"
  let ?r = "demo_row 1 ?d" and ?p = "demo_row 3 ?d"
  have "\<forall>e \<in> set ?es. undisturbed e" by (simp add: demo_events_def demo_send_def demo_poll_def)
  moreover have "?r \<in> set (db_rows ?d)" "?p \<in> set (db_rows ?d)" "row_notify ?r" "row_notify ?p" "row_inboxId ?r = row_inboxId ?p"
    "row_chatId ?r = row_chatId ?p"
    "row_status ?r = StAcked \<and> row_status ?p \<noteq> StAcked \<or> row_status ?r = StDelivered \<and> row_status ?p = StPending" by code_simp+
  ultimately show ?thesis unfolding demo_inbox_def by (rule inbox_stays_in_order [OF refl])
qed


section \<open>Silent context\<close>




lemma by_id_sorted:
  assumes "distinct (map row_id xs)"
  shows "sorted_wrt (<) (map row_id (by_id xs))"
  using assms by (simp add: by_id_def strict_sorted_iff distinct_map)






section \<open>Redelivery\<close>

lemma build_ids: "build_deliveries supported d version ctx rows = Inr fs \<Longrightarrow> map fr_id fs = map row_id rows"
  by (induction rows arbitrary: fs) (auto split: option.splits sum.splits)

lemma bundle_ids: "bundleDeliveryWithSilentContext busy supported d inboxId claimed = Inr fs \<Longrightarrow> map fr_id fs = map row_id (by_id claimed)"
  by (auto simp: bundleDeliveryWithSilentContext_def by_id_def Let_def split: if_splits sum.splits dest: build_ids)

lemma sorted_ids:
  assumes "distinct (map row_id xs)" and "distinct (map row_id ys)" and "row_id ` set xs = row_id ` set ys"
  shows "map row_id (by_id xs) = map row_id (by_id ys)"
  using assms by (intro sorted_distinct_set_unique) (simp_all add: by_id_def distinct_map)

lemma mark_delivered_rows: "db_rows (mark_delivered now ids d) =
    map (\<lambda>r. if row_id r \<in> set ids then r\<lparr>row_status := StDelivered, row_deliveredAt := Some now\<rparr> else r) (db_rows d)"
  by (simp add: mark_delivered_def)

lemma claim_ids:
  assumes "table_wf d" and "claim_rows busy supported now inboxId ids d = (Inr fs, d')" and "set ids \<subseteq> row_id ` set (db_rows d)"
  shows "map fr_id fs = map row_id (by_id (filter (\<lambda>r. row_id r \<in> set ids) (db_rows d)))" and "d' = mark_delivered now ids d"
proof -
  from assms(2) have b: "bundleDeliveryWithSilentContext busy supported d' inboxId (filter (\<lambda>r. row_id r \<in> set ids) (db_rows d')) = Inr fs"
    and d': "d' = mark_delivered now ids d" by (auto simp: claim_rows_def Let_def split: sum.splits)
  show "d' = mark_delivered now ids d" by fact
  let ?f = "\<lambda>r. if row_id r \<in> set ids then r\<lparr>row_status := StDelivered, row_deliveredAt := Some now\<rparr> else r"
  have id: "row_id (?f r) = row_id r" for r by simp
  have "map row_id (filter (\<lambda>r. row_id r \<in> set ids) (db_rows d')) = map row_id (filter (\<lambda>r. row_id r \<in> set ids) (db_rows d))"
    by (simp add: d' mark_delivered_def filter_map comp_def id)
  then show "map fr_id fs = map row_id (by_id (filter (\<lambda>r. row_id r \<in> set ids) (db_rows d)))"
    using bundle_ids [OF b] table_wfD(1) [OF assms(1)]
    by (metis (no_types, lifting) distinct_map_filter list.set_map sorted_ids)
qed

text \<open>
  C15. After a chat was recovered, the next claim of the chat that succeeds hands out what is owed in it, the
  oldest deliveries first, up to the limit of the claim and past the rows that another transaction has
  locked, each delivery once and in order; so everything that is owed when it fits the limit and nothing is
  locked. Everything that was owed still is.
\<close>

theorem recovery_redelivers:
  assumes "d = inbox_run (new_inbox owners versions) es" and "recoverUnackedForScope inboxId (Some c) d = (ids, d1)"
    and "pollInboxInner busy supported now inboxId limit (Some c) d1 = (Inr fs, d2)"
  shows "map fr_id fs = take limit (map row_id (by_id
       (filter (\<lambda>r. in_scope inboxId (Some c) r \<and> row_status r \<noteq> StAcked \<and> \<not> busy (row_id r)) (db_rows d)))) \<and>
    countUnackedForScope inboxId (Some c) d2 = countUnackedForScope inboxId (Some c) d"
proof -
  have wf: "table_wf d" unfolding assms(1) by (rule run_wf [OF new_inbox_wf])
  let ?owed = "\<lambda>r. in_scope inboxId (Some c) r \<and> row_status r \<noteq> StAcked"
  let ?free = "\<lambda>r. in_scope inboxId (Some c) r \<and> row_status r \<noteq> StAcked \<and> \<not> busy (row_id r)"
  let ?P = "\<lambda>r. claimable inboxId r \<and> row_chatId r = Some c"
  let ?Pf = "\<lambda>r. claimable inboxId r \<and> row_chatId r = Some c \<and> \<not> busy (row_id r)"
  let ?g = "\<lambda>r. if in_scope inboxId (Some c) r \<and> row_status r = StDelivered then r\<lparr>row_status := StPending\<rparr> else r"
  have wf1: "table_wf d1" using step_wf [OF wf, of "EvRecover inboxId (Some c)"] assms(2) by simp
  have d1: "db_rows d1 = map ?g (db_rows d)" using assms(2) by (auto simp: recoverUnackedForScope_def reset_rows_def)
  have g: "row_id (?g r) = row_id r" "?owed (?g r) = ?owed r" "?P (?g r) = ?owed r" "?Pf (?g r) = ?free r" for r
    by (cases "row_status r"; auto simp: in_scope_def claimable_def)+
  have ids1: "map row_id (filter ?Pf (db_rows d1)) = map row_id (filter ?free (db_rows d))"
  proof -
    have "filter ?Pf (db_rows d1) = map ?g (filter ?free (db_rows d))" by (simp only: d1 filter_map comp_def g(4))
    then show ?thesis by (simp add: comp_def g(1))
  qed
  let ?L = "map row_id (by_id (filter ?Pf (db_rows d1)))"
  have L: "?L = map row_id (by_id (filter ?free (db_rows d)))"
  proof (rule sorted_ids)
    show "row_id ` set (filter ?Pf (db_rows d1)) = row_id ` set (filter ?free (db_rows d))"
      using arg_cong [OF ids1, of set] by (simp only: set_map)
  qed (use table_wfD(1) [OF wf] ids1 in \<open>simp_all add: distinct_map_filter\<close>)
  let ?ids = "poll_ids busy inboxId limit (Some c) d1"
  have ids: "?ids = take limit ?L" by (simp add: poll_ids_def conj_ac)
  have "set ?ids \<subseteq> set ?L" unfolding ids by (rule set_take_subset)
  moreover have setL: "set ?L = row_id ` set (filter ?Pf (db_rows d1))" by (simp add: by_id_def)
  ultimately have sub: "set ?ids \<subseteq> row_id ` set (db_rows d1)" and sub': "set ?ids \<subseteq> row_id ` set (filter ?Pf (db_rows d1))" by auto
  have claim: "claim_rows busy supported now inboxId ?ids d1 = (Inr fs, d2)" using assms(3) by (simp add: pollInboxInner_def)
  note out = claim_ids [OF wf1 claim sub]
  have "sorted_wrt (<) ?L" using table_wfD(1) [OF wf1] by (intro by_id_sorted) (simp add: distinct_map_filter)
  then have "sorted ?ids" "distinct ?ids" unfolding ids by (simp_all add: strict_sorted_iff sorted_wrt_take distinct_take)
  moreover have "set (map row_id (by_id (filter (\<lambda>r. row_id r \<in> set ?ids) (db_rows d1)))) = set ?ids"
    using sub by (auto simp: by_id_def)
  moreover have "sorted_wrt (<) (map row_id (by_id (filter (\<lambda>r. row_id r \<in> set ?ids) (db_rows d1))))"
    using table_wfD(1) [OF wf1] by (intro by_id_sorted) (simp add: distinct_map_filter)
  ultimately have "map row_id (by_id (filter (\<lambda>r. row_id r \<in> set ?ids) (db_rows d1))) = ?ids"
    by (intro sorted_distinct_set_unique) (simp_all only: strict_sorted_iff)
  with out(1) ids L have redelivered: "map fr_id fs = take limit (map row_id (by_id (filter ?free (db_rows d))))" by simp
  let ?m = "\<lambda>r. if row_id r \<in> set ?ids then r\<lparr>row_status := StDelivered, row_deliveredAt := Some now\<rparr> else r"
  have "?owed (?m (?g r)) = ?owed r" if "r \<in> set (db_rows d)" for r
  proof (cases "row_id (?g r) \<in> set ?ids")
    case True
    then obtain y where y: "y \<in> set (db_rows d1)" "?P y" "row_id y = row_id (?g r)" using sub' by auto
    have "?g r \<in> set (db_rows d1)" using that d1 by simp
    with row_unique [OF wf1 y(1)] y have "?P (?g r)" by simp
    then have "?owed r" using g(3) by simp
    with True show ?thesis using g(2) [of r] by (simp add: in_scope_def)
  qed (use g(2) [of r] in simp)
  then have same: "length (filter ?owed (map ?m (map ?g (db_rows d)))) = length (filter ?owed (db_rows d))"
    by (simp only: filter_map length_map comp_def cong: filter_cong)
  have "db_rows d2 = map ?m (map ?g (db_rows d))" by (simp only: out(2) d1 mark_delivered_rows)
  then have "countUnackedForScope inboxId (Some c) d2 = countUnackedForScope inboxId (Some c) d"
    by (simp only: countUnackedForScope_def same)
  with redelivered show ?thesis by blast
qed

theorem recovery_redelivers_witness:
  "\<exists>fs d2. pollInboxInner (\<lambda>i. False) True 20 ''ib'' 5 (Some ''c'')
      (snd (recoverUnackedForScope ''ib'' (Some ''c'') (inbox_run demo_inbox (demo_events @ [demo_poll 9, EvAck 9 1 [''ib''] [1, 3, 4]])))) = (Inr fs, d2) \<and>
    map fr_id fs = [3, 4] \<and> countUnackedForScope ''ib'' (Some ''c'') d2 = 2"
proof -
  let ?d = "inbox_run (new_inbox [(''ib'', ''b'')] []) (demo_events @ [demo_poll 9, EvAck 9 1 [''ib''] [1, 3, 4]])"
  obtain ids d1 where r: "recoverUnackedForScope ''ib'' (Some ''c'') ?d = (ids, d1)" by (metis surj_pair)
  obtain res d2 where p: "pollInboxInner (\<lambda>i. False) True 20 ''ib'' 5 (Some ''c'') d1 = (res, d2)" by (metis surj_pair)
  have "\<not> isl (fst (pollInboxInner (\<lambda>i. False) True 20 ''ib'' 5 (Some ''c'') (snd (recoverUnackedForScope ''ib'' (Some ''c'') ?d))))"
    by code_simp
  then obtain fs where p: "pollInboxInner (\<lambda>i. False) True 20 ''ib'' 5 (Some ''c'') d1 = (Inr fs, d2)"
    using p by (cases res) (simp_all add: r)
  have c: "countUnackedForScope ''ib'' (Some ''c'') ?d = 2"
    "map row_id (by_id (filter (\<lambda>r. in_scope ''ib'' (Some ''c'') r \<and> row_status r \<noteq> StAcked) (db_rows ?d))) = [3, 4]" by code_simp+
  from recovery_redelivers [OF refl r p] p r c show ?thesis by (simp add: demo_inbox_def)
qed

end
