(* ===== verification/SocketLemmas.thy ===== *)
theory SocketLemmas
  imports SocketDelivery TableOrder Reachability
begin

text \<open>
  Lemmas about a socket: its in-flight set is sound through every operation, never grows past its caps,
  and holds nothing that was not sent.
\<close>

section \<open>The in-flight set\<close>

definition bucket_of :: "socket_state \<Rightarrow> string \<Rightarrow> string \<Rightarrow> int list" where
  "bucket_of s a k =
     (case js_get (sk_inFlightByAgent s) a of None \<Rightarrow> [] | Some m \<Rightarrow> (case js_get m k of None \<Rightarrow> [] | Some b \<Rightarrow> ib_entryIds b))"

definition by_chat :: "socket_state \<Rightarrow> string \<Rightarrow> (string, InboxInFlightChatBucket) jsmap" where
  "by_chat s a = (case js_get (sk_inFlightByAgent s) a of None \<Rightarrow> [] | Some m \<Rightarrow> m)"

definition held :: "(string, InboxInFlightChatBucket) jsmap \<Rightarrow> nat" where
  "held m = sum_list (map (\<lambda>(k, b). length (ib_entryIds b)) m)"

lemma count_held: "inboxInFlightCount s a = held (by_chat s a)"
  by (simp add: inboxInFlightCount_def by_chat_def held_def split: option.split)

lemma count_chat: "inboxInFlightCountForChat s a c = length (bucket_of s a (inboxChatKey c))"
  by (simp add: inboxInFlightCountForChat_def bucket_of_def split: option.split)

lemma bucket_by_chat: "bucket_of s a k = (case js_get (by_chat s a) k of None \<Rightarrow> [] | Some b \<Rightarrow> ib_entryIds b)"
  by (simp add: bucket_of_def by_chat_def split: option.split)

lemma chat_key_inj [simp]: "inboxChatKey c = inboxChatKey c' \<longleftrightarrow> c = c'"
  by (auto simp: inboxChatKey_def split: option.split)

lemma set_remove_Nil [simp]: "set_remove [] i = []"
  by (simp add: set_remove_def)

lemma held_set:
  "distinct (map fst m) \<Longrightarrow>
   held (js_set m k b) + (case js_get m k of None \<Rightarrow> 0 | Some b' \<Rightarrow> length (ib_entryIds b')) = held m + length (ib_entryIds b)"
  by (induction m) (auto simp: held_def)

lemma held_delete:
  "distinct (map fst m) \<Longrightarrow>
   held (js_delete m k) + (case js_get m k of None \<Rightarrow> 0 | Some b' \<Rightarrow> length (ib_entryIds b')) = held m"
proof (induction m)
  case (Cons x m)
  show ?case
  proof (cases "fst x = k")
    case True
    with Cons.prems have "js_delete m k = m" by (auto intro: delete_idem)
    with True show ?thesis by (simp add: held_def split_beta)
  next
    case False
    with Cons show ?thesis by (simp add: held_def split_beta)
  qed
qed (simp add: held_def)

definition in_flight_wf :: "socket_state \<Rightarrow> bool" where
  "in_flight_wf s \<longleftrightarrow> distinct (map fst (sk_inFlightByAgent s)) \<and>
     (\<forall>a. distinct (map fst (by_chat s a)) \<and> (\<forall>(k, b) \<in> set (by_chat s a). k = inboxChatKey (ib_chatId b) \<and> distinct (ib_entryIds b))) \<and>
     (\<forall>a k i. i \<in> set (bucket_of s a k) \<longleftrightarrow> js_get (sk_owners s) i = Some \<lparr>io_agentId = a, io_chatKey = k\<rparr>)"

lemma in_flight_wfI:
  assumes "distinct (map fst (sk_inFlightByAgent s))" and "\<And>a. distinct (map fst (by_chat s a))"
    and "\<And>a k b. (k, b) \<in> set (by_chat s a) \<Longrightarrow> k = inboxChatKey (ib_chatId b) \<and> distinct (ib_entryIds b)"
    and "\<And>a k i. i \<in> set (bucket_of s a k) \<longleftrightarrow> js_get (sk_owners s) i = Some \<lparr>io_agentId = a, io_chatKey = k\<rparr>"
  shows "in_flight_wf s"
  unfolding in_flight_wf_def using assms by blast

lemma in_flight_wfD:
  assumes "in_flight_wf s"
  shows "distinct (map fst (by_chat s a))" and "js_get (by_chat s a) k = Some b \<Longrightarrow> k = inboxChatKey (ib_chatId b) \<and> distinct (ib_entryIds b)"
    and "i \<in> set (bucket_of s a k) \<longleftrightarrow> js_get (sk_owners s) i = Some \<lparr>io_agentId = a, io_chatKey = k\<rparr>"
    and "distinct (bucket_of s a k)"
proof -
  show "distinct (map fst (by_chat s a))" using assms by (simp add: in_flight_wf_def)
  show b: "k = inboxChatKey (ib_chatId b) \<and> distinct (ib_entryIds b)" if "js_get (by_chat s a) k = Some b" for b k
    using assms map_of_SomeD [OF that] unfolding in_flight_wf_def by blast
  show "i \<in> set (bucket_of s a k) \<longleftrightarrow> js_get (sk_owners s) i = Some \<lparr>io_agentId = a, io_chatKey = k\<rparr>"
    using assms unfolding in_flight_wf_def by blast
  show "distinct (bucket_of s a k)" using b by (auto simp: bucket_by_chat split: option.split)
qed

text \<open>Removing an entry, seen from outside.\<close>

definition without :: "(string, InboxInFlightChatBucket) jsmap \<Rightarrow> string \<Rightarrow> int \<Rightarrow> (string, InboxInFlightChatBucket) jsmap" where
  "without m k i =
     (case js_get m k of
        None \<Rightarrow> m
      | Some b \<Rightarrow>
          if set_remove (ib_entryIds b) i = [] then js_delete m k
          else js_set m k (b\<lparr>ib_entryIds := set_remove (ib_entryIds b) i\<rparr>))"

lemma remove_one_parts:
  "js_get (sk_owners s) i = Some ow \<Longrightarrow> by_chat (remove_one i s) a = (if a = io_agentId ow then without (by_chat s a) (io_chatKey ow) i else by_chat s a)"
  "js_get (sk_owners s) i = None \<Longrightarrow> remove_one i s = s"
  "js_get (sk_owners (remove_one i s)) j = (if j = i then None else js_get (sk_owners s) j)"
  "distinct (map fst (sk_inFlightByAgent s)) \<Longrightarrow> distinct (map fst (sk_inFlightByAgent (remove_one i s)))"
  by (auto simp: remove_one_def by_chat_def without_def Let_def split: option.split intro!: distinct_keys_set distinct_keys_delete)

lemma remove_one_same [simp]:
  "sk_open (remove_one i s) = sk_open s" "sk_boundAgents (remove_one i s) = sk_boundAgents s"
  "sk_recoverProgress (remove_one i s) = sk_recoverProgress s" "sk_job (remove_one i s) = sk_job s"
  "sk_maxInFlightPerAgent (remove_one i s) = sk_maxInFlightPerAgent s"
  "sk_maxInFlightPerAgentChat (remove_one i s) = sk_maxInFlightPerAgentChat s"
  by (simp_all add: remove_one_def Let_def split: option.split)

lemma without_facts:
  assumes "distinct (map fst m)"
  shows "distinct (map fst (without m k i))" and "held (without m k i) \<le> held m"
    and "js_get (without m k i) k' = (if k' = k then (case js_get m k of None \<Rightarrow> None | Some b \<Rightarrow>
       if set_remove (ib_entryIds b) i = [] then None else Some (b\<lparr>ib_entryIds := set_remove (ib_entryIds b) i\<rparr>)) else js_get m k')"
proof -
  show "distinct (map fst (without m k i))" using assms
    by (auto simp: without_def split: option.split intro!: distinct_keys_set distinct_keys_delete)
  show "held (without m k i) \<le> held m"
  proof (cases "js_get m k")
    case (Some b)
    have "length (set_remove (ib_entryIds b) i) \<le> length (ib_entryIds b)" by (simp add: set_remove_def)
    with Some held_set [OF assms, of k "b\<lparr>ib_entryIds := set_remove (ib_entryIds b) i\<rparr>"] held_delete [OF assms, of k]
    show ?thesis by (auto simp: without_def)
  qed (simp add: without_def)
qed (auto simp: without_def split: option.split)

lemma remove_one_effect:
  assumes wf: "in_flight_wf s"
  shows "in_flight_wf (remove_one i s)" (is ?wf) and "bucket_of (remove_one i s) a k = set_remove (bucket_of s a k) i" (is "?b a k")
    and "inboxInFlightCount (remove_one i s) a \<le> inboxInFlightCount s a" (is "?c")
proof -
  note wfs = in_flight_wfD [OF wf]
  have "?wf \<and> (\<forall>a k. ?b a k) \<and> ?c"
  proof (cases "js_get (sk_owners s) i")
    case None
    with wfs(3) have "i \<notin> set (bucket_of s a k)" for a k by simp
    then have "set_remove (bucket_of s a k) i = bucket_of s a k" for a k by (auto simp: set_remove_def filter_id_conv)
    with None wf show ?thesis by (simp add: remove_one_parts)
  next
    case (Some ow)
    note parts = remove_one_parts(1) [OF Some]
    have other: "set_remove (bucket_of s a k) i = bucket_of s a k" if "ow \<noteq> \<lparr>io_agentId = a, io_chatKey = k\<rparr>" for a k
      using that wfs(3) [of i a k] Some by (auto simp: set_remove_def filter_id_conv)
    have b: "?b a k" for a k
      using other [of a k] unfolding bucket_by_chat parts
      by (cases ow) (auto simp: without_facts(3) [OF wfs(1)] bucket_by_chat split: option.split)
    have c: "?c" unfolding count_held parts by (simp add: without_facts(2) [OF wfs(1)])
    have "k = inboxChatKey (ib_chatId b) \<and> distinct (ib_entryIds b)" if "(k, b) \<in> set (by_chat (remove_one i s) a)" for a k b
    proof -
      have d: "distinct (map fst (by_chat (remove_one i s) a))" using wfs(1) by (simp add: parts without_facts(1))
      have "js_get (by_chat (remove_one i s) a) k = Some b" using that d by simp
      then obtain b' where b': "js_get (by_chat s a) k = Some b'" "ib_chatId b = ib_chatId b'"
          "ib_entryIds b = ib_entryIds b' \<or> ib_entryIds b = set_remove (ib_entryIds b') i"
        by (auto simp: parts without_facts(3) [OF wfs(1)] split: if_splits option.splits)
      with wfs(2) [OF b'(1)] show ?thesis by (auto intro: distinct_set_remove)
    qed
    moreover have "distinct (map fst (by_chat (remove_one i s) a))" for a using wfs(1) by (simp add: parts without_facts(1))
    moreover have "distinct (map fst (sk_inFlightByAgent (remove_one i s)))"
      using wf by (intro remove_one_parts(4)) (simp add: in_flight_wf_def)
    moreover have "j \<in> set (bucket_of (remove_one i s) a k) \<longleftrightarrow>
        js_get (sk_owners (remove_one i s)) j = Some \<lparr>io_agentId = a, io_chatKey = k\<rparr>" for j a k
      using wfs(3) by (simp add: b remove_one_parts(3))
    ultimately have ?wf by (intro in_flight_wfI)
    with b c show ?thesis by blast
  qed
  then show ?wf "?b a k" ?c by blast+
qed

lemma remove_same [simp]:
  "sk_open (removeInboxInFlight ids s) = sk_open s" "sk_boundAgents (removeInboxInFlight ids s) = sk_boundAgents s"
  "sk_recoverProgress (removeInboxInFlight ids s) = sk_recoverProgress s" "sk_job (removeInboxInFlight ids s) = sk_job s"
  "sk_maxInFlightPerAgent (removeInboxInFlight ids s) = sk_maxInFlightPerAgent s"
  "sk_maxInFlightPerAgentChat (removeInboxInFlight ids s) = sk_maxInFlightPerAgentChat s"
  unfolding removeInboxInFlight_def by (induction ids arbitrary: s) simp_all

lemma remove_effect:
  assumes "in_flight_wf s"
  shows "in_flight_wf (removeInboxInFlight ids s)" and "bucket_of (removeInboxInFlight ids s) a k = filter (\<lambda>i. i \<notin> set ids) (bucket_of s a k)"
    and "inboxInFlightCount (removeInboxInFlight ids s) a \<le> inboxInFlightCount s a"
    and "js_get (sk_owners (removeInboxInFlight ids s)) j = (if j \<in> set ids then None else js_get (sk_owners s) j)"
proof -
  have "in_flight_wf (removeInboxInFlight ids s) \<and> bucket_of (removeInboxInFlight ids s) a k = filter (\<lambda>i. i \<notin> set ids) (bucket_of s a k) \<and>
    inboxInFlightCount (removeInboxInFlight ids s) a \<le> inboxInFlightCount s a \<and>
    js_get (sk_owners (removeInboxInFlight ids s)) j = (if j \<in> set ids then None else js_get (sk_owners s) j)"
    using assms unfolding removeInboxInFlight_def
  proof (induction ids arbitrary: s)
    case (Cons i ids)
    note one = remove_one_effect [OF Cons.prems, of i]
    from Cons.IH [OF one(1)] one(2) one(3) [of a] show ?case by (auto simp: remove_one_parts(3) set_remove_def conj_commute)
  qed simp
  then show "in_flight_wf (removeInboxInFlight ids s)" "bucket_of (removeInboxInFlight ids s) a k = filter (\<lambda>i. i \<notin> set ids) (bucket_of s a k)"
    "inboxInFlightCount (removeInboxInFlight ids s) a \<le> inboxInFlightCount s a"
    "js_get (sk_owners (removeInboxInFlight ids s)) j = (if j \<in> set ids then None else js_get (sk_owners s) j)" by blast+
qed

lemma add_same [simp]:
  "sk_open (addInboxInFlight a c i s) = sk_open s" "sk_boundAgents (addInboxInFlight a c i s) = sk_boundAgents s"
  "sk_recoverProgress (addInboxInFlight a c i s) = sk_recoverProgress s" "sk_job (addInboxInFlight a c i s) = sk_job s"
  "sk_maxInFlightPerAgent (addInboxInFlight a c i s) = sk_maxInFlightPerAgent s"
  "sk_maxInFlightPerAgentChat (addInboxInFlight a c i s) = sk_maxInFlightPerAgentChat s"
  by (simp_all add: addInboxInFlight_def Let_def)

text \<open>Adding an entry, seen from outside.\<close>

lemma add_effect:
  assumes wf: "in_flight_wf s"
  shows "in_flight_wf (addInboxInFlight a c i s)"
    and "bucket_of (addInboxInFlight a c i s) a' k = filter (\<lambda>j. j \<noteq> i) (bucket_of s a' k) @ (if a' = a \<and> k = inboxChatKey c then [i] else [])"
    and "inboxInFlightCount (addInboxInFlight a c i s) a' \<le> inboxInFlightCount s a' + (if a' = a then 1 else 0)"
    and "js_get (sk_owners (addInboxInFlight a c i s)) j = (if j = i then Some \<lparr>io_agentId = a, io_chatKey = inboxChatKey c\<rparr> else js_get (sk_owners s) j)"
proof -
  define s0 where "s0 = removeInboxInFlight [i] s"
  note eff = remove_effect [OF wf, of "[i]", folded s0_def]
  note wfs = in_flight_wfD [OF eff(1)]
  let ?b = "case js_get (by_chat s0 a) (inboxChatKey c) of Some b \<Rightarrow> b | None \<Rightarrow> \<lparr>ib_chatId = c, ib_entryIds = []\<rparr>"
  let ?b' = "?b\<lparr>ib_entryIds := set_add (ib_entryIds ?b) i\<rparr>"
  have s': "addInboxInFlight a c i s = s0\<lparr>sk_inFlightByAgent := js_set (sk_inFlightByAgent s0) a (js_set (by_chat s0 a) (inboxChatKey c) ?b'),
      sk_owners := js_set (sk_owners s0) i \<lparr>io_agentId = a, io_chatKey = inboxChatKey c\<rparr>\<rparr>"
    by (simp add: addInboxInFlight_def s0_def by_chat_def Let_def cong: option.case_cong)
  have parts: "by_chat (addInboxInFlight a c i s) a' = (if a' = a then js_set (by_chat s0 a) (inboxChatKey c) ?b' else by_chat s0 a')" for a'
    by (simp add: s' by_chat_def)
  have out: "i \<notin> set (bucket_of s0 a' k)" for a' k using eff(2) by simp
  have old: "ib_entryIds ?b = bucket_of s0 a (inboxChatKey c)" by (simp add: bucket_by_chat split: option.split)
  have new: "ib_entryIds ?b' = bucket_of s0 a (inboxChatKey c) @ [i]" using out old by (simp add: set_add_def)
  have bucket: "bucket_of (addInboxInFlight a c i s) a' k = bucket_of s0 a' k @ (if a' = a \<and> k = inboxChatKey c then [i] else [])" for a' k
    unfolding bucket_by_chat [of "addInboxInFlight a c i s"] parts using new by (simp add: bucket_by_chat)
  then show "bucket_of (addInboxInFlight a c i s) a' k = filter (\<lambda>j. j \<noteq> i) (bucket_of s a' k) @ (if a' = a \<and> k = inboxChatKey c then [i] else [])"
    by (simp add: eff(2))
  show own: "js_get (sk_owners (addInboxInFlight a c i s)) j = (if j = i then Some \<lparr>io_agentId = a, io_chatKey = inboxChatKey c\<rparr> else js_get (sk_owners s) j)" for j
    using eff(4) [of j] by (simp add: s')
  have "held (js_set (by_chat s0 a) (inboxChatKey c) ?b') + length (bucket_of s0 a (inboxChatKey c)) = held (by_chat s0 a) + length (ib_entryIds ?b')"
    using held_set [OF wfs(1) [of a], of "inboxChatKey c" ?b'] unfolding bucket_by_chat
    by (cases "js_get (by_chat s0 a) (inboxChatKey c)") simp_all
  then have "held (js_set (by_chat s0 a) (inboxChatKey c) ?b') = held (by_chat s0 a) + 1" by (simp only: new length_append) simp
  with eff(3) [of a'] show "inboxInFlightCount (addInboxInFlight a c i s) a' \<le> inboxInFlightCount s a' + (if a' = a then 1 else 0)"
    unfolding count_held parts by auto
  have d: "distinct (map fst (by_chat (addInboxInFlight a c i s) a'))" for a' using wfs(1) by (simp add: parts distinct_keys_set)
  have "k = inboxChatKey (ib_chatId b) \<and> distinct (ib_entryIds b)" if "(k, b) \<in> set (by_chat (addInboxInFlight a c i s) a')" for a' k b
  proof -
    have g: "js_get (by_chat (addInboxInFlight a c i s) a') k = Some b" using that d by simp
    have "inboxChatKey (ib_chatId ?b) = inboxChatKey c" using wfs(2) [where a = a and k = "inboxChatKey c"] by (auto split: option.split)
    moreover have "distinct (ib_entryIds ?b')" using wfs(4) out unfolding new by simp
    ultimately show ?thesis using g wfs(2) [where a = a' and k = k] by (auto simp: parts split: if_splits)
  qed
  moreover have "j \<in> set (bucket_of (addInboxInFlight a c i s) a' k) \<longleftrightarrow>
      js_get (sk_owners (addInboxInFlight a c i s)) j = Some \<lparr>io_agentId = a', io_chatKey = k\<rparr>" for a' k j
    using wfs(3) [of j a' k] out [of a' k] eff(4) [of j] by (auto simp: bucket own)
  moreover have "distinct (map fst (sk_inFlightByAgent (addInboxInFlight a c i s)))"
    using eff(1) by (simp add: s' in_flight_wf_def distinct_keys_set)
  ultimately show "in_flight_wf (addInboxInFlight a c i s)" using d by (intro in_flight_wfI)
qed


section \<open>What only shrinks\<close>

definition shrinks :: "socket_state \<Rightarrow> socket_state \<Rightarrow> bool" where
  "shrinks s s' \<longleftrightarrow> (in_flight_wf s \<longrightarrow> in_flight_wf s' \<and>
     (\<forall>a k. set (bucket_of s' a k) \<subseteq> set (bucket_of s a k)) \<and> (\<forall>a. inboxInFlightCount s' a \<le> inboxInFlightCount s a)) \<and>
     sk_maxInFlightPerAgent s' = sk_maxInFlightPerAgent s \<and> sk_maxInFlightPerAgentChat s' = sk_maxInFlightPerAgentChat s \<and>
     (sk_job s' = sk_job s \<or> (\<exists>a i t. sk_job s' = JDrain a i t))"

lemma shrinks_refl [simp]: "shrinks s s"
  by (simp add: shrinks_def)

lemma shrinks_trans [trans]: "shrinks s s' \<Longrightarrow> shrinks s' s'' \<Longrightarrow> shrinks s s''"
  by (simp add: shrinks_def) (metis order_trans)

lemma same_in_flight:
  assumes "sk_inFlightByAgent s' = sk_inFlightByAgent s" and "sk_owners s' = sk_owners s"
  shows "bucket_of s' = bucket_of s" and "inboxInFlightCount s' = inboxInFlightCount s" and "in_flight_wf s' = in_flight_wf s"
    and "by_chat s' = by_chat s"
proof -
  show b: "bucket_of s' = bucket_of s" "inboxInFlightCount s' = inboxInFlightCount s" "by_chat s' = by_chat s"
    using assms by (intro ext; simp add: bucket_of_def inboxInFlightCount_def by_chat_def)+
  then show "in_flight_wf s' = in_flight_wf s" using assms by (simp add: in_flight_wf_def)
qed

lemma shrinks_same:
  assumes "sk_inFlightByAgent s' = sk_inFlightByAgent s" and "sk_owners s' = sk_owners s"
    and "sk_maxInFlightPerAgent s' = sk_maxInFlightPerAgent s" and "sk_maxInFlightPerAgentChat s' = sk_maxInFlightPerAgentChat s"
    and "sk_job s' = sk_job s \<or> (\<exists>a i t. sk_job s' = JDrain a i t)"
  shows "shrinks s s'"
  using same_in_flight [OF assms(1,2)] assms(3-5) by (simp add: shrinks_def)

lemma update_in_flight [simp]:
  "bucket_of (s\<lparr>sk_job := j\<rparr>) = bucket_of s" "inboxInFlightCount (s\<lparr>sk_job := j\<rparr>) = inboxInFlightCount s"
  "in_flight_wf (s\<lparr>sk_job := j\<rparr>) = in_flight_wf s" "by_chat (s\<lparr>sk_job := j\<rparr>) = by_chat s"
  by (rule same_in_flight; simp)+

lemma remove_shrinks: "shrinks s (removeInboxInFlight ids s)"
  by (auto simp: shrinks_def remove_effect)

lemma owners_deleted: "js_get (foldl (\<lambda>m k. js_delete m k) m ks) j = (if j \<in> set ks then None else js_get m j)"
  by (induction ks arbitrary: m) auto

lemma clear_effect:
  assumes wf: "in_flight_wf s"
  shows "in_flight_wf (clearInboxInFlightForAgent a s)"
    and "bucket_of (clearInboxInFlightForAgent a s) a' k = (if a' = a then [] else bucket_of s a' k)"
    and "inboxInFlightCount (clearInboxInFlightForAgent a s) a' = (if a' = a then 0 else inboxInFlightCount s a')"
proof -
  note wfs = in_flight_wfD [OF wf]
  have parts: "by_chat (clearInboxInFlightForAgent a s) a' = (if a' = a then [] else by_chat s a')" for a'
    by (auto simp: clearInboxInFlightForAgent_def by_chat_def split: option.split)
  then show "inboxInFlightCount (clearInboxInFlightForAgent a s) a' = (if a' = a then 0 else inboxInFlightCount s a')"
    by (simp add: count_held held_def)
  show b: "bucket_of (clearInboxInFlightForAgent a s) a' k = (if a' = a then [] else bucket_of s a' k)" for a' k
    by (simp add: bucket_by_chat parts)
  have ids: "j \<in> set (concat (map (ib_entryIds \<circ> snd) (by_chat s a))) \<longleftrightarrow> (\<exists>k. j \<in> set (bucket_of s a k))" for j
  proof -
    have "(k, b) \<in> set (by_chat s a) \<longleftrightarrow> js_get (by_chat s a) k = Some b" for k b using wfs(1) by simp
    moreover have "j \<in> set (bucket_of s a k) \<longleftrightarrow> (\<exists>b. js_get (by_chat s a) k = Some b \<and> j \<in> set (ib_entryIds b))" for k
      by (cases "js_get (by_chat s a) k") (simp_all add: bucket_by_chat)
    moreover have "j \<in> set (concat (map (ib_entryIds \<circ> snd) (by_chat s a))) \<longleftrightarrow>
        (\<exists>k b. (k, b) \<in> set (by_chat s a) \<and> j \<in> set (ib_entryIds b))" by force
    ultimately show ?thesis by simp
  qed
  have own: "js_get (sk_owners (clearInboxInFlightForAgent a s)) j = (if \<exists>k. j \<in> set (bucket_of s a k) then None else js_get (sk_owners s) j)" for j
  proof (cases "js_get (sk_inFlightByAgent s) a")
    case None
    then show ?thesis by (simp add: clearInboxInFlightForAgent_def bucket_of_def)
  next
    case (Some m)
    then have "by_chat s a = m" by (simp add: by_chat_def)
    with Some ids [of j] show ?thesis by (simp add: clearInboxInFlightForAgent_def owners_deleted)
  qed
  have "distinct (map fst (sk_inFlightByAgent (clearInboxInFlightForAgent a s)))"
    using wf by (auto simp: clearInboxInFlightForAgent_def in_flight_wf_def split: option.split intro: distinct_keys_delete)
  moreover have "distinct (map fst (by_chat (clearInboxInFlightForAgent a s) a'))" for a' using wfs(1) by (simp add: parts)
  moreover have "k = inboxChatKey (ib_chatId b) \<and> distinct (ib_entryIds b)" if "(k, b) \<in> set (by_chat (clearInboxInFlightForAgent a s) a')" for a' k b
    using that wfs(1) wfs(2) [where a = a' and k = k] by (auto simp: parts split: if_splits)
  moreover have "j \<in> set (bucket_of (clearInboxInFlightForAgent a s) a' k) \<longleftrightarrow>
      js_get (sk_owners (clearInboxInFlightForAgent a s)) j = Some \<lparr>io_agentId = a', io_chatKey = k\<rparr>" for a' k j
    using wfs(3) by (auto simp: b own)
  ultimately show "in_flight_wf (clearInboxInFlightForAgent a s)" by (intro in_flight_wfI)
qed

lemma clear_same [simp]:
  "sk_open (clearInboxInFlightForAgent a s) = sk_open s" "sk_boundAgents (clearInboxInFlightForAgent a s) = sk_boundAgents s"
  "sk_recoverProgress (clearInboxInFlightForAgent a s) = sk_recoverProgress s" "sk_job (clearInboxInFlightForAgent a s) = sk_job s"
  "sk_maxInFlightPerAgent (clearInboxInFlightForAgent a s) = sk_maxInFlightPerAgent s"
  "sk_maxInFlightPerAgentChat (clearInboxInFlightForAgent a s) = sk_maxInFlightPerAgentChat s"
  by (simp_all add: clearInboxInFlightForAgent_def split: option.split)

lemma clear_shrinks: "shrinks s (clearInboxInFlightForAgent a s)"
  by (simp add: shrinks_def clear_effect)

lemma progress_same [simp]:
  "sk_inFlightByAgent (clearInboxRecoverProgress a c s) = sk_inFlightByAgent s" "sk_owners (clearInboxRecoverProgress a c s) = sk_owners s"
  "sk_open (clearInboxRecoverProgress a c s) = sk_open s" "sk_boundAgents (clearInboxRecoverProgress a c s) = sk_boundAgents s"
  "sk_job (clearInboxRecoverProgress a c s) = sk_job s"
  "sk_maxInFlightPerAgent (clearInboxRecoverProgress a c s) = sk_maxInFlightPerAgent s"
  "sk_maxInFlightPerAgentChat (clearInboxRecoverProgress a c s) = sk_maxInFlightPerAgentChat s"
  by (simp_all add: clearInboxRecoverProgress_def split: option.split)

lemma progress_shrinks: "shrinks s (clearInboxRecoverProgress a c s)"
  by (rule shrinks_same) simp_all

lemma clearAgent_shrinks: "shrinks s (clearAgent a s)"
proof -
  have "shrinks s (s\<lparr>sk_lastRepair := js_delete (sk_lastRepair s) a\<rparr>)" by (rule shrinks_same) simp_all
  also note progress_shrinks [of _ a None]
  also note clear_shrinks [of _ a]
  finally show ?thesis by (simp add: clearAgent_def)
qed

lemma clearAfterUnbind_shrinks: "shrinks s (clearAfterUnbind a s)"
proof -
  have "shrinks s (s\<lparr>sk_lastRepair := js_delete (sk_lastRepair s) a\<rparr>)" by (rule shrinks_same) simp_all
  also note clear_shrinks [of _ a]
  finally show ?thesis by (simp add: clearAfterUnbind_def)
qed

lemma drop_shrinks: "shrinks s (dropLocalAgentBinding a s)"
proof -
  have "shrinks s (s\<lparr>sk_boundAgents := js_delete (sk_boundAgents s) a\<rparr>)" by (rule shrinks_same) simp_all
  also note clearAgent_shrinks [of _ a]
  finally show ?thesis by (simp add: dropLocalAgentBinding_def)
qed

lemma clearState_shrinks: "shrinks s (close_socket s)"
  by (simp add: shrinks_def close_socket_def clearState_def bucket_of_def inboxInFlightCount_def in_flight_wf_def by_chat_def)

lemma ensure_shrinks: "shrinks s (snd (ensureAgentStillRoutedHere answer a s))"
  by (simp add: ensureAgentStillRoutedHere_def drop_shrinks split: agent_route.split)

lemma routed_shrinks: "shrinks s (snd (routed_agents route as s))"
proof (induction route as s rule: routed_agents.induct)
  case (2 route a i as s)
  have "shrinks s (snd (ensureAgentStillRoutedHere (route a) a s))" by (rule ensure_shrinks)
  also have "shrinks \<dots> (snd (routed_agents route as (snd (ensureAgentStillRoutedHere (route a) a s))))"
    using "2.IH" by (metis prod.collapse)
  finally show ?case by (simp add: split_beta)
qed simp


lemma note_reset_shrinks: "shrinks s (snd (note_reset key ids s))"
proof -
  have "shrinks s (removeInboxInFlight ids s)" by (rule remove_shrinks)
  also have "shrinks (removeInboxInFlight ids s) (snd (note_reset key ids s))"
    by (rule shrinks_same) (simp_all add: note_reset_def Let_def)
  finally show ?thesis .
qed

lemma drain_shrinks: "shrinks s (s\<lparr>sk_job := JDrain a i t\<rparr>)"
  by (rule shrinks_same) simp_all

lemma unbind_shrinks: "shrinks s (snd (unbind_frame env a s))"
proof -
  let ?s = "snd (ensureAgentStillRoutedHere (oe_route env a) a s)"
  have "shrinks s ?s" by (rule ensure_shrinks)
  also have "shrinks ?s (?s\<lparr>sk_boundAgents := js_delete (sk_boundAgents ?s) a\<rparr>)" by (rule shrinks_same) simp_all
  also note clearAfterUnbind_shrinks [of _ a]
  finally show ?thesis by (simp add: unbind_frame_def Let_def split_beta)
qed

lemma ack_shrinks: "shrinks s (fst (snd (ack_frame env i ref s d)))"
proof -
  obtain routed s1 where r: "routed_agents (oe_route env) (sk_boundAgents s) s = (routed, s1)" by (metis surj_pair)
  have "shrinks s s1" using routed_shrinks [of s "oe_route env" "sk_boundAgents s"] r by simp
  also have "shrinks s1 (fst (snd (ack_frame env i ref s d)))"
  proof -
    have "shrinks s1 ((removeInboxInFlight ids (case c of Some c \<Rightarrow> clearInboxRecoverProgress a (Some c) s1 | None \<Rightarrow> s1))\<lparr>sk_job := JDrain a k TrAck\<rparr>)"
      for ids a k c
    proof -
      have "shrinks s1 (case c of Some c \<Rightarrow> clearInboxRecoverProgress a (Some c) s1 | None \<Rightarrow> s1)"
        by (simp add: progress_shrinks split: option.split)
      also note remove_shrinks [of _ ids]
      also note drain_shrinks [of _ a k TrAck]
      finally show ?thesis .
    qed
    note done_with = this [where c = None, simplified] this [where c = "Some c" for c, simplified]
    show ?thesis by (simp add: ack_frame_def r Let_def split_beta done_with split: ack_result.split option.split)
  qed
  finally show ?thesis .
qed

lemma recover_shrinks: "shrinks s (fst (snd (recover_frame env ref a c s d)))"
proof -
  obtain ok s1 where r: "ensureAgentStillRoutedHere (oe_route env a) a s = (ok, s1)" by (metis surj_pair)
  have one: "shrinks s s1" using ensure_shrinks [of s "oe_route env a" a] r by simp
  have "shrinks s (snd (note_reset (inboxRecoverProgressKey a c) ids s1))" for ids
    using shrinks_trans [OF one note_reset_shrinks] .
  moreover from shrinks_trans [OF this drain_shrinks]
  have "shrinks s ((snd (note_reset (inboxRecoverProgressKey a c) ids s1))\<lparr>sk_job := JDrain a i t\<rparr>)" for ids i t .
  ultimately show ?thesis using one
    by (auto simp: recover_frame_def r Let_def split_beta split: option.split bool.split)
qed

lemma probe_shrinks: "shrinks s (fst (snd (probe_frame env ref a c ms s d)))"
proof -
  obtain ok s1 where r: "ensureAgentStillRoutedHere (oe_route env a) a s = (ok, s1)" by (metis surj_pair)
  then have "shrinks s s1" using ensure_shrinks [of s "oe_route env a" a] by simp
  then show ?thesis by (simp add: probe_frame_def r Let_def split_beta split: option.split bool.split)
qed

text \<open>Every event but the running of a job.\<close>

lemma op_shrinks:
  assumes "\<And>env. e \<noteq> SoRun env"
  shows "shrinks s (fst (snd (socket_op e s d)))"
proof (cases e)
  case (SoBind a i)
  have "shrinks (clearInboxRecoverProgress a None s) (bind_accept a i s)" by (rule shrinks_same) (simp_all add: bind_accept_def)
  with progress_shrinks [of s a None] SoBind show ?thesis by (simp add: shrinks_trans)
next
  case (SoRepair now here a)
  have "shrinks s (snd (maybeRepairInboxBacklog now here a s))"
    by (simp add: maybeRepairInboxBacklog_def Let_def shrinks_same)
  with SoRepair show ?thesis by simp
next
  case SoClosing
  have "shrinks s (s\<lparr>sk_open := False\<rparr>)" by (rule shrinks_same) simp_all
  with SoClosing show ?thesis by simp
qed (use assms in \<open>simp_all add: ack_shrinks recover_shrinks probe_shrinks drain_shrinks unbind_shrinks ensure_shrinks clearState_shrinks bind_reset_def split_beta\<close>)


section \<open>Budgets\<close>

lemma budgets_get:
  assumes "distinct (map fst L)" and "\<And>k c n. (k, (c, n)) \<in> set L \<Longrightarrow> k = inboxChatKey c"
  shows "chat_budget perChat (map snd L) c = (case js_get L (inboxChatKey c) of Some (c', n) \<Rightarrow> nat n | None \<Rightarrow> perChat)"
proof -
  have d: "distinct (map fst (map snd L))"
  proof -
    have "map fst L = map (inboxChatKey \<circ> fst \<circ> snd) L" using assms(2) by (auto simp: map_eq_conv)
    with assms(1) have "distinct (map inboxChatKey (map fst (map snd L)))" by (simp add: comp_assoc)
    then show ?thesis by (auto simp: distinct_map intro: inj_on_imageI2)
  qed
  have "map_of (rev (map snd L)) c = Some n \<longleftrightarrow> js_get L (inboxChatKey c) = Some (c, n)" for n
  proof -
    have "map_of (rev (map snd L)) c = Some n \<longleftrightarrow> (c, n) \<in> set (map snd L)" using d by (simp add: rev_map [symmetric])
    also have "\<dots> \<longleftrightarrow> (inboxChatKey c, (c, n)) \<in> set L" using assms(2) by force
    finally show ?thesis using assms(1) by simp
  qed
  moreover have "c' = c" if "js_get L (inboxChatKey c) = Some (c', n)" for c' n
    using assms(2) [OF map_of_SomeD [OF that]] by simp
  ultimately show ?thesis unfolding chat_budget_def
    by (cases "js_get L (inboxChatKey c)"; cases "map_of (rev (map snd L)) c") fastforce+
qed

definition keyed :: "(string, string option \<times> int) jsmap \<Rightarrow> bool" where
  "keyed L \<longleftrightarrow> distinct (map fst L) \<and> (\<forall>k c n. (k, (c, n)) \<in> set L \<longrightarrow> k = inboxChatKey c)"

lemma keyed_set: "keyed L \<Longrightarrow> keyed (js_set L (inboxChatKey c) (c, n))"
proof -
  assume L: "keyed L"
  then have d: "distinct (map fst (js_set L (inboxChatKey c) (c, n)))" by (auto simp: keyed_def intro: distinct_keys_set)
  have "k = inboxChatKey c'" if "(k, (c', n')) \<in> set (js_set L (inboxChatKey c) (c, n))" for k c' n'
  proof -
    have "js_get (js_set L (inboxChatKey c) (c, n)) k = Some (c', n')" by (rule map_of_is_SomeI [OF d that])
    with L show ?thesis by (auto simp: keyed_def split: if_splits dest: map_of_SomeD)
  qed
  with d show "keyed (js_set L (inboxChatKey c) (c, n))" unfolding keyed_def by blast
qed

lemma bucket_budgets_facts:
  assumes "distinct (map fst m)" and "\<And>k b. (k, b) \<in> set m \<Longrightarrow> k = inboxChatKey (ib_chatId b)"
  shows "keyed (bucket_budgets cap m) \<and> js_get (bucket_budgets cap m) k =
    (case js_get m k of None \<Rightarrow> None | Some b \<Rightarrow> Some (ib_chatId b, max 0 (cap - int (length (ib_entryIds b)))))"
  using assms
proof (induction m rule: rev_induct)
  case Nil
  show ?case by (simp add: bucket_budgets_def keyed_def)
next
  case (snoc x m)
  obtain k' b' where x: "x = (k', b')" by fastforce
  with snoc.prems have k': "k' = inboxChatKey (ib_chatId b')" "js_get m k' = None" by (auto simp: map_of_eq_None_iff)
  have step: "bucket_budgets cap (m @ [x]) = js_set (bucket_budgets cap m) k' (ib_chatId b', max 0 (cap - int (length (ib_entryIds b'))))"
    by (simp add: bucket_budgets_def x k'(1))
  have "keyed (bucket_budgets cap m) \<and> js_get (bucket_budgets cap m) k =
      (case js_get m k of None \<Rightarrow> None | Some b \<Rightarrow> Some (ib_chatId b, max 0 (cap - int (length (ib_entryIds b)))))"
    using snoc by auto
  moreover from this have "keyed (js_set (bucket_budgets cap m) k' (ib_chatId b', max 0 (cap - int (length (ib_entryIds b')))))"
    unfolding k'(1) by (intro keyed_set) simp
  ultimately show ?case unfolding step using k'(2) by (auto simp: x map_add_def split: option.splits)
qed

definition circuit_open :: "socket_state \<Rightarrow> string \<Rightarrow> string \<Rightarrow> bool" where
  "circuit_open s a c \<longleftrightarrow> (\<exists>p. (inboxRecoverProgressKey a c, p) \<in> set (sk_recoverProgress s) \<and> rp_open p)"

lemma progress_key: "starts_with (a @ [CHR 0x00]) k \<and> drop (length (a @ [CHR 0x00])) k = c \<longleftrightarrow> k = inboxRecoverProgressKey a c"
  by (auto simp: inboxRecoverProgressKey_def starts_with_iff prefix_def)

lemma circuit_budgets_facts:
  assumes "keyed B"
  shows "keyed (circuit_budgets a prog B) \<and> js_get (circuit_budgets a prog B) (inboxChatKey chat) =
    (case chat of
       Some c \<Rightarrow> if \<exists>p. (inboxRecoverProgressKey a c, p) \<in> set prog \<and> rp_open p then Some (Some c, 0) else js_get B (inboxChatKey chat)
     | None \<Rightarrow> js_get B (inboxChatKey chat))"
proof (induction prog rule: rev_induct)
  case Nil
  with assms show ?case by (simp add: circuit_budgets_def split: option.split)
next
  case (snoc x prog)
  obtain k p where x: "x = (k, p)" by fastforce
  show ?case
  proof (cases "rp_open p \<and> starts_with (a @ [CHR 0x00]) k")
    case True
    define c where "c = drop (length (a @ [CHR 0x00])) k"
    have k: "k = inboxRecoverProgressKey a c" using True progress_key unfolding c_def by blast
    have step: "circuit_budgets a (prog @ [x]) B = js_set (circuit_budgets a prog B) (inboxChatKey (Some c)) (Some c, 0)"
      using True by (simp add: circuit_budgets_def x Let_def c_def)
    have other: "inboxRecoverProgressKey a c' = k \<longleftrightarrow> c' = c" for c' by (simp add: k inboxRecoverProgressKey_def)
    have "keyed (circuit_budgets a (prog @ [x]) B)" unfolding step using snoc by (intro keyed_set) simp
    moreover have "(\<exists>p. (inboxRecoverProgressKey a c', p) \<in> set (prog @ [x]) \<and> rp_open p) \<longleftrightarrow>
        c' = c \<or> (\<exists>p. (inboxRecoverProgressKey a c', p) \<in> set prog \<and> rp_open p)" for c'
      using other [of c'] True by (auto simp: x)
    ultimately show ?thesis using snoc unfolding step by (cases chat) auto
  next
    case False
    then have step: "circuit_budgets a (prog @ [x]) B = circuit_budgets a prog B" by (auto simp: circuit_budgets_def x Let_def)
    have "\<not> (inboxRecoverProgressKey a c = k \<and> rp_open p)" for c using False by (auto simp: inboxRecoverProgressKey_def starts_with_iff)
    with snoc show ?thesis unfolding step by (auto simp: x split: option.splits)
  qed
qed

text \<open>What the socket offers for a chat.\<close>

lemma offered_budget:
  assumes wf: "in_flight_wf s"
  shows "chat_budget perChat (inboxInFlightChatBudgets s a) chat =
    (if \<exists>c. chat = Some c \<and> circuit_open s a c then 0
     else case js_get (by_chat s a) (inboxChatKey chat) of
         Some b \<Rightarrow> nat (sk_maxInFlightPerAgentChat s - int (length (ib_entryIds b)))
       | None \<Rightarrow> perChat)"
proof -
  note wfs = in_flight_wfD [OF wf]
  have b: "(case js_get (sk_inFlightByAgent s) a of None \<Rightarrow> [] | Some byChat \<Rightarrow> bucket_budgets (sk_maxInFlightPerAgentChat s) byChat) =
      bucket_budgets (sk_maxInFlightPerAgentChat s) (by_chat s a)"
    by (simp add: by_chat_def bucket_budgets_def split: option.split)
  have base: "keyed (bucket_budgets (sk_maxInFlightPerAgentChat s) (by_chat s a)) \<and>
      js_get (bucket_budgets (sk_maxInFlightPerAgentChat s) (by_chat s a)) k =
      (case js_get (by_chat s a) k of None \<Rightarrow> None
       | Some b \<Rightarrow> Some (ib_chatId b, max 0 (sk_maxInFlightPerAgentChat s - int (length (ib_entryIds b)))))" for k
    by (rule bucket_budgets_facts [OF wfs(1)]) (use wfs(1,2) in auto)
  let ?L = "circuit_budgets a (sk_recoverProgress s) (bucket_budgets (sk_maxInFlightPerAgentChat s) (by_chat s a))"
  note L = circuit_budgets_facts [OF conjunct1 [OF base], of a "sk_recoverProgress s" chat]
  have "chat_budget perChat (map snd ?L) chat = (case js_get ?L (inboxChatKey chat) of Some (c', n) \<Rightarrow> nat n | None \<Rightarrow> perChat)"
    using L by (intro budgets_get) (auto simp: keyed_def)
  then show ?thesis using L base [of "inboxChatKey chat"]
    by (auto simp: inboxInFlightChatBudgets_def b circuit_open_def split: option.splits)
qed

end
