(* ===== verification/SocketProperties.thy ===== *)
theory SocketProperties
  imports SocketLemmas
begin

text \<open>
  What a socket promises: it never has more in flight than its caps allow, and it settles nothing that it
  did not deliver itself.
\<close>

section \<open>What a claim hands out\<close>

lemma build_member:
  "build_deliveries supported d version ctx rows = Inr fs \<Longrightarrow> f \<in> set fs \<Longrightarrow>
   \<exists>r \<in> set rows. row_id r = fr_id f \<and> row_chatId r = fr_chatId f \<and> row_inboxId r = fr_inboxId f"
proof (induction rows arbitrary: fs)
  case (Cons r rows)
  then show ?case by (fastforce split: option.splits sum.splits)
qed simp

lemma claim_member:
  assumes "claim_rows busy supported now inboxId ids d = (Inr fs, d')" and "f \<in> set fs"
  shows "\<exists>r \<in> set (db_rows d). row_id r \<in> set ids \<and> row_id r = fr_id f \<and> row_chatId r = fr_chatId f \<and> row_inboxId r = fr_inboxId f"
proof -
  let ?rows = "filter (\<lambda>r. row_id r \<in> set ids) (db_rows (mark_delivered now ids d))"
  have "bundleDeliveryWithSilentContext busy supported (mark_delivered now ids d) inboxId ?rows = Inr fs"
    using assms(1) by (auto simp: claim_rows_def Let_def split: sum.splits)
  then obtain ctx version where "build_deliveries supported (mark_delivered now ids d) version ctx (by_id ?rows) = Inr fs"
    using assms(2) by (auto simp: bundleDeliveryWithSilentContext_def Let_def split: if_splits sum.splits)
  from build_member [OF this assms(2)] obtain r where "r \<in> set ?rows" "row_id r = fr_id f" "row_chatId r = fr_chatId f"
    "row_inboxId r = fr_inboxId f" by auto
  then show ?thesis by (auto simp: mark_delivered_rows split: if_splits)
qed

lemma claim_failed: "claim_rows busy supported now inboxId ids d = (Inl e, d') \<Longrightarrow> d' = d"
  by (auto simp: claim_rows_def Let_def split: sum.splits)

lemma claim_distinct:
  assumes "table_wf d" and "claim_rows busy supported now inboxId ids d = (Inr fs, d')" and "set ids \<subseteq> row_id ` set (db_rows d)"
  shows "distinct (map fr_id fs)" and "length fs \<le> length ids"
proof -
  have "distinct (map row_id (by_id (filter (\<lambda>r. row_id r \<in> set ids) (db_rows d))))"
    using by_id_sorted [OF distinct_map_filter [OF table_wfD(1) [OF assms(1)]]] by (simp add: strict_sorted_iff)
  with claim_ids(1) [OF assms] show d: "distinct (map fr_id fs)" by simp
  have "length fs = card (fr_id ` set fs)" using distinct_card [OF d] by simp
  also have "\<dots> \<le> card (set ids)" using claim_member [OF assms(2)] by (intro card_mono) fastforce+
  also have "\<dots> \<le> length ids" by (rule card_length)
  finally show "length fs \<le> length ids" .
qed

text \<open>Of the deliveries of one chat, a claim hands out no more than there are rows for it among those claimed.\<close>

lemma claim_per_chat:
  assumes "table_wf d" and "claim_rows busy supported now inboxId ids d = (Inr fs, d')" and "set ids \<subseteq> row_id ` set (db_rows d)"
    and "card {r \<in> set (db_rows d). row_id r \<in> set ids \<and> row_chatId r = c} \<le> n"
  shows "length (filter (\<lambda>f. fr_chatId f = c) fs) \<le> n"
proof -
  let ?fs = "filter (\<lambda>f. fr_chatId f = c) fs"
  let ?R = "{r \<in> set (db_rows d). row_id r \<in> set ids \<and> row_chatId r = c}"
  have "length ?fs = card (fr_id ` set ?fs)"
    using distinct_card [OF distinct_map_filter [OF claim_distinct(1) [OF assms(1-3)]]] by (simp only: length_map set_map)
  also have "\<dots> \<le> card (row_id ` ?R)"
  proof (rule card_mono)
    show "fr_id ` set ?fs \<subseteq> row_id ` ?R"
    proof
      fix i assume "i \<in> fr_id ` set ?fs"
      then obtain f where "f \<in> set fs" "fr_chatId f = c" "i = fr_id f" by auto
      with claim_member [OF assms(2)] show "i \<in> row_id ` ?R" by (metis (mono_tags, lifting) image_eqI mem_Collect_eq)
    qed
  qed simp
  also have "\<dots> \<le> card ?R" by (rule card_image_le) simp
  finally show ?thesis using assms(4) by simp
qed

lemma within_budget_card:
  assumes "table_wf d"
  shows "card {r \<in> set (db_rows d). within_budget inboxId perChat budgets d r \<and> row_chatId r = c} \<le> chat_budget perChat budgets c"
proof -
  let ?R = "{r \<in> set (db_rows d). within_budget inboxId perChat budgets d r \<and> row_chatId r = c}"
  let ?rank = "chat_rank (filter (claimable inboxId) (db_rows d))"
  have "inj_on ?rank ?R"
  proof (rule inj_onI)
    fix x y assume xy: "x \<in> ?R" "y \<in> ?R" "?rank x = ?rank y"
    then have "\<not> row_id x < row_id y" "\<not> row_id y < row_id x"
      using rank_less [OF assms, of x "claimable inboxId" y] rank_less [OF assms, of y "claimable inboxId" x]
      by (auto simp: within_budget_def)
    with xy row_unique [OF assms, of x y] show "x = y" by simp
  qed
  moreover have "?rank ` ?R \<subseteq> {1..chat_budget perChat budgets c}"
  proof
    fix k assume "k \<in> ?rank ` ?R"
    then obtain x where x: "x \<in> ?R" "k = ?rank x" by blast
    then have "x \<in> set (filter (\<lambda>y. row_chatId y = row_chatId x \<and> row_id y \<le> row_id x) (filter (claimable inboxId) (db_rows d)))"
      by (simp add: within_budget_def)
    then have "0 < ?rank x" unfolding chat_rank_def by (rule length_pos_if_in_set)
    with x show "k \<in> {1..chat_budget perChat budgets c}" by (auto simp: within_budget_def)
  qed
  ultimately show ?thesis using card_inj_on_le [of ?rank ?R "{1..chat_budget perChat budgets c}"] by simp
qed

lemma fair_within:
  assumes "table_wf d" and "r \<in> set (db_rows d)" and "row_id r \<in> set (fair_ids busy inboxId limit perChat budgets d)"
  shows "within_budget inboxId perChat budgets d r"
  using fair_ids_iff [OF assms(1,2)] assms(3) by blast

lemma fair_length: "length (fair_ids busy inboxId limit perChat budgets d) \<le> limit"
  unfolding fair_ids_def Let_def
  by (simp only: length_map) (rule order_trans [OF length_filter_le], simp)

lemma poll_length: "length (poll_ids busy inboxId limit chat d) \<le> limit"
  by (simp add: poll_ids_def)


section \<open>The claim of a drain\<close>

definition claimed_by ::
  "op_env \<Rightarrow> string \<Rightarrow> string \<Rightarrow> drain_trigger \<Rightarrow> socket_state \<Rightarrow> inbox_db \<Rightarrow> int list \<Rightarrow> inbox_delivery list \<Rightarrow> inbox_db \<Rightarrow> bool" where
  "claimed_by env a i trigger s d ids fs d' \<longleftrightarrow>
     claim_rows (oe_busy env) (oe_supported env) (oe_now env) i ids d = (Inr fs, d') \<and>
     (ids = [] \<or>
      (case trigger of
         TrRecover c \<Rightarrow> ids = poll_ids (oe_busy env) i (nat (drain_limit s a trigger)) (Some c) d
       | _ \<Rightarrow> 0 < drain_limit s a trigger \<and> 0 < sk_maxInFlightPerAgentChat s \<and> ids = fair_ids (oe_busy env) i (nat (drain_limit s a trigger)) (nat (sk_maxInFlightPerAgentChat s))
               (inboxInFlightChatBudgets s a) d))"

lemma claim_nothing: "claim_rows busy supported now i [] d = (Inr [], d)"
  by (simp add: claim_rows_def bundleDeliveryWithSilentContext_def mark_delivered_def)

lemma fair_claim_rows:
  obtains ids where "claimBacklogForPushFair busy supported now i limit perChat budgets d = claim_rows busy supported now i ids d"
    and "ids = [] \<or> 0 < limit \<and> 0 < perChat \<and> ids = fair_ids busy i (nat limit) (nat perChat) budgets d"
proof (cases "limit \<le> 0 \<or> perChat \<le> 0")
  case True
  then show ?thesis by (intro that [of "[]"]) (simp_all add: claimBacklogForPushFair_def claim_nothing)
next
  case False
  then show ?thesis by (intro that [of "fair_ids busy i (nat limit) (nat perChat) budgets d"]) (simp_all add: claimBacklogForPushFair_def)
qed

lemma claim_cases:
  fixes env a i trigger s d
  defines "r \<equiv> (case trigger of
      TrRecover c \<Rightarrow> claimBacklogForPushForChat (oe_busy env) (oe_supported env) (oe_now env) i c (nat (drain_limit s a trigger)) d
    | _ \<Rightarrow> claimBacklogForPushFair (oe_busy env) (oe_supported env) (oe_now env) i (drain_limit s a trigger)
             (sk_maxInFlightPerAgentChat s) (inboxInFlightChatBudgets s a) d)"
  obtains e where "r = (Inl e, d)" | ids fs d' where "r = (Inr fs, d')" and "claimed_by env a i trigger s d ids fs d'"
proof -
  obtain ids where ids: "r = claim_rows (oe_busy env) (oe_supported env) (oe_now env) i ids d"
    "ids = [] \<or> (case trigger of
         TrRecover c \<Rightarrow> ids = poll_ids (oe_busy env) i (nat (drain_limit s a trigger)) (Some c) d
       | _ \<Rightarrow> 0 < drain_limit s a trigger \<and> 0 < sk_maxInFlightPerAgentChat s \<and> ids = fair_ids (oe_busy env) i (nat (drain_limit s a trigger)) (nat (sk_maxInFlightPerAgentChat s))
               (inboxInFlightChatBudgets s a) d)"
  proof (cases "\<exists>c. trigger = TrRecover c")
    case True
    with that show ?thesis by (auto simp: r_def claimBacklogForPushForChat_def pollInboxInner_def)
  next
    case False
    then have r: "r = claimBacklogForPushFair (oe_busy env) (oe_supported env) (oe_now env) i (drain_limit s a trigger)
        (sk_maxInFlightPerAgentChat s) (inboxInFlightChatBudgets s a) d"
      by (cases trigger) (simp_all add: r_def)
    obtain ids where "r = claim_rows (oe_busy env) (oe_supported env) (oe_now env) i ids d"
      "ids = [] \<or> 0 < drain_limit s a trigger \<and> 0 < sk_maxInFlightPerAgentChat s \<and>
         ids = fair_ids (oe_busy env) i (nat (drain_limit s a trigger)) (nat (sk_maxInFlightPerAgentChat s)) (inboxInFlightChatBudgets s a) d"
      unfolding r by (rule fair_claim_rows)
    with False that [of ids] show ?thesis by (cases trigger) simp_all
  qed
  show ?thesis
  proof (cases r)
    case (Pair x d')
    show ?thesis
    proof (cases x)
      case (Inl e)
      with Pair ids(1) have "d' = d" using claim_failed by metis
      with Inl Pair that(1) show ?thesis by simp
    next
      case (Inr fs)
      with Pair ids(1) have r: "r = (Inr fs, d')"
        and c: "claim_rows (oe_busy env) (oe_supported env) (oe_now env) i ids d = (Inr fs, d')" by simp_all
      from c ids(2) have "claimed_by env a i trigger s d ids fs d'" unfolding claimed_by_def by blast
      with r show ?thesis by (rule that(2))
    qed
  qed
qed

lemma drain_claim_cases:
  obtains "sk_job (fst (drain_claim env a i trigger s d)) = JIdle" "shrinks (s\<lparr>sk_job := JIdle\<rparr>) (fst (drain_claim env a i trigger s d))"
      "snd (drain_claim env a i trigger s d) = d"
  | s2 ids fs d' where "drain_claim env a i trigger s d = (s2\<lparr>sk_job := JPush a fs\<rparr>, d')"
      "s2 = s\<lparr>sk_job := JIdle\<rparr>" "js_has (sk_boundAgents s) a"
      "claimed_by env a i trigger s2 d ids fs d'"
proof -
  let ?s = "s\<lparr>sk_job := JIdle\<rparr>"
  obtain ok s2 where e: "ensureAgentStillRoutedHere (oe_route env a) a ?s = (ok, s2)" by (metis surj_pair)
  have sh: "shrinks ?s s2" using ensure_shrinks [of ?s "oe_route env a" a] e by simp
  have job: "sk_job s2 = JIdle" using e
    by (auto simp: ensureAgentStillRoutedHere_def dropLocalAgentBinding_def clearAgent_def split: if_splits agent_route.splits)
  show ?thesis
  proof (cases "\<not> sk_open s \<or> \<not> ok \<or> drain_limit s2 a trigger \<le> 0 \<or> oe_fails env CallClaim")
    case True
    have "drain_claim env a i trigger s d = (if sk_open s then s2 else ?s, d)"
      using True by (cases ok) (auto simp: drain_claim_def e Let_def)
    with sh job show ?thesis by (intro that(1)) auto
  next
    case False
    then have s2: "s2 = ?s" "js_has (sk_boundAgents s) a"
      using e by (auto simp: ensureAgentStillRoutedHere_def split: if_splits agent_route.splits)
    show ?thesis
    proof (rule claim_cases [where trigger = trigger and env = env and i = i and s = s2 and a = a and d = d])
      fix e' assume "(case trigger of
          TrRecover c \<Rightarrow> claimBacklogForPushForChat (oe_busy env) (oe_supported env) (oe_now env) i c (nat (drain_limit s2 a trigger)) d
        | _ \<Rightarrow> claimBacklogForPushFair (oe_busy env) (oe_supported env) (oe_now env) i (drain_limit s2 a trigger)
                 (sk_maxInFlightPerAgentChat s2) (inboxInFlightChatBudgets s2 a) d) = (Inl e', d)"
      with False have "drain_claim env a i trigger s d = (s2, d)" by (simp add: drain_claim_def e Let_def)
      with sh job show ?thesis by (intro that(1)) auto
    next
      fix ids fs d' assume c: "(case trigger of
          TrRecover c \<Rightarrow> claimBacklogForPushForChat (oe_busy env) (oe_supported env) (oe_now env) i c (nat (drain_limit s2 a trigger)) d
        | _ \<Rightarrow> claimBacklogForPushFair (oe_busy env) (oe_supported env) (oe_now env) i (drain_limit s2 a trigger)
                 (sk_maxInFlightPerAgentChat s2) (inboxInFlightChatBudgets s2 a) d) = (Inr fs, d')"
        and "claimed_by env a i trigger s2 d ids fs d'"
      from c False have "drain_claim env a i trigger s d = (s2\<lparr>sk_job := JPush a fs\<rparr>, d')" by (simp add: drain_claim_def e Let_def)
      with \<open>claimed_by env a i trigger s2 d ids fs d'\<close> s2 show ?thesis by (intro that(2))
    qed
  qed
qed


lemma claimed_ids:
  assumes "claimed_by env a i trigger s d ids fs d'" and "j \<in> set ids"
  shows "\<exists>r \<in> set (db_rows d). row_id r = j \<and> claimable i r"
  using assms by (cases trigger) (auto simp: claimed_by_def dest: poll_ids_claimable fair_ids_claimable)

lemma drain_limits:
  "drain_limit s a t \<le> sk_maxInFlightPerAgent s - int (inboxInFlightCount s a)"
  "drain_limit s a (TrRecover c) \<le> max 0 (sk_maxInFlightPerAgentChat s - int (inboxInFlightCountForChat s a (Some c)))"
  by (simp_all add: drain_limit_def Let_def split: drain_trigger.split)

lemma claimed_count:
  assumes "table_wf d" and c: "claimed_by env a i trigger s d ids fs d'"
  shows "length fs \<le> nat (sk_maxInFlightPerAgent s - int (inboxInFlightCount s a))"
proof -
  have "length ids \<le> nat (drain_limit s a trigger)"
    using c poll_length fair_length by (cases trigger) (auto simp: claimed_by_def)
  moreover have "length fs \<le> length ids"
    using c claimed_ids [OF c] by (intro claim_distinct(2) [OF assms(1)]) (auto simp: claimed_by_def image_iff)
  moreover have "nat (drain_limit s a trigger) \<le> nat (sk_maxInFlightPerAgent s - int (inboxInFlightCount s a))"
    using drain_limits(1) by (rule nat_mono)
  ultimately show ?thesis by simp
qed

lemma claimed_member:
  assumes "table_wf d" and c: "claimed_by env a i trigger s d ids fs d'" and "f \<in> set fs"
  shows "\<exists>r \<in> set (db_rows d). row_id r = fr_id f \<and> row_chatId r = fr_chatId f \<and> claimable i r \<and> row_id r \<in> set ids"
proof -
  obtain r where r: "r \<in> set (db_rows d)" "row_id r \<in> set ids" "row_id r = fr_id f" "row_chatId r = fr_chatId f"
    using c claim_member [OF _ assms(3)] by (fastforce simp: claimed_by_def)
  then have "claimable i r" using claimed_row [OF assms(1) claimed_ids [OF c]] by blast
  with r show ?thesis by blast
qed

text \<open>A recovery hands out deliveries of its chat only; any other drain respects the budgets.\<close>

definition chat_room :: "socket_state \<Rightarrow> string \<Rightarrow> string option \<Rightarrow> nat" where
  "chat_room s a c = nat (sk_maxInFlightPerAgentChat s - int (length (bucket_of s a (inboxChatKey c))))"

lemma offered_room:
  assumes "in_flight_wf s"
  shows "chat_budget (nat (sk_maxInFlightPerAgentChat s)) (inboxInFlightChatBudgets s a) chat =
    (if \<exists>c. chat = Some c \<and> circuit_open s a c then 0 else chat_room s a chat)"
  unfolding offered_budget [OF assms] chat_room_def bucket_by_chat
  by (cases "js_get (by_chat s a) (inboxChatKey chat)") auto

lemma claimed_recover:
  assumes "table_wf d" and c: "claimed_by env a i (TrRecover c) s d ids fs d'"
  shows "f \<in> set fs \<Longrightarrow> fr_chatId f = Some c" and "length fs \<le> chat_room s a (Some c)"
proof -
  have chat: "row_chatId r = Some c" if "r \<in> set (db_rows d)" "row_id r \<in> set ids" for r
    using c that poll_ids_iff [OF assms(1) that(1)] by (auto simp: claimed_by_def)
  show "fr_chatId f = Some c" if "f \<in> set fs" using claimed_member [OF assms that] chat by metis
  have "length ids \<le> nat (drain_limit s a (TrRecover c))" using c poll_length by (auto simp: claimed_by_def)
  also have "\<dots> \<le> chat_room s a (Some c)"
    using nat_mono [OF drain_limits(2) [of s a c]] by (simp add: chat_room_def count_chat)
  also have "length fs \<le> length ids"
    using c claimed_ids [OF c] by (intro claim_distinct(2) [OF assms(1)]) (auto simp: claimed_by_def image_iff)
  finally (xtrans) show "length fs \<le> chat_room s a (Some c)" .
qed

lemma claimed_fair:
  assumes "table_wf d" and c: "claimed_by env a i trigger s d ids fs d'" and "\<And>c. trigger \<noteq> TrRecover c" and wf: "in_flight_wf s"
  shows "length (filter (\<lambda>f. fr_chatId f = chat) fs) \<le> (if \<exists>c. chat = Some c \<and> circuit_open s a c then 0 else chat_room s a chat)"
proof -
  let ?b = "inboxInFlightChatBudgets s a" and ?cap = "nat (sk_maxInFlightPerAgentChat s)"
  have ids: "ids = [] \<or> ids = fair_ids (oe_busy env) i (nat (drain_limit s a trigger)) ?cap ?b d"
    using c assms(3) by (cases trigger) (auto simp: claimed_by_def)
  let ?R = "{r \<in> set (db_rows d). row_id r \<in> set ids \<and> row_chatId r = chat}"
  have "card ?R \<le> card {r \<in> set (db_rows d). within_budget i ?cap ?b d r \<and> row_chatId r = chat}"
    using ids fair_within [OF assms(1)] by (intro card_mono) auto
  also have "\<dots> \<le> chat_budget ?cap ?b chat" by (rule within_budget_card [OF assms(1)])
  finally have "card ?R \<le> chat_budget ?cap ?b chat" .
  with c claimed_ids [OF c] show ?thesis
    unfolding offered_room [OF wf, symmetric] by (intro claim_per_chat [OF assms(1)]) (auto simp: claimed_by_def image_iff)
qed

lemma claimed_chat:
  assumes "table_wf d" and "claimed_by env a i trigger s d ids fs d'" and "in_flight_wf s"
  shows "length (filter (\<lambda>f. fr_chatId f = chat) fs) \<le> chat_room s a chat"
proof (cases "\<exists>c. trigger = TrRecover c")
  case True
  then obtain c where t: "trigger = TrRecover c" ..
  note rec = claimed_recover [OF assms(1) assms(2) [unfolded t]]
  show ?thesis
  proof (cases "chat = Some c")
    case True
    with rec(2) show ?thesis using order_trans [OF length_filter_le [of "\<lambda>f. fr_chatId f = chat" fs]] by blast
  next
    case False
    with rec(1) have "filter (\<lambda>f. fr_chatId f = chat) fs = []" by (auto simp: filter_empty_conv)
    then show ?thesis by simp
  qed
next
  case False
  with claimed_fair [OF assms(1,2) _ assms(3), of chat] show ?thesis by (auto split: if_splits)
qed


section \<open>Caps\<close>

definition to_send :: "socket_state \<Rightarrow> string \<Rightarrow> inbox_delivery list" where
  "to_send s a = (case sk_job s of JPush a' fs \<Rightarrow> if a' = a then fs else [] | _ \<Rightarrow> [])"

definition caps_ok :: "socket_state \<Rightarrow> bool" where
  "caps_ok s \<longleftrightarrow> in_flight_wf s \<and> 0 \<le> sk_maxInFlightPerAgent s \<and> 0 \<le> sk_maxInFlightPerAgentChat s \<and>
     (\<forall>a. int (inboxInFlightCount s a + length (to_send s a)) \<le> sk_maxInFlightPerAgent s) \<and>
     (\<forall>a c. int (length (bucket_of s a (inboxChatKey c)) + length (filter (\<lambda>f. fr_chatId f = c) (to_send s a))) \<le> sk_maxInFlightPerAgentChat s)"

lemma bucket_shrinks:
  assumes "in_flight_wf s" and "shrinks s s'"
  shows "length (bucket_of s' a k) \<le> length (bucket_of s a k)"
proof -
  have "in_flight_wf s'" "set (bucket_of s' a k) \<subseteq> set (bucket_of s a k)" using assms by (simp_all add: shrinks_def)
  with in_flight_wfD(4) [OF assms(1)] in_flight_wfD(4) [of s'] show ?thesis
    by (metis List.finite_set card_mono distinct_card)
qed

lemma caps_shrinks:
  assumes "caps_ok s" and "shrinks s s'"
  shows "caps_ok s'"
proof -
  have wf: "in_flight_wf s" using assms(1) by (simp add: caps_ok_def)
  then have s': "in_flight_wf s'" "inboxInFlightCount s' a \<le> inboxInFlightCount s a"
    "sk_maxInFlightPerAgent s' = sk_maxInFlightPerAgent s" "sk_maxInFlightPerAgentChat s' = sk_maxInFlightPerAgentChat s"
    "to_send s' a = to_send s a \<or> to_send s' a = []" for a
    using assms(2) by (auto simp: shrinks_def to_send_def)
  have "int (inboxInFlightCount s' a + length (to_send s' a)) \<le> sk_maxInFlightPerAgent s" for a
  proof -
    have "int (inboxInFlightCount s a + length (to_send s a)) \<le> sk_maxInFlightPerAgent s" using assms(1) by (simp add: caps_ok_def)
    with s'(2,5) [of a] show ?thesis by auto
  qed
  moreover have "int (length (bucket_of s' a (inboxChatKey c)) + length (filter (\<lambda>f. fr_chatId f = c) (to_send s' a))) \<le>
      sk_maxInFlightPerAgentChat s" for a c
  proof -
    have "int (length (bucket_of s a (inboxChatKey c)) + length (filter (\<lambda>f. fr_chatId f = c) (to_send s a))) \<le> sk_maxInFlightPerAgentChat s"
      using assms(1) by (simp add: caps_ok_def)
    with s'(5) [of a] bucket_shrinks [OF wf assms(2), of a "inboxChatKey c"] show ?thesis by auto
  qed
  ultimately show ?thesis using assms(1) s'(1,3,4) by (simp add: caps_ok_def)
qed

lemma push_effect:
  assumes "in_flight_wf s"
  shows "in_flight_wf (snd (push_entries a fs s)) \<and>
    inboxInFlightCount (snd (push_entries a fs s)) a' \<le> inboxInFlightCount s a' + (if a' = a then length fs else 0) \<and>
    length (bucket_of (snd (push_entries a fs s)) a' (inboxChatKey c)) \<le>
      length (bucket_of s a' (inboxChatKey c)) + (if a' = a then length (filter (\<lambda>f. fr_chatId f = c) fs) else 0) \<and>
    sk_job (snd (push_entries a fs s)) = sk_job s \<and> sk_boundAgents (snd (push_entries a fs s)) = sk_boundAgents s \<and>
    sk_recoverProgress (snd (push_entries a fs s)) = sk_recoverProgress s \<and>
    sk_maxInFlightPerAgent (snd (push_entries a fs s)) = sk_maxInFlightPerAgent s \<and>
    sk_maxInFlightPerAgentChat (snd (push_entries a fs s)) = sk_maxInFlightPerAgentChat s"
  using assms
proof (induction fs arbitrary: s)
  case (Cons f fs)
  let ?s = "addInboxInFlight a (fr_chatId f) (fr_id f) s"
  note add = add_effect [OF Cons.prems, of a "fr_chatId f" "fr_id f"]
  have len: "length (bucket_of ?s a' (inboxChatKey c)) \<le> length (bucket_of s a' (inboxChatKey c)) + (if a' = a \<and> fr_chatId f = c then 1 else 0)"
    using length_filter_le [of "\<lambda>j. j \<noteq> fr_id f" "bucket_of s a' (inboxChatKey c)"] by (auto simp: add(2))
  show ?case
  proof (cases "sk_open s")
    case True
    with Cons.IH [OF add(1)] add(3) [of a'] len show ?thesis by (auto simp: Let_def split_beta)
  next
    case False
    let ?r = "removeInboxInFlight [fr_id f] ?s"
    have "length (bucket_of ?r a' (inboxChatKey c)) \<le> length (bucket_of s a' (inboxChatKey c))"
      using remove_effect(2) [OF add(1), of "[fr_id f]" a' "inboxChatKey c"] add(2) [of a' "inboxChatKey c"]
        length_filter_le [of "\<lambda>j. j \<noteq> fr_id f" "bucket_of s a' (inboxChatKey c)"] by auto
    moreover have "inboxInFlightCount ?r a' \<le> inboxInFlightCount s a' + (if a' = a then 1 else 0)"
      using remove_effect(3) [OF add(1), of "[fr_id f]" a'] add(3) [of a'] by linarith
    ultimately show ?thesis using False remove_effect(1) [OF add(1), of "[fr_id f]"] by (auto simp: Let_def)
  qed
qed simp

lemma push_parts:
  assumes "in_flight_wf s"
  shows "in_flight_wf (snd (push_entries a fs s))"
    and "inboxInFlightCount (snd (push_entries a fs s)) a' \<le> inboxInFlightCount s a' + (if a' = a then length fs else 0)"
    and "length (bucket_of (snd (push_entries a fs s)) a' (inboxChatKey c)) \<le>
      length (bucket_of s a' (inboxChatKey c)) + (if a' = a then length (filter (\<lambda>f. fr_chatId f = c) fs) else 0)"
    and "sk_job (snd (push_entries a fs s)) = sk_job s" and "sk_boundAgents (snd (push_entries a fs s)) = sk_boundAgents s"
    and "sk_recoverProgress (snd (push_entries a fs s)) = sk_recoverProgress s"
    and "sk_maxInFlightPerAgent (snd (push_entries a fs s)) = sk_maxInFlightPerAgent s"
    and "sk_maxInFlightPerAgentChat (snd (push_entries a fs s)) = sk_maxInFlightPerAgentChat s"
  using push_effect [OF assms] by blast+

lemma push_caps:
  assumes "caps_ok s" and "sk_job s = JPush a fs"
  shows "caps_ok (snd (push_entries a fs (s\<lparr>sk_job := JIdle\<rparr>)))"
proof -
  let ?s = "s\<lparr>sk_job := JIdle\<rparr>"
  have wf: "in_flight_wf ?s" using assms(1) by (simp add: caps_ok_def)
  note p = push_parts [OF wf, of a fs, simplified]
  have job: "sk_job (snd (push_entries a fs ?s)) = JIdle" using p(4) .
  have sent: "to_send s a' = (if a' = a then fs else [])" for a' using assms(2) by (simp add: to_send_def)
  have "int (inboxInFlightCount (snd (push_entries a fs ?s)) a') \<le> sk_maxInFlightPerAgent s" for a'
  proof -
    have "int (inboxInFlightCount s a' + length (to_send s a')) \<le> sk_maxInFlightPerAgent s" using assms(1) by (simp add: caps_ok_def)
    moreover have "inboxInFlightCount (snd (push_entries a fs ?s)) a' \<le> inboxInFlightCount s a' + length (to_send s a')"
      using push_parts(2) [OF wf, of a fs a'] by (auto simp: sent split: if_splits)
    ultimately show ?thesis by linarith
  qed
  moreover have "int (length (bucket_of (snd (push_entries a fs ?s)) a' (inboxChatKey c))) \<le> sk_maxInFlightPerAgentChat s" for a' c
  proof -
    have "int (length (bucket_of s a' (inboxChatKey c)) + length (filter (\<lambda>f. fr_chatId f = c) (to_send s a'))) \<le> sk_maxInFlightPerAgentChat s"
      using assms(1) by (simp add: caps_ok_def)
    moreover have "length (bucket_of (snd (push_entries a fs ?s)) a' (inboxChatKey c)) \<le>
        length (bucket_of s a' (inboxChatKey c)) + length (filter (\<lambda>f. fr_chatId f = c) (to_send s a'))"
      using push_parts(3) [OF wf, of a fs a' c] by (auto simp: sent split: if_splits)
    ultimately show ?thesis by linarith
  qed
  ultimately show ?thesis using p assms(1) by (simp add: caps_ok_def to_send_def job)
qed

lemma claim_caps:
  assumes "caps_ok s" and "table_wf d" and "sk_job s = JDrain a i trigger"
  shows "caps_ok (fst (drain_claim env a i trigger s d))"
proof -
  have idle: "caps_ok (s\<lparr>sk_job := JIdle\<rparr>)" using assms(1,3) by (simp add: caps_ok_def to_send_def)
  show ?thesis
  proof (rule drain_claim_cases [of env a i trigger s d])
    assume "shrinks (s\<lparr>sk_job := JIdle\<rparr>) (fst (drain_claim env a i trigger s d))"
    then show ?thesis by (rule caps_shrinks [OF idle])
  next
    fix s2 ids fs d'
    assume r: "drain_claim env a i trigger s d = (s2\<lparr>sk_job := JPush a fs\<rparr>, d')" and s2: "s2 = s\<lparr>sk_job := JIdle\<rparr>"
      and c: "claimed_by env a i trigger s2 d ids fs d'"
    have wf: "in_flight_wf s2" and cap: "int (inboxInFlightCount s2 a') \<le> sk_maxInFlightPerAgent s2"
      "int (length (bucket_of s2 a' (inboxChatKey chat))) \<le> sk_maxInFlightPerAgentChat s2" for a' chat
      using idle by (auto simp: s2 caps_ok_def to_send_def)
    have "int (inboxInFlightCount s2 a + length fs) \<le> sk_maxInFlightPerAgent s2"
      using claimed_count [OF assms(2) c] cap(1) [of a] by linarith
    moreover have "int (length (bucket_of s2 a (inboxChatKey chat)) + length (filter (\<lambda>f. fr_chatId f = chat) fs)) \<le> sk_maxInFlightPerAgentChat s2" for chat
      using claimed_chat [OF assms(2) c wf, of chat] cap(2) [of a chat] unfolding chat_room_def by linarith
    ultimately have "caps_ok (s2\<lparr>sk_job := JPush a fs\<rparr>)"
      using wf cap idle by (simp add: caps_ok_def to_send_def s2)
    with r show ?thesis by simp
  qed
qed

lemma op_caps:
  assumes "caps_ok s" and "table_wf d"
  shows "caps_ok (fst (snd (socket_op e s d)))"
proof (cases "\<exists>env. e = SoRun env")
  case True
  then obtain env where e: "e = SoRun env" ..
  show ?thesis
  proof (cases "sk_job s")
    case (JDrain a i trigger)
    with claim_caps [OF assms JDrain, of env] show ?thesis by (simp add: e run_job_def)
  next
    case (JPush a fs)
    with push_caps [OF assms(1) JPush] show ?thesis by (simp add: e run_job_def split_beta)
  qed (simp add: e run_job_def assms(1))
next
  case False
  with caps_shrinks [OF assms(1) op_shrinks] show ?thesis by blast
qed


section \<open>The socket and the table\<close>

text \<open>What an operation does to the table is an event of the table, and only an acknowledgement acknowledges.\<close>

lemma snapshot_bucket: "i \<in> set (snapshotCurrentSocketDeliverySet s j) \<Longrightarrow> \<exists>a k. i \<in> set (bucket_of s a k)"
  by (force simp: snapshotCurrentSocketDeliverySet_def bucket_of_def split: option.splits)

lemma claim_event:
  obtains "snd (drain_claim env a i trigger s d) = d"
  | ev where "snd (drain_claim env a i trigger s d) = inbox_step d ev" "\<And>r. \<not> acks ev r" "\<And>r. \<not> silences ev r"
proof (rule drain_claim_cases [of env a i trigger s d])
  fix s2 ids fs d'
  assume r: "drain_claim env a i trigger s d = (s2\<lparr>sk_job := JPush a fs\<rparr>, d')" and c: "claimed_by env a i trigger s2 d ids fs d'"
  from c have claim: "claim_rows (oe_busy env) (oe_supported env) (oe_now env) i ids d = (Inr fs, d')" by (simp add: claimed_by_def)
  show ?thesis
  proof (cases "ids = []")
    case True
    with claim r show ?thesis by (intro that(1)) (simp add: claim_nothing)
  next
    case False
    show ?thesis
    proof (cases "\<exists>c. trigger = TrRecover c")
      case True
      then obtain c' where t: "trigger = TrRecover c'" ..
      let ?ev = "EvPoll (oe_busy env) (oe_supported env) (oe_now env) i (nat (drain_limit s2 a trigger)) (Some c')"
      have "d' = inbox_step d ?ev" using claim c False by (simp add: claimed_by_def t pollInboxInner_def)
      with r show ?thesis by (intro that(2) [of ?ev]) simp_all
    next
      case other: False
      let ?ev = "EvFair (oe_busy env) (oe_supported env) (oe_now env) i (drain_limit s2 a trigger)
          (sk_maxInFlightPerAgentChat s2) (inboxInFlightChatBudgets s2 a)"
      have "d' = inbox_step d ?ev"
        using claim c False other by (cases trigger) (auto simp: claimed_by_def claimBacklogForPushFair_def)
      with r show ?thesis by (intro that(2) [of ?ev]) simp_all
    qed
  qed
qed (use that(1) in blast)

lemma op_event:
  assumes "\<And>ev. e \<noteq> SoDb ev"
  obtains "snd (snd (socket_op e s d)) = d"
  | ev where "snd (snd (socket_op e s d)) = inbox_step d ev" "\<And>r. \<not> silences ev r"
      "\<And>i. claims ev i \<Longrightarrow> \<exists>env. e = SoRun env"
      "\<And>r. acks ev r \<Longrightarrow> \<exists>env i ref. e = SoAck env i ref \<and> row_id r \<le> i \<and> (\<exists>s1. shrinks s s1 \<and> row_id r \<in> set (snapshotCurrentSocketDeliverySet s1 i))"
proof (cases e)
  case (SoAck env i ref)
  obtain routed s1 where r: "routed_agents (oe_route env) (sk_boundAgents s) s = (routed, s1)" by (metis surj_pair)
  have sh: "shrinks s s1" using routed_shrinks [of s "oe_route env" "sk_boundAgents s"] r by simp
  let ?ev = "EvAck (oe_now env) i (map snd routed) (snapshotCurrentSocketDeliverySet s1 i)"
  show ?thesis
  proof (cases "sk_job s \<noteq> JIdle \<or> oe_fails env CallAck")
    case True
    then show ?thesis by (intro that(1)) (auto simp: SoAck ack_frame_def r)
  next
    case False
    then have "snd (snd (socket_op e s d)) = inbox_step d ?ev"
      by (simp add: SoAck ack_frame_def r Let_def split_beta split: ack_result.split option.split)
    with sh SoAck show ?thesis by (intro that(2) [of ?ev]) auto
  qed
next
  case (SoRecover env ref a c)
  have "snd (snd (socket_op e s d)) = d \<or> (\<exists>i. snd (snd (socket_op e s d)) = inbox_step d (EvRecover i (Some c)))"
    by (auto simp: SoRecover recover_frame_def Let_def split_beta split: option.split bool.split)
  then show ?thesis
  proof
    assume "\<exists>i. snd (snd (socket_op e s d)) = inbox_step d (EvRecover i (Some c))"
    then obtain i where "snd (snd (socket_op e s d)) = inbox_step d (EvRecover i (Some c))" ..
    then show ?thesis by (rule that(2)) simp_all
  qed (rule that(1))
next
  case (SoProbe env ref a c ms)
  then show ?thesis by (intro that(1)) (simp add: probe_frame_def Let_def split_beta split: option.split bool.split)
next
  case (SoRun env)
  show ?thesis
  proof (cases "sk_job s")
    case (JDrain a i trigger)
    have eq: "snd (snd (socket_op e s d)) = snd (drain_claim env a i trigger s d)" by (simp add: SoRun run_job_def JDrain)
    show ?thesis
    proof (rule claim_event [of env a i trigger s d])
      assume "snd (drain_claim env a i trigger s d) = d"
      with eq show ?thesis by (intro that(1)) simp
    next
      fix ev assume "snd (drain_claim env a i trigger s d) = inbox_step d ev" "\<And>r. \<not> acks ev r" "\<And>r. \<not> silences ev r"
      with eq show ?thesis by (intro that(2)) (auto simp: SoRun)
    qed
  qed (use that(1) in \<open>simp_all add: SoRun run_job_def split_beta\<close>)
next
  case (SoReset env a i)
  show ?thesis
  proof (cases "oe_fails env CallReset")
    case False
    then show ?thesis by (intro that(2) [of "EvReset [i]"]) (simp_all add: SoReset bind_reset_def)
  qed (use that(1) in \<open>simp add: SoReset bind_reset_def\<close>)
qed (use assms that(1) in \<open>simp_all add: split_beta\<close>)


section \<open>Worlds\<close>

definition new_world :: "int \<Rightarrow> int \<Rightarrow> inbox_db \<Rightarrow> socket_world" where
  "new_world cap chatCap d = \<lparr>sw_frames = [], sw_socket = new_socket cap chatCap, sw_db = d\<rparr>"

definition delivered_here :: "socket_world \<Rightarrow> int \<Rightarrow> bool" where
  "delivered_here w i \<longleftrightarrow> (\<exists>f. FrDeliver f \<in> set (sw_frames w) \<and> fr_id f = i)"

text \<open>The table is sound, the caps hold, and what is in flight was sent and is a number the table has given out.\<close>

definition world_ok :: "socket_world \<Rightarrow> bool" where
  "world_ok w \<longleftrightarrow> table_wf (sw_db w) \<and> caps_ok (sw_socket w) \<and>
     (\<forall>a k i. i \<in> set (bucket_of (sw_socket w) a k) \<longrightarrow> delivered_here w i \<and> i < db_nextId (sw_db w)) \<and>
     (\<forall>a f. f \<in> set (to_send (sw_socket w) a) \<longrightarrow> fr_id f < db_nextId (sw_db w))"

lemma push_custody:
  assumes "in_flight_wf s" and "i \<in> set (bucket_of (snd (push_entries a fs s)) a' k)"
  shows "i \<in> set (bucket_of s a' k) \<or> (\<exists>f. FrDeliver f \<in> set (fst (push_entries a fs s)) \<and> fr_id f = i \<and> f \<in> set fs \<and> a' = a \<and> k = inboxChatKey (fr_chatId f))"
  using assms
proof (induction fs arbitrary: s)
  case (Cons f fs)
  let ?s = "addInboxInFlight a (fr_chatId f) (fr_id f) s"
  note add = add_effect [OF Cons.prems(1), of a "fr_chatId f" "fr_id f"]
  show ?case
  proof (cases "sk_open s")
    case True
    have "i \<in> set (bucket_of (snd (push_entries a fs ?s)) a' k)" using Cons.prems(2) True by (simp add: Let_def split_beta)
    from Cons.IH [OF add(1) this] True show ?thesis by (auto simp: add(2) Let_def split_beta split: if_splits)
  next
    case False
    then have "i \<in> set (bucket_of (removeInboxInFlight [fr_id f] ?s) a' k)" using Cons.prems(2) by (simp add: Let_def)
    then show ?thesis by (auto simp: remove_effect(2) [OF add(1)] add(2) split: if_splits)
  qed
qed simp

lemma event_next: "table_wf d \<Longrightarrow> db_nextId d \<le> db_nextId (inbox_step d ev)"
  using step_shape [of d ev] unfolding shape_def by blast

lemma op_table:
  assumes "table_wf d"
  shows "table_wf (snd (snd (socket_op e s d)))" and "db_nextId d \<le> db_nextId (snd (snd (socket_op e s d)))"
proof -
  obtain evs where evs: "snd (snd (socket_op e s d)) = inbox_run d evs" "length evs \<le> 1"
  proof (cases "\<exists>ev. e = SoDb ev")
    case True
    then obtain ev where "e = SoDb ev" ..
    with that [of "[ev]"] show ?thesis by (simp add: inbox_run_def)
  next
    case False
    show ?thesis
    proof (rule op_event [of e s d])
      show "snd (snd (socket_op e s d)) = d \<Longrightarrow> ?thesis" using that [of "[]"] by (simp add: inbox_run_def)
      show "snd (snd (socket_op e s d)) = inbox_step d ev \<Longrightarrow> ?thesis" for ev using that [of "[ev]"] by (simp add: inbox_run_def)
    qed (use False in blast)
  qed
  with assms event_next show "table_wf (snd (snd (socket_op e s d)))" "db_nextId d \<le> db_nextId (snd (snd (socket_op e s d)))"
    by (cases evs; auto simp: inbox_run_def step_wf)+
qed

lemma op_parts:
  assumes "in_flight_wf s" and "table_wf d"
  shows "i \<in> set (bucket_of (fst (snd (socket_op e s d))) a k) \<Longrightarrow>
      i \<in> set (bucket_of s a k) \<or> (\<exists>f. FrDeliver f \<in> set (fst (socket_op e s d)) \<and> fr_id f = i \<and> f \<in> set (to_send s a))"
    and "f \<in> set (to_send (fst (snd (socket_op e s d))) a) \<Longrightarrow> f \<in> set (to_send s a) \<or> fr_id f < db_nextId d"
    and "sk_maxInFlightPerAgent (fst (snd (socket_op e s d))) = sk_maxInFlightPerAgent s"
    and "sk_maxInFlightPerAgentChat (fst (snd (socket_op e s d))) = sk_maxInFlightPerAgentChat s"
proof -
  let ?s' = "fst (snd (socket_op e s d))"
  have shrunk: "(i \<in> set (bucket_of s' a k) \<longrightarrow> i \<in> set (bucket_of s a k)) \<and> (f \<in> set (to_send s' a) \<longrightarrow> f \<in> set (to_send s0 a)) \<and>
      sk_maxInFlightPerAgent s' = sk_maxInFlightPerAgent s \<and> sk_maxInFlightPerAgentChat s' = sk_maxInFlightPerAgentChat s"
    if "shrinks s0 s'" "s0 = s \<or> s0 = s\<lparr>sk_job := JIdle\<rparr>" for s' s0
    using that assms(1) by (auto simp: shrinks_def to_send_def subset_iff)
  have "(i \<in> set (bucket_of ?s' a k) \<longrightarrow>
      i \<in> set (bucket_of s a k) \<or> (\<exists>f. FrDeliver f \<in> set (fst (socket_op e s d)) \<and> fr_id f = i \<and> f \<in> set (to_send s a))) \<and>
    (f \<in> set (to_send ?s' a) \<longrightarrow> f \<in> set (to_send s a) \<or> fr_id f < db_nextId d) \<and>
    sk_maxInFlightPerAgent ?s' = sk_maxInFlightPerAgent s \<and> sk_maxInFlightPerAgentChat ?s' = sk_maxInFlightPerAgentChat s"
  proof (cases "\<exists>env. e = SoRun env")
    case False
    with op_shrinks [of e s d] shrunk show ?thesis by blast
  next
    case True
    then obtain env where e: "e = SoRun env" ..
    show ?thesis
    proof (cases "sk_job s")
      case (JDrain a' i' trigger)
      have eq: "?s' = fst (drain_claim env a' i' trigger s d)" by (simp add: e run_job_def JDrain)
      show ?thesis
      proof (rule drain_claim_cases [of env a' i' trigger s d])
        assume "shrinks (s\<lparr>sk_job := JIdle\<rparr>) (fst (drain_claim env a' i' trigger s d))"
        moreover have "to_send (s\<lparr>sk_job := JIdle\<rparr>) a = []" by (simp add: to_send_def)
        ultimately show ?thesis using shrunk unfolding eq by fastforce
      next
        fix s2 ids fs d'
        assume r: "drain_claim env a' i' trigger s d = (s2\<lparr>sk_job := JPush a' fs\<rparr>, d')" "s2 = s\<lparr>sk_job := JIdle\<rparr>"
          and c: "claimed_by env a' i' trigger s2 d ids fs d'"
        have "fr_id f < db_nextId d" if "f \<in> set fs" for f
          using claimed_member [OF assms(2) c that] table_wfD(2) [OF assms(2)] by metis
        with r show ?thesis unfolding eq by (auto simp: to_send_def)
      qed
    next
      case (JPush a' fs)
      have wf: "in_flight_wf (s\<lparr>sk_job := JIdle\<rparr>)" using assms(1) by simp
      have eq: "?s' = snd (push_entries a' fs (s\<lparr>sk_job := JIdle\<rparr>))" "fst (socket_op e s d) = fst (push_entries a' fs (s\<lparr>sk_job := JIdle\<rparr>))"
        by (simp_all add: e run_job_def JPush split_beta)
      show ?thesis using push_custody [OF wf, of i a' fs a k] push_parts(4,7,8) [OF wf, of a' fs] JPush
        unfolding eq by (auto simp: to_send_def)
    qed (simp add: e run_job_def)
  qed
  then show "i \<in> set (bucket_of ?s' a k) \<Longrightarrow>
      i \<in> set (bucket_of s a k) \<or> (\<exists>f. FrDeliver f \<in> set (fst (socket_op e s d)) \<and> fr_id f = i \<and> f \<in> set (to_send s a))"
    "f \<in> set (to_send ?s' a) \<Longrightarrow> f \<in> set (to_send s a) \<or> fr_id f < db_nextId d"
    "sk_maxInFlightPerAgent ?s' = sk_maxInFlightPerAgent s" "sk_maxInFlightPerAgentChat ?s' = sk_maxInFlightPerAgentChat s" by blast+
qed

lemma step_parts:
  "sw_socket (socket_step w e) = fst (snd (socket_op e (sw_socket w) (sw_db w)))"
  "sw_db (socket_step w e) = snd (snd (socket_op e (sw_socket w) (sw_db w)))"
  "sw_frames (socket_step w e) = sw_frames w @ fst (socket_op e (sw_socket w) (sw_db w))"
  by (simp_all add: socket_step_def split_beta)

lemma world_step:
  assumes "world_ok w"
  shows "world_ok (socket_step w e)"
proof -
  let ?s = "sw_socket w" and ?d = "sw_db w"
  have wf: "table_wf ?d" "caps_ok ?s" "in_flight_wf ?s" using assms by (simp_all add: world_ok_def caps_ok_def)
  note parts = op_parts [OF wf(3,1)]
  have next_id: "db_nextId ?d \<le> db_nextId (snd (snd (socket_op e ?s ?d)))" by (rule op_table(2) [OF wf(1)])
  have "delivered_here (socket_step w e) i \<and> i < db_nextId (sw_db (socket_step w e))"
    if i: "i \<in> set (bucket_of (sw_socket (socket_step w e)) a k)" for a k i
    using parts(1) [OF i [unfolded step_parts]] assms next_id unfolding world_ok_def delivered_here_def step_parts by fastforce
  moreover have "fr_id f < db_nextId (sw_db (socket_step w e))" if f: "f \<in> set (to_send (sw_socket (socket_step w e)) a)" for a f
    using parts(2) [OF f [unfolded step_parts]] assms next_id unfolding world_ok_def step_parts by fastforce
  ultimately show ?thesis using op_table(1) [OF wf(1)] op_caps [OF wf(2,1)] unfolding world_ok_def by (simp add: step_parts)
qed

definition fresh_world :: "socket_world \<Rightarrow> bool" where
  "fresh_world w \<longleftrightarrow> (\<exists>cap chatCap owners versions evs. 0 \<le> cap \<and> 0 \<le> chatCap \<and>
     w = new_world cap chatCap (inbox_run (new_inbox owners versions) evs))"

interpretation socket_worlds: invariant_system fresh_world "\<lambda>w w'. \<exists>e. w' = socket_step w e" world_ok
proof unfold_locales
  show "world_ok w" if "fresh_world w" for w
    using that run_wf [OF new_inbox_wf]
    by (auto simp: fresh_world_def new_world_def new_socket_def world_ok_def caps_ok_def to_send_def in_flight_wf_def by_chat_def
        bucket_of_def inboxInFlightCount_def)
  show "world_ok w'" if "\<exists>e. w' = socket_step w e" "world_ok w" for w w'
    using that world_step by blast
qed

lemma run_reaches:
  assumes "fresh_world w"
  shows "reaches fresh_world (\<lambda>w w'. \<exists>e. w' = socket_step w e) (socket_run w es)"
proof (induction es rule: rev_induct)
  case (snoc e es)
  then show ?case by (auto simp: socket_run_def intro: moves)
qed (simp add: socket_run_def begins assms)

lemma run_ok: "fresh_world w \<Longrightarrow> world_ok (socket_run w es)"
  using socket_worlds.always [OF run_reaches] .

lemma run_constants:
  assumes "world_ok w"
  shows "sk_maxInFlightPerAgent (sw_socket (socket_run w es)) = sk_maxInFlightPerAgent (sw_socket w) \<and>
    sk_maxInFlightPerAgentChat (sw_socket (socket_run w es)) = sk_maxInFlightPerAgentChat (sw_socket w)"
  using assms
proof (induction es arbitrary: w)
  case (Cons e es)
  have "in_flight_wf (sw_socket w)" "table_wf (sw_db w)" using Cons.prems by (simp_all add: world_ok_def caps_ok_def)
  from op_parts(3,4) [OF this, of e] Cons.IH [OF world_step [OF Cons.prems, of e]] show ?case
    by (simp add: socket_run_def step_parts)
qed (simp add: socket_run_def)

end
