(* ===== verification/SocketCustody.thy ===== *)
theory SocketCustody
  imports SocketProperties
begin

text \<open>
  The custody a socket takes of the deliveries it sends: how many it may hold, and which ones it may
  settle.
\<close>

section \<open>A run for the witnesses\<close>

definition demo_op_env :: op_env where
  "demo_op_env = \<lparr>oe_busy = \<lambda>i. False, oe_supported = True, oe_now = 9, oe_route = \<lambda>a. RoutedHere, oe_fails = \<lambda>c. False\<rparr>"

definition demo_binding :: "socket_event list" where
  "demo_binding = [SoBind ''b'' ''ib'', SoReset demo_op_env ''b'' ''ib'', SoDrain ''b'' ''ib'' TrBind, SoRun demo_op_env, SoRun demo_op_env]"


section \<open>Custody\<close>

lemma fresh_new_world:
  "0 \<le> cap \<Longrightarrow> 0 \<le> chatCap \<Longrightarrow> fresh_world (new_world cap chatCap (inbox_run (new_inbox owners versions) evs))"
  unfolding fresh_world_def by blast

lemma snapshot_length:
  assumes "in_flight_wf s"
  shows "snapshotCurrentSocketDeliverySet s i = [] \<or>
    (\<exists>a c. length (snapshotCurrentSocketDeliverySet s i) = length (bucket_of s a (inboxChatKey c)))"
proof (cases "js_get (sk_owners s) i")
  case (Some owner)
  let ?a = "io_agentId owner" and ?k = "io_chatKey owner"
  have same: "snapshotCurrentSocketDeliverySet s i = sort (bucket_of s ?a ?k)"
    using Some by (simp add: snapshotCurrentSocketDeliverySet_def bucket_of_def split: option.split)
  show ?thesis
  proof (cases "js_get (by_chat s ?a) ?k")
    case None
    then show ?thesis by (simp add: same bucket_by_chat)
  next
    case (Some b)
    with in_flight_wfD(2) [OF assms Some] show ?thesis unfolding same by (metis length_sort)
  qed
qed (simp add: snapshotCurrentSocketDeliverySet_def)

text \<open>
  C13. Whatever happens on a socket and in the table, an agent never has more deliveries in flight on it
  than the agent's cap, and no more of one chat than the cap of a chat, although claims, acknowledgements,
  recoveries, binds and clean-ups interleave. So the set that an acknowledgement carries to the database is bounded by
  the cap of a chat as well.
\<close>

theorem in_flight_is_capped:
  assumes "0 \<le> cap" and "0 \<le> chatCap"
    and "w = socket_run (new_world cap chatCap (inbox_run (new_inbox owners versions) evs)) es"
  shows "int (inboxInFlightCount (sw_socket w) a) \<le> cap \<and> int (inboxInFlightCountForChat (sw_socket w) a c) \<le> chatCap \<and>
    int (length (snapshotCurrentSocketDeliverySet (sw_socket w) i)) \<le> chatCap"
proof -
  let ?w = "new_world cap chatCap (inbox_run (new_inbox owners versions) evs)"
  have fresh: "fresh_world ?w" by (rule fresh_new_world [OF assms(1,2)])
  have ok: "caps_ok (sw_socket w)" using run_ok [OF fresh, of es] by (simp add: assms(3) world_ok_def)
  have "sk_maxInFlightPerAgent (sw_socket w) = cap" "sk_maxInFlightPerAgentChat (sw_socket w) = chatCap"
    using run_constants [OF socket_worlds.start_inv [OF fresh], of es] by (simp_all add: assms(3) new_world_def new_socket_def)
  then have total: "int (inboxInFlightCount (sw_socket w) a + length (to_send (sw_socket w) a)) \<le> cap"
    and chat: "int (length (bucket_of (sw_socket w) a (inboxChatKey c)) + length (filter (\<lambda>f. fr_chatId f = c) (to_send (sw_socket w) a))) \<le> chatCap"
    for a c using ok by (simp_all add: caps_ok_def)
  have "int (inboxInFlightCount (sw_socket w) a) \<le> cap" using total [of a] by linarith
  moreover have "int (length (bucket_of (sw_socket w) a (inboxChatKey c))) \<le> chatCap" for a c using chat [of a c] by linarith
  moreover have "in_flight_wf (sw_socket w)" using ok by (simp add: caps_ok_def)
  ultimately show ?thesis using snapshot_length [of "sw_socket w" i] assms(2) by (auto simp: count_chat)
qed

theorem in_flight_is_capped_witness:
  "int (inboxInFlightCountForChat (sw_socket (socket_run (new_world 8 2 (inbox_run demo_inbox demo_events)) demo_binding)) ''b'' (Some ''c'')) \<le> 2 \<and>
   inboxInFlightCountForChat (sw_socket (socket_run (new_world 8 2 (inbox_run demo_inbox demo_events)) demo_binding)) ''b'' (Some ''c'') = 2"
proof -
  have "inboxInFlightCountForChat (sw_socket (socket_run (new_world 8 2 (inbox_run (new_inbox [(''ib'', ''b'')] []) demo_events)) demo_binding))
      ''b'' (Some ''c'') = 2" by code_simp
  moreover have "int (inboxInFlightCountForChat (sw_socket (socket_run (new_world 8 2 (inbox_run (new_inbox [(''ib'', ''b'')] []) demo_events)) demo_binding))
      ''b'' (Some ''c'')) \<le> 2"
    using in_flight_is_capped [of 8 2, OF _ _ refl] by simp
  ultimately show ?thesis by (simp add: demo_inbox_def)
qed

text \<open>
  C12. A waking delivery is settled through a socket only by an acknowledgement of the client for it or for a later
  entry, and only if this very socket has sent the delivery to the client before. No bind, recovery, drain, probe or
  close settles anything.
\<close>

theorem settled_only_where_delivered:
  assumes "0 \<le> cap" and "0 \<le> chatCap"
    and "w = socket_run (new_world cap chatCap (inbox_run (new_inbox owners versions) evs)) es"
    and "\<forall>ev. e \<noteq> SoDb ev" and "r \<in> set (db_rows (sw_db w))" and "row_notify r" and "row_status r \<noteq> StAcked"
    and "r' \<in> set (db_rows (sw_db (socket_step w e)))" and "row_id r' = row_id r" and "row_status r' = StAcked"
  shows "\<exists>env i ref f. e = SoAck env i ref \<and> row_id r \<le> i \<and> FrDeliver f \<in> set (sw_frames w) \<and> fr_id f = row_id r"
proof -
  have ok: "world_ok w" unfolding assms(3) by (rule run_ok [OF fresh_new_world [OF assms(1,2)]])
  then have wf: "table_wf (sw_db w)" "in_flight_wf (sw_socket w)" by (simp_all add: world_ok_def caps_ok_def)
  have wf': "table_wf (sw_db (socket_step w e))" using world_step [OF ok, of e] by (simp add: world_ok_def)
  show ?thesis
  proof (rule op_event [of e "sw_socket w" "sw_db w"])
    show "e \<noteq> SoDb ev" for ev using assms(4) by blast
  next
    assume "snd (snd (socket_op e (sw_socket w) (sw_db w))) = sw_db w"
    then have "r' = r" using assms(5,8,9) row_unique [OF wf(1)] by (simp add: step_parts)
    with assms(7,10) show ?thesis by simp
  next
    fix ev assume ev: "snd (snd (socket_op e (sw_socket w) (sw_db w))) = inbox_step (sw_db w) ev" "\<And>r. \<not> silences ev r"
      and ack: "\<And>r. acks ev r \<Longrightarrow> \<exists>env i ref. e = SoAck env i ref \<and> row_id r \<le> i \<and>
        (\<exists>s1. shrinks (sw_socket w) s1 \<and> row_id r \<in> set (snapshotCurrentSocketDeliverySet s1 i))"
    obtain x where x: "x \<in> set (db_rows (inbox_step (sw_db w) ev))" "row_change ev r x" using step_row [OF wf(1) assms(5,6)] by blast
    then have "row_id x = row_id r" using change_key by (metis fst_conv row_key_def)
    then have "x = r'" using row_unique [OF wf' _ assms(8)] x(1) ev(1) assms(9) by (simp add: step_parts)
    then have "acks ev r" using x(2) assms(6,7,10) ev(2) by (auto simp: row_change_def)
    from ack [OF this] obtain env i ref s1 where a: "e = SoAck env i ref" "row_id r \<le> i" "shrinks (sw_socket w) s1"
      "row_id r \<in> set (snapshotCurrentSocketDeliverySet s1 i)" by blast
    from snapshot_bucket [OF a(4)] obtain b k where "row_id r \<in> set (bucket_of s1 b k)" by blast
    then have "row_id r \<in> set (bucket_of (sw_socket w) b k)" using a(3) wf(2) by (auto simp: shrinks_def)
    with ok have "delivered_here w (row_id r)" by (simp add: world_ok_def)
    with a(1,2) show ?thesis by (auto simp: delivered_here_def)
  qed
qed

theorem settled_only_where_delivered_witness:
  "\<exists>f. FrDeliver f \<in> set (sw_frames (socket_run (new_world 8 2 (inbox_run demo_inbox demo_events)) demo_binding)) \<and> fr_id f = 1"
proof -
  let ?w = "socket_run (new_world 8 2 (inbox_run (new_inbox [(''ib'', ''b'')] []) demo_events)) demo_binding"
  let ?e = "SoAck demo_op_env 3 (Some ''ref'')"
  let ?r = "demo_row 1 (sw_db ?w)" and ?r' = "demo_row 1 (sw_db (socket_step ?w ?e))"
  have r: "?r \<in> set (db_rows (sw_db ?w))" "row_notify ?r" "row_status ?r \<noteq> StAcked"
    "?r' \<in> set (db_rows (sw_db (socket_step ?w ?e)))" "row_id ?r' = row_id ?r" "row_status ?r' = StAcked" and id: "row_id ?r = 1" by code_simp+
  have "\<forall>ev. ?e \<noteq> SoDb ev" by simp
  from settled_only_where_delivered [OF _ _ refl this r] show ?thesis by (auto simp: id demo_inbox_def)
qed

end
