(* ===== verification/SocketSteps.thy ===== *)
theory SocketSteps
  imports SocketCustody
begin

text \<open>
  The single steps of a socket, seen from one chat of one agent: what a drain hands out when the chat has
  no room, what an operation on other agents spares, and what may be sent.
\<close>

section \<open>A chat without room\<close>

definition part :: "string \<Rightarrow> string \<Rightarrow> inbox_row \<Rightarrow> bool" where
  "part i c r \<longleftrightarrow> row_inboxId r = i \<and> row_chatId r = Some c"

text \<open>A drain of the agent finds no room for the chat.\<close>

definition no_room :: "socket_state \<Rightarrow> string \<Rightarrow> string \<Rightarrow> drain_trigger \<Rightarrow> bool" where
  "no_room s a c trigger \<longleftrightarrow>
     (case trigger of TrRecover c' \<Rightarrow> c' \<noteq> c \<or> chat_room s a (Some c) = 0 | _ \<Rightarrow> circuit_open s a c \<or> chat_room s a (Some c) = 0)"

lemma claimed_out:
  assumes "table_wf d" and "in_flight_wf s" and c: "claimed_by env a' i' trigger s d ids fs d'" and pair: "i' = i \<longleftrightarrow> a' = a"
    and room: "a' = a \<Longrightarrow> no_room s a c trigger" and r: "r \<in> set (db_rows d)" "row_id r \<in> set ids"
  shows "\<not> part i c r \<and> (a' = a \<longrightarrow> row_chatId r \<noteq> Some c)"
proof -
  have inbox: "row_inboxId r = i'"
    using claimed_row [OF assms(1) claimed_ids [OF c] r] by (simp add: claimable_def)
  have "row_chatId r \<noteq> Some c" if a: "a' = a"
  proof (cases "\<exists>c'. trigger = TrRecover c'")
    case True
    then obtain c' where t: "trigger = TrRecover c'" ..
    have chat: "row_chatId r = Some c'" using c r poll_ids_iff [OF assms(1) r(1)] by (auto simp: claimed_by_def t)
    have "length ids \<le> nat (drain_limit s a' (TrRecover c'))" using c poll_length by (auto simp: claimed_by_def t)
    also have "\<dots> \<le> chat_room s a (Some c')"
      using nat_mono [OF drain_limits(2) [of s a c']] by (simp add: chat_room_def count_chat a)
    finally have "chat_room s a (Some c') \<noteq> 0" using r(2) by (cases ids) auto
    with room [OF a] chat show ?thesis by (auto simp: no_room_def t)
  next
    case False
    let ?b = "inboxInFlightChatBudgets s a" and ?cap = "nat (sk_maxInFlightPerAgentChat s)"
    have ids: "ids = fair_ids (oe_busy env) i' (nat (drain_limit s a trigger)) ?cap ?b d"
      using c r(2) False a by (cases trigger) (auto simp: claimed_by_def)
    have w: "within_budget i' ?cap ?b d r" using fair_within [OF assms(1) r(1)] r(2) unfolding ids by blast
    then have "r \<in> set (filter (\<lambda>y. row_chatId y = row_chatId r \<and> row_id y \<le> row_id r) (filter (claimable i') (db_rows d)))"
      using r(1) by (simp add: within_budget_def)
    then have "0 < chat_rank (filter (claimable i') (db_rows d)) r" unfolding chat_rank_def by (rule length_pos_if_in_set)
    then have "0 < chat_budget ?cap ?b (row_chatId r)" using w by (simp add: within_budget_def)
    then show ?thesis using room [OF a] False unfolding offered_room [OF assms(2)]
      by (cases trigger) (auto simp: no_room_def split: if_splits)
  qed
  with inbox pair show ?thesis by (auto simp: part_def)
qed

text \<open>Rows after an event are the rows before it or new ones.\<close>

lemma row_origin:
  assumes "table_wf d" and "r' \<in> set (db_rows (inbox_step d ev))"
  shows "(\<exists>r \<in> set (db_rows d). row_change ev r r') \<or> db_nextId d \<le> row_id r'"
proof -
  obtain f p xs where s: "db_rows (inbox_step d ev) = map f (filter p (db_rows d)) @ xs"
    "\<forall>r \<in> set (db_rows d). row_change ev r (f r)" "\<forall>r \<in> set xs. db_nextId d \<le> row_id r"
    using step_shape [OF assms(1), of ev] unfolding shape_def fresh_row_def by blast
  from s(1) assms(2) consider r where "r \<in> set (db_rows d)" "r' = f r" | "r' \<in> set xs" by auto
  then show ?thesis by cases (use s(2,3) in \<open>blast+\<close>)
qed

lemma rows_after:
  assumes "table_wf d" and "r' \<in> set (db_rows (snd (snd (socket_op e s d))))"
  shows "(\<exists>r \<in> set (db_rows d). row_key r = row_key r') \<or> db_nextId d \<le> row_id r'"
proof -
  have ev: "(\<exists>r \<in> set (db_rows d). row_key r = row_key r') \<or> db_nextId d \<le> row_id r'" if "r' \<in> set (db_rows (inbox_step d ev))" for ev
    using row_origin [OF assms(1) that] change_key by metis
  show ?thesis
  proof (cases "\<exists>ev. e = SoDb ev")
    case True
    with assms(2) ev show ?thesis by auto
  next
    case False
    show ?thesis
    proof (rule op_event [of e s d])
      show "snd (snd (socket_op e s d)) = d \<Longrightarrow> ?thesis" using assms(2) by auto
      show "snd (snd (socket_op e s d)) = inbox_step d ev \<Longrightarrow> ?thesis" for ev using assms(2) ev by simp
    qed (use False in blast)
  qed
qed

section \<open>What an operation leaves to another agent\<close>

definition nul_free :: "string \<Rightarrow> bool" where
  "nul_free a \<longleftrightarrow> CHR 0x00 \<notin> set a"

lemma key_inj:
  assumes "nul_free a" and "nul_free a'" and "inboxRecoverProgressKey a c = inboxRecoverProgressKey a' c'"
  shows "a = a' \<and> c = c'"
proof -
  have "takeWhile (\<lambda>x. x \<noteq> CHR 0x00) (inboxRecoverProgressKey b e) = b" if "nul_free b" for b e
  proof -
    have "x \<noteq> CHR 0x00" if "x \<in> set b" for x using that \<open>nul_free b\<close> by (auto simp: nul_free_def)
    then show ?thesis by (simp add: inboxRecoverProgressKey_def takeWhile_append2)
  qed
  with assms have "a = a'" by metis
  with assms(3) show ?thesis by (simp add: inboxRecoverProgressKey_def)
qed

lemma prefix_key:
  assumes "nul_free a" and "nul_free a'" and "starts_with (a' @ [CHR 0x00]) (inboxRecoverProgressKey a c)"
  shows "a' = a"
proof -
  obtain t where "inboxRecoverProgressKey a c = inboxRecoverProgressKey a' t"
    using assms(3) by (auto simp: starts_with_iff prefix_def inboxRecoverProgressKey_def)
  from key_inj [OF assms(1,2) this] show ?thesis by simp
qed

definition agents_nul_free :: "socket_state \<Rightarrow> bool" where
  "agents_nul_free s \<longleftrightarrow> (\<forall>(y, z) \<in> set (sk_boundAgents s). nul_free y)"

lemma delete_sub: "set (js_delete m k) \<subseteq> set m"
  by (auto simp: AList.delete_eq)

lemma update_sub: "set (js_set m k v) \<subseteq> insert (k, v) (set m)"
  by (induction m) auto

text \<open>The in-flight set of agent \<open>a\<close> and the progress of its chat \<open>c\<close> stay as they are.\<close>

definition spares :: "string \<Rightarrow> string \<Rightarrow> socket_state \<Rightarrow> socket_state \<Rightarrow> bool" where
  "spares a c s s' \<longleftrightarrow> (in_flight_wf s \<longrightarrow> (\<forall>k. bucket_of s' a k = bucket_of s a k)) \<and>
     set (sk_boundAgents s') \<subseteq> set (sk_boundAgents s) \<and>
     (nul_free a \<and> agents_nul_free s \<longrightarrow>
        js_get (sk_recoverProgress s') (inboxRecoverProgressKey a c) = js_get (sk_recoverProgress s) (inboxRecoverProgressKey a c))"

lemma spares_refl [simp]: "spares a c s s"
  by (simp add: spares_def)

lemma spares_trans:
  assumes "shrinks s s'" and "spares a c s s'" and "spares a c s' s''"
  shows "spares a c s s''"
proof -
  have "agents_nul_free s \<longrightarrow> agents_nul_free s'" using assms(2) by (auto simp: spares_def agents_nul_free_def)
  with assms show ?thesis unfolding spares_def shrinks_def by fastforce
qed

lemma filter_get: "(\<And>v. P (k, v)) \<Longrightarrow> js_get (filter P m) k = js_get m k"
  by (induction m) auto

lemma clear_progress_get:
  "nul_free a \<Longrightarrow> nul_free a' \<Longrightarrow> a' \<noteq> a \<Longrightarrow>
   js_get (sk_recoverProgress (clearInboxRecoverProgress a' None s)) (inboxRecoverProgressKey a c) =
   js_get (sk_recoverProgress s) (inboxRecoverProgressKey a c)"
  using prefix_key [of a a' c] by (auto simp: clearInboxRecoverProgress_def intro!: filter_get)

lemma drop_spares:
  assumes "a' \<noteq> a" and "js_has (sk_boundAgents s) a'"
  shows "spares a c s (dropLocalAgentBinding a' s)"
proof -
  let ?s = "clearInboxRecoverProgress a' None (s\<lparr>sk_boundAgents := js_delete (sk_boundAgents s) a',
      sk_lastRepair := js_delete (sk_lastRepair s) a'\<rparr>)"
  have eq: "dropLocalAgentBinding a' s = clearInboxInFlightForAgent a' ?s"
    by (simp add: dropLocalAgentBinding_def clearAgent_def)
  have same: "in_flight_wf ?s = in_flight_wf s" "bucket_of ?s = bucket_of s" by (rule same_in_flight; simp)+
  have "agents_nul_free s \<Longrightarrow> nul_free a'" using assms(2) by (force simp: agents_nul_free_def js_has_def dest: map_of_SomeD)
  moreover have "set (js_delete (sk_boundAgents s) a') \<subseteq> set (sk_boundAgents s)" by (rule delete_sub)
  ultimately show ?thesis using assms(1) unfolding eq
    by (auto simp: spares_def clear_effect same clear_progress_get split: if_splits)
qed

lemma ensure_spares: "route a \<noteq> RouteChanged \<Longrightarrow> spares a c s (snd (ensureAgentStillRoutedHere (route x) x s))"
  by (cases "x = a"; cases "route x"; simp add: ensureAgentStillRoutedHere_def drop_spares)

lemma routed_spares:
  "route a \<noteq> RouteChanged \<Longrightarrow> spares a c s (snd (routed_agents route as s))"
  "set (fst (routed_agents route as s)) \<subseteq> set as"
proof (induction route as s rule: routed_agents.induct)
  case (2 route x i as s)
  obtain ok s1 where e: "ensureAgentStillRoutedHere (route x) x s = (ok, s1)" by (metis surj_pair)
  {
    case 1
    have "shrinks s s1" "spares a c s s1" using ensure_shrinks [of s "route x" x] ensure_spares [of route a c s x, OF 1] e by simp_all
    from spares_trans [OF this "2.IH"(1) [OF e [symmetric] 1]] show ?case by (simp add: e split_beta)
  next
    case 2
    show ?case using "2.IH"(2) [OF e [symmetric]] by (auto simp: e split_beta)
  }
qed simp_all


text \<open>
  Events that leave the binding of agent \<open>a\<close> to inbox \<open>i\<close> alone, and no other agent has that inbox. A drain
  that is queued from outside is one of a notification, a bind or a repair.
\<close>

fun bound_steadily :: "string \<Rightarrow> string \<Rightarrow> socket_event \<Rightarrow> bool" where
  "bound_steadily a i (SoAck env j ref) = (oe_route env a \<noteq> RouteChanged)"
| "bound_steadily a i (SoRecover env ref x c) = (oe_route env a \<noteq> RouteChanged)"
| "bound_steadily a i (SoProbe env ref x c ms) = (oe_route env a \<noteq> RouteChanged)"
| "bound_steadily a i (SoDrain x i' t) = ((i' = i \<longleftrightarrow> x = a) \<and> (\<forall>c. t \<noteq> TrRecover c))"
| "bound_steadily a i (SoRun env) = (oe_route env a \<noteq> RouteChanged)"
| "bound_steadily a i (SoBind x i') = (i' = i \<longleftrightarrow> x = a)"
| "bound_steadily a i (SoUnbind env x) = (oe_route env a \<noteq> RouteChanged \<and> x \<noteq> a)"
| "bound_steadily a i (SoCheck env x) = (oe_route env a \<noteq> RouteChanged)"
| "bound_steadily a i SoClose = False"
| "bound_steadily a i e = True"

definition paired :: "string \<Rightarrow> string \<Rightarrow> socket_state \<Rightarrow> bool" where
  "paired a i s \<longleftrightarrow> (\<forall>(x, i') \<in> set (sk_boundAgents s). i' = i \<longleftrightarrow> x = a) \<and>
     (\<forall>x i' t. sk_job s = JDrain x i' t \<longrightarrow> (i' = i \<longleftrightarrow> x = a))"

lemma progress_spares: "nul_free a' \<Longrightarrow> a' \<noteq> a \<Longrightarrow> spares a c s (clearInboxRecoverProgress a' chat s)"
proof -
  assume "nul_free a'" "a' \<noteq> a"
  moreover have "bucket_of (clearInboxRecoverProgress a' chat s) = bucket_of s" by (rule same_in_flight) simp_all
  moreover have "js_get (sk_recoverProgress (clearInboxRecoverProgress a' (Some c') s)) (inboxRecoverProgressKey a c) =
      js_get (sk_recoverProgress s) (inboxRecoverProgressKey a c)" if "nul_free a" for c'
    using key_inj [OF that \<open>nul_free a'\<close>, of c c'] \<open>a' \<noteq> a\<close> by (auto simp: clearInboxRecoverProgress_def)
  ultimately show ?thesis by (cases chat) (auto simp: spares_def clear_progress_get)
qed

lemma unbind_spares:
  assumes "oe_route env a \<noteq> RouteChanged" and "x \<noteq> a"
  shows "spares a c s (snd (unbind_frame env x s))"
proof -
  let ?s = "snd (ensureAgentStillRoutedHere (oe_route env x) x s)"
  let ?t = "clearAfterUnbind x (?s\<lparr>sk_boundAgents := js_delete (sk_boundAgents ?s) x\<rparr>)"
  let ?u = "?s\<lparr>sk_boundAgents := js_delete (sk_boundAgents ?s) x, sk_lastRepair := js_delete (sk_lastRepair ?s) x\<rparr>"
  have "in_flight_wf ?u = in_flight_wf ?s" "bucket_of ?u = bucket_of ?s" by (rule same_in_flight; simp)+
  moreover have "set (js_delete (sk_boundAgents ?s) x) \<subseteq> set (sk_boundAgents ?s)" by (rule delete_sub)
  ultimately have "spares a c ?s ?t" using assms(2) by (auto simp: spares_def clearAfterUnbind_def clear_effect split: if_splits)
  from spares_trans [OF ensure_shrinks ensure_spares [of "oe_route env", OF assms(1)] this] show ?thesis
    by (simp add: unbind_frame_def Let_def split_beta)
qed

lemma same_spares:
  assumes "sk_inFlightByAgent s' = sk_inFlightByAgent s" and "sk_owners s' = sk_owners s" and "sk_boundAgents s' = sk_boundAgents s"
    and "sk_recoverProgress s' = sk_recoverProgress s"
  shows "spares a c s s'"
  using same_in_flight [OF assms(1,2)] assms(3,4) by (simp add: spares_def)

section \<open>The single steps\<close>

lemma ensure_job: "sk_job (snd (ensureAgentStillRoutedHere answer x s)) = sk_job s"
  by (simp add: ensureAgentStillRoutedHere_def dropLocalAgentBinding_def clearAgent_def split: agent_route.split)

lemma routed_job: "sk_job (snd (routed_agents route as s)) = sk_job s"
proof (induction route as s rule: routed_agents.induct)
  case (2 route x i as s)
  obtain ok s1 where e: "ensureAgentStillRoutedHere (route x) x s = (ok, s1)" by (metis surj_pair)
  with "2.IH" [OF e [symmetric]] ensure_job [of "route x" x s] show ?case by (simp add: split_beta)
qed simp

text \<open>An acknowledgement that commits something, or one that leaves the socket as it was.\<close>

lemma ack_cases:
  assumes "oe_route env a \<noteq> RouteChanged"
  obtains "spares a c s (fst (snd (ack_frame env j ref s d)))" "sk_job (fst (snd (ack_frame env j ref s d))) = sk_job s"
  | s1 e ids x i' disp d' current where "shrinks s s1" "spares a c s s1"
      "ackThroughEntryIdForBoundAgents (oe_now env) j current (snapshotCurrentSocketDeliverySet s1 j) d = (AckOk e disp ids, d')"
      "ids \<noteq> []" "(x, i') \<in> set (sk_boundAgents s)" "row_inboxId e = i'"
      "fst (snd (ack_frame env j ref s d)) =
         (removeInboxInFlight ids (case row_chatId e of Some c' \<Rightarrow> clearInboxRecoverProgress x (Some c') s1 | None \<Rightarrow> s1))\<lparr>sk_job := JDrain x i' TrAck\<rparr>"
proof -
  obtain routed s1 where r: "routed_agents (oe_route env) (sk_boundAgents s) s = (routed, s1)" by (metis surj_pair)
  have s1: "shrinks s s1" "spares a c s s1" and sub: "set routed \<subseteq> set (sk_boundAgents s)"
    using routed_shrinks [of s "oe_route env" "sk_boundAgents s"] routed_spares(1) [where route = "oe_route env" and a = a and c = c and as = "sk_boundAgents s" and s = s]
    routed_spares(2) [of "oe_route env" "sk_boundAgents s" s] assms r by simp_all
  have job: "sk_job s1 = sk_job s"
    using routed_job [of "oe_route env" "sk_boundAgents s" s] r by simp
  let ?ack = "ackThroughEntryIdForBoundAgents (oe_now env) j (map snd routed) (snapshotCurrentSocketDeliverySet s1 j) d"
  show ?thesis
  proof (cases "\<exists>e disp ids x i'. fst ?ack = AckOk e disp ids \<and> ids \<noteq> [] \<and> find (\<lambda>(a, i). i = row_inboxId e) routed = Some (x, i') \<and> \<not> oe_fails env CallAck")
    case True
    then obtain e disp ids x i' where a: "fst ?ack = AckOk e disp ids" "ids \<noteq> []"
      "find (\<lambda>(a, i). i = row_inboxId e) routed = Some (x, i')" "\<not> oe_fails env CallAck" by blast
    from a(3) have "(x, i') \<in> set routed" "row_inboxId e = i'" by (auto simp: find_Some_iff in_set_conv_nth)
    moreover have "?ack = (AckOk e disp ids, snd ?ack)" using a(1) by (metis prod.collapse)
    moreover have "fst (snd (ack_frame env j ref s d)) =
         (removeInboxInFlight ids (case row_chatId e of Some c' \<Rightarrow> clearInboxRecoverProgress x (Some c') s1 | None \<Rightarrow> s1))\<lparr>sk_job := JDrain x i' TrAck\<rparr>"
      using a by (simp add: ack_frame_def r Let_def split_beta cong: option.case_cong)
    ultimately show ?thesis using s1 a(2) sub by (intro that(2)) auto
  next
    case False
    then have "fst (snd (ack_frame env j ref s d)) = s1"
      by (auto simp: ack_frame_def r Let_def split_beta split: ack_result.split option.split)
    with s1 job show ?thesis by (intro that(1)) simp_all
  qed
qed

text \<open>A recovery that the circuit does not stop, or one that leaves the socket as it was.\<close>

lemma recover_cases:
  assumes "oe_route env a \<noteq> RouteChanged"
  obtains "spares a c s (fst (snd (recover_frame env ref x c' s d)))" "sk_job (fst (snd (recover_frame env ref x c' s d))) = sk_job s"
      "snd (snd (recover_frame env ref x c' s d)) = d"
  | i' where "(x, i') \<in> set (sk_boundAgents s)"
      "\<not> (\<exists>p. js_get (sk_recoverProgress s) (inboxRecoverProgressKey x c') = Some p \<and> rp_open p)"
      "snd (snd (recover_frame env ref x c' s d)) = snd (recoverUnackedForScope i' (Some c') d)"
      "fst (snd (recover_frame env ref x c' s d)) = snd (note_reset (inboxRecoverProgressKey x c') (fst (recoverUnackedForScope i' (Some c') d)) s) \<or>
       fst (snd (recover_frame env ref x c' s d)) = (snd (note_reset (inboxRecoverProgressKey x c') (fst (recoverUnackedForScope i' (Some c') d)) s))
         \<lparr>sk_job := JDrain x i' (TrRecover c')\<rparr>"
proof -
  obtain ok s1 where e: "ensureAgentStillRoutedHere (oe_route env x) x s = (ok, s1)" by (metis surj_pair)
  have s1: "spares a c s s1" "sk_job s1 = sk_job s"
    using ensure_spares [of "oe_route env" a c s x] ensure_job [of "oe_route env x" x s] assms e by simp_all
  let ?open = "\<exists>p. js_get (sk_recoverProgress s1) (inboxRecoverProgressKey x c') = Some p \<and> rp_open p"
  have open_iff: "(case js_get (sk_recoverProgress s1) (inboxRecoverProgressKey x c') of Some p \<Rightarrow> rp_open p | None \<Rightarrow> False) = ?open"
    by (simp split: option.split)
  show ?thesis
  proof (cases "js_get (sk_boundAgents s) x = None \<or> \<not> ok \<or> ?open \<or> oe_fails env CallRecover")
    case True
    then have "snd (recover_frame env ref x c' s d) = (s, d) \<or> snd (recover_frame env ref x c' s d) = (s1, d)"
      by (cases ok) (auto simp: recover_frame_def e Let_def split: option.split)
    with s1 show ?thesis by (intro that(1)) auto
  next
    case False
    then obtain i' where b: "js_get (sk_boundAgents s) x = Some i'" by (cases "js_get (sk_boundAgents s) x") auto
    have same: "s1 = s" using False e by (auto simp: ensureAgentStillRoutedHere_def split: if_splits agent_route.splits)
    let ?r = "recoverUnackedForScope i' (Some c') d"
    have "snd (recover_frame env ref x c' s d) =
        (if fst (note_reset (inboxRecoverProgressKey x c') (fst ?r) s) \<and> \<not> oe_fails env CallCount
         then (snd (note_reset (inboxRecoverProgressKey x c') (fst ?r) s))\<lparr>sk_job := JDrain x i' (TrRecover c')\<rparr>
         else snd (note_reset (inboxRecoverProgressKey x c') (fst ?r) s), snd ?r)"
      using False by (auto simp: recover_frame_def e b same open_iff [unfolded same] Let_def split_beta split: bool.split)
    then show ?thesis using map_of_SomeD [OF b] False by (intro that(2)) (auto simp: same split: if_splits)
  qed
qed


lemma job_spares: "spares a c s s' \<Longrightarrow> spares a c s (s'\<lparr>sk_job := j\<rparr>)" "spares a c (s\<lparr>sk_job := j\<rparr>) s' \<Longrightarrow> spares a c s s'"
  by (simp_all add: spares_def agents_nul_free_def)

lemma drain_spares:
  assumes "oe_route env a \<noteq> RouteChanged"
  shows "spares a c s (fst (drain_claim env x i' t s d))"
proof -
  let ?s = "s\<lparr>sk_job := JIdle\<rparr>"
  let ?s2 = "snd (ensureAgentStillRoutedHere (oe_route env x) x ?s)"
  have "spares a c s ?s2" by (rule job_spares(2) [where j = JIdle]) (rule ensure_spares [of "oe_route env", OF assms])
  moreover have "spares a c s ?s" by (simp add: job_spares)
  moreover have "fst (drain_claim env x i' t s d) \<in> {?s, ?s2} \<or> (\<exists>j. fst (drain_claim env x i' t s d) = ?s2\<lparr>sk_job := j\<rparr>)"
    by (auto simp: drain_claim_def Let_def split_beta split: bool.split sum.split)
  ultimately show ?thesis using job_spares(1) by auto
qed

fun plain :: "socket_event \<Rightarrow> bool" where
  "plain (SoAck env j ref) = False"
| "plain (SoRecover env ref x c) = False"
| "plain (SoRun env) = False"
| "plain (SoBind x i) = False"
| "plain e = True"

lemma plain_spares:
  assumes "bound_steadily a i e" and "plain e"
  shows "spares a c s (fst (snd (socket_op e s d)))"
    and "sk_job (fst (snd (socket_op e s d))) = sk_job s \<or> (\<exists>x i' t. e = SoDrain x i' t \<and> sk_job (fst (snd (socket_op e s d))) = JDrain x i' t)"
proof -
  have "spares a c s (fst (snd (socket_op e s d))) \<and>
    (sk_job (fst (snd (socket_op e s d))) = sk_job s \<or> (\<exists>x i' t. e = SoDrain x i' t \<and> sk_job (fst (snd (socket_op e s d))) = JDrain x i' t))"
  proof (cases e)
    case (SoProbe env ref x c' ms)
    have "fst (snd (probe_frame env ref x c' ms s d)) \<in> {s, snd (ensureAgentStillRoutedHere (oe_route env x) x s)}"
      by (auto simp: probe_frame_def Let_def split_beta split: option.split bool.split)
    with ensure_spares [of "oe_route env" a c s x] ensure_job [of "oe_route env x" x s] assms show ?thesis by (auto simp: SoProbe)
  next
    case (SoRepair now here x)
    then show ?thesis by (auto simp: maybeRepairInboxBacklog_def Let_def intro: same_spares)
  next
    case (SoUnbind env x)
    have "sk_job (snd (unbind_frame env x s)) = sk_job s"
      using ensure_job [of "oe_route env x" x s] by (simp add: unbind_frame_def clearAfterUnbind_def Let_def split_beta)
    with unbind_spares [of env a x c s] assms show ?thesis by (simp add: SoUnbind split_beta)
  next
    case SoClosing
    then show ?thesis by (auto intro: same_spares)
  qed (use assms in \<open>auto simp: ensure_spares ensure_job bind_reset_def job_spares\<close>)
  then show "spares a c s (fst (snd (socket_op e s d)))"
    "sk_job (fst (snd (socket_op e s d))) = sk_job s \<or> (\<exists>x i' t. e = SoDrain x i' t \<and> sk_job (fst (snd (socket_op e s d))) = JDrain x i' t)" by blast+
qed

lemma note_reset_parts:
  "sk_boundAgents (snd (note_reset key ids s)) = sk_boundAgents s" "sk_job (snd (note_reset key ids s)) = sk_job s"
  "bucket_of (snd (note_reset key ids s)) = bucket_of (removeInboxInFlight ids s)"
  "key' \<noteq> key \<Longrightarrow> js_get (sk_recoverProgress (snd (note_reset key ids s))) key' = js_get (sk_recoverProgress s) key'"
proof -
  show "bucket_of (snd (note_reset key ids s)) = bucket_of (removeInboxInFlight ids s)"
    by (rule same_in_flight; simp add: note_reset_def Let_def)
qed (simp_all add: note_reset_def Let_def)

text \<open>Where bindings and drains come from.\<close>

definition bound_from :: "socket_event \<Rightarrow> socket_state \<Rightarrow> socket_state \<Rightarrow> bool" where
  "bound_from e s s' \<longleftrightarrow> set (sk_boundAgents s') \<subseteq> set (sk_boundAgents s) \<union> {(x, i'). e = SoBind x i'} \<and>
     (\<forall>x i' t. sk_job s' = JDrain x i' t \<longrightarrow> sk_job s = JDrain x i' t \<or> e = SoDrain x i' t \<or>
        (x, i') \<in> set (sk_boundAgents s) \<and>
        (t = TrAck \<or> (\<exists>c. t = TrRecover c \<and> \<not> (\<exists>p. js_get (sk_recoverProgress s) (inboxRecoverProgressKey x c) = Some p \<and> rp_open p))))"

lemma op_bound:
  assumes "in_flight_wf s" and "bound_steadily a i e"
  shows "bound_from e s (fst (snd (socket_op e s d)))"
proof (cases "plain e")
  case True
  have "spares a undefined s (fst (snd (socket_op e s d)))" by (rule plain_spares(1) [OF assms(2) True])
  with plain_spares(2) [OF assms(2) True, of s d] show ?thesis by (auto simp: bound_from_def spares_def)
next
  case False
  have same: "bound_from e s s" by (auto simp: bound_from_def)
  from False consider env j ref where "e = SoAck env j ref" | env ref x c where "e = SoRecover env ref x c" | env where "e = SoRun env" | x i' where "e = SoBind x i'"
    by (cases e) auto
  then show ?thesis
  proof cases
    case (1 env j ref)
    have "bound_from e s (fst (snd (ack_frame env j ref s d)))"
    proof (rule ack_cases [of env a undefined s j ref d])
      show "oe_route env a \<noteq> RouteChanged" using assms(2) 1 by simp
      show "spares a undefined s (fst (snd (ack_frame env j ref s d))) \<Longrightarrow> sk_job (fst (snd (ack_frame env j ref s d))) = sk_job s \<Longrightarrow> ?thesis"
        by (auto simp: bound_from_def spares_def)
    next
      fix s1 e' ids x i' disp d' current
      assume "spares a undefined s s1" "(x, i') \<in> set (sk_boundAgents s)" "fst (snd (ack_frame env j ref s d)) =
       (removeInboxInFlight ids (case row_chatId e' of Some c' \<Rightarrow> clearInboxRecoverProgress x (Some c') s1 | None \<Rightarrow> s1))\<lparr>sk_job := JDrain x i' TrAck\<rparr>"
      moreover have "sk_boundAgents (case row_chatId e' of Some c' \<Rightarrow> clearInboxRecoverProgress x (Some c') s1 | None \<Rightarrow> s1) = sk_boundAgents s1"
        by (simp split: option.split)
      ultimately show ?thesis by (auto simp: bound_from_def spares_def)
    qed
    with 1 same show ?thesis by simp
  next
    case (2 env ref x c)
    have "bound_from e s (fst (snd (recover_frame env ref x c s d)))"
    proof (rule recover_cases [of env a undefined s ref x c d])
      show "oe_route env a \<noteq> RouteChanged" using assms(2) 2 by simp
      show "spares a undefined s (fst (snd (recover_frame env ref x c s d))) \<Longrightarrow> sk_job (fst (snd (recover_frame env ref x c s d))) = sk_job s \<Longrightarrow> ?thesis"
        by (auto simp: bound_from_def spares_def)
    qed (auto simp: bound_from_def note_reset_parts)
    with 2 same show ?thesis by simp
  next
    case (3 env)
    show ?thesis
    proof (cases "sk_job s")
      case (JDrain x i' t)
      have "spares a undefined s (fst (drain_claim env x i' t s d))" using assms(2) 3 by (intro drain_spares) simp
      moreover have "sk_job (fst (drain_claim env x i' t s d)) \<noteq> JDrain y k u" for y k u
        by (rule drain_claim_cases [of env x i' t s d]) simp_all
      ultimately show ?thesis by (auto simp: 3 run_job_def JDrain bound_from_def spares_def)
    next
      case (JPush x fs)
      have "in_flight_wf (s\<lparr>sk_job := JIdle\<rparr>)" using assms(1) by simp
      from push_parts(4,5) [OF this] show ?thesis by (simp add: 3 run_job_def JPush bound_from_def split_beta)
    qed (use same in \<open>simp add: 3 run_job_def\<close>)
  next
    case (4 x i')
    with update_sub [of x i' "sk_boundAgents s"] show ?thesis by (auto simp: bound_from_def bind_accept_def)
  qed
qed

lemma paired_step:
  assumes "paired a i s" and "in_flight_wf s" and "bound_steadily a i e"
  shows "paired a i (fst (snd (socket_op e s d)))"
proof -
  have b: "bound_from e s (fst (snd (socket_op e s d)))" by (rule op_bound [OF assms(2,3)])
  have pair: "i' = i \<longleftrightarrow> x = a" if "(x, i') \<in> set (sk_boundAgents s) \<or> sk_job s = JDrain x i' t \<or> e = SoBind x i' \<or> e = SoDrain x i' t" for x i' t
    using assms(1,3) that by (auto simp: paired_def)
  have "i' = i \<longleftrightarrow> x = a" if "(x, i') \<in> set (sk_boundAgents (fst (snd (socket_op e s d))))" for x i'
    using pair [of x i'] that b unfolding bound_from_def by blast
  moreover have "i' = i \<longleftrightarrow> x = a" if "sk_job (fst (snd (socket_op e s d))) = JDrain x i' t" for x i' t
    using pair [of x i' t] that b unfolding bound_from_def by blast
  ultimately show ?thesis by (auto simp: paired_def)
qed

lemma push_job: "sk_job (snd (push_entries a fs s)) = sk_job s"
  by (induction a fs s rule: push_entries.induct) (simp_all add: Let_def split_beta)

text \<open>What is about to be sent was claimed by a drain, and what is delivered was about to be sent.\<close>

lemma op_to_send:
  assumes "f \<in> set (to_send (fst (snd (socket_op e s d))) x)" and "f \<notin> set (to_send s x)"
  obtains env i' t ids fs d' where "e = SoRun env" "sk_job s = JDrain x i' t" "claimed_by env x i' t (s\<lparr>sk_job := JIdle\<rparr>) d ids fs d'" "f \<in> set fs"
proof (cases "\<exists>env. e = SoRun env")
  case False
  with op_shrinks [of e s d] assms have False by (auto simp: shrinks_def to_send_def)
  then show ?thesis ..
next
  case True
  then obtain env where e: "e = SoRun env" ..
  show ?thesis
  proof (cases "sk_job s")
    case JIdle
    with assms show ?thesis by (simp add: e run_job_def)
  next
    case (JPush y fs)
    have "sk_job (snd (push_entries y fs (s\<lparr>sk_job := JIdle\<rparr>))) = JIdle"
      using push_job [of y fs "s\<lparr>sk_job := JIdle\<rparr>"] by simp
    with assms(1) show ?thesis by (simp add: e run_job_def JPush to_send_def split_beta)
  next
    case (JDrain y i' t)
    show ?thesis
    proof (rule drain_claim_cases [of env y i' t s d])
      assume "sk_job (fst (drain_claim env y i' t s d)) = JIdle"
      with assms(1) show ?thesis by (simp add: e run_job_def JDrain to_send_def)
    next
      fix s2 ids fs d'
      assume r: "drain_claim env y i' t s d = (s2\<lparr>sk_job := JPush y fs\<rparr>, d')" "s2 = s\<lparr>sk_job := JIdle\<rparr>" "claimed_by env y i' t s2 d ids fs d'"
      with assms(1) have "y = x" "f \<in> set fs" by (auto simp: e run_job_def JDrain to_send_def split: if_splits)
      with that [OF e] JDrain r show ?thesis by blast
    qed
  qed
qed

lemma frames_sent:
  assumes "FrDeliver f \<in> set (fst (socket_op e s d))"
  shows "\<exists>x. f \<in> set (to_send s x)"
proof -
  have push: "f \<in> set fs" if "FrDeliver f \<in> set (fst (push_entries x fs s'))" for x fs s'
    using that by (induction x fs s' rule: push_entries.induct) (auto simp: Let_def split_beta split: if_splits)
  obtain env x fs where "e = SoRun env" "sk_job s = JPush x fs" "FrDeliver f \<in> set (fst (push_entries x fs (s\<lparr>sk_job := JIdle\<rparr>)))"
    using assms
  proof (cases e)
    case (SoAck env i ref)
    then show ?thesis using assms
      by (auto simp: ack_frame_def send_def Let_def split_beta split: if_splits ack_result.splits option.splits)
  next
    case (SoRecover env ref x c)
    then show ?thesis using assms
      by (auto simp: recover_frame_def send_def Let_def split_beta split: if_splits option.splits bool.splits)
  next
    case (SoProbe env ref x c ms)
    then show ?thesis using assms
      by (auto simp: probe_frame_def send_def Let_def split_beta split: if_splits option.splits bool.splits)
  next
    case (SoRun env)
    then show ?thesis using assms that by (auto simp: run_job_def split_beta split: socket_job.splits)
  qed (auto simp: bind_reset_def unbind_frame_def send_def Let_def split_beta split: if_splits)
  with push show ?thesis by (auto simp: to_send_def)
qed


lemma snapshot_owner:
  assumes "in_flight_wf s" and "y \<in> set (snapshotCurrentSocketDeliverySet s j)"
  shows "\<exists>b k. j \<in> set (bucket_of s b k) \<and> y \<in> set (bucket_of s b k)"
proof -
  from assms(2) obtain owner where o: "js_get (sk_owners s) j = Some owner"
    by (cases "js_get (sk_owners s) j") (auto simp: snapshotCurrentSocketDeliverySet_def)
  with assms(2) have "y \<in> set (bucket_of s (io_agentId owner) (io_chatKey owner))"
    by (auto simp: snapshotCurrentSocketDeliverySet_def bucket_of_def split: option.splits)
  moreover have "j \<in> set (bucket_of s (io_agentId owner) (io_chatKey owner))" using in_flight_wfD(3) [OF assms(1)] o by simp
  ultimately show ?thesis by blast
qed

lemma push_keeps:
  assumes "in_flight_wf s" and "\<forall>f \<in> set fs. fr_id f \<notin> set ids \<and> (x = a \<longrightarrow> fr_chatId f \<noteq> Some c)"
    and "bucket_of s a (inboxChatKey (Some c)) = ids"
  shows "bucket_of (snd (push_entries x fs s)) a (inboxChatKey (Some c)) = ids"
  using assms
proof (induction fs arbitrary: s)
  case (Cons f fs)
  let ?s = "addInboxInFlight x (fr_chatId f) (fr_id f) s"
  note add = add_effect [OF Cons.prems(1), of x "fr_chatId f" "fr_id f"]
  have same: "filter (\<lambda>j. j \<noteq> fr_id f) ids = ids" using Cons.prems(2) by (auto simp: filter_id_conv)
  have b: "bucket_of ?s a (inboxChatKey (Some c)) = ids" using Cons.prems(2,3) by (auto simp: add(2) same)
  show ?case
  proof (cases "sk_open s")
    case True
    with Cons.IH [OF add(1) _ b] Cons.prems(2) show ?thesis by (simp add: Let_def split_beta)
  next
    case False
    with remove_effect(2) [OF add(1), of "[fr_id f]"] b same show ?thesis by (simp add: Let_def)
  qed
qed simp

end
