(* ===== verification/SocketStarvation.thy ===== *)
theory SocketStarvation
  imports SocketSteps
begin

text \<open>
  Two ways in which a chat gets nothing more on a socket: a second bind of an agent whose chat is at its
  cap, and an open circuit, which no acknowledgement can close.
\<close>

section \<open>A chat at its cap\<close>

text \<open>
  The chat \<open>c\<close> of agent \<open>a\<close> has the entries \<open>ids\<close> in flight, as many as it may have, and none of
  them is delivered any more.
\<close>

definition full :: "string \<Rightarrow> string \<Rightarrow> string \<Rightarrow> int list \<Rightarrow> socket_world \<Rightarrow> bool" where
  "full a i c ids w \<longleftrightarrow> world_ok w \<and> paired a i (sw_socket w) \<and>
     bucket_of (sw_socket w) a (inboxChatKey (Some c)) = ids \<and> sk_maxInFlightPerAgentChat (sw_socket w) \<le> int (length ids) \<and>
     (\<forall>r \<in> set (db_rows (sw_db w)). row_id r \<in> set ids \<longrightarrow> part i c r \<and> row_status r \<noteq> StDelivered) \<and>
     (\<forall>x f. f \<in> set (to_send (sw_socket w) x) \<longrightarrow>
        fr_id f \<notin> set ids \<and> (x = a \<longrightarrow> fr_chatId f \<noteq> Some c) \<and> \<not> (fr_inboxId f = i \<and> fr_chatId f = Some c))"

text \<open>Nothing takes the entries away: no acknowledgement of one of them, and no other socket claims from the inbox.\<close>

fun keeps_full :: "string \<Rightarrow> int list \<Rightarrow> socket_event \<Rightarrow> bool" where
  "keeps_full i ids (SoAck env j ref) = (j \<notin> set ids)"
| "keeps_full i ids (SoDb ev) = (\<not> claims ev i)"
| "keeps_full i ids e = True"

lemma full_room: "full a i c ids w \<Longrightarrow> chat_room (sw_socket w) a (Some c) = 0"
  by (simp add: full_def chat_room_def)

lemma full_bucket:
  assumes "full a i c ids w" and "bound_steadily a i e" and "keeps_full i ids e"
  shows "bucket_of (sw_socket (socket_step w e)) a (inboxChatKey (Some c)) = ids"
proof -
  let ?s = "sw_socket w" and ?d = "sw_db w" and ?k = "inboxChatKey (Some c)"
  have wf: "in_flight_wf ?s" and X: "bucket_of ?s a ?k = ids" and td: "table_wf ?d"
    using assms(1) by (simp_all add: full_def world_ok_def caps_ok_def)
  have spared: "bucket_of s' a ?k = ids" if "spares a c ?s s'" for s' using that wf X by (simp add: spares_def)
  have kept: "bucket_of (removeInboxInFlight R s') a ?k = ids" if "in_flight_wf s'" "bucket_of s' a ?k = ids" "set R \<inter> set ids = {}" for R s'
    using that by (auto simp: remove_effect(2) filter_id_conv)
  consider "plain e" | env j ref where "e = SoAck env j ref" | env ref x c' where "e = SoRecover env ref x c'" | env where "e = SoRun env" | x i' where "e = SoBind x i'"
    by (cases e) auto
  then show ?thesis unfolding step_parts
  proof cases
    case 1
    from spared [OF plain_spares(1) [OF assms(2) 1]] show "bucket_of (fst (snd (socket_op e ?s ?d))) a ?k = ids" .
  next
    case (2 env j ref)
    have "bucket_of (fst (snd (ack_frame env j ref ?s ?d))) a ?k = ids"
    proof (rule ack_cases [of env a c ?s j ref ?d])
      show "oe_route env a \<noteq> RouteChanged" using assms(2) 2 by simp
      show "spares a c ?s (fst (snd (ack_frame env j ref ?s ?d))) \<Longrightarrow> ?thesis" by (rule spared)
    next
      fix s1 e' R x i' disp d' current
      assume s1: "shrinks ?s s1" "spares a c ?s s1"
        and ack: "ackThroughEntryIdForBoundAgents (oe_now env) j current (snapshotCurrentSocketDeliverySet s1 j) ?d = (AckOk e' disp R, d')"
        and s': "fst (snd (ack_frame env j ref ?s ?d)) =
          (removeInboxInFlight R (case row_chatId e' of Some c' \<Rightarrow> clearInboxRecoverProgress x (Some c') s1 | None \<Rightarrow> s1))\<lparr>sk_job := JDrain x i' TrAck\<rparr>"
      let ?t = "case row_chatId e' of Some c' \<Rightarrow> clearInboxRecoverProgress x (Some c') s1 | None \<Rightarrow> s1"
      have wf1: "in_flight_wf s1" using s1(1) wf by (simp add: shrinks_def)
      have t: "in_flight_wf ?t = in_flight_wf s1" "bucket_of ?t = bucket_of s1" by (rule same_in_flight; simp split: option.split)+
      have "set R \<subseteq> set (snapshotCurrentSocketDeliverySet s1 j)"
      proof -
        have "ack_effect (oe_now env) j current (snapshotCurrentSocketDeliverySet s1 j) ?d e' disp R d'" using ack_outcome [OF td ack] by simp
        then show ?thesis unfolding ack_effect_def by (elim conjE)
      qed
      moreover have "set (snapshotCurrentSocketDeliverySet s1 j) \<inter> set ids = {}"
      proof (rule ccontr)
        assume "\<not> ?thesis"
        then obtain y where y: "y \<in> set (snapshotCurrentSocketDeliverySet s1 j)" "y \<in> set ids" by blast
        from snapshot_owner [OF wf1 y(1)] obtain b k where b: "j \<in> set (bucket_of s1 b k)" "y \<in> set (bucket_of s1 b k)" by blast
        have "y \<in> set (bucket_of s1 a ?k)" using y(2) spared [OF s1(2)] by simp
        with b(2) have "b = a \<and> k = ?k" using in_flight_wfD(3) [OF wf1] by (metis InboxInFlightOwner.iffs option.inject)
        with b(1) spared [OF s1(2)] have "j \<in> set ids" by simp
        with assms(3) 2 show False by simp
      qed
      ultimately show ?thesis unfolding s' using kept [of ?t R] t wf1 spared [OF s1(2)] by auto
    qed
    with 2 X show "bucket_of (fst (snd (socket_op e ?s ?d))) a ?k = ids" by simp
  next
    case (3 env ref x c')
    have "bucket_of (fst (snd (recover_frame env ref x c' ?s ?d))) a ?k = ids"
    proof (rule recover_cases [of env a c ?s ref x c' ?d])
      show "oe_route env a \<noteq> RouteChanged" using assms(2) 3 by simp
      show "spares a c ?s (fst (snd (recover_frame env ref x c' ?s ?d))) \<Longrightarrow> ?thesis" by (rule spared)
    next
      fix i'
      let ?R = "fst (recoverUnackedForScope i' (Some c') ?d)"
      assume "fst (snd (recover_frame env ref x c' ?s ?d)) = snd (note_reset (inboxRecoverProgressKey x c') ?R ?s) \<or>
        fst (snd (recover_frame env ref x c' ?s ?d)) = (snd (note_reset (inboxRecoverProgressKey x c') ?R ?s))\<lparr>sk_job := JDrain x i' (TrRecover c')\<rparr>"
      moreover have "set ?R \<inter> set ids = {}" using assms(1) by (auto simp: recoverUnackedForScope_def reset_rows_def full_def)
      ultimately show ?thesis using kept [OF wf X] by (auto simp: note_reset_parts)
    qed
    with 3 X show "bucket_of (fst (snd (socket_op e ?s ?d))) a ?k = ids" by simp
  next
    case (4 env)
    have "bucket_of (fst (snd (run_job env ?s ?d))) a ?k = ids"
    proof (cases "sk_job ?s")
      case (JDrain x i' t)
      have "oe_route env a \<noteq> RouteChanged" using assms(2) 4 by simp
      from spared [OF drain_spares [OF this]] show ?thesis by (simp add: run_job_def JDrain)
    next
      case (JPush x fs)
      have "f \<in> set fs \<Longrightarrow> f \<in> set (to_send ?s x)" for f by (simp add: to_send_def JPush)
      then have "\<forall>f \<in> set fs. fr_id f \<notin> set ids \<and> (x = a \<longrightarrow> fr_chatId f \<noteq> Some c)" using assms(1) by (auto simp: full_def)
      with push_keeps [of "?s\<lparr>sk_job := JIdle\<rparr>" fs ids x a c] wf X show ?thesis by (simp add: run_job_def JPush split_beta)
    qed (simp add: run_job_def X)
    with 4 show "bucket_of (fst (snd (socket_op e ?s ?d))) a ?k = ids" by simp
  next
    case (5 x i')
    have "bucket_of (bind_accept x i' ?s) = bucket_of ?s" by (rule same_in_flight) (simp_all add: bind_accept_def)
    with 5 X show "bucket_of (fst (snd (socket_op e ?s ?d))) a ?k = ids" by simp
  qed
qed


lemma full_rows:
  assumes f: "full a i c ids w" and "bound_steadily a i e" and "keeps_full i ids e"
    and r': "r' \<in> set (db_rows (sw_db (socket_step w e)))" "row_id r' \<in> set ids"
  shows "part i c r' \<and> row_status r' \<noteq> StDelivered"
proof -
  let ?s = "sw_socket w" and ?d = "sw_db w"
  have ok: "world_ok w" and pair: "paired a i ?s" and td: "table_wf ?d" and wf: "in_flight_wf ?s" using f by (simp_all add: full_def world_ok_def caps_ok_def)
  have old: "part i c r \<and> row_status r \<noteq> StDelivered" if "r \<in> set (db_rows ?d)" "row_id r \<in> set ids" for r
    using f that by (simp add: full_def)
  have less: "row_id r' < db_nextId ?d" using ok f r'(2) by (auto simp: full_def world_ok_def)
  have event: ?thesis if ev: "r' \<in> set (db_rows (inbox_step ?d ev))" "\<not> claims ev i" for ev
  proof -
    obtain r where r: "r \<in> set (db_rows ?d)" "row_change ev r r'" using row_origin [OF td ev(1)] less by auto
    then have key: "row_key r' = row_key r" by (simp add: change_key)
    then have "row_id r \<in> set ids" using r'(2) by (simp add: row_key_def)
    from old [OF r(1) this] have o: "part i c r" "row_status r \<noteq> StDelivered" by simp_all
    then have "row_status r' \<noteq> StDelivered" using r(2) ev(2) by (auto simp: row_change_def part_def)
    with o(1) key show ?thesis by (simp add: part_def row_key_def)
  qed
  show ?thesis
  proof (cases "\<exists>ev. e = SoDb ev")
    case True
    with event assms(3) r'(1) show ?thesis by (auto simp: step_parts)
  next
    case other: False
    show ?thesis
    proof (cases "\<exists>env x i' t. e = SoRun env \<and> sk_job ?s = JDrain x i' t")
      case True
      then obtain env x i' t where e: "e = SoRun env" and j: "sk_job ?s = JDrain x i' t" by blast
      have db: "sw_db (socket_step w e) = snd (drain_claim env x i' t ?s ?d)" by (simp add: step_parts e run_job_def j)
      show ?thesis
      proof (rule drain_claim_cases [of env x i' t ?s ?d])
        assume "snd (drain_claim env x i' t ?s ?d) = ?d"
        with db r' old show ?thesis by simp
      next
        fix s2 R fs d'
        assume dc: "drain_claim env x i' t ?s ?d = (s2\<lparr>sk_job := JPush x fs\<rparr>, d')" and s2: "s2 = ?s\<lparr>sk_job := JIdle\<rparr>"
          and c: "claimed_by env x i' t s2 ?d R fs d'"
        have R: "set R \<subseteq> row_id ` set (db_rows ?d)" using claimed_ids [OF c] by auto
        have "claim_rows (oe_busy env) (oe_supported env) (oe_now env) i' R ?d = (Inr fs, d')" using c by (simp add: claimed_by_def)
        from claim_ids(2) [OF td this R] have d': "d' = mark_delivered (oe_now env) R ?d" .
        obtain r where r: "r \<in> set (db_rows ?d)" "r' = (if row_id r \<in> set R then r\<lparr>row_status := StDelivered, row_deliveredAt := Some (oe_now env)\<rparr> else r)"
          using r'(1) unfolding db dc by (auto simp: d' mark_delivered_rows)
        then have id: "row_id r \<in> set ids" using r'(2) by (auto split: if_splits)
        have "no_room s2 a c t" using full_room [OF f] by (simp add: no_room_def chat_room_def s2 split: drain_trigger.split)
        moreover have "i' = i \<longleftrightarrow> x = a" using pair j by (auto simp: paired_def)
        ultimately have "\<not> part i c r" if "row_id r \<in> set R" using claimed_out [OF td _ c _ _ r(1) that] wf by (simp add: s2)
        with old [OF r(1) id] r(2) show ?thesis by auto
      qed
    next
      case False
      show ?thesis
      proof (rule op_event [of e ?s ?d])
        show "e \<noteq> SoDb ev" for ev using other by blast
        show "snd (snd (socket_op e ?s ?d)) = ?d \<Longrightarrow> ?thesis" using r' old by (simp add: step_parts)
      next
        fix ev assume ev: "snd (snd (socket_op e ?s ?d)) = inbox_step ?d ev" "\<And>i. claims ev i \<Longrightarrow> \<exists>env. e = SoRun env"
        show ?thesis
        proof (cases "\<exists>env. e = SoRun env")
          case True
          with False have "snd (snd (socket_op e ?s ?d)) = ?d" by (auto simp: run_job_def split_beta split: socket_job.split)
          with r' old show ?thesis by (simp add: step_parts)
        next
          case False
          with event [of ev] ev r'(1) show ?thesis by (auto simp: step_parts)
        qed
      qed
    qed
  qed
qed

lemma full_to_send:
  assumes f: "full a i c ids w" and "bound_steadily a i e"
    and "g \<in> set (to_send (sw_socket (socket_step w e)) x)"
  shows "fr_id g \<notin> set ids \<and> (x = a \<longrightarrow> fr_chatId g \<noteq> Some c) \<and> \<not> (fr_inboxId g = i \<and> fr_chatId g = Some c)"
proof (cases "g \<in> set (to_send (sw_socket w) x)")
  case True
  with f show ?thesis by (auto simp: full_def)
next
  case False
  let ?s = "sw_socket w" and ?d = "sw_db w"
  have pair: "paired a i ?s" and td: "table_wf ?d" and wf: "in_flight_wf (?s\<lparr>sk_job := JIdle\<rparr>)" using f by (simp_all add: full_def world_ok_def caps_ok_def)
  from op_to_send [OF assms(3) [unfolded step_parts] False] obtain env i' t R fs d' where e: "e = SoRun env" and j: "sk_job ?s = JDrain x i' t"
    and c: "claimed_by env x i' t (?s\<lparr>sk_job := JIdle\<rparr>) ?d R fs d'" and g: "g \<in> set fs" by blast
  have "claim_rows (oe_busy env) (oe_supported env) (oe_now env) i' R ?d = (Inr fs, d')" using c by (simp add: claimed_by_def)
  from claim_member [OF this g] obtain r where r: "r \<in> set (db_rows ?d)" "row_id r \<in> set R" "row_id r = fr_id g" "row_chatId r = fr_chatId g"
    "row_inboxId r = fr_inboxId g" by blast
  have "no_room (?s\<lparr>sk_job := JIdle\<rparr>) a c t" using full_room [OF f] by (simp add: no_room_def chat_room_def split: drain_trigger.split)
  moreover have "i' = i \<longleftrightarrow> x = a" using pair j by (auto simp: paired_def)
  ultimately have "\<not> part i c r \<and> (x = a \<longrightarrow> row_chatId r \<noteq> Some c)" using claimed_out [OF td wf c _ _ r(1,2)] by blast
  moreover have "row_id r \<notin> set ids" using calculation f r(1) by (auto simp: full_def)
  ultimately show ?thesis using r(3-5) by (auto simp: part_def)
qed

lemma full_step:
  assumes "full a i c ids w" and "bound_steadily a i e" and "keeps_full i ids e"
  shows "full a i c ids (socket_step w e)"
    and "FrDeliver f \<in> set (fst (socket_op e (sw_socket w) (sw_db w))) \<Longrightarrow> \<not> (fr_inboxId f = i \<and> fr_chatId f = Some c)"
proof -
  have ok: "world_ok w" and pair: "paired a i (sw_socket w)" and wf: "table_wf (sw_db w)" "in_flight_wf (sw_socket w)"
    using assms(1) by (simp_all add: full_def world_ok_def caps_ok_def)
  have "sk_maxInFlightPerAgentChat (sw_socket (socket_step w e)) \<le> int (length ids)"
    using assms(1) op_parts(4) [OF wf(2,1)] by (simp add: full_def step_parts)
  moreover have "paired a i (sw_socket (socket_step w e))" using paired_step [OF pair wf(2) assms(2)] by (simp add: step_parts)
  ultimately show "full a i c ids (socket_step w e)"
    using world_step [OF ok] full_bucket [OF assms] full_rows [OF assms] full_to_send [OF assms(1,2)] unfolding full_def by blast
  assume "FrDeliver f \<in> set (fst (socket_op e (sw_socket w) (sw_db w)))"
  from frames_sent [OF this] assms(1) show "\<not> (fr_inboxId f = i \<and> fr_chatId f = Some c)" unfolding full_def by blast
qed

lemma full_run:
  assumes "full a i c ids w" and "\<forall>e \<in> set es. bound_steadily a i e \<and> keeps_full i ids e"
  shows "full a i c ids (socket_run w es) \<and>
    (\<exists>fs. sw_frames (socket_run w es) = sw_frames w @ fs \<and> (\<forall>f. FrDeliver f \<in> set fs \<longrightarrow> \<not> (fr_inboxId f = i \<and> fr_chatId f = Some c)))"
  using assms
proof (induction es arbitrary: w)
  case (Cons e es)
  note step = full_step [OF Cons.prems(1), of e]
  from Cons.IH [OF step(1)] Cons.prems(2) obtain fs where "full a i c ids (socket_run (socket_step w e) es)"
    "sw_frames (socket_run (socket_step w e) es) = sw_frames (socket_step w e) @ fs"
    "\<forall>f. FrDeliver f \<in> set fs \<longrightarrow> \<not> (fr_inboxId f = i \<and> fr_chatId f = Some c)" by auto
  with step(2) Cons.prems(2) show ?case
    by (auto simp: socket_run_def step_parts intro!: exI [of _ "fst (socket_op e (sw_socket w) (sw_db w)) @ fs"])
qed (simp add: socket_run_def)


text \<open>
  C39. When an agent binds again on a socket on which one of its chats has as many deliveries in flight as
  it may have, the bind resets these deliveries, but they stay in the in-flight set of the socket. From then on no drain and no
  recovery hands out anything of this chat on the socket, neither the deliveries that were reset nor new ones, until
  the client acknowledges one of the old deliveries, unbinds or closes the socket.
\<close>

theorem rebind_at_the_cap_starves:
  assumes "0 \<le> cap" and "0 \<le> chatCap"
    and "w = socket_run (new_world cap chatCap (inbox_run (new_inbox owners versions) evs)) before"
    and "sk_job (sw_socket w) = JIdle" and "\<forall>(x, i') \<in> set (sk_boundAgents (sw_socket w)). i' = i \<longleftrightarrow> x = a"
    and "ids = bucket_of (sw_socket w) a (inboxChatKey (Some c))" and "chatCap \<le> int (length ids)"
    and "\<forall>r \<in> set (db_rows (sw_db w)). row_id r \<in> set ids \<longrightarrow> row_inboxId r = i \<and> row_chatId r = Some c"
    and "\<not> oe_fails env CallReset" and "\<forall>e \<in> set es. bound_steadily a i e \<and> keeps_full i ids e"
    and "w' = socket_run w ([SoBind a i, SoReset env a i] @ es)"
  shows "\<exists>fs. sw_frames w' = sw_frames w @ fs \<and> (\<forall>f. FrDeliver f \<in> set fs \<longrightarrow> \<not> (fr_inboxId f = i \<and> fr_chatId f = Some c))"
proof -
  have fresh: "fresh_world (new_world cap chatCap (inbox_run (new_inbox owners versions) evs))" by (rule fresh_new_world [OF assms(1,2)])
  have ok: "world_ok w" unfolding assms(3) by (rule run_ok [OF fresh])
  have cap: "sk_maxInFlightPerAgentChat (sw_socket w) = chatCap"
    using run_constants [OF socket_worlds.start_inv [OF fresh], of before] by (simp add: assms(3) new_world_def new_socket_def)
  let ?w = "socket_step (socket_step w (SoBind a i)) (SoReset env a i)"
  have ok': "world_ok ?w" by (intro world_step ok)
  have bound: "paired a i (sw_socket ?w)"
    using assms(4,5) update_sub [of a i "sk_boundAgents (sw_socket w)"] by (auto simp: paired_def step_parts bind_accept_def bind_reset_def)
  have bucket: "bucket_of (sw_socket ?w) = bucket_of (sw_socket w)"
    by (rule same_in_flight) (simp_all add: step_parts bind_accept_def bind_reset_def)
  have rows: "db_rows (sw_db ?w) = map (\<lambda>r. if row_inboxId r = i \<and> row_status r = StDelivered then r\<lparr>row_status := StPending\<rparr> else r) (db_rows (sw_db w))"
    using assms(9) by (simp add: step_parts bind_reset_def resetDeliveredForInboxes_def reset_rows_def cong: if_cong)
  have "full a i c ids ?w"
    unfolding full_def bucket assms(6) [symmetric]
  proof (intro conjI)
    show "\<forall>r \<in> set (db_rows (sw_db ?w)). row_id r \<in> set ids \<longrightarrow> part i c r \<and> row_status r \<noteq> StDelivered"
      using assms(8) unfolding rows by (auto simp: part_def)
    show "\<forall>x f. f \<in> set (to_send (sw_socket ?w) x) \<longrightarrow>
        fr_id f \<notin> set ids \<and> (x = a \<longrightarrow> fr_chatId f \<noteq> Some c) \<and> \<not> (fr_inboxId f = i \<and> fr_chatId f = Some c)"
      using assms(4) by (simp add: step_parts bind_accept_def bind_reset_def to_send_def)
    show "sk_maxInFlightPerAgentChat (sw_socket ?w) \<le> int (length ids)"
      using cap assms(7) by (simp add: step_parts bind_accept_def bind_reset_def)
  qed (use ok' bound in simp_all)
  from full_run [OF this assms(10)] obtain fs where fs: "sw_frames (socket_run ?w es) = sw_frames ?w @ fs"
    "\<forall>f. FrDeliver f \<in> set fs \<longrightarrow> \<not> (fr_inboxId f = i \<and> fr_chatId f = Some c)" by blast
  have "sw_frames ?w = sw_frames w @ send (sw_socket ?w) (FrBound a)" by (simp add: step_parts bind_accept_def bind_reset_def send_def)
  with fs assms(11) show ?thesis
    by (auto simp: socket_run_def send_def intro!: exI [of _ "send (sw_socket ?w) (FrBound a) @ fs"])
qed

definition demo_starved :: "socket_event list" where
  "demo_starved = [SoDrain ''b'' ''ib'' TrBind, SoRun demo_op_env, SoRun demo_op_env,
     SoDb (demo_send ''m5'' 5 False), SoDrain ''b'' ''ib'' (TrNotify ''m5''), SoRun demo_op_env, SoRun demo_op_env,
     SoRecover demo_op_env ''ref'' ''b'' ''c'', SoRun demo_op_env, SoRun demo_op_env]"

theorem rebind_at_the_cap_starves_witness:
  "let w = socket_run (new_world 8 3 (inbox_run demo_inbox demo_events)) demo_binding;
       w' = socket_run w ([SoBind ''b'' ''ib'', SoReset demo_op_env ''b'' ''ib''] @ demo_starved)
   in countUnackedForScope ''ib'' (Some ''c'') (sw_db w') = 4 \<and> FrRecoverAccepted ''ref'' ''b'' ''c'' 0 4 \<in> set (sw_frames w') \<and>
     (\<exists>fs. sw_frames w' = sw_frames w @ fs \<and> (\<forall>f. FrDeliver f \<in> set fs \<longrightarrow> \<not> (fr_inboxId f = ''ib'' \<and> fr_chatId f = Some ''c'')))"
proof -
  let ?w = "socket_run (new_world 8 3 (inbox_run (new_inbox [(''ib'', ''b'')] []) demo_events)) demo_binding"
  let ?w' = "socket_run ?w ([SoBind ''b'' ''ib'', SoReset demo_op_env ''b'' ''ib''] @ demo_starved)"
  have c: "countUnackedForScope ''ib'' (Some ''c'') (sw_db ?w') = 4" by code_simp
  have r: "FrRecoverAccepted ''ref'' ''b'' ''c'' 0 4 \<in> set (sw_frames ?w')" by code_simp
  have "sk_job (sw_socket ?w) = JIdle" by code_simp
  moreover have "sk_boundAgents (sw_socket ?w) = [(''b'', ''ib'')]" by code_simp
  moreover have b: "bucket_of (sw_socket ?w) ''b'' (inboxChatKey (Some ''c'')) = [1, 3, 4]" by code_simp
  moreover have "list_all (\<lambda>r. row_inboxId r = ''ib'' \<and> row_chatId r = Some ''c'') (db_rows (sw_db ?w))" by code_simp
  moreover have "\<forall>e \<in> set demo_starved. bound_steadily ''b'' ''ib'' e \<and> keeps_full ''ib'' [1, 3, 4] e"
    by (simp add: demo_starved_def demo_op_env_def demo_send_def)
  moreover have "\<not> oe_fails demo_op_env CallReset" by (simp add: demo_op_env_def)
  ultimately have "\<exists>fs. sw_frames ?w' = sw_frames ?w @ fs \<and> (\<forall>f. FrDeliver f \<in> set fs \<longrightarrow> \<not> (fr_inboxId f = ''ib'' \<and> fr_chatId f = Some ''c''))"
    using rebind_at_the_cap_starves [of 8 3 ?w "[(''ib'', ''b'')]" "[]" demo_events demo_binding "''ib''" "''b''" "[1, 3, 4]" "''c''" demo_op_env demo_starved ?w']
    by (simp add: list_all_iff)
  with c r show ?thesis by (simp add: demo_inbox_def Let_def)
qed

end
