(* ===== verification/SocketCircuit.thy ===== *)
theory SocketCircuit
  imports SocketSteps
begin

text \<open>
  The circuit that stops recoveries without progress: once it is open and nothing of the chat is in flight,
  no acknowledgement can close it.
\<close>

section \<open>An open circuit\<close>

definition circuit_set :: "socket_state \<Rightarrow> string \<Rightarrow> string \<Rightarrow> bool" where
  "circuit_set s a c \<longleftrightarrow> (\<exists>p. js_get (sk_recoverProgress s) (inboxRecoverProgressKey a c) = Some p \<and> rp_open p)"

lemma circuit_set_open: "circuit_set s a c \<Longrightarrow> circuit_open s a c"
  unfolding circuit_set_def circuit_open_def by (blast dest: map_of_SomeD)

definition shut :: "string \<Rightarrow> string \<Rightarrow> string \<Rightarrow> socket_world \<Rightarrow> bool" where
  "shut a i c w \<longleftrightarrow> world_ok w \<and> paired a i (sw_socket w) \<and> nul_free a \<and> agents_nul_free (sw_socket w) \<and> circuit_set (sw_socket w) a c \<and>
     (\<forall>j. sk_job (sw_socket w) \<noteq> JDrain a j (TrRecover c)) \<and>
     (\<forall>r \<in> set (db_rows (sw_db w)). part i c r \<longrightarrow> (\<forall>x k. row_id r \<notin> set (bucket_of (sw_socket w) x k)) \<and>
        (\<forall>x f. f \<in> set (to_send (sw_socket w) x) \<longrightarrow> fr_id f \<noteq> row_id r)) \<and>
     (\<forall>x f. f \<in> set (to_send (sw_socket w) x) \<longrightarrow> \<not> (fr_inboxId f = i \<and> fr_chatId f = Some c))"

text \<open>No bind of the agent, and nobody else acknowledges or silences deliveries.\<close>

fun keeps_shut :: "string \<Rightarrow> socket_event \<Rightarrow> bool" where
  "keeps_shut a (SoBind x i') = (x \<noteq> a \<and> nul_free x)"
| "keeps_shut a (SoDb ev) = (\<forall>r. \<not> acks ev r \<and> \<not> silences ev r)"
| "keeps_shut a e = True"

lemma shut_stopped:
  assumes f: "shut a i c w" and "bound_steadily a i e" and "keeps_shut a e"
  shows "circuit_set (sw_socket (socket_step w e)) a c"
proof -
  let ?s = "sw_socket w" and ?d = "sw_db w" and ?k = "inboxRecoverProgressKey a c"
  have td: "table_wf ?d" and wf: "in_flight_wf ?s" and nf: "nul_free a" "agents_nul_free ?s" and st: "circuit_set ?s a c" and pair: "paired a i ?s"
    using f by (simp_all add: shut_def world_ok_def caps_ok_def)
  have spared: "circuit_set s' a c" if "spares a c ?s s'" for s' using that nf st by (simp add: spares_def circuit_set_def)
  consider "plain e" | env j ref where "e = SoAck env j ref" | env ref x c' where "e = SoRecover env ref x c'" | env where "e = SoRun env" | x i' where "e = SoBind x i'"
    by (cases e) auto
  then show ?thesis unfolding step_parts
  proof cases
    case 1
    from spared [OF plain_spares(1) [OF assms(2) 1]] show "circuit_set (fst (snd (socket_op e ?s ?d))) a c" .
  next
    case (2 env j ref)
    have "circuit_set (fst (snd (ack_frame env j ref ?s ?d))) a c"
    proof (rule ack_cases [of env a c ?s j ref ?d])
      show "oe_route env a \<noteq> RouteChanged" using assms(2) 2 by simp
      show "spares a c ?s (fst (snd (ack_frame env j ref ?s ?d))) \<Longrightarrow> ?thesis" by (rule spared)
    next
      fix s1 e' R x i' disp d' current
      assume s1: "shrinks ?s s1" "spares a c ?s s1"
        and ack: "ackThroughEntryIdForBoundAgents (oe_now env) j current (snapshotCurrentSocketDeliverySet s1 j) ?d = (AckOk e' disp R, d')"
        and R: "R \<noteq> []" "(x, i') \<in> set (sk_boundAgents ?s)" "row_inboxId e' = i'"
        and s': "fst (snd (ack_frame env j ref ?s ?d)) =
          (removeInboxInFlight R (case row_chatId e' of Some c' \<Rightarrow> clearInboxRecoverProgress x (Some c') s1 | None \<Rightarrow> s1))\<lparr>sk_job := JDrain x i' TrAck\<rparr>"
      have eff: "ack_effect (oe_now env) j current (snapshotCurrentSocketDeliverySet s1 j) ?d e' disp R d'" using ack_outcome [OF td ack] by simp
      have nx: "nul_free x" using nf(2) R(2) by (auto simp: agents_nul_free_def)
      have other: "inboxRecoverProgressKey x c' \<noteq> ?k" if c': "row_chatId e' = Some c'" for c'
      proof
        assume "inboxRecoverProgressKey x c' = ?k"
        from key_inj [OF nx nf(1) this] have xc: "x = a" "c' = c" by simp_all
        then have "i' = i" using pair R(2) by (auto simp: paired_def)
        with R(3) c' xc have e': "part i c e'" by (simp add: part_def)
        obtain y where y: "y \<in> set R" using R(1) by (cases R) auto
        have "y \<in> set (snapshotCurrentSocketDeliverySet s1 j)" and
          "y \<in> row_id ` {r \<in> set (db_rows ?d). same_partition e' r \<and> row_notify r \<and> row_id r \<le> j \<and> row_status r \<noteq> StAcked}"
          using eff y unfolding ack_effect_def by (metis subsetD)+
        then obtain r where r: "r \<in> set (db_rows ?d)" "same_partition e' r" "row_id r = y" and "y \<in> set (snapshotCurrentSocketDeliverySet s1 j)" by blast
        then obtain b k where "y \<in> set (bucket_of s1 b k)" using snapshot_bucket by blast
        then have "y \<in> set (bucket_of ?s b k)" using s1(1) wf by (auto simp: shrinks_def)
        moreover have "part i c r" using r(2) e' by (simp add: part_def same_partition_def)
        ultimately show False using f r(1,3) by (auto simp: shut_def)
      qed
      show ?thesis unfolding s' using spared [OF s1(2)] other
        by (cases "row_chatId e'") (auto simp: circuit_set_def clearInboxRecoverProgress_def)
    qed
    with 2 st show "circuit_set (fst (snd (socket_op e ?s ?d))) a c" by simp
  next
    case (3 env ref x c')
    have "circuit_set (fst (snd (recover_frame env ref x c' ?s ?d))) a c"
    proof (rule recover_cases [of env a c ?s ref x c' ?d])
      show "oe_route env a \<noteq> RouteChanged" using assms(2) 3 by simp
      show "spares a c ?s (fst (snd (recover_frame env ref x c' ?s ?d))) \<Longrightarrow> ?thesis" by (rule spared)
    next
      fix i'
      let ?R = "fst (recoverUnackedForScope i' (Some c') ?d)"
      assume x: "(x, i') \<in> set (sk_boundAgents ?s)"
        and no: "\<not> (\<exists>p. js_get (sk_recoverProgress ?s) (inboxRecoverProgressKey x c') = Some p \<and> rp_open p)"
        and s': "fst (snd (recover_frame env ref x c' ?s ?d)) = snd (note_reset (inboxRecoverProgressKey x c') ?R ?s) \<or>
        fst (snd (recover_frame env ref x c' ?s ?d)) = (snd (note_reset (inboxRecoverProgressKey x c') ?R ?s))\<lparr>sk_job := JDrain x i' (TrRecover c')\<rparr>"
      have "?k \<noteq> inboxRecoverProgressKey x c'" using no st by (auto simp: circuit_set_def)
      from note_reset_parts(4) [OF this] s' st show ?thesis by (auto simp: circuit_set_def)
    qed
    with 3 st show "circuit_set (fst (snd (socket_op e ?s ?d))) a c" by simp
  next
    case (4 env)
    have "circuit_set (fst (snd (run_job env ?s ?d))) a c"
    proof (cases "sk_job ?s")
      case (JDrain x i' t)
      have "oe_route env a \<noteq> RouteChanged" using assms(2) 4 by simp
      from spared [OF drain_spares [OF this]] show ?thesis by (simp add: run_job_def JDrain)
    next
      case (JPush x fs)
      have "in_flight_wf (?s\<lparr>sk_job := JIdle\<rparr>)" using wf by simp
      from push_parts(6) [OF this] st show ?thesis by (simp add: run_job_def JPush split_beta circuit_set_def)
    qed (simp add: run_job_def st)
    with 4 show "circuit_set (fst (snd (socket_op e ?s ?d))) a c" by simp
  next
    case (5 x i')
    with assms(3) clear_progress_get [OF nf(1), where a' = x and c = c and s = ?s] st show "circuit_set (fst (snd (socket_op e ?s ?d))) a c"
      by (simp add: bind_accept_def circuit_set_def)
  qed
qed

lemma shut_to_send:
  assumes f: "shut a i c w" and "bound_steadily a i e"
    and "g \<in> set (to_send (sw_socket (socket_step w e)) x)" and "g \<notin> set (to_send (sw_socket w) x)"
  shows "\<not> (fr_inboxId g = i \<and> fr_chatId g = Some c) \<and>
    (\<exists>r \<in> set (db_rows (sw_db w)). row_id r = fr_id g \<and> \<not> part i c r)"
proof -
  let ?s = "sw_socket w" and ?d = "sw_db w"
  have pair: "paired a i ?s" and td: "table_wf ?d" and wf: "in_flight_wf (?s\<lparr>sk_job := JIdle\<rparr>)" and st: "circuit_set ?s a c"
    using f by (simp_all add: shut_def world_ok_def caps_ok_def)
  from op_to_send [OF assms(3) [unfolded step_parts] assms(4)] obtain env i' t R fs d' where e: "e = SoRun env" and j: "sk_job ?s = JDrain x i' t"
    and c: "claimed_by env x i' t (?s\<lparr>sk_job := JIdle\<rparr>) ?d R fs d'" and g: "g \<in> set fs" by blast
  have "claim_rows (oe_busy env) (oe_supported env) (oe_now env) i' R ?d = (Inr fs, d')" using c by (simp add: claimed_by_def)
  from claim_member [OF this g] obtain r where r: "r \<in> set (db_rows ?d)" "row_id r \<in> set R" "row_id r = fr_id g" "row_chatId r = fr_chatId g"
    "row_inboxId r = fr_inboxId g" by blast
  have "circuit_open (?s\<lparr>sk_job := JIdle\<rparr>) a c" using circuit_set_open [OF st] by (simp add: circuit_open_def)
  moreover have "t \<noteq> TrRecover c" if "x = a" using f j that by (auto simp: shut_def)
  ultimately have "x = a \<Longrightarrow> no_room (?s\<lparr>sk_job := JIdle\<rparr>) a c t" by (auto simp: no_room_def split: drain_trigger.split)
  moreover have "i' = i \<longleftrightarrow> x = a" using pair j by (auto simp: paired_def)
  ultimately have "\<not> part i c r" using claimed_out [OF td wf c _ _ r(1,2)] by blast
  with r show ?thesis by (auto simp: part_def)
qed

lemma shut_step:
  assumes f: "shut a i c w" and e: "bound_steadily a i e" "keeps_shut a e"
  shows "shut a i c (socket_step w e)"
    and "FrDeliver g \<in> set (fst (socket_op e (sw_socket w) (sw_db w))) \<Longrightarrow> \<not> (fr_inboxId g = i \<and> fr_chatId g = Some c)"
proof -
  let ?s = "sw_socket w" and ?d = "sw_db w" and ?s' = "sw_socket (socket_step w e)"
  have ok: "world_ok w" and pair: "paired a i ?s" and td: "table_wf ?d" and wf: "in_flight_wf ?s" and nf: "nul_free a" "agents_nul_free ?s"
    and st: "circuit_set ?s a c" using f by (simp_all add: shut_def world_ok_def caps_ok_def)
  have b: "bound_from e ?s ?s'" using op_bound [OF wf e(1)] by (simp add: step_parts)
  have free: "agents_nul_free ?s'"
  proof -
    have "nul_free x" if "(x, i') \<in> set (sk_boundAgents ?s')" for x i'
    proof (cases "e = SoBind x i'")
      case True
      with e(2) show ?thesis by simp
    next
      case False
      with b that have "(x, i') \<in> set (sk_boundAgents ?s)" by (auto simp: bound_from_def)
      with nf(2) show ?thesis by (auto simp: agents_nul_free_def)
    qed
    then show ?thesis by (auto simp: agents_nul_free_def)
  qed
  have job: "sk_job ?s' \<noteq> JDrain a j (TrRecover c)" for j
  proof
    assume "sk_job ?s' = JDrain a j (TrRecover c)"
    with b have "sk_job ?s = JDrain a j (TrRecover c) \<or> e = SoDrain a j (TrRecover c) \<or> \<not> circuit_set ?s a c"
      unfolding bound_from_def circuit_set_def by blast
    with f e(1) st show False by (auto simp: shut_def)
  qed
  have sent: "\<not> (fr_inboxId g = i \<and> fr_chatId g = Some c)" if "g \<in> set (to_send ?s' x)" for x g
  proof (cases "g \<in> set (to_send ?s x)")
    case True
    with f show ?thesis unfolding shut_def by blast
  next
    case False
    with shut_to_send [OF f e(1) that] show ?thesis by blast
  qed
  have old: "row_id r \<notin> set (bucket_of ?s' x k) \<and> (g \<in> set (to_send ?s' x) \<longrightarrow> fr_id g \<noteq> row_id r)"
    if r': "r' \<in> set (db_rows (sw_db (socket_step w e)))" "part i c r'" and r: "r = r'" for r r' x k g
  proof -
    have known: "y < db_nextId ?d" if "y \<in> set (bucket_of ?s x k) \<or> (\<exists>x. g \<in> set (to_send ?s x) \<and> fr_id g = y)" for y x k g
      using ok that by (auto simp: world_ok_def)
    have apart: "row_id r' \<notin> set (bucket_of ?s x k) \<and> (g \<in> set (to_send ?s x) \<longrightarrow> fr_id g \<noteq> row_id r')" for x k g
    proof (cases "\<exists>q \<in> set (db_rows ?d). row_key q = row_key r'")
      case True
      then obtain q where "q \<in> set (db_rows ?d)" "row_key q = row_key r'" by blast
      then have "part i c q" "row_id q = row_id r'" "q \<in> set (db_rows ?d)" using r'(2) by (auto simp: part_def row_key_def)
      with f show ?thesis by (metis shut_def)
    next
      case False
      with rows_after [OF td r'(1) [unfolded step_parts]] have "db_nextId ?d \<le> row_id r'" by blast
      with known [of "row_id r'" x k g] show ?thesis by fastforce
    qed
    have "fr_id g \<noteq> row_id r'" if g: "g \<in> set (to_send ?s' x)" for g x
    proof (cases "g \<in> set (to_send ?s x)")
      case False
      from shut_to_send [OF f e(1) g False] obtain q where q: "q \<in> set (db_rows ?d)" "row_id q = fr_id g" "\<not> part i c q" by blast
      show ?thesis
      proof
        assume same: "fr_id g = row_id r'"
        have "row_id q < db_nextId ?d" using table_wfD(2) [OF td q(1)] .
        with same q(2) rows_after [OF td r'(1) [unfolded step_parts]] obtain p where p: "p \<in> set (db_rows ?d)" "row_key p = row_key r'" by auto
        with same q(2) have "row_id p = row_id q" by (simp add: row_key_def)
        with row_unique [OF td p(1) q(1)] have "p = q" by blast
        with p(2) q(3) r'(2) show False by (simp add: part_def row_key_def)
      qed
    qed (use apart in blast)
    moreover have "row_id r' \<notin> set (bucket_of ?s' x k)"
    proof
      assume "row_id r' \<in> set (bucket_of ?s' x k)"
      from op_parts(1) [OF wf td this [unfolded step_parts]] apart show False by blast
    qed
    ultimately show ?thesis using r by blast
  qed
  show "shut a i c (socket_step w e)" unfolding shut_def
    using world_step [OF ok] paired_step [OF pair wf e(1)] nf(1) free shut_stopped [OF f e] job sent old by (simp add: step_parts)
  assume "FrDeliver g \<in> set (fst (socket_op e ?s ?d))"
  from frames_sent [OF this] f show "\<not> (fr_inboxId g = i \<and> fr_chatId g = Some c)" unfolding shut_def by blast
qed

text \<open>A waking delivery of the chat stays as it is.\<close>

lemma shut_owed:
  assumes f: "shut a i c w" and e: "keeps_shut a e" and r: "r \<in> set (db_rows (sw_db w))" "part i c r" "row_notify r" "row_status r \<noteq> StAcked"
  shows "\<exists>r' \<in> set (db_rows (sw_db (socket_step w e))). row_key r' = row_key r \<and> row_notify r' \<and> row_status r' \<noteq> StAcked"
proof -
  let ?s = "sw_socket w" and ?d = "sw_db w"
  have td: "table_wf ?d" and wf: "in_flight_wf ?s" using f by (simp_all add: shut_def world_ok_def caps_ok_def)
  have event: "\<exists>r' \<in> set (db_rows (inbox_step ?d ev)). row_key r' = row_key r \<and> row_notify r' \<and> row_status r' \<noteq> StAcked"
    if ev: "\<not> acks ev r" "\<not> silences ev r" for ev
  proof -
    obtain r' where r': "r' \<in> set (db_rows (inbox_step ?d ev))" "row_change ev r r'" using step_row [OF td r(1,3)] by blast
    then have "row_notify r' \<and> row_status r' \<noteq> StAcked" using r(3,4) ev by (auto simp: row_change_def)
    with r' change_key show ?thesis by blast
  qed
  show ?thesis
  proof (cases "\<exists>ev. e = SoDb ev")
    case True
    then obtain ev where ev: "e = SoDb ev" ..
    with e event [of ev] show ?thesis by (simp add: step_parts)
  next
    case False
    show ?thesis unfolding step_parts
    proof (rule op_event [of e ?s ?d])
      show "snd (snd (socket_op e ?s ?d)) = ?d \<Longrightarrow>
        \<exists>r' \<in> set (db_rows (snd (snd (socket_op e ?s ?d)))). row_key r' = row_key r \<and> row_notify r' \<and> row_status r' \<noteq> StAcked"
        using r by auto
    next
      fix ev assume ev: "snd (snd (socket_op e ?s ?d)) = inbox_step ?d ev" "\<And>r. \<not> silences ev r"
        "\<And>r. acks ev r \<Longrightarrow> \<exists>env i ref. e = SoAck env i ref \<and> row_id r \<le> i \<and>
          (\<exists>s1. shrinks ?s s1 \<and> row_id r \<in> set (snapshotCurrentSocketDeliverySet s1 i))"
      have "\<not> acks ev r"
      proof
        assume "acks ev r"
        from ev(3) [OF this] obtain s1 j where s1: "shrinks ?s s1" "row_id r \<in> set (snapshotCurrentSocketDeliverySet s1 j)" by blast
        then obtain b k where "row_id r \<in> set (bucket_of s1 b k)" using snapshot_bucket by blast
        then have "row_id r \<in> set (bucket_of ?s b k)" using s1(1) wf by (auto simp: shrinks_def)
        with f r(1,2) show False by (auto simp: shut_def)
      qed
      with event [of ev] ev show "\<exists>r' \<in> set (db_rows (snd (snd (socket_op e ?s ?d)))). row_key r' = row_key r \<and> row_notify r' \<and> row_status r' \<noteq> StAcked"
        by simp
    qed (use False in blast)
  qed
qed


lemma shut_run:
  assumes "shut a i c w" and "\<forall>e \<in> set es. bound_steadily a i e \<and> keeps_shut a e"
    and "r \<in> set (db_rows (sw_db w))" and "part i c r" and "row_notify r" and "row_status r \<noteq> StAcked"
  shows "shut a i c (socket_run w es) \<and>
    (\<exists>r' \<in> set (db_rows (sw_db (socket_run w es))). row_key r' = row_key r \<and> row_notify r' \<and> row_status r' \<noteq> StAcked) \<and>
    (\<exists>fs. sw_frames (socket_run w es) = sw_frames w @ fs \<and> (\<forall>f. FrDeliver f \<in> set fs \<longrightarrow> \<not> (fr_inboxId f = i \<and> fr_chatId f = Some c)))"
  using assms
proof (induction es arbitrary: w r)
  case (Cons e es)
  have e: "bound_steadily a i e" "keeps_shut a e" using Cons.prems(2) by simp_all
  note step = shut_step [OF Cons.prems(1) e]
  obtain r1 where r1: "r1 \<in> set (db_rows (sw_db (socket_step w e)))" "row_key r1 = row_key r" "row_notify r1" "row_status r1 \<noteq> StAcked"
    using shut_owed [OF Cons.prems(1) e(2) Cons.prems(3-6)] by blast
  have "part i c r1" using r1(2) Cons.prems(4) by (simp add: part_def row_key_def)
  from Cons.IH [OF step(1) _ r1(1) this r1(3,4)] Cons.prems(2) obtain fs where "shut a i c (socket_run (socket_step w e) es)"
    "\<exists>r' \<in> set (db_rows (sw_db (socket_run (socket_step w e) es))). row_key r' = row_key r1 \<and> row_notify r' \<and> row_status r' \<noteq> StAcked"
    "sw_frames (socket_run (socket_step w e) es) = sw_frames (socket_step w e) @ fs"
    "\<forall>f. FrDeliver f \<in> set fs \<longrightarrow> \<not> (fr_inboxId f = i \<and> fr_chatId f = Some c)" by auto
  with step(2) r1(2) show ?case
    by (auto simp: socket_run_def step_parts intro!: exI [of _ "fst (socket_op e (sw_socket w) (sw_db w)) @ fs"])
qed (auto simp: socket_run_def)

text \<open>
  C40. Take a socket on which the circuit of a chat is open, no job runs, its agent (no agent id has a NUL byte)
  is the only one bound to its inbox, and none of the chat's deliveries is
  in flight, which is how a recovery leaves it that reset every delivery of the chat it had in flight. As
  long as nobody else acknowledges or silences deliveries and the agent is not bound again or rerouted, the
  circuit stays open whatever the client sends: acknowledgements, recoveries and probes, as well as
  notifications, repairs and new messages, leave the deliveries of the chat unsettled and hand none of them
  out. So in this state an acknowledgement does not release the chat. (A delivery that an earlier bind on
  the same socket reset can still be in flight when the circuit opens; acknowledging it does release the chat.)
\<close>

theorem open_circuit_stays_open:
  assumes "0 \<le> cap" and "0 \<le> chatCap"
    and "w = socket_run (new_world cap chatCap (inbox_run (new_inbox owners versions) evs)) before"
    and "sk_job (sw_socket w) = JIdle"
    and "\<forall>(x, i') \<in> set (sk_boundAgents (sw_socket w)). CHR 0x00 \<notin> set x \<and> (i' = i \<longleftrightarrow> x = a)" and "CHR 0x00 \<notin> set a"
    and "js_get (sk_recoverProgress (sw_socket w)) (inboxRecoverProgressKey a c) = Some p" and "rp_open p"
    and "\<forall>q \<in> set (db_rows (sw_db w)). row_inboxId q = i \<and> row_chatId q = Some c \<longrightarrow> js_get (sk_owners (sw_socket w)) (row_id q) = None"
    and "\<forall>e \<in> set es. bound_steadily a i e \<and> keeps_shut a e" and "w' = socket_run w es"
    and "r \<in> set (db_rows (sw_db w))" and "row_inboxId r = i" and "row_chatId r = Some c" and "row_notify r" and "row_status r \<noteq> StAcked"
  shows "(\<exists>p. js_get (sk_recoverProgress (sw_socket w')) (inboxRecoverProgressKey a c) = Some p \<and> rp_open p) \<and>
    (\<exists>r' \<in> set (db_rows (sw_db w')). row_key r' = row_key r \<and> row_notify r' \<and> row_status r' \<noteq> StAcked) \<and>
    (\<exists>fs. sw_frames w' = sw_frames w @ fs \<and> (\<forall>f. FrDeliver f \<in> set fs \<longrightarrow> \<not> (fr_inboxId f = i \<and> fr_chatId f = Some c)))"
proof -
  have ok: "world_ok w" unfolding assms(3) by (rule run_ok [OF fresh_new_world [OF assms(1,2)]])
  then have wf: "in_flight_wf (sw_socket w)" by (simp add: world_ok_def caps_ok_def)
  have "to_send (sw_socket w) x = []" for x using assms(4) by (simp add: to_send_def)
  moreover have "row_id q \<notin> set (bucket_of (sw_socket w) x k)" if "q \<in> set (db_rows (sw_db w))" "part i c q" for q x k
    using assms(9) that in_flight_wfD(3) [OF wf] by (simp add: part_def)
  moreover have "paired a i (sw_socket w)" "agents_nul_free (sw_socket w)"
    using assms(4,5) by (auto simp: paired_def agents_nul_free_def nul_free_def)
  ultimately have "shut a i c w" using ok assms(4,6-8) by (simp add: shut_def circuit_set_def nul_free_def)
  from shut_run [OF this assms(10,12) _ assms(15,16)] assms(13,14) show ?thesis
    unfolding assms(11) by (auto simp: part_def shut_def circuit_set_def)
qed

definition demo_opened :: "socket_event list" where
  "demo_opened = demo_binding @ concat (replicate 3 [SoRecover demo_op_env ''ref'' ''b'' ''c'', SoRun demo_op_env, SoRun demo_op_env])"

definition demo_locked_out :: "socket_event list" where
  "demo_locked_out = [SoAck demo_op_env 4 (Some ''ack''), SoDb (demo_send ''m5'' 5 False), SoDrain ''b'' ''ib'' (TrNotify ''m5''),
     SoRun demo_op_env, SoRun demo_op_env, SoRecover demo_op_env ''again'' ''b'' ''c'']"

theorem open_circuit_stays_open_witness:
  "let w = socket_run (new_world 8 3 (inbox_run demo_inbox demo_events)) demo_opened; w' = socket_run w demo_locked_out
   in FrAckRejected 4 ''ack'' NotFoundOrNotBound \<in> set (sw_frames w') \<and> FrRecoverRejected ''again'' ''b'' ''c'' ''recover_failed'' \<in> set (sw_frames w') \<and>
     (\<exists>p. js_get (sk_recoverProgress (sw_socket w')) (inboxRecoverProgressKey ''b'' ''c'') = Some p \<and> rp_open p)"
proof -
  let ?w = "socket_run (new_world 8 3 (inbox_run (new_inbox [(''ib'', ''b'')] []) demo_events)) demo_opened"
  let ?w' = "socket_run ?w demo_locked_out" and ?r = "demo_row 1 (sw_db ?w)"
  let ?p = "\<lparr>rp_resetSignature = ''1,3,4'', rp_consecutiveResets = 3, rp_open = True\<rparr>"
  have f: "FrAckRejected 4 ''ack'' NotFoundOrNotBound \<in> set (sw_frames ?w')"
    "FrRecoverRejected ''again'' ''b'' ''c'' ''recover_failed'' \<in> set (sw_frames ?w')" by code_simp+
  have s: "sk_job (sw_socket ?w) = JIdle" "sk_boundAgents (sw_socket ?w) = [(''b'', ''ib'')]"
    "js_get (sk_recoverProgress (sw_socket ?w)) (inboxRecoverProgressKey ''b'' ''c'') = Some ?p" "sk_owners (sw_socket ?w) = []" by code_simp+
  have r: "?r \<in> set (db_rows (sw_db ?w))" "row_inboxId ?r = ''ib''" "row_chatId ?r = Some ''c''" "row_notify ?r" "row_status ?r \<noteq> StAcked"
    by code_simp+
  have e: "\<forall>e \<in> set demo_locked_out. bound_steadily ''b'' ''ib'' e \<and> keeps_shut ''b'' e"
    by (simp add: demo_locked_out_def demo_op_env_def demo_send_def)
  have "\<exists>p. js_get (sk_recoverProgress (sw_socket ?w')) (inboxRecoverProgressKey ''b'' ''c'') = Some p \<and> rp_open p"
    using open_circuit_stays_open [OF _ _ refl s(1) _ _ s(3) _ _ e refl r] by (simp add: s(2,4))
  with f show ?thesis by (simp add: demo_inbox_def Let_def)
qed

end
