(* ===== verification/Spec2Isabelle.thy ===== *)
theory Spec2Isabelle
  imports InboxProperties RetryProperties FenceProperties RegistryProperties ProjectionProperties RouteProperties SlotProperties ResetTimers SocketStarvation SocketCircuit
begin

text \<open>
  \<^bold>\<open>First Tree agent runtime: a verification library.\<close>

  First Tree lets teams of agents work in shared chats. The client process of an agent
  (\<open>packages/client\<close>) receives deliveries of its inbox over a socket, runs them through a provider (a
  coding agent with side effects), and acknowledges them to the server. The server redelivers what is not
  acknowledged, so the client must not lose a delivery, must not acknowledge work it has not handled, and
  must not repeat a provider turn whose effects are already visible. This library models the part of the
  client that decides these questions, \<open>packages/client/src/runtime\<close>, and its counterpart in the server
  (\<open>packages/server\<close>), the inbox table and the socket that delivers from it, and proves that they do so.

  \<^bold>\<open>How the parts fit together.\<close> A delivery enters \<open>InboxDeliveryCoordinator.receive\<close>, which tracks it and
  hands it to the dispatcher. The session runtime opens a route (\<open>RouteTeardownAuthority\<close>), claims a slot
  (\<open>SlotSchedulerAuthority\<close>), and calls the provider. A turn that may have effects takes a durable fence
  (\<open>ReplayFenceStore\<close>) before it runs. A failure is classified (\<open>error-taxonomy\<close>,
  \<open>provider-retry-policy\<close>, \<open>provider-attempt\<close>) and retried or stopped. A finished turn is acknowledged
  through the ordered queue of the chat. A recovery asks the server to redeliver what is left. The session
  projection keeps the sessions, their resume mappings, their persistence (\<open>SessionRegistry\<close>), and what the
  server is told about them. A Reset closes the admission of a chat (\<open>ResetReplayAuthority\<close>) until the
  server has confirmed it.

  On the server a message is fanned out to the inboxes of its chat, as rows that wake their recipient or as
  silent context. The socket of the client claims waiting rows within its caps and pushes them; an
  acknowledgement settles a prefix of a chat, a recovery or a bind makes delivered rows wait again. The client's
  calls \<open>ackEntry\<close>, \<open>recoverChat\<close> and the probe of \<open>ResetReplayAuthority\<close> are the frames that the socket answers.
  The two sides are proved apart: what the server answers is an event of the client's models, and what the
  client sends is an event of the socket's model.

  \<^bold>\<open>Theories.\<close> The paths are under \<open>packages/client/src/runtime/\<close>, those of \<open>InboxTable\<close> and
  \<open>SocketDelivery\<close> under \<open>packages/server/src/\<close>.

    \<^item> \<open>JsBase\<close>, \<open>RegExp\<close>, \<open>Disk\<close>, \<open>RuntimeTypes\<close>: the JavaScript maps, sets, strings and patterns the code uses,
      JSON files with failing calls, and the data the components exchange.
    \<^item> \<open>Reachability\<close>, \<open>HeldFacts\<close>: the interfaces of inductive invariants and of facts that are held
      until they are released, as locales. They are interpreted on the components below.
    \<^item> \<open>Dedup\<close>: \<open>deduplicator.ts\<close>, with the locale of a window of recent ids.
    \<^item> \<open>ErrorTaxonomy\<close>, \<open>RetryPolicy\<close>, \<open>ProviderAttempt\<close>: \<open>error-taxonomy.ts\<close>,
      \<open>provider-support/binary-failure.ts\<close>, \<open>provider-retry-policy.ts\<close>, \<open>provider-attempt.ts\<close>.
      \<open>RetryProperties\<close> shows which failures are retried, how often and after which delay.
    \<^item> \<open>InboxDelivery\<close>: \<open>inbox-delivery-coordinator.ts\<close>. One definition per method; a method that awaits
      is cut at its awaits, and the answers of the server are events that come in any order.
      \<open>InboxLemmas\<close> (effect of each event on the ledgers), \<open>InboxOutputs\<close> (what is sent),
      \<open>InboxInvariants\<close>, \<open>InboxEvolution\<close> (phases), \<open>InboxDebt\<close> carry \<open>InboxProperties\<close>: custody,
      acknowledgements, deliveries, recoveries, isolation of chats.
    \<^item> \<open>ReplayFence\<close>, \<open>FenceProperties\<close>: \<open>replay-fence.ts\<close>; fences are atomic and survive crashes.
    \<^item> \<open>SessionRegistry\<close>, \<open>RegistryProperties\<close>: \<open>session-registry.ts\<close>; round trip, debouncing, Reset nonces.
    \<^item> \<open>SessionProjection\<close>, \<open>ProjectionProperties\<close>: \<open>session-projection-authority.ts\<close>; the view of the
      server, the aggregate, bounds of the mappings, restart.
    \<^item> \<open>RouteTeardown\<close>, \<open>RouteProperties\<close>: \<open>route-teardown-authority.ts\<close>; a promise is a shutdown attempt and
      the waiters on it. Superseded routes stay fenced, shutdowns of a handler are serial, a debt holds the
      admission of its chat back.
    \<^item> \<open>SlotScheduler\<close>, \<open>RetryFlight\<close>: \<open>slot-scheduler-authority.ts\<close> and the operations of \<open>session-runtime.ts\<close> that
      start, resume, suspend, fail, retire, terminate and shut down sessions as far as they act on slots and retries.
      \<open>executeRetry\<close> is a flight with a phase per await (\<open>flight_step\<close>), a termination one with three phases (\<open>terminate_begins\<close>
      to \<open>terminate_ends\<close>); \<open>sched_step\<close> takes any event in any order. \<open>SlotLemmas\<close> keeps the slots within a budget that each
      termination overdraws by at most one, \<open>SlotTimers\<close> keeps timers tracked, \<open>SlotFlights\<close> ranks the phases and shows that no operation
      reopens a closed admission, \<open>SlotProperties\<close> states the results.
    \<^item> \<open>ResetReplay\<close>, \<open>ResetProperties\<close>, \<open>ResetTimers\<close>: \<open>reset-replay-authority.ts\<close>. A probe of the server is a
      round that its answer continues, \<open>reset_step\<close> takes any event in any order, and the locale
      \<open>replay_invariant\<close> says what each operation owes to an invariant. A Reset keeps its chat closed until its
      own release, a fence falls only to a settlement, and the recovery that follows is retried until accepted.
    \<^item> \<open>InboxTable\<close>: the server's inbox, \<open>services/chat/inbox.ts\<close> with its table (\<open>db/schema\<close>), the
      payloads (\<open>message-dispatcher.ts\<close>), and the fan-out of \<open>message.ts\<close>; \<open>inbox_step\<close> takes one
      transaction. \<open>TableProperties\<close>: what is owed stays owed, what is settled stays settled, what an
      acknowledgement commits, which deliveries a fair claim takes. \<open>TableOrder\<close>: order of a chat, silent context, redelivery.
    \<^item> \<open>SocketDelivery\<close>: \<open>api/agent/ws-client/inbox-delivery.ts\<close> and the parts of \<open>connection-context.ts\<close> and
      \<open>agent-frames.ts\<close> that change its state. The operations of a socket run one at a time; a drain is two
      steps, its claim and its push, and bind, unbind and close may fall between (\<open>socket_step\<close>). \<open>SocketLemmas\<close> (the
      in-flight sets), \<open>SocketProperties\<close> (caps and custody as invariants of runs), \<open>SocketCustody\<close> (who may settle),
      \<open>SocketSteps\<close>, \<open>SocketStarvation\<close> and \<open>SocketCircuit\<close> (two ways in which a chat stops).

  \<^bold>\<open>Conventions.\<close> Maps and sets keep insertion order, as in JavaScript. An absent optional field is \<open>None\<close>. A
  thrown error is the left value of a sum. Times are milliseconds as integers. Objects with an identity
  carry a number (\<open>tr_oid\<close>, \<open>ps_oid\<close>). Clocks, random numbers, file system failures, answers of the
  server and of the provider are arguments or events. Log calls are left out.

  \<^bold>\<open>Bounds and fuel.\<close> The search for the cause of a provider failure follows at most eight causes, as the
  code does. The regular expression matcher terminates by a measure on the pattern and the text. There is
  no other fuel: the drain of the queue for slots terminates by the length of the queue, and a retry by the
  rank of its phases. Rank and budget of a fair claim are natural numbers, a negative budget counts as none. The 32 bit conversion in \<open>parseResetsInDurationMs\<close> and the 31 bits of a timer are
  modelled as such.

  \<^bold>\<open>Not modelled.\<close> Provider adapters, the client's socket and HTTP code, the command line, the web console
  and most of the server are I/O around libraries that are not under the repository's control. Of the server only the
  inbox and its socket are modelled; the validation of a message before its fan-out and the checks before a bind
  is accepted are left out. A transaction of the database is one step: rows locked by another one are an argument (they
  are skipped), deadlocks and failing commits are failing calls (\<open>oe_fails\<close>), and rows become visible in the order of
  their numbers, which PostgreSQL does not promise for concurrent inserts. A frame that leaves the socket is
  recorded, not received. Of the orchestration in
  \<open>session-runtime.ts\<close> only the operations that end, start, resume, suspend or retire a session and the shutdown are modelled,
  cut at their awaits, and as far as they act on slots and retries; the late removal of a suspended entry whose
  first start was canceled is not an event of its own. Callbacks of the host that re-enter a component during
  a loop are not interleaved inside that loop. Floating point is not modelled: delays are rational numbers
  rounded as the code rounds them.
\<close>

end
